(* ===== verification/Prelude.thy ===== *)
theory Prelude
  imports Complex_Main "HOL-Library.Multiset" "HOL-Library.List_Lexorder" "HOL-Library.Char_ord"
begin

text \<open>
  Shared vocabulary of the development: the collections of simplification
  facts the component theories fill, the model of Go's error results, and the
  model of \<^verbatim>\<open>sort.SliceStable\<close> (\<^verbatim>\<open>sort.Slice\<close>, \<^verbatim>\<open>sort.Strings\<close>) with its laws.

  Go strings are byte strings: \<^typ>\<open>string\<close>, ordered lexicographically by byte
  value, which is the order of the theories List_Lexorder and Char_ord.
\<close>

named_theorems go_defs "definitions of Go operations that proofs unfold"

section \<open>Results\<close>

text \<open>
  A Go function returning \<^verbatim>\<open>(T, error)\<close> is a sum: \<^term>\<open>Inl e\<close> is the error,
  \<^term>\<open>Inr v\<close> the value.
\<close>

type_synonym ('e, 'a) result = "'e + 'a"

fun bind_result :: "('e, 'a) result \<Rightarrow> ('a \<Rightarrow> ('e, 'b) result) \<Rightarrow> ('e, 'b) result" where
  "bind_result (Inl e) f = Inl e"
| "bind_result (Inr v) f = f v"

lemma bind_result_eq_Inr:
  "bind_result r f = Inr v \<longleftrightarrow> (\<exists>u. r = Inr u \<and> f u = Inr v)"
  by (cases r) auto

text \<open>A chain of checks, each an early return of its error.\<close>

lemma case_option_chain:
  "(case a of None \<Rightarrow> b | Some e \<Rightarrow> Some e) = None \<longleftrightarrow> a = None \<and> b = None"
  "(case a of None \<Rightarrow> b | Some e \<Rightarrow> Some e) = Some x \<longleftrightarrow> a = Some x \<or> a = None \<and> b = Some x"
  by (cases a; auto)+

lemma le_div_iff_mult_le:
  assumes "0 < (i :: int)"
  shows "g \<le> x div i \<longleftrightarrow> g * i \<le> x"
proof
  assume "g \<le> x div i"
  then have "g * i \<le> (x div i) * i" using assms by (intro mult_right_mono) auto
  also have "\<dots> \<le> x"
    using div_mult_mod_eq [of x i] pos_mod_sign [OF assms, of x] by linarith
  finally show "g * i \<le> x" .
next
  assume "g * i \<le> x"
  then have "(g * i) div i \<le> x div i" using assms by (intro zdiv_mono1)
  then show "g \<le> x div i" using assms by simp
qed

section \<open>List lemmas\<close>

lemma find_SomeD: "find P xs = Some x \<Longrightarrow> x \<in> set xs \<and> P x"
  by (induction xs) (auto split: if_splits)

lemma length_filter_split:
  "length xs = length (filter P xs) + length (filter (\<lambda>x. \<not> P x) xs)"
  by (simp add: sum_length_filter_compl)

lemma filter_all_none:
  "(\<And>x. x \<in> set xs \<Longrightarrow> \<not> P x) \<Longrightarrow> filter P xs = []"
  by (induction xs) auto

lemma filter_all_id:
  "(\<And>x. x \<in> set xs \<Longrightarrow> P x) \<Longrightarrow> filter P xs = xs"
  by (induction xs) auto

section \<open>Sorting\<close>

text \<open>
  \<^verbatim>\<open>sort.SliceStable(xs, less)\<close> sorts blocks of twenty elements by insertion
  (each element is moved left while it is less than its predecessor) and
  merges the blocks stably. For a strict weak order the outcome is the unique
  stable sorted permutation, so the insertion sort below is the model for
  every length; for any order it is step by step what Go does on up to twenty
  elements. \<^verbatim>\<open>sort.Slice\<close> need not be stable: where the code uses it, elements
  with the same key are interchangeable (equal strings, ids or instants).

  The list is built reversed: \<open>ins_left\<close> walks from the right end.
\<close>

fun ins_left :: "('a \<Rightarrow> 'a \<Rightarrow> bool) \<Rightarrow> 'a \<Rightarrow> 'a list \<Rightarrow> 'a list" where
  "ins_left lt x [] = [x]"
| "ins_left lt x (y # ys) = (if lt x y then y # ins_left lt x ys else x # y # ys)"

definition stable_sort :: "('a \<Rightarrow> 'a \<Rightarrow> bool) \<Rightarrow> 'a list \<Rightarrow> 'a list" where
  "stable_sort lt xs = rev (foldl (\<lambda>acc x. ins_left lt x acc) [] xs)"

lemma mset_ins_left [simp]: "mset (ins_left lt x ys) = add_mset x (mset ys)"
  by (induction ys) auto

lemma set_ins_left [simp]: "set (ins_left lt x ys) = insert x (set ys)"
  by (metis mset_ins_left set_mset_add_mset_insert set_mset_mset)

lemma length_ins_left [simp]: "length (ins_left lt x ys) = Suc (length ys)"
  by (induction ys) auto

lemma mset_foldl_ins_left:
  "mset (foldl (\<lambda>acc x. ins_left lt x acc) acc xs) = mset acc + mset xs"
  by (induction xs arbitrary: acc) auto

lemma mset_stable_sort [simp]: "mset (stable_sort lt xs) = mset xs"
  by (simp add: stable_sort_def mset_foldl_ins_left)

lemma set_stable_sort [simp]: "set (stable_sort lt xs) = set xs"
  by (metis mset_stable_sort set_mset_mset)

lemma length_stable_sort [simp]: "length (stable_sort lt xs) = length xs"
  by (metis mset_stable_sort size_mset)

lemma distinct_stable_sort [simp]: "distinct (stable_sort lt xs) = distinct xs"
  by (metis mset_stable_sort mset_eq_imp_distinct_iff)

lemma stable_sort_Nil [simp]: "stable_sort lt [] = []"
  by (simp add: stable_sort_def)

lemma stable_sort_snoc:
  "stable_sort lt (xs @ [x]) = rev (ins_left lt x (rev (stable_sort lt xs)))"
  by (simp add: stable_sort_def)

lemma ins_left_filter_out:
  "\<not> P x \<Longrightarrow> filter P (ins_left lt x ys) = filter P ys"
  by (induction ys) auto

text \<open>The contract of a Go comparison function: a strict weak order.\<close>

locale strict_weak_order =
  fixes lt :: "'a \<Rightarrow> 'a \<Rightarrow> bool"
  assumes irrefl: "\<not> lt x x"
    and trans: "lt x y \<Longrightarrow> lt y z \<Longrightarrow> lt x z"
    and incomp_trans: "\<not> lt x y \<Longrightarrow> \<not> lt y z \<Longrightarrow> \<not> lt x z"
begin

lemma asym: "lt x y \<Longrightarrow> \<not> lt y x"
  using irrefl trans by blast

lemma lt_incomp: "lt x y \<Longrightarrow> \<not> lt z y \<Longrightarrow> lt x z"
  using incomp_trans by blast

lemma incomp_lt: "\<not> lt y x \<Longrightarrow> lt y z \<Longrightarrow> lt x z"
  using incomp_trans by blast

lemma sorted_ins_left:
  "sorted_wrt (\<lambda>a b. \<not> lt a b) ys \<Longrightarrow> sorted_wrt (\<lambda>a b. \<not> lt a b) (ins_left lt x ys)"
proof (induction ys)
  case Nil
  then show ?case by simp
next
  case (Cons y ys)
  show ?case
  proof (cases "lt x y")
    case True
    with Cons show ?thesis using asym by auto
  next
    case False
    with Cons.prems show ?thesis using incomp_trans by auto
  qed
qed

lemma sorted_stable_sort: "sorted_wrt (\<lambda>a b. \<not> lt b a) (stable_sort lt xs)"
proof -
  have "sorted_wrt (\<lambda>a b. \<not> lt a b) (foldl (\<lambda>acc x. ins_left lt x acc) acc xs)"
    if "sorted_wrt (\<lambda>a b. \<not> lt a b) acc" for acc
    using that by (induction xs arbitrary: acc) (auto intro: sorted_ins_left)
  from this [of "[]"] show ?thesis by (simp add: stable_sort_def sorted_wrt_rev)
qed

text \<open>Stability: the elements equivalent to \<open>z\<close> keep their order.\<close>

lemma filter_ins_left:
  assumes "sorted_wrt (\<lambda>a b. \<not> lt a b) ys"
  shows "filter (\<lambda>a. \<not> lt a z \<and> \<not> lt z a) (ins_left lt x ys)
       = filter (\<lambda>a. \<not> lt a z \<and> \<not> lt z a) (x # ys)"
  using assms
proof (induction ys)
  case Nil
  then show ?case by simp
next
  case (Cons y ys)
  show ?case
  proof (cases "lt x y")
    case True
    then have "\<not> (\<not> lt x z \<and> \<not> lt z x \<and> \<not> lt y z \<and> \<not> lt z y)"
      using incomp_trans by blast
    with True Cons show ?thesis by auto
  next
    case False
    then show ?thesis by simp
  qed
qed

lemma filter_stable_sort:
  "filter (\<lambda>a. \<not> lt a z \<and> \<not> lt z a) (stable_sort lt xs) = filter (\<lambda>a. \<not> lt a z \<and> \<not> lt z a) xs"
proof (induction xs rule: rev_induct)
  case Nil
  then show ?case by simp
next
  case (snoc x xs)
  have "sorted_wrt (\<lambda>a b. \<not> lt a b) (rev (stable_sort lt xs))"
    using sorted_stable_sort [of xs] by (simp add: sorted_wrt_rev)
  from filter_ins_left [OF this] snoc show ?case
    by (simp add: stable_sort_snoc rev_filter [symmetric])
qed

text \<open>
  On a sorted list, the position of an element tells how many elements are
  strictly smaller: everything before the first element of its class.
\<close>

lemma count_smaller_sorted:
  assumes "sorted_wrt (\<lambda>a b. \<not> lt b a) xs" and "i < length xs"
    and first: "i = 0 \<or> lt (xs ! (i - 1)) (xs ! i)"
  shows "length (filter (\<lambda>y. lt y (xs ! i)) xs) = i"
proof -
  let ?x = "xs ! i"
  have split: "xs = take i xs @ drop i xs" by simp
  have "lt y ?x" if "y \<in> set (take i xs)" for y
  proof -
    from that obtain j where j: "j < i" "y = xs ! j"
      using assms(2) by (auto simp: in_set_conv_nth)
    then have f: "lt (xs ! (i - 1)) ?x" using first by auto
    show ?thesis
    proof (cases "j = i - 1")
      case False
      then have "\<not> lt (xs ! (i - 1)) y"
        using sorted_wrt_nth_less [OF assms(1), of j "i - 1"] j assms(2) by auto
      then show ?thesis using f by (rule incomp_lt)
    qed (use f j in simp)
  qed
  then have 1: "filter (\<lambda>y. lt y ?x) (take i xs) = take i xs" by (rule filter_all_id)
  have "\<not> lt y ?x" if "y \<in> set (drop i xs)" for y
  proof -
    from that obtain j where j: "j < length xs - i" "y = xs ! (i + j)"
      by (auto simp: in_set_conv_nth)
    then show ?thesis
      using sorted_wrt_nth_less [OF assms(1), of i "i + j"] irrefl assms(2)
      by (cases "j = 0") auto
  qed
  then have 2: "filter (\<lambda>y. lt y ?x) (drop i xs) = []" by (rule filter_all_none)
  have "filter (\<lambda>y. lt y ?x) xs = take i xs"
    by (subst split) (simp only: filter_append 1 2 append_Nil2)
  then show ?thesis using assms(2) by simp
qed

end

text \<open>Sorting by a key in a linear order.\<close>

lemma strict_weak_order_key: "strict_weak_order (\<lambda>a b. (f a :: 'b::linorder) < f b)"
  by unfold_locales auto

interpretation less_order: strict_weak_order "(<) :: 'a::linorder \<Rightarrow> 'a \<Rightarrow> bool"
  by unfold_locales auto

lemma sorted_stable_sort_key: "sorted (map f (stable_sort (\<lambda>a b. (f a :: 'b::linorder) < f b) xs))"
  using strict_weak_order.sorted_stable_sort [OF strict_weak_order_key, of f xs]
  by (simp add: sorted_wrt_map not_less)

lemma stable_sort_less: "stable_sort (<) xs = sort (xs :: 'a::linorder list)"
proof (rule properties_for_sort [symmetric])
  show "mset (stable_sort (<) xs) = mset xs" by simp
  show "sorted (stable_sort (<) xs)"
    using sorted_stable_sort_key [of "\<lambda>x. x" xs] by simp
qed

end
