(* ===== verification/Go_Time.thy ===== *)
theory Go_Time
  imports Prelude
begin

text \<open>
  The model of Go's package \<^verbatim>\<open>time\<close> as the contest code uses it. A
  \<^verbatim>\<open>time.Time\<close> is an instant in nanoseconds since the Unix epoch (its own
  range, 64 bit seconds, is never left). A \<^verbatim>\<open>time.Duration\<close> is a signed 64 bit
  count of nanoseconds: products and sums of durations wrap around, and
  \<^verbatim>\<open>t.Sub(u)\<close> saturates. Both are kept as \<^typ>\<open>int\<close> with the wrap-around and the
  saturation written out.
\<close>

type_synonym time = int
type_synonym duration = int

definition wrap64 :: "int \<Rightarrow> int" where
  "wrap64 x = (x + 2 ^ 63) mod 2 ^ 64 - 2 ^ 63"

definition in_i64 :: "int \<Rightarrow> bool" where
  "in_i64 x \<longleftrightarrow> - (2 ^ 63) \<le> x \<and> x < 2 ^ 63"

definition nanosecond :: duration where "nanosecond = 1"
definition second :: duration where "second = 1000000000"
definition minute :: duration where "minute = 60000000000"

text \<open>\<^verbatim>\<open>a * b\<close> and \<^verbatim>\<open>a + b\<close> on durations.\<close>

definition dmul :: "duration \<Rightarrow> duration \<Rightarrow> duration" where
  "dmul a b = wrap64 (a * b)"

definition dadd :: "duration \<Rightarrow> duration \<Rightarrow> duration" where
  "dadd a b = wrap64 (a + b)"

text \<open>\<^verbatim>\<open>t.Add(d)\<close>, \<^verbatim>\<open>t.Sub(u)\<close>, \<^verbatim>\<open>t.Before(u)\<close> and \<^verbatim>\<open>t.After(u)\<close>.\<close>

definition t_add :: "time \<Rightarrow> duration \<Rightarrow> time" where
  "t_add t d = t + d"

definition t_sub :: "time \<Rightarrow> time \<Rightarrow> duration" where
  "t_sub t u = max (- (2 ^ 63)) (min (2 ^ 63 - 1) (t - u))"

definition before :: "time \<Rightarrow> time \<Rightarrow> bool" where
  "before t u \<longleftrightarrow> t < u"

definition after :: "time \<Rightarrow> time \<Rightarrow> bool" where
  "after t u \<longleftrightarrow> u < t"

text \<open>\<^verbatim>\<open>time.Time{}\<close> is the first instant of year 1; \<^verbatim>\<open>t.Unix()\<close> is in whole seconds.\<close>

definition zero_time :: time where
  "zero_time = - 62135596800000000000"

definition is_zero :: "time \<Rightarrow> bool" where
  "is_zero t \<longleftrightarrow> t = zero_time"

definition t_unix :: "time \<Rightarrow> int" where
  "t_unix t = t div second"

text \<open>Go's integer division truncates towards zero.\<close>

definition go_div :: "int \<Rightarrow> int \<Rightarrow> int" where
  "go_div a b = sgn a * sgn b * (\<bar>a\<bar> div \<bar>b\<bar>)"

lemma wrap64_id: "in_i64 x \<Longrightarrow> wrap64 x = x"
  by (simp add: wrap64_def in_i64_def)

lemma wrap64_range: "in_i64 (wrap64 x)"
  unfolding wrap64_def in_i64_def
  using pos_mod_bound [of "2 ^ 64" "x + 2 ^ 63"] pos_mod_sign [of "2 ^ 64" "x + 2 ^ 63"] by simp

lemma t_sub_exact: "in_i64 (t - u) \<Longrightarrow> t_sub t u = t - u"
  by (simp add: t_sub_def in_i64_def)

lemma t_sub_pos: "u < t \<Longrightarrow> 0 < t_sub t u"
  by (simp add: t_sub_def)

lemma t_sub_le: "0 \<le> t - u \<Longrightarrow> t_sub t u \<le> t - u"
  by (simp add: t_sub_def)

lemma go_div_nonneg: "0 \<le> a \<Longrightarrow> 0 < b \<Longrightarrow> go_div a b = a div b"
  by (cases "a = 0") (simp_all add: go_div_def)

lemma go_div_neg: "a \<le> 0 \<Longrightarrow> 0 < b \<Longrightarrow> go_div a b \<le> 0"
  by (cases "a = 0") (simp_all add: go_div_def pos_imp_zdiv_nonneg_iff)

lemmas time_defs [go_defs] =
  t_add_def before_def after_def is_zero_def

interpretation time_order: strict_weak_order before
  by unfold_locales (auto simp: before_def)

end
