(* ===== verification/Contest_Timing.thy ===== *)
theory Contest_Timing
  imports Go_Time
begin

text \<open>
  The time window of a participation (\<^verbatim>\<open>src/internal/contest/timing.go\<close>): the
  contest's rules and the participant's settings give, at every instant, the
  phase of the participation and what the contestant may do.
\<close>

section \<open>Data\<close>

datatype Phase = NotStarted | WaitingStart | Running | Finished | Analysis | Practice

record Rules =
  rStart :: time
  rStop :: time
  rPerUserTime :: duration
  rAnalysisEnabled :: bool
  rAnalysisStart :: "time option"
  rAnalysisStop :: "time option"
  rPractice :: bool

record Participant =
  pStartingTime :: "time option"
  pSiteStart :: "time option"
  pDelay :: duration
  pExtra :: duration
  pUnrestricted :: bool

record Status =
  stPhase :: Phase
  stBegin :: time
  stEnd :: time
  stRemaining :: duration
  stCanStart :: bool
  stCanSubmit :: bool
  stOfficial :: bool

section \<open>Operations\<close>

text \<open>\<^verbatim>\<open>begin\<close>, \<^verbatim>\<open>stop\<close> and \<^verbatim>\<open>end\<close> at the head of \<^verbatim>\<open>Compute\<close>.\<close>

definition window :: "Rules \<Rightarrow> Participant \<Rightarrow> time \<times> time \<times> time" where
  "window r p =
     (let (start, stopAt) = (case pSiteStart p of
            None \<Rightarrow> (rStart r, rStop r)
          | Some s \<Rightarrow> (s, t_add s (t_sub (rStop r) (rStart r))));
          stop = t_add stopAt (pDelay p)
      in (t_add start (pDelay p), stop, t_add stop (pExtra p)))"

text \<open>The per-user-time part: the personal window, or waiting for the start.\<close>

definition per_user :: "Rules \<Rightarrow> Participant \<Rightarrow> time \<Rightarrow> Status" where
  "per_user r p now =
     (let (bgn, stop, end0) = window r p;
          s = \<lparr>stPhase = NotStarted, stBegin = bgn, stEnd = end0, stRemaining = 0,
               stCanStart = False, stCanSubmit = False, stOfficial = False\<rparr>
      in if rPerUserTime r > 0 then
           (case pStartingTime p of
              None \<Rightarrow>
                (if before now bgn then s\<lparr>stEnd := zero_time, stPhase := NotStarted\<rparr>
                 else if before now stop
                 then s\<lparr>stEnd := zero_time, stPhase := WaitingStart, stCanStart := True\<rparr>
                 else s\<lparr>stEnd := zero_time, stPhase := Finished\<rparr>)
            | Some st \<Rightarrow>
                (let userEnd = t_add st (dadd (rPerUserTime r) (pExtra p))
                 in s\<lparr>stBegin := st, stEnd := (if before userEnd end0 then userEnd else end0)\<rparr>))
         else s)"

definition in_window :: "Rules \<Rightarrow> Participant \<Rightarrow> time \<Rightarrow> Status \<Rightarrow> Status" where
  "in_window r p now s =
     (if stPhase s = NotStarted \<and> \<not> (rPerUserTime r > 0 \<and> pStartingTime p = None) then
        (if before now (stBegin s) then s\<lparr>stPhase := NotStarted\<rparr>
         else if before now (stEnd s)
         then s\<lparr>stPhase := Running, stRemaining := t_sub (stEnd s) now\<rparr>
         else s\<lparr>stPhase := Finished\<rparr>)
      else s)"

definition after_contest :: "Rules \<Rightarrow> time \<Rightarrow> Status \<Rightarrow> Status" where
  "after_contest r now s =
     (let s = (case (rAnalysisStart r, rAnalysisStop r) of
                 (Some a, Some b) \<Rightarrow>
                   (if stPhase s = Finished \<and> rAnalysisEnabled r \<and> \<not> before now a \<and> before now b
                    then s\<lparr>stPhase := Analysis\<rparr> else s)
               | _ \<Rightarrow> s)
      in if stPhase s = Finished \<and> rPractice r \<and>
            (case rAnalysisStop r of None \<Rightarrow> True
             | Some b \<Rightarrow> \<not> rAnalysisEnabled r \<or> \<not> before now b)
         then s\<lparr>stPhase := Practice\<rparr> else s)"

definition permissions :: "Participant \<Rightarrow> Status \<Rightarrow> Status" where
  "permissions p s =
     (let s = (case stPhase s of
                 Running \<Rightarrow> s\<lparr>stCanSubmit := True, stOfficial := True\<rparr>
               | Analysis \<Rightarrow> s\<lparr>stCanSubmit := True, stOfficial := False\<rparr>
               | Practice \<Rightarrow> s\<lparr>stCanSubmit := True, stOfficial := False\<rparr>
               | _ \<Rightarrow> s)
      in if pUnrestricted p
         then s\<lparr>stCanSubmit := True,
                stOfficial := (stPhase s \<noteq> Analysis \<and> stPhase s \<noteq> Practice)\<rparr>
         else s)"

definition Compute :: "Rules \<Rightarrow> Participant \<Rightarrow> time \<Rightarrow> Status" where
  "Compute r p now = permissions p (after_contest r now (in_window r p now (per_user r p now)))"

lemmas compute_defs [go_defs] =
  Compute_def window_def per_user_def in_window_def after_contest_def permissions_def Let_def

section \<open>The specification\<close>

text \<open>
  What the window of a participation is meant to be: an interval of instants,
  empty while a contestant with a personal window has not started.
\<close>

definition spec_begin :: "Rules \<Rightarrow> Participant \<Rightarrow> time" where
  "spec_begin r p = (case pSiteStart p of None \<Rightarrow> rStart r | Some s \<Rightarrow> s) + pDelay p"

definition spec_stop :: "Rules \<Rightarrow> Participant \<Rightarrow> time" where
  "spec_stop r p = spec_begin r p + (rStop r - rStart r)"

definition spec_window :: "Rules \<Rightarrow> Participant \<Rightarrow> (time \<times> time) option" where
  "spec_window r p =
     (if rPerUserTime r > 0 then
        (case pStartingTime p of
           None \<Rightarrow> None
         | Some st \<Rightarrow> Some (st, min (st + rPerUserTime r + pExtra p) (spec_stop r p + pExtra p)))
      else Some (spec_begin r p, spec_stop r p + pExtra p))"

text \<open>
  Durations of the rules are within the range of \<^verbatim>\<open>time.Duration\<close>, sums included
  (292 years).
\<close>

definition sane_times :: "Rules \<Rightarrow> Participant \<Rightarrow> bool" where
  "sane_times r p \<longleftrightarrow> in_i64 (rStop r - rStart r) \<and> in_i64 (rPerUserTime r + pExtra p)"

lemma window_spec:
  "sane_times r p \<Longrightarrow>
   window r p = (spec_begin r p, spec_stop r p, spec_stop r p + pExtra p)"
  by (auto simp: window_def spec_begin_def spec_stop_def sane_times_def t_sub_exact t_add_def
      Let_def split: option.splits)

lemma spec_window_None: "spec_window r p = None \<longleftrightarrow> 0 < rPerUserTime r \<and> pStartingTime p = None"
  by (auto simp: spec_window_def split: option.splits)

lemma dadd_exact: "in_i64 (a + b) \<Longrightarrow> dadd a b = a + b"
  by (simp add: dadd_def wrap64_id)

lemma per_user_spec:
  assumes "sane_times r p"
  shows "per_user r p now =
     (case spec_window r p of
        Some (b, e) \<Rightarrow> \<lparr>stPhase = NotStarted, stBegin = b, stEnd = e, stRemaining = 0,
            stCanStart = False, stCanSubmit = False, stOfficial = False\<rparr>
      | None \<Rightarrow> \<lparr>stPhase = (if now < spec_begin r p then NotStarted
              else if now < spec_stop r p then WaitingStart else Finished),
            stBegin = spec_begin r p, stEnd = zero_time, stRemaining = 0,
            stCanStart = (spec_begin r p \<le> now \<and> now < spec_stop r p),
            stCanSubmit = False, stOfficial = False\<rparr>)"
  using assms
  by (auto simp: per_user_def window_spec spec_window_def before_def t_add_def Let_def
      dadd_exact sane_times_def add.assoc min_def split: option.splits)

text \<open>The phase before the post-contest modes are looked at.\<close>

definition base_phase :: "Rules \<Rightarrow> Participant \<Rightarrow> time \<Rightarrow> Phase" where
  "base_phase r p now =
     (case spec_window r p of
        Some (b, e) \<Rightarrow> (if now < b then NotStarted else if now < e then Running else Finished)
      | None \<Rightarrow> (if now < spec_begin r p then NotStarted
                 else if now < spec_stop r p then WaitingStart else Finished))"

definition over_phase :: "Rules \<Rightarrow> time \<Rightarrow> Phase" where
  "over_phase r now =
     (let open_analysis = (rAnalysisEnabled r \<and>
            (case (rAnalysisStart r, rAnalysisStop r) of
               (Some a, Some b) \<Rightarrow> a \<le> now \<and> now < b | _ \<Rightarrow> False));
          analysis_ahead = (rAnalysisEnabled r \<and>
            (case rAnalysisStop r of Some b \<Rightarrow> now < b | None \<Rightarrow> False))
      in if open_analysis then Analysis
         else if rPractice r \<and> \<not> analysis_ahead then Practice else Finished)"

lemma in_window_phase:
  assumes "sane_times r p"
  shows "stPhase (in_window r p now (per_user r p now)) = base_phase r p now"
proof (cases "spec_window r p")
  case None
  then have "0 < rPerUserTime r \<and> pStartingTime p = None" by (simp only: spec_window_None)
  then show ?thesis unfolding in_window_def
    by (simp add: per_user_spec [OF assms] None base_phase_def)
next
  case (Some w)
  then have n: "(0 < rPerUserTime r \<and> pStartingTime p = None) = False"
    by (metis option.discI spec_window_None)
  obtain b e where "w = (b, e)" by (cases w)
  then show ?thesis unfolding in_window_def n
    by (simp add: per_user_spec [OF assms] Some base_phase_def before_def)
qed

lemma after_contest_phase:
  "stPhase (after_contest r now s) = (if stPhase s = Finished then over_phase r now else stPhase s)"
  unfolding after_contest_def over_phase_def before_def Let_def
  by (cases "rAnalysisStart r"; cases "rAnalysisStop r") (simp_all add: not_less, auto)

lemma permissions_phase [simp]: "stPhase (permissions p s) = stPhase s"
  by (auto simp: permissions_def Let_def split: Phase.splits)

lemma Compute_phase_eq:
  "sane_times r p \<Longrightarrow>
   stPhase (Compute r p now) =
     (if base_phase r p now = Finished then over_phase r now else base_phase r p now)"
  by (simp add: Compute_def after_contest_phase in_window_phase)

lemma over_phase_cases: "over_phase r now \<in> {Analysis, Practice, Finished}"
  by (auto simp: over_phase_def Let_def)

lemma base_phase_cases: "base_phase r p now \<in> {NotStarted, WaitingStart, Running, Finished}"
  by (auto simp: base_phase_def split: option.splits)

lemma in_window_flags:
  "stCanSubmit (in_window r p now (per_user r p now)) = False"
  "stOfficial (in_window r p now (per_user r p now)) = False"
  by (auto simp: in_window_def per_user_def Let_def split: option.splits prod.splits)

lemma after_contest_flags [simp]:
  "stCanSubmit (after_contest r now s) = stCanSubmit s"
  "stOfficial (after_contest r now s) = stOfficial s"
  "stBegin (after_contest r now s) = stBegin s"
  "stEnd (after_contest r now s) = stEnd s"
  "stRemaining (after_contest r now s) = stRemaining s"
  by (auto simp: after_contest_def Let_def split: option.splits)

lemma permissions_window [simp]:
  "stBegin (permissions p s) = stBegin s" "stEnd (permissions p s) = stEnd s"
  "stRemaining (permissions p s) = stRemaining s"
  by (auto simp: permissions_def Let_def split: Phase.splits)

lemma permissions_flags:
  "\<not> stCanSubmit s \<Longrightarrow>
   stCanSubmit (permissions p s) = (pUnrestricted p \<or> stPhase s \<in> {Running, Analysis, Practice})"
  "\<not> stOfficial s \<Longrightarrow>
   stOfficial (permissions p s) =
     (if pUnrestricted p then stPhase s \<notin> {Analysis, Practice} else stPhase s = Running)"
  by (auto simp: permissions_def Let_def split: Phase.splits)

lemma Running_spec:
  assumes "sane_times r p"
  shows "stPhase (Compute r p now) = Running \<longleftrightarrow>
     (\<exists>b e. spec_window r p = Some (b, e) \<and> b \<le> now \<and> now < e)"
  using over_phase_cases [of r now]
  by (auto simp: Compute_phase_eq [OF assms] base_phase_def split: option.splits if_splits)

section \<open>Properties\<close>

text \<open>
  Property C10. For an ordinary contestant a submission made now is accepted and
  counts officially exactly when the instant lies in the participation's window:
  the contest window of the site, shifted by the delay and extended by the extra
  time, and in a contest with personal windows the personal one, cut at the end
  of the contest.
\<close>

theorem Compute_official_window:
  assumes "sane_times r p" and "\<not> pUnrestricted p"
  shows "stCanSubmit (Compute r p now) \<and> stOfficial (Compute r p now) \<longleftrightarrow>
     (\<exists>b e. spec_window r p = Some (b, e) \<and> b \<le> now \<and> now < e)"
proof -
  have "stCanSubmit (Compute r p now) \<and> stOfficial (Compute r p now)
      \<longleftrightarrow> stPhase (Compute r p now) = Running"
    using assms(2)
    by (auto simp: Compute_def permissions_flags in_window_flags)
  then show ?thesis by (simp add: Running_spec [OF assms(1)])
qed

theorem Compute_official_window_witness:
  "let r = \<lparr>rStart = 100, rStop = 500, rPerUserTime = 0, rAnalysisEnabled = False,
            rAnalysisStart = None, rAnalysisStop = None, rPractice = False\<rparr>;
       p = \<lparr>pStartingTime = None, pSiteStart = None, pDelay = 30, pExtra = 15, pUnrestricted = False\<rparr>
   in sane_times r p \<and> \<not> pUnrestricted p \<and>
      stCanSubmit (Compute r p 540) \<and> stOfficial (Compute r p 540)"
  unfolding Let_def
  by (subst Compute_official_window)
    (simp_all add: sane_times_def in_i64_def spec_window_def spec_begin_def spec_stop_def)

text \<open>
  Nothing submitted in analysis or practice mode counts, not even for
  an unrestricted participant, and an ordinary contestant can submit exactly in
  the phases running, analysis and practice.
\<close>

theorem Compute_unofficial_after:
  "(stPhase (Compute r p now) \<in> {Analysis, Practice} \<longrightarrow> \<not> stOfficial (Compute r p now)) \<and>
   (stCanSubmit (Compute r p now) \<longleftrightarrow>
      pUnrestricted p \<or> stPhase (Compute r p now) \<in> {Running, Analysis, Practice})"
  by (auto simp: Compute_def permissions_flags in_window_flags)

theorem Compute_unofficial_after_witness:
  "let r = \<lparr>rStart = 100, rStop = 500, rPerUserTime = 0, rAnalysisEnabled = False,
            rAnalysisStart = None, rAnalysisStop = None, rPractice = True\<rparr>;
       p = \<lparr>pStartingTime = None, pSiteStart = None, pDelay = 0, pExtra = 0, pUnrestricted = True\<rparr>
   in stPhase (Compute r p 600) = Practice \<and> \<not> stOfficial (Compute r p 600) \<and>
      stCanSubmit (Compute r p 600)"
proof -
  let ?r = "\<lparr>rStart = 100, rStop = 500, rPerUserTime = 0, rAnalysisEnabled = False,
            rAnalysisStart = None, rAnalysisStop = None, rPractice = True\<rparr>"
  let ?p = "\<lparr>pStartingTime = None, pSiteStart = None, pDelay = 0, pExtra = 0, pUnrestricted = True\<rparr>"
  have "stPhase (Compute ?r ?p 600) = Practice" by code_simp
  then show ?thesis using Compute_unofficial_after [of ?r ?p 600] by (simp add: Let_def)
qed

fun stage :: "Phase \<Rightarrow> nat" where
  "stage NotStarted = 0"
| "stage WaitingStart = 1"
| "stage Running = 1"
| "stage Finished = 2"
| "stage Analysis = 2"
| "stage Practice = 2"

lemma stage_over_phase: "stage (over_phase r now) = 2"
  using over_phase_cases [of r now] by auto

lemma stage_Compute:
  "sane_times r p \<Longrightarrow> stage (stPhase (Compute r p now)) = stage (base_phase r p now)"
  by (simp add: Compute_phase_eq stage_over_phase)

text \<open>
  Time only moves a participation forward: before its window, then
  waiting or running, then over (finished, analysis or practice, which may
  alternate). A participation that was running is never again waiting to start.
\<close>

theorem Compute_stage_monotone:
  assumes "sane_times r p" and "now \<le> now'"
  shows "stage (stPhase (Compute r p now)) \<le> stage (stPhase (Compute r p now'))"
  using assms(2)
  by (auto simp: stage_Compute [OF assms(1)] base_phase_def split: option.splits)

theorem Compute_stage_monotone_witness:
  "let r = \<lparr>rStart = 100, rStop = 500, rPerUserTime = 60, rAnalysisEnabled = True,
            rAnalysisStart = Some 600, rAnalysisStop = Some 700, rPractice = True\<rparr>;
       p = \<lparr>pStartingTime = Some 200, pSiteStart = None, pDelay = 0, pExtra = 0, pUnrestricted = False\<rparr>
   in sane_times r p \<and> (250::int) \<le> 650 \<and>
      stage (stPhase (Compute r p 250)) \<le> stage (stPhase (Compute r p 650))"
  unfolding Let_def
  by (intro conjI Compute_stage_monotone) (simp_all add: sane_times_def in_i64_def)

text \<open>
  A personal window is never longer than the personal time plus the
  extra time, never ends after the end of the contest plus delay and extra time,
  and while it runs the remaining time shown is exactly the time to its end.
\<close>

theorem Compute_personal_window:
  assumes "sane_times r p" and "rPerUserTime r > 0" and "pStartingTime p = Some st"
    and "stPhase (Compute r p now) = Running" and "in_i64 (stEnd (Compute r p now) - now)"
  shows "stBegin (Compute r p now) = st
    \<and> stEnd (Compute r p now) \<le> st + rPerUserTime r + pExtra p
    \<and> stEnd (Compute r p now) \<le> spec_stop r p + pExtra p
    \<and> now + stRemaining (Compute r p now) = stEnd (Compute r p now)"
proof -
  let ?e = "min (st + rPerUserTime r + pExtra p) (spec_stop r p + pExtra p)"
  have w: "spec_window r p = Some (st, ?e)" using assms by (simp add: spec_window_def)
  have b: "st \<le> now" "now < ?e"
    using Running_spec [OF assms(1), of now] assms(4) w by auto
  have "in_window r p now (per_user r p now) =
      \<lparr>stPhase = Running, stBegin = st, stEnd = ?e, stRemaining = t_sub ?e now,
       stCanStart = False, stCanSubmit = False, stOfficial = False\<rparr>"
    using b assms(3) unfolding in_window_def per_user_spec [OF assms(1)] w
    by (simp add: before_def)
  with assms(5) show ?thesis by (simp add: Compute_def t_sub_exact)
qed

theorem Compute_personal_window_witness:
  "let r = \<lparr>rStart = 0, rStop = 500, rPerUserTime = 300, rAnalysisEnabled = False,
            rAnalysisStart = None, rAnalysisStop = None, rPractice = False\<rparr>;
       p = \<lparr>pStartingTime = Some 400, pSiteStart = None, pDelay = 0, pExtra = 50, pUnrestricted = False\<rparr>
   in stEnd (Compute r p 450) \<le> 550 \<and> 450 + stRemaining (Compute r p 450) = stEnd (Compute r p 450)"
proof -
  let ?r = "\<lparr>rStart = 0, rStop = 500, rPerUserTime = 300, rAnalysisEnabled = False,
            rAnalysisStart = None, rAnalysisStop = None, rPractice = False\<rparr>"
  let ?p = "\<lparr>pStartingTime = Some 400, pSiteStart = None, pDelay = 0, pExtra = 50, pUnrestricted = False\<rparr>"
  have 1: "sane_times ?r ?p" by (simp add: sane_times_def in_i64_def)
  have 2: "stPhase (Compute ?r ?p 450) = Running" by code_simp
  have 3: "in_i64 (stEnd (Compute ?r ?p 450) - 450)" by code_simp
  show ?thesis
    using Compute_personal_window [OF 1 _ _ 2 3, of 400]
    by (simp add: Let_def spec_stop_def spec_begin_def)
qed

end
