(* ===== verification/Contest_Limits.thy ===== *)
theory Contest_Limits
  imports Go_Time
begin

text \<open>
  The limits on how many and how often something may be done
  (\<^verbatim>\<open>src/internal/contest/limits.go\<close>): the contest-wide and the per-task caps on
  submissions and user tests, checked in a fixed order.
\<close>

section \<open>Data\<close>

record Limit =
  MaxNumber :: "int option"
  MinInterval :: "int option"

record Usage =
  ContestCount :: int
  TaskCount :: int
  ContestLast :: time
  TaskLast :: time

record LimitError =
  Key :: string
  Max :: int
  Wait :: duration

definition MsgContestMax :: string where
  "MsgContestMax = ''You have reached the maximum number of submissions for this contest.''"

definition MsgTaskMax :: string where
  "MsgTaskMax = ''You have reached the maximum number of submissions for this task.''"

definition MsgContestInterval :: string where
  "MsgContestInterval = ''Please wait before submitting again (contest-wide interval).''"

definition MsgTaskInterval :: string where
  "MsgTaskInterval = ''Please wait before submitting again on this task.''"

lemmas msg_defs = MsgContestMax_def MsgTaskMax_def MsgContestInterval_def MsgTaskInterval_def

section \<open>Operations\<close>

definition unset :: "time \<Rightarrow> bool" where
  "unset t \<longleftrightarrow> is_zero t \<or> t_unix t \<le> 0"

text \<open>
  The two halves of \<^verbatim>\<open>Check\<close>: a cap on a count, and an interval since a lst
  time. \<^term>\<open>None\<close> is the nil error. The struct literal leaves the other field zero.
\<close>

definition count_check :: "string \<Rightarrow> int option \<Rightarrow> int \<Rightarrow> LimitError option" where
  "count_check key m n =
     (case m of
        None \<Rightarrow> None
      | Some m \<Rightarrow> if n \<ge> m then Some \<lparr>Key = key, Max = m, Wait = 0\<rparr> else None)"

definition interval_check :: "string \<Rightarrow> int option \<Rightarrow> time \<Rightarrow> time \<Rightarrow> LimitError option" where
  "interval_check key iv lst now =
     (case iv of
        None \<Rightarrow> None
      | Some iv \<Rightarrow>
          if iv > 0 \<and> \<not> unset lst then
            (let nxt = t_add lst (dmul iv second)
             in if before now nxt then Some \<lparr>Key = key, Max = 0, Wait = t_sub nxt now\<rparr> else None)
          else None)"

definition Check :: "Limit \<Rightarrow> Limit \<Rightarrow> Usage \<Rightarrow> time \<Rightarrow> LimitError option" where
  "Check contestLim taskLim u now =
     (case count_check MsgContestMax (MaxNumber contestLim) (ContestCount u) of
        Some e \<Rightarrow> Some e
      | None \<Rightarrow>
          (case count_check MsgTaskMax (MaxNumber taskLim) (TaskCount u) of
             Some e \<Rightarrow> Some e
           | None \<Rightarrow>
               (case interval_check MsgContestInterval (MinInterval contestLim) (ContestLast u) now of
                  Some e \<Rightarrow> Some e
                | None \<Rightarrow> interval_check MsgTaskInterval (MinInterval taskLim) (TaskLast u) now)))"

section \<open>The specification\<close>

definition count_ok :: "Limit \<Rightarrow> int \<Rightarrow> bool" where
  "count_ok l n \<longleftrightarrow> (case MaxNumber l of None \<Rightarrow> True | Some m \<Rightarrow> n < m)"

definition interval_ok :: "Limit \<Rightarrow> time \<Rightarrow> time \<Rightarrow> bool" where
  "interval_ok l lst now \<longleftrightarrow>
     (case MinInterval l of
        None \<Rightarrow> True | Some iv \<Rightarrow> iv \<le> 0 \<or> lst < second \<or> lst + iv * second \<le> now)"

text \<open>The configured interval fits in a \<^verbatim>\<open>time.Duration\<close>.\<close>

definition sane_interval :: "Limit \<Rightarrow> bool" where
  "sane_interval l \<longleftrightarrow> (case MinInterval l of None \<Rightarrow> True | Some iv \<Rightarrow> in_i64 (iv * second))"

lemma unset_iff: "unset t \<longleftrightarrow> t < second"
  by (auto simp: unset_def is_zero_def zero_time_def t_unix_def second_def)

lemma count_check_None: "count_check key (MaxNumber l) n = None \<longleftrightarrow> count_ok l n"
  by (auto simp: count_check_def count_ok_def split: option.splits)

lemma interval_check_None:
  "sane_interval l \<Longrightarrow> interval_check key (MinInterval l) lst now = None \<longleftrightarrow> interval_ok l lst now"
  by (auto simp: interval_check_def interval_ok_def sane_interval_def unset_iff dmul_def wrap64_id
      t_add_def before_def Let_def split: option.splits)

lemma interval_check_Some:
  assumes "interval_check key iv lst now = Some e"
  shows "Key e = key \<and> 0 < Wait e
    \<and> (\<forall>later \<ge> now + Wait e. in_i64 (t_add lst (dmul (the iv) second) - now) \<longrightarrow>
         interval_check key iv lst later = None)"
  using assms t_sub_pos
  by (auto simp: interval_check_def before_def Let_def t_sub_exact split: option.splits if_splits)

section \<open>Properties\<close>

text \<open>
  An action is allowed exactly when the contest-wide and the per-task
  counts are below their caps and both intervals have passed since the lst
  action (an interval never applies to a first action).
\<close>

theorem Check_allows:
  assumes "sane_interval contestLim" and "sane_interval taskLim"
  shows "Check contestLim taskLim u now = None \<longleftrightarrow>
     count_ok contestLim (ContestCount u) \<and> count_ok taskLim (TaskCount u)
     \<and> interval_ok contestLim (ContestLast u) now \<and> interval_ok taskLim (TaskLast u) now"
  using assms by (simp add: Check_def case_option_chain count_check_None interval_check_None)

theorem Check_allows_witness:
  "let c = \<lparr>MaxNumber = Some 3, MinInterval = Some 60\<rparr>; t = \<lparr>MaxNumber = None, MinInterval = None\<rparr>;
       u = \<lparr>ContestCount = 2, TaskCount = 5, ContestLast = 100 * second, TaskLast = 100 * second\<rparr>
   in Check c t u (160 * second) = None \<and> Check c t u (159 * second) \<noteq> None"
  unfolding Let_def
  by (subst (1 2) Check_allows)
    (simp_all add: sane_interval_def in_i64_def second_def count_ok_def interval_ok_def)

text \<open>
  A refused action is explained by the first limit it violates, caps
  before intervals and the contest before the task; an interval refusal carries a
  positive wait, and once that wait is over the same interval does not refuse.
\<close>

theorem Check_explains:
  assumes "Check contestLim taskLim u now = Some e"
  shows "(Key e = MsgContestMax \<and> \<not> count_ok contestLim (ContestCount u) \<and> Wait e = 0)
    \<or> (Key e = MsgTaskMax \<and> count_ok contestLim (ContestCount u)
        \<and> \<not> count_ok taskLim (TaskCount u) \<and> Wait e = 0)
    \<or> (Key e = MsgContestInterval \<and> count_ok contestLim (ContestCount u)
        \<and> count_ok taskLim (TaskCount u) \<and> 0 < Wait e
        \<and> (in_i64 (t_add (ContestLast u) (dmul (the (MinInterval contestLim)) second) - now) \<longrightarrow>
             interval_check MsgContestInterval (MinInterval contestLim) (ContestLast u) (now + Wait e) = None))
    \<or> (Key e = MsgTaskInterval \<and> count_ok contestLim (ContestCount u)
        \<and> count_ok taskLim (TaskCount u) \<and> 0 < Wait e
        \<and> interval_check MsgContestInterval (MinInterval contestLim) (ContestLast u) now = None
        \<and> (in_i64 (t_add (TaskLast u) (dmul (the (MinInterval taskLim)) second) - now) \<longrightarrow>
             interval_check MsgTaskInterval (MinInterval taskLim) (TaskLast u) (now + Wait e) = None))"
proof -
  have c: "count_check k (MaxNumber l) n = Some e \<Longrightarrow> Key e = k \<and> \<not> count_ok l n \<and> Wait e = 0" for k l n
    by (auto simp: count_check_def count_ok_def split: option.splits if_splits)
  from assms consider
    (1) "count_check MsgContestMax (MaxNumber contestLim) (ContestCount u) = Some e"
  | (2) "count_ok contestLim (ContestCount u)" "count_check MsgTaskMax (MaxNumber taskLim) (TaskCount u) = Some e"
  | (3) "count_ok contestLim (ContestCount u)" "count_ok taskLim (TaskCount u)"
      "interval_check MsgContestInterval (MinInterval contestLim) (ContestLast u) now = Some e"
  | (4) "count_ok contestLim (ContestCount u)" "count_ok taskLim (TaskCount u)"
      "interval_check MsgContestInterval (MinInterval contestLim) (ContestLast u) now = None"
      "interval_check MsgTaskInterval (MinInterval taskLim) (TaskLast u) now = Some e"
    unfolding Check_def case_option_chain count_check_None by (elim disjE conjE) simp_all
  then show ?thesis
  proof cases
    case 1 then show ?thesis by (simp add: c)
  next
    case 2 then show ?thesis by (simp add: c)
  next
    case 3 with interval_check_Some [OF 3(3)] show ?thesis by simp
  next
    case 4 with interval_check_Some [OF 4(4)] show ?thesis by simp
  qed
qed

theorem Check_explains_witness:
  "let c = \<lparr>MaxNumber = Some 3, MinInterval = Some 60\<rparr>; t = \<lparr>MaxNumber = None, MinInterval = None\<rparr>;
       u = \<lparr>ContestCount = 2, TaskCount = 5, ContestLast = 100 * second, TaskLast = 100 * second\<rparr>
   in \<exists>e. Check c t u (150 * second) = Some e \<and> Key e = MsgContestInterval \<and> 0 < Wait e"
proof -
  let ?c = "\<lparr>MaxNumber = Some 3, MinInterval = Some 60\<rparr>"
  let ?t = "\<lparr>MaxNumber = None, MinInterval = None\<rparr>"
  let ?u = "\<lparr>ContestCount = 2, TaskCount = 5, ContestLast = 100 * second, TaskLast = 100 * second\<rparr>"
  let ?e = "\<lparr>Key = MsgContestInterval, Max = 0, Wait = 10 * second\<rparr>"
  have e: "Check ?c ?t ?u (150 * second) = Some ?e" by code_simp
  show ?thesis using e Check_explains [OF e] by (auto simp: Let_def msg_defs)
qed

end
