(* ===== verification/Contest_Tokens.thy ===== *)
theory Contest_Tokens
  imports Go_Time
begin

text \<open>
  The token pools of a contest or a task (\<^verbatim>\<open>src/internal/contest/tokens.go\<close>). A
  finite pool generates tokens at fixed instants after the start of the
  contestant's window; the code replays generations and plays in time order.

  The replay loops multiply a counter by a \<^verbatim>\<open>time.Duration\<close>, which wraps around:
  they are partial functions, and their termination is proved for instants less
  than 292 years after the start.
\<close>

section \<open>Data\<close>

record TokenRules =
  tMode :: string
  tMaxNumber :: "int option"
  tMinInterval :: duration
  tGenInitial :: int
  tGenNumber :: int
  tGenInterval :: duration
  tGenMax :: "int option"

record TokenState =
  tsAvailable :: int
  tsUnlimited :: bool
  tsNext :: time
  tsWait :: duration
  tsExhausted :: bool

section \<open>Operations\<close>

definition CanPlay :: "TokenState \<Rightarrow> bool" where
  "CanPlay s \<longleftrightarrow> (tsUnlimited s \<or> tsAvailable s > 0) \<and> tsWait s = 0 \<and> \<not> tsExhausted s"

definition capped :: "TokenRules \<Rightarrow> int \<Rightarrow> int" where
  "capped r v = (case tGenMax r of None \<Rightarrow> v | Some m \<Rightarrow> if v > m then m else v)"

definition genAt :: "TokenRules \<Rightarrow> time \<Rightarrow> int \<Rightarrow> time" where
  "genAt r start k = t_add start (dmul k (tGenInterval r))"

text \<open>The inner loop: every generation not after \<open>p\<close>.\<close>

partial_function (option) gen_loop ::
    "TokenRules \<Rightarrow> time \<Rightarrow> time \<Rightarrow> int \<Rightarrow> int \<Rightarrow> (int \<times> int) option" where
  "gen_loop r start p avail gen =
     (if tGenInterval r > 0 \<and> tGenNumber r > 0 \<and> \<not> after (genAt r start gen) p
      then gen_loop r start p (capped r (avail + tGenNumber r)) (gen + 1)
      else Some (avail, gen))"

declare gen_loop.simps [code]

text \<open>The loop over the plays.\<close>

fun play_loop :: "TokenRules \<Rightarrow> time \<Rightarrow> time list \<Rightarrow> int \<Rightarrow> int \<Rightarrow> (int \<times> int) option" where
  "play_loop r start [] avail gen = Some (avail, gen)"
| "play_loop r start (p # ps) avail gen =
     (case gen_loop r start p avail gen of
        None \<Rightarrow> None
      | Some (avail', gen') \<Rightarrow> play_loop r start ps (avail' - 1) gen')"

text \<open>The total cap and the minimum interval, on the plays in time order.\<close>

definition token_budget :: "TokenRules \<Rightarrow> time list \<Rightarrow> time \<Rightarrow> TokenState" where
  "token_budget r ps now =
     \<lparr>tsAvailable = 0, tsUnlimited = False, tsNext = zero_time,
      tsWait = (if ps \<noteq> [] \<and> tMinInterval r > 0 \<and> before now (t_add (last ps) (tMinInterval r))
                then t_sub (t_add (last ps) (tMinInterval r)) now else 0),
      tsExhausted = (case tMaxNumber r of None \<Rightarrow> False | Some m \<Rightarrow> int (length ps) \<ge> m)\<rparr>"

text \<open>The replay of a finite pool.\<close>

definition finite_pool :: "TokenRules \<Rightarrow> time \<Rightarrow> time list \<Rightarrow> time \<Rightarrow> TokenState \<Rightarrow> TokenState option" where
  "finite_pool r start ps now s =
     (case play_loop r start ps (capped r (tGenInitial r)) 1 of
        None \<Rightarrow> None
      | Some (avail, gen) \<Rightarrow>
          (case gen_loop r start now avail gen of
             None \<Rightarrow> None
           | Some (avail, gen) \<Rightarrow>
               (let s = s\<lparr>tsAvailable := max avail 0\<rparr>
                in if tGenInterval r > 0 \<and> tGenNumber r > 0 \<and>
                      (case tGenMax r of None \<Rightarrow> True | Some m \<Rightarrow> tsAvailable s < m)
                   then Some (s\<lparr>tsNext := genAt r start gen\<rparr>)
                   else Some s)))"

definition Tokens :: "TokenRules \<Rightarrow> time \<Rightarrow> time list \<Rightarrow> time \<Rightarrow> TokenState option" where
  "Tokens r start played now =
     (if tMode r = ''disabled'' \<or> tMode r = '''' then
        Some \<lparr>tsAvailable = 0, tsUnlimited = False, tsNext = zero_time, tsWait = 0, tsExhausted = True\<rparr>
      else
        (let ps = stable_sort before played;
             s = token_budget r ps now
         in if tMode r = ''infinite'' then Some (s\<lparr>tsUnlimited := True\<rparr>)
            else finite_pool r start ps now s))"

section \<open>The specification\<close>

text \<open>
  A pool that generates: by instant \<open>p\<close>, \<open>gens\<close> generations took place. Between
  two events the pool grows by what was generated meanwhile, up to its cap.
\<close>

definition generates :: "TokenRules \<Rightarrow> bool" where
  "generates r \<longleftrightarrow> tGenInterval r > 0 \<and> tGenNumber r > 0"

definition gens :: "TokenRules \<Rightarrow> time \<Rightarrow> time \<Rightarrow> int" where
  "gens r start p = (if generates r then max 0 ((p - start) div tGenInterval r) else 0)"

fun spec_replay :: "TokenRules \<Rightarrow> time \<Rightarrow> time list \<Rightarrow> int \<Rightarrow> int \<Rightarrow> int \<times> int" where
  "spec_replay r start [] avail g = (avail, g)"
| "spec_replay r start (p # ps) avail g =
     (let g' = max g (gens r start p)
      in spec_replay r start ps (capped r (avail + (g' - g) * tGenNumber r) - 1) g')"

definition spec_available :: "TokenRules \<Rightarrow> time \<Rightarrow> time list \<Rightarrow> time \<Rightarrow> int" where
  "spec_available r start played now =
     (let (a, g) = spec_replay r start (sort played) (capped r (tGenInitial r)) 0;
          g' = max g (gens r start now)
      in max (capped r (a + (g' - g) * tGenNumber r)) 0)"

text \<open>Every instant is less than 292 years after the start.\<close>

definition sane_instants :: "TokenRules \<Rightarrow> time \<Rightarrow> time list \<Rightarrow> bool" where
  "sane_instants r start ts \<longleftrightarrow>
     tGenInterval r < 2 ^ 63 \<and> (\<forall>t \<in> set ts. t - start + tGenInterval r < 2 ^ 63)"

lemma capped_le: "capped r v \<le> v"
  by (auto simp: capped_def split: option.splits)

lemma capped_mono: "v \<le> w \<Longrightarrow> capped r v \<le> capped r w"
  by (auto simp: capped_def split: option.splits)

lemma capped_idem [simp]: "capped r (capped r v) = capped r v"
  by (auto simp: capped_def split: option.splits)

lemma capped_down: "capped r v = v \<Longrightarrow> w \<le> v \<Longrightarrow> capped r w = w"
  by (auto simp: capped_def split: option.splits if_splits)

lemma capped_step: "0 \<le> n \<Longrightarrow> capped r (capped r v + n) = capped r (v + n)"
  by (auto simp: capped_def split: option.splits)

text \<open>The counter never wraps around while it is at most one past the generations of \<open>p\<close>.\<close>

lemma genAt_exact:
  assumes "0 < tGenInterval r" "1 \<le> g" "g * tGenInterval r < 2 ^ 63"
  shows "genAt r start g = start + g * tGenInterval r"
proof -
  have "0 \<le> g * tGenInterval r" using assms by simp
  then have "wrap64 (g * tGenInterval r) = g * tGenInterval r"
    using assms(3) by (intro wrap64_id) (simp add: in_i64_def)
  then show ?thesis by (simp add: genAt_def dmul_def t_add_def)
qed

lemma genAt_after:
  assumes "generates r" "1 \<le> g" "g * tGenInterval r < 2 ^ 63"
  shows "\<not> after (genAt r start g) p \<longleftrightarrow> g \<le> gens r start p"
proof -
  have I: "0 < tGenInterval r" using assms by (simp add: generates_def)
  have "g \<le> gens r start p \<longleftrightarrow> g * tGenInterval r \<le> p - start"
    using assms(1,2) by (simp add: gens_def le_max_iff_disj le_div_iff_mult_le [OF I])
  then show ?thesis
    unfolding after_def genAt_exact [OF I assms(2,3)] by linarith
qed

lemma gens_bound:
  assumes "generates r" "p - start + tGenInterval r < 2 ^ 63" "tGenInterval r < 2 ^ 63"
  shows "(gens r start p + 1) * tGenInterval r < 2 ^ 63"
proof -
  have I: "0 < tGenInterval r" using assms by (simp add: generates_def)
  have "((p - start) div tGenInterval r) * tGenInterval r \<le> p - start"
    using le_div_iff_mult_le [OF I] by blast
  then show ?thesis
    using assms by (cases "0 \<le> (p - start) div tGenInterval r") (simp_all add: gens_def distrib_right)
qed

lemma gen_loop_spec:
  assumes "generates r" "p - start + tGenInterval r < 2 ^ 63" "tGenInterval r < 2 ^ 63"
    and "1 \<le> g" "g * tGenInterval r < 2 ^ 63" "capped r a = a"
  shows "gen_loop r start p a g =
    (let g' = max g (gens r start p + 1) in Some (capped r (a + (g' - g) * tGenNumber r), g'))"
  using assms(4-6)
proof (induction "nat (gens r start p + 1 - g)" arbitrary: a g)
  case 0
  then have "gens r start p < g" by simp
  then have "after (genAt r start g) p"
    using genAt_after [OF assms(1) 0(2,3), of start p] by linarith
  moreover have "max g (gens r start p + 1) = g" using \<open>gens r start p < g\<close> by simp
  ultimately show ?case using 0 by (subst gen_loop.simps) (simp add: Let_def)
next
  case (Suc n)
  then have le: "g \<le> gens r start p" by simp
  then have "\<not> after (genAt r start g) p" using genAt_after [OF assms(1) Suc(3,4), of start p] by simp
  then have unfold: "gen_loop r start p a g = gen_loop r start p (capped r (a + tGenNumber r)) (g + 1)"
    using assms(1) by (subst gen_loop.simps) (simp add: generates_def)
  have b: "(g + 1) * tGenInterval r < 2 ^ 63"
  proof -
    have "(g + 1) * tGenInterval r \<le> (gens r start p + 1) * tGenInterval r"
      using le assms(1) by (intro mult_right_mono) (auto simp: generates_def)
    with gens_bound [OF assms(1-3)] show ?thesis by linarith
  qed
  have "gen_loop r start p (capped r (a + tGenNumber r)) (g + 1) =
     (let g' = max (g + 1) (gens r start p + 1)
      in Some (capped r (capped r (a + tGenNumber r) + (g' - (g + 1)) * tGenNumber r), g'))"
    using Suc b by (intro Suc.hyps(1)) auto
  also have "\<dots> = (let g' = max g (gens r start p + 1)
      in Some (capped r (a + (g' - g) * tGenNumber r), g'))"
  proof -
    have "0 \<le> (gens r start p - g) * tGenNumber r"
      using le assms(1) by (simp add: generates_def)
    with le show ?thesis
      by (simp add: Let_def max_def capped_step) (simp add: algebra_simps)
  qed
  finally show ?case by (simp only: unfold)
qed

lemma gen_loop_off: "\<not> generates r \<Longrightarrow> gen_loop r start p a g = Some (a, g)"
  by (subst gen_loop.simps) (auto simp: generates_def)

lemma gens_off: "\<not> generates r \<Longrightarrow> gens r start p = 0"
  by (simp add: gens_def)

text \<open>One step of the replay, whether or not the pool generates.\<close>

lemma gen_step:
  assumes "sane_instants r start [p]" "0 \<le> g" "(g + 1) * tGenInterval r < 2 ^ 63" "capped r a = a"
    and "\<not> generates r \<Longrightarrow> g = 0"
  shows "\<exists>g'. g' = max g (gens r start p) \<and> (g' + 1) * tGenInterval r < 2 ^ 63 \<and>
     gen_loop r start p a (g + 1) = Some (capped r (a + (g' - g) * tGenNumber r), g' + 1)"
proof (cases "generates r")
  case True
  have "(max g (gens r start p) + 1) * tGenInterval r < 2 ^ 63"
    using gens_bound [OF True] assms by (auto simp: sane_instants_def max_def)
  moreover have "gen_loop r start p a (g + 1) =
     Some (capped r (a + (max g (gens r start p) - g) * tGenNumber r), max g (gens r start p) + 1)"
    using gen_loop_spec [OF True, of p start "g + 1" a] assms
    by (auto simp: sane_instants_def Let_def max_def)
  ultimately show ?thesis by blast
next
  case False
  then show ?thesis using assms by (auto simp: gen_loop_off gens_off)
qed

lemma play_loop_spec:
  assumes "sane_instants r start ps" "0 \<le> g" "(g + 1) * tGenInterval r < 2 ^ 63" "capped r a = a"
    and "\<not> generates r \<Longrightarrow> g = 0"
  shows "\<exists>a' g'. spec_replay r start ps a g = (a', g') \<and>
     play_loop r start ps a (g + 1) = Some (a', g' + 1) \<and>
     0 \<le> g' \<and> (g' + 1) * tGenInterval r < 2 ^ 63 \<and> capped r a' = a' \<and> (\<not> generates r \<longrightarrow> g' = 0)"
  using assms
proof (induction ps arbitrary: a g)
  case (Cons p ps)
  have s: "sane_instants r start [p]" "sane_instants r start ps"
    using Cons.prems(1) by (auto simp: sane_instants_def)
  obtain g' where g': "g' = max g (gens r start p)" "(g' + 1) * tGenInterval r < 2 ^ 63"
     "gen_loop r start p a (g + 1) = Some (capped r (a + (g' - g) * tGenNumber r), g' + 1)"
    using gen_step [OF s(1) Cons.prems(2-5)] by blast
  have "capped r (capped r (a + (g' - g) * tGenNumber r) - 1)
      = capped r (a + (g' - g) * tGenNumber r) - 1"
    by (rule capped_down [of _ "capped r (a + (g' - g) * tGenNumber r)"]) auto
  moreover have "\<not> generates r \<Longrightarrow> g' = 0" using g'(1) Cons.prems by (simp add: gens_off)
  moreover have "0 \<le> g'" using g'(1) Cons.prems by simp
  ultimately show ?case
    using Cons.IH [OF s(2), of g' "capped r (a + (g' - g) * tGenNumber r) - 1"] g' by (simp add: Let_def)
qed auto

lemma before_less: "before = (<)"
  by (auto simp: before_def fun_eq_iff)

lemma spec_replay_nonneg: "0 \<le> g \<Longrightarrow> 0 \<le> snd (spec_replay r start ps a g)"
  by (induction ps arbitrary: a g) (auto simp: Let_def)

lemma finite_pool_result:
  assumes "play_loop r start ps (capped r (tGenInitial r)) 1 = Some (a, g)"
    "gen_loop r start now a g = Some (v, g')" "\<not> tsUnlimited s" "tsNext s = zero_time"
  shows "\<exists>s'. finite_pool r start ps now s = Some s' \<and> tsAvailable s' = max v 0 \<and> \<not> tsUnlimited s'
    \<and> tsNext s' \<in> {zero_time, genAt r start g'} \<and> (tsNext s' \<noteq> zero_time \<longrightarrow> generates r)"
  using assms(3,4) unfolding finite_pool_def assms(1) option.case prod.case assms(2) Let_def
  by (auto simp: generates_def)

lemma Tokens_finite:
  assumes "tMode r \<notin> {''disabled'', '''', ''infinite''}" "sane_instants r start (now # played)"
  shows "\<exists>s g. Tokens r start played now = Some s
    \<and> tsAvailable s = spec_available r start played now \<and> \<not> tsUnlimited s
    \<and> tsNext s \<in> {zero_time, genAt r start (g + 1)} \<and> gens r start now \<le> g
    \<and> (g + 1) * tGenInterval r < 2 ^ 63 \<and> (tsNext s \<noteq> zero_time \<longrightarrow> generates r)"
proof -
  let ?ps = "sort played"
  have ps: "stable_sort before played = ?ps" by (simp add: before_less stable_sort_less)
  have s: "sane_instants r start ?ps" "sane_instants r start [now]"
    using assms(2) by (auto simp: sane_instants_def)
  have i: "(0 + 1) * tGenInterval r < 2 ^ 63" using assms(2) by (simp add: sane_instants_def)
  obtain a g where ag: "spec_replay r start ?ps (capped r (tGenInitial r)) 0 = (a, g)"
     "play_loop r start ?ps (capped r (tGenInitial r)) (0 + 1) = Some (a, g + 1)"
     "0 \<le> g" "(g + 1) * tGenInterval r < 2 ^ 63" "capped r a = a" "\<not> generates r \<longrightarrow> g = 0"
    using play_loop_spec [OF s(1) _ i, of "capped r (tGenInitial r)"] by auto
  obtain g' where g': "g' = max g (gens r start now)" "(g' + 1) * tGenInterval r < 2 ^ 63"
     "gen_loop r start now a (g + 1) = Some (capped r (a + (g' - g) * tGenNumber r), g' + 1)"
    using gen_step [OF s(2) ag(3-5)] ag(6) by blast
  let ?v = "capped r (a + (g' - g) * tGenNumber r)"
  have av: "spec_available r start played now = max ?v 0"
    by (simp add: spec_available_def ag(1) g'(1))
  have l: "play_loop r start ?ps (capped r (tGenInitial r)) 1 = Some (a, g + 1)" using ag(2) by simp
  obtain s where fs: "finite_pool r start ?ps now (token_budget r ?ps now) = Some s"
     "tsAvailable s = max ?v 0" "\<not> tsUnlimited s" "tsNext s \<in> {zero_time, genAt r start (g' + 1)}"
     "tsNext s \<noteq> zero_time \<longrightarrow> generates r"
    using finite_pool_result [OF l g'(3), of "token_budget r ?ps now"]
    by (auto simp: token_budget_def)
  have "Tokens r start played now = Some s"
    using assms(1) by (simp add: Tokens_def ps fs(1))
  moreover have "gens r start now \<le> g'" using g'(1) by simp
  ultimately show ?thesis using fs g'(2) av by auto
qed

section \<open>Properties\<close>

text \<open>
  Property C18. The replay of a finite pool always ends, and the number of tokens
  available is the closed form of the replay: between two plays the pool grows by
  the generations that fell between them, up to the cap.
\<close>

theorem Tokens_replay:
  assumes "tMode r \<notin> {''disabled'', '''', ''infinite''}" "sane_instants r start (now # played)"
  shows "\<exists>s. Tokens r start played now = Some s
    \<and> tsAvailable s = spec_available r start played now \<and> \<not> tsUnlimited s
    \<and> (tsNext s = zero_time \<or> now < tsNext s)"
proof -
  obtain s g where s: "Tokens r start played now = Some s"
    "tsAvailable s = spec_available r start played now" "\<not> tsUnlimited s"
    "tsNext s \<in> {zero_time, genAt r start (g + 1)}" "gens r start now \<le> g"
    "(g + 1) * tGenInterval r < 2 ^ 63" "tsNext s \<noteq> zero_time \<longrightarrow> generates r"
    using Tokens_finite [OF assms] by blast
  have "now < tsNext s" if "tsNext s \<noteq> zero_time"
  proof -
    have gr: "generates r" using that s(7) by simp
    have "0 \<le> g" using s(5) by (auto simp: gens_def split: if_splits)
    then have "after (genAt r start (g + 1)) now"
      using genAt_after [OF gr _ s(6), of start now] s(5) by simp
    then show ?thesis using that s(4) by (auto simp: after_def)
  qed
  with s show ?thesis by blast
qed

theorem Tokens_replay_witness:
  "let r = \<lparr>tMode = ''finite'', tMaxNumber = None, tMinInterval = 0, tGenInitial = 2,
            tGenNumber = 1, tGenInterval = 30 * minute, tGenMax = Some 3\<rparr>
   in \<exists>s. Tokens r 0 [6 * minute, 5 * minute] (61 * minute) = Some s \<and> tsAvailable s = 2"
proof -
  let ?r = "\<lparr>tMode = ''finite'', tMaxNumber = None, tMinInterval = 0, tGenInitial = 2,
            tGenNumber = 1, tGenInterval = 30 * minute, tGenMax = Some 3\<rparr>"
  have "spec_available ?r 0 [6 * minute, 5 * minute] (61 * minute) = 2" by code_simp
  moreover have "sane_instants ?r 0 [61 * minute, 6 * minute, 5 * minute]"
    by (simp add: sane_instants_def minute_def)
  ultimately show ?thesis
    using Tokens_replay [of ?r 0 "61 * minute" "[6 * minute, 5 * minute]"] by (auto simp: Let_def)
qed

lemma Tokens_Some_common:
  assumes "Tokens r start played now = Some s" "CanPlay s"
  shows "tMode r \<noteq> ''disabled'' \<and> tMode r \<noteq> ''''
    \<and> (\<forall>m. tMaxNumber r = Some m \<longrightarrow> int (length played) < m)
    \<and> (tsUnlimited s \<longrightarrow> tMode r = ''infinite'')
    \<and> (played \<noteq> [] \<and> tMinInterval r > 0 \<longrightarrow> t_add (last (stable_sort before played)) (tMinInterval r) \<le> now)"
proof -
  have w: "t_sub x now = 0 \<Longrightarrow> \<not> before now x" for x
    using t_sub_pos [of now x] by (auto simp: before_def)
  have e: "stable_sort before played = [] \<longleftrightarrow> played = []"
    by (metis length_0_conv length_stable_sort)
  show ?thesis
    using assms unfolding Tokens_def CanPlay_def
    by (auto simp: Let_def e token_budget_def finite_pool_def before_def not_less dest!: w
        split: if_splits option.splits prod.splits)
qed

lemma sorted_last_ge: "sorted xs \<Longrightarrow> x \<in> set xs \<Longrightarrow> (x :: int) \<le> last xs"
  by (induction xs rule: rev_induct) (auto simp: sorted_append)

lemma last_sort_ge: "x \<in> set xs \<Longrightarrow> (x :: int) \<le> last (sort xs)"
  by (rule sorted_last_ge) auto

text \<open>
  A token can be played only within every budget of the pool: the
  total cap is not used up, the minimum interval since every earlier play is over,
  and a pool that is not infinite has a token left, never more than its cap.
\<close>

theorem CanPlay_within_budget:
  assumes "Tokens r start played now = Some s" and "CanPlay s"
    and "sane_instants r start (now # played)"
  shows "(\<forall>m. tMaxNumber r = Some m \<longrightarrow> int (length played) < m)
    \<and> (\<forall>t \<in> set played. tMinInterval r > 0 \<longrightarrow> t + tMinInterval r \<le> now)
    \<and> (tMode r \<noteq> ''infinite'' \<longrightarrow> 0 < tsAvailable s \<and> (\<forall>m. tGenMax r = Some m \<longrightarrow> tsAvailable s \<le> m))"
proof (intro conjI ballI impI)
  note c = Tokens_Some_common [OF assms(1,2)]
  show "\<forall>m. tMaxNumber r = Some m \<longrightarrow> int (length played) < m" using c by blast
  show "t + tMinInterval r \<le> now" if "t \<in> set played" "tMinInterval r > 0" for t
  proof -
    have "last (sort played) + tMinInterval r \<le> now"
      using c that by (auto simp: t_add_def before_less stable_sort_less)
    with last_sort_ge [OF that(1)] show ?thesis by simp
  qed
  assume fin: "tMode r \<noteq> ''infinite''"
  then have m: "tMode r \<notin> {''disabled'', '''', ''infinite''}" using c by auto
  have a: "tsAvailable s = spec_available r start played now" "\<not> tsUnlimited s"
    using Tokens_finite [OF m assms(3)] assms(1) by auto
  show "0 < tsAvailable s" using assms(2) a(2) by (auto simp: CanPlay_def)
  then show "\<forall>m. tGenMax r = Some m \<longrightarrow> tsAvailable s \<le> m"
    by (auto simp: a(1) spec_available_def capped_def Let_def max_def split: prod.splits if_splits)
qed

theorem CanPlay_within_budget_witness:
  "let r = \<lparr>tMode = ''finite'', tMaxNumber = Some 4, tMinInterval = 10 * minute, tGenInitial = 2,
            tGenNumber = 1, tGenInterval = 30 * minute, tGenMax = Some 3\<rparr>
   in \<exists>s. Tokens r 0 [6 * minute, 5 * minute] (61 * minute) = Some s \<and> CanPlay s \<and>
      0 < tsAvailable s \<and> 6 * minute + tMinInterval r \<le> 61 * minute"
proof -
  let ?r = "\<lparr>tMode = ''finite'', tMaxNumber = Some 4, tMinInterval = 10 * minute, tGenInitial = 2,
            tGenNumber = 1, tGenInterval = 30 * minute, tGenMax = Some 3\<rparr>"
  let ?s = "\<lparr>tsAvailable = 2, tsUnlimited = False, tsNext = 90 * minute, tsWait = 0, tsExhausted = False\<rparr>"
  have 1: "Tokens ?r 0 [6 * minute, 5 * minute] (61 * minute) = Some ?s" by code_simp
  have 2: "CanPlay ?s" by code_simp
  have 3: "sane_instants ?r 0 [61 * minute, 6 * minute, 5 * minute]"
    by (simp add: sane_instants_def minute_def)
  show ?thesis using 1 2 CanPlay_within_budget [OF 1 2 3] by (auto simp: Let_def minute_def)
qed

end
