(* ===== verification/Go_Float.thy ===== *)
theory Go_Float
  imports Prelude
begin

text \<open>
  The model of Go's \<^verbatim>\<open>float64\<close>. A finite value is a rational number that the
  IEEE 754 rounding leaves unchanged; every arithmetic operation computes the
  exact rational result and rounds it once to nearest, ties to even (53 bit
  significand, least exponent -1074, so subnormal values are included). This is
  what Go does where it does not fuse operations (amd64).

  Not modelled: the infinities (overflow above \<open>2 ^ 1024\<close>), NaN and the sign of
  zero. Scores, outcomes and points of the system are at most some millions and
  are validated as finite where they enter; the one place that lets a NaN in
  (see the theory Checkers) is treated with its own type there.

  The laws clients use are those of the locale \<open>rounded_arith\<close>: monotone
  operations, with 0 and 1 neutral. Associativity and distributivity fail, as
  they do for the code.
\<close>

section \<open>Binary logarithms and powers of two\<close>

fun zlog2 :: "int \<Rightarrow> int" where
  "zlog2 n = (if n \<le> 1 then 0 else 1 + zlog2 (n div 2))"

declare zlog2.simps [simp del]

definition ilog2 :: "rat \<Rightarrow> int" where
  "ilog2 x = (case quotient_of x of (n, d) \<Rightarrow>
     let k = zlog2 n - zlog2 d in if 2 powi k \<le> x then k else k - 1)"

definition rne :: "rat \<Rightarrow> int" where
  "rne x = (let f = \<lfloor>x\<rfloor>; r = x - of_int f in
     if r < 1 / 2 then f else if r > 1 / 2 then f + 1 else if even f then f else f + 1)"

definition ulp_exp :: "rat \<Rightarrow> int" where
  "ulp_exp x = max (-1074) (ilog2 \<bar>x\<bar> - 52)"

definition rnd64 :: "rat \<Rightarrow> rat" where
  "rnd64 x = (if x = 0 then 0 else of_int (rne (x / 2 powi ulp_exp x)) * 2 powi ulp_exp x)"

lemma zlog2_nonneg: "0 \<le> zlog2 n"
  by (induction n rule: zlog2.induct) (subst zlog2.simps, simp)

lemma zlog2_bounds: "0 < n \<Longrightarrow> 2 ^ nat (zlog2 n) \<le> n \<and> n < 2 ^ nat (zlog2 n + 1)"
proof (induction n rule: zlog2.induct)
  case (1 n)
  show ?case
  proof (cases "n \<le> 1")
    case True
    with "1.prems" show ?thesis by (simp add: zlog2.simps [of n])
  next
    case False
    then have IH: "2 ^ nat (zlog2 (n div 2)) \<le> n div 2" "n div 2 < 2 ^ nat (zlog2 (n div 2) + 1)"
      using "1.IH" by auto
    have e: "zlog2 n = 1 + zlog2 (n div 2)" using False by (subst zlog2.simps) simp
    have s: "(2::int) ^ nat (zlog2 n) = 2 * 2 ^ nat (zlog2 (n div 2))"
      "(2::int) ^ nat (zlog2 n + 1) = 4 * 2 ^ nat (zlog2 (n div 2))"
      using zlog2_nonneg [of "n div 2"] by (simp_all add: e nat_add_distrib)
    have "n div 2 < 2 * 2 ^ nat (zlog2 (n div 2))"
      using IH(2) zlog2_nonneg [of "n div 2"] by (simp add: nat_add_distrib)
    with IH(1) show ?thesis unfolding s by linarith
  qed
qed

abbreviation pow2 :: "int \<Rightarrow> rat" where "pow2 k \<equiv> 2 powi k"

lemma pow2_pos [simp]: "0 < pow2 k"
  by simp

lemma pow2_mono: "j \<le> k \<Longrightarrow> pow2 j \<le> pow2 k"
  by (rule power_int_increasing) auto

lemma pow2_strict: "pow2 j < pow2 k \<longleftrightarrow> j < k"
  by (metis linorder_not_less one_less_numeral_iff order_le_less pow2_mono power_int_strict_increasing semiring_norm(76))

lemma pow2_le: "pow2 j \<le> pow2 k \<longleftrightarrow> j \<le> k"
  by (meson linorder_not_le pow2_strict)

lemma pow2_add: "pow2 (j + k) = pow2 j * pow2 k"
  by (simp add: power_int_add)

lemma pow2_nat: "0 \<le> k \<Longrightarrow> pow2 k = of_int (2 ^ nat k)"
  by (simp add: power_int_def)

lemma zlog2_pow2:
  assumes "0 < n"
  shows "pow2 (zlog2 n) \<le> of_int n" and "of_int n < pow2 (zlog2 n + 1)"
proof -
  have z: "0 \<le> zlog2 n" "0 \<le> zlog2 n + 1" using zlog2_nonneg [of n] by auto
  show "pow2 (zlog2 n) \<le> of_int n" "of_int n < pow2 (zlog2 n + 1)"
    using zlog2_bounds [OF assms] unfolding pow2_nat [OF z(1)] pow2_nat [OF z(2)]
    by (simp_all only: of_int_le_iff of_int_less_iff)
qed

lemma ilog2_bounds:
  assumes "0 < x"
  shows "pow2 (ilog2 x) \<le> x" and "x < pow2 (ilog2 x + 1)"
proof -
  obtain n d where q: "quotient_of x = (n, d)" by (cases "quotient_of x")
  have d: "0 < d" using q by (rule quotient_of_denom_pos)
  have x: "x = of_int n / of_int d" using q by (rule quotient_of_div)
  have n: "0 < n" using assms d by (auto simp: x zero_less_divide_iff)
  let ?a = "zlog2 n" and ?b = "zlog2 d"
  have na: "pow2 ?a \<le> of_int n" "of_int n < pow2 (?a + 1)"
    using zlog2_pow2 [OF n] by auto
  have db: "pow2 ?b \<le> of_int d" "of_int d < pow2 (?b + 1)"
    using zlog2_pow2 [OF d] by auto
  have up: "x < pow2 (?a - ?b + 1)"
  proof -
    have "of_int n < pow2 (?a - ?b + 1) * pow2 ?b"
      using na(2) by (simp flip: pow2_add)
    also have "\<dots> \<le> pow2 (?a - ?b + 1) * of_int d"
      using db(1) by (simp add: mult_left_mono less_imp_le)
    finally show ?thesis using d by (simp add: x divide_less_eq)
  qed
  have lo: "pow2 (?a - ?b - 1) \<le> x"
  proof -
    have "pow2 (?a - ?b - 1) * of_int d \<le> pow2 (?a - ?b - 1) * pow2 (?b + 1)"
      using db(2) by (simp add: mult_left_mono less_imp_le)
    also have "\<dots> = pow2 ?a" by (simp flip: pow2_add)
    also have "\<dots> \<le> of_int n" by (rule na(1))
    finally show ?thesis using d by (simp add: x le_divide_eq)
  qed
  show "pow2 (ilog2 x) \<le> x" "x < pow2 (ilog2 x + 1)"
    using up lo by (auto simp: ilog2_def q Let_def)
qed

lemma ilog2_less_iff: "0 < x \<Longrightarrow> x < pow2 k \<longleftrightarrow> ilog2 x < k"
  by (smt (verit) ilog2_bounds order_le_less_trans order_less_le_trans pow2_mono pow2_strict)

lemma ilog2_le_iff: "0 < x \<Longrightarrow> pow2 k \<le> x \<longleftrightarrow> k \<le> ilog2 x"
  by (meson ilog2_less_iff linorder_not_le)

lemma ilog2_mono: "0 < x \<Longrightarrow> x \<le> y \<Longrightarrow> ilog2 x \<le> ilog2 y"
  by (meson ilog2_bounds(1) ilog2_le_iff order_less_le_trans order_trans)

section \<open>Round to nearest, ties to even\<close>

lemma rne_of_int [simp]: "rne (of_int n) = n"
  by (simp add: rne_def)

lemma rne_0 [simp]: "rne 0 = 0"
  by (simp add: rne_def)

lemma rne_mono: "x \<le> y \<Longrightarrow> rne x \<le> rne y"
proof -
  assume le: "x \<le> y"
  have f: "\<lfloor>x\<rfloor> \<le> \<lfloor>y\<rfloor>" using le by (rule floor_mono)
  show ?thesis
  proof (cases "\<lfloor>x\<rfloor> = \<lfloor>y\<rfloor>")
    case True
    then show ?thesis using le by (auto simp: rne_def Let_def)
  next
    case False
    then have "\<lfloor>x\<rfloor> + 1 \<le> \<lfloor>y\<rfloor>" using f by simp
    then show ?thesis by (auto simp: rne_def Let_def)
  qed
qed

lemma rne_uminus: "rne (- x) = - rne x"
proof (cases "x \<in> \<int>")
  case True
  then obtain n where "x = of_int n" by (auto elim: Ints_cases)
  then show ?thesis by (metis of_int_minus rne_of_int)
next
  case False
  have f: "\<lfloor>- x\<rfloor> = - \<lfloor>x\<rfloor> - 1"
    using False by (metis Ints_of_int add.commute diff_conv_add_uminus  ceiling_altdef ceiling_def minus_add_distrib minus_minus of_int_minus uminus_add_conv_diff)
  show ?thesis by (auto simp: rne_def Let_def f)
qed

lemma rne_near: "\<bar>of_int (rne x) - x\<bar> \<le> 1 / 2"
  by (auto simp: rne_def Let_def abs_if) linarith+

section \<open>Rounding to a binary64 value\<close>

definition grid :: "int \<Rightarrow> rat \<Rightarrow> rat" where
  "grid e x = of_int (rne (x / pow2 e)) * pow2 e"

lemma rnd64_grid: "x \<noteq> 0 \<Longrightarrow> rnd64 x = grid (ulp_exp x) x"
  by (simp add: rnd64_def grid_def)

lemma grid_mono: "x \<le> y \<Longrightarrow> grid e x \<le> grid e y"
  unfolding grid_def
  by (intro mult_right_mono of_int_le_iff [THEN iffD2] rne_mono divide_right_mono) (simp_all add: less_imp_le)

lemma grid_exact: "x = of_int m * pow2 e \<Longrightarrow> grid e x = x"
  by (simp add: grid_def)

lemma rnd64_0 [simp]: "rnd64 0 = 0"
  by (simp add: rnd64_def)

lemma rnd64_uminus: "rnd64 (- x) = - rnd64 x"
  by (simp add: rnd64_def ulp_exp_def rne_uminus)

lemma pow2_exact:
  assumes "e \<le> k"
  shows "\<exists>m. pow2 k = of_int m * pow2 e"
proof
  have "pow2 k = pow2 (k - e) * pow2 e" by (simp flip: pow2_add)
  then show "pow2 k = of_int (2 ^ nat (k - e)) * pow2 e" using assms by (simp add: pow2_nat)
qed

lemma representable:
  assumes x: "x = of_int m * pow2 e" and m: "\<bar>m\<bar> \<le> 2 ^ 53" and e: "-1074 \<le> e"
  shows "rnd64 x = x"
proof (cases "x = 0")
  case False
  have "\<exists>k. x = of_int k * pow2 (ulp_exp x)"
  proof (cases "\<bar>m\<bar> = 2 ^ 53")
    case True
    then have ax: "\<bar>x\<bar> = pow2 (e + 53)"
      by (simp add: x abs_mult pow2_add flip: of_int_abs)
    then have "ilog2 \<bar>x\<bar> = e + 53"
      by (smt (verit) ilog2_bounds pow2_pos pow2_le pow2_strict)
    then have u: "ulp_exp x \<le> e + 53" using e by (simp add: ulp_exp_def)
    from pow2_exact [OF this] obtain k where "\<bar>x\<bar> = of_int k * pow2 (ulp_exp x)"
      using ax by auto
    then show ?thesis by (metis abs_if minus_mult_left of_int_minus minus_minus)
  next
    case False
    then have "\<bar>m\<bar> < 2 ^ 53" using m by simp
    then have "\<bar>of_int m :: rat\<bar> < 2 ^ 53" by (metis of_int_abs of_int_less_iff of_int_numeral of_int_power)
    then have "\<bar>x\<bar> < 2 ^ 53 * pow2 e" by (simp add: x abs_mult)
    also have "\<dots> = pow2 (53 + e)" by (simp add: pow2_add)
    finally have "ilog2 \<bar>x\<bar> < 53 + e" using \<open>x \<noteq> 0\<close> by (simp add: ilog2_less_iff)
    then have "ulp_exp x \<le> e" using e by (simp add: ulp_exp_def)
    from pow2_exact [OF this] obtain k where "pow2 e = of_int k * pow2 (ulp_exp x)" ..
    then have "x = of_int (m * k) * pow2 (ulp_exp x)" by (simp add: x)
    then show ?thesis by blast
  qed
  then show ?thesis using False by (auto simp: rnd64_grid intro: grid_exact)
qed simp

lemma rnd64_pow2 [simp]: "-1074 \<le> k \<Longrightarrow> rnd64 (pow2 k) = pow2 k"
  by (rule representable [of _ 1]) auto

lemma rnd64_form:
  "\<exists>m. rnd64 x = of_int m * pow2 (ulp_exp x) \<and> \<bar>m\<bar> \<le> 2 ^ 53"
proof (cases "x = 0")
  case False
  let ?y = "\<bar>x\<bar> / pow2 (ulp_exp x)"
  have "\<bar>x\<bar> < pow2 (53 + ulp_exp x)"
    using False ilog2_bounds(2) [of "\<bar>x\<bar>"] pow2_mono [of "ilog2 \<bar>x\<bar> + 1" "53 + ulp_exp x"]
    by (simp add: ulp_exp_def) (smt (verit) order_less_le_trans)
  then have "?y \<le> of_int (2 ^ 53)" by (simp add: pow2_add divide_le_eq less_imp_le)
  then have "rne ?y \<le> 2 ^ 53" using rne_mono rne_of_int by metis
  moreover have "0 \<le> rne ?y" using rne_mono [of "of_int 0" ?y] by (simp add: less_imp_le)
  moreover have "\<bar>rne (x / pow2 (ulp_exp x))\<bar> = \<bar>rne ?y\<bar>"
    by (cases "0 \<le> x") (simp_all add: rne_uminus)
  ultimately show ?thesis using False by (auto simp: rnd64_def)
qed (auto intro: exI [of _ 0])

lemma ulp_exp_ge: "-1074 \<le> ulp_exp x"
  by (simp add: ulp_exp_def)

lemma rnd64_idem [simp]: "rnd64 (rnd64 x) = rnd64 x"
  using rnd64_form [of x] ulp_exp_ge [of x] by (auto intro: representable)

lemma rnd64_mono_pos:
  assumes "0 < x" "x \<le> y"
  shows "rnd64 x \<le> rnd64 y"
proof (cases "ulp_exp x = ulp_exp y")
  case True
  then show ?thesis using assms by (simp add: rnd64_grid grid_mono)
next
  case False
  have "ulp_exp x \<le> ulp_exp y" using ilog2_mono [OF assms] assms by (auto simp: ulp_exp_def)
  with False have lt: "ulp_exp x < ulp_exp y" by simp
  then have ey: "ulp_exp y = ilog2 y - 52" using assms by (auto simp: ulp_exp_def split: if_splits)
  let ?b = "pow2 (ilog2 y)"
  have "rnd64 x \<le> ?b"
  proof -
    obtain m where m: "rnd64 x = of_int m * pow2 (ulp_exp x)" "\<bar>m\<bar> \<le> 2 ^ 53" using rnd64_form by blast
    have "rnd64 x \<le> of_int (2 ^ 53) * pow2 (ulp_exp x)"
      unfolding m(1) using m(2) by (intro mult_right_mono of_int_le_iff [THEN iffD2]) (auto simp: less_imp_le)
    also have "\<dots> = pow2 (53 + ulp_exp x)" by (simp add: pow2_add)
    also have "\<dots> \<le> ?b" using lt ey by (intro pow2_mono) simp
    finally show ?thesis .
  qed
  also have "?b = grid (ulp_exp y) ?b"
    using pow2_exact [of "ulp_exp y" "ilog2 y"] ey grid_exact by fastforce
  also have "\<dots> \<le> rnd64 y" using assms ilog2_bounds(1) by (auto simp: rnd64_grid intro!: grid_mono)
  finally show ?thesis .
qed

lemma rnd64_nonneg: "0 \<le> x \<Longrightarrow> 0 \<le> rnd64 x"
  using grid_mono [of 0 x "ulp_exp x"] by (cases "x = 0") (auto simp: rnd64_grid grid_def rne_def)

lemma rnd64_mono: "x \<le> y \<Longrightarrow> rnd64 x \<le> rnd64 y"
proof -
  assume le: "x \<le> y"
  consider "0 < x" | "x \<le> 0" "0 \<le> y" | "y < 0" by linarith
  then show ?thesis
  proof cases
    case 1 then show ?thesis using le by (rule rnd64_mono_pos)
  next
    case 2
    have "rnd64 x \<le> 0" using rnd64_nonneg [of "- x"] 2 by (simp add: rnd64_uminus)
    also have "0 \<le> rnd64 y" using 2 by (simp add: rnd64_nonneg)
    finally show ?thesis .
  next
    case 3
    then have "rnd64 (- y) \<le> rnd64 (- x)" using le by (intro rnd64_mono_pos) auto
    then show ?thesis by (simp add: rnd64_uminus)
  qed
qed

lemma rnd64_of_int: "\<bar>n\<bar> \<le> 2 ^ 53 \<Longrightarrow> rnd64 (of_int n) = of_int n"
  by (rule representable [of _ n 0]) auto


section \<open>Evaluation\<close>

text \<open>
  The same rounding on numerators and denominators, as code equation: it reads its
  argument once, which keeps the evaluation of nested operations linear.
\<close>

definition rne_div :: "int \<Rightarrow> int \<Rightarrow> int" where
  "rne_div n d = (let f = n div d; r = n mod d in
     if 2 * r < d then f else if 2 * r > d then f + 1 else if even f then f else f + 1)"

definition pow2_le_frac :: "int \<Rightarrow> int \<Rightarrow> int \<Rightarrow> bool" where
  "pow2_le_frac k n d = (if 0 \<le> k then 2 ^ nat k * d \<le> n else d \<le> n * 2 ^ nat (- k))"

definition rnd_frac :: "int \<Rightarrow> int \<Rightarrow> int \<times> int" where
  "rnd_frac n d =
     (if n = 0 then (0, 1)
      else let k0 = zlog2 \<bar>n\<bar> - zlog2 d;
               k = (if pow2_le_frac k0 \<bar>n\<bar> d then k0 else k0 - 1);
               e = max (-1074) (k - 52)
           in if 0 \<le> e then (rne_div n (d * 2 ^ nat e) * 2 ^ nat e, 1)
              else Rat.normalize (rne_div (n * 2 ^ nat (- e)) d, 2 ^ nat (- e)))"

lemma rne_div: "0 < d \<Longrightarrow> rne (of_int n / of_int d) = rne_div n d"
proof -
  assume d: "0 < d"
  have f: "\<lfloor>of_int n / of_int d :: rat\<rfloor> = n div d" by (simp add: floor_divide_of_int_eq)
  have "(of_int n :: rat) = of_int (n div d * d + n mod d)" by simp
  then have "(of_int n :: rat) = of_int (n div d) * of_int d + of_int (n mod d)"
    by (simp only: of_int_add of_int_mult)
  then have r: "of_int n / of_int d - of_int (n div d) = (of_int (n mod d) / of_int d :: rat)"
    using d by (simp add: add_divide_distrib)
  have "(of_int m / of_int d :: rat) < 1 / 2 \<longleftrightarrow> of_int (2 * m) < (of_int d :: rat)"
       "(of_int m / of_int d :: rat) > 1 / 2 \<longleftrightarrow> of_int (2 * m) > (of_int d :: rat)" for m
    using d by (simp_all add: field_simps)
  then have "(of_int (n mod d) / of_int d :: rat) < 1 / 2 \<longleftrightarrow> 2 * (n mod d) < d"
       "(of_int (n mod d) / of_int d :: rat) > 1 / 2 \<longleftrightarrow> 2 * (n mod d) > d"
    by (simp_all only: of_int_less_iff)
  then show ?thesis unfolding rne_def rne_div_def f r Let_def by simp
qed

lemma pow2_le_frac: "0 < d \<Longrightarrow> pow2 k \<le> of_int n / of_int d \<longleftrightarrow> pow2_le_frac k n d"
proof (cases "0 \<le> k")
  case True
  assume "0 < d"
  then show ?thesis using True
    by (simp add: pow2_le_frac_def pow2_nat le_divide_eq) (metis of_int_le_iff of_int_mult of_int_numeral of_int_power)
next
  case False
  assume d: "0 < d"
  have p: "pow2 k = 1 / of_int (2 ^ nat (- k))"
    using False by (simp add: power_int_def inverse_eq_divide power_divide)
  have "1 / q \<le> of_int n / of_int d \<longleftrightarrow> (of_int d :: rat) \<le> of_int n * q" if "0 < q" for q
    using d that by (simp add: field_simps)
  from this [of "of_int (2 ^ nat (- k))"]
  have "pow2 k \<le> of_int n / of_int d \<longleftrightarrow> (of_int d :: rat) \<le> of_int n * of_int (2 ^ nat (- k))"
    unfolding p by simp
  also have "\<dots> \<longleftrightarrow> d \<le> n * 2 ^ nat (- k)" by (metis of_int_le_iff of_int_mult)
  finally show ?thesis using False by (simp add: pow2_le_frac_def)
qed

lemma ilog2_frac:
  assumes "quotient_of x = (n, d)"
  shows "ilog2 \<bar>x\<bar> = (let k0 = zlog2 \<bar>n\<bar> - zlog2 d in if pow2_le_frac k0 \<bar>n\<bar> d then k0 else k0 - 1)"
proof -
  have d: "0 < d" using assms by (rule quotient_of_denom_pos)
  have x: "\<bar>x\<bar> = of_int \<bar>n\<bar> / of_int d" using d by (simp add: quotient_of_div [OF assms])
  have q: "quotient_of \<bar>x\<bar> = (\<bar>n\<bar>, d)"
    by (simp add: rat_abs_code assms)
  have "pow2 k \<le> \<bar>x\<bar> \<longleftrightarrow> pow2_le_frac k \<bar>n\<bar> d" for k
    unfolding x by (rule pow2_le_frac [OF d])
  then show ?thesis by (simp add: ilog2_def q Let_def)
qed

lemma quotient_of_rnd64 [code abstract]:
  "quotient_of (rnd64 x) = (case quotient_of x of (n, d) \<Rightarrow> rnd_frac n d)"
proof -
  obtain n d where q: "quotient_of x = (n, d)" by (cases "quotient_of x")
  have d: "0 < d" using q by (rule quotient_of_denom_pos)
  have x: "x = of_int n / of_int d" using q by (rule quotient_of_div)
  show ?thesis
  proof (cases "n = 0")
    case True
    then show ?thesis by (simp add: x q rnd_frac_def rnd64_def)
  next
    case False
    let ?e = "ulp_exp x"
    have e: "?e = (let k0 = zlog2 \<bar>n\<bar> - zlog2 d; k = (if pow2_le_frac k0 \<bar>n\<bar> d then k0 else k0 - 1)
        in max (-1074) (k - 52))"
      by (simp add: ulp_exp_def ilog2_frac [OF q] Let_def)
    have "x \<noteq> 0" using False d by (simp add: x)
    then have r: "rnd64 x = of_int (rne (x / pow2 ?e)) * pow2 ?e" by (simp add: rnd64_def)
    show ?thesis
    proof (cases "0 \<le> ?e")
      case True
      have "x / pow2 ?e = of_int n / of_int (d * 2 ^ nat ?e)" using True by (simp add: x pow2_nat)
      then have "rne (x / pow2 ?e) = rne_div n (d * 2 ^ nat ?e)" using d by (simp only: rne_div zero_less_mult_iff zero_less_power) (rule rne_div, simp)
      then have "rnd64 x = of_int (rne_div n (d * 2 ^ nat ?e) * 2 ^ nat ?e)"
        using True by (simp add: r pow2_nat)
      then have "quotient_of (rnd64 x) = (rne_div n (d * 2 ^ nat ?e) * 2 ^ nat ?e, 1)"
        by (simp only: of_int_rat quotient_of_Fract) (simp add: Rat.normalize_def)
      with True \<open>n \<noteq> 0\<close> show ?thesis by (simp add: q rnd_frac_def Let_def e)
    next
      case False
      have p: "pow2 ?e = 1 / of_int (2 ^ nat (- ?e))"
        using False by (simp add: power_int_def inverse_eq_divide power_divide)
      have "x / (1 / q) = (of_int n * q) / of_int d" for q by (simp add: x)
      then have "x / pow2 ?e = of_int (n * 2 ^ nat (- ?e)) / of_int d" unfolding p of_int_mult .
      then have "rne (x / pow2 ?e) = rne_div (n * 2 ^ nat (- ?e)) d" using d by (simp only: rne_div)
      then have "rnd64 x = Fract (rne_div (n * 2 ^ nat (- ?e)) d) (2 ^ nat (- ?e))"
        by (simp add: r p Fract_of_int_quotient)
      then have "quotient_of (rnd64 x) = Rat.normalize (rne_div (n * 2 ^ nat (- ?e)) d, 2 ^ nat (- ?e))"
        by (simp only: quotient_of_Fract)
      with False \<open>n \<noteq> 0\<close> show ?thesis by (simp add: q rnd_frac_def Let_def e)
    qed
  qed
qed

definition rat_max :: "rat \<Rightarrow> rat \<Rightarrow> rat" where "rat_max = max"
definition rat_min :: "rat \<Rightarrow> rat \<Rightarrow> rat" where "rat_min = min"

lemma quotient_of_rat_max [code abstract]:
  "quotient_of (rat_max p q) = (case (quotient_of p, quotient_of q) of
     ((a, c), (b, d)) \<Rightarrow> if a * d \<le> b * c then (b, d) else (a, c))"
  by (auto simp: rat_max_def max_def rat_less_eq_code mult.commute split: prod.splits)

lemma quotient_of_rat_min [code abstract]:
  "quotient_of (rat_min p q) = (case (quotient_of p, quotient_of q) of
     ((a, c), (b, d)) \<Rightarrow> if a * d \<le> b * c then (a, c) else (b, d))"
  by (auto simp: rat_min_def min_def rat_less_eq_code mult.commute split: prod.splits)

definition rat_round :: "rat \<Rightarrow> int" where
  "rat_round x = (if 0 \<le> x then \<lfloor>x + 1 / 2\<rfloor> else - \<lfloor>- x + 1 / 2\<rfloor>)"

lemma rat_round_code [code]:
  "rat_round x = (case quotient_of x of (n, d) \<Rightarrow>
     if 0 \<le> n then (2 * n + d) div (2 * d) else - ((d - 2 * n) div (2 * d)))"
proof -
  obtain n d where q: "quotient_of x = (n, d)" by (cases "quotient_of x")
  have d: "0 < d" using q by (rule quotient_of_denom_pos)
  have x: "x = of_int n / of_int d" using q by (rule quotient_of_div)
  have "x + 1 / 2 = of_int (2 * n + d) / of_int (2 * d)" "- x + 1 / 2 = of_int (d - 2 * n) / of_int (2 * d)"
    using d by (simp_all add: x field_simps)
  then show ?thesis
    unfolding rat_round_def by (simp only: floor_divide_of_int_eq q prod.case)
      (use d in \<open>simp add: x zero_le_divide_iff\<close>)
qed

section \<open>The type of finite binary64 values\<close>

typedef f64 = "{x. rnd64 x = x}"
  morphisms rat_of_f64 Abs_f64
  by (rule exI [of _ 0]) simp

setup_lifting type_definition_f64

lift_definition f64 :: "rat \<Rightarrow> f64" is rnd64 by simp

lift_definition round_f64 :: "f64 \<Rightarrow> int" is
  rat_round .

instantiation f64 :: linorder
begin
lift_definition less_eq_f64 :: "f64 \<Rightarrow> f64 \<Rightarrow> bool" is "(\<le>)" .
lift_definition less_f64 :: "f64 \<Rightarrow> f64 \<Rightarrow> bool" is "(<)" .
instance
  by standard (transfer; auto)+
end

instantiation f64 :: "{zero, one, plus, minus, times, inverse}"
begin
lift_definition zero_f64 :: f64 is 0 by simp
lift_definition one_f64 :: f64 is 1 using rnd64_of_int [of 1] by simp
lift_definition plus_f64 :: "f64 \<Rightarrow> f64 \<Rightarrow> f64" is "\<lambda>x y. rnd64 (x + y)" by simp
lift_definition minus_f64 :: "f64 \<Rightarrow> f64 \<Rightarrow> f64" is "\<lambda>x y. rnd64 (x - y)" by simp
lift_definition times_f64 :: "f64 \<Rightarrow> f64 \<Rightarrow> f64" is "\<lambda>x y. rnd64 (x * y)" by simp
lift_definition divide_f64 :: "f64 \<Rightarrow> f64 \<Rightarrow> f64" is "\<lambda>x y. rnd64 (x / y)" by simp
lift_definition inverse_f64 :: "f64 \<Rightarrow> f64" is "\<lambda>x. rnd64 (inverse x)" by simp
instance ..
end

instantiation f64 :: equal
begin
lift_definition equal_f64 :: "f64 \<Rightarrow> f64 \<Rightarrow> bool" is "(=)" .
instance by standard (transfer; simp)
end

lemma rat_of_f64_rnd [simp]: "rnd64 (rat_of_f64 x) = rat_of_f64 x"
  using rat_of_f64 [of x] by simp

lemma f64_rat_of_f64 [simp]: "f64 (rat_of_f64 x) = x"
  by (transfer) simp

lemma f64_mono: "x \<le> y \<Longrightarrow> f64 x \<le> f64 y"
  by transfer (rule rnd64_mono)

lemma f64_0 [simp]: "f64 0 = 0"
  by transfer simp

lemma f64_1 [simp]: "f64 1 = 1"
  by transfer (use rnd64_of_int [of 1] in simp)

lemma f64_zero_le_one [simp]: "(0 :: f64) \<le> 1" "(0 :: f64) < 1" "(0 :: f64) \<noteq> 1"
  by (transfer, simp)+

section \<open>The laws of the arithmetic\<close>

text \<open>What the scoring code may rely on, for any linearly ordered arithmetic with rounding.\<close>

locale rounded_arith =
  fixes add :: "'a::linorder \<Rightarrow> 'a \<Rightarrow> 'a" and mul :: "'a \<Rightarrow> 'a \<Rightarrow> 'a" and zero one :: 'a
  assumes add_mono: "a \<le> b \<Longrightarrow> c \<le> d \<Longrightarrow> add a c \<le> add b d"
    and add_zero: "add a zero = a"
    and mul_mono: "zero \<le> c \<Longrightarrow> a \<le> b \<Longrightarrow> mul c a \<le> mul c b"
    and mul_comm: "mul a b = mul b a"
    and mul_zero: "mul a zero = zero"
    and mul_one: "mul a one = a"
begin

lemma add_increases: "zero \<le> b \<Longrightarrow> a \<le> add a b"
  using add_mono [of a a zero b] by (simp add: add_zero)

lemma mul_mono_both:
  "zero \<le> a \<Longrightarrow> zero \<le> c \<Longrightarrow> a \<le> b \<Longrightarrow> c \<le> d \<Longrightarrow> mul a c \<le> mul b d"
  by (metis mul_comm mul_mono order_trans)

lemma mul_nonneg: "zero \<le> a \<Longrightarrow> zero \<le> b \<Longrightarrow> zero \<le> mul a b"
  by (metis mul_mono mul_zero)

lemma mul_le_left: "zero \<le> c \<Longrightarrow> a \<le> one \<Longrightarrow> mul c a \<le> c"
  by (metis mul_mono mul_one)

lemma sum_mono:
  "list_all2 (\<le>) xs ys \<Longrightarrow> a \<le> b \<Longrightarrow> foldl add a xs \<le> foldl add b ys"
proof (induction xs arbitrary: a b ys)
  case (Cons x xs)
  then obtain y ys' where "ys = y # ys'" "x \<le> y" "list_all2 (\<le>) xs ys'"
    by (cases ys) auto
  with Cons show ?case by (auto intro!: Cons.IH add_mono)
qed simp

lemma sum_increases: "list_all (\<lambda>x. zero \<le> x) xs \<Longrightarrow> a \<le> foldl add a xs"
proof (induction xs arbitrary: a)
  case (Cons x xs)
  then have "a \<le> add a x" "add a x \<le> foldl add (add a x) xs"
    by (auto intro: add_increases)
  then show ?case by simp
qed simp

lemma sum_sublist:
  "list_all (\<lambda>x. zero \<le> x) (map f xs) \<Longrightarrow> a \<le> b \<Longrightarrow>
   foldl add a (map f (filter P xs)) \<le> foldl add b (map f xs)"
proof (induction xs arbitrary: a b)
  case (Cons x xs)
  show ?case
  proof (cases "P x")
    case True
    with Cons show ?thesis by (auto intro!: Cons.IH add_mono)
  next
    case False
    have "a \<le> add b (f x)" using Cons.prems by (auto intro: order_trans add_increases)
    with False Cons show ?thesis by simp
  qed
qed simp

lemma prod_le: "list_all (\<lambda>x. zero \<le> x \<and> x \<le> one) xs \<Longrightarrow> zero \<le> a \<Longrightarrow>
   zero \<le> foldl mul a xs \<and> foldl mul a xs \<le> a"
proof (induction xs arbitrary: a)
  case (Cons x xs)
  then have "zero \<le> mul a x" "mul a x \<le> a" by (auto intro: mul_nonneg mul_le_left)
  with Cons show ?case by fastforce
qed simp

lemma prod_mono:
  "list_all2 (\<lambda>x y. zero \<le> x \<and> x \<le> y) xs ys \<Longrightarrow> zero \<le> a \<Longrightarrow> a \<le> b \<Longrightarrow>
   foldl mul a xs \<le> foldl mul b ys"
proof (induction xs arbitrary: a b ys)
  case (Cons x xs)
  then obtain y ys' where "ys = y # ys'" "zero \<le> x" "x \<le> y"
      "list_all2 (\<lambda>x y. zero \<le> x \<and> x \<le> y) xs ys'"
    by (cases ys) auto
  with Cons show ?case by (auto intro!: Cons.IH mul_mono_both mul_nonneg)
qed simp

lemma prod_absorbs: "zero \<in> set xs \<Longrightarrow> foldl mul a xs = zero"
proof (induction xs arbitrary: a)
  case (Cons x xs)
  have z: "foldl mul zero ys = zero" for ys
    by (induction ys) (simp_all add: mul_comm [of zero] mul_zero)
  show ?case using Cons by (cases "x = zero") (auto simp: mul_zero z)
qed simp

end

interpretation f64: rounded_arith "(+) :: f64 \<Rightarrow> f64 \<Rightarrow> f64" "(*)" 0 1
proof unfold_locales
  fix a b c d :: f64
  show "a \<le> b \<Longrightarrow> c \<le> d \<Longrightarrow> a + c \<le> b + d" by transfer (auto intro!: rnd64_mono)
  show "a + 0 = a" by transfer simp
  show "0 \<le> c \<Longrightarrow> a \<le> b \<Longrightarrow> c * a \<le> c * b"
    by transfer (auto intro!: rnd64_mono mult_left_mono)
  show "a * b = b * a" by transfer (simp add: mult.commute)
  show "a * 0 = 0" by transfer simp
  show "a * 1 = a" by transfer simp
qed

lemmas f64_simps [simp] = f64.add_zero f64.mul_zero f64.mul_one

lemma f64_zero_add [simp]: "0 + (a :: f64) = a"
  by transfer simp

lemma f64_zero_mul [simp]: "0 * (a :: f64) = 0"
  by transfer simp

lemma f64_divide_mono: "0 \<le> (c :: f64) \<Longrightarrow> a \<le> b \<Longrightarrow> a / c \<le> b / c"
  by transfer (auto intro!: rnd64_mono divide_right_mono)

lemma f64_less_rat: "(x :: f64) < y \<longleftrightarrow> rat_of_f64 x < rat_of_f64 y"
  by transfer simp

lemma f64_divide_self: "(x :: f64) \<noteq> 0 \<Longrightarrow> x / x = 1"
  by transfer (use rnd64_of_int [of 1] in auto)

lemma f64_of_nat_pos: "0 < n \<Longrightarrow> 0 < f64 (of_nat n)"
  using f64_mono [of 1 "of_nat n"] order_less_le_trans [OF f64_zero_le_one(2), of "f64 (of_nat n)"] by simp

text \<open>A proportion of counts never exceeds one.\<close>

lemma f64_ratio_le_1: "n \<le> d \<Longrightarrow> 0 < d \<Longrightarrow> f64 (of_nat n) / f64 (of_nat d) \<le> 1"
  using f64_divide_mono [of "f64 (of_nat d)" "f64 (of_nat n)" "f64 (of_nat d)"] f64_of_nat_pos [of d]
    f64_mono [of "of_nat n" "of_nat d"] by (simp add: f64_divide_self)

section \<open>The functions of package math the code uses\<close>

text \<open>
  \<^verbatim>\<open>math.Max\<close> and \<^verbatim>\<open>math.Min\<close> on finite values are \<^const>\<open>max\<close> and \<^const>\<open>min\<close>.
  \<^verbatim>\<open>math.Round\<close> rounds half away from zero; its result, a whole number, is
  exact. \<^verbatim>\<open>math.Pow(10, p)\<close> is exact for the precisions \<open>0..22\<close>.
\<close>

lift_definition math_Max :: "f64 \<Rightarrow> f64 \<Rightarrow> f64" is rat_max by (simp add: rat_max_def max_def)
lift_definition math_Min :: "f64 \<Rightarrow> f64 \<Rightarrow> f64" is rat_min by (simp add: rat_min_def min_def)

lemma math_Max_max [simp]: "math_Max x y = max x y"
  unfolding max_def by transfer (simp add: rat_max_def max_def)

lemma math_Min_min [simp]: "math_Min x y = min x y"
  unfolding min_def by transfer (simp add: rat_min_def min_def)

definition math_Round :: "f64 \<Rightarrow> f64" where
  "math_Round x = f64 (of_int (round_f64 x))"

definition math_Pow10 :: "nat \<Rightarrow> f64" where
  "math_Pow10 p = f64 (10 ^ p)"

lemma round_f64_mono: "x \<le> y \<Longrightarrow> round_f64 x \<le> round_f64 y"
proof transfer
  fix x y :: rat
  assume le: "x \<le> y"
  have pos: "0 \<le> \<lfloor>z + 1 / 2\<rfloor>" if "0 \<le> z" for z :: rat using that by linarith
  have across: "- \<lfloor>- x + 1 / 2\<rfloor> \<le> \<lfloor>y + 1 / 2\<rfloor>" if "x \<le> 0" "0 \<le> y"
    using pos [of y] pos [of "- x"] that by linarith
  show "rat_round x \<le> rat_round y"
    unfolding rat_round_def using le across by (auto intro: floor_mono)
qed

lemma math_Round_mono: "x \<le> y \<Longrightarrow> math_Round x \<le> math_Round y"
  unfolding math_Round_def by (intro f64_mono of_int_le_iff [THEN iffD2] round_f64_mono)

lemma floor_half [simp]: "\<lfloor>1 / 2 :: rat\<rfloor> = 0"
  by (rule floor_unique) auto

lemma math_Round_0 [simp]: "math_Round 0 = 0"
  unfolding math_Round_def by transfer (simp add: rat_round_def)

lemma math_Pow10_pos: "0 < math_Pow10 p"
proof -
  have "f64 1 \<le> math_Pow10 p" unfolding math_Pow10_def by (rule f64_mono) simp
  then show ?thesis by (metis f64_1 f64_zero_le_one(2) order_less_le_trans)
qed

lemma f64_zero_div [simp]: "0 / (a :: f64) = 0"
  by transfer simp

end
