(* ===== verification/Go_Json.thy ===== *)
theory Go_Json
  imports Go_Float Go_Time
begin

text \<open>
  The model of \<^verbatim>\<open>encoding/json\<close> as the score parameters use it: a
  \<^verbatim>\<open>json.RawMessage\<close> is the document it holds (\<^term>\<open>None\<close> for an empty or malformed
  message), and decoding into a Go type succeeds or fails as \<^verbatim>\<open>json.Unmarshal\<close> does.

  A number literal without fraction and exponent is kept apart, because only
  such literals decode into an \<^verbatim>\<open>int\<close>. Decoding \<^verbatim>\<open>null\<close> leaves a zero value and
  succeeds. Object keys match a field name up to ASCII case; of several matching
  keys the last one counts.
\<close>

datatype json =
    JNull
  | JBool bool
  | JInt int
  | JDec rat
  | JStr string
  | JArr "json list"
  | JObj "(string \<times> json) list"

fun to_float :: "json \<Rightarrow> f64 option" where
  "to_float JNull = Some 0"
| "to_float (JInt n) = Some (f64 (of_int n))"
| "to_float (JDec q) = Some (f64 q)"
| "to_float _ = None"

fun to_int :: "json \<Rightarrow> int option" where
  "to_int JNull = Some 0"
| "to_int (JInt n) = (if in_i64 n then Some n else None)"
| "to_int _ = None"

fun to_string :: "json \<Rightarrow> string option" where
  "to_string JNull = Some ''''"
| "to_string (JStr s) = Some s"
| "to_string _ = None"

text \<open>Decoding into a pointer to a float: \<^verbatim>\<open>null\<close> gives the nil pointer.\<close>

fun to_float_ptr :: "json \<Rightarrow> f64 option option" where
  "to_float_ptr JNull = Some None"
| "to_float_ptr j = map_option Some (to_float j)"

fun all_some :: "'a option list \<Rightarrow> 'a list option" where
  "all_some [] = Some []"
| "all_some (None # xs) = None"
| "all_some (Some x # xs) = map_option ((#) x) (all_some xs)"

text \<open>Decoding into a slice of strings; the nil slice and the empty one are told apart where needed.\<close>

fun to_strings :: "json \<Rightarrow> string list option" where
  "to_strings JNull = Some []"
| "to_strings (JArr xs) = all_some (map to_string xs)"
| "to_strings _ = None"

definition lower :: "char \<Rightarrow> char" where
  "lower c = (let n = of_char c :: nat in if 65 \<le> n \<and> n \<le> 90 then char_of (n + 32) else c)"

definition same_key :: "string \<Rightarrow> string \<Rightarrow> bool" where
  "same_key a b \<longleftrightarrow> map lower a = map lower b"

text \<open>The value of a field; a missing key is \<^term>\<open>None\<close>.\<close>

definition field :: "string \<Rightarrow> (string \<times> json) list \<Rightarrow> json option" where
  "field name kvs = map_option snd (find (\<lambda>kv. same_key name (fst kv)) (rev kvs))"

lemma all_some_Some: "all_some xs = Some ys \<longleftrightarrow> xs = map Some ys"
proof (induction xs arbitrary: ys rule: all_some.induct)
  case (3 x xs)
  then show ?case by (cases ys) auto
qed auto

lemma to_int_range: "to_int j = Some n \<Longrightarrow> in_i64 n"
  by (induction j rule: to_int.induct) (auto simp: in_i64_def split: if_splits)

end
