(* ===== verification/Score_Types.thy ===== *)
theory Score_Types
  imports Go_Json
begin

text \<open>
  The score types (\<^verbatim>\<open>src/internal/scoring/scoretypes.go\<close>): how the outcomes of a
  dataset's testcases become the score of a submission. \<open>Sum\<close> gives points per
  testcase; \<open>GroupMin\<close>, \<open>GroupMul\<close> and \<open>GroupThreshold\<close> score subtasks.

  Regular expressions (\<^verbatim>\<open>regexp.Compile\<close>) are a parameter \<open>re\<close>: the matcher of a
  pattern, or \<^term>\<open>None\<close> for a pattern that does not compile.
\<close>

section \<open>Data\<close>

record Testcase =
  tcID :: int
  tcCodename :: string
  tcPublic :: bool
  tcEvaluated :: bool
  tcOutcome :: f64
  tcText :: string
  tcTime :: f64
  tcMemory :: int
  tcExitStatus :: string

record TestcaseDetail =
  tdCodename :: string
  tdPublic :: bool
  tdOutcome :: f64
  tdText :: string
  tdTime :: f64
  tdMemory :: int
  tdStatus :: string
  tdPoints :: "f64 option"

record SubtaskDetail =
  sdIndex :: nat
  sdMaxScore :: f64
  sdScore :: f64
  sdFraction :: f64
  sdPublic :: bool
  sdTestcases :: "TestcaseDetail list"

record Details =
  dType :: string
  dMaxScore :: f64
  dSubtasks :: "SubtaskDetail list"
  dTestcases :: "TestcaseDetail list"

record Result =
  Score :: f64
  ResDetails :: Details
  PublicScore :: f64
  PublicDetails :: Details
  RankingDetails :: "f64 list"

record testcaseDef =
  codename :: string
  public :: bool

record sum =
  points :: f64
  sumDefs :: "testcaseDef list"
  sumPrecision :: nat

record groupDef =
  maxScore :: f64
  threshold :: f64
  grpMembers :: "nat list"
  grpPublic :: bool

record group =
  kind :: string
  subtasks :: "groupDef list"
  grpDefs :: "testcaseDef list"
  grpPrecision :: nat

record groupParam =
  gpMaxScore :: f64
  gpTestcases :: "json option"
  gpThreshold :: "f64 option"

text \<open>The interface \<^verbatim>\<open>ScoreType\<close> has two implementations.\<close>

datatype ScoreType = SumType sum | GroupType group

text \<open>Subtask numbers in errors are 1-based, as in the messages.\<close>

datatype score_error =
    LengthsDiffer
  | UnknownScoreType string
  | SumParameters
  | SumNegative
  | GroupParameters
  | SubtaskShape nat
  | SubtaskMaxScore nat
  | SubtaskThreshold nat
  | NoSubtasks
  | NegativeMaxScore nat
  | NeedsThreshold nat
  | CountUnavailable nat int int
  | InvalidRegex nat
  | UnknownTestcase nat string
  | BadTestcases nat
  | MatchesNothing nat

section \<open>Rounding\<close>

definition round_score :: "f64 \<Rightarrow> nat \<Rightarrow> f64" where
  "round_score v precision = (let p = math_Pow10 precision in math_Round (v * p) / p)"

definition clamp01 :: "f64 \<Rightarrow> f64" where
  "clamp01 v = math_Max 0 (math_Min 1 v)"

section \<open>Sum\<close>

definition newSum :: "json option \<Rightarrow> testcaseDef list \<Rightarrow> nat \<Rightarrow> (score_error, sum) result" where
  "newSum params defs precision =
     (let mk = (\<lambda>n. \<lparr>points = n, sumDefs = defs, sumPrecision = precision\<rparr>);
          chk = (\<lambda>n. if n < 0 then Inl SumNegative else Inr (mk n))
      in case params of
           None \<Rightarrow> Inr (mk 1)
         | Some j \<Rightarrow>
             if j = JNull \<or> j = JObj [] then Inr (mk 1)
             else (case to_float j of
                     Some n \<Rightarrow> chk n
                   | None \<Rightarrow>
                       (case j of
                          JObj kvs \<Rightarrow>
                            (case field ''points_per_testcase'' kvs of
                               None \<Rightarrow> Inl SumParameters
                             | Some v \<Rightarrow>
                                 (case to_float_ptr v of
                                    Some (Some n) \<Rightarrow> chk n
                                  | _ \<Rightarrow> Inl SumParameters))
                        | _ \<Rightarrow> Inl SumParameters)))"

definition float_of_len :: "nat \<Rightarrow> f64" where
  "float_of_len n = f64 (of_nat n)"

definition sum_MaxScore :: "sum \<Rightarrow> f64" where
  "sum_MaxScore s = round_score (points s * float_of_len (length (sumDefs s))) (sumPrecision s)"

definition sum_MaxPublicScore :: "sum \<Rightarrow> f64" where
  "sum_MaxPublicScore s =
     round_score (points s * float_of_len (length (filter public (sumDefs s)))) (sumPrecision s)"

text \<open>The map from codenames to results: a later entry replaces an earlier one.\<close>

definition index :: "Testcase list \<Rightarrow> string \<Rightarrow> Testcase option" where
  "index tcs = map_of (rev (map (\<lambda>t. (tcCodename t, t)) tcs))"

definition detail :: "testcaseDef \<Rightarrow> Testcase option \<Rightarrow> TestcaseDetail" where
  "detail d t =
     (case t of
        None \<Rightarrow> \<lparr>tdCodename = codename d, tdPublic = public d, tdOutcome = 0, tdText = '''',
                 tdTime = 0, tdMemory = 0, tdStatus = ''pending'', tdPoints = None\<rparr>
      | Some t \<Rightarrow> \<lparr>tdCodename = codename d, tdPublic = public d, tdOutcome = tcOutcome t,
                 tdText = tcText t, tdTime = tcTime t, tdMemory = tcMemory t,
                 tdStatus = tcExitStatus t, tdPoints = None\<rparr>)"

definition sum_points :: "sum \<Rightarrow> (string \<Rightarrow> Testcase option) \<Rightarrow> testcaseDef \<Rightarrow> f64" where
  "sum_points s byName d =
     (case byName (codename d) of None \<Rightarrow> 0 | Some t \<Rightarrow> points s * clamp01 (tcOutcome t))"

text \<open>\<^verbatim>\<open>score += v\<close> over the values in order.\<close>

definition add_up :: "f64 list \<Rightarrow> f64" where
  "add_up vs = foldl (+) 0 vs"

definition sum_Compute :: "sum \<Rightarrow> Testcase list \<Rightarrow> Result" where
  "sum_Compute s tcs =
     (let byName = index tcs;
          row = (\<lambda>d. (detail d (byName (codename d)))
                   \<lparr>tdPoints := Some (round_score (sum_points s byName d) (sumPrecision s))\<rparr>);
          pubs = filter public (sumDefs s);
          score = round_score (add_up (map (sum_points s byName) (sumDefs s))) (sumPrecision s);
          pub = round_score (add_up (map (sum_points s byName) pubs)) (sumPrecision s)
      in \<lparr>Score = score,
          ResDetails = \<lparr>dType = ''sum'', dMaxScore = sum_MaxScore s, dSubtasks = [],
                        dTestcases = map row (sumDefs s)\<rparr>,
          PublicScore = pub,
          PublicDetails = \<lparr>dType = ''sum'', dMaxScore = sum_MaxPublicScore s, dSubtasks = [],
                           dTestcases = map row pubs\<rparr>,
          RankingDetails = [score]\<rparr>)"

section \<open>Groups\<close>

fun obj_param :: "json \<Rightarrow> groupParam option" where
  "obj_param JNull = Some \<lparr>gpMaxScore = 0, gpTestcases = None, gpThreshold = None\<rparr>"
| "obj_param (JObj kvs) =
     (case (case field ''max_score'' kvs of None \<Rightarrow> Some 0 | Some v \<Rightarrow> to_float v,
            case field ''threshold'' kvs of None \<Rightarrow> Some None | Some v \<Rightarrow> to_float_ptr v) of
        (Some m, Some th) \<Rightarrow> Some \<lparr>gpMaxScore = m, gpTestcases = field ''testcases'' kvs, gpThreshold = th\<rparr>
      | _ \<Rightarrow> None)"
| "obj_param _ = None"

text \<open>Decoding into \<^verbatim>\<open>struct{ Subtasks []groupParam }\<close>: \<^term>\<open>Some None\<close> is the nil slice.\<close>

fun obj_form :: "json \<Rightarrow> groupParam list option option" where
  "obj_form JNull = Some None"
| "obj_form (JObj kvs) =
     (case field ''subtasks'' kvs of
        None \<Rightarrow> Some None
      | Some JNull \<Rightarrow> Some None
      | Some (JArr xs) \<Rightarrow> map_option Some (all_some (map obj_param xs))
      | Some _ \<Rightarrow> None)"
| "obj_form _ = None"

fun raw_rows :: "json \<Rightarrow> json list list option" where
  "raw_rows JNull = Some []"
| "raw_rows (JArr xs) =
     all_some (map (\<lambda>x. case x of JNull \<Rightarrow> Some [] | JArr ys \<Rightarrow> Some ys | _ \<Rightarrow> None) xs)"
| "raw_rows _ = None"

definition row_param :: "nat \<Rightarrow> json list \<Rightarrow> (score_error, groupParam) result" where
  "row_param i a =
     (case a of
        [m, t] \<Rightarrow>
          (case to_float m of
             None \<Rightarrow> Inl (SubtaskMaxScore (i + 1))
           | Some v \<Rightarrow> Inr \<lparr>gpMaxScore = v, gpTestcases = Some t, gpThreshold = None\<rparr>)
      | [m, t, h] \<Rightarrow>
          (case to_float m of
             None \<Rightarrow> Inl (SubtaskMaxScore (i + 1))
           | Some v \<Rightarrow>
               (case to_float h of
                  None \<Rightarrow> Inl (SubtaskThreshold (i + 1))
                | Some th \<Rightarrow> Inr \<lparr>gpMaxScore = v, gpTestcases = Some t, gpThreshold = Some th\<rparr>))
      | _ \<Rightarrow> Inl (SubtaskShape (i + 1)))"

fun row_params :: "nat \<Rightarrow> json list list \<Rightarrow> (score_error, groupParam list) result" where
  "row_params i [] = Inr []"
| "row_params i (a # as) =
     bind_result (row_param i a) (\<lambda>p. bind_result (row_params (i + 1) as) (\<lambda>ps. Inr (p # ps)))"

definition parseGroupParams :: "json option \<Rightarrow> (score_error, groupParam list) result" where
  "parseGroupParams raw =
     (case raw of
        None \<Rightarrow> Inl GroupParameters
      | Some j \<Rightarrow>
          (case obj_form j of
             Some (Some ps) \<Rightarrow> Inr ps
           | _ \<Rightarrow>
               (case raw_rows j of
                  None \<Rightarrow> Inl GroupParameters
                | Some rows \<Rightarrow> row_params 0 rows)))"

type_synonym regexp = "string \<Rightarrow> (string \<Rightarrow> bool) option"

text \<open>
  \<^verbatim>\<open>members\<close> returns the indexes and the advanced counter. Go's addition
  \<^verbatim>\<open>*next+n\<close> wraps around; the list loop stops at the first unknown codename.
\<close>

definition last_pos :: "string list \<Rightarrow> string \<Rightarrow> nat option" where
  "last_pos codes c = map_of (rev (zip codes [0..<length codes])) c"

fun list_members :: "nat \<Rightarrow> string list \<Rightarrow> string list \<Rightarrow> (score_error, int list) result" where
  "list_members i codes [] = Inr []"
| "list_members i codes (c # cs) =
     (case last_pos codes c of
        None \<Rightarrow> Inl (UnknownTestcase (i + 1) c)
      | Some k \<Rightarrow> bind_result (list_members i codes cs) (\<lambda>ks. Inr (int k # ks)))"

definition members :: "regexp \<Rightarrow> nat \<Rightarrow> json option \<Rightarrow> string list \<Rightarrow> int \<Rightarrow> (score_error, int list \<times> int) result" where
  "members re i spec codenames nxt =
     (case spec of
        None \<Rightarrow> Inl (BadTestcases (i + 1))
      | Some j \<Rightarrow>
          (case to_int j of
             Some n \<Rightarrow>
               if n \<le> 0 \<or> wrap64 (nxt + n) > int (length codenames)
               then Inl (CountUnavailable (i + 1) n (int (length codenames) - nxt))
               else Inr ([nxt .. wrap64 (nxt + n) - 1], wrap64 (nxt + n))
           | None \<Rightarrow>
               (case to_string j of
                  Some pattern \<Rightarrow>
                    (case re (''^(?:'' @ pattern @ '')$'') of
                       None \<Rightarrow> Inl (InvalidRegex (i + 1))
                     | Some match \<Rightarrow>
                         Inr (map int (filter (\<lambda>k. match (codenames ! k)) [0..<length codenames]), nxt))
                | None \<Rightarrow>
                    (case to_strings j of
                       Some cs \<Rightarrow> bind_result (list_members i codenames cs) (\<lambda>ks. Inr (ks, nxt))
                     | None \<Rightarrow> Inl (BadTestcases (i + 1))))))"

text \<open>The loop of \<^verbatim>\<open>newGroup\<close> over the parameters, from subtask \<open>i\<close> and counter \<open>nxt\<close> on.\<close>

fun group_subtasks :: "regexp \<Rightarrow> string \<Rightarrow> testcaseDef list \<Rightarrow> nat \<Rightarrow> int \<Rightarrow> groupParam list \<Rightarrow>
    (score_error, groupDef list) result" where
  "group_subtasks re kd defs i nxt [] = Inr []"
| "group_subtasks re kd defs i nxt (p # ps) =
     (if gpMaxScore p < 0 then Inl (NegativeMaxScore (i + 1))
      else if kd = ''GroupThreshold'' \<and> gpThreshold p = None then Inl (NeedsThreshold (i + 1))
      else
        bind_result (members re i (gpTestcases p) (map codename defs) nxt) (\<lambda>(ks, nxt').
          if ks = [] then Inl (MatchesNothing (i + 1))
          else
            bind_result (group_subtasks re kd defs (i + 1) nxt' ps) (\<lambda>sds.
              Inr (\<lparr>maxScore = gpMaxScore p,
                    threshold = (if kd = ''GroupThreshold'' then the (gpThreshold p) else 0),
                    grpMembers = map nat ks,
                    grpPublic = list_all (\<lambda>k. public (defs ! nat k)) ks\<rparr> # sds))))"

definition newGroup :: "regexp \<Rightarrow> string \<Rightarrow> json option \<Rightarrow> testcaseDef list \<Rightarrow> nat \<Rightarrow> (score_error, group) result" where
  "newGroup re kd params defs precision =
     bind_result (parseGroupParams params) (\<lambda>ps.
       if ps = [] then Inl NoSubtasks
       else bind_result (group_subtasks re kd defs 0 0 ps) (\<lambda>sds.
         Inr \<lparr>kind = kd, subtasks = sds, grpDefs = defs, grpPrecision = precision\<rparr>))"

definition group_SubtaskMaxScores :: "group \<Rightarrow> f64 list" where
  "group_SubtaskMaxScores g = map (\<lambda>st. round_score (maxScore st) (grpPrecision g)) (subtasks g)"

definition group_MaxScore :: "group \<Rightarrow> f64" where
  "group_MaxScore g = round_score (add_up (map maxScore (subtasks g))) (grpPrecision g)"

definition group_MaxPublicScore :: "group \<Rightarrow> f64" where
  "group_MaxPublicScore g =
     round_score (add_up (map maxScore (filter grpPublic (subtasks g)))) (grpPrecision g)"

text \<open>
  \<^verbatim>\<open>Skippable\<close>: \<open>dead\<close> are the subtasks with a testcase known to score 0;
  \<open>subtasks_of k\<close> the subtasks that testcase \<open>k\<close> belongs to.
\<close>

definition dead :: "group \<Rightarrow> (string \<rightharpoonup> f64) \<Rightarrow> groupDef \<Rightarrow> bool" where
  "dead g known st \<longleftrightarrow>
     list_ex (\<lambda>k. case known (codename (grpDefs g ! k)) of
                    None \<Rightarrow> False | Some v \<Rightarrow> clamp01 v = 0) (grpMembers st)"

definition subtasks_of :: "group \<Rightarrow> nat \<Rightarrow> groupDef list" where
  "subtasks_of g k = filter (\<lambda>st. k \<in> set (grpMembers st)) (subtasks g)"

definition Skippable :: "group \<Rightarrow> (string \<rightharpoonup> f64) \<Rightarrow> string list" where
  "Skippable g known =
     (if kind g \<noteq> ''GroupMin'' \<and> kind g \<noteq> ''GroupMul'' then []
      else map (\<lambda>k. codename (grpDefs g ! k))
        (filter (\<lambda>k. known (codename (grpDefs g ! k)) = None \<and> subtasks_of g k \<noteq> []
                     \<and> list_all (dead g known) (subtasks_of g k))
          [0..<length (grpDefs g)]))"

definition fraction :: "group \<Rightarrow> groupDef \<Rightarrow> f64 list \<Rightarrow> f64" where
  "fraction g st outcomes =
     (if kind g = ''GroupMin'' then foldl (\<lambda>f v. math_Min f (clamp01 v)) 1 outcomes
      else if kind g = ''GroupMul'' then foldl (\<lambda>f v. f * clamp01 v) 1 outcomes
      else if list_all (\<lambda>v. v > 0 \<and> v \<le> threshold st) outcomes then 1 else 0)"

definition subtask_outcomes :: "group \<Rightarrow> (string \<Rightarrow> Testcase option) \<Rightarrow> groupDef \<Rightarrow> f64 list" where
  "subtask_outcomes g byName st =
     map (\<lambda>k. case byName (codename (grpDefs g ! k)) of None \<Rightarrow> 0 | Some t \<Rightarrow> tcOutcome t) (grpMembers st)"

definition subtask_fraction :: "group \<Rightarrow> (string \<Rightarrow> Testcase option) \<Rightarrow> groupDef \<Rightarrow> f64" where
  "subtask_fraction g byName st =
     (if list_all (\<lambda>k. byName (codename (grpDefs g ! k)) \<noteq> None) (grpMembers st)
         \<or> kind g \<noteq> ''GroupThreshold''
      then fraction g st (subtask_outcomes g byName st) else 0)"

definition subtask_score :: "group \<Rightarrow> (string \<Rightarrow> Testcase option) \<Rightarrow> groupDef \<Rightarrow> f64" where
  "subtask_score g byName st =
     round_score (maxScore st * subtask_fraction g byName st) (grpPrecision g)"

definition subtask_detail :: "group \<Rightarrow> (string \<Rightarrow> Testcase option) \<Rightarrow> nat \<times> groupDef \<Rightarrow> SubtaskDetail" where
  "subtask_detail g byName ist =
     (case ist of (i, st) \<Rightarrow>
        \<lparr>sdIndex = i + 1, sdMaxScore = maxScore st, sdScore = subtask_score g byName st,
         sdFraction = subtask_fraction g byName st, sdPublic = grpPublic st,
         sdTestcases = map (\<lambda>k. let d = grpDefs g ! k in detail d (byName (codename d))) (grpMembers st)\<rparr>)"

definition group_Compute :: "group \<Rightarrow> Testcase list \<Rightarrow> Result" where
  "group_Compute g tcs =
     (let byName = index tcs;
          rows = map (subtask_detail g byName) (enumerate 0 (subtasks g));
          pubs = filter sdPublic rows
      in \<lparr>Score = round_score (add_up (map sdScore rows)) (grpPrecision g),
          ResDetails = \<lparr>dType = ''group'', dMaxScore = group_MaxScore g, dSubtasks = rows, dTestcases = []\<rparr>,
          PublicScore = round_score (add_up (map sdScore pubs)) (grpPrecision g),
          PublicDetails = \<lparr>dType = ''group'', dMaxScore = group_MaxPublicScore g,
                           dSubtasks = pubs, dTestcases = []\<rparr>,
          RankingDetails = map sdScore rows\<rparr>)"

section \<open>The interface ScoreType\<close>

fun MaxScore :: "ScoreType \<Rightarrow> f64" where
  "MaxScore (SumType s) = sum_MaxScore s"
| "MaxScore (GroupType g) = group_MaxScore g"

fun MaxPublicScore :: "ScoreType \<Rightarrow> f64" where
  "MaxPublicScore (SumType s) = sum_MaxPublicScore s"
| "MaxPublicScore (GroupType g) = group_MaxPublicScore g"

fun NumSubtasks :: "ScoreType \<Rightarrow> nat" where
  "NumSubtasks (SumType s) = 1"
| "NumSubtasks (GroupType g) = length (subtasks g)"

fun SubtaskMaxScores :: "ScoreType \<Rightarrow> f64 list" where
  "SubtaskMaxScores (SumType s) = [sum_MaxScore s]"
| "SubtaskMaxScores (GroupType g) = group_SubtaskMaxScores g"

fun Compute_score :: "ScoreType \<Rightarrow> Testcase list \<Rightarrow> Result" where
  "Compute_score (SumType s) tcs = sum_Compute s tcs"
| "Compute_score (GroupType g) tcs = group_Compute g tcs"

definition New :: "regexp \<Rightarrow> string \<Rightarrow> json option \<Rightarrow> string list \<Rightarrow> bool list \<Rightarrow> nat \<Rightarrow> (score_error, ScoreType) result" where
  "New re name params codenames publics precision =
     (if length codenames \<noteq> length publics then Inl LengthsDiffer
      else
        (let defs = stable_sort (\<lambda>a b. codename a < codename b)
                      (map2 (\<lambda>c p. \<lparr>codename = c, public = p\<rparr>) codenames publics)
         in if name = ''Sum'' then bind_result (newSum params defs precision) (\<lambda>s. Inr (SumType s))
            else if name \<in> {''GroupMin'', ''GroupMul'', ''GroupThreshold''}
            then bind_result (newGroup re name params defs precision) (\<lambda>g. Inr (GroupType g))
            else Inl (UnknownScoreType name)))"

section \<open>Rounding and clamping are monotone\<close>

lemma round_score_mono: "v \<le> w \<Longrightarrow> round_score v p \<le> round_score w p"
  unfolding round_score_def Let_def using math_Pow10_pos [of p]
  by (intro f64_divide_mono math_Round_mono)
    (auto simp: f64.mul_comm [of v] f64.mul_comm [of w] intro!: f64.mul_mono)

lemma round_score_0 [simp]: "round_score 0 p = 0"
  by (simp add: round_score_def Let_def)

lemma round_score_nonneg: "0 \<le> v \<Longrightarrow> 0 \<le> round_score v p"
  using round_score_mono [of 0 v p] by simp

lemma clamp01_bounds [simp]: "0 \<le> clamp01 v" "clamp01 v \<le> 1"
  by (simp_all add: clamp01_def)

lemma clamp01_mono: "v \<le> w \<Longrightarrow> clamp01 v \<le> clamp01 w"
  unfolding clamp01_def math_Max_max math_Min_min by (intro max.mono min.mono order_refl)

lemma clamp01_0 [simp]: "clamp01 0 = 0"
  by (simp add: clamp01_def)

section \<open>Fractions\<close>

lemma fold_min: "foldl (\<lambda>f v. math_Min f (clamp01 v)) a vs = foldl min a (map clamp01 vs)"
  by (induction vs arbitrary: a) auto

lemma fold_mul: "foldl (\<lambda>f v. f * clamp01 v) a vs = foldl (*) a (map clamp01 vs)"
  by (induction vs arbitrary: a) auto

lemma foldl_min_init: "foldl min a xs \<le> (a :: f64)"
proof (induction xs arbitrary: a)
  case (Cons x xs)
  show ?case using Cons [of "min a x"] by simp
qed simp

lemma foldl_min_ge: "list_all (\<lambda>x. b \<le> x) xs \<Longrightarrow> b \<le> a \<Longrightarrow> b \<le> foldl min a (xs :: f64 list)"
  by (induction xs arbitrary: a) auto

lemma foldl_min_bounds:
  "list_all (\<lambda>x. b \<le> x) xs \<Longrightarrow> b \<le> a \<Longrightarrow> b \<le> foldl min a xs \<and> foldl min a xs \<le> (a :: f64)"
  by (simp add: foldl_min_init foldl_min_ge)

lemma foldl_min_mono:
  "list_all2 (\<le>) xs ys \<Longrightarrow> a \<le> b \<Longrightarrow> foldl min a xs \<le> foldl min b (ys :: f64 list)"
proof (induction xs arbitrary: a b ys)
  case (Cons x xs)
  then obtain y ys' where "ys = y # ys'" "x \<le> y" "list_all2 (\<le>) xs ys'" by (cases ys) auto
  with Cons show ?case by (auto intro!: Cons.IH min.mono)
qed simp

lemma foldl_min_le: "x \<in> set xs \<Longrightarrow> foldl min a xs \<le> (x :: f64)"
proof (induction xs arbitrary: a)
  case (Cons y ys)
  show ?case
  proof (cases "x = y")
    case True
    then show ?thesis using foldl_min_init [of "min a y" ys] by simp
  next
    case False
    then show ?thesis using Cons by auto
  qed
qed simp

lemma fraction_bounds: "0 \<le> fraction g st vs \<and> fraction g st vs \<le> 1"
proof -
  have b: "list_all (\<lambda>x. 0 \<le> x \<and> x \<le> 1) (map clamp01 vs)"
    by (simp add: list_all_iff)
  have "list_all (\<lambda>x. 0 \<le> x) (map clamp01 vs)" by (simp add: list_all_iff)
  then show ?thesis
    using foldl_min_bounds [of 0 "map clamp01 vs" 1] f64.prod_le [OF b, of 1]
    by (simp add: fraction_def fold_min fold_mul del: math_Min_min)
qed

lemma list_all2_map_mono:
  "list_all2 (\<le>) vs ws \<Longrightarrow> list_all2 (\<le>) (map clamp01 vs) (map clamp01 ws)"
  by (auto simp: list_all2_conv_all_nth clamp01_mono)

lemma fraction_mono:
  assumes "kind g \<in> {''GroupMin'', ''GroupMul''}" and le: "list_all2 (\<le>) vs ws"
  shows "fraction g st vs \<le> fraction g st ws"
proof -
  have c: "list_all2 (\<le>) (map clamp01 vs) (map clamp01 ws)" using le by (rule list_all2_map_mono)
  then have "list_all2 (\<lambda>x y. 0 \<le> x \<and> x \<le> y) (map clamp01 vs) (map clamp01 ws)"
    by (auto simp: list_all2_conv_all_nth)
  then show ?thesis
    using assms(1) foldl_min_mono [OF c, of 1 1] f64.prod_mono [of "map clamp01 vs" "map clamp01 ws" 1 1]
    by (auto simp: fraction_def fold_min fold_mul simp del: math_Min_min)
qed

lemma fraction_dead:
  assumes "kind g \<in> {''GroupMin'', ''GroupMul''}" and "v \<in> set vs" "clamp01 v = 0"
  shows "fraction g st vs = 0"
proof -
  have z: "0 \<in> set (map clamp01 vs)" using assms by force
  have "foldl min 1 (map clamp01 vs) \<le> 0" using z by (rule foldl_min_le)
  moreover have "0 \<le> foldl min 1 (map clamp01 vs)"
    using foldl_min_bounds [of 0 "map clamp01 vs" 1] by (simp add: list_all_iff)
  ultimately show ?thesis
    using assms(1) f64.prod_absorbs [OF z, of 1] by (auto simp: fraction_def fold_min fold_mul simp del: math_Min_min)
qed

section \<open>Well-formed groups\<close>

text \<open>What \<^verbatim>\<open>newGroup\<close> guarantees of the groups it builds.\<close>

definition wf_subtask :: "testcaseDef list \<Rightarrow> groupDef \<Rightarrow> bool" where
  "wf_subtask defs st \<longleftrightarrow> 0 \<le> maxScore st \<and> grpMembers st \<noteq> []
     \<and> (\<forall>k \<in> set (grpMembers st). k < length defs)
     \<and> grpPublic st = (\<forall>k \<in> set (grpMembers st). public (defs ! k))"

definition wf_group :: "group \<Rightarrow> bool" where
  "wf_group g \<longleftrightarrow> subtasks g \<noteq> [] \<and> (\<forall>st \<in> set (subtasks g). wf_subtask (grpDefs g) st)"

lemma last_pos_bound: "last_pos codes c = Some k \<Longrightarrow> k < length codes"
  by (auto simp: last_pos_def dest!: map_of_SomeD set_zip_rightD)

lemma list_members_bound:
  "list_members i codes cs = Inr ks \<Longrightarrow> k \<in> set ks \<Longrightarrow> 0 \<le> k \<and> k < int (length codes)"
  by (induction cs arbitrary: ks)
    (auto simp: bind_result_eq_Inr last_pos_bound split: option.splits)

text \<open>
  A count that would overflow the counter selects nothing, so the indexes are in
  range whenever there are any, and then the counter stays in range too.
\<close>

lemma members_bound:
  assumes "members re i spec codes nxt = Inr (ks, nxt')" "ks \<noteq> []"
    and "0 \<le> nxt" "nxt \<le> int (length codes)" "int (length codes) < 2 ^ 63"
  shows "(\<forall>k \<in> set ks. 0 \<le> k \<and> k < int (length codes)) \<and> 0 \<le> nxt' \<and> nxt' \<le> int (length codes)"
proof -
  obtain j where j: "spec = Some j" using assms(1) by (cases spec) (auto simp: members_def)
  show ?thesis
  proof (cases "to_int j")
    case (Some n)
    with assms(1) j have m: "0 < n" "wrap64 (nxt + n) \<le> int (length codes)"
      "ks = [nxt .. wrap64 (nxt + n) - 1]" "nxt' = wrap64 (nxt + n)"
      by (auto simp: members_def split: if_splits)
    have "nxt \<le> wrap64 (nxt + n) - 1" using assms(2) m(3) by (metis upto_empty linorder_not_le)
    with m assms(3) show ?thesis by auto
  next
    case None
    then show ?thesis using assms(1,3,4) j
      by (auto simp: members_def bind_result_eq_Inr dest: list_members_bound split: option.splits)
  qed
qed

lemma group_subtasks_wf:
  assumes "group_subtasks re kd defs i nxt ps = Inr sds"
    and "0 \<le> nxt" "nxt \<le> int (length defs)" "int (length defs) < 2 ^ 63"
  shows "(\<forall>st \<in> set sds. wf_subtask defs st) \<and> length sds = length ps"
  using assms
proof (induction ps arbitrary: i nxt sds)
  case (Cons p ps)
  from Cons.prems(1) obtain ks nxt' rest where r:
    "\<not> gpMaxScore p < 0" "members re i (gpTestcases p) (map codename defs) nxt = Inr (ks, nxt')"
    "ks \<noteq> []" "group_subtasks re kd defs (i + 1) nxt' ps = Inr rest"
    "sds = \<lparr>maxScore = gpMaxScore p,
            threshold = (if kd = ''GroupThreshold'' then the (gpThreshold p) else 0),
            grpMembers = map nat ks, grpPublic = list_all (\<lambda>k. public (defs ! nat k)) ks\<rparr> # rest"
    by (auto simp: bind_result_eq_Inr split: if_splits)
  have b: "\<forall>k \<in> set ks. 0 \<le> k \<and> k < int (length defs)" "0 \<le> nxt'" "nxt' \<le> int (length defs)"
    using members_bound [OF r(2,3)] Cons.prems by auto
  have "wf_subtask defs (hd sds)"
    using r b(1) by (auto simp: wf_subtask_def list_all_iff)
  with Cons.IH [OF r(4) b(2,3)] Cons.prems(4) r(5) show ?case by auto
qed simp

lemma newGroup_wf:
  assumes "newGroup re kd params defs p = Inr g" "int (length defs) < 2 ^ 63"
  shows "wf_group g \<and> kind g = kd \<and> grpDefs g = defs \<and> grpPrecision g = p"
proof -
  from assms(1) obtain ps sds where "parseGroupParams params = Inr ps" "ps \<noteq> []"
    "group_subtasks re kd defs 0 0 ps = Inr sds"
    "g = \<lparr>kind = kd, subtasks = sds, grpDefs = defs, grpPrecision = p\<rparr>"
    by (auto simp: newGroup_def bind_result_eq_Inr split: if_splits)
  with group_subtasks_wf [OF this(3)] assms(2) show ?thesis by (auto simp: wf_group_def)
qed

lemma subtask_fraction_bounds: "0 \<le> subtask_fraction g b st" "subtask_fraction g b st \<le> 1"
  using fraction_bounds by (auto simp: subtask_fraction_def)

lemma subtask_score_bounds:
  "0 \<le> maxScore st \<Longrightarrow>
   0 \<le> subtask_score g b st \<and> subtask_score g b st \<le> round_score (maxScore st) (grpPrecision g)"
  unfolding subtask_score_def
  by (auto intro!: round_score_nonneg round_score_mono f64.mul_nonneg f64.mul_le_left
      subtask_fraction_bounds)

lemma sdScore_detail [simp]:
  "map (\<lambda>x. sdScore (subtask_detail g b x)) (enumerate n sts) = map (subtask_score g b) sts"
  by (induction sts arbitrary: n) (auto simp: subtask_detail_def)

lemma RankingDetails_group: "RankingDetails (group_Compute g tcs) = map (subtask_score g (index tcs)) (subtasks g)"
  by (simp add: group_Compute_def Let_def comp_def)

lemma Score_group:
  "Score (group_Compute g tcs) = round_score (add_up (RankingDetails (group_Compute g tcs))) (grpPrecision g)"
  by (simp add: group_Compute_def Let_def)

lemma PublicScore_group:
  "PublicScore (group_Compute g tcs) =
     round_score (add_up (map (subtask_score g (index tcs)) (filter grpPublic (subtasks g)))) (grpPrecision g)"
proof -
  have "map sdScore (filter sdPublic (map (subtask_detail g b) (enumerate n sts)))
      = map (subtask_score g b) (filter grpPublic sts)" for b n sts
    by (induction sts arbitrary: n) (auto simp: subtask_detail_def)
  then show ?thesis by (simp add: group_Compute_def Let_def)
qed

section \<open>Scores depend on outcomes only\<close>

text \<open>The outcome of a testcase as the score types see it: 0 while there is none.\<close>

definition outcome_at :: "(string \<Rightarrow> Testcase option) \<Rightarrow> string \<Rightarrow> f64" where
  "outcome_at byName c = (case byName c of None \<Rightarrow> 0 | Some t \<Rightarrow> tcOutcome t)"

definition outcomes_of :: "group \<Rightarrow> (string \<Rightarrow> f64) \<Rightarrow> groupDef \<Rightarrow> f64 list" where
  "outcomes_of g f st = map (\<lambda>k. f (codename (grpDefs g ! k))) (grpMembers st)"

lemma sum_points_outcome: "sum_points s b d = points s * clamp01 (outcome_at b (codename d))"
  by (simp add: sum_points_def outcome_at_def split: option.splits)

lemma subtask_fraction_outcome:
  "subtask_fraction g b st = fraction g st (outcomes_of g (outcome_at b) st)"
proof -
  have o: "subtask_outcomes g b st = outcomes_of g (outcome_at b) st"
    by (simp add: subtask_outcomes_def outcomes_of_def outcome_at_def)
  show ?thesis
  proof (cases "list_all (\<lambda>k. b (codename (grpDefs g ! k)) \<noteq> None) (grpMembers st)
      \<or> kind g \<noteq> ''GroupThreshold''")
    case True
    then show ?thesis by (simp only: subtask_fraction_def o if_True)
  next
    case False
    then obtain k where "k \<in> set (grpMembers st)" "b (codename (grpDefs g ! k)) = None"
      by (auto simp: list_all_iff)
    then have "0 \<in> set (outcomes_of g (outcome_at b) st)"
      by (force simp: outcomes_of_def outcome_at_def)
    with False show ?thesis
      by (auto simp: subtask_fraction_def fraction_def list_all_iff)
  qed
qed

lemma subtask_score_outcome:
  "subtask_score g b st =
     round_score (maxScore st * fraction g st (outcomes_of g (outcome_at b) st)) (grpPrecision g)"
  by (simp add: subtask_score_def subtask_fraction_outcome)

lemma add_up_mono: "list_all2 (\<le>) xs ys \<Longrightarrow> add_up xs \<le> add_up ys"
  unfolding add_up_def by (rule f64.sum_mono) auto

lemma add_up_nonneg: "list_all (\<lambda>x. 0 \<le> x) xs \<Longrightarrow> 0 \<le> add_up xs"
  unfolding add_up_def by (rule f64.sum_increases)

lemma add_up_filter:
  "list_all (\<lambda>x. 0 \<le> x) (map f xs) \<Longrightarrow> add_up (map f (filter P xs)) \<le> add_up (map f xs)"
  unfolding add_up_def by (rule f64.sum_sublist) auto

lemma list_all2_map_same: "(\<And>x. x \<in> set xs \<Longrightarrow> R (f x) (g x)) \<Longrightarrow> list_all2 R (map f xs) (map g xs)"
  by (simp add: list_all2_conv_all_nth)

section \<open>Properties\<close>

text \<open>
  Property C19. Every group that can be configured scores within its limits: each
  subtask between 0 and its rounded maximum, the public score at most the score,
  the total at most the rounded sum of the rounded maxima. The number of ranking
  entries is the number of subtasks.
\<close>

theorem group_scores_bounded:
  assumes "newGroup re kd params defs p = Inr g" and "int (length defs) < 2 ^ 63"
  shows "list_all2 (\<lambda>v m. 0 \<le> v \<and> v \<le> m) (RankingDetails (group_Compute g tcs)) (group_SubtaskMaxScores g)
    \<and> 0 \<le> PublicScore (group_Compute g tcs)
    \<and> PublicScore (group_Compute g tcs) \<le> Score (group_Compute g tcs)
    \<and> Score (group_Compute g tcs) \<le> round_score (add_up (group_SubtaskMaxScores g)) p"
proof -
  have p: "grpPrecision g = p" using newGroup_wf [OF assms] by simp
  have b: "0 \<le> subtask_score g (index tcs) st \<and> subtask_score g (index tcs) st \<le> round_score (maxScore st) p"
    if "st \<in> set (subtasks g)" for st
    using newGroup_wf [OF assms] that subtask_score_bounds [of st g "index tcs"]
    by (auto simp: wf_group_def wf_subtask_def)
  have n: "list_all (\<lambda>x. 0 \<le> x) (map (subtask_score g (index tcs)) sts)"
    if "set sts \<subseteq> set (subtasks g)" for sts
    using b that by (auto simp: list_all_iff)
  have 1: "list_all2 (\<lambda>v m. 0 \<le> v \<and> v \<le> m) (RankingDetails (group_Compute g tcs)) (group_SubtaskMaxScores g)"
    unfolding RankingDetails_group group_SubtaskMaxScores_def p using b by (intro list_all2_map_same) auto
  then have "list_all2 (\<le>) (RankingDetails (group_Compute g tcs)) (group_SubtaskMaxScores g)"
    by (rule list_all2_mono) auto
  then have 2: "Score (group_Compute g tcs) \<le> round_score (add_up (group_SubtaskMaxScores g)) p"
    unfolding Score_group p by (intro round_score_mono add_up_mono)
  have 3: "0 \<le> PublicScore (group_Compute g tcs)"
    unfolding PublicScore_group by (intro round_score_nonneg add_up_nonneg n) auto
  have "PublicScore (group_Compute g tcs) \<le> Score (group_Compute g tcs)"
    unfolding PublicScore_group Score_group RankingDetails_group
    by (intro round_score_mono add_up_filter n) auto
  with 1 2 3 show ?thesis by simp
qed

definition ex_defs :: "testcaseDef list" where
  "ex_defs = [\<lparr>codename = ''a'', public = True\<rparr>, \<lparr>codename = ''b'', public = False\<rparr>]"

definition ex_result :: "string \<Rightarrow> f64 \<Rightarrow> Testcase" where
  "ex_result c v = \<lparr>tcID = 0, tcCodename = c, tcPublic = False, tcEvaluated = True, tcOutcome = v,
     tcText = '''', tcTime = 0, tcMemory = 0, tcExitStatus = ''ok''\<rparr>"

theorem group_scores_bounded_witness:
  "let params = Some (JArr [JArr [JInt 30, JInt 1], JArr [JInt 70, JInt 2]]);
       g = (case newGroup (\<lambda>_. None) ''GroupMin'' params (ex_defs @ [\<lparr>codename = ''c'', public = True\<rparr>]) 0 of
              Inr g \<Rightarrow> g | Inl _ \<Rightarrow> undefined)
   in PublicScore (group_Compute g [ex_result ''a'' 1]) \<le> Score (group_Compute g [ex_result ''a'' 1])"
proof -
  let ?params = "Some (JArr [JArr [JInt 30, JInt 1], JArr [JInt 70, JInt 2]])"
  let ?defs = "ex_defs @ [\<lparr>codename = ''c'', public = True\<rparr>]"
  let ?g = "\<lparr>kind = ''GroupMin'', subtasks =
      [\<lparr>maxScore = f64 30, threshold = 0, grpMembers = [0], grpPublic = True\<rparr>,
       \<lparr>maxScore = f64 70, threshold = 0, grpMembers = [1, 2], grpPublic = False\<rparr>],
      grpDefs = ?defs, grpPrecision = 0\<rparr>"
  have g: "newGroup (\<lambda>_. None) ''GroupMin'' ?params ?defs 0 = Inr ?g" by code_simp
  have l: "int (length ?defs) < 2 ^ 63" by code_simp
  show ?thesis using group_scores_bounded [OF g l, of "[ex_result ''a'' 1]"] g by (simp add: Let_def)
qed

lemma Skippable_dead:
  assumes "wf_group g" "distinct (map codename (grpDefs g))" "st \<in> set (subtasks g)"
    and "k \<in> set (grpMembers st)" "codename (grpDefs g ! k) \<in> set (Skippable g known)"
  shows "dead g known st \<and> kind g \<in> {''GroupMin'', ''GroupMul''}"
proof -
  have k: "k < length (grpDefs g)" using assms by (auto simp: wf_group_def wf_subtask_def)
  from assms(5) obtain k' where k': "k' < length (grpDefs g)" "codename (grpDefs g ! k) = codename (grpDefs g ! k')"
    "list_all (dead g known) (subtasks_of g k')" "kind g \<in> {''GroupMin'', ''GroupMul''}"
    by (auto simp: Skippable_def split: if_splits)
  have "k = k'" using assms(2) k k'(1,2) by (simp add: distinct_conv_nth) (metis nth_map)
  with k' assms(3,4) show ?thesis by (auto simp: subtasks_of_def list_all_iff)
qed

lemma dead_fraction:
  assumes "dead g known st" "kind g \<in> {''GroupMin'', ''GroupMul''}"
    and "\<And>c v. known c = Some v \<Longrightarrow> f c = v"
  shows "fraction g st (outcomes_of g f st) = 0"
proof -
  from assms(1) obtain k v where "k \<in> set (grpMembers st)" "known (codename (grpDefs g ! k)) = Some v"
    "clamp01 v = 0"
    by (auto simp: dead_def list_ex_iff split: option.splits)
  then show ?thesis
    using assms(3) by (intro fraction_dead [OF assms(2), of v]) (force simp: outcomes_of_def)
qed

text \<open>
  Property C11. The short-circuit is sound: the testcases that \<^verbatim>\<open>Skippable\<close> names, given
  the outcomes known so far, cannot change any score. Whatever results arrive for
  them (or none, or the zero the dispatcher records), the subtask scores, the total
  and the public score are the same.
\<close>

theorem Skippable_sound:
  assumes "newGroup re kd params defs p = Inr g" and "int (length defs) < 2 ^ 63"
    and "distinct (map codename defs)"
    and known: "\<And>c v. known c = Some v \<Longrightarrow> outcome_at (index tcs) c = v \<and> outcome_at (index tcs') c = v"
    and same: "\<And>c. c \<notin> set (Skippable g known) \<Longrightarrow> outcome_at (index tcs) c = outcome_at (index tcs') c"
  shows "RankingDetails (group_Compute g tcs) = RankingDetails (group_Compute g tcs')
    \<and> Score (group_Compute g tcs) = Score (group_Compute g tcs')
    \<and> PublicScore (group_Compute g tcs) = PublicScore (group_Compute g tcs')"
proof -
  have wf: "wf_group g" "grpDefs g = defs" using newGroup_wf [OF assms(1,2)] by auto
  have eq: "subtask_score g (index tcs) st = subtask_score g (index tcs') st"
    if st: "st \<in> set (subtasks g)" for st
  proof (cases "\<exists>k \<in> set (grpMembers st). codename (grpDefs g ! k) \<in> set (Skippable g known)")
    case True
    then have d: "dead g known st" "kind g \<in> {''GroupMin'', ''GroupMul''}"
      using Skippable_dead [OF wf(1) _ st] assms(3) wf(2) by blast+
    have "fraction g st (outcomes_of g (outcome_at (index tcs)) st) = 0"
         "fraction g st (outcomes_of g (outcome_at (index tcs')) st) = 0"
      using known by (intro dead_fraction [OF d]; blast)+
    then show ?thesis by (simp add: subtask_score_outcome)
  next
    case False
    then have "outcomes_of g (outcome_at (index tcs)) st = outcomes_of g (outcome_at (index tcs')) st"
      using same by (auto simp: outcomes_of_def)
    then show ?thesis by (simp add: subtask_score_outcome)
  qed
  have 1: "RankingDetails (group_Compute g tcs) = RankingDetails (group_Compute g tcs')"
    unfolding RankingDetails_group using eq by simp
  moreover have "PublicScore (group_Compute g tcs) = PublicScore (group_Compute g tcs')"
    unfolding PublicScore_group using eq by (metis (no_types, lifting) filter_is_subset map_eq_conv subsetD)
  ultimately show ?thesis by (simp add: Score_group)
qed

theorem Skippable_sound_witness:
  "let params = Some (JArr [JArr [JInt 100, JInt 2]]);
       g = (case newGroup (\<lambda>_. None) ''GroupMul'' params ex_defs 0 of Inr g \<Rightarrow> g | Inl _ \<Rightarrow> undefined);
       known = [''a'' \<mapsto> 0]
   in Skippable g known = [''b''] \<and>
      Score (group_Compute g [ex_result ''a'' 0]) = Score (group_Compute g [ex_result ''a'' 0, ex_result ''b'' 1])"
proof -
  let ?params = "Some (JArr [JArr [JInt 100, JInt 2]])"
  let ?g = "\<lparr>kind = ''GroupMul'', subtasks =
      [\<lparr>maxScore = f64 100, threshold = 0, grpMembers = [0, Suc 0], grpPublic = False\<rparr>],
      grpDefs = ex_defs, grpPrecision = 0\<rparr>"
  let ?tcs = "[ex_result ''a'' 0]" and ?tcs' = "[ex_result ''a'' 0, ex_result ''b'' 1]"
  have g: "newGroup (\<lambda>_. None) ''GroupMul'' ?params ex_defs 0 = Inr ?g" by code_simp
  have s: "Skippable ?g [''a'' \<mapsto> 0] = [''b'']" by code_simp
  have l: "int (length ex_defs) < 2 ^ 63" and d: "distinct (map codename ex_defs)" by code_simp+
  have "Score (group_Compute ?g ?tcs) = Score (group_Compute ?g ?tcs')"
    by (rule Skippable_sound [OF g l d, THEN conjunct2, THEN conjunct1, of "[''a'' \<mapsto> 0]"])
      (auto simp: s outcome_at_def index_def ex_result_def split: if_splits)
  with g s show ?thesis by (simp add: Let_def)
qed

lemma outcomes_of_mono: "(\<And>c. f c \<le> f' c) \<Longrightarrow> list_all2 (\<le>) (outcomes_of g f st) (outcomes_of g f' st)"
  by (simp add: outcomes_of_def list_all2_conv_all_nth)

lemma group_score_mono:
  assumes "wf_group g" "kind g \<in> {''GroupMin'', ''GroupMul''}" "st \<in> set (subtasks g)"
    and "\<And>c. outcome_at b c \<le> outcome_at b' c"
  shows "subtask_score g b st \<le> subtask_score g b' st"
  unfolding subtask_score_outcome
  using assms by (intro round_score_mono f64.mul_mono fraction_mono outcomes_of_mono)
    (auto simp: wf_group_def wf_subtask_def)

lemma newSum_points: "newSum params defs p = Inr s \<Longrightarrow> 0 \<le> points s \<and> sumDefs s = defs \<and> sumPrecision s = p"
  by (auto simp: newSum_def Let_def not_less split: option.splits if_splits json.splits)

lemma New_cases:
  assumes "New re name params codes pubs p = Inr st" "int (length codes) < 2 ^ 63"
  shows "(\<exists>s. st = SumType s \<and> name = ''Sum'' \<and> 0 \<le> points s)
    \<or> (\<exists>g. st = GroupType g \<and> kind g = name \<and> wf_group g \<and> grpPrecision g = p)"
proof -
  let ?defs = "stable_sort (\<lambda>a b. codename a < codename b) (map2 (\<lambda>c p. \<lparr>codename = c, public = p\<rparr>) codes pubs)"
  have l: "int (length ?defs) < 2 ^ 63" using assms(2) by simp
  show ?thesis
    using assms(1) newGroup_wf [OF _ l]
    by (fastforce simp: New_def bind_result_eq_Inr Let_def dest: newSum_points split: if_splits)
qed

text \<open>
  Better outcomes never lower a score: with the score types Sum, GroupMin
  and GroupMul, in floating-point arithmetic as it is, a submission whose outcome is
  at least as good on every testcase scores at least as much on every subtask, in
  total and publicly. (GroupThreshold reads outcomes as errors and is not monotone.)
\<close>

theorem Compute_score_mono:
  assumes "New re name params codes pubs p = Inr st" and "int (length codes) < 2 ^ 63"
    and "name \<noteq> ''GroupThreshold''"
    and le: "\<And>c. outcome_at (index tcs) c \<le> outcome_at (index tcs') c"
  shows "Score (Compute_score st tcs) \<le> Score (Compute_score st tcs')
    \<and> PublicScore (Compute_score st tcs) \<le> PublicScore (Compute_score st tcs')
    \<and> list_all2 (\<le>) (RankingDetails (Compute_score st tcs)) (RankingDetails (Compute_score st tcs'))"
  using New_cases [OF assms(1,2)]
proof (elim disjE exE conjE)
  fix s
  assume s: "st = SumType s" "0 \<le> points s"
  have "list_all2 (\<le>) (map (sum_points s (index tcs)) ds) (map (sum_points s (index tcs')) ds)" for ds
    using s(2) le by (intro list_all2_map_same) (auto simp: sum_points_outcome intro!: f64.mul_mono clamp01_mono)
  then show ?thesis
    using s(1) by (auto simp: sum_Compute_def Let_def intro!: round_score_mono add_up_mono)
next
  fix g
  assume g: "st = GroupType g" "kind g = name" "wf_group g"
  have k: "kind g \<in> {''GroupMin'', ''GroupMul''}"
    using assms(1,3) g(1,2) by (auto simp: New_def bind_result_eq_Inr Let_def split: if_splits)
  have m: "list_all2 (\<le>) (map (subtask_score g (index tcs)) sts) (map (subtask_score g (index tcs')) sts)"
    if "set sts \<subseteq> set (subtasks g)" for sts
    using group_score_mono [OF g(3) k _ le] that by (intro list_all2_map_same) auto
  show ?thesis
    unfolding g(1) Compute_score.simps Score_group PublicScore_group RankingDetails_group
    by (intro conjI round_score_mono add_up_mono m) auto
qed

theorem Compute_score_mono_witness:
  "let st = (case New (\<lambda>_. None) ''Sum'' (Some (JInt 50)) [''b'', ''a''] [False, True] 0 of
               Inr st \<Rightarrow> st | Inl _ \<Rightarrow> undefined)
   in Score (Compute_score st [ex_result ''a'' (f64 (1/2))])
      \<le> Score (Compute_score st [ex_result ''a'' (f64 (1/2)), ex_result ''b'' 1])"
proof -
  let ?st = "SumType \<lparr>points = f64 50, sumDefs = ex_defs, sumPrecision = 0\<rparr>"
  have n: "New (\<lambda>_. None) ''Sum'' (Some (JInt 50)) [''b'', ''a''] [False, True] 0 = Inr ?st" by code_simp
  show ?thesis
    unfolding n Let_def sum.case
    by (rule Compute_score_mono [OF n, THEN conjunct1]) (auto simp: outcome_at_def index_def ex_result_def)
qed

lemma sort_by_codename_unique:
  assumes "mset xs = mset ys" "distinct (map codename xs)"
  shows "stable_sort (\<lambda>a b. codename a < codename b) xs = stable_sort (\<lambda>a b. codename a < codename b) ys"
proof (rule map_sorted_distinct_set_unique [where f = codename])
  have s: "set xs = set ys" using assms(1) by (metis set_mset_mset)
  have i: "inj_on codename (set xs)" using assms(2) by (simp add: distinct_map)
  have "distinct xs" "distinct ys" using assms by (auto simp: distinct_map dest: mset_eq_imp_distinct_iff)
  then show "distinct (map codename (stable_sort (\<lambda>a b. codename a < codename b) xs))"
    "distinct (map codename (stable_sort (\<lambda>a b. codename a < codename b) ys))"
    using i s by (auto simp: distinct_map)
  show "inj_on codename (set (stable_sort (\<lambda>a b. codename a < codename b) xs)
      \<union> set (stable_sort (\<lambda>a b. codename a < codename b) ys))"
    using i s by simp
  show "set (stable_sort (\<lambda>a b. codename a < codename b) xs) = set (stable_sort (\<lambda>a b. codename a < codename b) ys)"
    using s by simp
qed (rule sorted_stable_sort_key)+

text \<open>
  The order in which the testcases of a dataset are listed does not matter:
  \<^verbatim>\<open>New\<close> builds the same score type (or the same error) for every permutation, as
  codenames are distinct. Count-based subtasks therefore always take the same testcases.
\<close>

theorem New_order_independent:
  assumes "mset (zip codes pubs) = mset (zip codes' pubs')"
    and "length codes = length pubs" "length codes' = length pubs'" "distinct codes"
  shows "New re name params codes pubs p = New re name params codes' pubs' p"
proof -
  let ?mk = "\<lambda>(c, p). \<lparr>codename = c, public = p\<rparr>"
  have "mset (map ?mk (zip codes pubs)) = mset (map ?mk (zip codes' pubs'))"
    using assms(1) by (simp only: mset_map)
  moreover have "map codename (map ?mk (zip codes pubs)) = codes"
    using assms(2) by (simp add: comp_def case_prod_beta map_fst_zip)
  ultimately have "stable_sort (\<lambda>a b. codename a < codename b) (map ?mk (zip codes pubs))
      = stable_sort (\<lambda>a b. codename a < codename b) (map ?mk (zip codes' pubs'))"
    using assms(4) by (intro sort_by_codename_unique) auto
  with assms(2,3) show ?thesis by (simp add: New_def Let_def)
qed

theorem New_order_independent_witness:
  "New (\<lambda>_. None) ''GroupMin'' (Some (JArr [JArr [JInt 10, JInt 1]])) [''b'', ''a''] [False, True] 0
   = New (\<lambda>_. None) ''GroupMin'' (Some (JArr [JArr [JInt 10, JInt 1]])) [''a'', ''b''] [True, False] 0"
  by (rule New_order_independent) auto

definition exact_points :: "f64 \<Rightarrow> nat \<Rightarrow> bool" where
  "exact_points x n \<longleftrightarrow> (\<forall>k \<le> n. rnd64 (of_nat k * rat_of_f64 x) = of_nat k * rat_of_f64 x)"

lemma add_up_snoc: "add_up (xs @ [x]) = add_up xs + x"
  by (simp add: add_up_def)

lemma rat_of_f64_f64: "rat_of_f64 (f64 q) = rnd64 q"
  by (simp add: f64.rep_eq)

lemma f64_add_left: "f64 q + x = f64 (rnd64 q + rat_of_f64 x)"
  by transfer simp

lemma exact_points_add_up:
  "exact_points x n \<Longrightarrow> k \<le> n \<Longrightarrow> add_up (replicate k x) = f64 (of_nat k * rat_of_f64 x)"
proof (induction k)
  case 0
  then show ?case by (simp add: add_up_def)
next
  case (Suc k)
  have e: "rnd64 (of_nat k * rat_of_f64 x) = of_nat k * rat_of_f64 x"
    using Suc.prems by (simp add: exact_points_def)
  have "add_up (replicate (Suc k) x) = f64 (of_nat k * rat_of_f64 x) + x"
    using Suc by (simp add: replicate_append_same [symmetric] add_up_snoc)
  also have "\<dots> = f64 (of_nat (Suc k) * rat_of_f64 x)"
    using e by (simp add: f64_add_left algebra_simps)
  finally show ?case .
qed

lemma exact_points_product:
  assumes "exact_points x n" "n \<le> 2 ^ 53"
  shows "x * float_of_len n = f64 (of_nat n * rat_of_f64 x)"
proof -
  have "rnd64 (of_nat n) = of_nat n" using rnd64_of_int [of "int n"] assms(2) by simp
  then show ?thesis
    unfolding float_of_len_def by (metis f64.abs_eq f64_rat_of_f64 mult.commute rat_of_f64_f64 times_f64.rep_eq
        rat_of_f64_inject rnd64_idem)
qed

lemma list_all2_replicate:
  "(\<And>x. x \<in> set xs \<Longrightarrow> x \<le> (a :: f64)) \<Longrightarrow> list_all2 (\<le>) xs (replicate (length xs) a)"
  by (simp add: list_all2_conv_all_nth)

text \<open>
  With points that add up exactly (whole points, or multiples of a power of
  two, up to \<open>2 ^ 53\<close>), a Sum submission never scores more than the maximum, and one
  that passes every testcase scores exactly the maximum.
\<close>

theorem sum_Compute_bounded:
  assumes "newSum params defs p = Inr s" and "exact_points (points s) (length defs)"
    and "length defs \<le> 2 ^ 53"
  shows "Score (sum_Compute s tcs) \<le> sum_MaxScore s
    \<and> ((\<forall>d \<in> set defs. 1 \<le> outcome_at (index tcs) (codename d)) \<longrightarrow> Score (sum_Compute s tcs) = sum_MaxScore s)"
proof -
  have s: "0 \<le> points s" "sumDefs s = defs" "sumPrecision s = p" using newSum_points [OF assms(1)] by auto
  let ?pts = "map (sum_points s (index tcs)) defs"
  have full: "add_up (replicate (length defs) (points s)) = points s * float_of_len (length defs)"
    using exact_points_add_up [OF assms(2)] exact_points_product [OF assms(2,3)] by simp
  have "list_all2 (\<le>) ?pts (replicate (length ?pts) (points s))"
    using s(1) by (intro list_all2_replicate) (auto simp: sum_points_outcome intro: f64.mul_le_left)
  then have "add_up ?pts \<le> points s * float_of_len (length defs)"
    using add_up_mono full by fastforce
  then have 1: "Score (sum_Compute s tcs) \<le> sum_MaxScore s"
    using s by (auto simp: sum_Compute_def sum_MaxScore_def Let_def intro!: round_score_mono)
  have "?pts = replicate (length defs) (points s)"
    if "\<forall>d \<in> set defs. 1 \<le> outcome_at (index tcs) (codename d)"
    using that by (intro replicate_eqI) (auto simp: sum_points_outcome clamp01_def)
  with 1 full s show ?thesis by (auto simp: sum_Compute_def sum_MaxScore_def Let_def)
qed

theorem sum_Compute_bounded_witness:
  "let s = \<lparr>points = f64 50, sumDefs = ex_defs, sumPrecision = 0\<rparr>
   in newSum (Some (JInt 50)) ex_defs 0 = Inr s \<and>
      Score (sum_Compute s [ex_result ''a'' 1, ex_result ''b'' 1]) = sum_MaxScore s"
proof -
  let ?s = "\<lparr>points = f64 50, sumDefs = ex_defs, sumPrecision = 0\<rparr>"
  have n: "newSum (Some (JInt 50)) ex_defs 0 = Inr ?s" by code_simp
  have "rat_of_f64 (f64 50) = 50" by code_simp
  then have e: "exact_points (points ?s) (length ex_defs)"
    using rnd64_of_int [of "int k * 50" for k] by (auto simp: exact_points_def ex_defs_def)
  have "\<forall>d \<in> set ex_defs. 1 \<le> outcome_at (index [ex_result ''a'' 1, ex_result ''b'' 1]) (codename d)"
    by (auto simp: ex_defs_def outcome_at_def index_def ex_result_def)
  with n sum_Compute_bounded [OF n e, of "[ex_result ''a'' 1, ex_result ''b'' 1]"]
  show ?thesis by (simp add: Let_def ex_defs_def)
qed

definition seven :: "string list" where
  "seven = [''a'', ''b'', ''c'', ''d'', ''e'', ''f'', ''g'']"

text \<open>
  Without exact points the maximum and the sum round differently: with 0.85
  points for each of seven testcases and one decimal, a submission that passes every
  testcase scores 5.9 while the maximum shown is 6.0, so it never counts as complete.
\<close>

theorem sum_perfect_below_maximum:
  "\<exists>st. New (\<lambda>_. None) ''Sum'' (Some (JDec (85 / 100))) seven (replicate 7 True) 1 = Inr st
     \<and> Score (Compute_score st (map (\<lambda>c. ex_result c 1) seven)) = f64 (59 / 10)
     \<and> MaxScore st = f64 6"
proof -
  let ?st = "SumType \<lparr>points = f64 (85 / 100),
     sumDefs = map (\<lambda>c. \<lparr>codename = c, public = True\<rparr>) seven, sumPrecision = 1\<rparr>"
  have "New (\<lambda>_. None) ''Sum'' (Some (JDec (85 / 100))) seven (replicate 7 True) 1 = Inr ?st" by code_simp
  moreover have "Score (Compute_score ?st (map (\<lambda>c. ex_result c 1) seven)) = f64 (59 / 10)" by code_simp
  moreover have "MaxScore ?st = f64 6" by code_simp
  ultimately show ?thesis by blast
qed

text \<open>
  A group total can exceed the maximum score of its dataset: the maxima of
  two subtasks of half a point each are added before rounding (1 point), the scores
  after rounding (2 points).
\<close>

theorem group_total_above_maximum:
  "\<exists>st. New (\<lambda>_. None) ''GroupMin'' (Some (JArr [JArr [JDec (1/2), JInt 1], JArr [JDec (1/2), JInt 1]]))
          [''a'', ''b''] [True, True] 0 = Inr st
     \<and> Score (Compute_score st [ex_result ''a'' 1, ex_result ''b'' 1]) = f64 2
     \<and> MaxScore st = 1"
proof -
  let ?st = "GroupType \<lparr>kind = ''GroupMin'', subtasks =
      [\<lparr>maxScore = f64 (1/2), threshold = 0, grpMembers = [0], grpPublic = True\<rparr>,
       \<lparr>maxScore = f64 (1/2), threshold = 0, grpMembers = [1], grpPublic = True\<rparr>],
      grpDefs = [\<lparr>codename = ''a'', public = True\<rparr>, \<lparr>codename = ''b'', public = True\<rparr>], grpPrecision = 0\<rparr>"
  have "New (\<lambda>_. None) ''GroupMin'' (Some (JArr [JArr [JDec (1/2), JInt 1], JArr [JDec (1/2), JInt 1]]))
          [''a'', ''b''] [True, True] 0 = Inr ?st" by code_simp
  moreover have "Score (Compute_score ?st [ex_result ''a'' 1, ex_result ''b'' 1]) = f64 2" by code_simp
  moreover have "MaxScore ?st = 1" by code_simp
  ultimately show ?thesis by blast
qed

end
