(* ===== verification/Score_Modes.thy ===== *)
theory Score_Modes
  imports Score_Types
begin

text \<open>
  The score modes (\<^verbatim>\<open>src/internal/scoring/modes.go\<close>): how the submissions of a
  participation on a task become its task score, the instant that score was
  reached (the ranking's tie-break), and the ICPC view of the same submissions.
\<close>

section \<open>Data\<close>

record Submission =
  subID :: int
  subTime :: time
  subOfficial :: bool
  subTokened :: bool
  subScored :: bool
  subCompileError :: bool
  subScore :: f64
  subSubtasks :: "f64 list"

record TaskScore =
  taScore :: f64
  taSubtasks :: "f64 list"
  taPending :: nat
  taLastSubmission :: "time option"
  taReached :: "time option"

record ICPCTask =
  icSolved :: bool
  icAttempts :: nat
  icSolvedAt :: "time option"
  icPending :: nat

definition ModeMax :: string where "ModeMax = ''max''"
definition ModeMaxSubtask :: string where "ModeMaxSubtask = ''max_subtask''"
definition ModeMaxTokenedLast :: string where "ModeMaxTokenedLast = ''max_tokened_last''"
definition ModeLast :: string where "ModeLast = ''last''"

lemmas mode_defs = ModeMax_def ModeMaxSubtask_def ModeMaxTokenedLast_def ModeLast_def

section \<open>Operations\<close>

text \<open>The official submissions in time order (stable).\<close>

definition official_sorted :: "Submission list \<Rightarrow> Submission list" where
  "official_sorted subs = stable_sort (\<lambda>a b. before (subTime a) (subTime b)) (filter subOfficial subs)"

definition later :: "time option \<Rightarrow> time \<Rightarrow> time option" where
  "later l t = (case l of None \<Rightarrow> Some t | Some u \<Rightarrow> if after t u then Some t else Some u)"

definition last_submission :: "Submission list \<Rightarrow> time option" where
  "last_submission subs = foldl later None (map subTime (filter subOfficial subs))"

text \<open>The best scored submission, the first of equals: the loop \<^verbatim>\<open>if s.Scored && (best == nil || ...)\<close>.\<close>

definition better :: "Submission option \<Rightarrow> Submission \<Rightarrow> Submission option" where
  "better best s =
     (if subScored s \<and> (case best of None \<Rightarrow> True | Some b \<Rightarrow> subScore s > subScore b)
      then Some s else best)"

definition bestTokenedLast :: "Submission list \<Rightarrow> Submission option" where
  "bestTokenedLast official =
     foldl better (if official = [] then None else better None (last official)) (filter subTokened official)"

definition counting :: "string \<Rightarrow> Submission list \<Rightarrow> Submission option" where
  "counting mode official =
     (if mode = ModeLast
      then find (\<lambda>s. subScored s \<and> \<not> subCompileError s) (rev official)
      else bestTokenedLast official)"

text \<open>The inner loop of max\_subtask: maxima by position, longer lists append.\<close>

fun merge_max :: "f64 list \<Rightarrow> f64 list \<Rightarrow> f64 list" where
  "merge_max [] vs = vs"
| "merge_max us [] = us"
| "merge_max (u # us) (v # vs) = math_Max u v # merge_max us vs"

definition subtask_maxima :: "Submission list \<Rightarrow> f64 list" where
  "subtask_maxima official = foldl (\<lambda>acc s. merge_max acc (subSubtasks s)) [] (filter subScored official)"

text \<open>The three parts of \<^verbatim>\<open>reached\<close>.\<close>

definition first_reaching :: "Submission list \<Rightarrow> nat \<times> f64 \<Rightarrow> time list" where
  "first_reaching official = (\<lambda>(i, v).
     if v \<le> 0 then []
     else (case find (\<lambda>s. subScored s \<and> i < length (subSubtasks s) \<and> subSubtasks s ! i = v) official of
             None \<Rightarrow> []
           | Some s \<Rightarrow> [subTime s]))"

definition reached_subtask :: "Submission list \<Rightarrow> f64 list \<Rightarrow> time option" where
  "reached_subtask official vs = foldl later None (concat (map (first_reaching official) (enumerate 0 vs)))"

definition counting_score :: "string \<Rightarrow> Submission list \<Rightarrow> f64" where
  "counting_score mode official = (case counting mode official of None \<Rightarrow> 0 | Some b \<Rightarrow> subScore b)"

definition reached_replay :: "string \<Rightarrow> Submission list \<Rightarrow> time option" where
  "reached_replay mode official =
     fst (foldl (\<lambda>(atm, prev) k.
        let v = counting_score mode (take (k + 1) official)
        in if v \<noteq> prev then (Some (subTime (official ! k)), v) else (atm, prev))
       (None, 0) [0..<length official])"

definition reached :: "string \<Rightarrow> Submission list \<Rightarrow> f64 list \<Rightarrow> time option" where
  "reached mode official vs =
     (if mode = ModeMaxSubtask then reached_subtask official vs
      else if mode = ModeMaxTokenedLast \<or> mode = ModeLast then reached_replay mode official
      else map_option subTime (foldl better None official))"

definition mode_score :: "string \<Rightarrow> Submission list \<Rightarrow> f64 \<times> f64 list" where
  "mode_score mode official =
     (if mode = ModeMaxSubtask then
        (let vs = subtask_maxima official in (add_up vs, vs))
      else
        (case (if mode = ModeMaxTokenedLast \<or> mode = ModeLast then counting mode official
               else foldl better None official) of
           None \<Rightarrow> (0, [])
         | Some b \<Rightarrow> (subScore b, subSubtasks b)))"

definition Aggregate :: "string \<Rightarrow> Submission list \<Rightarrow> nat \<Rightarrow> TaskScore" where
  "Aggregate mode subs precision =
     (let official = official_sorted subs;
          (sc, vs) = mode_score mode official;
          score = round_score sc precision
      in \<lparr>taScore = score, taSubtasks = vs,
          taPending = length (filter (\<lambda>s. \<not> subScored s) (filter subOfficial subs)),
          taLastSubmission = last_submission subs,
          taReached = (if score > 0 then reached mode official vs else None)\<rparr>)"

text \<open>
  ICPC: an accepted submission reaches the maximum up to \<^verbatim>\<open>1e-9\<close>. The loop stops at
  the first accepted one.
\<close>

definition eps :: f64 where "eps = f64 (1 / 1000000000)"

definition accepted :: "f64 \<Rightarrow> f64 \<Rightarrow> bool" where
  "accepted score mx \<longleftrightarrow> score \<ge> mx - eps \<and> mx > 0"

fun icpc_loop :: "f64 \<Rightarrow> ICPCTask \<Rightarrow> Submission list \<Rightarrow> ICPCTask" where
  "icpc_loop mx r [] = r"
| "icpc_loop mx r (s # ss) =
     (if icSolved r then r
      else icpc_loop mx
        (if \<not> subScored s then r\<lparr>icPending := icPending r + 1\<rparr>
         else if subCompileError s then r
         else if accepted (subScore s) mx then r\<lparr>icSolved := True, icSolvedAt := Some (subTime s)\<rparr>
         else r\<lparr>icAttempts := icAttempts r + 1\<rparr>) ss)"

definition ICPC :: "Submission list \<Rightarrow> f64 \<Rightarrow> ICPCTask" where
  "ICPC subs mx =
     icpc_loop mx \<lparr>icSolved = False, icAttempts = 0, icSolvedAt = None, icPending = 0\<rparr> (official_sorted subs)"

definition ICPCPenalty :: "ICPCTask \<Rightarrow> time \<Rightarrow> int \<Rightarrow> int" where
  "ICPCPenalty t start penaltyMinutes =
     (case icSolvedAt t of
        None \<Rightarrow> 0
      | Some atm \<Rightarrow>
          if \<not> icSolved t then 0
          else (let mins = go_div (t_sub atm start) minute
                in wrap64 ((if mins < 0 then 0 else mins) + penaltyMinutes * int (icAttempts t))))"

section \<open>The official submissions\<close>

lemma set_official_sorted [simp]: "set (official_sorted subs) = {s \<in> set subs. subOfficial s}"
  by (auto simp: official_sorted_def)

lemma sorted_official: "sorted (map subTime (official_sorted subs))"
proof -
  have eq: "(\<lambda>a b. before (subTime a) (subTime b)) = (\<lambda>a b. subTime a < subTime b)"
    by (simp add: before_def fun_eq_iff)
  show ?thesis
    using sorted_stable_sort_key [of subTime "filter subOfficial subs"] by (simp only: official_sorted_def eq)
qed

lemma official_filter [simp]: "filter subOfficial (official_sorted subs) = official_sorted subs"
  by (rule filter_all_id) simp

lemma later_fold:
  "foldl later l ts = Some t \<Longrightarrow>
   (l = Some t \<or> t \<in> set ts) \<and> (\<forall>u \<in> set ts. u \<le> t) \<and> (\<forall>u. l = Some u \<longrightarrow> u \<le> t)"
proof (induction ts arbitrary: l)
  case (Cons x ts)
  have l: "later l x = Some u \<Longrightarrow> (l = Some u \<or> x = u) \<and> x \<le> u \<and> (\<forall>v. l = Some v \<longrightarrow> v \<le> u)" for u
    by (auto simp: later_def after_def split: option.splits if_splits)
  have "later l x \<noteq> None" by (simp add: later_def split: option.split)
  then obtain u where u: "later l x = Some u" by blast
  from Cons.IH [of "later l x"] Cons.prems l [OF u] u show ?case
    by (auto intro: order_trans)
qed simp

lemma later_fold_None [simp]: "foldl later l ts = None \<longleftrightarrow> l = None \<and> ts = []"
  by (induction ts arbitrary: l) (auto simp: later_def split: option.splits)

lemma last_submission_Some:
  "last_submission subs = Some t \<longleftrightarrow>
     (\<exists>s \<in> set subs. subOfficial s \<and> subTime s = t) \<and> (\<forall>s \<in> set subs. subOfficial s \<longrightarrow> subTime s \<le> t)"
proof
  assume "last_submission subs = Some t"
  from later_fold [OF this [unfolded last_submission_def]]
  show "(\<exists>s \<in> set subs. subOfficial s \<and> subTime s = t) \<and> (\<forall>s \<in> set subs. subOfficial s \<longrightarrow> subTime s \<le> t)"
    by auto
next
  assume r: "(\<exists>s \<in> set subs. subOfficial s \<and> subTime s = t) \<and> (\<forall>s \<in> set subs. subOfficial s \<longrightarrow> subTime s \<le> t)"
  then have "last_submission subs \<noteq> None"
    by (auto simp: last_submission_def later_fold_None filter_empty_conv)
  then obtain u where "last_submission subs = Some u" by blast
  with later_fold [OF this [unfolded last_submission_def]] r show "last_submission subs = Some t" by force
qed

section \<open>The best submission\<close>

text \<open>The fold returns the first submission with the greatest score.\<close>

lemma better_fold:
  "foldl better b xs = Some s \<Longrightarrow>
   (b = Some s \<or> s \<in> set xs \<and> subScored s) \<and> (\<forall>x \<in> set xs. subScored x \<longrightarrow> subScore x \<le> subScore s)
   \<and> (\<forall>c. b = Some c \<longrightarrow> subScore c \<le> subScore s)"
proof (induction xs arbitrary: b)
  case (Cons x xs)
  let ?c = "better b x"
  have c: "?c = Some u \<Longrightarrow> (b = Some u \<or> u = x \<and> subScored x) \<and> (subScored x \<longrightarrow> subScore x \<le> subScore u)
      \<and> (\<forall>v. b = Some v \<longrightarrow> subScore v \<le> subScore u)" for u
    by (auto simp: better_def split: option.splits if_splits)
  have n: "?c = None \<Longrightarrow> b = None \<and> \<not> subScored x"
    by (auto simp: better_def split: option.splits if_splits)
  from Cons.prems have f: "foldl better ?c xs = Some s" by simp
  show ?case
  proof (cases ?c)
    case None
    then show ?thesis using Cons.IH [OF f] n by auto
  next
    case (Some u)
    then have "subScore u \<le> subScore s" and "?c = Some s \<or> s \<in> set xs \<and> subScored s"
      and "\<forall>x \<in> set xs. subScored x \<longrightarrow> subScore x \<le> subScore s"
      using Cons.IH [OF f] by blast+
    then show ?thesis using c [OF Some] Some by (auto intro: order_trans)
  qed
qed simp

lemma better_fold_None: "foldl better b xs = None \<longleftrightarrow> b = None \<and> (\<forall>x \<in> set xs. \<not> subScored x)"
  by (induction xs arbitrary: b) (auto simp: better_def)

lemma better_fold_first:
  assumes "foldl better b xs = Some s" "b \<noteq> Some s"
  shows "\<exists>ys zs. xs = ys @ s # zs \<and> (\<forall>y \<in> set ys. subScored y \<longrightarrow> subScore y < subScore s) \<and> subScored s
    \<and> (\<forall>c. b = Some c \<longrightarrow> subScore c < subScore s)"
  using assms
proof (induction xs arbitrary: b)
  case (Cons x xs)
  show ?case
  proof (cases "better b x = Some s")
    case True
    with Cons.prems(2) have x: "x = s" "subScored s" "\<forall>c. b = Some c \<longrightarrow> subScore c < subScore s"
      by (auto simp: better_def split: if_splits option.splits)
    then show ?thesis by (intro exI [of _ "[]"] exI [of _ xs]) auto
  next
    case False
    from Cons.prems have "foldl better (better b x) xs = Some s" by simp
    from Cons.IH [OF this False] obtain ys zs where "xs = ys @ s # zs"
      "\<forall>y \<in> set ys. subScored y \<longrightarrow> subScore y < subScore s"
      "subScored s" and c: "\<forall>c. better b x = Some c \<longrightarrow> subScore c < subScore s"
      by blast
    moreover have "subScored x \<longrightarrow> subScore x < subScore s" "\<forall>c. b = Some c \<longrightarrow> subScore c < subScore s"
      using c by (auto simp: better_def not_less split: if_splits option.splits intro: order_le_less_trans)
    ultimately show ?thesis by (intro exI [of _ "x # ys"] exI [of _ zs]) auto
  qed
qed simp

section \<open>When the score was reached\<close>

lemma first_reaching_sound:
  "t \<in> set (first_reaching official (i, v)) \<Longrightarrow>
   0 < v \<and> (\<exists>s \<in> set official. subScored s \<and> i < length (subSubtasks s) \<and> subSubtasks s ! i = v \<and> subTime s = t)"
  by (auto simp: first_reaching_def split: if_splits option.splits dest!: find_SomeD sym [of "Some _"])

lemma first_reaching_complete:
  "0 < v \<Longrightarrow> s \<in> set official \<Longrightarrow> subScored s \<Longrightarrow> i < length (subSubtasks s) \<Longrightarrow> subSubtasks s ! i = v \<Longrightarrow>
   first_reaching official (i, v) \<noteq> []"
  by (auto simp: first_reaching_def find_None_iff split: option.splits)

lemma reached_subtask_sound:
  assumes "reached_subtask official vs = Some t"
  shows "\<exists>s \<in> set official. subTime s = t"
proof -
  from later_fold [OF assms [unfolded reached_subtask_def]]
  obtain iv where "t \<in> set (first_reaching official iv)" by auto
  then show ?thesis by (cases iv) (auto dest: first_reaching_sound)
qed

text \<open>The replay of the prefixes: the last index at which the score changed.\<close>

lemma replay_fold:
  fixes F :: "nat \<Rightarrow> f64"
  assumes "F 0 = 0"
    and "foldl (\<lambda>(atm, prev) k. let v = F (k + 1) in if v \<noteq> prev then (Some (g k), v) else (atm, prev)) (None, 0) [0..<n] = (r, p)"
  shows "p = F n \<and> (r = None \<longrightarrow> (\<forall>j \<le> n. F j = 0)) \<and>
    (\<forall>t. r = Some t \<longrightarrow> (\<exists>k < n. g k = t \<and> (\<forall>j. k < j \<and> j \<le> n \<longrightarrow> F j = F n) \<and> F k \<noteq> F n))"
  using assms(2)
proof (induction n arbitrary: r p)
  case 0
  then show ?case using assms(1) by simp
next
  case (Suc n)
  obtain r' p' where rp: "foldl (\<lambda>(atm, prev) k. let v = F (k + 1) in if v \<noteq> prev then (Some (g k), v) else (atm, prev)) (None, 0) [0..<n] = (r', p')"
    by fastforce
  note ih = Suc.IH [OF rp]
  show ?case
  proof (cases "F (Suc n) = p'")
    case True
    then have rp': "r = r'" "p = p'" using Suc.prems rp by simp_all
    have n: "F (Suc n) = F n" using True ih by simp
    have "\<exists>k < Suc n. g k = t \<and> (\<forall>j. k < j \<and> j \<le> Suc n \<longrightarrow> F j = F (Suc n)) \<and> F k \<noteq> F (Suc n)"
      if t: "r = Some t" for t
    proof -
      from t rp' ih obtain k where k: "k < n" "g k = t" "F k \<noteq> F n"
        and j: "\<And>j. k < j \<Longrightarrow> j \<le> n \<Longrightarrow> F j = F n" by blast
      have "F j = F (Suc n)" if "k < j" "j \<le> Suc n" for j
        using that j [of j] n by (cases "j = Suc n") auto
      with k n show ?thesis by (metis less_SucI)
    qed
    moreover have "\<forall>j \<le> Suc n. F j = 0" if "r = None"
      using that rp' ih n by (auto simp: le_Suc_eq)
    ultimately show ?thesis using rp' True by blast
  next
    case False
    then have "r = Some (g n)" "p = F (Suc n)" using Suc.prems rp by simp_all
    moreover have "F n \<noteq> F (Suc n)" using ih False by simp
    moreover have "\<forall>j. n < j \<and> j \<le> Suc n \<longrightarrow> F j = F (Suc n)" by (auto simp: le_Suc_eq)
    ultimately show ?thesis by blast
  qed
qed

lemma counting_score_Nil [simp]: "counting_score mode [] = 0"
  by (simp add: counting_score_def counting_def bestTokenedLast_def)

lemma reached_replay_fold:
  assumes "reached_replay mode official = r"
  shows "r = None \<longrightarrow> counting_score mode official = 0"
    and "r = Some t \<longrightarrow> (\<exists>k < length official. subTime (official ! k) = t
     \<and> (\<forall>j. k < j \<and> j \<le> length official \<longrightarrow> counting_score mode (take j official) = counting_score mode official)
     \<and> counting_score mode (take k official) \<noteq> counting_score mode official)"
proof -
  obtain r' p where rp: "foldl (\<lambda>(atm, prev) k. let v = counting_score mode (take (k + 1) official)
      in if v \<noteq> prev then (Some (subTime (official ! k)), v) else (atm, prev)) (None, 0) [0..<length official] = (r', p)"
    by fastforce
  then have "r' = r" using assms by (simp add: reached_replay_def)
  with replay_fold [of "\<lambda>k. counting_score mode (take k official)" "\<lambda>k. subTime (official ! k)", OF _ rp]
  show "r = None \<longrightarrow> counting_score mode official = 0"
    and "r = Some t \<longrightarrow> (\<exists>k < length official. subTime (official ! k) = t
     \<and> (\<forall>j. k < j \<and> j \<le> length official \<longrightarrow> counting_score mode (take j official) = counting_score mode official)
     \<and> counting_score mode (take k official) \<noteq> counting_score mode official)"
    by auto
qed

lemma merge_max_nth:
  "length (merge_max us vs) = max (length us) (length vs)"
  "i < length (merge_max us vs) \<Longrightarrow> merge_max us vs ! i =
     (if i < length us then if i < length vs then max (us ! i) (vs ! i) else us ! i else vs ! i)"
  by (induction us vs arbitrary: i rule: merge_max.induct) (auto simp: nth_Cons split: nat.splits)

text \<open>Every entry of the maxima is a value some scored submission has, and bounds all of them.\<close>

lemma subtask_maxima_snoc:
  "subtask_maxima (xs @ [s]) = (if subScored s then merge_max (subtask_maxima xs) (subSubtasks s) else subtask_maxima xs)"
  by (simp add: subtask_maxima_def)

lemma subtask_maxima_length:
  "i < length (subtask_maxima xs) \<longleftrightarrow> (\<exists>s \<in> set xs. subScored s \<and> i < length (subSubtasks s))"
  by (induction xs rule: rev_induct)
    (auto simp: subtask_maxima_snoc merge_max_nth(1) less_max_iff_disj, simp add: subtask_maxima_def)

lemma subtask_maxima_attained:
  "i < length (subtask_maxima xs) \<Longrightarrow>
   \<exists>s \<in> set xs. subScored s \<and> i < length (subSubtasks s) \<and> subSubtasks s ! i = subtask_maxima xs ! i"
proof (induction xs rule: rev_induct)
  case (snoc s xs)
  show ?case
  proof (cases "subScored s")
    case True
    then have "(\<exists>u \<in> set xs. subScored u \<and> i < length (subSubtasks u) \<and> subSubtasks u ! i = subtask_maxima (xs @ [s]) ! i)
       \<or> i < length (subSubtasks s) \<and> subSubtasks s ! i = subtask_maxima (xs @ [s]) ! i"
      using snoc by (auto simp: subtask_maxima_snoc merge_max_nth max_def less_max_iff_disj split: if_splits)
    with True show ?thesis by auto
  qed (use snoc in \<open>auto simp: subtask_maxima_snoc\<close>)
qed (simp add: subtask_maxima_def)

lemma subtask_maxima_upper:
  "s \<in> set xs \<Longrightarrow> subScored s \<Longrightarrow> i < length (subSubtasks s) \<Longrightarrow> subSubtasks s ! i \<le> subtask_maxima xs ! i"
proof (induction xs rule: rev_induct)
  case (snoc u xs)
  show ?case
  proof (cases "s \<in> set xs")
    case True
    then have "i < length (subtask_maxima xs)" using snoc.prems by (auto simp: subtask_maxima_length)
    with True snoc show ?thesis
      by (auto simp: subtask_maxima_snoc merge_max_nth le_max_iff_disj less_max_iff_disj)
  next
    case False
    with snoc.prems show ?thesis
      by (auto simp: subtask_maxima_snoc merge_max_nth le_max_iff_disj less_max_iff_disj)
  qed
qed simp

section \<open>Task scores\<close>

lemma Aggregate_fields:
  assumes "mode_score mode (official_sorted subs) = (sc, vs)"
  shows "taScore (Aggregate mode subs p) = round_score sc p"
    and "taSubtasks (Aggregate mode subs p) = vs"
    and "taReached (Aggregate mode subs p) = (if round_score sc p > 0 then reached mode (official_sorted subs) vs else None)"
    and "taLastSubmission (Aggregate mode subs p) = last_submission subs"
  using assms by (simp_all add: Aggregate_def Let_def)

lemma round_score_pos: "0 < round_score v p \<Longrightarrow> 0 < v"
  using round_score_mono [of v 0 p] by force

lemma add_up_pos: "0 < add_up vs \<Longrightarrow> \<exists>v \<in> set vs. 0 < v"
proof (rule ccontr)
  assume "0 < add_up vs" and "\<not> (\<exists>v \<in> set vs. 0 < v)"
  then have "list_all2 (\<le>) vs (map (\<lambda>_. 0) vs)" by (simp add: list_all2_conv_all_nth not_less)
  then have "add_up vs \<le> add_up (map (\<lambda>_. 0) vs)" by (rule add_up_mono)
  also have "add_up (map (\<lambda>_. 0) vs) = 0"
    by (simp add: add_up_def foldl_map, induction vs) auto
  finally show False using \<open>0 < add_up vs\<close> by simp
qed

lemma reached_subtask_Some:
  assumes "0 < add_up (subtask_maxima official)"
  shows "reached_subtask official (subtask_maxima official) \<noteq> None"
proof -
  let ?vs = "subtask_maxima official"
  from add_up_pos [OF assms] obtain i where i: "i < length ?vs" "0 < ?vs ! i"
    by (auto simp: in_set_conv_nth)
  from subtask_maxima_attained [OF i(1)] i(2) have "first_reaching official (i, ?vs ! i) \<noteq> []"
    by (auto dest: first_reaching_complete)
  moreover have "(i, ?vs ! i) \<in> set (enumerate 0 ?vs)"
    using i(1) by (simp add: in_set_enumerate_eq)
  ultimately show ?thesis by (auto simp: reached_subtask_def concat_eq_Nil_conv)
qed

lemma counting_in: "counting mode official = Some s \<Longrightarrow> s \<in> set official"
proof (cases "mode = ModeLast")
  case False
  assume "counting mode official = Some s"
  with False have f: "foldl better (if official = [] then None else better None (last official)) (filter subTokened official) = Some s"
    by (simp add: counting_def bestTokenedLast_def)
  from better_fold [OF f] show ?thesis
    by (auto simp: better_def split: if_splits)
qed (auto simp: counting_def dest: find_SomeD)

lemma reached_official:
  assumes "reached mode official vs = Some t"
  shows "\<exists>s \<in> set official. subTime s = t"
proof -
  consider "mode = ModeMaxSubtask" | "mode \<noteq> ModeMaxSubtask" "mode = ModeMaxTokenedLast \<or> mode = ModeLast"
    | "mode \<noteq> ModeMaxSubtask" "\<not> (mode = ModeMaxTokenedLast \<or> mode = ModeLast)" by blast
  then show ?thesis
  proof cases
    case 1
    then show ?thesis using assms by (auto simp: reached_def intro: reached_subtask_sound)
  next
    case 2
    then have "reached_replay mode official = Some t" using assms by (simp add: reached_def)
    from reached_replay_fold(2) [OF this, of t] show ?thesis by auto
  next
    case 3
    then obtain s where "foldl better None official = Some s" "subTime s = t"
      using assms by (auto simp: reached_def)
    with better_fold [OF this(1)] show ?thesis by auto
  qed
qed

lemma reached_positive:
  assumes "mode_score mode official = (sc, vs)" and "0 < sc"
  shows "reached mode official vs \<noteq> None"
proof -
  consider "mode = ModeMaxSubtask" | "mode \<noteq> ModeMaxSubtask" "mode = ModeMaxTokenedLast \<or> mode = ModeLast"
    | "mode \<noteq> ModeMaxSubtask" "\<not> (mode = ModeMaxTokenedLast \<or> mode = ModeLast)" by blast
  then show ?thesis
  proof cases
    case 1
    then show ?thesis using assms by (auto simp: reached_def mode_score_def Let_def dest: reached_subtask_Some)
  next
    case 2
    then have "counting_score mode official = sc"
      using assms by (auto simp: mode_score_def counting_score_def split: option.splits)
    with reached_replay_fold(1) [OF refl, of mode official] assms 2 show ?thesis by (auto simp: reached_def)
  next
    case 3
    then show ?thesis using assms by (auto simp: reached_def mode_score_def split: option.splits)
  qed
qed

text \<open>
  In every score mode, the instant a task score was reached is
  reported exactly when the score is positive; it is then the time of an official
  submission of the participation, not later than the last submission reported.
\<close>

theorem Aggregate_reached:
  "(taReached (Aggregate mode subs p) = None \<longleftrightarrow> taScore (Aggregate mode subs p) \<le> 0) \<and>
   (\<forall>t. taReached (Aggregate mode subs p) = Some t \<longrightarrow>
      (\<exists>s \<in> set subs. subOfficial s \<and> subTime s = t) \<and>
      (\<exists>u. taLastSubmission (Aggregate mode subs p) = Some u \<and> t \<le> u))"
proof -
  let ?o = "official_sorted subs"
  obtain sc vs where ms: "mode_score mode ?o = (sc, vs)" by fastforce
  note f = Aggregate_fields [OF ms, of p]
  show ?thesis
  proof (intro conjI allI impI)
    show "taReached (Aggregate mode subs p) = None \<longleftrightarrow> taScore (Aggregate mode subs p) \<le> 0"
      using reached_positive [OF ms] round_score_pos [of sc p] by (simp add: f not_le [symmetric])
  next
    fix t
    assume "taReached (Aggregate mode subs p) = Some t"
    then have "reached mode ?o vs = Some t" by (simp add: f split: if_splits)
    from reached_official [OF this] show s: "\<exists>s \<in> set subs. subOfficial s \<and> subTime s = t" by auto
    then have "last_submission subs \<noteq> None" by (auto simp: last_submission_def filter_empty_conv)
    then obtain u where u: "last_submission subs = Some u" by blast
    with s show "\<exists>u. taLastSubmission (Aggregate mode subs p) = Some u \<and> t \<le> u"
      by (auto simp: f last_submission_Some)
  qed
qed

text \<open>Example submissions: scored, official, compiled.\<close>

definition ex_sub :: "int \<Rightarrow> time \<Rightarrow> f64 list \<Rightarrow> Submission" where
  "ex_sub i t vs = \<lparr>subID = i, subTime = t, subOfficial = True, subTokened = False, subScored = True,
     subCompileError = False, subScore = add_up vs, subSubtasks = vs\<rparr>"

theorem Aggregate_reached_witness:
  "taReached (Aggregate ModeMax [ex_sub 1 10 [f64 30], ex_sub 2 20 [f64 50]] 0) = Some 20 \<and>
   (\<exists>u. taLastSubmission (Aggregate ModeMax [ex_sub 1 10 [f64 30], ex_sub 2 20 [f64 50]] 0) = Some u \<and> 20 \<le> u)"
proof -
  have "taReached (Aggregate ModeMax [ex_sub 1 10 [f64 30], ex_sub 2 20 [f64 50]] 0) = Some 20" by code_simp
  with Aggregate_reached [of ModeMax "[ex_sub 1 10 [f64 30], ex_sub 2 20 [f64 50]]" 0] show ?thesis by blast
qed

text \<open>
  In mode max (and every unknown mode) the task score is the rounded
  score of a best scored official submission, and the instant it was reached is that
  of the earliest submission with this score.
\<close>

theorem Aggregate_max:
  assumes "mode \<noteq> ModeMaxSubtask" "mode \<noteq> ModeMaxTokenedLast" "mode \<noteq> ModeLast"
    and "s \<in> set subs" "subOfficial s" "subScored s"
    and best: "\<forall>u \<in> set subs. subOfficial u \<and> subScored u \<longrightarrow> subScore u \<le> subScore s"
  shows "taScore (Aggregate mode subs p) = round_score (subScore s) p \<and>
    taReached (Aggregate mode subs p) =
      (if 0 < round_score (subScore s) p
       then Some (Min (subTime ` {u \<in> set subs. subOfficial u \<and> subScored u \<and> subScore u = subScore s}))
       else None)"
proof -
  let ?o = "official_sorted subs"
  have "foldl better None ?o \<noteq> None" using assms(4-6) by (auto simp: better_fold_None)
  then obtain b where b: "foldl better None ?o = Some b" by blast
  from better_fold [OF b] have bo: "b \<in> set subs" "subOfficial b" "subScored b"
    and "subScore s \<le> subScore b" using assms(4-6) by auto
  then have sc: "subScore b = subScore s" using best by force
  have ms: "mode_score mode ?o = (subScore b, subSubtasks b)" using assms(1-3) b by (simp add: mode_score_def)
  note f = Aggregate_fields [OF ms, of p]
  obtain ys zs where o: "?o = ys @ b # zs" and ys: "\<forall>y \<in> set ys. subScored y \<longrightarrow> subScore y < subScore b"
    using better_fold_first [OF b] by auto
  have "Min (subTime ` {u \<in> set subs. subOfficial u \<and> subScored u \<and> subScore u = subScore s}) = subTime b"
  proof (rule Min_eqI)
    show "subTime b \<in> subTime ` {u \<in> set subs. subOfficial u \<and> subScored u \<and> subScore u = subScore s}"
      using bo sc by auto
  next
    fix t
    assume "t \<in> subTime ` {u \<in> set subs. subOfficial u \<and> subScored u \<and> subScore u = subScore s}"
    then obtain u where u: "u \<in> set ?o" "subScored u" "subScore u = subScore b" "t = subTime u"
      using sc by auto
    with ys have "u \<in> set (b # zs)" unfolding o by auto
    with u(4) sorted_official [of subs] show "subTime b \<le> t" unfolding o by (auto simp: sorted_append)
  qed simp
  then show ?thesis using f(1,3) sc b assms(1-3) by (simp add: reached_def)
qed

theorem Aggregate_max_witness:
  "taScore (Aggregate ModeMax [ex_sub 1 30 [f64 50], ex_sub 2 20 [f64 50], ex_sub 3 10 [f64 30]] 0) = f64 50 \<and>
   taReached (Aggregate ModeMax [ex_sub 1 30 [f64 50], ex_sub 2 20 [f64 50], ex_sub 3 10 [f64 30]] 0) = Some 20"
proof -
  let ?subs = "[ex_sub 1 30 [f64 50], ex_sub 2 20 [f64 50], ex_sub 3 10 [f64 30]]"
  have m: "ModeMax \<noteq> ModeMaxSubtask" "ModeMax \<noteq> ModeMaxTokenedLast" "ModeMax \<noteq> ModeLast" by (simp_all add: mode_defs)
  have e: "add_up [f64 50] = f64 50" "add_up [f64 30] = f64 30" by code_simp+
  have l: "f64 30 \<le> f64 50" "f64 30 \<noteq> f64 50" "round_score (f64 50) 0 = f64 50" "0 < f64 50" by code_simp+
  have s: "{u \<in> set ?subs. subOfficial u \<and> subScored u \<and> subScore u = subScore (ex_sub 1 30 [f64 50])} = {ex_sub 1 30 [f64 50], ex_sub 2 20 [f64 50]}"
    using l by (auto simp: ex_sub_def e)
  show ?thesis
    using Aggregate_max [OF m, of "ex_sub 1 30 [f64 50]" ?subs 0] l unfolding s by (auto simp: ex_sub_def e)
qed

lemma mode_score_counting:
  assumes "mode = ModeMaxTokenedLast \<or> mode = ModeLast"
  shows "fst (mode_score mode official) = counting_score mode official"
  using assms by (auto simp: mode_score_def counting_score_def mode_defs split: option.splits)

text \<open>
  In the modes where a score can go down (last and max tokened last),
  the instant reported is that of the submission which brought the score to its final
  value: before it the score was a different one, and no later submission changed it.
\<close>

theorem Aggregate_reached_final:
  assumes "mode = ModeMaxTokenedLast \<or> mode = ModeLast"
    and "taReached (Aggregate mode subs p) = Some t"
  shows "\<exists>k < length (official_sorted subs). subTime (official_sorted subs ! k) = t
    \<and> counting_score mode (take k (official_sorted subs)) \<noteq> counting_score mode (official_sorted subs)
    \<and> (\<forall>j > k. j \<le> length (official_sorted subs) \<longrightarrow>
         round_score (counting_score mode (take j (official_sorted subs))) p = taScore (Aggregate mode subs p))"
proof -
  let ?o = "official_sorted subs"
  obtain sc vs where ms: "mode_score mode ?o = (sc, vs)" by fastforce
  then have sc: "sc = counting_score mode ?o" using mode_score_counting [OF assms(1), of ?o] by simp
  note f = Aggregate_fields [OF ms, of p]
  have "reached_replay mode ?o = Some t"
    using assms f(3) by (auto simp: reached_def mode_defs split: if_splits)
  from reached_replay_fold(2) [OF this, of t] show ?thesis using f(1) sc by fastforce
qed

theorem Aggregate_reached_final_witness:
  "\<exists>k < 3. subTime (official_sorted [ex_sub 1 10 [f64 30], ex_sub 2 20 [f64 50], ex_sub 3 30 [f64 50]] ! k) = 20"
proof -
  let ?subs = "[ex_sub 1 10 [f64 30], ex_sub 2 20 [f64 50], ex_sub 3 30 [f64 50]]"
  have m: "ModeLast = ModeMaxTokenedLast \<or> ModeLast = ModeLast" by simp
  have "taReached (Aggregate ModeLast ?subs 0) = Some 20" by code_simp
  from Aggregate_reached_final [OF m this] have "\<exists>k < length (official_sorted ?subs). subTime (official_sorted ?subs ! k) = 20"
    by blast
  moreover have "length (official_sorted ?subs) = 3" by code_simp
  ultimately show ?thesis by metis
qed

section \<open>Monotonicity\<close>

lemma best_score_mono:
  assumes "set xs \<subseteq> set ys" and "\<forall>s \<in> set ys. 0 \<le> subScore s"
    and "(case foldl better None xs of None \<Rightarrow> 0 | Some b \<Rightarrow> subScore b) = v"
    and "(case foldl better None ys of None \<Rightarrow> 0 | Some b \<Rightarrow> subScore b) = w"
  shows "v \<le> w"
proof (cases "foldl better None xs")
  case None
  have "0 \<le> w" using assms(2,4) better_fold [of None ys] by (force split: option.splits)
  then show ?thesis using None assms by simp
next
  case (Some b)
  from better_fold [OF this] have b: "b \<in> set xs" "subScored b" by auto
  then have "foldl better None ys \<noteq> None" using assms(1) by (auto simp: better_fold_None)
  then obtain c where c: "foldl better None ys = Some c" by blast
  from better_fold [OF c] b assms(1) have "subScore b \<le> subScore c" by auto
  then show ?thesis using assms Some c by simp
qed

lemma subtask_maxima_mono:
  assumes "set xs \<subseteq> set ys" and nn: "\<forall>s \<in> set ys. \<forall>v \<in> set (subSubtasks s). 0 \<le> v"
  shows "add_up (subtask_maxima xs) \<le> add_up (subtask_maxima ys)"
proof -
  let ?u = "subtask_maxima xs" and ?v = "subtask_maxima ys"
  have ij: "i < length ?u \<Longrightarrow> i < length ?v" for i
    using assms(1) by (auto simp: subtask_maxima_length)
  have le: "length ?u \<le> length ?v" using ij [of "length ?u - 1"] by (cases "length ?u") auto
  have "?u ! i \<le> ?v ! i" if "i < length ?u" for i
    using subtask_maxima_attained [OF that] assms(1) subtask_maxima_upper [of _ ys i] by force
  then have "add_up ?u \<le> add_up (take (length ?u) ?v)"
    using le by (intro add_up_mono) (simp add: list_all2_conv_all_nth)
  also have "\<dots> \<le> add_up ?v"
  proof -
    have "0 \<le> x" if x: "x \<in> set ?v" for x
    proof -
      from x obtain i where i: "i < length ?v" "x = ?v ! i" by (auto simp: in_set_conv_nth)
      from subtask_maxima_attained [OF i(1)] obtain u where "u \<in> set ys" "x \<in> set (subSubtasks u)"
        using i(2) by (metis nth_mem)
      with nn show ?thesis by blast
    qed
    then have "list_all (\<lambda>x. 0 \<le> x) (drop (length ?u) ?v)" by (auto simp: list_all_iff dest: in_set_dropD)
    then have "add_up (take (length ?u) ?v) \<le> foldl (+) (add_up (take (length ?u) ?v)) (drop (length ?u) ?v)"
      by (rule f64.sum_increases)
    also have "\<dots> = add_up ?v"
      unfolding add_up_def by (subst foldl_append [symmetric]) simp
    finally show ?thesis .
  qed
  finally show ?thesis .
qed

text \<open>
  In the modes max and max\_subtask further submissions never lower a task
  score: if every submission of the first list is in the second and scores are not
  negative, the task score of the second is at least that of the first.
\<close>

theorem Aggregate_mono:
  assumes "mode \<noteq> ModeMaxTokenedLast" "mode \<noteq> ModeLast"
    and "set subs \<subseteq> set subs'"
    and "\<forall>s \<in> set subs'. 0 \<le> subScore s \<and> (\<forall>v \<in> set (subSubtasks s). 0 \<le> v)"
  shows "taScore (Aggregate mode subs p) \<le> taScore (Aggregate mode subs' p)"
proof -
  let ?o = "official_sorted subs" and ?o' = "official_sorted subs'"
  obtain sc vs sc' vs' where ms: "mode_score mode ?o = (sc, vs)" "mode_score mode ?o' = (sc', vs')" by fastforce
  have sub: "set ?o \<subseteq> set ?o'" using assms(3) by auto
  have "sc \<le> sc'"
  proof (cases "mode = ModeMaxSubtask")
    case True
    then show ?thesis using ms subtask_maxima_mono [OF sub] assms(4) by (auto simp: mode_score_def Let_def)
  next
    case False
    show ?thesis
    proof (rule best_score_mono [OF sub])
      show "\<forall>s \<in> set ?o'. 0 \<le> subScore s" using assms(4) by simp
    qed (use False ms assms(1,2) in \<open>auto simp: mode_score_def split: option.splits\<close>)
  qed
  then show ?thesis using Aggregate_fields(1) [OF ms(1)] Aggregate_fields(1) [OF ms(2)] by (simp add: round_score_mono)
qed

theorem Aggregate_mono_witness:
  "taScore (Aggregate ModeMaxSubtask [ex_sub 1 10 [f64 30, 0]] 0)
     \<le> taScore (Aggregate ModeMaxSubtask [ex_sub 2 20 [0, f64 20], ex_sub 1 10 [f64 30, 0]] 0)"
proof -
  have "0 \<le> add_up [f64 30, 0]" "0 \<le> add_up [0, f64 20]" "0 \<le> f64 30" "0 \<le> f64 20" by code_simp+
  then show ?thesis
    using Aggregate_mono [of ModeMaxSubtask "[ex_sub 1 10 [f64 30, 0]]" "[ex_sub 2 20 [0, f64 20], ex_sub 1 10 [f64 30, 0]]" 0]
    by (simp add: mode_defs ex_sub_def)
qed

section \<open>ICPC\<close>

definition accepts :: "f64 \<Rightarrow> Submission \<Rightarrow> bool" where
  "accepts mx s \<longleftrightarrow> subScored s \<and> \<not> subCompileError s \<and> accepted (subScore s) mx"

definition rejects :: "f64 \<Rightarrow> Submission \<Rightarrow> bool" where
  "rejects mx s \<longleftrightarrow> subScored s \<and> \<not> subCompileError s \<and> \<not> accepted (subScore s) mx"

lemma icpc_loop_solved: "icSolved r \<Longrightarrow> icpc_loop mx r xs = r"
  by (cases xs) auto

lemma icpc_loop_prefix:
  assumes "\<forall>s \<in> set ys. \<not> accepts mx s" and "\<not> icSolved r"
  shows "icpc_loop mx r (ys @ zs) =
    icpc_loop mx (r\<lparr>icAttempts := icAttempts r + length (filter (rejects mx) ys),
                    icPending := icPending r + length (filter (\<lambda>s. \<not> subScored s) ys)\<rparr>) zs"
  using assms
proof (induction ys arbitrary: r)
  case (Cons y ys)
  then have y: "\<not> accepts mx y" by simp
  consider "\<not> subScored y" | "subScored y" "subCompileError y" | "subScored y" "\<not> subCompileError y" by blast
  then show ?case
  proof cases
    case 3
    then have "\<not> accepted (subScore y) mx" using y by (simp add: accepts_def)
    then show ?thesis using 3 Cons by (simp add: rejects_def)
  qed (use Cons in \<open>simp_all add: rejects_def\<close>)
qed simp

lemma ICPC_prefix:
  "ICPC subs mx =
     (let official = official_sorted subs;
          pre = takeWhile (\<lambda>s. \<not> accepts mx s) official;
          post = dropWhile (\<lambda>s. \<not> accepts mx s) official
      in \<lparr>icSolved = (post \<noteq> []),
          icAttempts = length (filter (rejects mx) pre),
          icSolvedAt = (case post of [] \<Rightarrow> None | s # _ \<Rightarrow> Some (subTime s)),
          icPending = length (filter (\<lambda>s. \<not> subScored s) pre)\<rparr>)"
proof -
  let ?o = "official_sorted subs" and ?P = "\<lambda>s. \<not> accepts mx s"
  let ?r = "\<lparr>icSolved = False, icAttempts = 0, icSolvedAt = None, icPending = 0\<rparr>"
  have 1: "icpc_loop mx ?r (takeWhile ?P ?o @ dropWhile ?P ?o) =
    icpc_loop mx \<lparr>icSolved = False, icAttempts = length (filter (rejects mx) (takeWhile ?P ?o)),
       icSolvedAt = None, icPending = length (filter (\<lambda>s. \<not> subScored s) (takeWhile ?P ?o))\<rparr> (dropWhile ?P ?o)"
    by (subst icpc_loop_prefix) (auto dest: set_takeWhileD)
  show ?thesis
  proof (cases "dropWhile ?P ?o")
    case Nil
    show ?thesis using 1 [unfolded takeWhile_dropWhile_id] unfolding Nil ICPC_def Let_def by simp
  next
    case (Cons s xs)
    then have "accepts mx s" by (auto simp: dropWhile_eq_Cons_conv)
    then show ?thesis using 1 [unfolded takeWhile_dropWhile_id] unfolding Cons ICPC_def Let_def
      by (simp add: accepts_def icpc_loop_solved)
  qed
qed

text \<open>
  The ICPC view of a task: it is solved when an official submission is
  accepted, at the time of the first accepted one; the attempts are the rejected
  submissions before that one (all of them while the task is unsolved), compilation
  errors not counted, and the pending ones are counted up to it too.
\<close>

theorem ICPC_spec:
  "ICPC subs mx =
     (let official = official_sorted subs;
          pre = takeWhile (\<lambda>s. \<not> accepts mx s) official;
          post = dropWhile (\<lambda>s. \<not> accepts mx s) official
      in \<lparr>icSolved = (post \<noteq> []),
          icAttempts = length (filter (rejects mx) pre),
          icSolvedAt = (case post of [] \<Rightarrow> None | s # _ \<Rightarrow> Some (subTime s)),
          icPending = length (filter (\<lambda>s. \<not> subScored s) pre)\<rparr>)"
  by (rule ICPC_prefix)

lemma official_sorted_snoc:
  "subOfficial s \<Longrightarrow> official_sorted (subs @ [s]) =
     rev (ins_left (\<lambda>a b. before (subTime a) (subTime b)) s (rev (official_sorted subs)))"
  by (simp add: official_sorted_def stable_sort_snoc)

lemma ins_left_split:
  "\<exists>ys zs. rev xs = zs @ ys \<and> ins_left lt x xs = rev ys @ x # rev zs \<and> (\<forall>y \<in> set ys. lt x y)"
proof (induction xs)
  case (Cons a xs)
  then obtain ys zs where h: "rev xs = zs @ ys" "ins_left lt x xs = rev ys @ x # rev zs" "\<forall>y \<in> set ys. lt x y"
    by blast
  show ?case
  proof (cases "lt x a")
    case True
    then show ?thesis using h by (intro exI [of _ "ys @ [a]"] exI [of _ zs]) auto
  next
    case False
    then show ?thesis by (intro exI [of _ "[]"] exI [of _ "rev (a # xs)"]) auto
  qed
qed simp

lemma takeWhile_insert_after:
  assumes "x \<in> set zs" "P x"
  shows "takeWhile (\<lambda>s. \<not> P s) (zs @ ys) = takeWhile (\<lambda>s. \<not> P s) zs"
    and "hd (dropWhile (\<lambda>s. \<not> P s) (zs @ ys)) = hd (dropWhile (\<lambda>s. \<not> P s) zs)"
    and "dropWhile (\<lambda>s. \<not> P s) (zs @ ys) \<noteq> []"
  using assms by (induction zs) auto

text \<open>
  Once a task is solved, submissions made at the time of the accepted
  one or later change nothing of its ICPC view: no further attempt is counted and the
  time of the solution stays.
\<close>

theorem ICPC_stable:
  assumes "icSolvedAt (ICPC subs mx) = Some t" and "t \<le> subTime s"
  shows "ICPC (subs @ [s]) mx = ICPC subs mx"
proof (cases "subOfficial s")
  case False
  then show ?thesis by (simp add: ICPC_def official_sorted_def)
next
  case True
  let ?o = "official_sorted subs" and ?P = "\<lambda>s. \<not> accepts mx s"
  from assms(1) obtain a xs where a: "dropWhile ?P ?o = a # xs" "subTime a = t"
    by (auto simp: ICPC_prefix Let_def split: list.splits)
  then have acc: "accepts mx a" by (auto simp: dropWhile_eq_Cons_conv)
  obtain ys zs where o: "?o = zs @ ys" and o': "official_sorted (subs @ [s]) = zs @ s # ys"
    and ys: "\<forall>y \<in> set ys. before (subTime s) (subTime y)"
    using ins_left_split [of "rev ?o" "\<lambda>a b. before (subTime a) (subTime b)" s] official_sorted_snoc [OF True, of subs]
    by auto
  have "a \<in> set ?o" using a(1) by (metis in_set_conv_decomp set_dropWhileD append_Nil)
  moreover have "a \<notin> set ys" using ys a(2) assms(2) by (auto simp: before_def)
  ultimately have "a \<in> set zs" using o by auto
  note t = takeWhile_insert_after [OF this, of "accepts mx", OF acc]
  have "dropWhile ?P (zs @ l) = hd (dropWhile ?P zs) # tl (dropWhile ?P (zs @ l))" for l
    using t(2,3) [of l] by (metis hd_Cons_tl)
  then have "(case dropWhile ?P (zs @ l) of [] \<Rightarrow> None | s # _ \<Rightarrow> Some (subTime s)) = Some (subTime (hd (dropWhile ?P zs)))" for l
    by (metis list.simps(5))
  then show ?thesis unfolding ICPC_prefix Let_def o o' using t by simp
qed

theorem ICPC_stable_witness:
  "ICPC ([ex_sub 1 10 [f64 50], ex_sub 2 20 [f64 100]] @ [ex_sub 3 30 [f64 10]]) (f64 100)
     = ICPC [ex_sub 1 10 [f64 50], ex_sub 2 20 [f64 100]] (f64 100)"
proof -
  have "icSolvedAt (ICPC [ex_sub 1 10 [f64 50], ex_sub 2 20 [f64 100]] (f64 100)) = Some 20" by code_simp
  then show ?thesis by (rule ICPC_stable) (simp add: ex_sub_def)
qed

end
