(* ===== verification/Verdicts.thy ===== *)
theory Verdicts
  imports Score_Modes
begin

text \<open>
  The verdicts (\<^verbatim>\<open>src/internal/scoring/verdict.go\<close>): the short names shown for a
  submission, a testcase and a subtask, and the binary verdict stored for ICPC
  contests. Its agreement with the ICPC aggregation of the score modes is proved.
\<close>

section \<open>Constants\<close>

definition VerdictAccepted :: string where "VerdictAccepted = ''AC''"
definition VerdictWrong :: string where "VerdictWrong = ''WA''"
definition VerdictTime :: string where "VerdictTime = ''TLE''"
definition VerdictMemory :: string where "VerdictMemory = ''MLE''"
definition VerdictRuntime :: string where "VerdictRuntime = ''RE''"
definition VerdictOutputLimit :: string where "VerdictOutputLimit = ''OLE''"
definition VerdictCompileError :: string where "VerdictCompileError = ''CE''"
definition VerdictSecurity :: string where "VerdictSecurity = ''SV''"
definition VerdictPartial :: string where "VerdictPartial = ''PA''"
definition VerdictSkipped :: string where "VerdictSkipped = ''SK''"
definition StatusSkipped :: string where "StatusSkipped = ''skipped''"

lemmas verdict_defs =
  VerdictAccepted_def VerdictWrong_def VerdictTime_def VerdictMemory_def VerdictRuntime_def
  VerdictOutputLimit_def VerdictCompileError_def VerdictSecurity_def VerdictPartial_def VerdictSkipped_def

section \<open>Operations\<close>

definition Verdict :: "string \<Rightarrow> f64 \<Rightarrow> f64 \<Rightarrow> string" where
  "Verdict stored score mx =
     (if mx > 0 \<and> score \<ge> mx - eps then VerdictAccepted
      else if score > eps then VerdictPartial
      else if stored = '''' \<or> stored = VerdictAccepted then VerdictWrong
      else stored)"

definition failureVerdict :: "string \<Rightarrow> string" where
  "failureVerdict status =
     (if status = ''timeout'' \<or> status = ''timeout_wall'' then VerdictTime
      else if status = ''memory'' then VerdictMemory
      else if status = ''signal'' \<or> status = ''nonzero'' then VerdictRuntime
      else if status = ''output_limit'' then VerdictOutputLimit
      else if status = ''security'' then VerdictSecurity
      else VerdictWrong)"

definition TestcaseVerdict :: "TestcaseDetail \<Rightarrow> string" where
  "TestcaseVerdict tc =
     (if tdStatus tc = StatusSkipped then VerdictSkipped
      else if tdOutcome tc \<ge> 1 - eps then VerdictAccepted
      else if tdOutcome tc > eps then VerdictPartial
      else failureVerdict (tdStatus tc))"

definition failing :: "TestcaseDetail \<Rightarrow> bool" where
  "failing tc \<longleftrightarrow> tdOutcome tc < 1 \<and> tdStatus tc \<noteq> StatusSkipped"

fun subtask_failure :: "TestcaseDetail list \<Rightarrow> string" where
  "subtask_failure [] = VerdictWrong"
| "subtask_failure (tc # tcs) =
     (if failing tc \<and> TestcaseVerdict tc \<noteq> VerdictPartial then TestcaseVerdict tc
      else subtask_failure tcs)"

definition SubtaskVerdict :: "SubtaskDetail \<Rightarrow> string" where
  "SubtaskVerdict st =
     (if sdFraction st \<ge> 1 - eps then VerdictAccepted
      else if sdFraction st > eps then VerdictPartial
      else subtask_failure (sdTestcases st))"

definition VerdictClass :: "string \<Rightarrow> string" where
  "VerdictClass v =
     (if v = VerdictAccepted then ''ok''
      else if v = VerdictPartial then ''pa''
      else if v = VerdictSkipped \<or> v = '''' then ''pending''
      else ''bad'')"

text \<open>The nested loop over the subtasks, then the loop over the plain testcases.\<close>

fun subtasks_failure :: "SubtaskDetail list \<Rightarrow> TestcaseDetail option" where
  "subtasks_failure [] = None"
| "subtasks_failure (st # sts) =
     (case find failing (sdTestcases st) of None \<Rightarrow> subtasks_failure sts | Some tc \<Rightarrow> Some tc)"

definition ICPCVerdict :: "Details \<Rightarrow> f64 \<Rightarrow> f64 \<Rightarrow> string" where
  "ICPCVerdict d score mx =
     (if mx > 0 \<and> score \<ge> mx - eps then VerdictAccepted
      else (case subtasks_failure (dSubtasks d) of
              Some tc \<Rightarrow> failureVerdict (tdStatus tc)
            | None \<Rightarrow> (case find failing (dTestcases d) of
                Some tc \<Rightarrow> failureVerdict (tdStatus tc)
              | None \<Rightarrow> VerdictWrong)))"

section \<open>Properties\<close>

lemma failureVerdict_range:
  "failureVerdict s \<in> {VerdictTime, VerdictMemory, VerdictRuntime, VerdictOutputLimit, VerdictSecurity, VerdictWrong}"
  by (simp add: failureVerdict_def)

lemma failureVerdict_not [simp]:
  "failureVerdict s \<noteq> VerdictAccepted" "failureVerdict s \<noteq> VerdictPartial"
  "failureVerdict s \<noteq> VerdictSkipped" "failureVerdict s \<noteq> ''''"
  using failureVerdict_range [of s] by (auto simp: verdict_defs)

lemma verdict_distinct [simp]:
  "VerdictWrong \<noteq> VerdictAccepted" "VerdictAccepted \<noteq> VerdictWrong" "VerdictWrong \<noteq> ''''"
  "VerdictPartial \<noteq> VerdictAccepted" "VerdictSkipped \<noteq> VerdictAccepted"
  by (simp_all add: verdict_defs)

lemma find_append: "find P (xs @ ys) = (case find P xs of None \<Rightarrow> find P ys | Some x \<Rightarrow> Some x)"
  by (induction xs) auto

lemma subtasks_failure_find: "subtasks_failure sts = find failing (concat (map sdTestcases sts))"
  by (induction sts) (auto simp: find_append split: option.split)

lemma ICPCVerdict_accepted_iff: "ICPCVerdict d score mx = VerdictAccepted \<longleftrightarrow> accepted score mx"
  by (auto simp: ICPCVerdict_def accepted_def split: option.splits)

text \<open>
  The stored verdict and the ICPC aggregation agree: a task counts as
  solved exactly when one of the official submissions that were scored and compiled
  has the verdict accepted, whatever the details of the submissions are.
\<close>

theorem ICPC_solved_iff_accepted:
  "icSolved (ICPC subs mx) \<longleftrightarrow>
     (\<exists>s \<in> set subs. subOfficial s \<and> subScored s \<and> \<not> subCompileError s \<and>
        ICPCVerdict (det s) (subScore s) mx = VerdictAccepted)"
  by (auto simp: ICPC_prefix Let_def ICPCVerdict_accepted_iff accepts_def)

text \<open>
  The verdict shown for a scored submission is accepted with every point,
  partial with some, and otherwise names the first testcase that failed in the order of
  the details (subtask by subtask), skipped testcases left aside; a submission with no
  points is never shown as accepted, partial or skipped.
\<close>

theorem Verdict_of_ICPCVerdict:
  "Verdict (ICPCVerdict d score mx) score mx =
     (if accepted score mx then VerdictAccepted
      else if score > eps then VerdictPartial
      else (case find failing (concat (map sdTestcases (dSubtasks d)) @ dTestcases d) of
              None \<Rightarrow> VerdictWrong
            | Some tc \<Rightarrow> failureVerdict (tdStatus tc)))"
  by (auto simp: Verdict_def ICPCVerdict_def accepted_def find_append subtasks_failure_find split: option.splits)

text \<open>
  A subtask shown with the failure of a testcase shows one of a testcase of
  its own that ran and did not pass; skipped testcases are never blamed. (The verdict is
  accepted, partial, a failure of such a testcase, or wrong.)
\<close>

theorem SubtaskVerdict_failure:
  "SubtaskVerdict st \<in> {VerdictAccepted, VerdictPartial, VerdictWrong} \<or>
     (\<exists>tc \<in> set (sdTestcases st). failing tc \<and> SubtaskVerdict st = failureVerdict (tdStatus tc))"
proof -
  have "subtask_failure tcs \<in> {VerdictAccepted, VerdictWrong} \<or>
     (\<exists>tc \<in> set tcs. failing tc \<and> subtask_failure tcs = failureVerdict (tdStatus tc))" for tcs
    by (induction tcs) (auto simp: TestcaseVerdict_def failing_def split: if_splits)
  from this [of "sdTestcases st"] show ?thesis by (auto simp: SubtaskVerdict_def)
qed

end
