(* ===== verification/Score_Editor.thy ===== *)
theory Score_Editor
  imports Score_Types
begin

text \<open>
  The editor view of group parameters (\<^verbatim>\<open>src/internal/scoring/editor.go\<close>): subtask
  specifications, their encoding and decoding, and the preview of the testcases
  each subtask selects.

  \<^verbatim>\<open>strconv.FormatFloat(x, 'f', -1, 64)\<close> prints a decimal that reads back as \<open>x\<close>;
  of these literals the model takes the one with the exact value of \<open>x\<close>, an integer
  literal for a whole number. The preview indexes slices with computed
  positions, so it may panic: \<^term>\<open>Inl k\<close> is a panic on index \<open>k\<close>.
\<close>

section \<open>Data\<close>

record SubtaskSpec =
  spMaxScore :: f64
  spMode :: string
  spRegex :: string
  spList :: "string list"
  spCount :: int
  spThreshold :: "f64 option"

record SubtaskMatch =
  smTestcases :: "string list"
  smError :: "score_error option"

record Coverage =
  covSubtasks :: "SubtaskMatch list"
  covTotal :: f64
  covUncovered :: "string list"
  covShared :: "string list"

section \<open>Operations\<close>

definition parse_spec :: "nat \<Rightarrow> groupParam \<Rightarrow> (score_error, SubtaskSpec) result" where
  "parse_spec i p =
     (let sp = \<lparr>spMaxScore = gpMaxScore p, spMode = '''', spRegex = '''', spList = [], spCount = 0,
                spThreshold = gpThreshold p\<rparr>
      in case gpTestcases p of
           None \<Rightarrow> Inl (BadTestcases (i + 1))
         | Some j \<Rightarrow>
             (case to_int j of
                Some n \<Rightarrow> Inr (sp\<lparr>spMode := ''count'', spCount := n\<rparr>)
              | None \<Rightarrow>
                  (case to_string j of
                     Some r \<Rightarrow> Inr (sp\<lparr>spMode := ''regex'', spRegex := r\<rparr>)
                   | None \<Rightarrow>
                       (case to_strings j of
                          Some l \<Rightarrow> Inr (sp\<lparr>spMode := ''list'', spList := l\<rparr>)
                        | None \<Rightarrow> Inl (BadTestcases (i + 1))))))"

fun parse_specs :: "nat \<Rightarrow> groupParam list \<Rightarrow> (score_error, SubtaskSpec list) result" where
  "parse_specs i [] = Inr []"
| "parse_specs i (p # ps) =
     bind_result (parse_spec i p) (\<lambda>sp. bind_result (parse_specs (i + 1) ps) (\<lambda>sps. Inr (sp # sps)))"

definition ParseSubtasks :: "json option \<Rightarrow> (score_error, SubtaskSpec list) result" where
  "ParseSubtasks raw = bind_result (parseGroupParams raw) (parse_specs 0)"

definition testcasesJSON :: "SubtaskSpec \<Rightarrow> json" where
  "testcasesJSON sp =
     (if spMode sp = ''count'' then JInt (spCount sp)
      else if spMode sp = ''list'' then JArr (map JStr (spList sp))
      else JStr (spRegex sp))"

definition number_json :: "f64 \<Rightarrow> json" where
  "number_json x =
     (let q = rat_of_f64 x in if of_int \<lfloor>q\<rfloor> = q then JInt \<lfloor>q\<rfloor> else JDec q)"

definition encode_row :: "bool \<Rightarrow> SubtaskSpec \<Rightarrow> json list" where
  "encode_row withThreshold sp =
     [number_json (spMaxScore sp), testcasesJSON sp] @
     (if withThreshold then [number_json (case spThreshold sp of None \<Rightarrow> 1 | Some th \<Rightarrow> th)] else [])"

definition EncodeSubtasks :: "SubtaskSpec list \<Rightarrow> bool \<Rightarrow> json option" where
  "EncodeSubtasks specs withThreshold = Some (JArr (map (JArr \<circ> encode_row withThreshold) specs))"

text \<open>
  The loop of \<^verbatim>\<open>MatchSubtasks\<close> from subtask \<open>i\<close> and counter \<open>nxt\<close>: the match of each
  subtask with the positions it uses. An index outside of \<open>codes\<close> panics.
\<close>

definition match_error :: "nat \<Rightarrow> (score_error, int list \<times> int) result \<Rightarrow> score_error option" where
  "match_error i r =
     (case r of Inl e \<Rightarrow> Some e | Inr (ks, _) \<Rightarrow> if ks = [] then Some (MatchesNothing (i + 1)) else None)"

definition out_of_range :: "string list \<Rightarrow> int list \<Rightarrow> int option" where
  "out_of_range codes ks = find (\<lambda>k. k < 0 \<or> k \<ge> int (length codes)) ks"

fun match_loop :: "regexp \<Rightarrow> string list \<Rightarrow> nat \<Rightarrow> int \<Rightarrow> SubtaskSpec list \<Rightarrow>
    (int, (SubtaskMatch \<times> nat list) list) result" where
  "match_loop re codes i nxt [] = Inr []"
| "match_loop re codes i nxt (sp # sps) =
     (let r = members re i (Some (testcasesJSON sp)) codes nxt;
          (ks, nxt') = (case r of Inl _ \<Rightarrow> ([], nxt) | Inr v \<Rightarrow> v)
      in case out_of_range codes ks of
           Some k \<Rightarrow> Inl k
         | None \<Rightarrow>
             bind_result (match_loop re codes (i + 1) nxt' sps) (\<lambda>ms.
               Inr ((\<lparr>smTestcases = map (\<lambda>k. codes ! nat k) ks, smError = match_error i r\<rparr>, map nat ks) # ms)))"

definition use_counts :: "nat \<Rightarrow> nat list \<Rightarrow> nat list" where
  "use_counts n ks = foldl (\<lambda>uses k. uses[k := uses ! k + 1]) (replicate n 0) ks"

definition MatchSubtasks :: "regexp \<Rightarrow> SubtaskSpec list \<Rightarrow> string list \<Rightarrow> (int, Coverage) result" where
  "MatchSubtasks re specs codenames =
     (let codes = stable_sort (<) codenames
      in bind_result (match_loop re codes 0 0 specs) (\<lambda>ms.
           let uses = use_counts (length codes) (concat (map snd ms))
           in Inr \<lparr>covSubtasks = map fst ms,
                   covTotal = add_up (map spMaxScore specs),
                   covUncovered = map ((!) codes) (filter (\<lambda>k. uses ! k = 0) [0..<length codes]),
                   covShared = map ((!) codes) (filter (\<lambda>k. uses ! k > 1) [0..<length codes])\<rparr>))"

section \<open>Round trip\<close>

text \<open>The specifications the parser can produce: a mode, and only its own field set.\<close>

definition wf_spec :: "bool \<Rightarrow> SubtaskSpec \<Rightarrow> bool" where
  "wf_spec withThreshold sp \<longleftrightarrow>
     (spMode sp = ''count'' \<and> in_i64 (spCount sp) \<and> spRegex sp = '''' \<and> spList sp = []
      \<or> spMode sp = ''list'' \<and> spCount sp = 0 \<and> spRegex sp = ''''
      \<or> spMode sp = ''regex'' \<and> spCount sp = 0 \<and> spList sp = [])
     \<and> (spThreshold sp \<noteq> None \<longleftrightarrow> withThreshold)"

lemma to_float_number_json [simp]: "to_float (number_json x) = Some x"
  by (auto simp: number_json_def Let_def) (metis f64_rat_of_f64)

definition spec_param :: "bool \<Rightarrow> SubtaskSpec \<Rightarrow> groupParam" where
  "spec_param withThreshold sp =
     \<lparr>gpMaxScore = spMaxScore sp, gpTestcases = Some (testcasesJSON sp),
      gpThreshold = (if withThreshold then Some (case spThreshold sp of None \<Rightarrow> 1 | Some th \<Rightarrow> th) else None)\<rparr>"

lemma spec_param_simps [simp]:
  "gpMaxScore (spec_param w sp) = spMaxScore sp"
  "gpTestcases (spec_param w sp) = Some (testcasesJSON sp)"
  "gpThreshold (spec_param w sp) = None \<longleftrightarrow> \<not> w"
  by (simp_all add: spec_param_def)

lemma row_param_encode: "row_param i (encode_row w sp) = Inr (spec_param w sp)"
  by (simp add: row_param_def encode_row_def spec_param_def)

lemma row_params_encode: "row_params i (map (encode_row w) specs) = Inr (map (spec_param w) specs)"
  by (induction specs arbitrary: i) (simp_all add: row_param_encode)

lemma parseGroupParams_Encode: "parseGroupParams (EncodeSubtasks specs w) = Inr (map (spec_param w) specs)"
proof -
  have "raw_rows (JArr (map (JArr \<circ> encode_row w) specs)) = Some (map (encode_row w) specs)"
    by (simp add: all_some_Some o_def)
  then show ?thesis
    unfolding parseGroupParams_def EncodeSubtasks_def by (simp add: row_params_encode del: raw_rows.simps)
qed

lemma all_some_map_to_string [simp]: "all_some (map (to_string \<circ> JStr) l) = Some l"
  by (simp add: all_some_Some o_def)

lemma parse_spec_wf: "wf_spec w sp \<Longrightarrow> parse_spec i (spec_param w sp) = Inr sp"
  by (cases sp) (auto simp: wf_spec_def parse_spec_def spec_param_def testcasesJSON_def Let_def split: option.splits)

lemma parse_specs_wf: "list_all (wf_spec w) specs \<Longrightarrow> parse_specs i (map (spec_param w) specs) = Inr specs"
  by (induction specs arbitrary: i) (simp_all add: parse_spec_wf)


text \<open>Example specifications.\<close>

definition ex_count :: "f64 \<Rightarrow> int \<Rightarrow> SubtaskSpec" where
  "ex_count m n = \<lparr>spMaxScore = m, spMode = ''count'', spRegex = '''', spList = [], spCount = n, spThreshold = None\<rparr>"

definition ex_list :: "f64 \<Rightarrow> string list \<Rightarrow> SubtaskSpec" where
  "ex_list m cs = \<lparr>spMaxScore = m, spMode = ''list'', spRegex = '''', spList = cs, spCount = 0, spThreshold = None\<rparr>"


section \<open>The preview\<close>

definition match_of :: "string list \<Rightarrow> nat list \<Rightarrow> SubtaskMatch" where
  "match_of codes ks = \<lparr>smTestcases = map ((!) codes) ks, smError = None\<rparr>"

lemma out_of_range_None: "out_of_range codes ks = None \<longleftrightarrow> (\<forall>k \<in> set ks. 0 \<le> k \<and> k < int (length codes))"
  by (auto simp: out_of_range_def find_None_iff)

lemma match_loop_group:
  assumes "group_subtasks re kd defs i nxt (map (spec_param w) specs) = Inr sds"
    and "0 \<le> nxt" "nxt \<le> int (length defs)" "int (length defs) < 2 ^ 63"
  shows "match_loop re (map codename defs) i nxt specs =
      Inr (map (\<lambda>st. (match_of (map codename defs) (grpMembers st), grpMembers st)) sds)
    \<and> map maxScore sds = map spMaxScore specs"
  using assms
proof (induction specs arbitrary: i nxt sds)
  case (Cons sp sps)
  let ?codes = "map codename defs"
  from Cons.prems(1) obtain ks nxt' rest where r:
    "members re i (Some (testcasesJSON sp)) ?codes nxt = Inr (ks, nxt')" "ks \<noteq> []"
    "group_subtasks re kd defs (i + 1) nxt' (map (spec_param w) sps) = Inr rest"
    "map maxScore sds = spMaxScore sp # map maxScore rest" "map grpMembers sds = map nat ks # map grpMembers rest"
    by (auto simp: bind_result_eq_Inr split: if_splits)
  have b: "\<forall>k \<in> set ks. 0 \<le> k \<and> k < int (length ?codes)" "0 \<le> nxt'" "nxt' \<le> int (length defs)"
    using members_bound [OF r(1,2)] Cons.prems by auto
  then have o: "out_of_range ?codes ks = None" by (simp add: out_of_range_None)
  note ih = Cons.IH [OF r(3) b(2,3) Cons.prems(4)]
  have c: "map (\<lambda>st. (match_of ?codes (grpMembers st), grpMembers st)) sds
      = map (\<lambda>ks. (match_of ?codes ks, ks)) (map grpMembers sds)" for sds by simp
  have "map (\<lambda>st. (match_of ?codes (grpMembers st), grpMembers st)) sds
      = (match_of ?codes (map nat ks), map nat ks) # map (\<lambda>st. (match_of ?codes (grpMembers st), grpMembers st)) rest"
    by (simp only: c r(5) list.map)
  with ih o r(1,2,4) show ?case by (simp add: match_error_def match_of_def o_def)
qed simp

lemma group_match_loop:
  assumes "match_loop re (map codename defs) i nxt specs = Inr ms"
    and "list_all (\<lambda>m. smError (fst m) = None) ms"
    and "list_all (\<lambda>sp. 0 \<le> spMaxScore sp) specs"
  shows "\<exists>sds. group_subtasks re kd defs i nxt (map (spec_param (kd = ''GroupThreshold'')) specs) = Inr sds"
  using assms
proof (induction specs arbitrary: i nxt ms)
  case (Cons sp sps)
  let ?r = "members re i (Some (testcasesJSON sp)) (map codename defs) nxt"
  obtain ks nxt' where k: "(case ?r of Inl _ \<Rightarrow> ([], nxt) | Inr v \<Rightarrow> v) = (ks, nxt')" by fastforce
  from Cons.prems(1) obtain ms' where m: "match_loop re (map codename defs) (i + 1) nxt' sps = Inr ms'"
    and ms: "ms = (\<lparr>smTestcases = map (\<lambda>k. map codename defs ! nat k) ks, smError = match_error i ?r\<rparr>, map nat ks) # ms'"
    by (auto simp: k Let_def bind_result_eq_Inr split: option.splits)
  from ms Cons.prems(2) have "match_error i ?r = None" "list_all (\<lambda>m. smError (fst m) = None) ms'" by auto
  with k have "?r = Inr (ks, nxt')" "ks \<noteq> []" by (cases ?r; auto simp: match_error_def split: if_splits)+
  moreover obtain sds where "group_subtasks re kd defs (i + 1) nxt' (map (spec_param (kd = ''GroupThreshold'')) sps) = Inr sds"
    using Cons.IH [OF m] Cons.prems(3) \<open>list_all _ ms'\<close> by auto
  ultimately show ?case using Cons.prems(3) by auto
qed simp

text \<open>The uses counted per position.\<close>

lemma use_counts_nth:
  assumes "list_all (\<lambda>k. k < n) ks" "j < n"
  shows "use_counts n ks ! j = count_list ks j"
proof -
  have "j < length us \<Longrightarrow> list_all (\<lambda>k. k < length us) ks \<Longrightarrow>
      foldl (\<lambda>uses k. uses[k := uses ! k + 1]) us ks ! j = us ! j + count_list ks j" for us :: "nat list"
    by (induction ks arbitrary: us) (auto simp: nth_list_update)
  from this [of "replicate n 0"] assms show ?thesis by (simp add: use_counts_def)
qed

lemma nth_image_diff:
  assumes "distinct xs" "K \<subseteq> {..<length xs}"
  shows "(!) xs ` ({..<length xs} - K) = set xs - (!) xs ` K"
proof -
  have "inj_on ((!) xs) {..<length xs}" using assms(1) by (simp add: inj_on_nth)
  from inj_on_image_set_diff [OF this _ assms(2)] show ?thesis
    using nth_image [of "length xs" xs] by (simp add: lessThan_atLeast0)
qed

lemma codes_of_defs:
  assumes "length codenames = length publics"
  shows "map codename (stable_sort (\<lambda>a b. codename a < codename b)
      (map2 (\<lambda>c p. \<lparr>codename = c, public = p\<rparr>) codenames publics)) = stable_sort (<) codenames"
proof -
  let ?d = "map2 (\<lambda>c p. \<lparr>codename = c, public = p\<rparr>) codenames publics"
  have "map codename ?d = codenames" using assms by (simp add: o_def case_prod_beta)
  then have "mset (map codename (stable_sort (\<lambda>a b. codename a < codename b) ?d)) = mset codenames"
    by (metis mset_map mset_stable_sort)
  then show ?thesis unfolding stable_sort_less
    by (rule properties_for_sort [symmetric]) (rule sorted_stable_sort_key)
qed

text \<open>The testcases of each subtask of a group, by codename.\<close>

definition group_testcases :: "group \<Rightarrow> string list list" where
  "group_testcases g = map (\<lambda>st. map (\<lambda>k. codename (grpDefs g ! k)) (grpMembers st)) (subtasks g)"

lemma MatchSubtasks_of_group:
  assumes "newGroup re kd (EncodeSubtasks specs w) defs p = Inr g"
    and "stable_sort (<) codenames = map codename defs" and "int (length defs) < 2 ^ 63"
  shows "\<exists>cov. MatchSubtasks re specs codenames = Inr cov
    \<and> list_all (\<lambda>m. smError m = None) (covSubtasks cov)
    \<and> map smTestcases (covSubtasks cov) = group_testcases g
    \<and> round_score (covTotal cov) p = group_MaxScore g
    \<and> set (covUncovered cov) = (!) (map codename defs) ` ({..<length defs} - (\<Union>st \<in> set (subtasks g). set (grpMembers st)))"
proof -
  from assms(1) obtain sds where sds: "group_subtasks re kd defs 0 0 (map (spec_param w) specs) = Inr sds"
    and g: "g = \<lparr>kind = kd, subtasks = sds, grpDefs = defs, grpPrecision = p\<rparr>"
    by (auto simp: newGroup_def parseGroupParams_Encode bind_result_eq_Inr split: if_splits)
  note wf = group_subtasks_wf [OF sds _ _ assms(3)]
  note m = match_loop_group [OF sds _ _ assms(3)]
  have rng: "list_all (\<lambda>k. k < length defs) (concat (map grpMembers sds))"
    using wf by (auto simp: list_all_iff wf_subtask_def)
  have "map smTestcases (map (\<lambda>st. match_of (map codename defs) (grpMembers st)) sds) = group_testcases g"
    using wf by (auto simp: g group_testcases_def match_of_def wf_subtask_def)
  moreover have "map spMaxScore specs = map maxScore (subtasks g)" using m by (simp add: g)
  moreover have "use_counts (length defs) (concat (map grpMembers sds)) ! k = 0 \<longleftrightarrow> (\<forall>st \<in> set sds. k \<notin> set (grpMembers st))"
    if "k < length defs" for k
    using use_counts_nth [OF rng that] by (auto simp: count_list_0_iff)
  then have "set (map ((!) (map codename defs)) (filter (\<lambda>k. use_counts (length defs) (concat (map grpMembers sds)) ! k = 0) [0..<length defs]))
      = (!) (map codename defs) ` ({..<length defs} - (\<Union>st \<in> set sds. set (grpMembers st)))"
    by (auto simp: image_def)
  ultimately show ?thesis using m
    by (auto simp: MatchSubtasks_def assms(2) Let_def g group_MaxScore_def group_SubtaskMaxScores_def o_def list_all_iff match_of_def)
qed

lemma group_of_MatchSubtasks:
  assumes "MatchSubtasks re specs codenames = Inr cov" "list_all (\<lambda>m. smError m = None) (covSubtasks cov)"
    and "stable_sort (<) codenames = map codename defs"
    and "specs \<noteq> []" "list_all (\<lambda>sp. 0 \<le> spMaxScore sp) specs"
  shows "\<exists>g. newGroup re kd (EncodeSubtasks specs (kd = ''GroupThreshold'')) defs p = Inr g"
proof -
  from assms(1) [unfolded MatchSubtasks_def assms(3) Let_def bind_result_eq_Inr]
  obtain ms where ms: "match_loop re (map codename defs) 0 0 specs = Inr ms" and "covSubtasks cov = map fst ms"
    by (elim exE conjE) (simp only: sum.inject, fastforce)
  then have "list_all (\<lambda>m. smError (fst m) = None) ms"
    using assms(2) by (simp add: list.pred_map o_def)
  from group_match_loop [OF ms this assms(5), of kd] obtain sds where
    "group_subtasks re kd defs 0 0 (map (spec_param (kd = ''GroupThreshold'')) specs) = Inr sds" by blast
  then have "newGroup re kd (EncodeSubtasks specs (kd = ''GroupThreshold'')) defs p =
      Inr \<lparr>kind = kd, subtasks = sds, grpDefs = defs, grpPrecision = p\<rparr>"
    using assms(4) by (simp only: newGroup_def parseGroupParams_Encode bind_result.simps map_is_Nil_conv if_False)
  then show ?thesis by blast
qed

text \<open>
  The preview of the editor agrees with the score type: for subtasks with
  non-negative scores, the preview ends without an error exactly when the score type
  accepts the encoded parameters, and then it shows for every subtask the testcases the
  score type gives it, the total that is the maximum score, and as uncovered exactly the
  testcases of no subtask.
\<close>

theorem MatchSubtasks_agrees:
  assumes "kd \<in> {''GroupMin'', ''GroupMul'', ''GroupThreshold''}"
    and "length codenames = length publics" "int (length codenames) < 2 ^ 63" "distinct codenames"
    and "specs \<noteq> []" "list_all (\<lambda>sp. 0 \<le> spMaxScore sp) specs"
  shows "((\<exists>cov. MatchSubtasks re specs codenames = Inr cov \<and> list_all (\<lambda>m. smError m = None) (covSubtasks cov))
      \<longleftrightarrow> (\<exists>g. New re kd (EncodeSubtasks specs (kd = ''GroupThreshold'')) codenames publics p = Inr (GroupType g)))
    \<and> (\<forall>g. New re kd (EncodeSubtasks specs (kd = ''GroupThreshold'')) codenames publics p = Inr (GroupType g) \<longrightarrow>
      (\<exists>cov. MatchSubtasks re specs codenames = Inr cov
        \<and> map smTestcases (covSubtasks cov) = group_testcases g
        \<and> round_score (covTotal cov) p = group_MaxScore g
        \<and> set (covUncovered cov) = set codenames - \<Union> (set ` set (group_testcases g))))"
proof -
  define defs where "defs = stable_sort (\<lambda>a b. codename a < codename b)
      (map2 (\<lambda>c p. \<lparr>codename = c, public = p\<rparr>) codenames publics)"
  have codes: "stable_sort (<) codenames = map codename defs"
    unfolding defs_def by (rule codes_of_defs [OF assms(2), symmetric])
  have len: "int (length defs) < 2 ^ 63" using assms(2,3) by (simp add: defs_def)
  have inj: "distinct (map codename defs)" "set codenames = codename ` set defs"
    using assms(4) codes by (metis distinct_stable_sort, metis set_map set_stable_sort)
  let ?P = "EncodeSubtasks specs (kd = ''GroupThreshold'')"
  have "kd \<noteq> ''Sum''" using assms(1) by auto
  then have new: "New re kd ?P codenames publics p = bind_result (newGroup re kd ?P defs p) (\<lambda>g. Inr (GroupType g))"
    using assms(1,2) by (simp only: New_def defs_def [symmetric] Let_def not_not refl if_True if_False simp_thms)
  have "\<exists>cov. MatchSubtasks re specs codenames = Inr cov
    \<and> list_all (\<lambda>m. smError m = None) (covSubtasks cov)
    \<and> map smTestcases (covSubtasks cov) = group_testcases g
    \<and> round_score (covTotal cov) p = group_MaxScore g
    \<and> set (covUncovered cov) = set codenames - \<Union> (set ` set (group_testcases g))"
    if g: "newGroup re kd ?P defs p = Inr g" for g
  proof -
    note wf = newGroup_wf [OF g len]
    let ?K = "\<Union>st \<in> set (subtasks g). set (grpMembers st)"
    have K: "?K \<subseteq> {..<length (map codename defs)}" using wf by (auto simp: wf_group_def wf_subtask_def)
    have "(!) (map codename defs) ` ?K = \<Union> (set ` set (group_testcases g))"
      using wf K by (auto simp: group_testcases_def image_UN subset_iff)
    with nth_image_diff [OF inj(1) K] MatchSubtasks_of_group [OF g codes len] inj(2) show ?thesis by simp
  qed
  moreover have "\<exists>g. newGroup re kd ?P defs p = Inr g"
    if "MatchSubtasks re specs codenames = Inr cov" "list_all (\<lambda>m. smError m = None) (covSubtasks cov)" for cov
    using group_of_MatchSubtasks [OF that codes assms(5,6)] .
  ultimately show ?thesis unfolding new by (auto simp: bind_result_eq_Inr)
qed

theorem MatchSubtasks_agrees_witness:
  "\<exists>cov. MatchSubtasks (\<lambda>_. None) [ex_count (f64 40) 1, ex_list (f64 60) [''c'', ''b'']] [''c'', ''a'', ''b''] = Inr cov
     \<and> list_all (\<lambda>m. smError m = None) (covSubtasks cov)"
proof -
  let ?specs = "[ex_count (f64 40) 1, ex_list (f64 60) [''c'', ''b'']]"
  have n: "0 \<le> f64 40" "0 \<le> f64 60" by code_simp+
  have g: "\<exists>g. New (\<lambda>_. None) ''GroupMin'' (EncodeSubtasks ?specs False) [''c'', ''a'', ''b''] [True, True, True] 0 = Inr (GroupType g)"
  proof
    show "New (\<lambda>_. None) ''GroupMin'' (EncodeSubtasks ?specs False) [''c'', ''a'', ''b''] [True, True, True] 0 = Inr (GroupType
      \<lparr>kind = ''GroupMin'', subtasks =
        [\<lparr>maxScore = f64 40, threshold = 0, grpMembers = [0], grpPublic = True\<rparr>,
         \<lparr>maxScore = f64 60, threshold = 0, grpMembers = [2, 1], grpPublic = True\<rparr>],
       grpDefs = map (\<lambda>c. \<lparr>codename = c, public = True\<rparr>) [''a'', ''b'', ''c''], grpPrecision = 0\<rparr>)"
      by code_simp
  qed
  have e: "(''GroupMin'' = ''GroupThreshold'') = False" by simp
  show ?thesis
    using MatchSubtasks_agrees [of "''GroupMin''" "[''c'', ''a'', ''b'']" "[True, True, True]" ?specs "\<lambda>_. None" 0] n g
    unfolding e by (simp add: ex_count_def ex_list_def)
qed

text \<open>
  The preview can crash: after a count that overflows the position counter
  (nothing is selected, an error is shown) the counter is negative, and a further small
  count indexes the codenames at a negative position, a run-time panic. The score type
  itself rejects such parameters.
\<close>

theorem MatchSubtasks_panics:
  "MatchSubtasks (\<lambda>_. None) [ex_count 1 1, ex_count 1 (2 ^ 63 - 1), ex_count 1 1] [''a''] = Inl (- (2 ^ 63))
   \<and> New (\<lambda>_. None) ''GroupMin'' (EncodeSubtasks [ex_count 1 1, ex_count 1 (2 ^ 63 - 1), ex_count 1 1] False) [''a''] [True] 0
       = Inl (MatchesNothing 2)"
  by code_simp

end
