(* ===== verification/Rank_Order.thy ===== *)
theory Rank_Order
  imports Score_Modes "HOL-Library.Product_Lexorder"
begin

text \<open>
  The order of a scoreboard (\<^verbatim>\<open>compareRows\<close>, \<^verbatim>\<open>cmpReached\<close> and \<^verbatim>\<open>reachedTime\<close> of
  \<^verbatim>\<open>src/internal/ranking/ranking.go\<close>) and the numbering of ranks that
  \<^verbatim>\<open>Ranking.sort\<close>, \<^verbatim>\<open>Ranking.places\<close> and \<^verbatim>\<open>Board.rerank\<close> share. The locale \<open>rank_order\<close>
  states what they need of a comparison; it is interpreted for the rows of a ranking and
  for the rows of a board in their theories.

  Totals are compared up to \<^verbatim>\<open>1e-9\<close>, which is no order on arbitrary numbers; on totals
  rounded to at most eight decimals and not larger than a million it is (\<open>rankable\<close>).
\<close>

section \<open>Operations\<close>

definition cmpReached :: "int option \<Rightarrow> int option \<Rightarrow> int" where
  "cmpReached a b =
     (case (a, b) of
        (None, None) \<Rightarrow> 0
      | (None, Some _) \<Rightarrow> 1
      | (Some _, None) \<Rightarrow> -1
      | (Some x, Some y) \<Rightarrow> if x < y then -1 else if x > y then 1 else 0)"

definition compareRows :: "bool \<Rightarrow> string \<Rightarrow> f64 \<Rightarrow> f64 \<Rightarrow> int \<Rightarrow> int \<Rightarrow> int \<Rightarrow> int \<Rightarrow> int option \<Rightarrow> int option \<Rightarrow> int" where
  "compareRows icpc tieBreak totalA totalB solvedA solvedB penA penB reachedA reachedB =
     (let tie = (if tieBreak = ''time'' then cmpReached reachedA reachedB else 0)
      in if icpc then
           (if solvedA \<noteq> solvedB then wrap64 (solvedB - solvedA)
            else if penA \<noteq> penB then wrap64 (penA - penB)
            else tie)
         else
           (if totalA > totalB + eps then -1
            else if totalB > totalA + eps then 1
            else tie))"

text \<open>The latest time among the cells that count, given as score, solved and elapsed seconds.\<close>

definition reachedTime :: "bool \<Rightarrow> (f64 \<times> bool \<times> int) list \<Rightarrow> int option" where
  "reachedTime icpc cells =
     (let t = foldl (\<lambda>t (score, solved, elapsed).
                if (icpc \<and> solved \<or> \<not> icpc \<and> score > 0) \<and> elapsed > t then elapsed else t) (-1) cells
      in if t < 0 then None else Some t)"

text \<open>Ranks of rows in order: the previous rank for an equal row, else the position.\<close>

fun rank_loop :: "('a \<Rightarrow> 'a \<Rightarrow> int) \<Rightarrow> nat \<Rightarrow> ('a \<times> nat) option \<Rightarrow> 'a list \<Rightarrow> nat list" where
  "rank_loop cmp i prev [] = []"
| "rank_loop cmp i prev (x # xs) =
     (let rk = (case prev of
                  None \<Rightarrow> i + 1
                | Some (y, k) \<Rightarrow> if cmp y x = 0 then k else i + 1)
      in rk # rank_loop cmp (i + 1) (Some (x, rk)) xs)"

text \<open>The sort of the rows: by the comparison, equal rows by name.\<close>

definition row_less :: "('a \<Rightarrow> 'a \<Rightarrow> int) \<Rightarrow> ('a \<Rightarrow> string) \<Rightarrow> 'a \<Rightarrow> 'a \<Rightarrow> bool" where
  "row_less cmp nm a b = (if cmp a b \<noteq> 0 then cmp a b < 0 else nm a < nm b)"

section \<open>The contract of a comparison\<close>

lemma stable_sort_cong:
  assumes "\<And>x y. x \<in> set xs \<Longrightarrow> y \<in> set xs \<Longrightarrow> lt x y = lt' x y"
  shows "stable_sort lt xs = stable_sort lt' xs"
proof -
  have ins: "ins_left lt x ys = ins_left lt' x ys" if "x \<in> set xs" "set ys \<subseteq> set xs" for x ys
    using that(2) by (induction ys) (auto simp: assms [OF that(1)])
  have "foldl (\<lambda>acc x. ins_left lt x acc) acc zs = foldl (\<lambda>acc x. ins_left lt' x acc) acc zs"
    if "set zs \<subseteq> set xs" "set acc \<subseteq> set xs" for acc zs
    using that by (induction zs arbitrary: acc) (auto simp: ins)
  from this [of xs "[]"] show ?thesis by (simp add: stable_sort_def)
qed

locale rank_order =
  fixes cmp :: "'a \<Rightarrow> 'a \<Rightarrow> int" and key :: "'a \<Rightarrow> 'k::linorder" and nm :: "'a \<Rightarrow> string" and ok :: "'a \<Rightarrow> bool"
  assumes cmp_less: "ok a \<Longrightarrow> ok b \<Longrightarrow> cmp a b < 0 \<longleftrightarrow> key a < key b"
    and cmp_eq: "ok a \<Longrightarrow> ok b \<Longrightarrow> cmp a b = 0 \<longleftrightarrow> key a = key b"
begin

lemma row_less_key: "ok a \<Longrightarrow> ok b \<Longrightarrow> row_less cmp nm a b \<longleftrightarrow> (key a, nm a) < (key b, nm b)"
  using cmp_less [of a b] cmp_eq [of a b] by (auto simp: row_less_def)

lemma sort_key:
  assumes "\<forall>x \<in> set xs. ok x"
  shows "sorted (map (\<lambda>x. (key x, nm x)) (stable_sort (row_less cmp nm) xs))"
proof -
  have "stable_sort (row_less cmp nm) xs = stable_sort (\<lambda>a b. (key a, nm a) < (key b, nm b)) xs"
    by (rule stable_sort_cong) (use assms row_less_key in auto)
  then show ?thesis using sorted_stable_sort_key [of "\<lambda>x. (key x, nm x)" xs] by simp
qed

lemma sorted_rows:
  assumes "\<forall>x \<in> set xs. ok x"
  shows "sorted (map key (stable_sort (row_less cmp nm) xs))"
proof -
  have "sorted (map fst (map (\<lambda>x. (key x, nm x)) (stable_sort (row_less cmp nm) xs)))"
    by (rule sorted_map_mono [OF sort_key [OF assms]]) (auto simp: monotone_on_def)
  then show ?thesis by (simp add: o_def)
qed

abbreviation better_than :: "'a list \<Rightarrow> 'a \<Rightarrow> nat" where
  "better_than xs x \<equiv> length (filter (\<lambda>y. key y < key x) xs)"

lemma rank_loop_from:
  assumes "sorted (map key (zs @ xs))" "\<forall>x \<in> set (zs @ xs). ok x"
    and "prev = (if zs = [] then None else Some (last zs, 1 + better_than (zs @ xs) (last zs)))"
  shows "rank_loop cmp (length zs) prev xs = map (\<lambda>x. 1 + better_than (zs @ xs) x) xs"
  using assms
proof (induction xs arbitrary: zs prev)
  case (Cons x xs)
  let ?all = "zs @ x # xs"
  have sz: "\<forall>z \<in> set zs. key z \<le> key x" and sx: "\<forall>y \<in> set xs. key x \<le> key y"
    using Cons.prems(1) by (auto simp: sorted_append)
  have nx: "filter (\<lambda>y. key y < key x) (x # xs) = []" using sx by (auto simp: filter_empty_conv)
  have "(case prev of None \<Rightarrow> length zs + 1 | Some (y, k) \<Rightarrow> if cmp y x = 0 then k else length zs + 1)
      = 1 + better_than ?all x"
  proof (cases "zs = []")
    case True
    then show ?thesis using Cons.prems(3) nx by simp
  next
    case False
    let ?y = "last zs"
    have y: "?y \<in> set zs" using False by simp
    show ?thesis
    proof (cases "key ?y = key x")
      case True
      then have "cmp ?y x = 0" using cmp_eq Cons.prems(2) y by auto
      then show ?thesis using Cons.prems(3) False True by simp
    next
      case neq: False
      then have "cmp ?y x \<noteq> 0" using cmp_eq Cons.prems(2) y by auto
      moreover have "key ?y < key x" using neq sz y by (auto simp: order.strict_iff_order)
      moreover have "\<forall>z \<in> set zs. key z \<le> key ?y"
        using Cons.prems(1) False by (cases zs rule: rev_cases) (auto simp: sorted_append)
      ultimately have "filter (\<lambda>z. key z < key x) zs = zs"
        by (intro filter_all_id) (auto intro: order_le_less_trans)
      then show ?thesis using Cons.prems(3) False nx \<open>cmp ?y x \<noteq> 0\<close> by simp
    qed
  qed
  moreover have "rank_loop cmp (length (zs @ [x])) (Some (x, 1 + better_than ?all x)) xs
      = map (\<lambda>w. 1 + better_than ((zs @ [x]) @ xs) w) xs"
    by (rule Cons.IH) (use Cons.prems in auto)
  ultimately show ?case by (simp add: Let_def)
qed simp

lemma rank_loop_better:
  "sorted (map key xs) \<Longrightarrow> \<forall>x \<in> set xs. ok x \<Longrightarrow> rank_loop cmp 0 None xs = map (\<lambda>x. 1 + better_than xs x) xs"
  using rank_loop_from [of "[]" xs None] by simp

end

section \<open>The comparison is an order on rounded totals\<close>

text \<open>The rounding error of values below \<open>2 ^ 20\<close>.\<close>

lemma rnd64_error:
  assumes "\<bar>x\<bar> < 2 ^ 20"
  shows "\<bar>rnd64 x - x\<bar> \<le> 1 / 2 ^ 34"
proof (cases "x = 0")
  case False
  let ?e = "ulp_exp x"
  have "ilog2 \<bar>x\<bar> < 20" using False assms ilog2_less_iff [of "\<bar>x\<bar>" 20] by simp
  then have "?e \<le> -33" by (simp add: ulp_exp_def)
  then have e: "pow2 ?e \<le> pow2 (-33)" by (rule pow2_mono)
  have "\<bar>of_int (rne (x / pow2 ?e)) - x / pow2 ?e\<bar> * pow2 ?e \<le> 1 / 2 * pow2 ?e"
    by (intro mult_right_mono rne_near) simp
  moreover have "\<bar>of_int (rne (x / pow2 ?e)) - x / pow2 ?e\<bar> * pow2 ?e = \<bar>rnd64 x - x\<bar>"
    using False by (simp add: rnd64_grid grid_def abs_mult [symmetric, of _ "pow2 ?e", simplified] left_diff_distrib flip: abs_mult_pos')
  ultimately show ?thesis using e by (simp add: power_int_minus field_simps)
qed simp

definition rankable :: "nat \<Rightarrow> f64 \<Rightarrow> int \<Rightarrow> int \<Rightarrow> bool" where
  "rankable p tot solved penalty \<longleftrightarrow> p \<le> 8 \<and> (\<exists>v. tot = round_score v p)
     \<and> \<bar>rat_of_f64 tot\<bar> \<le> 1000000 \<and> \<bar>solved\<bar> < 2 ^ 62 \<and> \<bar>penalty\<bar> < 2 ^ 62"

lemma rat_of_round_score:
  assumes "p \<le> 8"
  shows "\<exists>m :: int. rat_of_f64 (round_score v p) = rnd64 (rnd64 (of_int m) / 10 ^ p)"
proof -
  have "\<bar>10 ^ p :: int\<bar> \<le> 2 ^ 53" 
    using power_increasing [OF assms, of "10 :: int"] by simp
  then have "rnd64 (10 ^ p) = 10 ^ p" using rnd64_of_int [of "10 ^ p"] by simp
  then show ?thesis
    by (auto simp: round_score_def Let_def math_Round_def math_Pow10_def divide_f64.rep_eq f64.rep_eq)
qed

text \<open>
  Two different rounded totals differ by almost \<open>10 ^ - p\<close>, far more than the tolerance,
  also after all roundings of the comparison itself.
\<close>

lemma rat_eps: "rat_of_f64 eps \<le> 11 / 10000000000"
  by code_simp

lemma rounded_total:
  assumes "p \<le> 8" "\<bar>rat_of_f64 (round_score v p)\<bar> \<le> 1000000"
  shows "\<exists>m :: int. rat_of_f64 (round_score v p) = rnd64 (of_int m / 10 ^ p) \<and> \<bar>of_int m / 10 ^ p :: rat\<bar> < 2 ^ 20"
proof -
  let ?x = "rat_of_f64 (round_score v p)" and ?P = "10 ^ p :: rat"
  obtain m :: int where m: "?x = rnd64 (rnd64 (of_int m) / ?P)"
    using rat_of_round_score [OF assms(1)] by metis
  have P: "1 \<le> ?P" "?P \<le> 10 ^ 8" using power_increasing [OF assms(1), of "10 :: rat"] by simp_all
  have big: "2 ^ 20 \<le> rnd64 y" if "2 ^ 20 \<le> y" for y
    using rnd64_mono [OF that] rnd64_of_int [of "2 ^ 20"] by simp
  have small: "\<bar>y\<bar> < 2 ^ 20" if "rnd64 y = ?x" for y
  proof (rule ccontr)
    assume "\<not> \<bar>y\<bar> < 2 ^ 20"
    then have "2 ^ 20 \<le> y \<or> 2 ^ 20 \<le> - y" by (auto simp: abs_if split: if_splits)
    then have "2 ^ 20 \<le> rnd64 y \<or> 2 ^ 20 \<le> rnd64 (- y)" using big by blast
    then show False using assms(2) that by (auto simp: rnd64_uminus)
  qed
  have M: "\<bar>rnd64 (of_int m) / ?P\<bar> < 2 ^ 20" using small m by metis
  have "\<bar>m\<bar> \<le> 2 ^ 53"
  proof (rule ccontr)
    assume "\<not> \<bar>m\<bar> \<le> 2 ^ 53"
    then have "of_int (2 ^ 53) \<le> \<bar>of_int m :: rat\<bar>" by (metis less_imp_le not_le of_int_abs of_int_le_iff)
    then have "rnd64 (of_int (2 ^ 53)) \<le> \<bar>rnd64 (of_int m)\<bar>"
      using rnd64_mono [of "of_int (2 ^ 53)" "of_int m"] rnd64_mono [of "of_int (2 ^ 53)" "- of_int m"]
      by (auto simp: rnd64_uminus abs_if split: if_splits)
    then have "2 ^ 53 \<le> \<bar>rnd64 (of_int m)\<bar>" using rnd64_of_int [of "2 ^ 53"] by simp
    moreover have "\<bar>rnd64 (of_int m)\<bar> < 2 ^ 20 * ?P" using M P(1) by (simp add: abs_divide field_simps)
    ultimately show False using P(2) by simp
  qed
  then have "rnd64 (of_int m) = of_int m" by (rule rnd64_of_int)
  with m M show ?thesis by auto
qed

lemma separation_arith:
  fixes a b x y r e q :: rat
  assumes "a + q \<le> b" "1 / 10 ^ 8 \<le> q" "\<bar>x - a\<bar> \<le> 1 / 2 ^ 34" "\<bar>y - b\<bar> \<le> 1 / 2 ^ 34"
    "\<bar>r - (x + e)\<bar> \<le> 1 / 2 ^ 34" "e \<le> 11 / 10000000000"
  shows "r < y"
proof -
  have "x \<le> a + 1 / 2 ^ 34" "b - 1 / 2 ^ 34 \<le> y" "r \<le> x + e + 1 / 2 ^ 34"
    using assms(3-5) by (simp_all only: abs_le_iff) linarith+
  then show ?thesis using assms(1,2,6) by simp
qed

lemma totals_separated:
  assumes "p \<le> 8" "\<bar>rat_of_f64 (round_score v p)\<bar> \<le> 1000000" "\<bar>rat_of_f64 (round_score w p)\<bar> \<le> 1000000"
    and "round_score v p < round_score w p"
  shows "round_score v p + eps < round_score w p"
proof -
  let ?x = "rat_of_f64 (round_score v p)" and ?y = "rat_of_f64 (round_score w p)" and ?P = "10 ^ p :: rat"
  obtain m n :: int where m: "?x = rnd64 (of_int m / ?P)" "\<bar>of_int m / ?P\<bar> < 2 ^ 20"
    and n: "?y = rnd64 (of_int n / ?P)" "\<bar>of_int n / ?P\<bar> < 2 ^ 20"
    using rounded_total assms(1-3) by metis
  have xy: "?x < ?y" using assms(4) by (simp add: f64_less_rat)
  have P: "1 \<le> ?P" "?P \<le> 10 ^ 8" using power_increasing [OF assms(1), of "10 :: rat"] by simp_all
  have "m < n"
  proof (rule ccontr)
    assume "\<not> m < n"
    then have "of_int n / ?P \<le> of_int m / ?P" using P by (intro divide_right_mono) auto
    then show False using rnd64_mono m n xy by fastforce
  qed
  then have "of_int m + 1 \<le> (of_int n :: rat)" by (metis of_int_1 of_int_add of_int_le_iff zless_imp_add1_zle)
  then have "of_int m / ?P + 1 / ?P \<le> of_int n / ?P"
    using P by (simp add: divide_right_mono flip: add_divide_distrib)
  moreover have "1 / 10 ^ 8 \<le> 1 / ?P" using P by (simp add: field_simps)
  moreover have "\<bar>?x - of_int m / ?P\<bar> \<le> 1 / 2 ^ 34" "\<bar>?y - of_int n / ?P\<bar> \<le> 1 / 2 ^ 34"
    using rnd64_error m n by auto
  moreover have "\<bar>rnd64 (?x + rat_of_f64 eps) - (?x + rat_of_f64 eps)\<bar> \<le> 1 / 2 ^ 34"
  proof (rule rnd64_error)
    have "0 \<le> rat_of_f64 eps" by code_simp
    then show "\<bar>?x + rat_of_f64 eps\<bar> < 2 ^ 20" using assms(2) rat_eps by simp
  qed
  ultimately have "rnd64 (?x + rat_of_f64 eps) < ?y" using rat_eps by (rule separation_arith)
  then show ?thesis by (simp add: f64_less_rat plus_f64.rep_eq)
qed

text \<open>The key a row is ranked by, in lexicographic order.\<close>

definition rank_key :: "bool \<Rightarrow> string \<Rightarrow> f64 \<Rightarrow> int \<Rightarrow> int \<Rightarrow> int option \<Rightarrow> rat \<times> int \<times> int \<times> int \<times> int" where
  "rank_key icpc tieBreak tot solved penalty rch =
     (if icpc then 0 else - rat_of_f64 tot,
      if icpc then - solved else 0,
      if icpc then penalty else 0,
      if tieBreak = ''time'' then (case rch of None \<Rightarrow> (1, 0) | Some t \<Rightarrow> (0, t)) else (0, 0))"

lemma cmpReached_key:
  "cmpReached a b < 0 \<longleftrightarrow> (case a of None \<Rightarrow> (1 :: int, 0) | Some t \<Rightarrow> (0, t)) < (case b of None \<Rightarrow> (1, 0) | Some t \<Rightarrow> (0, t))"
  "cmpReached a b = 0 \<longleftrightarrow> a = b"
  by (auto simp: cmpReached_def split: option.splits)

lemma compare_totals:
  assumes "rankable p tA sA qA" "rankable p tB sB qB"
  shows "tA > tB + eps \<longleftrightarrow> tA > tB"
proof -
  have "0 \<le> eps" by code_simp
  then have "tB \<le> tB + eps" by (rule f64.add_increases)
  then show ?thesis using assms totals_separated [of p] by (auto simp: rankable_def)
qed

lemma compareRows_key:
  assumes "rankable p tA sA qA" "rankable p tB sB qB"
  shows "compareRows icpc tb tA tB sA sB qA qB rA rB < 0 \<longleftrightarrow> rank_key icpc tb tA sA qA rA < rank_key icpc tb tB sB qB rB"
    and "compareRows icpc tb tA tB sA sB qA qB rA rB = 0 \<longleftrightarrow> rank_key icpc tb tA sA qA rA = rank_key icpc tb tB sB qB rB"
proof -
  note e = compare_totals [OF assms] compare_totals [OF assms(2,1)]
  have w: "wrap64 (sB - sA) = sB - sA" "wrap64 (qA - qB) = qA - qB"
    using assms by (auto simp: rankable_def in_i64_def intro!: wrap64_id)
  have t: "rat_of_f64 tA = rat_of_f64 tB \<longleftrightarrow> tA = tB" by (simp add: rat_of_f64_inject)
  have l: "tA < tB \<longleftrightarrow> rat_of_f64 tA < rat_of_f64 tB" "tB < tA \<longleftrightarrow> rat_of_f64 tB < rat_of_f64 tA" by (simp_all add: f64_less_rat)
  have r: "(case a of None \<Rightarrow> (1 :: int, 0 :: int) | Some t \<Rightarrow> (0, t)) = (case b of None \<Rightarrow> (1, 0) | Some t \<Rightarrow> (0, t)) \<longleftrightarrow> a = b" for a b
    by (auto split: option.splits)
  show "compareRows icpc tb tA tB sA sB qA qB rA rB < 0 \<longleftrightarrow> rank_key icpc tb tA sA qA rA < rank_key icpc tb tB sB qB rB"
    by (cases icpc; cases "tb = ''time''"; simp add: compareRows_def rank_key_def e w cmpReached_key Let_def l t; linarith?)
  show "compareRows icpc tb tA tB sA sB qA qB rA rB = 0 \<longleftrightarrow> rank_key icpc tb tA sA qA rA = rank_key icpc tb tB sB qB rB"
    by (cases icpc; cases "tb = ''time''"; simp add: compareRows_def rank_key_def e w cmpReached_key Let_def l t r; auto simp: rat_of_f64_inject)
qed

end
