(* ===== verification/Go_Strconv.thy ===== *)
theory Go_Strconv
  imports Prelude
begin

text \<open>
  Integers as decimal strings (\<^verbatim>\<open>strconv.Itoa\<close>, \<^verbatim>\<open>strconv.FormatInt\<close> in base 10 and
  the verb \<^verbatim>\<open>%d\<close>), which are injective, and Go maps filled in a loop.
\<close>

text \<open>\<^verbatim>\<open>strconv.Itoa\<close>: decimal digits, most significant first.\<close>

fun decimal_digits :: "int \<Rightarrow> int list" where
  "decimal_digits n = (if n < 10 then [n] else decimal_digits (n div 10) @ [n mod 10])"

declare decimal_digits.simps [simp del]

definition Itoa :: "int \<Rightarrow> string" where
  "Itoa n = (if n < 0 then ''-'' else '''') @ map (\<lambda>d. char_of (nat d + 48)) (decimal_digits \<bar>n\<bar>)"

lemma digits_value: "0 \<le> n \<Longrightarrow> foldl (\<lambda>a d. 10 * a + d) 0 (decimal_digits n) = n"
proof (induction n rule: decimal_digits.induct)
  case (1 n)
  then show ?case by (subst decimal_digits.simps) (auto simp: mult_div_mod_eq)
qed

lemma digits_range: "0 \<le> n \<Longrightarrow> d \<in> set (decimal_digits n) \<Longrightarrow> 0 \<le> d \<and> d < 10"
proof (induction n rule: decimal_digits.induct)
  case (1 n)
  then show ?case by (subst (asm) (2) decimal_digits.simps) (auto split: if_splits)
qed

definition digit_char :: "int \<Rightarrow> char" where
  "digit_char d = char_of (nat d + 48)"

lemma digit_code: "0 \<le> d \<Longrightarrow> d < 10 \<Longrightarrow> (of_char (digit_char d) :: nat) = nat d + 48"
  unfolding digit_char_def of_char_of by (subst mod_less) auto

lemma digit_char_inj: "inj_on digit_char {0..9}"
proof (rule inj_onI)
  fix x y :: int
  assume d: "x \<in> {0..9}" "y \<in> {0..9}" and "digit_char x = digit_char y"
  then have "nat x + 48 = nat y + 48" using digit_code [of x] digit_code [of y] by simp
  then show "x = y" using d by (simp add: nat_eq_iff)
qed

lemma digit_char_minus: "0 \<le> d \<Longrightarrow> d < 10 \<Longrightarrow> digit_char d \<noteq> CHR ''-''"
  using digit_code [of d] by auto

lemma Itoa_inject: "Itoa m = Itoa n \<Longrightarrow> m = n"
proof -
  assume eq: "Itoa m = Itoa n"
  have i: "Itoa k = (if k < 0 then ''-'' else '''') @ map digit_char (decimal_digits \<bar>k\<bar>)" for k
    by (simp add: Itoa_def digit_char_def [abs_def])
  have r: "set (decimal_digits \<bar>k\<bar>) \<subseteq> {0..9}" for k using digits_range [of "\<bar>k\<bar>"] by fastforce
  have ne: "\<exists>d ds. decimal_digits \<bar>k\<bar> = d # ds \<and> digit_char d \<noteq> CHR ''-''" for k
  proof -
    have "decimal_digits \<bar>k\<bar> \<noteq> []" by (subst decimal_digits.simps) simp
    moreover have "\<forall>d \<in> set (decimal_digits \<bar>k\<bar>). digit_char d \<noteq> CHR ''-''"
      using digits_range [of "\<bar>k\<bar>"] digit_char_minus by simp
    ultimately show ?thesis by (cases "decimal_digits \<bar>k\<bar>") simp_all
  qed
  have "hd (Itoa k) = CHR ''-'' \<longleftrightarrow> k < 0" for k using ne [of k] by (auto simp: i)
  then have sign: "m < 0 \<longleftrightarrow> n < 0" using eq by metis
  then have "map digit_char (decimal_digits \<bar>m\<bar>) = map digit_char (decimal_digits \<bar>n\<bar>)" using eq by (simp add: i)
  then have "decimal_digits \<bar>m\<bar> = decimal_digits \<bar>n\<bar>"
    using r [of m] r [of n] by (meson Un_least digit_char_inj inj_on_subset map_inj_on)
  then have "\<bar>m\<bar> = \<bar>n\<bar>" by (metis abs_ge_zero digits_value)
  then show "m = n" using sign by linarith
qed

text \<open>A Go map filled in a loop: the last value written for a key counts.\<close>

definition go_map :: "('k \<times> 'v) list \<Rightarrow> ('k \<rightharpoonup> 'v)" where
  "go_map kvs = map_of (rev kvs)"

lemma go_map_key:
  assumes "distinct (map key xs)"
  shows "go_map (map (\<lambda>r. (key r, g r)) xs) k = Some v \<longleftrightarrow> (\<exists>r \<in> set xs. key r = k \<and> g r = v)"
    and "go_map (map (\<lambda>r. (key r, g r)) xs) k = None \<longleftrightarrow> (\<forall>r \<in> set xs. key r \<noteq> k)"
proof -
  have d: "distinct (map fst (rev (map (\<lambda>r. (key r, g r)) xs)))" using assms by (simp add: rev_map [symmetric] o_def)
  show "go_map (map (\<lambda>r. (key r, g r)) xs) k = Some v \<longleftrightarrow> (\<exists>r \<in> set xs. key r = k \<and> g r = v)"
    unfolding go_map_def map_of_eq_Some_iff [OF d] by auto
  show "go_map (map (\<lambda>r. (key r, g r)) xs) k = None \<longleftrightarrow> (\<forall>r \<in> set xs. key r \<noteq> k)"
    unfolding go_map_def map_of_eq_None_iff by (auto simp: image_image)
qed

end
