(* ===== verification/Ranking_Core.thy ===== *)
theory Ranking_Core
  imports Rank_Order Go_Strconv
begin

text \<open>
  The ranking of a contest (\<^verbatim>\<open>src/internal/ranking/ranking.go\<close> and
  \<^verbatim>\<open>src/internal/ranking/medals.go\<close>): it is assembled from the tasks, the
  participations and the task scores of the database, totalled, sorted, numbered, and
  the medals are awarded.

  The database is a parameter: a record of query results, each a value or an error. The
  precision of scores is a natural number (the schema keeps it between 0 and 6).
\<close>

section \<open>Data\<close>

record Task =
  taskID :: int
  taskName :: string
  taskTitle :: string
  taskMaxScore :: f64
  taskSubtaskMax :: "f64 list"
  taskPrecision :: nat
  taskDatasetID :: int
  taskScoreType :: string
  taskNumTestcase :: nat
  scoreMode :: string

record Cell =
  ceScore :: f64
  ceSubtasks :: "f64 list"
  ceSubmitted :: bool
  cePending :: int
  ceSolved :: bool
  ceAttempts :: int
  ceSolvedAt :: "time option"
  ceSolvedMinute :: int
  ceAdjustment :: f64
  ceReachedAt :: "time option"
  ceElapsed :: int

definition zero_cell :: Cell where
  "zero_cell = \<lparr>ceScore = 0, ceSubtasks = [], ceSubmitted = False, cePending = 0, ceSolved = False,
     ceAttempts = 0, ceSolvedAt = None, ceSolvedMinute = 0, ceAdjustment = 0, ceReachedAt = None, ceElapsed = 0\<rparr>"

record Row =
  rowRank :: nat
  rowParticipationID :: int
  rowUserID :: int
  rowUsername :: string
  rowFirstName :: string
  rowLastName :: string
  rowTeamCode :: string
  rowTeamName :: string
  rowTeamFlag :: string
  rowTeamInstitution :: string
  rowInstitution :: string
  rowPhoto :: string
  rowCountry :: string
  rowSite :: string
  rowHidden :: bool
  rowUnrestricted :: bool
  rowUnofficial :: bool
  rowPlace :: nat
  rowMedal :: string
  rowCells :: "Cell list"
  rowTotal :: f64
  rowSolved :: int
  rowPenalty :: int
  rowReachedS :: "int option"

record Cutoff =
  cutMedal :: string
  cutScore :: f64
  cutCount :: nat

record Ranking =
  rkContestID :: int
  rkContest :: string
  rkICPC :: bool
  rkPrecision :: nat
  rkTasks :: "Task list"
  rkRows :: "Row list"
  rkGenerated :: time
  rkCutoffs :: "Cutoff list"
  rkUnofficial :: bool
  rkTieBreak :: string

record Options =
  optIncludeHidden :: bool
  optSiteID :: int

text \<open>The columns of the database tables the ranking reads.\<close>

record Contest =
  cID :: int
  cName :: string
  cTitle :: string
  cDescription :: string
  cStartTime :: time
  cStopTime :: time
  cTimezone :: string
  cPerUserTimeS :: "int option"
  cScorePrecision :: nat
  cScoringMode :: string
  cIcpcPenaltyMinutes :: int
  cRankingFreezeTime :: "time option"
  cRankingFreezeMinutes :: int
  cRankingUnfrozen :: bool
  cTeamMode :: bool
  cRankingShowSubtasks :: bool
  cRankingShowFlags :: bool
  cRankingShowInstitutions :: bool
  cRankingShowPhotos :: bool
  cRankingAnonymous :: bool
  cMedals :: string
  cRankingTieBreak :: string

record TaskRow =
  trID :: int
  trName :: string
  trTitle :: string
  trScorePrecision :: nat
  trScoreMode :: string

record DatasetRow =
  dsID :: int
  dsTaskID :: int
  dsScoreType :: string
  dsScoreTypeParams :: "json option"

record TestcaseRow =
  tcrDatasetID :: int
  tcrCodename :: string
  tcrPublic :: bool

record ParticipationRow =
  prID :: int
  prUserID :: int
  prStartingTime :: "time option"
  prDelayTimeS :: int
  prHidden :: bool
  prUnrestricted :: bool
  prSiteID :: "int option"
  prApproved :: bool
  prUnofficial :: bool
  prUsername :: string
  prFirstName :: string
  prLastName :: string
  prInstitution :: string
  prCountry :: string
  prUserPhoto :: "string option"
  prTeamCode :: "string option"
  prTeamName :: "string option"
  prTeamFlag :: "string option"
  prTeamInstitution :: "string option"
  prSiteName :: "string option"
  prSiteStartTime :: "time option"

record TaskScoreRow =
  tsParticipationID :: int
  tsTaskID :: int
  tsScore :: f64
  tsSubtaskScores :: "json option"
  tsIcpcSolved :: bool
  tsIcpcAttempts :: int
  tsIcpcSolvedAt :: "time option"
  tsPending :: int
  tsLastSubmissionAt :: "time option"
  tsAdjustment :: f64
  tsScoreReachedAt :: "time option"

record SubmissionRow =
  sbID :: int
  sbParticipationID :: int
  sbTaskID :: int
  sbSubmittedAt :: time
  sbTokened :: bool
  sbCompilationOutcome :: "string option"
  sbScore :: "f64 option"
  sbRankingScoreDetails :: "json option"
  sbScoredAt :: "time option"

record AdjustmentRow =
  ajParticipationID :: int
  ajTaskID :: int
  ajPoints :: f64
  ajCreatedAt :: time

record Queries =
  GetContest :: "int \<Rightarrow> (string, Contest) result"
  ListTasksByContest :: "int \<Rightarrow> (string, TaskRow list) result"
  ListLiveDatasetsByContest :: "int \<Rightarrow> (string, DatasetRow list) result"
  ListTestcasesByDatasets :: "int list \<Rightarrow> (string, TestcaseRow list) result"
  ListParticipationsByContest :: "int \<Rightarrow> (string, ParticipationRow list) result"
  ListParticipationTaskScoresByContest :: "int \<Rightarrow> (string, TaskScoreRow list) result"
  ListContestSubmissionsForRanking :: "int \<Rightarrow> (string, SubmissionRow list) result"
  ListContestScoreAdjustments :: "int \<Rightarrow> (string, AdjustmentRow list) result"

section \<open>Loading\<close>

definition load_task :: "regexp \<Rightarrow> DatasetRow list \<Rightarrow> TestcaseRow list \<Rightarrow> TaskRow \<Rightarrow> Task" where
  "load_task re datasets tcs t =
     (let rt = \<lparr>taskID = trID t, taskName = trName t, taskTitle = trTitle t, taskMaxScore = 0, taskSubtaskMax = [],
                taskPrecision = trScorePrecision t, taskDatasetID = 0, taskScoreType = '''', taskNumTestcase = 0,
                scoreMode = trScoreMode t\<rparr>
      in case go_map (map (\<lambda>d. (dsTaskID d, d)) datasets) (trID t) of
           None \<Rightarrow> rt
         | Some d \<Rightarrow>
             (let own = filter (\<lambda>tc. tcrDatasetID tc = dsID d) tcs;
                  rt = rt\<lparr>taskDatasetID := dsID d, taskScoreType := dsScoreType d, taskNumTestcase := length own\<rparr>
              in case New re (dsScoreType d) (dsScoreTypeParams d) (map tcrCodename own) (map tcrPublic own) (taskPrecision rt) of
                   Inl _ \<Rightarrow> rt
                 | Inr st \<Rightarrow> rt\<lparr>taskMaxScore := MaxScore st, taskSubtaskMax := SubtaskMaxScores st\<rparr>))"

definition LoadTasks :: "regexp \<Rightarrow> Queries \<Rightarrow> int \<Rightarrow> (string, Task list) result" where
  "LoadTasks re q contestID =
     bind_result (ListTasksByContest q contestID) (\<lambda>tasks.
     bind_result (ListLiveDatasetsByContest q contestID) (\<lambda>datasets.
     bind_result (ListTestcasesByDatasets q (map dsID datasets)) (\<lambda>tcs.
       Inr (map (load_task re datasets tcs) tasks))))"

record build =
  bC :: Contest
  bR :: Ranking
  rowIdx :: "int \<rightharpoonup> nat"
  taskIdx :: "int \<rightharpoonup> nat"
  starts :: "int \<rightharpoonup> time"

definition derefStr :: "string option \<Rightarrow> string" where
  "derefStr s = (case s of None \<Rightarrow> '''' | Some v \<Rightarrow> v)"

definition listed :: "Options \<Rightarrow> ParticipationRow \<Rightarrow> bool" where
  "listed opt p \<longleftrightarrow>
     \<not> (prHidden p \<and> \<not> optIncludeHidden opt \<or> \<not> prApproved p)
     \<and> \<not> (optSiteID opt \<noteq> 0 \<and> prSiteID p \<noteq> Some (optSiteID opt))"

definition new_row :: "nat \<Rightarrow> ParticipationRow \<Rightarrow> Row" where
  "new_row ntasks p = \<lparr>rowRank = 0, rowParticipationID = prID p, rowUserID = prUserID p, rowUsername = prUsername p,
     rowFirstName = prFirstName p, rowLastName = prLastName p, rowTeamCode = derefStr (prTeamCode p),
     rowTeamName = derefStr (prTeamName p), rowTeamFlag = derefStr (prTeamFlag p),
     rowTeamInstitution = derefStr (prTeamInstitution p), rowInstitution = prInstitution p,
     rowPhoto = derefStr (prUserPhoto p), rowCountry = prCountry p, rowSite = derefStr (prSiteName p),
     rowHidden = prHidden p, rowUnrestricted = prUnrestricted p, rowUnofficial = prUnofficial p, rowPlace = 0,
     rowMedal = '''', rowCells = replicate ntasks zero_cell, rowTotal = 0, rowSolved = 0, rowPenalty = 0,
     rowReachedS = None\<rparr>"

definition start_of :: "Contest \<Rightarrow> ParticipationRow \<Rightarrow> time" where
  "start_of c p =
     (if cPerUserTimeS c \<noteq> None \<and> prStartingTime p \<noteq> None then the (prStartingTime p)
      else t_add (case prSiteStartTime p of None \<Rightarrow> cStartTime c | Some s \<Rightarrow> s) (dmul (prDelayTimeS p) second))"

definition newBuild :: "regexp \<Rightarrow> Queries \<Rightarrow> int \<Rightarrow> Options \<Rightarrow> time \<Rightarrow> (string, build) result" where
  "newBuild re q contestID opt now =
     bind_result (GetContest q contestID) (\<lambda>c.
     bind_result (LoadTasks re q contestID) (\<lambda>tasks.
     bind_result (ListParticipationsByContest q contestID) (\<lambda>parts.
       let rows = map (new_row (length tasks)) (filter (listed opt) parts)
       in Inr \<lparr>bC = c,
               bR = \<lparr>rkContestID = cID c, rkContest = cName c, rkICPC = (cScoringMode c = ''icpc''),
                     rkPrecision = cScorePrecision c, rkTasks = tasks, rkRows = rows, rkGenerated = now,
                     rkCutoffs = [], rkUnofficial = False, rkTieBreak = cRankingTieBreak c\<rparr>,
               rowIdx = go_map (zip (map rowParticipationID rows) [0..<length rows]),
               taskIdx = go_map (zip (map taskID tasks) [0..<length tasks]),
               starts = go_map (map (\<lambda>p. (prID p, start_of c p)) parts)\<rparr>)))"

section \<open>Cells, totals and the order\<close>

definition start_at :: "build \<Rightarrow> int \<Rightarrow> time" where
  "start_at b pid = (case starts b pid of None \<Rightarrow> zero_time | Some t \<Rightarrow> t)"

definition solvedMinute :: "build \<Rightarrow> int \<Rightarrow> time option \<Rightarrow> int" where
  "solvedMinute b pid atm =
     (case atm of None \<Rightarrow> 0 | Some t \<Rightarrow> max 0 (go_div (t_sub t (start_at b pid)) minute))"

definition setElapsed :: "build \<Rightarrow> int \<Rightarrow> Cell \<Rightarrow> Cell" where
  "setElapsed b pid c =
     (let atm = (if rkICPC (bR b) then (if ceSolved c then ceSolvedAt c else None) else ceReachedAt c)
      in c\<lparr>ceElapsed := (case atm of None \<Rightarrow> -1 | Some t \<Rightarrow> max 0 (go_div (t_sub t (start_at b pid)) second))\<rparr>)"

text \<open>
  Decoding subtask scores with the error ignored: an element that is no number stays 0, and
  a message that is no array leaves no scores.
\<close>

definition lenient_floats :: "json option \<Rightarrow> f64 list" where
  "lenient_floats j =
     (case j of
        Some (JArr xs) \<Rightarrow> map (\<lambda>x. case to_float x of None \<Rightarrow> 0 | Some v \<Rightarrow> v) xs
      | _ \<Rightarrow> [])"

definition cell_of :: "build \<Rightarrow> TaskScoreRow \<Rightarrow> Cell" where
  "cell_of b s =
     (let cell = \<lparr>ceScore = tsScore s, ceSubtasks = lenient_floats (tsSubtaskScores s),
            ceSubmitted = (tsLastSubmissionAt s \<noteq> None \<or> tsPending s > 0), cePending = tsPending s,
            ceSolved = tsIcpcSolved s, ceAttempts = tsIcpcAttempts s, ceSolvedAt = tsIcpcSolvedAt s,
            ceSolvedMinute = 0, ceAdjustment = tsAdjustment s,
            ceReachedAt = (if tsScoreReachedAt s = None \<and> tsScore s - tsAdjustment s > 0
                           then tsLastSubmissionAt s else tsScoreReachedAt s),
            ceElapsed = 0\<rparr>;
          cell = (if ceSolved cell then cell\<lparr>ceSolvedMinute := solvedMinute b (tsParticipationID s) (ceSolvedAt cell)\<rparr> else cell)
      in setElapsed b (tsParticipationID s) cell)"

definition set_cell :: "build \<Rightarrow> nat \<Rightarrow> nat \<Rightarrow> Cell \<Rightarrow> build" where
  "set_cell b ri ti cell =
     (let r = bR b; row = rkRows r ! ri
      in b\<lparr>bR := r\<lparr>rkRows := (rkRows r)[ri := row\<lparr>rowCells := (rowCells row)[ti := cell]\<rparr>]\<rparr>\<rparr>)"

definition put_score :: "build \<Rightarrow> TaskScoreRow \<Rightarrow> build" where
  "put_score b s =
     (case (rowIdx b (tsParticipationID s), taskIdx b (tsTaskID s)) of
        (Some ri, Some ti) \<Rightarrow> set_cell b ri ti (cell_of b s)
      | _ \<Rightarrow> b)"

definition row_cmp :: "bool \<Rightarrow> string \<Rightarrow> Row \<Rightarrow> Row \<Rightarrow> int" where
  "row_cmp icpc tieBreak a b =
     compareRows icpc tieBreak (rowTotal a) (rowTotal b) (rowSolved a) (rowSolved b) (rowPenalty a) (rowPenalty b)
       (rowReachedS a) (rowReachedS b)"

definition sort_rows :: "Ranking \<Rightarrow> Ranking" where
  "sort_rows r =
     (let cmp = row_cmp (rkICPC r) (rkTieBreak r);
          rows = stable_sort (row_less cmp rowUsername) (rkRows r)
      in r\<lparr>rkRows := map2 (\<lambda>row rk. row\<lparr>rowRank := rk\<rparr>) rows (rank_loop cmp 0 None rows)\<rparr>)"

definition add_cell :: "bool \<Rightarrow> int \<Rightarrow> f64 \<times> int \<times> int \<Rightarrow> Cell \<Rightarrow> f64 \<times> int \<times> int" where
  "add_cell icpc penaltyMinutes = (\<lambda>(tot, solved, penalty) cell.
     if icpc \<and> ceSolved cell
     then (tot + ceScore cell, wrap64 (solved + 1),
           wrap64 (penalty + (ceSolvedMinute cell + penaltyMinutes * ceAttempts cell)))
     else (tot + ceScore cell, solved, penalty))"

definition total_row :: "bool \<Rightarrow> int \<Rightarrow> nat \<Rightarrow> Row \<Rightarrow> Row" where
  "total_row icpc penaltyMinutes precision row =
     (let (tot, solved, penalty) = foldl (add_cell icpc penaltyMinutes) (0, 0, 0) (rowCells row)
      in row\<lparr>rowTotal := round_score tot precision, rowSolved := solved, rowPenalty := penalty,
             rowReachedS := reachedTime icpc (map (\<lambda>c. (ceScore c, ceSolved c, ceElapsed c)) (rowCells row))\<rparr>)"

section \<open>Places and medals\<close>

definition placed :: "Row \<Rightarrow> bool" where
  "placed row \<longleftrightarrow> \<not> rowUnofficial row \<and> \<not> rowHidden row"

text \<open>The loop of \<^verbatim>\<open>places\<close>: the last placed row with its place, and how many were placed.\<close>

fun places_loop :: "(Row \<Rightarrow> Row \<Rightarrow> int) \<Rightarrow> (Row \<times> nat) option \<Rightarrow> nat \<Rightarrow> Row list \<Rightarrow> Row list" where
  "places_loop cmp prev n [] = []"
| "places_loop cmp prev n (row # rows) =
     (let row = row\<lparr>rowPlace := 0, rowMedal := ''''\<rparr>
      in if \<not> placed row then row # places_loop cmp prev n rows
         else
           (let place = (case prev of
                           None \<Rightarrow> n + 1
                         | Some (p, k) \<Rightarrow> if cmp p row = 0 then k else n + 1)
            in row\<lparr>rowPlace := place\<rparr> # places_loop cmp (Some (row, place)) (n + 1) rows))"

definition places :: "Ranking \<Rightarrow> Ranking" where
  "places r =
     r\<lparr>rkRows := places_loop (row_cmp (rkICPC r) (rkTieBreak r)) None 0 (rkRows r),
       rkUnofficial := rkUnofficial r \<or> list_ex rowUnofficial (rkRows r)\<rparr>"

definition medalShares :: "(string \<times> f64) list" where
  "medalShares = [(''gold'', f64 (1 / 12)), (''silver'', f64 (1 / 4)), (''bronze'', f64 (1 / 2))]"

text \<open>\<^verbatim>\<open>int(x)\<close> truncates towards zero.\<close>

definition int_of_f64 :: "f64 \<Rightarrow> int" where
  "int_of_f64 x = (let q = rat_of_f64 x in if 0 \<le> q then \<lfloor>q\<rfloor> else - \<lfloor>- q\<rfloor>)"

definition tie_end :: "(Row \<Rightarrow> Row \<Rightarrow> int) \<Rightarrow> Row list \<Rightarrow> nat \<Rightarrow> nat" where
  "tie_end cmp official e =
     e + 1 + length (takeWhile (\<lambda>row. cmp (official ! e) row = 0) (drop (e + 1) official))"

function medal_end :: "(Row \<Rightarrow> Row \<Rightarrow> int) \<Rightarrow> Row list \<Rightarrow> int \<Rightarrow> nat \<Rightarrow> nat" where
  "medal_end cmp official limit e =
     (if e < length official \<and> rowTotal (official ! e) > 0
      then (if int (tie_end cmp official e) > limit then e
            else medal_end cmp official limit (tie_end cmp official e))
      else e)"
  by pat_completeness auto
termination
  by (relation "measure (\<lambda>(cmp, official, limit, e). length official - e)") (auto simp: tie_end_def)

declare medal_end.simps [simp del]

definition give_medal :: "string \<Rightarrow> nat \<Rightarrow> nat \<Rightarrow> Row list \<Rightarrow> Row list" where
  "give_medal m i j rows =
     take i rows @ map (\<lambda>row. row\<lparr>rowMedal := m\<rparr>) (take (j - i) (drop i rows)) @ drop j rows"

definition medal_step :: "(Row \<Rightarrow> Row \<Rightarrow> int) \<Rightarrow> nat \<times> Row list \<times> Cutoff list \<Rightarrow> string \<times> f64 \<Rightarrow> nat \<times> Row list \<times> Cutoff list" where
  "medal_step cmp = (\<lambda>(given, official, cutoffs) (m, share).
     let limit = int_of_f64 (share * f64 (of_nat (length official)));
         e = medal_end cmp official limit given
     in (e, give_medal m given e official,
         if e > given
         then cutoffs @ [\<lparr>cutMedal = m, cutScore = rowTotal (official ! (e - 1)), cutCount = e - given\<rparr>]
         else cutoffs))"

text \<open>The official rows are pointers into the ranking: writing them changes its rows.\<close>

fun put_back :: "Row list \<Rightarrow> Row list \<Rightarrow> Row list" where
  "put_back [] official = []"
| "put_back (row # rows) official =
     (if placed row then hd official # put_back rows (tl official) else row # put_back rows official)"

definition medals :: "Ranking \<Rightarrow> Ranking" where
  "medals r =
     (let (given, official, cutoffs) =
        foldl (medal_step (row_cmp (rkICPC r) (rkTieBreak r))) (0, filter placed (rkRows r), []) medalShares
      in r\<lparr>rkRows := put_back (rkRows r) official, rkCutoffs := cutoffs\<rparr>)"

definition finish :: "build \<Rightarrow> Ranking" where
  "finish b =
     (let r = bR b;
          r = r\<lparr>rkRows := map (total_row (rkICPC r) (cIcpcPenaltyMinutes (bC b)) (rkPrecision r)) (rkRows r)\<rparr>;
          r = places (sort_rows r)
      in if cMedals (bC b) \<noteq> ''none'' \<and> \<not> rkICPC r then medals r else r)"

definition Compute_ranking :: "regexp \<Rightarrow> Queries \<Rightarrow> int \<Rightarrow> Options \<Rightarrow> time \<Rightarrow> (string, Ranking) result" where
  "Compute_ranking re q contestID opt now =
     bind_result (newBuild re q contestID opt now) (\<lambda>b.
     bind_result (ListParticipationTaskScoresByContest q contestID) (\<lambda>scores.
       Inr (finish (foldl put_score b scores))))"

definition Anonymize :: "Ranking \<Rightarrow> Ranking" where
  "Anonymize r = r\<lparr>rkRows := map (\<lambda>row. row\<lparr>rowUsername := ''user'' @ Itoa (rowUserID row), rowFirstName := '''',
     rowLastName := '''', rowInstitution := '''', rowPhoto := ''''\<rparr>) (rkRows r)\<rparr>"

section \<open>The order of the rows\<close>

definition row_key :: "bool \<Rightarrow> string \<Rightarrow> Row \<Rightarrow> rat \<times> int \<times> int \<times> int \<times> int" where
  "row_key icpc tieBreak row = rank_key icpc tieBreak (rowTotal row) (rowSolved row) (rowPenalty row) (rowReachedS row)"

definition row_ok :: "nat \<Rightarrow> Row \<Rightarrow> bool" where
  "row_ok p row \<longleftrightarrow> rankable p (rowTotal row) (rowSolved row) (rowPenalty row)"

interpretation rows: rank_order "row_cmp icpc tieBreak" "row_key icpc tieBreak" rowUsername "row_ok p"
  for icpc tieBreak p
  by unfold_locales (simp_all add: row_cmp_def row_key_def row_ok_def compareRows_key)

text \<open>What the numbering of places and the medals leave unchanged.\<close>

definition core :: "Row \<Rightarrow> Row" where
  "core row = row\<lparr>rowPlace := 0, rowMedal := ''''\<rparr>"

lemma core_fields [simp]:
  "rowRank (core row) = rowRank row" "rowParticipationID (core row) = rowParticipationID row"
  "rowUsername (core row) = rowUsername row" "rowTotal (core row) = rowTotal row" "rowSolved (core row) = rowSolved row"
  "rowPenalty (core row) = rowPenalty row" "rowReachedS (core row) = rowReachedS row"
  "rowUnofficial (core row) = rowUnofficial row" "rowHidden (core row) = rowHidden row"
  "rowPlace (core row) = 0" "rowMedal (core row) = ''''" "core (core row) = core row"
  by (simp_all add: core_def)

lemma core_results [simp]:
  "row_cmp icpc tb (core a) b = row_cmp icpc tb a b" "row_cmp icpc tb a (core b) = row_cmp icpc tb a b"
  "row_key icpc tb (core a) = row_key icpc tb a" "row_ok p (core a) = row_ok p a" "placed (core a) = placed a"
  by (simp_all add: row_cmp_def row_key_def row_ok_def placed_def)

lemma core_medal [simp]: "core (row\<lparr>rowMedal := m\<rparr>) = core row" "core (row\<lparr>rowPlace := k\<rparr>) = core row"
  by (simp_all add: core_def)

lemma places_loop_core: "map core (places_loop cmp prev n rows) = map core rows"
  by (induction rows arbitrary: prev n) (auto simp: Let_def core_def)

lemma places_loop_places:
  "map rowPlace (filter placed (places_loop cmp prev n rows)) = rank_loop cmp n prev (map core (filter placed rows))"
proof (induction rows arbitrary: prev n)
  case (Cons row rows)
  have p: "placed (row\<lparr>rowPlace := k, rowMedal := ''''\<rparr>) = placed row" for k by (simp add: placed_def)
  then show ?case by (simp add: Cons Let_def core_def [symmetric]) (simp add: core_def placed_def)
qed simp

text \<open>The medals change nothing else of a row.\<close>

definition unmedal :: "Row \<Rightarrow> Row" where
  "unmedal row = row\<lparr>rowMedal := ''''\<rparr>"

lemma unmedal_simps [simp]:
  "unmedal (row\<lparr>rowMedal := m\<rparr>) = unmedal row" "core (unmedal row) = core row" "placed (unmedal row) = placed row"
  "rowPlace (unmedal row) = rowPlace row" "rowTotal (unmedal row) = rowTotal row"
  "row_key icpc tb (unmedal row) = row_key icpc tb row" "row_ok p (unmedal row) = row_ok p row"
  "row_cmp icpc tb (unmedal a) b = row_cmp icpc tb a b" "row_cmp icpc tb a (unmedal b) = row_cmp icpc tb a b"
  by (simp_all add: unmedal_def core_def placed_def row_key_def row_ok_def row_cmp_def)

lemma map_unmedal_transfer:
  assumes "map unmedal xs = map unmedal ys" and "\<And>row. f (unmedal row) = f row"
  shows "map f xs = map f ys"
proof -
  have "map f xs = map f (map unmedal xs)" for xs by (simp add: assms(2))
  then show ?thesis using assms(1) by metis
qed

lemma unmedal_give_medal: "i \<le> j \<Longrightarrow> map unmedal (give_medal m i j rows) = map unmedal rows"
proof -
  assume "i \<le> j"
  then have "map unmedal (give_medal m i j rows) = map unmedal (take i rows @ take (j - i) (drop i rows) @ drop j rows)"
    by (simp add: give_medal_def o_def)
  also have "take i rows @ take (j - i) (drop i rows) @ drop j rows = rows"
    using \<open>i \<le> j\<close> by (metis append.assoc append_take_drop_id le_add_diff_inverse take_add)
  finally show ?thesis .
qed

lemma medal_end_ge: "e \<le> medal_end cmp official limit e"
proof (induction cmp official limit e rule: medal_end.induct)
  case (1 cmp official limit e)
  have "e \<le> tie_end cmp official e" by (simp add: tie_end_def)
  with 1 show ?case by (subst medal_end.simps) (auto intro: order_trans)
qed

lemma medal_step_unmedal:
  "medal_step cmp (given, official, cutoffs) ms = (given', official', cutoffs') \<Longrightarrow>
   map unmedal official' = map unmedal official \<and> given \<le> given'"
  by (cases ms) (auto simp: medal_step_def Let_def unmedal_give_medal medal_end_ge)

lemma medal_steps_unmedal:
  "foldl (medal_step cmp) (given, official, cutoffs) shares = (given', official', cutoffs') \<Longrightarrow>
   map unmedal official' = map unmedal official"
proof (induction shares arbitrary: given official cutoffs)
  case (Cons ms shares)
  obtain g o1 c1 where st: "medal_step cmp (given, official, cutoffs) ms = (g, o1, c1)" by (metis prod_cases3)
  from Cons.prems st have "map unmedal official' = map unmedal o1" by (intro Cons.IH) simp
  with medal_step_unmedal [OF st] show ?case by simp
qed simp

lemma put_back_unmedal:
  "map unmedal official = map unmedal (filter placed rows) \<Longrightarrow> map unmedal (put_back rows official) = map unmedal rows"
proof (induction rows arbitrary: official)
  case (Cons row rows)
  then show ?case by (cases official) auto
qed simp

lemma put_back_placed:
  "map unmedal official = map unmedal (filter placed rows) \<Longrightarrow> filter placed (put_back rows official) = official"
proof (induction rows arbitrary: official)
  case (Cons row rows)
  then show ?case
  proof (cases "placed row")
    case True
    with Cons.prems obtain x xs where o: "official = x # xs" "unmedal x = unmedal row" "map unmedal xs = map unmedal (filter placed rows)"
      by (cases official) auto
    then have "placed x" using True by (metis unmedal_simps(3))
    with o True Cons.IH [OF o(3)] show ?thesis by simp
  qed simp
qed simp

lemma medals_unmedal: "map unmedal (rkRows (medals r)) = map unmedal (rkRows r)"
proof -
  obtain g o1 c1 where f: "foldl (medal_step (row_cmp (rkICPC r) (rkTieBreak r))) (0, filter placed (rkRows r), []) medalShares = (g, o1, c1)"
    by (metis prod_cases3)
  from medal_steps_unmedal [OF f] have "map unmedal o1 = map unmedal (filter placed (rkRows r))" .
  from put_back_unmedal [OF this] f show ?thesis by (simp add: medals_def)
qed

lemma medals_core: "map core (rkRows (medals r)) = map core (rkRows r)"
  by (rule map_unmedal_transfer [OF medals_unmedal]) simp

lemma medals_place: "map rowPlace (rkRows (medals r)) = map rowPlace (rkRows r)"
  by (rule map_unmedal_transfer [OF medals_unmedal]) simp

lemma ranking_fields [simp]:
  "rkICPC (medals r) = rkICPC r" "rkTieBreak (medals r) = rkTieBreak r" "rkICPC (places r) = rkICPC r"
  "rkTieBreak (places r) = rkTieBreak r" "rkICPC (sort_rows r) = rkICPC r" "rkTieBreak (sort_rows r) = rkTieBreak r"
  by (simp_all add: medals_def places_def sort_rows_def Let_def split: prod.splits)

section \<open>Ranks\<close>

text \<open>The rows of a finished ranking are, up to place and medal, the totalled rows sorted and numbered.\<close>

definition totalled :: "build \<Rightarrow> Row list" where
  "totalled b = map (total_row (rkICPC (bR b)) (cIcpcPenaltyMinutes (bC b)) (rkPrecision (bR b))) (rkRows (bR b))"

definition sorted_of :: "build \<Rightarrow> Row list" where
  "sorted_of b = stable_sort (row_less (row_cmp (rkICPC (bR b)) (rkTieBreak (bR b))) rowUsername) (totalled b)"

definition ranked_of :: "build \<Rightarrow> Row list" where
  "ranked_of b = map2 (\<lambda>row rk. row\<lparr>rowRank := rk\<rparr>) (sorted_of b)
     (rank_loop (row_cmp (rkICPC (bR b)) (rkTieBreak (bR b))) 0 None (sorted_of b))"

lemma finish_settings [simp]: "rkICPC (finish b) = rkICPC (bR b)" "rkTieBreak (finish b) = rkTieBreak (bR b)"
  by (simp_all add: finish_def Let_def)

lemma finish_core: "map core (rkRows (finish b)) = map core (ranked_of b)"
  by (simp add: finish_def Let_def medals_core, simp add: places_def places_loop_core sort_rows_def Let_def
      ranked_of_def sorted_of_def totalled_def)

lemma length_rank_loop [simp]: "length (rank_loop cmp i prev xs) = length xs"
  by (induction xs arbitrary: i prev) (simp_all add: Let_def)

lemma map2_rank_fields:
  assumes "length ks = length rows"
  shows "map (row_key icpc tb) (map2 (\<lambda>row rk. row\<lparr>rowRank := rk\<rparr>) rows ks) = map (row_key icpc tb) rows"
    and "map rowUsername (map2 (\<lambda>row rk. row\<lparr>rowRank := rk\<rparr>) rows ks) = map rowUsername rows"
    and "map rowParticipationID (map2 (\<lambda>row rk. row\<lparr>rowRank := rk\<rparr>) rows ks) = map rowParticipationID rows"
    and "map rowRank (map2 (\<lambda>row rk. row\<lparr>rowRank := rk\<rparr>) rows ks) = ks"
    and "map (row_ok p) (map2 (\<lambda>row rk. row\<lparr>rowRank := rk\<rparr>) rows ks) = map (row_ok p) rows"
  using assms by (induction ks rows rule: list_induct2) (simp_all add: row_key_def row_ok_def)

lemma map_core_transfer:
  assumes "map core xs = map core ys" and "\<And>row. f (core row) = f row"
  shows "map f xs = map f ys"
proof -
  have "map f xs = map f (map core xs)" for xs by (simp add: assms(2))
  then show ?thesis using assms(1) by metis
qed

lemma length_filter_map: "length (filter P (map f xs)) = length (filter (\<lambda>x. P (f x)) xs)"
  by (simp add: filter_map o_def)

lemma list_all_map_eq: "map P xs = map P ys \<Longrightarrow> (\<forall>x \<in> set xs. P x) \<longleftrightarrow> (\<forall>y \<in> set ys. P y)"
proof -
  have "(\<forall>x \<in> set zs. P x) \<longleftrightarrow> list_all (\<lambda>b. b) (map P zs)" for zs by (simp add: list_all_iff)
  then show "map P xs = map P ys \<Longrightarrow> ?thesis" by simp
qed

lemma total_row_ID [simp]: "rowParticipationID (total_row i q p row) = rowParticipationID row"
  by (simp add: total_row_def split: prod.split)

text \<open>Everything later proofs need of a finished ranking with rankable rows.\<close>

lemma finish_facts:
  fixes b :: build
  defines "icpc \<equiv> rkICPC (bR b)" and "tb \<equiv> rkTieBreak (bR b)"
  assumes ok: "\<forall>row \<in> set (rkRows (finish b)). row_ok p row"
  shows "sorted (map (row_key icpc tb) (rkRows (finish b)))"
    and "sorted (map (\<lambda>row. (row_key icpc tb row, rowUsername row)) (rkRows (finish b)))"
    and "map rowRank (rkRows (finish b)) =
      map (\<lambda>row. 1 + length (filter (\<lambda>x. row_key icpc tb x < row_key icpc tb row) (rkRows (finish b)))) (rkRows (finish b))"
    and "mset (map rowParticipationID (rkRows (finish b))) = mset (map rowParticipationID (rkRows (bR b)))"
proof -
  let ?rows = "rkRows (finish b)" and ?s = "sorted_of b" and ?k = "row_key icpc tb"
  have len: "length (rank_loop (row_cmp icpc tb) 0 None ?s) = length ?s" by simp
  note m2 = map2_rank_fields [OF len]
  note tr = map_core_transfer [OF finish_core [of b]]
  have r: "ranked_of b = map2 (\<lambda>row rk. row\<lparr>rowRank := rk\<rparr>) ?s (rank_loop (row_cmp icpc tb) 0 None ?s)"
    by (simp add: ranked_of_def icpc_def tb_def)
  have keys: "map ?k ?rows = map ?k ?s" using tr [of ?k] m2(1) by (simp add: r)
  have names: "map rowUsername ?rows = map rowUsername ?s" using tr [of rowUsername] m2(2) by (simp add: r)
  have "map (row_ok p) ?rows = map (row_ok p) ?s" using tr [of "row_ok p"] m2(5) by (simp add: r)
  then have oks: "\<forall>row \<in> set ?s. row_ok p row" using ok list_all_map_eq by blast
  then have okt: "\<forall>row \<in> set (totalled b). row_ok p row" by (simp add: sorted_of_def)
  have sk: "sorted (map (\<lambda>row. (?k row, rowUsername row)) ?s)"
    unfolding sorted_of_def icpc_def tb_def by (rule rows.sort_key [OF okt])
  have s: "sorted (map ?k ?s)" unfolding sorted_of_def icpc_def tb_def by (rule rows.sorted_rows [OF okt])
  then show "sorted (map ?k ?rows)" by (simp add: keys)
  have "map (\<lambda>row. (?k row, rowUsername row)) xs = zip (map ?k xs) (map rowUsername xs)" for xs :: "Row list"
    by (induction xs) auto
  then show "sorted (map (\<lambda>row. (?k row, rowUsername row)) ?rows)" using sk keys names by simp
  have "map rowRank ?rows = rank_loop (row_cmp icpc tb) 0 None ?s" using tr [of rowRank] m2(4) by (simp add: r)
  also have "\<dots> = map (\<lambda>x. 1 + length (filter (\<lambda>y. ?k y < ?k x) ?s)) ?s" by (rule rows.rank_loop_better [OF s oks])
  also have "\<dots> = map (\<lambda>k. 1 + length (filter (\<lambda>l. l < k) (map ?k ?s))) (map ?k ?s)"
    by (simp add: length_filter_map o_def)
  also have "\<dots> = map (\<lambda>row. 1 + length (filter (\<lambda>x. ?k x < ?k row) ?rows)) ?rows"
    by (simp add: keys [symmetric] length_filter_map o_def)
  finally show "map rowRank ?rows = map (\<lambda>row. 1 + length (filter (\<lambda>x. ?k x < ?k row) ?rows)) ?rows" .
  have "map rowParticipationID ?rows = map rowParticipationID ?s"
    using tr [of rowParticipationID] m2(3) by (simp add: r)
  moreover have "mset (map rowParticipationID ?s) = mset (map rowParticipationID (totalled b))"
    by (simp add: sorted_of_def)
  moreover have "map rowParticipationID (totalled b) = map rowParticipationID (rkRows (bR b))"
    by (simp add: totalled_def)
  ultimately show "mset (map rowParticipationID ?rows) = mset (map rowParticipationID (rkRows (bR b)))" by metis
qed

lemma total_row_rounded: "\<exists>v. rowTotal (total_row i q p row) = round_score v p"
  by (auto simp: total_row_def split: prod.split)

lemma finish_rounded: "row \<in> set (rkRows (finish b)) \<Longrightarrow> \<exists>v. rowTotal row = round_score v (rkPrecision (bR b))"
proof -
  assume "row \<in> set (rkRows (finish b))"
  then have "rowTotal row \<in> set (map rowTotal (rkRows (finish b)))" by simp
  also have "map rowTotal (rkRows (finish b)) = map rowTotal (ranked_of b)"
    by (rule map_core_transfer [OF finish_core]) simp
  also have "map rowTotal (ranked_of b) = map rowTotal (sorted_of b)"
  proof -
    have "length ks = length rows \<Longrightarrow> map rowTotal (map2 (\<lambda>row rk. row\<lparr>rowRank := rk\<rparr>) rows ks) = map rowTotal rows"
      for ks and rows :: "Row list" by (induction ks rows rule: list_induct2) simp_all
    then show ?thesis by (simp add: ranked_of_def)
  qed
  finally show ?thesis using total_row_rounded by (auto simp: sorted_of_def totalled_def)
qed

text \<open>Totals up to a million, solved and penalty counts far from overflow.\<close>

definition moderate :: "Row \<Rightarrow> bool" where
  "moderate row \<longleftrightarrow> \<bar>rat_of_f64 (rowTotal row)\<bar> \<le> 1000000 \<and> \<bar>rowSolved row\<bar> < 2 ^ 62 \<and> \<bar>rowPenalty row\<bar> < 2 ^ 62"

lemma finish_ok:
  assumes "rkPrecision (bR b) \<le> 8" "\<forall>row \<in> set (rkRows (finish b)). moderate row"
  shows "\<forall>row \<in> set (rkRows (finish b)). row_ok (rkPrecision (bR b)) row"
  using assms finish_rounded [of _ b] by (auto simp: row_ok_def rankable_def moderate_def)

lemma cmp_key_less:
  "row_ok p a \<Longrightarrow> row_ok p b \<Longrightarrow> row_cmp icpc tb a b < 0 \<longleftrightarrow> row_key icpc tb a < row_key icpc tb b"
  "row_ok p a \<Longrightarrow> row_ok p b \<Longrightarrow> row_cmp icpc tb a b = 0 \<longleftrightarrow> row_key icpc tb a = row_key icpc tb b"
  by (rule rows.cmp_less, assumption+) (rule rows.cmp_eq, assumption+)

text \<open>
  Property C32. A finished ranking lists exactly the participations it was built from, in
  order (equal rows by username), and the rank of each is one more than the number of
  participants strictly better than it, so equal participants share a rank.
\<close>

theorem finish_ranks:
  assumes "rkPrecision (bR b) \<le> 8" "\<forall>row \<in> set (rkRows (finish b)). moderate row"
  shows "mset (map rowParticipationID (rkRows (finish b))) = mset (map rowParticipationID (rkRows (bR b)))
    \<and> sorted_wrt (\<lambda>x y. \<not> row_less (row_cmp (rkICPC (bR b)) (rkTieBreak (bR b))) rowUsername y x) (rkRows (finish b))
    \<and> (\<forall>row \<in> set (rkRows (finish b)). rowRank row =
         1 + length (filter (\<lambda>x. row_cmp (rkICPC (bR b)) (rkTieBreak (bR b)) x row < 0) (rkRows (finish b))))"
proof (intro conjI)
  let ?c = "row_cmp (rkICPC (bR b)) (rkTieBreak (bR b))" and ?k = "row_key (rkICPC (bR b)) (rkTieBreak (bR b))"
  note ok = finish_ok [OF assms]
  note f = finish_facts [OF ok]
  show "mset (map rowParticipationID (rkRows (finish b))) = mset (map rowParticipationID (rkRows (bR b)))" by (rule f(4))
  from f(2) have "sorted_wrt (\<lambda>x y. (?k x, rowUsername x) \<le> (?k y, rowUsername y)) (rkRows (finish b))"
    by (simp add: sorted_wrt_map)
  then show "sorted_wrt (\<lambda>x y. \<not> row_less ?c rowUsername y x) (rkRows (finish b))"
  proof (rule sorted_wrt_mono_rel [rotated])
    fix x y
    assume "x \<in> set (rkRows (finish b))" "y \<in> set (rkRows (finish b))"
      and le: "(?k x, rowUsername x) \<le> (?k y, rowUsername y)"
    then have "row_less ?c rowUsername y x \<longleftrightarrow> (?k y, rowUsername y) < (?k x, rowUsername x)"
      using ok by (intro rows.row_less_key) auto
    with le show "\<not> row_less ?c rowUsername y x" by (simp only: not_less)
  qed
  show "\<forall>row \<in> set (rkRows (finish b)). rowRank row = 1 + length (filter (\<lambda>x. ?c x row < 0) (rkRows (finish b)))"
  proof
    fix row
    assume row: "row \<in> set (rkRows (finish b))"
    have "filter (\<lambda>x. ?c x row < 0) (rkRows (finish b)) = filter (\<lambda>x. ?k x < ?k row) (rkRows (finish b))"
      by (rule filter_cong [OF refl]) (use ok row cmp_key_less(1) in blast)
    with f(3) row show "rowRank row = 1 + length (filter (\<lambda>x. ?c x row < 0) (rkRows (finish b)))"
      by (auto simp: map_eq_conv)
  qed
qed

section \<open>Places\<close>

lemma places_unplaced: "row \<in> set (places_loop cmp prev n rows) \<Longrightarrow> \<not> placed row \<Longrightarrow> rowPlace row = 0"
  by (induction rows arbitrary: prev n) (auto simp: Let_def placed_def split: if_splits)

lemma places_finish:
  "map rowPlace (rkRows (finish b)) = map rowPlace (rkRows (places (sort_rows ((bR b)\<lparr>rkRows := totalled b\<rparr>))))"
  by (simp add: finish_def Let_def medals_place totalled_def)

text \<open>
  The places of a ranking number the official, visible participants among
  themselves: one more than the number of official, visible participants strictly better;
  everybody else has no place (0), so hidden and unofficial rows never shift a place.
\<close>

theorem finish_places:
  assumes "rkPrecision (bR b) \<le> 8" "\<forall>row \<in> set (rkRows (finish b)). moderate row"
    and "row \<in> set (rkRows (finish b))"
  shows "rowPlace row =
    (if placed row
     then 1 + length (filter (\<lambda>x. placed x \<and> row_cmp (rkICPC (bR b)) (rkTieBreak (bR b)) x row < 0) (rkRows (finish b)))
     else 0)"
proof -
  let ?c = "row_cmp (rkICPC (bR b)) (rkTieBreak (bR b))" and ?k = "row_key (rkICPC (bR b)) (rkTieBreak (bR b))"
  let ?rows = "rkRows (finish b)" and ?p = "places_loop (row_cmp (rkICPC (bR b)) (rkTieBreak (bR b))) None 0 (ranked_of b)"
  note ok = finish_ok [OF assms(1,2)]
  note f = finish_facts [OF ok]
  have p: "map rowPlace ?rows = map rowPlace ?p"
    unfolding places_finish by (simp add: places_def sort_rows_def Let_def ranked_of_def sorted_of_def)
  have c: "map core ?rows = map core ?p" by (simp add: finish_core places_loop_core)
  have pairs: "map (\<lambda>row. (rowPlace row, core row)) ?rows = map (\<lambda>row. (rowPlace row, core row)) ?p"
    by (rule nth_equalityI) (use p c in \<open>auto dest: map_eq_imp_length_eq simp: list_eq_iff_nth_eq\<close>)
  show ?thesis
  proof (cases "placed row")
    case False
    from assms(3) have "(rowPlace row, core row) \<in> set (map (\<lambda>row. (rowPlace row, core row)) ?p)"
      by (metis (no_types, lifting) image_eqI list.set_map pairs)
    then obtain x where x: "x \<in> set ?p" "rowPlace x = rowPlace row" "core x = core row" by auto
    then have "\<not> placed x" using False by (metis core_results(5))
    with places_unplaced [OF x(1)] x(2) False show ?thesis by simp
  next
    case True
    let ?o = "filter placed ?rows"
    have fp: "map (\<lambda>row. (rowPlace row, core row)) (filter placed xs) = filter (\<lambda>(k, row). placed row) (map (\<lambda>row. (rowPlace row, core row)) xs)" for xs
      by (induction xs) auto
    then have "map (\<lambda>row. (rowPlace row, core row)) ?o = map (\<lambda>row. (rowPlace row, core row)) (filter placed ?p)"
      using pairs by metis
    then have "map fst (map (\<lambda>row. (rowPlace row, core row)) ?o) = map fst (map (\<lambda>row. (rowPlace row, core row)) (filter placed ?p))"
      by simp
    then have "map rowPlace ?o = map rowPlace (filter placed ?p)" by (simp add: o_def)
    also have "\<dots> = rank_loop ?c 0 None (map core (filter placed (ranked_of b)))" by (rule places_loop_places)
    also have "map core (filter placed (ranked_of b)) = map core ?o"
      using finish_core [of b] by (metis (no_types, lifting) core_results(5) filter_cong filter_map comp_def)
    also have "rank_loop ?c 0 None (map core ?o) = map (\<lambda>x. 1 + length (filter (\<lambda>y. ?k y < ?k x) (map core ?o))) (map core ?o)"
    proof (rule rows.rank_loop_better)
      have "sorted (map ?k ?o)" using f(1) by (rule sorted_filter)
      then show "sorted (map ?k (map core ?o))" by (simp add: o_def)
      show "\<forall>x \<in> set (map core ?o). row_ok (rkPrecision (bR b)) x" using ok by auto
    qed
    finally have "map rowPlace ?o = map (\<lambda>x. 1 + length (filter (\<lambda>y. ?k y < ?k x) ?o)) ?o"
      by (simp add: length_filter_map o_def)
    then have "rowPlace row = 1 + length (filter (\<lambda>y. ?k y < ?k row) ?o)"
      using assms(3) True by (simp add: map_eq_conv)
    also have "filter (\<lambda>y. ?k y < ?k row) ?o = filter (\<lambda>x. placed x \<and> ?c x row < 0) ?rows"
      unfolding filter_filter by (rule filter_cong [OF refl]) (use ok assms(3) cmp_key_less(1) in blast)
    finally show ?thesis using True by simp
  qed
qed

section \<open>Medals\<close>

text \<open>A position between two rows that are not tied (or an end of the list).\<close>

definition boundary :: "(Row \<Rightarrow> Row \<Rightarrow> int) \<Rightarrow> Row list \<Rightarrow> nat \<Rightarrow> bool" where
  "boundary cmp rows e \<longleftrightarrow> e \<le> length rows \<and> (0 < e \<and> e < length rows \<longrightarrow> cmp (rows ! (e - 1)) (rows ! e) \<noteq> 0)"

text \<open>The official rows in order, as the medals see them.\<close>

definition in_order :: "nat \<Rightarrow> string \<Rightarrow> Row list \<Rightarrow> bool" where
  "in_order p tb rows \<longleftrightarrow> sorted (map (row_key False tb) rows) \<and> (\<forall>row \<in> set rows. row_ok p row)"

lemma in_order_cmp:
  assumes "in_order p tb rows" "i < length rows" "j < length rows"
  shows "row_cmp False tb (rows ! i) (rows ! j) = 0 \<longleftrightarrow> row_key False tb (rows ! i) = row_key False tb (rows ! j)"
  using assms cmp_key_less(2) [of p] by (auto simp: in_order_def)

lemma in_order_between:
  assumes "in_order p tb rows" "i \<le> k" "k \<le> j" "j < length rows" "row_key False tb (rows ! i) = row_key False tb (rows ! j)"
  shows "row_key False tb (rows ! k) = row_key False tb (rows ! i)"
  using assms sorted_nth_mono [of "map (row_key False tb) rows" i k] sorted_nth_mono [of "map (row_key False tb) rows" k j]
  by (auto simp: in_order_def)

lemma row_key_total: "row_key False tb a = row_key False tb b \<Longrightarrow> rowTotal a = rowTotal b"
  by (simp add: row_key_def rank_key_def rat_of_f64_inject)

text \<open>\<^const>\<open>tie_end\<close> is the next boundary, and the rows up to it are tied.\<close>

lemma tie_end_next:
  assumes io: "in_order p tb rows" and e: "e < length rows"
  defines "t \<equiv> tie_end (row_cmp False tb) rows e"
  shows "e < t" "t \<le> length rows" "boundary (row_cmp False tb) rows t"
    and "\<And>i. e \<le> i \<Longrightarrow> i < t \<Longrightarrow> row_key False tb (rows ! i) = row_key False tb (rows ! e)"
    and "\<And>e'. boundary (row_cmp False tb) rows e' \<Longrightarrow> e < e' \<Longrightarrow> t \<le> e'"
proof -
  let ?c = "row_cmp False tb" and ?P = "\<lambda>row. row_cmp False tb (rows ! e) row = 0"
  let ?tw = "takeWhile ?P (drop (e + 1) rows)"
  have t: "t = e + 1 + length ?tw" by (simp add: t_def tie_end_def)
  have le: "length ?tw \<le> length rows - (e + 1)" by (metis length_drop length_takeWhile_le)
  show 1: "e < t" using t by simp
  show 2: "t \<le> length rows" using t le e by linarith
  have tied: "?c (rows ! e) (rows ! i) = 0" if "e < i" "i < t" for i
  proof -
    have "i - (e + 1) < length ?tw" using that t by simp
    from set_takeWhileD [OF nth_mem [OF this]] have "?P (?tw ! (i - (e + 1)))" by (rule conjunct2)
    moreover have "?tw ! (i - (e + 1)) = rows ! i"
      using that 2 \<open>i - (e + 1) < length ?tw\<close> by (simp add: takeWhile_nth)
    ultimately show ?thesis by simp
  qed
  show 4: "row_key False tb (rows ! i) = row_key False tb (rows ! e)" if "e \<le> i" "i < t" for i
    using tied [of i] that in_order_cmp [OF io e, of i] 2 by (cases "i = e") auto
  show "boundary ?c rows t"
  proof (unfold boundary_def, intro conjI impI)
    assume "0 < t \<and> t < length rows"
    then have l: "t < length rows" by simp
    then have "\<not> ?P (drop (e + 1) rows ! length ?tw)" using t by (intro nth_length_takeWhile) simp
    then have "?c (rows ! e) (rows ! t) \<noteq> 0" using t e by simp
    then show "?c (rows ! (t - 1)) (rows ! t) \<noteq> 0"
      using 4 [of "t - 1"] 1 l in_order_cmp [OF io e l] in_order_cmp [OF io _ l, of "t - 1"] by auto
  qed (rule 2)
  show "t \<le> e'" if "boundary ?c rows e'" "e < e'" for e'
  proof (rule ccontr)
    assume "\<not> t \<le> e'"
    then have "row_key False tb (rows ! (e' - 1)) = row_key False tb (rows ! e')" "e' < length rows"
      using 4 [of "e' - 1"] 4 [of e'] that(2) 2 by auto
    then show False using that in_order_cmp [OF io, of "e' - 1" e'] by (auto simp: boundary_def less_imp_diff_less)
  qed
qed

text \<open>
  \<^const>\<open>medal_end\<close> is the last boundary within the limit such that everybody between has points.
\<close>

lemma medal_end_spec:
  fixes limit :: int and rows :: "Row list" and tb :: string
  assumes io: "in_order p tb rows" and "boundary (row_cmp False tb) rows e"
  shows "boundary (row_cmp False tb) rows (medal_end (row_cmp False tb) rows limit e)
    \<and> (medal_end (row_cmp False tb) rows limit e = e \<or> int (medal_end (row_cmp False tb) rows limit e) \<le> limit)
    \<and> (\<forall>i. e \<le> i \<and> i < medal_end (row_cmp False tb) rows limit e \<longrightarrow> 0 < rowTotal (rows ! i))
    \<and> (\<forall>m'. boundary (row_cmp False tb) rows m' \<and> e \<le> m' \<and> int m' \<le> limit
          \<and> (\<forall>i. e \<le> i \<and> i < m' \<longrightarrow> 0 < rowTotal (rows ! i)) \<longrightarrow> m' \<le> medal_end (row_cmp False tb) rows limit e)"
  using assms(2)
proof (induction "length rows - e" arbitrary: e rule: less_induct)
  case less
  let ?c = "row_cmp False tb" and ?t = "tie_end (row_cmp False tb) rows e"
  show ?case
  proof (cases "e < length rows \<and> 0 < rowTotal (rows ! e)")
    case False
    then have "medal_end ?c rows limit e = e" by (subst medal_end.simps) auto
    moreover have "m' \<le> e" if "boundary ?c rows m'" "\<forall>i. e \<le> i \<and> i < m' \<longrightarrow> 0 < rowTotal (rows ! i)" for m'
    proof (rule ccontr)
      assume "\<not> m' \<le> e"
      then have "e < length rows" "0 < rowTotal (rows ! e)" using that by (auto simp: boundary_def)
      then show False using False by simp
    qed
    ultimately show ?thesis using less.prems by auto
  next
    case True
    note n = tie_end_next [OF io, of e]
    show ?thesis
    proof (cases "int ?t > limit")
      case big: True
      then have "medal_end ?c rows limit e = e" by (subst medal_end.simps) auto
      moreover have "m' \<le> e" if "boundary ?c rows m'" "int m' \<le> limit" for m'
        using n(5) [of m'] that big True by (meson le_less_trans not_le of_nat_le_iff)
      ultimately show ?thesis using less.prems by auto
    next
      case small: False
      then have eq: "medal_end ?c rows limit e = medal_end ?c rows limit ?t"
        using True by (subst medal_end.simps) auto
      have pos: "0 < rowTotal (rows ! i)" if "e \<le> i" "i < ?t" for i
        using n(4) [of i] that True row_key_total [of tb "rows ! i" "rows ! e"] by auto
      note ih = less.hyps [of ?t]
      have ih: "boundary ?c rows (medal_end ?c rows limit ?t)"
        "medal_end ?c rows limit ?t = ?t \<or> int (medal_end ?c rows limit ?t) \<le> limit"
        "\<And>i. ?t \<le> i \<Longrightarrow> i < medal_end ?c rows limit ?t \<Longrightarrow> 0 < rowTotal (rows ! i)"
        "\<And>m'. boundary ?c rows m' \<Longrightarrow> ?t \<le> m' \<Longrightarrow> int m' \<le> limit \<Longrightarrow>
           (\<forall>i. ?t \<le> i \<and> i < m' \<longrightarrow> 0 < rowTotal (rows ! i)) \<Longrightarrow> m' \<le> medal_end ?c rows limit ?t"
        using ih n(1-3) True by auto
      have "0 < rowTotal (rows ! i)" if "e \<le> i" "i < medal_end ?c rows limit ?t" for i
        using pos [of i] ih(3) [of i] that by (cases "i < ?t") auto
      moreover have "m' \<le> medal_end ?c rows limit ?t"
        if "boundary ?c rows m'" "e \<le> m'" "int m' \<le> limit" "\<forall>i. e \<le> i \<and> i < m' \<longrightarrow> 0 < rowTotal (rows ! i)" for m'
      proof (cases "m' = e")
        case True
        then show ?thesis using n(1) \<open>e < length rows \<and> _\<close> medal_end_ge [of ?t ?c rows limit] by simp
      next
        case False
        then have "?t \<le> m'" using n(5) [of m'] that True by simp
        then show ?thesis using ih(4) [of m'] that n(1) True by auto
      qed
      ultimately show ?thesis unfolding eq using ih(1,2) small by auto
    qed
  qed
qed

lemma tie_end_unmedal: "e < length rows \<Longrightarrow> tie_end (row_cmp icpc tb) (map unmedal rows) e = tie_end (row_cmp icpc tb) rows e"
  by (simp add: tie_end_def drop_map takeWhile_map o_def)

lemma medal_end_unmedal: "medal_end (row_cmp icpc tb) (map unmedal rows) limit e = medal_end (row_cmp icpc tb) rows limit e"
proof (induction "length rows - e" arbitrary: e rule: less_induct)
  case less
  have "e < length rows \<Longrightarrow> length rows - tie_end (row_cmp icpc tb) rows e < length rows - e"
    by (simp add: tie_end_def)
  with less show ?case
    by (subst (1 2) medal_end.simps) (auto simp: tie_end_unmedal)
qed

lemma medal_end_cong:
  "map unmedal xs = map unmedal ys \<Longrightarrow> medal_end (row_cmp icpc tb) xs limit e = medal_end (row_cmp icpc tb) ys limit e"
  by (metis medal_end_unmedal)

lemma give_medal_list:
  "i \<le> j \<Longrightarrow> j \<le> length rows \<Longrightarrow>
   map rowMedal (give_medal m i j rows) = take i (map rowMedal rows) @ replicate (j - i) m @ drop j (map rowMedal rows)"
  by (simp add: give_medal_def take_map drop_map o_def map_replicate_const)

text \<open>The number a share allows: never more than the exact share.\<close>

definition medal_limit :: "f64 \<Rightarrow> nat \<Rightarrow> int" where
  "medal_limit share n = int_of_f64 (share * f64 (of_nat n))"

lemma medal_limit_bound:
  assumes "0 \<le> rat_of_f64 share" "rat_of_f64 share * of_int d \<le> 1" "0 < d" "d \<le> 12" "n < 2 ^ 20"
  shows "0 \<le> medal_limit share n \<and> d * medal_limit share n \<le> int n"
proof -
  have n: "rnd64 (of_nat n) = of_nat n" using rnd64_of_int [of "int n"] assms(5) by simp
  let ?x = "rat_of_f64 share * of_nat n" and ?L = "medal_limit share n"
  have r: "rat_of_f64 (share * f64 (of_nat n)) = rnd64 ?x" by (simp add: times_f64.rep_eq f64.rep_eq n)
  have x0: "0 \<le> ?x" using assms(1) by simp
  then have r0: "0 \<le> rnd64 ?x" by (rule rnd64_nonneg)
  have L: "?L = \<lfloor>rnd64 ?x\<rfloor>" using r r0 by (simp add: medal_limit_def int_of_f64_def)
  have dx: "of_int d * ?x \<le> of_nat n"
    using mult_right_mono [OF assms(2), of "of_nat n"] by (simp add: mult.commute mult.left_commute)
  moreover have "?x \<le> of_int d * ?x" using x0 assms(3) mult_right_mono [of 1 "of_int d" ?x] by simp
  ultimately have "?x \<le> of_nat n" by linarith
  moreover have "of_nat n < (2 ^ 20 :: rat)" using assms(5) by (metis of_nat_less_iff of_nat_numeral of_nat_power)
  ultimately have "\<bar>?x\<bar> < 2 ^ 20" using x0 by simp
  from rnd64_error [OF this] have "rnd64 ?x \<le> ?x + 1 / 2 ^ 34" by (simp only: abs_le_iff) linarith
  then have "of_int ?L \<le> ?x + 1 / 2 ^ 34" using of_int_floor_le [of "rnd64 ?x"] L by linarith
  then have "of_int d * of_int ?L \<le> of_int d * (?x + 1 / 2 ^ 34)" using assms(3) by (intro mult_left_mono) auto
  also have "\<dots> \<le> of_nat n + of_int d / 2 ^ 34" using dx by (simp add: distrib_left)
  also have "\<dots> < of_nat n + 1" using assms(4) by simp
  finally have "of_int (d * ?L) < (of_int (int n + 1) :: rat)" by simp
  then have "d * ?L < int n + 1" by (simp only: of_int_less_iff)
  then show ?thesis using r0 L by simp
qed

lemma medal_shares_bound:
  assumes "n < 2 ^ 20"
  shows "0 \<le> medal_limit (f64 (1 / 12)) n \<and> 12 * medal_limit (f64 (1 / 12)) n \<le> int n"
    and "0 \<le> medal_limit (f64 (1 / 4)) n \<and> 4 * medal_limit (f64 (1 / 4)) n \<le> int n"
    and "0 \<le> medal_limit (f64 (1 / 2)) n \<and> 2 * medal_limit (f64 (1 / 2)) n \<le> int n"
proof -
  have "0 \<le> rat_of_f64 (f64 (1 / 12)) \<and> rat_of_f64 (f64 (1 / 12)) * 12 \<le> 1" by code_simp
  then show "0 \<le> medal_limit (f64 (1 / 12)) n \<and> 12 * medal_limit (f64 (1 / 12)) n \<le> int n"
    using assms by (intro medal_limit_bound) auto
  have "0 \<le> rat_of_f64 (f64 (1 / 4)) \<and> rat_of_f64 (f64 (1 / 4)) * 4 \<le> 1" by code_simp
  then show "0 \<le> medal_limit (f64 (1 / 4)) n \<and> 4 * medal_limit (f64 (1 / 4)) n \<le> int n"
    using assms by (intro medal_limit_bound) auto
  have "0 \<le> rat_of_f64 (f64 (1 / 2)) \<and> rat_of_f64 (f64 (1 / 2)) * 2 \<le> 1" by code_simp
  then show "0 \<le> medal_limit (f64 (1 / 2)) n \<and> 2 * medal_limit (f64 (1 / 2)) n \<le> int n"
    using assms by (intro medal_limit_bound) auto
qed

text \<open>
  How medals are to be distributed over the official rows: golds, then silvers, then
  bronzes, within a twelfth, a quarter and a half of the participants, no tie split, only
  with points, and each group as large as its share allows.
\<close>

definition medal_rule :: "string \<Rightarrow> Row list \<Rightarrow> nat \<Rightarrow> nat \<Rightarrow> nat \<Rightarrow> bool" where
  "medal_rule tb rows g s z \<longleftrightarrow>
     g \<le> s \<and> s \<le> z \<and> 12 * g \<le> length rows \<and> 4 * s \<le> length rows \<and> 2 * z \<le> length rows
     \<and> map rowMedal rows = replicate g ''gold'' @ replicate (s - g) ''silver'' @ replicate (z - s) ''bronze''
          @ replicate (length rows - z) ''''
     \<and> (\<forall>i < z. 0 < rowTotal (rows ! i))
     \<and> (\<forall>e \<in> {g, s, z}. boundary (row_cmp False tb) rows e)
     \<and> (\<forall>(e, e0, share) \<in> {(g, 0, f64 (1 / 12)), (s, g, f64 (1 / 4)), (z, s, f64 (1 / 2))}.
          \<forall>e'. boundary (row_cmp False tb) rows e' \<and> e0 \<le> e' \<and> int e' \<le> medal_limit share (length rows)
             \<and> (\<forall>i < e'. 0 < rowTotal (rows ! i)) \<longrightarrow> e' \<le> e)"

lemma boundary_unmedal:
  assumes "map unmedal xs = map unmedal ys"
  shows "boundary (row_cmp icpc tb) xs e = boundary (row_cmp icpc tb) ys e"
proof -
  have "boundary (row_cmp icpc tb) (map unmedal xs) e = boundary (row_cmp icpc tb) xs e" for xs
    by (auto simp: boundary_def)
  then show ?thesis using assms by metis
qed

lemma medals_shape:
  assumes io: "in_order p tb off" and none: "map rowMedal off = replicate (length off) ''''" and n: "length off < 2 ^ 20"
    and f: "foldl (medal_step (row_cmp False tb)) (0, off, []) medalShares = (z, o3, cuts)"
  shows "\<exists>g s. medal_rule tb o3 g s z"
proof -
  let ?c = "row_cmp False tb" and ?n = "length off"
  define g where "g = medal_end ?c off (medal_limit (f64 (1 / 12)) ?n) 0"
  define s where "s = medal_end ?c off (medal_limit (f64 (1 / 4)) ?n) g"
  define z' where "z' = medal_end ?c off (medal_limit (f64 (1 / 2)) ?n) s"
  define o1 where "o1 = give_medal ''gold'' 0 g off"
  define o2 where "o2 = give_medal ''silver'' g s o1"
  have b0: "boundary ?c off 0" by (simp add: boundary_def)
  note G = medal_end_spec [OF io b0, of "medal_limit (f64 (1 / 12)) ?n", folded g_def]
  note S = medal_end_spec [OF io conjunct1 [OF G], of "medal_limit (f64 (1 / 4)) ?n", folded s_def]
  note Z = medal_end_spec [OF io conjunct1 [OF S], of "medal_limit (f64 (1 / 2)) ?n", folded z'_def]
  have le: "g \<le> s" "s \<le> z'" "g \<le> ?n" "s \<le> ?n" "z' \<le> ?n"
    using G S Z medal_end_ge by (auto simp: s_def z'_def boundary_def)
  have u1: "map unmedal o1 = map unmedal off" unfolding o1_def by (rule unmedal_give_medal) simp
  have u2: "map unmedal o2 = map unmedal off" unfolding o2_def using unmedal_give_medal [OF le(1)] u1 by simp
  have l1: "length o1 = ?n" "length o2 = ?n" using u1 u2 map_eq_imp_length_eq by blast+
  have st: "medal_end ?c o1 (medal_limit (f64 (1 / 4)) ?n) g = s" "medal_end ?c o2 (medal_limit (f64 (1 / 2)) ?n) s = z'"
    using medal_end_cong [OF u1] medal_end_cong [OF u2] by (simp_all add: s_def z'_def)
  have z: "z = z'" and o3: "o3 = give_medal ''bronze'' s z' o2"
    using f by (auto simp: medalShares_def medal_step_def Let_def medal_limit_def [symmetric] g_def [symmetric]
        o1_def [symmetric] l1 st o2_def [symmetric])
  have u3: "map unmedal o3 = map unmedal off" unfolding o3 using unmedal_give_medal [OF le(2)] u2 by simp
  then have l3: "length o3 = ?n" using map_eq_imp_length_eq by blast
  have t3: "rowTotal (o3 ! i) = rowTotal (off ! i)" if "i < ?n" for i
    using map_unmedal_transfer [OF u3, of rowTotal] that l3 by (metis nth_map unmedal_simps(5))
  note b3 = boundary_unmedal [OF u3]
  have m1: "map rowMedal o1 = replicate g ''gold'' @ replicate (?n - g) ''''"
    unfolding o1_def using le by (simp add: give_medal_list none)
  have m2: "map rowMedal o2 = replicate g ''gold'' @ replicate (s - g) ''silver'' @ replicate (?n - s) ''''"
    unfolding o2_def using le l1 by (simp add: give_medal_list m1)
  have m3: "map rowMedal o3 = replicate g ''gold'' @ replicate (s - g) ''silver'' @ replicate (z' - s) ''bronze'' @ replicate (?n - z') ''''"
    unfolding o3 using le l1 by (simp add: give_medal_list m2)
  have sh: "12 * g \<le> ?n" "4 * s \<le> ?n" "2 * z' \<le> ?n"
    using medal_shares_bound [OF n] G S Z by linarith+
  have pos: "\<forall>i < z'. 0 < rowTotal (off ! i)"
    using G S Z by (meson not_le zero_le)
  have mx: "e' \<le> e" if "(e, e0, share) \<in> {(g, 0, f64 (1 / 12)), (s, g, f64 (1 / 4)), (z', s, f64 (1 / 2))}"
      "boundary ?c off e'" "e0 \<le> e'" "int e' \<le> medal_limit share ?n" "\<forall>i < e'. 0 < rowTotal (off ! i)" for e e0 share e'
    using that G S Z by auto
  have tot: "(\<forall>i < e. 0 < rowTotal (o3 ! i)) \<longleftrightarrow> (\<forall>i < e. 0 < rowTotal (off ! i))" if "e \<le> ?n" for e
    using t3 that by auto
  have "medal_rule tb o3 g s z'"
    unfolding medal_rule_def l3 b3 m3
  proof (intro conjI)
    show "\<forall>e \<in> {g, s, z'}. boundary ?c off e" using G S Z by auto
    show "\<forall>i < z'. 0 < rowTotal (o3 ! i)" using pos tot le by auto
    show "\<forall>(e, e0, share) \<in> {(g, 0, f64 (1 / 12)), (s, g, f64 (1 / 4)), (z', s, f64 (1 / 2))}.
        \<forall>e'. boundary ?c off e' \<and> e0 \<le> e' \<and> int e' \<le> medal_limit share ?n \<and> (\<forall>i < e'. 0 < rowTotal (o3 ! i)) \<longrightarrow> e' \<le> e"
      using mx tot by (fastforce simp: boundary_def)
  qed (use le sh in auto)
  then show ?thesis using z by blast
qed

lemma places_medal: "row \<in> set (places_loop cmp prev n rows) \<Longrightarrow> rowMedal row = ''''"
  by (induction rows arbitrary: prev n) (auto simp: Let_def split: if_splits)

lemma map_constant: "\<forall>x \<in> set xs. f x = c \<Longrightarrow> map f xs = replicate (length xs) c"
  by (induction xs) auto

lemma put_back_unplaced:
  "map unmedal official = map unmedal (filter placed rows) \<Longrightarrow> row \<in> set (put_back rows official) \<Longrightarrow> \<not> placed row \<Longrightarrow> row \<in> set rows"
proof (induction rows arbitrary: official)
  case (Cons r rows)
  show ?case
  proof (cases "placed r")
    case True
    with Cons.prems obtain x xs where o: "official = x # xs" "unmedal x = unmedal r" "map unmedal xs = map unmedal (filter placed rows)"
      by (cases official) auto
    then have "placed x" using True by (metis unmedal_simps(3))
    with o Cons.prems True show ?thesis using Cons.IH [OF o(3)] by auto
  qed (use Cons in auto)
qed simp

text \<open>
  The medals of a score contest follow the rule: at most a twelfth of the
  official, visible participants get gold, a quarter gold or silver, half any medal; only
  with points; nobody outranks a better medal; a tie is never split; and each group is the
  largest that stays within its share. Unofficial and hidden rows get none.
\<close>

theorem finish_medals:
  assumes "rkPrecision (bR b) \<le> 8" "\<forall>row \<in> set (rkRows (finish b)). moderate row"
    and "\<not> rkICPC (bR b)" "cMedals (bC b) \<noteq> ''none''" "length (rkRows (bR b)) < 2 ^ 20"
  shows "(\<exists>g s z. medal_rule (rkTieBreak (bR b)) (filter placed (rkRows (finish b))) g s z)
    \<and> (\<forall>row \<in> set (rkRows (finish b)). \<not> placed row \<longrightarrow> rowMedal row = '''')"
proof -
  let ?tb = "rkTieBreak (bR b)" and ?r = "places (sort_rows ((bR b)\<lparr>rkRows := totalled b\<rparr>))"
  have fin: "finish b = medals ?r" using assms(3,4) by (simp add: finish_def Let_def totalled_def)
  note ok = finish_ok [OF assms(1,2)]
  have sorted: "sorted (map (row_key False ?tb) (rkRows (finish b)))" using finish_facts(1) [OF ok] assms(3) by simp
  note tr = map_unmedal_transfer [OF medals_unmedal [of ?r]]
  let ?off = "filter placed (rkRows ?r)"
  have io: "in_order (rkPrecision (bR b)) ?tb ?off"
  proof (unfold in_order_def, intro conjI)
    have "sorted (map (row_key False ?tb) (rkRows ?r))" using sorted tr [of "row_key False ?tb"] fin by simp
    then show "sorted (map (row_key False ?tb) ?off)" by (rule sorted_filter)
    show "\<forall>row \<in> set ?off. row_ok (rkPrecision (bR b)) row"
      using ok list_all_map_eq [OF tr [of "row_ok (rkPrecision (bR b))"]] fin by auto
  qed
  have med: "\<forall>row \<in> set (rkRows ?r). rowMedal row = ''''" by (auto simp: places_def dest: places_medal)
  then have "map rowMedal ?off = replicate (length ?off) ''''" by (intro map_constant) auto
  moreover have "length (rkRows ?r) = length (rkRows (bR b))"
    using map_eq_imp_length_eq [OF places_loop_core] by (simp add: places_def sort_rows_def Let_def totalled_def)
  then have "length ?off < 2 ^ 20" using assms(5) length_filter_le [of placed "rkRows ?r"] by linarith
  moreover obtain z o3 cuts where f: "foldl (medal_step (row_cmp False ?tb)) (0, ?off, []) medalShares = (z, o3, cuts)"
    by (metis prod_cases3)
  ultimately obtain g s where "medal_rule ?tb o3 g s z" using medals_shape [OF io] by blast
  moreover have rows: "rkRows (finish b) = put_back (rkRows ?r) o3"
    unfolding fin medals_def using f assms(3) by simp
  note u = medal_steps_unmedal [OF f]
  have "filter placed (rkRows (finish b)) = o3" unfolding rows by (rule put_back_placed [OF u])
  moreover have "\<forall>row \<in> set (rkRows (finish b)). \<not> placed row \<longrightarrow> rowMedal row = ''''"
    using put_back_unplaced [OF u] med by (auto simp: rows)
  ultimately show ?thesis by blast
qed

section \<open>An example ranking\<close>

text \<open>One task; three contestants, two of them tied, and a hidden one with the best score.\<close>

definition ex_contest :: Contest where
  "ex_contest = \<lparr>cID = 1, cName = ''c'', cTitle = '''', cDescription = '''', cStartTime = 0, cStopTime = 3600000000000,
     cTimezone = ''UTC'', cPerUserTimeS = None, cScorePrecision = 0, cScoringMode = ''ioi'', cIcpcPenaltyMinutes = 20,
     cRankingFreezeTime = None, cRankingFreezeMinutes = 0, cRankingUnfrozen = False, cTeamMode = False,
     cRankingShowSubtasks = False, cRankingShowFlags = False, cRankingShowInstitutions = False, cRankingShowPhotos = False,
     cRankingAnonymous = False, cMedals = ''public'', cRankingTieBreak = ''shared''\<rparr>"

definition ex_row :: "int \<Rightarrow> string \<Rightarrow> bool \<Rightarrow> rat \<Rightarrow> Row" where
  "ex_row i nm hidden sc = (new_row 1 \<lparr>prID = i, prUserID = i, prStartingTime = None, prDelayTimeS = 0, prHidden = hidden,
     prUnrestricted = False, prSiteID = None, prApproved = True, prUnofficial = False, prUsername = nm, prFirstName = '''',
     prLastName = '''', prInstitution = '''', prCountry = '''', prUserPhoto = None, prTeamCode = None, prTeamName = None,
     prTeamFlag = None, prTeamInstitution = None, prSiteName = None, prSiteStartTime = None\<rparr>)
     \<lparr>rowCells := [zero_cell\<lparr>ceScore := f64 sc\<rparr>]\<rparr>"

definition ex_build :: build where
  "ex_build = \<lparr>bC = ex_contest,
     bR = \<lparr>rkContestID = 1, rkContest = ''c'', rkICPC = False, rkPrecision = 0, rkTasks = [],
           rkRows = [ex_row 1 ''ann'' False 50, ex_row 2 ''bob'' True 90, ex_row 3 ''cyd'' False 50, ex_row 4 ''dan'' False 70],
           rkGenerated = 0, rkCutoffs = [], rkUnofficial = False, rkTieBreak = ''shared''\<rparr>,
     rowIdx = Map.empty, taskIdx = Map.empty, starts = Map.empty\<rparr>"

lemma moderate_finish: "(\<forall>row \<in> set (rkRows (finish b)). moderate row) \<longleftrightarrow> (\<forall>row \<in> set (totalled b). moderate row)"
proof -
  have "map moderate (map2 (\<lambda>row rk. row\<lparr>rowRank := rk\<rparr>) rows ks) = map moderate rows"
    if "length ks = length rows" for ks and rows :: "Row list"
    using that by (induction ks rows rule: list_induct2) (simp_all add: moderate_def)
  then have "map moderate (ranked_of b) = map moderate (sorted_of b)" by (simp add: ranked_of_def)
  moreover have "map moderate (rkRows (finish b)) = map moderate (ranked_of b)"
    by (rule map_core_transfer [OF finish_core]) (simp add: moderate_def)
  ultimately have "map moderate (rkRows (finish b)) = map moderate (sorted_of b)" by simp
  from list_all_map_eq [OF this] show ?thesis by (simp add: sorted_of_def)
qed

lemma ex_build_moderate: "\<forall>row \<in> set (rkRows (finish ex_build)). moderate row"
proof -
  have "list_all moderate (totalled ex_build)" by code_simp
  then show ?thesis by (simp add: list_all_iff moderate_finish)
qed

lemma ex_build_fields: "rkPrecision (bR ex_build) \<le> 8" "\<not> rkICPC (bR ex_build)" "cMedals (bC ex_build) \<noteq> ''none''"
  "length (rkRows (bR ex_build)) < 2 ^ 20"
  by (simp_all add: ex_build_def ex_contest_def)

theorem finish_ranks_witness:
  "mset (map rowParticipationID (rkRows (finish ex_build))) = {#1, 2, 3, 4#}
   \<and> map rowRank (rkRows (finish ex_build)) =
         map (\<lambda>row. 1 + length (filter (\<lambda>x. row_cmp False ''shared'' x row < 0) (rkRows (finish ex_build)))) (rkRows (finish ex_build))"
  using finish_ranks [OF ex_build_fields(1) ex_build_moderate]
  by (simp add: ex_build_def ex_row_def new_row_def)

theorem finish_places_witness:
  "map rowPlace (rkRows (finish ex_build)) =
     map (\<lambda>row. if placed row
                then 1 + length (filter (\<lambda>x. placed x \<and> row_cmp False ''shared'' x row < 0) (rkRows (finish ex_build)))
                else 0) (rkRows (finish ex_build))"
proof -
  have "rkICPC (bR ex_build) = False" "rkTieBreak (bR ex_build) = ''shared''" by (simp_all add: ex_build_def)
  with finish_places [OF ex_build_fields(1) ex_build_moderate] show ?thesis by (simp add: map_eq_conv)
qed

theorem finish_medals_witness:
  "\<exists>g s z. medal_rule ''shared'' (filter placed (rkRows (finish ex_build))) g s z"
proof -
  have "rkTieBreak (bR ex_build) = ''shared''" by (simp add: ex_build_def)
  then show ?thesis
    using finish_medals [OF ex_build_fields(1) ex_build_moderate ex_build_fields(2-4)] by simp
qed

end
