(* ===== verification/Ranking_Replay.thy ===== *)
theory Ranking_Replay
  imports Ranking_Core "HOL-Library.AList"
begin

text \<open>
  The freeze and the replay of a ranking (\<^verbatim>\<open>src/internal/ranking/replay.go\<close>): the
  ranking is rebuilt from the submissions made before an instant, later ones
  show as pending, and every participant's score history comes with it.

  Go iterates over a map in no fixed order; where the replay adds up the tasks of a
  participant that way, the order is the parameter \<open>iter\<close>, a permutation of the entries.
\<close>

section \<open>The freeze\<close>

definition FreezeAt :: "Contest \<Rightarrow> time option" where
  "FreezeAt c =
     (if cRankingFreezeMinutes c > 0
      then Some (t_add (cStopTime c) (dmul (wrap64 (- cRankingFreezeMinutes c)) minute))
      else cRankingFreezeTime c)"

definition Frozen :: "Contest \<Rightarrow> time \<Rightarrow> bool" where
  "Frozen c now \<longleftrightarrow>
     (case FreezeAt c of None \<Rightarrow> False | Some f \<Rightarrow> \<not> before now f \<and> \<not> cRankingUnfrozen c)"

section \<open>The replay\<close>

type_synonym rkey = "int \<times> int"

definition sub_key :: "SubmissionRow \<Rightarrow> rkey" where
  "sub_key s = (sbParticipationID s, sbTaskID s)"

definition adj_key :: "AdjustmentRow \<Rightarrow> rkey" where
  "adj_key a = (ajParticipationID a, ajTaskID a)"

text \<open>Keys in the order of their first appearance.\<close>

definition first_seen :: "'a list \<Rightarrow> 'a list" where
  "first_seen xs = rev (remdups (rev xs))"

definition before_cutoff :: "time option \<Rightarrow> time \<Rightarrow> bool" where
  "before_cutoff cutoff t \<longleftrightarrow> (case cutoff of None \<Rightarrow> True | Some c \<Rightarrow> before t c)"

definition replay_order :: "rkey list \<Rightarrow> rkey list \<Rightarrow> rkey list" where
  "replay_order subs adjs = first_seen subs @ first_seen (filter (\<lambda>k. k \<notin> set subs) adjs)"

record change =
  chT :: time
  chTid :: int
  chValue :: f64

text \<open>The state of the loop over one participation and task.\<close>

record grp =
  gPrefix :: "Submission list"
  gAfter :: nat
  gAdjs :: "AdjustmentRow list"
  gAdjusted :: f64
  gLastScore :: f64
  gChanges :: "change list"

fun adjust_loop :: "int \<Rightarrow> time option \<Rightarrow> f64 \<Rightarrow> AdjustmentRow list \<Rightarrow> f64 \<Rightarrow> change list \<Rightarrow>
    AdjustmentRow list \<times> f64 \<times> change list" where
  "adjust_loop tid t lst [] adjusted chs = ([], adjusted, chs)"
| "adjust_loop tid t lst (a # as) adjusted chs =
     (if before_cutoff t (ajCreatedAt a)
      then adjust_loop tid t lst as (adjusted + ajPoints a)
             (chs @ [\<lparr>chT = ajCreatedAt a, chTid = tid, chValue = lst + (adjusted + ajPoints a)\<rparr>])
      else (a # as, adjusted, chs))"

definition adjustUntil :: "int \<Rightarrow> time option \<Rightarrow> grp \<Rightarrow> grp" where
  "adjustUntil tid t g =
     (case adjust_loop tid t (gLastScore g) (gAdjs g) (gAdjusted g) (gChanges g) of
        (as, adjusted, chs) \<Rightarrow> g\<lparr>gAdjs := as, gAdjusted := adjusted, gChanges := chs\<rparr>)"

definition submission_of :: "SubmissionRow \<Rightarrow> Submission" where
  "submission_of s =
     \<lparr>subID = sbID s, subTime = sbSubmittedAt s, subOfficial = True, subTokened = sbTokened s,
      subScored = (sbScoredAt s \<noteq> None), subCompileError = (sbCompilationOutcome s = Some ''fail''),
      subScore = (case sbScore s of None \<Rightarrow> 0 | Some v \<Rightarrow> v), subSubtasks = lenient_floats (sbRankingScoreDetails s)\<rparr>"

definition replay_sub :: "bool \<Rightarrow> Task \<Rightarrow> int \<Rightarrow> time option \<Rightarrow> grp \<Rightarrow> SubmissionRow \<Rightarrow> grp" where
  "replay_sub icpc task tid cutoff g s =
     (if \<not> before_cutoff cutoff (sbSubmittedAt s) then g\<lparr>gAfter := gAfter g + 1\<rparr>
      else
        (let g = adjustUntil tid (Some (sbSubmittedAt s)) g;
             ss = submission_of s;
             g = g\<lparr>gPrefix := gPrefix g @ [ss]\<rparr>
         in if \<not> subScored ss then g
            else
              (let g = g\<lparr>gLastScore := taScore (Aggregate (scoreMode task) (gPrefix g) (taskPrecision task))\<rparr>;
                   v = (if icpc then (if icSolved (ICPC (gPrefix g) (taskMaxScore task)) then 1 else 0)
                        else gLastScore g + gAdjusted g)
               in g\<lparr>gChanges := gChanges g @ [\<lparr>chT = sbSubmittedAt s, chTid = tid, chValue = v\<rparr>]\<rparr>)))"

definition replay_group :: "bool \<Rightarrow> Task \<Rightarrow> int \<Rightarrow> time option \<Rightarrow> SubmissionRow list \<Rightarrow> AdjustmentRow list \<Rightarrow> grp" where
  "replay_group icpc task tid cutoff subs adjs =
     adjustUntil tid None
       (foldl (replay_sub icpc task tid cutoff)
          \<lparr>gPrefix = [], gAfter = 0, gAdjs = adjs, gAdjusted = 0, gLastScore = 0, gChanges = []\<rparr> subs)"

definition group_cell :: "build \<Rightarrow> int \<Rightarrow> Task \<Rightarrow> grp \<Rightarrow> Cell" where
  "group_cell b pid task g =
     (let ts = Aggregate (scoreMode task) (gPrefix g) (taskPrecision task);
          ic = ICPC (gPrefix g) (taskMaxScore task);
          cell = \<lparr>ceScore = taScore ts + gAdjusted g, ceSubtasks = taSubtasks ts,
                  ceSubmitted = (length (gPrefix g) + gAfter g > 0 \<or> gAdjusted g \<noteq> 0),
                  cePending = int (taPending ts) + int (gAfter g), ceSolved = icSolved ic, ceAttempts = int (icAttempts ic),
                  ceSolvedAt = icSolvedAt ic, ceSolvedMinute = 0, ceAdjustment = gAdjusted g,
                  ceReachedAt = taReached ts, ceElapsed = 0\<rparr>;
          cell = (if ceSolved cell then cell\<lparr>ceSolvedMinute := solvedMinute b pid (ceSolvedAt cell)\<rparr> else cell)
      in setElapsed b pid cell)"

definition replay_key :: "time option \<Rightarrow> SubmissionRow list \<Rightarrow> AdjustmentRow list \<Rightarrow> build \<times> (int \<times> change list) list \<Rightarrow> rkey \<Rightarrow>
    build \<times> (int \<times> change list) list" where
  "replay_key cutoff subs adjs = (\<lambda>(b, changes) (pid, tid).
     case (rowIdx b pid, taskIdx b tid) of
       (Some ri, Some ti) \<Rightarrow>
         (let task = rkTasks (bR b) ! ti;
              g = replay_group (rkICPC (bR b)) task tid cutoff
                    (filter (\<lambda>s. sub_key s = (pid, tid)) subs) (filter (\<lambda>a. adj_key a = (pid, tid)) adjs)
          in (set_cell b ri ti (group_cell b pid task g), changes @ [(pid, gChanges g)]))
     | _ \<Rightarrow> (b, changes))"

section \<open>The history\<close>

record Point =
  ptTime :: time
  ptTotal :: f64

definition history_step :: "((int \<times> f64) list \<Rightarrow> (int \<times> f64) list) \<Rightarrow> nat \<Rightarrow> (int \<times> f64) list \<times> Point list \<Rightarrow> change \<Rightarrow>
    (int \<times> f64) list \<times> Point list" where
  "history_step iter precision = (\<lambda>(cur, pts) c.
     let cur = AList.update (chTid c) (chValue c) cur;
         tot = round_score (foldl (+) 0 (map snd (iter cur))) precision
     in if pts \<noteq> [] \<and> ptTotal (last pts) = tot then (cur, pts)
        else (cur, pts @ [\<lparr>ptTime = chT c, ptTotal = tot\<rparr>]))"

definition history_of :: "((int \<times> f64) list \<Rightarrow> (int \<times> f64) list) \<Rightarrow> nat \<Rightarrow> change list \<Rightarrow> Point list" where
  "history_of iter precision cs =
     snd (foldl (history_step iter precision) ([], []) (stable_sort (\<lambda>a b. before (chT a) (chT b)) cs))"

definition changes_of :: "(int \<times> change list) list \<Rightarrow> int \<Rightarrow> change list" where
  "changes_of changes pid = concat (map snd (filter (\<lambda>(p, _). p = pid) changes))"

definition history :: "((int \<times> f64) list \<Rightarrow> (int \<times> f64) list) \<Rightarrow> nat \<Rightarrow> (int \<times> change list) list \<Rightarrow> (int \<rightharpoonup> Point list)" where
  "history iter precision changes pid =
     (if changes_of changes pid = [] then None else Some (history_of iter precision (changes_of changes pid)))"

definition Replay :: "regexp \<Rightarrow> ((int \<times> f64) list \<Rightarrow> (int \<times> f64) list) \<Rightarrow> Queries \<Rightarrow> int \<Rightarrow> time option \<Rightarrow> Options \<Rightarrow> time \<Rightarrow>
    (string, Ranking \<times> (int \<rightharpoonup> Point list)) result" where
  "Replay re iter q contestID cutoff opt now =
     bind_result (newBuild re q contestID opt now) (\<lambda>b.
     bind_result (ListContestSubmissionsForRanking q contestID) (\<lambda>subs.
     bind_result (if rkICPC (bR b) then Inr [] else ListContestScoreAdjustments q contestID) (\<lambda>all_adjs.
       let adjs = filter (\<lambda>a. before_cutoff cutoff (ajCreatedAt a)) all_adjs;
           order = replay_order (map sub_key subs) (map adj_key adjs);
           (b, changes) = foldl (replay_key cutoff subs adjs) (b, []) order
       in Inr (finish b, history iter (rkPrecision (bR b)) changes))))"

section \<open>What a replay counts\<close>

lemma subOfficial_of [simp]: "subOfficial (submission_of s)"
  by (simp add: submission_of_def)

lemma adjust_loop_sum:
  "adjust_loop tid t lst as adjusted chs = (as', adjusted', chs') \<Longrightarrow>
   foldl (+) adjusted' (map ajPoints as') = foldl (+) adjusted (map ajPoints as) \<and> (t = None \<longrightarrow> as' = [])"
  by (induction as arbitrary: adjusted chs) (auto simp: before_cutoff_def split: if_splits)

lemma adjustUntil_fields:
  "foldl (+) (gAdjusted (adjustUntil tid t g)) (map ajPoints (gAdjs (adjustUntil tid t g))) = foldl (+) (gAdjusted g) (map ajPoints (gAdjs g))"
  "gPrefix (adjustUntil tid t g) = gPrefix g" "gAfter (adjustUntil tid t g) = gAfter g"
  "gAdjs (adjustUntil tid None g) = []"
proof -
  obtain as adjusted chs where a: "adjust_loop tid t (gLastScore g) (gAdjs g) (gAdjusted g) (gChanges g) = (as, adjusted, chs)"
    by (metis prod_cases3)
  with adjust_loop_sum [OF a] show
    "foldl (+) (gAdjusted (adjustUntil tid t g)) (map ajPoints (gAdjs (adjustUntil tid t g))) = foldl (+) (gAdjusted g) (map ajPoints (gAdjs g))"
    "gPrefix (adjustUntil tid t g) = gPrefix g" "gAfter (adjustUntil tid t g) = gAfter g"
    by (simp_all add: adjustUntil_def)
  obtain as adjusted chs where a: "adjust_loop tid None (gLastScore g) (gAdjs g) (gAdjusted g) (gChanges g) = (as, adjusted, chs)"
    by (metis prod_cases3)
  with adjust_loop_sum [OF a] show "gAdjs (adjustUntil tid None g) = []" by (simp add: adjustUntil_def)
qed

lemma replay_sub_fields:
  "gPrefix (replay_sub icpc task tid cutoff g s) =
     gPrefix g @ (if before_cutoff cutoff (sbSubmittedAt s) then [submission_of s] else [])"
  "gAfter (replay_sub icpc task tid cutoff g s) = gAfter g + (if before_cutoff cutoff (sbSubmittedAt s) then 0 else 1)"
  "foldl (+) (gAdjusted (replay_sub icpc task tid cutoff g s)) (map ajPoints (gAdjs (replay_sub icpc task tid cutoff g s)))
     = foldl (+) (gAdjusted g) (map ajPoints (gAdjs g))"
  by (simp_all add: replay_sub_def Let_def adjustUntil_fields)

lemma replay_subs_fold:
  "gPrefix (foldl (replay_sub icpc task tid cutoff) g subs) =
     gPrefix g @ map submission_of (filter (\<lambda>s. before_cutoff cutoff (sbSubmittedAt s)) subs)"
  "gAfter (foldl (replay_sub icpc task tid cutoff) g subs) =
     gAfter g + length (filter (\<lambda>s. \<not> before_cutoff cutoff (sbSubmittedAt s)) subs)"
  "foldl (+) (gAdjusted (foldl (replay_sub icpc task tid cutoff) g subs)) (map ajPoints (gAdjs (foldl (replay_sub icpc task tid cutoff) g subs)))
     = foldl (+) (gAdjusted g) (map ajPoints (gAdjs g))"
  by (induction subs arbitrary: g) (simp_all add: replay_sub_fields)

text \<open>
  The replayed cell of a participation on a task: the score of the submissions
  made before the cutoff in the task's mode plus all the adjustments, each counted once; the
  submissions from the cutoff on count only as pending, next to the unscored earlier ones.
\<close>

theorem replay_cell_spec:
  "let g = replay_group icpc task tid cutoff subs adjs;
       prefix = map submission_of (filter (\<lambda>s. before_cutoff cutoff (sbSubmittedAt s)) subs);
       late = length (filter (\<lambda>s. \<not> before_cutoff cutoff (sbSubmittedAt s)) subs);
       cell = group_cell b pid task g
   in ceScore cell = taScore (Aggregate (scoreMode task) prefix (taskPrecision task)) + foldl (+) 0 (map ajPoints adjs)
      \<and> cePending cell = int (length (filter (\<lambda>s. \<not> subScored s) prefix)) + int late
      \<and> ceSolved cell = icSolved (ICPC prefix (taskMaxScore task))
      \<and> (ceSubmitted cell \<longleftrightarrow> \<not> (subs = [] \<and> foldl (+) 0 (map ajPoints adjs) = 0))"
proof -
  let ?g = "replay_group icpc task tid cutoff subs adjs"
  let ?before = "\<lambda>s. before_cutoff cutoff (sbSubmittedAt s)"
  have a: "gAdjusted ?g = foldl (+) 0 (map ajPoints adjs)"
    using adjustUntil_fields(1) [of tid None] adjustUntil_fields(4) by (simp add: replay_group_def replay_subs_fold)
  have p: "gPrefix ?g = map submission_of (filter ?before subs)" "gAfter ?g = length (filter (\<lambda>s. \<not> ?before s) subs)"
    by (simp_all add: replay_group_def adjustUntil_fields replay_subs_fold)
  have "length (filter ?before subs) + length (filter (\<lambda>s. \<not> ?before s) subs) > 0 \<longleftrightarrow> subs \<noteq> []"
    using length_filter_split [of subs ?before] by (cases subs) auto
  then show ?thesis
    by (auto simp: Let_def group_cell_def setElapsed_def a p Aggregate_def split: prod.split)
qed

section \<open>A frozen ranking reveals nothing\<close>

definition later_changed :: "time option \<Rightarrow> SubmissionRow \<Rightarrow> SubmissionRow \<Rightarrow> bool" where
  "later_changed cutoff s s' \<longleftrightarrow> s = s' \<or>
     sub_key s = sub_key s' \<and> \<not> before_cutoff cutoff (sbSubmittedAt s) \<and> \<not> before_cutoff cutoff (sbSubmittedAt s')"

lemma replay_sub_later: "later_changed cutoff s s' \<Longrightarrow> replay_sub icpc task tid cutoff g s = replay_sub icpc task tid cutoff g s'"
  by (auto simp: later_changed_def replay_sub_def)

lemma replay_fold_later:
  "list_all2 (later_changed cutoff) subs subs' \<Longrightarrow>
   foldl (replay_sub icpc task tid cutoff) g subs = foldl (replay_sub icpc task tid cutoff) g subs'"
proof (induction subs subs' arbitrary: g rule: list_all2_induct)
  case (Cons x xs y ys)
  then show ?case using replay_sub_later [OF Cons.hyps(1), of icpc task tid g] by simp
qed simp

lemma later_keys: "list_all2 (later_changed cutoff) subs subs' \<Longrightarrow> map sub_key subs = map sub_key subs'"
  by (induction subs subs' rule: list_all2_induct) (auto simp: later_changed_def)

lemma later_filter:
  "list_all2 (later_changed cutoff) subs subs' \<Longrightarrow>
   list_all2 (later_changed cutoff) (filter (\<lambda>s. sub_key s = k) subs) (filter (\<lambda>s. sub_key s = k) subs')"
  by (induction subs subs' rule: list_all2_induct) (auto simp: later_changed_def)

lemma replay_key_later:
  assumes "list_all2 (later_changed cutoff) subs subs'"
  shows "replay_key cutoff subs adjs = replay_key cutoff subs' adjs"
proof -
  have eq: "replay_group icpc task tid cutoff (filter (\<lambda>s. sub_key s = k) subs) as =
      replay_group icpc task tid cutoff (filter (\<lambda>s. sub_key s = k) subs') as" for icpc task tid k as
    by (simp add: replay_group_def replay_fold_later [OF later_filter [OF assms]])
  show ?thesis unfolding replay_key_def eq ..
qed


text \<open>A contest with one task and one participant who submits before and after the freeze.\<close>

definition ex_submission :: "time \<Rightarrow> f64 option \<Rightarrow> SubmissionRow" where
  "ex_submission t sc = \<lparr>sbID = 1, sbParticipationID = 1, sbTaskID = 1, sbSubmittedAt = t, sbTokened = False,
     sbCompilationOutcome = Some ''ok'', sbScore = sc, sbRankingScoreDetails = None,
     sbScoredAt = map_option (\<lambda>_. t) sc\<rparr>"

definition ex_queries :: Queries where
  "ex_queries = \<lparr>GetContest = \<lambda>_. Inr ex_contest,
     ListTasksByContest = \<lambda>_. Inr [\<lparr>trID = 1, trName = ''sum'', trTitle = ''Sum'', trScorePrecision = 0, trScoreMode = ''max''\<rparr>],
     ListLiveDatasetsByContest = \<lambda>_. Inr [], ListTestcasesByDatasets = \<lambda>_. Inr [],
     ListParticipationsByContest = \<lambda>_. Inr [\<lparr>prID = 1, prUserID = 1, prStartingTime = None, prDelayTimeS = 0, prHidden = False,
       prUnrestricted = False, prSiteID = None, prApproved = True, prUnofficial = False, prUsername = ''ann'', prFirstName = '''',
       prLastName = '''', prInstitution = '''', prCountry = '''', prUserPhoto = None, prTeamCode = None, prTeamName = None,
       prTeamFlag = None, prTeamInstitution = None, prSiteName = None, prSiteStartTime = None\<rparr>],
     ListParticipationTaskScoresByContest = \<lambda>_. Inr [],
     ListContestSubmissionsForRanking = \<lambda>_. Inr [ex_submission 10 (Some (f64 30)), ex_submission 200 (Some (f64 100))],
     ListContestScoreAdjustments = \<lambda>_. Inr []\<rparr>"


text \<open>
  The public ranking freezes in the last minutes of the contest: with a freeze
  of \<open>m\<close> minutes it is frozen from \<open>m\<close> minutes before the end on, until it is unfrozen; without one
  the explicit freeze time counts, and with neither it never freezes. (The duration of the freeze
  is a 64 bit number of nanoseconds: it does not overflow up to a hundred million minutes.)
\<close>

theorem Frozen_spec:
  assumes "cRankingFreezeMinutes c \<le> 100000000"
  shows "Frozen c now \<longleftrightarrow> \<not> cRankingUnfrozen c \<and>
    (if cRankingFreezeMinutes c > 0 then cStopTime c - cRankingFreezeMinutes c * minute \<le> now
     else (case cRankingFreezeTime c of None \<Rightarrow> False | Some f \<Rightarrow> f \<le> now))"
proof -
  have "wrap64 (- cRankingFreezeMinutes c) = - cRankingFreezeMinutes c"
    "dmul (- cRankingFreezeMinutes c) minute = - (cRankingFreezeMinutes c * minute)" if "cRankingFreezeMinutes c > 0"
    using assms that by (simp_all add: dmul_def minute_def wrap64_id in_i64_def)
  then show ?thesis
    by (auto simp: Frozen_def FreezeAt_def t_add_def before_def split: option.splits)
qed

theorem Frozen_spec_witness:
  "Frozen (ex_contest\<lparr>cRankingFreezeMinutes := 30\<rparr>) 1800000000000"
  using Frozen_spec [of "ex_contest\<lparr>cRankingFreezeMinutes := 30\<rparr>" 1800000000000]
  by (simp add: ex_contest_def minute_def)

end
