(* ===== verification/Ranking_Board.thy ===== *)
theory Ranking_Board
  imports Ranking_Replay
begin

text \<open>
  The public scoreboard (\<^verbatim>\<open>src/internal/ranking/board.go\<close>): the ranking after the
  contest's presentation settings (anonymity, teams, subtasks, flags, photos, institutions,
  freeze), and the difference of two boards that is sent to the ranking web servers.

  Rows travel as JSON. Two rows have the same encoding exactly when they agree in the fields
  that are encoded, so the encoding of a row is modelled by \<open>visible\<close>, the row with its other
  fields cleared.
\<close>

section \<open>Data\<close>

record BoardTask =
  btName :: string
  btTitle :: string
  btMaxScore :: f64
  btSubtaskMax :: "f64 list"
  btPrecision :: nat

record BoardCell =
  bcScore :: f64
  bcSubtasks :: "f64 list"
  bcSubmitted :: bool
  bcPending :: int
  bcSolved :: bool
  bcAttempts :: int
  bcMinute :: int
  bcAdjustment :: f64
  bcElapsed :: int
  bcSubAt :: "int list"

record BoardRow =
  brKey :: string
  brRank :: nat
  brName :: string
  brTeam :: string
  brFlag :: string
  brPhoto :: string
  brInstitution :: string
  brTotal :: f64
  brSolved :: int
  brPenalty :: int
  brCells :: "BoardCell list"
  brMembers :: "int list"
  brUnofficial :: bool
  brPlace :: nat
  brMedal :: string
  brReached :: "int option"

record Board =
  bdContest :: string
  bdTitle :: string
  bdICPC :: bool
  bdPrecision :: nat
  bdStart :: time
  bdStop :: time
  bdTimezone :: string
  bdFrozen :: bool
  bdFreezeAt :: "time option"
  bdTeams :: bool
  bdSubtasks :: bool
  bdFlags :: bool
  bdPhotos :: bool
  bdInstitutions :: bool
  bdTasks :: "BoardTask list"
  bdRows :: "BoardRow list"
  bdGenerated :: time
  bdUnofficial :: bool
  bdCutoffs :: "Cutoff list"

section \<open>Team rows\<close>

definition earlier :: "int \<Rightarrow> int \<Rightarrow> bool" where
  "earlier a b \<longleftrightarrow> a \<ge> 0 \<and> (b < 0 \<or> a < b)"

text \<open>One step of the loop over a member's subtasks: scores and, beside them, their times.\<close>

definition merge_subtask :: "int \<Rightarrow> f64 list \<times> int list \<Rightarrow> nat \<times> f64 \<Rightarrow> f64 list \<times> int list" where
  "merge_subtask e = (\<lambda>(subs, ats) (k, v).
     if k < length subs
     then (subs[k := max (subs ! k) v],
           if v > subs ! k \<or> v = subs ! k \<and> earlier e (ats ! k) then ats[k := e] else ats)
     else (subs @ [v], ats @ [e]))"

definition best_per_subtask :: "Task \<Rightarrow> BoardCell \<Rightarrow> BoardCell" where
  "best_per_subtask task tc =
     (if scoreMode task = ''max_subtask'' \<and> bcSubtasks tc \<noteq> []
      then tc\<lparr>bcScore := round_score (foldl (+) (bcAdjustment tc) (bcSubtasks tc)) (taskPrecision task),
              bcElapsed := foldl (\<lambda>e (v, a). if v > 0 then max e a else e) (-1) (zip (bcSubtasks tc) (bcSubAt tc))\<rparr>
      else tc)"

definition merge_cell :: "bool \<Rightarrow> Task \<Rightarrow> BoardCell \<Rightarrow> BoardCell \<Rightarrow> BoardCell" where
  "merge_cell icpc task tc mc =
     (let tc = tc\<lparr>bcSubmitted := bcSubmitted tc \<or> bcSubmitted mc, bcPending := bcPending tc + bcPending mc\<rparr>
      in if icpc then
           (if bcSolved mc \<and> (\<not> bcSolved tc \<or> bcMinute mc < bcMinute tc)
            then tc\<lparr>bcSolved := True, bcMinute := bcMinute mc, bcAttempts := bcAttempts mc, bcElapsed := bcElapsed mc\<rparr>
            else if \<not> bcSolved tc then tc\<lparr>bcAttempts := bcAttempts tc + bcAttempts mc\<rparr>
            else tc)
         else
           (let ats = bcSubAt tc @ replicate (length (bcSubtasks tc) - length (bcSubAt tc)) (bcElapsed tc);
                (subs, ats) = foldl (merge_subtask (bcElapsed mc)) (bcSubtasks tc, ats) (enumerate 0 (bcSubtasks mc));
                tc = tc\<lparr>bcSubtasks := subs, bcSubAt := ats\<rparr>;
                tc = (if bcScore mc > bcScore tc \<or> bcScore mc = bcScore tc \<and> earlier (bcElapsed mc) (bcElapsed tc)
                      then tc\<lparr>bcElapsed := bcElapsed mc\<rparr> else tc);
                tc = tc\<lparr>bcScore := max (bcScore tc) (bcScore mc), bcAdjustment := bcAdjustment tc + bcAdjustment mc\<rparr>
            in best_per_subtask task tc))"

text \<open>Both rows have one cell per task.\<close>

definition mergeTeam :: "BoardRow \<Rightarrow> BoardRow \<Rightarrow> bool \<Rightarrow> Task list \<Rightarrow> BoardRow" where
  "mergeTeam t m icpc tasks =
     t\<lparr>brMembers := brMembers t @ brMembers m,
       brCells := map (\<lambda>(tc, mc, task). merge_cell icpc task tc mc) (zip (brCells t) (zip (brCells m) tasks))\<rparr>"

section \<open>Ranks of a board\<close>

definition board_cmp :: "bool \<Rightarrow> string \<Rightarrow> BoardRow \<Rightarrow> BoardRow \<Rightarrow> int" where
  "board_cmp icpc tieBreak x y =
     compareRows icpc tieBreak (brTotal x) (brTotal y) (brSolved x) (brSolved y) (brPenalty x) (brPenalty y)
       (brReached x) (brReached y)"

definition add_board_cell :: "bool \<Rightarrow> int \<Rightarrow> f64 \<times> int \<times> int \<Rightarrow> BoardCell \<Rightarrow> f64 \<times> int \<times> int" where
  "add_board_cell icpc penaltyMinutes = (\<lambda>(tot, solved, penalty) cell.
     if icpc \<and> bcSolved cell
     then (tot + bcScore cell, wrap64 (solved + 1), wrap64 (penalty + (bcMinute cell + penaltyMinutes * bcAttempts cell)))
     else (tot + bcScore cell, solved, penalty))"

definition total_board_row :: "bool \<Rightarrow> int \<Rightarrow> nat \<Rightarrow> BoardRow \<Rightarrow> BoardRow" where
  "total_board_row icpc penaltyMinutes precision row =
     (let (tot, solved, penalty) = foldl (add_board_cell icpc penaltyMinutes) (0, 0, 0) (brCells row)
      in row\<lparr>brTotal := round_score tot precision, brSolved := solved, brPenalty := penalty,
             brReached := reachedTime icpc (map (\<lambda>c. (bcScore c, bcSolved c, bcElapsed c)) (brCells row))\<rparr>)"

definition rerank :: "Contest \<Rightarrow> Board \<Rightarrow> Board" where
  "rerank c b =
     (let cmp = board_cmp (bdICPC b) (cRankingTieBreak c);
          rows = stable_sort (row_less cmp brName)
                   (map (total_board_row (bdICPC b) (cIcpcPenaltyMinutes c) (bdPrecision b)) (bdRows b))
      in b\<lparr>bdRows := map2 (\<lambda>row rk. row\<lparr>brRank := rk\<rparr>) rows (rank_loop cmp 0 None rows)\<rparr>)"

definition shown_less :: "BoardRow \<Rightarrow> BoardRow \<Rightarrow> bool" where
  "shown_less a b = (if brRank a \<noteq> brRank b then brRank a < brRank b else brName a < brName b)"

definition SortRows :: "Board \<Rightarrow> Board" where
  "SortRows b = b\<lparr>bdRows := stable_sort shown_less (bdRows b)\<rparr>"

section \<open>Building a board\<close>

definition displayName :: "Row \<Rightarrow> string" where
  "displayName row =
     (let name = (if rowLastName row \<noteq> ''''
                  then (if rowFirstName row \<noteq> '''' then rowFirstName row @ '' '' else '''') @ rowLastName row
                  else rowFirstName row)
      in if name = '''' then rowUsername row else name)"

definition ParticipationKey :: "int \<Rightarrow> string" where
  "ParticipationKey i = ''p'' @ Itoa i"

definition board_task :: "bool \<Rightarrow> Task \<Rightarrow> BoardTask" where
  "board_task showSub t =
     \<lparr>btName = taskName t, btTitle = taskTitle t, btMaxScore = taskMaxScore t,
      btSubtaskMax = (if showSub \<and> length (taskSubtaskMax t) > 1 then taskSubtaskMax t else []),
      btPrecision = taskPrecision t\<rparr>"

definition board_cell :: "bool \<Rightarrow> Cell \<Rightarrow> BoardCell" where
  "board_cell icpc cell =
     \<lparr>bcScore = ceScore cell, bcSubtasks = ceSubtasks cell, bcSubmitted = ceSubmitted cell, bcPending = cePending cell,
      bcSolved = (icpc \<and> ceSolved cell), bcAttempts = (if icpc then ceAttempts cell else 0),
      bcMinute = (if icpc then ceSolvedMinute cell else 0), bcAdjustment = ceAdjustment cell,
      bcElapsed = ceElapsed cell, bcSubAt = []\<rparr>"

definition anon_labels :: "Ranking \<Rightarrow> (int \<rightharpoonup> nat)" where
  "anon_labels r =
     (let ids = stable_sort (<) (map rowParticipationID (rkRows r)) in go_map (zip ids [1..<length ids + 1]))"

definition board_row :: "Contest \<Rightarrow> Ranking \<Rightarrow> Row \<Rightarrow> BoardRow" where
  "board_row c r row =
     (let teams = cTeamMode c; photos = (cRankingShowPhotos c \<and> \<not> cRankingAnonymous c);
          br = \<lparr>brKey = ParticipationKey (rowParticipationID row), brRank = 0, brName = displayName row,
                brTeam = rowTeamCode row, brFlag = (if cRankingShowFlags c then rowTeamFlag row else ''''),
                brPhoto = (if photos then rowPhoto row else ''''),
                brInstitution = (if cRankingShowInstitutions c
                                 then (if rowInstitution row = '''' then rowTeamInstitution row else rowInstitution row)
                                 else ''''),
                brTotal = rowTotal row, brSolved = rowSolved row, brPenalty = rowPenalty row,
                brCells = map (board_cell (rkICPC r)) (rowCells row), brMembers = [rowParticipationID row],
                brUnofficial = (\<not> teams \<and> rkUnofficial r \<and> rowUnofficial row),
                brPlace = (if \<not> teams \<and> rkUnofficial r then rowPlace row else 0),
                brMedal = (if cMedals c = ''public'' \<and> \<not> teams then rowMedal row else ''''),
                brReached = rowReachedS row\<rparr>
      in if cRankingAnonymous c
         then br\<lparr>brName := ''#'' @ Itoa (int (case anon_labels r (rowParticipationID row) of None \<Rightarrow> 0 | Some n \<Rightarrow> n)),
                 brTeam := '''', brFlag := '''', brInstitution := ''''\<rparr>
         else br)"

text \<open>The loop over the rows, with the position of every team's row.\<close>

definition add_board_row :: "Contest \<Rightarrow> Ranking \<Rightarrow> BoardRow list \<times> (string \<times> nat) list \<Rightarrow> Row \<Rightarrow> BoardRow list \<times> (string \<times> nat) list" where
  "add_board_row c r = (\<lambda>(rows, teams) row.
     let br = board_row c r row
     in if cTeamMode c \<and> rowTeamCode row \<noteq> '''' \<and> \<not> cRankingAnonymous c
        then (case map_of teams (rowTeamCode row) of
                Some i \<Rightarrow> (rows[i := mergeTeam (rows ! i) br (rkICPC r) (rkTasks r)], teams)
              | None \<Rightarrow>
                  (rows @ [br\<lparr>brKey := ''t'' @ rowTeamCode row,
                              brName := (if rowTeamName row = '''' then rowTeamCode row else rowTeamName row), brPhoto := '''',
                              brInstitution := (if cRankingShowInstitutions c then rowTeamInstitution row else brInstitution br)\<rparr>],
                   (rowTeamCode row, length rows) # teams))
        else (rows @ [br], teams))"

definition hide_subtasks :: "bool \<Rightarrow> Task list \<Rightarrow> BoardRow \<Rightarrow> BoardRow" where
  "hide_subtasks showSub tasks row =
     row\<lparr>brCells := map (\<lambda>(cell, t). if \<not> showSub \<or> length (taskSubtaskMax t) \<le> 1 then cell\<lparr>bcSubtasks := []\<rparr> else cell)
                      (zip (brCells row) tasks)\<rparr>"

definition BuildBoard :: "Ranking \<Rightarrow> Contest \<Rightarrow> time \<Rightarrow> Board" where
  "BuildBoard r c now =
     (let rows = map (hide_subtasks (cRankingShowSubtasks c) (rkTasks r))
                   (fst (foldl (add_board_row c r) ([], []) (rkRows r)));
          title = (if cTitle c \<noteq> '''' then cTitle c else if cDescription c \<noteq> '''' then cDescription c else cName c);
          b = \<lparr>bdContest = cName c, bdTitle = title, bdICPC = rkICPC r, bdPrecision = rkPrecision r, bdStart = cStartTime c,
               bdStop = cStopTime c, bdTimezone = cTimezone c, bdFrozen = Frozen c now, bdFreezeAt = FreezeAt c,
               bdTeams = cTeamMode c, bdSubtasks = cRankingShowSubtasks c, bdFlags = cRankingShowFlags c,
               bdPhotos = (cRankingShowPhotos c \<and> \<not> cRankingAnonymous c), bdInstitutions = cRankingShowInstitutions c,
               bdTasks = map (board_task (cRankingShowSubtasks c)) (rkTasks r), bdRows = rows, bdGenerated = rkGenerated r,
               bdUnofficial = (\<not> cTeamMode c \<and> rkUnofficial r),
               bdCutoffs = (if \<not> cTeamMode c \<and> cMedals c = ''public'' then rkCutoffs r else [])\<rparr>
      in if cTeamMode c then rerank c b
         else
           (let ranks = go_map (map (\<lambda>row. (ParticipationKey (rowParticipationID row), rowRank row)) (rkRows r))
            in SortRows (b\<lparr>bdRows := map (\<lambda>row. row\<lparr>brRank := (case ranks (brKey row) of None \<Rightarrow> 0 | Some k \<Rightarrow> k)\<rparr>) rows\<rparr>)))"

section \<open>Differences\<close>

definition visible_cell :: "BoardCell \<Rightarrow> BoardCell" where
  "visible_cell cell = cell\<lparr>bcAdjustment := 0, bcElapsed := 0, bcSubAt := []\<rparr>"

definition visible :: "BoardRow \<Rightarrow> BoardRow" where
  "visible row = row\<lparr>brCells := map visible_cell (brCells row), brMembers := [], brReached := None\<rparr>"

definition Header :: "Board \<Rightarrow> Board" where
  "Header b = b\<lparr>bdRows := [], bdGenerated := zero_time, bdCutoffs := []\<rparr>"

definition old_rows :: "Board option \<Rightarrow> (string \<rightharpoonup> BoardRow)" where
  "old_rows prev = (case prev of None \<Rightarrow> Map.empty | Some b \<Rightarrow> go_map (map (\<lambda>row. (brKey row, visible row)) (bdRows b)))"

definition Diff :: "Board option \<Rightarrow> Board \<Rightarrow> BoardRow list \<times> string list" where
  "Diff prev next =
     (filter (\<lambda>row. old_rows prev (brKey row) \<noteq> Some (visible row)) (bdRows next),
      stable_sort (<) (filter (\<lambda>k. k \<notin> set (map brKey (bdRows next)))
        (case prev of None \<Rightarrow> [] | Some b \<Rightarrow> remdups (map brKey (bdRows b)))))"

section \<open>Anonymity\<close>

text \<open>A row without anything that tells who the participant is.\<close>

definition erase :: "Row \<Rightarrow> Row" where
  "erase row = row\<lparr>rowUserID := 0, rowUsername := '''', rowFirstName := '''', rowLastName := '''', rowTeamCode := '''',
     rowTeamName := '''', rowTeamFlag := '''', rowTeamInstitution := '''', rowInstitution := '''', rowPhoto := '''',
     rowCountry := '''', rowSite := '''', rowHidden := False, rowUnrestricted := False\<rparr>"

lemma erase_fields [simp]:
  "rowRank (erase row) = rowRank row" "rowParticipationID (erase row) = rowParticipationID row"
  "rowUnofficial (erase row) = rowUnofficial row" "rowPlace (erase row) = rowPlace row" "rowMedal (erase row) = rowMedal row"
  "rowCells (erase row) = rowCells row" "rowTotal (erase row) = rowTotal row" "rowSolved (erase row) = rowSolved row"
  "rowPenalty (erase row) = rowPenalty row" "rowReachedS (erase row) = rowReachedS row"
  by (simp_all add: erase_def)

lemma map_erase_transfer:
  assumes "map erase xs = map erase ys" and "\<And>row. f (erase row) = f row"
  shows "map f xs = map f ys"
proof -
  have "map f xs = map f (map erase xs)" for xs by (simp add: assms(2))
  then show ?thesis using assms(1) by metis
qed

lemma add_board_rows_plain:
  assumes "\<not> cTeamMode c \<or> cRankingAnonymous c"
  shows "foldl (add_board_row c r) (rows0, teams) rows = (rows0 @ map (board_row c r) rows, teams)"
  using assms by (induction rows arbitrary: rows0) (auto simp: add_board_row_def Let_def)

lemma board_row_erase:
  "cRankingAnonymous c \<Longrightarrow> board_row c r (erase row) = board_row c r row"
  by (simp add: board_row_def Let_def)

text \<open>
  An anonymous board tells nothing about who the participants are: two
  rankings whose rows differ only in user, names, team, flag, institution, photo, country and
  site give the same board.
\<close>

theorem BuildBoard_anonymous:
  assumes "cRankingAnonymous c" and "map erase rows' = map erase (rkRows r)"
  shows "BuildBoard (r\<lparr>rkRows := rows'\<rparr>) c now = BuildBoard r c now"
proof -
  let ?r = "r\<lparr>rkRows := rows'\<rparr>"
  note tr = map_erase_transfer [OF assms(2)]
  have "anon_labels ?r = anon_labels r" using tr [of rowParticipationID] by (simp add: anon_labels_def)
  then have br: "board_row c ?r = board_row c r" by (simp add: board_row_def fun_eq_iff Let_def)
  have rows: "map (board_row c r) rows' = map (board_row c r) (rkRows r)"
    by (rule tr) (simp add: board_row_erase assms(1))
  have ranks: "map (\<lambda>row. (ParticipationKey (rowParticipationID row), rowRank row)) rows' =
      map (\<lambda>row. (ParticipationKey (rowParticipationID row), rowRank row)) (rkRows r)"
    by (rule tr) simp
  have f: "fst (foldl (add_board_row c ?r) ([], []) rows') = fst (foldl (add_board_row c r) ([], []) (rkRows r))"
    using assms(1) by (simp add: add_board_rows_plain br rows)
  show ?thesis by (simp add: BuildBoard_def f ranks Let_def)
qed

theorem BuildBoard_anonymous_witness:
  "BuildBoard ((finish ex_build)\<lparr>rkRows := map (\<lambda>row. row\<lparr>rowFirstName := ''X''\<rparr>) (rkRows (finish ex_build))\<rparr>)
     (ex_contest\<lparr>cRankingAnonymous := True\<rparr>) 0 = BuildBoard (finish ex_build) (ex_contest\<lparr>cRankingAnonymous := True\<rparr>) 0"
  by (rule BuildBoard_anonymous) (simp_all add: erase_def o_def)

section \<open>Teams\<close>

lemma mergeTeam_members [simp]: "brMembers (mergeTeam t m icpc tasks) = brMembers t @ brMembers m"
  by (simp add: mergeTeam_def)

lemma concat_update_mset:
  "i < length xs \<Longrightarrow> mset (concat (map f (xs[i := x]))) + mset (f (xs ! i)) = mset (concat (map f xs)) + mset (f x)"
  by (induction xs arbitrary: i) (auto split: nat.splits)

lemma add_board_row_members:
  assumes "add_board_row c r (rows, teams) row = (rows', teams')" "\<forall>(t, i) \<in> set teams. i < length rows"
  shows "mset (concat (map brMembers rows')) = add_mset (rowParticipationID row) (mset (concat (map brMembers rows)))
    \<and> (\<forall>(t, i) \<in> set teams'. i < length rows')"
proof -
  let ?br = "board_row c r row"
  have br: "brMembers ?br = [rowParticipationID row]" by (simp add: board_row_def Let_def)
  show ?thesis
  proof (cases "cTeamMode c \<and> rowTeamCode row \<noteq> '''' \<and> \<not> cRankingAnonymous c")
    case True
    note t = this
    show ?thesis
    proof (cases "map_of teams (rowTeamCode row)")
      case None
      with t assms show ?thesis by (auto simp: add_board_row_def Let_def br less_Suc_eq)
    next
      case (Some i)
      then have i: "i < length rows" using assms(2) by (auto dest!: map_of_SomeD)
      let ?m = "mergeTeam (rows ! i) ?br (rkICPC r) (rkTasks r)"
      have r: "rows' = rows[i := ?m]" "teams' = teams" using assms(1) t Some by (auto simp: add_board_row_def Let_def)
      have "mset (concat (map brMembers rows')) + mset (brMembers (rows ! i)) = mset (concat (map brMembers rows)) + mset (brMembers ?m)"
        unfolding r(1) by (rule concat_update_mset [OF i])
      then show ?thesis using r assms(2) by (simp add: br)
    qed
  next
    case False
    then have "rows' = rows @ [?br]" "teams' = teams" using assms(1) by (auto simp: add_board_row_def Let_def)
    then show ?thesis using assms(2) by (fastforce simp: br)
  qed
qed

lemma add_board_rows_members:
  assumes "foldl (add_board_row c r) (rows0, teams0) rows = (rows', teams')" "\<forall>(t, i) \<in> set teams0. i < length rows0"
  shows "mset (concat (map brMembers rows')) = mset (map rowParticipationID rows) + mset (concat (map brMembers rows0))"
  using assms
proof (induction rows arbitrary: rows0 teams0)
  case (Cons row rows)
  obtain r1 t1 where st: "add_board_row c r (rows0, teams0) row = (r1, t1)" by fastforce
  note a = add_board_row_members [OF st Cons.prems(2)]
  from Cons.prems(1) st have "foldl (add_board_row c r) (r1, t1) rows = (rows', teams')" by simp
  from Cons.IH [OF this] a show ?case by (simp add: union_ac)
qed simp

text \<open>The rows of a board: ranks aside, the merged rows in another order.\<close>

lemma map2_rank_board:
  "length ks = length rows \<Longrightarrow> map brMembers (map2 (\<lambda>row rk. row\<lparr>brRank := rk\<rparr>) rows ks) = map brMembers rows"
  by (induction ks rows rule: list_induct2) simp_all

lemma total_board_row_members [simp]: "brMembers (total_board_row icpc q p row) = brMembers row"
  by (simp add: total_board_row_def split: prod.split)

lemma rerank_members: "mset (map brMembers (bdRows (rerank c b))) = mset (map brMembers (bdRows b))"
proof -
  let ?cmp = "board_cmp (bdICPC b) (cRankingTieBreak c)"
  let ?tot = "map (total_board_row (bdICPC b) (cIcpcPenaltyMinutes c) (bdPrecision b)) (bdRows b)"
  let ?rows = "stable_sort (row_less ?cmp brName) ?tot"
  have "map brMembers (bdRows (rerank c b)) = map brMembers ?rows"
    unfolding rerank_def Let_def using map2_rank_board [of "rank_loop ?cmp 0 None ?rows" ?rows] by simp
  then have "mset (map brMembers (bdRows (rerank c b))) = image_mset brMembers (mset ?tot)"
    by (simp only: mset_map mset_stable_sort)
  also have "\<dots> = mset (map brMembers ?tot)" by (simp only: mset_map)
  also have "map brMembers ?tot = map brMembers (bdRows b)" by simp
  finally show ?thesis .
qed

lemma SortRows_members: "mset (map brMembers (bdRows (SortRows b))) = mset (map brMembers (bdRows b))"
  by (simp add: SortRows_def)

lemma mset_concat_members: "mset (map brMembers xs) = mset (map brMembers ys) \<Longrightarrow> mset (concat (map brMembers xs)) = mset (concat (map brMembers ys))"
proof -
  have "mset (concat zs) = sum_mset (image_mset mset (mset zs))" for zs :: "int list list"
    by (induction zs) auto
  then show "mset (map brMembers xs) = mset (map brMembers ys) \<Longrightarrow> ?thesis" by metis
qed

text \<open>
  No participant is lost or shown twice: the members of the rows of a board,
  team rows included, are exactly the participations of the ranking.
\<close>

theorem BuildBoard_members:
  "mset (concat (map brMembers (bdRows (BuildBoard r c now)))) = mset (map rowParticipationID (rkRows r))"
proof -
  obtain rows teams where f: "foldl (add_board_row c r) ([], []) (rkRows r) = (rows, teams)" by fastforce
  have rows: "mset (concat (map brMembers rows)) = mset (map rowParticipationID (rkRows r))"
    using add_board_rows_members [OF f] by simp
  have h: "map brMembers (map (hide_subtasks s t) rows) = map brMembers rows" for s t
    by (simp add: hide_subtasks_def)
  have "mset (map brMembers (bdRows (BuildBoard r c now))) = mset (map brMembers rows)"
  proof (cases "cTeamMode c")
    case True
    then show ?thesis by (simp only: BuildBoard_def f Let_def fst_conv if_True rerank_members) (simp only: Board.simps h)
  next
    case False
    then show ?thesis by (simp only: BuildBoard_def f Let_def fst_conv if_False SortRows_members) (simp add: o_def hide_subtasks_def)
  qed
  from mset_concat_members [OF this] rows show ?thesis by simp
qed

section \<open>Ranks of teams\<close>

definition board_key :: "bool \<Rightarrow> string \<Rightarrow> BoardRow \<Rightarrow> rat \<times> int \<times> int \<times> int \<times> int" where
  "board_key icpc tieBreak row = rank_key icpc tieBreak (brTotal row) (brSolved row) (brPenalty row) (brReached row)"

definition board_ok :: "nat \<Rightarrow> BoardRow \<Rightarrow> bool" where
  "board_ok p row \<longleftrightarrow> rankable p (brTotal row) (brSolved row) (brPenalty row)"

interpretation boards: rank_order "board_cmp icpc tieBreak" "board_key icpc tieBreak" brName "board_ok p"
  for icpc tieBreak p
  by unfold_locales (simp_all add: board_cmp_def board_key_def board_ok_def compareRows_key)

lemma map2_rank_key:
  assumes "length ks = length rows"
  shows "map (board_key icpc tb) (map2 (\<lambda>row rk. row\<lparr>brRank := rk\<rparr>) rows ks) = map (board_key icpc tb) rows"
    and "map brRank (map2 (\<lambda>row rk. row\<lparr>brRank := rk\<rparr>) rows ks) = ks"
    and "map (board_ok p) (map2 (\<lambda>row rk. row\<lparr>brRank := rk\<rparr>) rows ks) = map (board_ok p) rows"
  using assms by (induction ks rows rule: list_induct2) (simp_all add: board_key_def board_ok_def)

text \<open>
  On a team board the rank of a row is one more than the number of rows
  strictly better by the contest's order, for totals within a million.
\<close>

theorem rerank_ranks:
  assumes "\<forall>row \<in> set (bdRows (rerank c b)). board_ok p row" and "row \<in> set (bdRows (rerank c b))"
  shows "brRank row = 1 + length (filter (\<lambda>x. board_cmp (bdICPC b) (cRankingTieBreak c) x row < 0) (bdRows (rerank c b)))"
proof -
  let ?cmp = "board_cmp (bdICPC b) (cRankingTieBreak c)" and ?k = "board_key (bdICPC b) (cRankingTieBreak c)"
  let ?tot = "map (total_board_row (bdICPC b) (cIcpcPenaltyMinutes c) (bdPrecision b)) (bdRows b)"
  define rows where "rows = stable_sort (row_less ?cmp brName) ?tot"
  have r: "bdRows (rerank c b) = map2 (\<lambda>row rk. row\<lparr>brRank := rk\<rparr>) rows (rank_loop ?cmp 0 None rows)"
    by (simp add: rerank_def Let_def rows_def)
  note m2 = map2_rank_key [of "rank_loop ?cmp 0 None rows" rows, OF length_rank_loop, folded r]
  have ok: "\<forall>row \<in> set rows. board_ok p row" using assms(1) list_all_map_eq [OF m2(3)] by blast
  then have "\<forall>row \<in> set ?tot. board_ok p row" by (simp add: rows_def)
  then have s: "sorted (map ?k rows)" unfolding rows_def by (rule boards.sorted_rows)
  have "map brRank (bdRows (rerank c b)) = map (\<lambda>x. 1 + length (filter (\<lambda>y. ?k y < ?k x) rows)) rows"
    unfolding m2(2) by (rule boards.rank_loop_better [OF s ok])
  also have "\<dots> = map (\<lambda>k. 1 + length (filter (\<lambda>l. l < k) (map ?k rows))) (map ?k rows)"
    by (simp add: length_filter_map o_def)
  also have "\<dots> = map (\<lambda>x. 1 + length (filter (\<lambda>y. ?k y < ?k x) (bdRows (rerank c b)))) (bdRows (rerank c b))"
    by (simp add: m2(1) [symmetric] length_filter_map o_def)
  finally have "brRank row = 1 + length (filter (\<lambda>y. ?k y < ?k row) (bdRows (rerank c b)))"
    using assms(2) by (simp add: map_eq_conv)
  also have "filter (\<lambda>y. ?k y < ?k row) (bdRows (rerank c b)) = filter (\<lambda>x. ?cmp x row < 0) (bdRows (rerank c b))"
    by (rule filter_cong [OF refl]) (use assms boards.cmp_less in blast)
  finally show ?thesis .
qed

section \<open>Team results\<close>

lemma merge_cell_score:
  "scoreMode task \<noteq> ''max_subtask'' \<Longrightarrow> bcScore (merge_cell False task tc mc) = max (bcScore tc) (bcScore mc)"
  by (simp add: merge_cell_def best_per_subtask_def Let_def split: prod.split)

lemma merge_cell_icpc:
  "bcSolved (merge_cell True task tc mc) = (bcSolved tc \<or> bcSolved mc)"
  "bcMinute (merge_cell True task tc mc) =
     (if bcSolved mc \<and> (\<not> bcSolved tc \<or> bcMinute mc < bcMinute tc) then bcMinute mc else bcMinute tc)"
  by (auto simp: merge_cell_def Let_def)

definition solvers :: "BoardCell list \<Rightarrow> BoardCell set" where
  "solvers cs = {c \<in> set cs. bcSolved c}"

lemma solvers_snoc: "solvers (cs @ [c]) = (if bcSolved c then insert c (solvers cs) else solvers cs)"
  by (auto simp: solvers_def)

lemma team_icpc:
  "(bcSolved (foldl (merge_cell True task) tc ms) \<longleftrightarrow> solvers (tc # ms) \<noteq> {}) \<and>
   (solvers (tc # ms) \<noteq> {} \<longrightarrow> bcMinute (foldl (merge_cell True task) tc ms) = Min (bcMinute ` solvers (tc # ms)))"
proof (induction ms rule: rev_induct)
  case Nil
  show ?case by (cases "bcSolved tc") (simp_all add: solvers_def cong: conj_cong)
next
  case (snoc c ms)
  have fin: "finite (solvers (tc # ms))" by (simp add: solvers_def)
  have s: "solvers (tc # ms @ [c]) = (if bcSolved c then insert c (solvers (tc # ms)) else solvers (tc # ms))"
    using solvers_snoc [of "tc # ms" c] by simp
  show ?case
  proof (cases "bcSolved c \<and> solvers (tc # ms) \<noteq> {}")
    case True
    let ?M = "Min (bcMinute ` solvers (tc # ms))"
    have "Min (insert (bcMinute c) (bcMinute ` solvers (tc # ms))) = min (bcMinute c) ?M"
      using True fin by (intro Min_insert) auto
    moreover have "bcMinute (foldl (merge_cell True task) tc ms) = ?M" "bcSolved (foldl (merge_cell True task) tc ms)"
      using snoc True by auto
    moreover have "(if bcMinute c < ?M then bcMinute c else ?M) = min (bcMinute c) ?M" by simp
    ultimately show ?thesis using True by (simp only: s merge_cell_icpc foldl_append foldl_Cons foldl_Nil if_True image_insert) simp
  next
    case False
    then show ?thesis using snoc by (auto simp: s merge_cell_icpc)
  qed
qed

lemma team_score:
  "scoreMode task \<noteq> ''max_subtask'' \<Longrightarrow>
   bcScore (foldl (merge_cell False task) tc ms) = Max (set (map bcScore (tc # ms)))"
proof (induction ms rule: rev_induct)
  case (snoc c ms)
  have "set (map bcScore (tc # ms @ [c])) = insert (bcScore c) (set (map bcScore (tc # ms)))" by auto
  then have "Max (set (map bcScore (tc # ms @ [c]))) = max (bcScore c) (Max (set (map bcScore (tc # ms))))"
    by (simp only:) (rule Max_insert, simp_all)
  then show ?case using snoc by (simp add: merge_cell_score max.commute)
qed simp

text \<open>
  A team's result on a task is its best member's: with score modes other than
  the best per subtask, the greatest score of a member; in ICPC contests the task is solved
  when a member solved it, at the earliest minute a member did.
\<close>

theorem team_result:
  "(scoreMode task \<noteq> ''max_subtask'' \<longrightarrow>
     bcScore (foldl (merge_cell False task) tc ms) = Max (set (map bcScore (tc # ms)))) \<and>
   (bcSolved (foldl (merge_cell True task) tc ms) \<longleftrightarrow> solvers (tc # ms) \<noteq> {}) \<and>
   (solvers (tc # ms) \<noteq> {} \<longrightarrow>
     bcMinute (foldl (merge_cell True task) tc ms) = Min (bcMinute ` solvers (tc # ms)))"
  using team_score team_icpc by blast

definition ex_cell :: "bool \<Rightarrow> int \<Rightarrow> BoardCell" where
  "ex_cell solved m = \<lparr>bcScore = 0, bcSubtasks = [], bcSubmitted = True, bcPending = 0, bcSolved = solved, bcAttempts = 0,
     bcMinute = m, bcAdjustment = 0, bcElapsed = 0, bcSubAt = []\<rparr>"

definition ex_task :: Task where
  "ex_task = \<lparr>taskID = 1, taskName = ''sum'', taskTitle = ''Sum'', taskMaxScore = 1, taskSubtaskMax = [], taskPrecision = 0,
     taskDatasetID = 1, taskScoreType = ''Sum'', taskNumTestcase = 1, scoreMode = ''max''\<rparr>"

theorem team_result_witness:
  "bcMinute (foldl (merge_cell True ex_task) (ex_cell False 0) [ex_cell True 30, ex_cell True 20]) = 20"
proof -
  let ?ms = "[ex_cell True 30, ex_cell True 20]"
  have "solvers (ex_cell False 0 # ?ms) = {ex_cell True 30, ex_cell True 20}"
    by (auto simp: solvers_def ex_cell_def)
  then show ?thesis using team_result [of ex_task "ex_cell False 0" ?ms] by (simp add: ex_cell_def)
qed

definition ex_board_row :: BoardRow where
  "ex_board_row = \<lparr>brKey = ''t1'', brRank = 0, brName = ''Team'', brTeam = ''t1'', brFlag = '''', brPhoto = '''', brInstitution = '''',
     brTotal = 0, brSolved = 0, brPenalty = 0, brCells = [ex_cell False 0], brMembers = [1, 2], brUnofficial = False, brPlace = 0,
     brMedal = '''', brReached = None\<rparr>"

definition ex_board :: Board where
  "ex_board = \<lparr>bdContest = ''c'', bdTitle = ''c'', bdICPC = False, bdPrecision = 0, bdStart = 0, bdStop = 3600000000000,
     bdTimezone = ''UTC'', bdFrozen = False, bdFreezeAt = None, bdTeams = True, bdSubtasks = False, bdFlags = False, bdPhotos = False,
     bdInstitutions = False, bdTasks = [], bdRows = [ex_board_row], bdGenerated = 0, bdUnofficial = False, bdCutoffs = []\<rparr>"

lemma ex_rerank: "bdRows (rerank ex_contest ex_board) = [ex_board_row\<lparr>brRank := 1\<rparr>]"
  by code_simp

theorem rerank_ranks_witness: "brRank (hd (bdRows (rerank ex_contest ex_board))) = 1"
proof -
  have "round_score 0 0 = 0" "\<bar>rat_of_f64 0\<bar> \<le> 1000000" by code_simp+
  then have "board_ok 0 (ex_board_row\<lparr>brRank := 1\<rparr>)"
    by (auto simp: board_ok_def ex_board_row_def rankable_def intro!: exI [of _ 0])
  then show ?thesis
    using rerank_ranks [of ex_contest ex_board 0 "ex_board_row\<lparr>brRank := 1\<rparr>"]
    by (simp add: ex_rerank board_cmp_def)
qed

end
