(* ===== verification/Ranking_Server.thy ===== *)
theory Ranking_Server
  imports Ranking_Board
begin

text \<open>
  The ranking web server (\<^verbatim>\<open>src/internal/rankingweb\<close>): the boards it keeps in memory and
  on disk, the pushes it accepts, and what it tells the spectators connected to a board.

  A push travels as JSON: \<open>wire\<close> is what the server decodes of a message, rows and boards with
  their encoded fields only, and no history for an empty one (the field is omitted). The HTML of a row is a
  template's output, the parameter \<open>render\<close>; a template error is \<^const>\<open>None\<close>. Go maps from keys to
  histories are association lists; where a map is only read it is a map. The rendered caches of a board (JSON, pages)
  are functions of the board and are not kept in its state.
\<close>

section \<open>Data\<close>

type_synonym point_history = "(string \<times> Point list) list"

record Push =
  puContest :: string
  puKind :: string
  puSeq :: int
  puBase :: int
  puBoard :: "Board option"
  puRows :: "BoardRow list"
  puRemoved :: "string list"
  puHistory :: "point_history option"
  puKeyHash :: string

definition empty_push :: "string \<Rightarrow> string \<Rightarrow> Push" where
  "empty_push n k = \<lparr>puContest = n, puKind = k, puSeq = 0, puBase = 0, puBoard = None, puRows = [],
     puRemoved = [], puHistory = None, puKeyHash = ''''\<rparr>"

definition wire_board :: "Board \<Rightarrow> Board" where
  "wire_board b = b\<lparr>bdRows := map visible (bdRows b)\<rparr>"

definition wire :: "Push \<Rightarrow> Push" where
  "wire p = p\<lparr>puBoard := map_option wire_board (puBoard p), puRows := map visible (puRows p),
     puHistory := (if puHistory p = Some [] then None else puHistory p)\<rparr>"

text \<open>The state of one board; \<open>sbSubs\<close> counts the connected spectators.\<close>

record sboard =
  sbBoard :: "Board option"
  sbSeq :: int
  sbKeyHash :: string
  sbHistory :: point_history
  sbDirty :: bool
  sbShown :: int
  sbSubs :: nat

definition newBoard :: sboard where
  "newBoard = \<lparr>sbBoard = None, sbSeq = 0, sbKeyHash = '''', sbHistory = [], sbDirty = False, sbShown = 0, sbSubs = 0\<rparr>"

definition rebuild :: "sboard \<Rightarrow> sboard" where
  "rebuild bd = bd\<lparr>sbDirty := True\<rparr>"

text \<open>The key of an administrator-only board; \<open>sha\<close> is the hexadecimal SHA-256.\<close>

definition allowed :: "(string \<Rightarrow> string) \<Rightarrow> sboard \<Rightarrow> string \<Rightarrow> bool" where
  "allowed sha bd key \<longleftrightarrow> sbKeyHash bd = '''' \<or> sha key = sbKeyHash bd"

section \<open>Applying a delta\<close>

definition row_index :: "BoardRow list \<Rightarrow> (string \<rightharpoonup> nat)" where
  "row_index rows = go_map (zip (map brKey rows) [0..<length rows])"

definition apply_row :: "BoardRow list \<times> (string \<rightharpoonup> nat) \<Rightarrow> BoardRow \<Rightarrow> BoardRow list \<times> (string \<rightharpoonup> nat)" where
  "apply_row = (\<lambda>(rows, idx) r.
     case idx (brKey r) of
       Some i \<Rightarrow> (rows[i := r], idx)
     | None \<Rightarrow> (rows @ [r], idx(brKey r \<mapsto> length rows)))"

definition apply_rows :: "BoardRow list \<Rightarrow> BoardRow list \<Rightarrow> string list \<Rightarrow> BoardRow list" where
  "apply_rows rows new removed =
     filter (\<lambda>r. brKey r \<notin> set removed) (fst (foldl apply_row (rows, row_index rows) new))"

definition add_points :: "point_history \<Rightarrow> string \<times> Point list \<Rightarrow> point_history" where
  "add_points h = (\<lambda>(k, pts). AList.update k ((case map_of h k of None \<Rightarrow> [] | Some old \<Rightarrow> old) @ pts) h)"

definition apply_push :: "sboard \<Rightarrow> Board \<Rightarrow> Push \<Rightarrow> sboard" where
  "apply_push bd b p =
     bd\<lparr>sbBoard := Some (SortRows (b\<lparr>bdRows := apply_rows (bdRows b) (puRows p) (puRemoved p)\<rparr>)),
        sbHistory := (case puHistory p of None \<Rightarrow> sbHistory bd | Some h \<Rightarrow> foldl add_points (sbHistory bd) h),
        sbSeq := puSeq p\<rparr>"

section \<open>Telling the spectators\<close>

record shift_group =
  sgRank :: nat
  sgDelta :: int
  sgMixed :: bool
  sgKeys :: "string list"

definition row_delta :: "(string \<rightharpoonup> nat) \<Rightarrow> BoardRow \<Rightarrow> int" where
  "row_delta moved r = (case moved (brKey r) of Some nr \<Rightarrow> int nr - int (brRank r) | None \<Rightarrow> 0)"

definition add_to_group :: "(string \<rightharpoonup> nat) \<Rightarrow> shift_group list \<Rightarrow> BoardRow \<Rightarrow> shift_group list" where
  "add_to_group moved groups r =
     (let d = row_delta moved r
      in if groups \<noteq> [] \<and> sgRank (last groups) = brRank r
         then butlast groups @ [(last groups)\<lparr>sgMixed := sgMixed (last groups) \<or> sgDelta (last groups) \<noteq> d,
                                              sgKeys := sgKeys (last groups) @ [brKey r]\<rparr>]
         else groups @ [\<lparr>sgRank = brRank r, sgDelta = d, sgMixed = False, sgKeys = [brKey r]\<rparr>])"

type_synonym shift_run = "nat \<times> nat \<times> int"

definition add_run :: "(string \<rightharpoonup> nat) \<Rightarrow> shift_run list \<times> (string \<times> nat) list \<times> bool \<Rightarrow> shift_group \<Rightarrow>
    shift_run list \<times> (string \<times> nat) list \<times> bool" where
  "add_run moved = (\<lambda>(runs, ranks, extend) g.
     if sgMixed g
     then (runs, ranks @ concat (map (\<lambda>k. case moved k of Some nr \<Rightarrow> [(k, nr)] | None \<Rightarrow> []) (sgKeys g)), False)
     else if sgDelta g = 0 then (runs, ranks, False)
     else if extend \<and> snd (snd (last runs)) = sgDelta g
     then (butlast runs @ [(fst (last runs), sgRank g, sgDelta g)], ranks, extend)
     else (runs @ [(sgRank g, sgRank g, sgDelta g)], ranks, True))"

definition shifts :: "BoardRow list \<Rightarrow> (string \<rightharpoonup> nat) \<Rightarrow> (string \<Rightarrow> bool) \<Rightarrow> shift_run list \<times> (string \<times> nat) list" where
  "shifts old moved skip =
     (let groups = foldl (add_to_group moved) [] (filter (\<lambda>r. \<not> skip (brKey r)) old);
          (runs, ranks, extend) = foldl (add_run moved) ([], [], False) groups
      in (runs, ranks))"

definition onlyRank :: "BoardRow \<Rightarrow> BoardRow \<Rightarrow> bool" where
  "onlyRank a b \<longleftrightarrow> visible (a\<lparr>brRank := brRank b\<rparr>) = visible b"

definition unfreezeHeader :: "Board \<Rightarrow> Board" where
  "unfreezeHeader b = (Header b)\<lparr>bdFrozen := False, bdFreezeAt := None\<rparr>"

definition sameHeader :: "Board \<Rightarrow> Board \<Rightarrow> bool" where
  "sameHeader a b \<longleftrightarrow> Header a = Header b"

record rowHTML =
  rhKey :: string
  rhRank :: nat
  rhName :: string
  rhHTML :: string

record rows_msg =
  msgSeq :: int
  msgBase :: int
  msgRows :: "rowHTML list"
  msgShift :: "shift_run list"
  msgRanks :: "(string \<times> nat) list"
  msgRemoved :: "string list"
  msgUnfrozen :: bool

datatype frame = Reload | Rows rows_msg

definition row_html :: "(Board \<Rightarrow> BoardRow \<Rightarrow> string option) \<Rightarrow> Board \<Rightarrow> BoardRow \<Rightarrow> rowHTML list" where
  "row_html render b r =
     (case render b r of
        None \<Rightarrow> []
      | Some html \<Rightarrow> [\<lparr>rhKey = brKey r, rhRank = brRank r, rhName = brName r, rhHTML = html\<rparr>])"

text \<open>Whether a changed row only moved: it was there before and differs in its rank only. An unfreezing sends all changed rows.\<close>

definition only_moved :: "bool \<Rightarrow> Board \<Rightarrow> BoardRow \<Rightarrow> bool" where
  "only_moved unfrozen old r \<longleftrightarrow> \<not> unfrozen \<and>
     (case go_map (map (\<lambda>r. (brKey r, r)) (bdRows old)) (brKey r) of Some o' \<Rightarrow> onlyRank o' r | None \<Rightarrow> False)"

definition moved_ranks :: "bool \<Rightarrow> Board \<Rightarrow> BoardRow list \<Rightarrow> (string \<rightharpoonup> nat)" where
  "moved_ranks unfrozen old changed = go_map (map (\<lambda>r. (brKey r, brRank r)) (filter (only_moved unfrozen old) changed))"

definition rows_update :: "(Board \<Rightarrow> BoardRow \<Rightarrow> string option) \<Rightarrow> int \<Rightarrow> int \<Rightarrow> bool \<Rightarrow> Board \<Rightarrow> Board \<Rightarrow>
    BoardRow list \<Rightarrow> string list \<Rightarrow> rows_msg" where
  "rows_update render seq base unfrozen old b changed removed =
     (let content = filter (\<lambda>r. \<not> only_moved unfrozen old r) changed;
          shift = (if filter (only_moved unfrozen old) changed = [] then ([], [])
                   else shifts (bdRows old) (moved_ranks unfrozen old changed) (\<lambda>k. k \<in> brKey ` set content \<or> k \<in> set removed))
      in \<lparr>msgSeq = seq, msgBase = base, msgRows = concat (map (row_html render b) content),
          msgShift = fst shift, msgRanks = snd shift, msgRemoved = removed, msgUnfrozen = unfrozen\<rparr>)"

definition unfreezes :: "Board \<Rightarrow> Board \<Rightarrow> bool" where
  "unfreezes old b \<longleftrightarrow> bdFrozen old \<and> \<not> bdFrozen b \<and> sameHeader (unfreezeHeader old) (unfreezeHeader b)"

text \<open>An unfreezing reveals the rows from the worst previous rank on.\<close>

definition reveal_order :: "Board \<Rightarrow> BoardRow list \<Rightarrow> BoardRow list" where
  "reveal_order old changed =
     (let prevRank = go_map (map (\<lambda>r. (brKey r, brRank r)) (bdRows old));
          rk = (\<lambda>r. case prevRank (brKey r) of None \<Rightarrow> 0 | Some k \<Rightarrow> k)
      in stable_sort (\<lambda>x y. rk x > rk y) changed)"

definition announce :: "(Board \<Rightarrow> BoardRow \<Rightarrow> string option) \<Rightarrow> sboard \<Rightarrow> Board \<Rightarrow> Board option \<Rightarrow> sboard \<times> frame option" where
  "announce render bd b prev =
     (if sbSubs bd = 0 then (bd\<lparr>sbShown := sbSeq bd\<rparr>, None)
      else case prev of
        None \<Rightarrow> (bd\<lparr>sbShown := sbSeq bd\<rparr>, Some Reload)
      | Some old \<Rightarrow>
          (if \<not> unfreezes old b \<and> \<not> sameHeader old b then (bd\<lparr>sbShown := sbSeq bd\<rparr>, Some Reload)
           else
             (let changed = fst (Diff (Some old) b); removed = snd (Diff (Some old) b)
              in if changed = [] \<and> removed = [] \<and> \<not> unfreezes old b then (bd, None)
                 else (bd\<lparr>sbShown := sbSeq bd\<rparr>,
                       Some (Rows (rows_update render (sbSeq bd) (sbShown bd) (unfreezes old b) old b
                                     (if unfreezes old b then reveal_order old changed else changed) removed))))))"

section \<open>The push handler\<close>

record Server =
  svToken :: string
  svHasDataDir :: bool
  svBoards :: "string \<rightharpoonup> sboard"
  svDisk :: "string \<rightharpoonup> Push"

definition name_char :: "char \<Rightarrow> bool" where
  "name_char c \<longleftrightarrow> c \<in> set ''ABCDEFGHIJKLMNOPQRSTUVWXYZabcdefghijklmnopqrstuvwxyz0123456789_.-''"

definition nameRe :: "string \<Rightarrow> bool" where
  "nameRe s \<longleftrightarrow> s \<noteq> [] \<and> list_all name_char s"

definition TrimPrefix :: "string \<Rightarrow> string \<Rightarrow> string" where
  "TrimPrefix s p = (if take (length p) s = p then drop (length p) s else s)"

definition authorized :: "Server \<Rightarrow> string \<Rightarrow> bool" where
  "authorized s header \<longleftrightarrow> svToken s \<noteq> '''' \<and> TrimPrefix header ''Bearer '' = svToken s"

text \<open>The answer: the HTTP status and the sequence number in its body, if any.\<close>

type_synonym push_reply = "nat \<times> int option"

definition push_delete :: "Server \<Rightarrow> Push \<Rightarrow> Server \<times> push_reply \<times> frame option" where
  "push_delete s p =
     (s\<lparr>svBoards := (svBoards s)(puContest p := None),
        svDisk := (if svHasDataDir s then (svDisk s)(puContest p := None) else svDisk s)\<rparr>,
      (200, Some 0),
      (if svBoards s (puContest p) = None then None else Some Reload))"

definition push_full :: "(Board \<Rightarrow> BoardRow \<Rightarrow> string option) \<Rightarrow> Server \<Rightarrow> Push \<Rightarrow> Server \<times> push_reply \<times> frame option" where
  "push_full render s p =
     (case puBoard p of
        None \<Rightarrow> (s, (400, None), None)
      | Some b \<Rightarrow>
          (let bd = (case svBoards s (puContest p) of None \<Rightarrow> newBoard | Some bd \<Rightarrow> bd);
               old = sbBoard bd;
               b = SortRows b;
               bd = bd\<lparr>sbBoard := Some b, sbSeq := puSeq p, sbKeyHash := puKeyHash p,
                       sbHistory := (case puHistory p of None \<Rightarrow> sbHistory bd | Some h \<Rightarrow> h)\<rparr>;
               (bd, fr) = announce render (rebuild bd) b old
           in (s\<lparr>svBoards := (svBoards s)(puContest p \<mapsto> bd)\<rparr>, (200, Some (sbSeq bd)), fr)))"

definition push_delta :: "(Board \<Rightarrow> BoardRow \<Rightarrow> string option) \<Rightarrow> Server \<Rightarrow> Push \<Rightarrow> Server \<times> push_reply \<times> frame option" where
  "push_delta render s p =
     (case svBoards s (puContest p) of
        None \<Rightarrow> (s, (409, Some 0), None)
      | Some bd \<Rightarrow>
          (case sbBoard bd of
             None \<Rightarrow> (s, (409, Some (sbSeq bd)), None)
           | Some b \<Rightarrow>
               if sbSeq bd \<noteq> puBase p then (s, (409, Some (sbSeq bd)), None)
               else
                 (let bd = rebuild (apply_push bd b p);
                      (bd, fr) = announce render bd (the (sbBoard bd)) (Some b)
                  in (s\<lparr>svBoards := (svBoards s)(puContest p \<mapsto> bd)\<rparr>, (200, Some (sbSeq bd)), fr))))"

text \<open>The body of a request is \<^const>\<open>None\<close> when it does not decode.\<close>

definition handlePush :: "(Board \<Rightarrow> BoardRow \<Rightarrow> string option) \<Rightarrow> Server \<Rightarrow> string \<Rightarrow> Push option \<Rightarrow>
    Server \<times> push_reply \<times> frame option" where
  "handlePush render s header body =
     (if \<not> authorized s header then (s, (403, None), None)
      else case body of
        None \<Rightarrow> (s, (400, None), None)
      | Some p \<Rightarrow>
          if \<not> nameRe (puContest p) then (s, (400, None), None)
          else if puKind p = ''delete'' then push_delete s p
          else if puKind p = ''full'' then push_full render s p
          else if puKind p = ''delta'' then push_delta render s p
          else (s, (400, None), None))"

section \<open>Persistence\<close>

definition save_board :: "string \<Rightarrow> sboard \<Rightarrow> Push option" where
  "save_board n bd =
     (if \<not> sbDirty bd then None
      else map_option (\<lambda>b. wire ((empty_push n ''full'')\<lparr>puSeq := sbSeq bd, puBoard := Some b,
             puHistory := Some (sbHistory bd), puKeyHash := sbKeyHash bd\<rparr>)) (sbBoard bd))"

definition saveAll :: "Server \<Rightarrow> Server" where
  "saveAll s =
     (if \<not> svHasDataDir s then s
      else s\<lparr>svDisk := (\<lambda>n. case Option.bind (svBoards s n) (save_board n) of Some p \<Rightarrow> Some p | None \<Rightarrow> svDisk s n),
             svBoards := (\<lambda>n. map_option (\<lambda>bd. if sbBoard bd = None then bd else bd\<lparr>sbDirty := False\<rparr>) (svBoards s n))\<rparr>)"

definition load_board :: "string \<Rightarrow> Push \<Rightarrow> sboard option" where
  "load_board n p =
     (case puBoard p of
        None \<Rightarrow> None
      | Some b \<Rightarrow>
          if \<not> nameRe (puContest p) then None
          else Some (newBoard\<lparr>sbBoard := Some b, sbSeq := puSeq p, sbKeyHash := puKeyHash p,
                      sbHistory := (case puHistory p of None \<Rightarrow> [] | Some h \<Rightarrow> h), sbShown := puSeq p\<rparr>))"

text \<open>A restart keeps what is on disk; a file is named after its contest.\<close>

definition restart :: "Server \<Rightarrow> Server" where
  "restart s = s\<lparr>svBoards := (\<lambda>n. if svHasDataDir s then Option.bind (svDisk s n) (load_board n) else None)\<rparr>"

section \<open>A delta leads to the next board\<close>

definition keyed :: "BoardRow list \<Rightarrow> (string \<rightharpoonup> BoardRow)" where
  "keyed rows = map_of (map (\<lambda>r. (brKey r, r)) rows)"

abbreviation distinct_keys :: "BoardRow list \<Rightarrow> bool" where
  "distinct_keys rows \<equiv> distinct (map brKey rows)"

lemma visible_fields [simp]:
  "brKey (visible r) = brKey r" "brRank (visible r) = brRank r" "brName (visible r) = brName r" "visible (visible r) = visible r"
  by (simp_all add: visible_def visible_cell_def)

lemma keys_visible [simp]: "map brKey (map visible rows) = map brKey rows"
  by simp

lemma keyed_Some: "distinct_keys rows \<Longrightarrow> keyed rows k = Some r \<longleftrightarrow> r \<in> set rows \<and> brKey r = k"
  unfolding keyed_def by (subst map_of_eq_Some_iff) (auto simp: o_def)

lemma keyed_None: "keyed rows k = None \<longleftrightarrow> k \<notin> brKey ` set rows"
  unfolding keyed_def map_of_eq_None_iff by (simp add: image_image)

lemma keyed_visible: "keyed (map visible rows) k = map_option visible (keyed rows k)"
  unfolding keyed_def by (induction rows) auto

text \<open>Two lists with distinct keys and the same lookup are permutations of each other.\<close>

lemma keyed_mset:
  assumes "keyed xs = keyed ys" "distinct_keys xs" "distinct_keys ys"
  shows "mset xs = mset ys"
proof -
  have "set xs = set ys" using keyed_Some [OF assms(2)] keyed_Some [OF assms(3)] assms(1) by (metis subsetI subset_antisym)
  then show ?thesis using assms(2,3) by (simp add: set_eq_iff_mset_eq_distinct distinct_map)
qed

lemma mset_keyed: "mset xs = mset ys \<Longrightarrow> distinct_keys ys \<Longrightarrow> keyed xs = keyed ys"
proof
  fix k assume m: "mset xs = mset ys" and d: "distinct_keys ys"
  have "mset (map brKey xs) = mset (map brKey ys)" using m by simp
  then have dx: "distinct_keys xs" using d mset_eq_imp_distinct_iff by blast
  have s: "set xs = set ys" using m by (rule mset_eq_setD)
  show "keyed xs k = keyed ys k"
  proof (cases "keyed ys k")
    case None
    then have "keyed xs k = None" by (simp add: keyed_None s)
    then show ?thesis by (simp add: None)
  next
    case (Some r)
    then have "keyed xs k = Some r" by (simp add: keyed_Some dx d s)
    then show ?thesis by (simp add: Some)
  qed
qed

definition index_ok :: "BoardRow list \<Rightarrow> (string \<rightharpoonup> nat) \<Rightarrow> bool" where
  "index_ok rows idx \<longleftrightarrow> (\<forall>k i. idx k = Some i \<longleftrightarrow> i < length rows \<and> brKey (rows ! i) = k)"

lemma index_ok_row_index:
  assumes "distinct_keys rows"
  shows "index_ok rows (row_index rows)"
proof -
  have d: "distinct (map fst (rev (zip (map brKey rows) [0..<length rows])))"
    using assms by (simp add: rev_map [symmetric])
  show ?thesis unfolding index_ok_def row_index_def go_map_def map_of_eq_Some_iff [OF d]
    by (auto simp: in_set_zip) (metis add_0 length_map nth_map nth_upt)
qed

lemma apply_row_step:
  assumes "index_ok rows idx" "distinct_keys rows" "apply_row (rows, idx) r = (rows', idx')"
  shows "index_ok rows' idx' \<and> distinct_keys rows' \<and> keyed rows' = (keyed rows)(brKey r \<mapsto> r)"
proof (cases "idx (brKey r)")
  case None
  with assms(1) have new: "brKey r \<notin> set (map brKey rows)"
    by (auto simp: index_ok_def in_set_conv_nth) (metis option.distinct(1))
  have [simp]: "rows' = rows @ [r]" "idx' = idx(brKey r \<mapsto> length rows)" using assms(3) None by (auto simp: apply_row_def)
  have "brKey (rows ! i) \<noteq> brKey r" if "i < length rows" for i using that new by (metis length_map nth_map nth_mem)
  then have "index_ok rows' idx'" using assms(1) None by (auto simp: index_ok_def nth_append less_Suc_eq)
  moreover have "keyed rows' = (keyed rows)(brKey r \<mapsto> r)"
    using new keyed_None [of rows "brKey r"] unfolding keyed_def by (auto simp: map_add_def fun_eq_iff split: option.splits)
  ultimately show ?thesis using assms(2) new by simp
next
  case (Some i)
  with assms(1) have i: "i < length rows" "brKey (rows ! i) = brKey r" by (auto simp: index_ok_def)
  have [simp]: "rows' = rows[i := r]" "idx' = idx" using assms(3) Some by (auto simp: apply_row_def)
  have ks: "map brKey rows' = map brKey rows" using i by (simp add: map_update) (metis list_update_id nth_map)
  have d': "distinct_keys rows'" using assms(2) ks by metis
  have "index_ok rows' idx'" using assms(1) i by (auto simp: index_ok_def nth_list_update)
  moreover have "keyed rows' k = ((keyed rows)(brKey r \<mapsto> r)) k" for k
  proof (cases "k = brKey r")
    case True
    have "r \<in> set rows'" using i by (simp add: set_update_memI)
    then have "keyed rows' k = Some r" using keyed_Some [OF d'] True by blast
    then show ?thesis by (simp add: True)
  next
    case False
    have "keyed rows' k = Some x \<longleftrightarrow> keyed rows k = Some x" for x
      unfolding keyed_Some [OF d'] keyed_Some [OF assms(2)] in_set_conv_nth
      using False i by (auto simp: nth_list_update split: if_splits)
    then have "keyed rows' k = keyed rows k" by (cases "keyed rows k"; cases "keyed rows' k") auto
    then show ?thesis using False by simp
  qed
  ultimately show ?thesis using d' by auto
qed

lemma apply_row_fold:
  assumes "index_ok rows idx" "distinct_keys rows"
  shows "distinct_keys (fst (foldl apply_row (rows, idx) new))
    \<and> keyed (fst (foldl apply_row (rows, idx) new)) = foldl (\<lambda>m r. m(brKey r \<mapsto> r)) (keyed rows) new"
  using assms
proof (induction new arbitrary: rows idx)
  case (Cons r new)
  obtain rows' idx' where a: "apply_row (rows, idx) r = (rows', idx')" by fastforce
  show ?case using Cons.IH [of rows' idx'] apply_row_step [OF Cons.prems a] by (simp add: a)
qed simp

lemma keyed_fold: "distinct_keys new \<Longrightarrow> foldl (\<lambda>m r. m(brKey r \<mapsto> r)) m new = m ++ keyed new"
proof (induction new arbitrary: m)
  case Nil
  then show ?case by (simp add: keyed_def)
next
  case (Cons r new)
  then have "keyed new (brKey r) = None" by (auto simp: keyed_None)
  with Cons show ?case by (auto simp: keyed_def map_add_def fun_eq_iff split: option.splits)
qed

lemma keyed_filter:
  assumes "distinct_keys rows"
  shows "keyed (filter (\<lambda>r. brKey r \<notin> A) rows) k = (if k \<in> A then None else keyed rows k)"
  unfolding keyed_def by (induction rows) auto

lemma apply_rows_keyed:
  assumes "distinct_keys rows" "distinct_keys new"
  shows "distinct_keys (apply_rows rows new removed)
    \<and> keyed (apply_rows rows new removed) = (\<lambda>k. if k \<in> set removed then None else (keyed rows ++ keyed new) k)"
proof -
  note f = apply_row_fold [OF index_ok_row_index [OF assms(1)] assms(1), of new]
  show ?thesis
    using f assms(2) by (auto simp: apply_rows_def keyed_filter keyed_fold distinct_map_filter fun_eq_iff)
qed

lemma old_rows_keyed: "distinct_keys (bdRows b) \<Longrightarrow> old_rows (Some b) = keyed (map visible (bdRows b))"
  unfolding old_rows_def go_map_def keyed_def
  by (simp add: o_def) (rule map_of_inject_set [THEN iffD2, rotated 2]; simp add: rev_map [symmetric] o_def)

lemma apply_Diff_keyed:
  assumes "distinct_keys rows" "distinct_keys (bdRows prev)" "distinct_keys (bdRows next)"
    and "keyed rows = keyed (map visible (bdRows prev))" and "Diff (Some prev) next = (changed, removed)"
  shows "distinct_keys (apply_rows rows (map visible changed) removed)
    \<and> keyed (apply_rows rows (map visible changed) removed) = keyed (map visible (bdRows next))"
proof -
  have ch: "changed = filter (\<lambda>r. keyed rows (brKey r) \<noteq> Some (visible r)) (bdRows next)"
    using assms(4,5) old_rows_keyed [OF assms(2)] by (simp add: Diff_def)
  have rm: "set removed = brKey ` set (bdRows prev) - brKey ` set (bdRows next)"
    using assms(5) by (auto simp: Diff_def)
  have dc: "distinct_keys changed" using assms(3) ch by (simp add: distinct_map_filter)
  have "(if k \<in> set removed then None else (keyed rows ++ keyed (map visible changed)) k) = keyed (map visible (bdRows next)) k" for k
  proof (cases "keyed (bdRows next) k")
    case None
    then have "keyed changed k = None" and "k \<notin> brKey ` set (bdRows next)" by (auto simp: ch keyed_None)
    moreover have "keyed rows k = None" if "k \<notin> set removed"
      using that rm assms(4) calculation(2) by (auto simp: keyed_None)
    ultimately show ?thesis using None by (auto simp: keyed_visible map_add_def)
  next
    case (Some r)
    then have r: "r \<in> set (bdRows next)" "brKey r = k" using keyed_Some [OF assms(3)] by auto
    show ?thesis
    proof (cases "keyed rows k = Some (visible r)")
      case True
      then have "keyed changed k = None"
        using keyed_Some [OF assms(3), of k] Some unfolding ch keyed_None by force
      then show ?thesis using True Some r rm by (auto simp: keyed_visible map_add_def)
    next
      case False
      then have "keyed changed k = Some r" using r keyed_Some [OF dc] by (auto simp: ch)
      then show ?thesis using Some r rm by (auto simp: keyed_visible map_add_def)
    qed
  qed
  then show ?thesis using apply_rows_keyed [OF assms(1), of "map visible changed" removed] dc by (simp add: o_def)
qed

section \<open>Runs of ranks\<close>

text \<open>
  What a page makes of an update (\<^verbatim>\<open>src/web/static/rws.js\<close>): a row listed in \<open>ranks\<close> gets that
  rank, any other row moves by the first run its rank is in.
\<close>

definition in_run :: "nat \<Rightarrow> shift_run \<Rightarrow> bool" where
  "in_run r = (\<lambda>(from, to, d). from \<le> r \<and> r \<le> to)"

definition page_rank :: "shift_run list \<times> (string \<times> nat) list \<Rightarrow> string \<Rightarrow> nat \<Rightarrow> int" where
  "page_rank = (\<lambda>(runs, ranks) k r.
     case map_of ranks k of
       Some nr \<Rightarrow> int nr
     | None \<Rightarrow> (case find (in_run r) runs of Some (_, _, d) \<Rightarrow> int r + d | None \<Rightarrow> int r))"

text \<open>A group speaks for its rows: they have its rank, and unless it is mixed they all move by its delta.\<close>

definition group_of :: "(string \<rightharpoonup> nat) \<Rightarrow> BoardRow list \<Rightarrow> shift_group \<Rightarrow> bool" where
  "group_of moved rows g \<longleftrightarrow> sgKeys g = map brKey rows \<and> (\<forall>r \<in> set rows. brRank r = sgRank g)
     \<and> (sgMixed g \<or> (\<forall>r \<in> set rows. row_delta moved r = sgDelta g))"

lemma groups_of:
  assumes "sorted (map brRank rows)"
  shows "\<exists>parts. rows = concat parts \<and> list_all2 (group_of moved) parts (foldl (add_to_group moved) [] rows)
    \<and> sorted_wrt (<) (map sgRank (foldl (add_to_group moved) [] rows))
    \<and> sgRank ` set (foldl (add_to_group moved) [] rows) = brRank ` set rows"
  using assms
proof (induction rows rule: rev_induct)
  case Nil
  show ?case by (intro exI [of _ "[]"]) simp
next
  case (snoc r rows)
  let ?gs = "foldl (add_to_group moved) [] rows"
  from snoc obtain parts where p: "rows = concat parts" "list_all2 (group_of moved) parts ?gs"
    "sorted_wrt (<) (map sgRank ?gs)" "sgRank ` set ?gs = brRank ` set rows" by (auto simp: sorted_append)
  have le: "\<forall>g \<in> set ?gs. sgRank g \<le> brRank r" using p(4) snoc.prems by (force simp: sorted_append)
  show ?case
  proof (cases "?gs \<noteq> [] \<and> sgRank (last ?gs) = brRank r")
    case True
    then obtain gs g where g: "?gs = gs @ [g]" "sgRank g = brRank r" by (metis append_butlast_last_id last_snoc)
    then obtain ps q where q: "parts = ps @ [q]" "list_all2 (group_of moved) ps gs" "group_of moved q g"
      using p(2) by (auto simp: list_all2_append2 list_all2_Cons2)
    define g' where "g' = g\<lparr>sgMixed := sgMixed g \<or> sgDelta g \<noteq> row_delta moved r, sgKeys := sgKeys g @ [brKey r]\<rparr>"
    have eq: "foldl (add_to_group moved) [] (rows @ [r]) = gs @ [g']"
      using g by (simp add: add_to_group_def Let_def g'_def)
    have gr: "group_of moved (q @ [r]) g'" using q(3) g(2) by (auto simp: group_of_def g'_def)
    have same: "sgRank g' = brRank r" using g(2) by (simp add: g'_def)
    have "map sgRank (gs @ [g']) = map sgRank ?gs" "sgRank ` set (gs @ [g']) = insert (brRank r) (sgRank ` set ?gs)"
      using g same by auto
    then show ?thesis using p q(1,2) gr unfolding eq
      by (intro exI [of _ "ps @ [q @ [r]]"]) (simp add: list_all2_appendI)
  next
    case False
    then have eq: "foldl (add_to_group moved) [] (rows @ [r]) =
        ?gs @ [\<lparr>sgRank = brRank r, sgDelta = row_delta moved r, sgMixed = False, sgKeys = [brKey r]\<rparr>]"
      by (auto simp: add_to_group_def Let_def)
    have "\<forall>g \<in> set ?gs. sgRank g < brRank r"
    proof (cases "?gs = []")
      case False
      then obtain gs g where g: "?gs = gs @ [g]" by (metis append_butlast_last_id)
      then have "sgRank g < brRank r" using le \<open>\<not> (?gs \<noteq> [] \<and> sgRank (last ?gs) = brRank r)\<close> by fastforce
      then show ?thesis using p(3) g by (auto simp: sorted_wrt_append)
    qed simp
    moreover from this have "\<forall>x \<in> set rows. brRank x < brRank r" using p(4) by (metis (no_types, lifting) imageE imageI)
    moreover have "group_of moved [r] \<lparr>sgRank = brRank r, sgDelta = row_delta moved r, sgMixed = False, sgKeys = [brKey r]\<rparr>"
      by (simp add: group_of_def)
    ultimately show ?thesis using p unfolding eq
      by (intro exI [of _ "parts @ [[r]]"]) (simp add: list_all2_appendI sorted_wrt_append)
  qed
qed

text \<open>The runs and single ranks of the groups processed so far.\<close>

definition runs_ok :: "(string \<rightharpoonup> nat) \<Rightarrow> shift_group list \<Rightarrow> shift_run list \<times> (string \<times> nat) list \<times> bool \<Rightarrow> bool" where
  "runs_ok moved gs = (\<lambda>(runs, ranks, extend).
     (\<forall>run \<in> set runs. \<forall>g \<in> set gs. in_run (sgRank g) run \<longrightarrow> \<not> sgMixed g \<and> snd (snd run) = sgDelta g)
     \<and> (\<forall>g \<in> set gs. \<not> sgMixed g \<longrightarrow> sgDelta g \<noteq> 0 \<longrightarrow> (\<exists>run \<in> set runs. in_run (sgRank g) run))
     \<and> (\<forall>run \<in> set runs. fst run \<le> fst (snd run) \<and> snd (snd run) \<noteq> 0 \<and> (\<exists>g \<in> set gs. fst (snd run) = sgRank g))
     \<and> (extend \<longrightarrow> runs \<noteq> [] \<and> gs \<noteq> [] \<and> fst (snd (last runs)) = sgRank (last gs))
     \<and> set ranks = {(k, nr). moved k = Some nr \<and> (\<exists>g \<in> set gs. sgMixed g \<and> k \<in> set (sgKeys g))})"

lemma add_run_ok:
  assumes "runs_ok moved gs st" "sorted_wrt (<) (map sgRank (gs @ [g]))"
  shows "runs_ok moved (gs @ [g]) (add_run moved st g)"
proof -
  obtain runs ranks extend where st: "st = (runs, ranks, extend)" by (metis prod_cases3)
  note ok = assms(1) [unfolded runs_ok_def st, simplified]
  have less: "\<forall>h \<in> set gs. sgRank h < sgRank g" using assms(2) by (simp add: sorted_wrt_append)
  then have below: "\<forall>run \<in> set runs. fst (snd run) < sgRank g" using ok by fastforce
  then have out: "\<forall>run \<in> set runs. \<not> in_run (sgRank g) run" by (force simp: in_run_def split: prod.splits)
  consider (mixed) "sgMixed g" | (still) "\<not> sgMixed g" "sgDelta g = 0"
    | (grow) "\<not> sgMixed g" "sgDelta g \<noteq> 0" "extend \<and> snd (snd (last runs)) = sgDelta g"
    | (new) "\<not> sgMixed g" "sgDelta g \<noteq> 0" "\<not> (extend \<and> snd (snd (last runs)) = sgDelta g)" by blast
  then show ?thesis
  proof cases
    case mixed
    then have "add_run moved st g = (runs, ranks @ concat (map (\<lambda>k. case moved k of Some nr \<Rightarrow> [(k, nr)] | None \<Rightarrow> []) (sgKeys g)), False)"
      by (simp add: add_run_def st)
    moreover have "set (concat (map (\<lambda>k. case moved k of Some nr \<Rightarrow> [(k, nr)] | None \<Rightarrow> []) (sgKeys g)))
        = {(k, nr). moved k = Some nr \<and> k \<in> set (sgKeys g)}"
      by (auto split: option.splits)
    ultimately show ?thesis using ok out mixed by (auto simp: runs_ok_def)
  next
    case still
    then have "add_run moved st g = (runs, ranks, False)" by (simp add: add_run_def st)
    then show ?thesis using ok out still by (auto simp: runs_ok_def)
  next
    case grow
    then have "runs \<noteq> []" using ok by blast
    then obtain rs f t where rs: "runs = rs @ [(f, t, sgDelta g)]"
      using grow(3) by (metis append_butlast_last_id prod.collapse)
    have t: "gs \<noteq> []" "t = sgRank (last gs)" using ok grow(3) rs by auto
    then obtain hs l where "gs = hs @ [l]" "t = sgRank l" by (metis append_butlast_last_id)
    then have "\<forall>h \<in> set gs. sgRank h \<le> t" using assms(2) by (auto simp: sorted_wrt_append)
    then have "in_run (sgRank h) (f, sgRank g, sgDelta g) = in_run (sgRank h) (f, t, sgDelta g)" if "h \<in> set gs" for h
      using that less by (fastforce simp: in_run_def)
    moreover have "add_run moved st g = (rs @ [(f, sgRank g, sgDelta g)], ranks, extend)"
      using grow rs by (simp add: add_run_def st)
    moreover have "in_run (sgRank g) (f, sgRank g, sgDelta g)"
      using ok less rs by (fastforce simp: in_run_def)
    moreover from this have "f \<le> sgRank g" by (simp add: in_run_def)
    ultimately show ?thesis using ok grow rs out by (auto simp: runs_ok_def)
  next
    case new
    then have "add_run moved st g = (runs @ [(sgRank g, sgRank g, sgDelta g)], ranks, True)"
      by (auto simp: add_run_def st)
    moreover have "in_run (sgRank g) (sgRank g, sgRank g, sgDelta g)" by (simp add: in_run_def)
    moreover have "\<not> in_run (sgRank h) (sgRank g, sgRank g, sgDelta g)" if "h \<in> set gs" for h
      using that less by (fastforce simp: in_run_def)
    ultimately show ?thesis using ok new out by (auto simp: runs_ok_def)
  qed
qed

lemma runs_ok_groups:
  assumes "sorted_wrt (<) (map sgRank gs)"
  shows "runs_ok moved gs (foldl (add_run moved) ([], [], False) gs)"
  using assms
proof (induction gs rule: rev_induct)
  case Nil
  then show ?case by (simp add: runs_ok_def)
next
  case (snoc g gs)
  then show ?case by (simp add: add_run_ok sorted_wrt_append)
qed

lemma find_in_run:
  assumes "\<forall>run \<in> set runs. in_run r run \<longrightarrow> snd (snd run) = d" "run \<in> set runs" "in_run r run"
  shows "\<exists>f t. find (in_run r) runs = Some (f, t, d)"
proof -
  obtain x where x: "find (in_run r) runs = Some x" using assms(2,3) by (metis find_None_iff not_None_eq)
  then have "snd (snd x) = d" using assms(1) find_SomeD [OF x] by blast
  then show ?thesis using x by (metis prod.collapse)
qed

text \<open>Every row is in exactly one group.\<close>

lemma group_unique:
  fixes moved :: "string \<rightharpoonup> nat"
  assumes "sorted (map brRank rows)" "distinct_keys rows" "r \<in> set rows"
  defines "gs \<equiv> foldl (add_to_group moved) [] rows"
  shows "\<exists>g. g \<in> set gs \<and> brKey r \<in> set (sgKeys g) \<and> sgRank g = brRank r \<and> (sgMixed g \<or> row_delta moved r = sgDelta g)
    \<and> (\<forall>h \<in> set gs. brKey r \<in> set (sgKeys h) \<longrightarrow> h = g)"
proof -
  obtain parts where p: "rows = concat parts" "list_all2 (group_of moved) parts gs" "sorted_wrt (<) (map sgRank gs)"
    using groups_of [OF assms(1), of moved] by (auto simp: gs_def)
  obtain rs g where rs: "(rs, g) \<in> set (zip parts gs)" "r \<in> set rs"
    using assms(3) list_all2_lengthD [OF p(2)] unfolding p(1) by (auto elim: in_set_impl_in_set_zip1)
  then have g: "g \<in> set gs" "group_of moved rs g" using p(2) by (auto simp: list_all2_iff dest: set_zip_rightD)
  have "h = g" if h: "h \<in> set gs" "brKey r \<in> set (sgKeys h)" for h
  proof -
    obtain hs where hs: "(hs, h) \<in> set (zip parts gs)"
      using h(1) list_all2_lengthD [OF p(2)] by (auto elim: in_set_impl_in_set_zip2)
    then have "group_of moved hs h" "hs \<in> set parts" using p(2) by (auto simp: list_all2_iff dest: set_zip_leftD)
    then obtain r' where r': "r' \<in> set rows" "brKey r' = brKey r" "brRank r' = sgRank h"
      using h(2) unfolding p(1) by (fastforce simp: group_of_def)
    then have "r' = r" using assms(2,3) by (auto simp: distinct_map inj_on_def)
    then have "sgRank h = sgRank g" using r'(3) g(2) rs(2) by (simp add: group_of_def)
    moreover have "inj_on sgRank (set gs)" using p(3) by (simp add: strict_sorted_iff distinct_map)
    ultimately show "h = g" using h(1) g(1) by (simp add: inj_on_eq_iff)
  qed
  moreover have "brKey r \<in> set (sgKeys g)" "sgRank g = brRank r" "sgMixed g \<or> row_delta moved r = sgDelta g"
    using g(2) rs(2) unfolding group_of_def by auto
  ultimately show ?thesis using g(1) by blast
qed

text \<open>What the runs and single ranks of the groups say of a row's group.\<close>

lemma runs_decode:
  assumes "runs_ok moved gs (runs, ranks, ext)" "g \<in> set gs" "k \<in> set (sgKeys g)"
    and "\<forall>h \<in> set gs. k \<in> set (sgKeys h) \<longrightarrow> h = g"
  shows "map_of ranks k = (if sgMixed g then moved k else None)"
    and "sgMixed g \<or> sgDelta g = 0 \<Longrightarrow> find (in_run (sgRank g)) runs = None"
    and "\<not> sgMixed g \<Longrightarrow> sgDelta g \<noteq> 0 \<Longrightarrow> \<exists>f t. find (in_run (sgRank g)) runs = Some (f, t, sgDelta g)"
proof -
  note ok = assms(1) [unfolded runs_ok_def, simplified]
  have ok1: "snd (snd run) = sgDelta g \<and> \<not> sgMixed g" if "run \<in> set runs" "in_run (sgRank g) run" for run
    using ok that assms(2) by blast
  have ok3: "snd (snd run) \<noteq> 0" if "run \<in> set runs" for run using ok that by blast
  have ok5: "set ranks = {(k, nr). moved k = Some nr \<and> (\<exists>g \<in> set gs. sgMixed g \<and> k \<in> set (sgKeys g))}"
    using ok by blast
  have single: "(k, nr) \<in> set ranks \<longleftrightarrow> sgMixed g \<and> moved k = Some nr" for nr
    unfolding ok5 using assms(2-4) by blast
  show "map_of ranks k = (if sgMixed g then moved k else None)"
  proof (cases "map_of ranks k")
    case None
    then have "\<forall>nr. (k, nr) \<notin> set ranks" by (force simp: map_of_eq_None_iff)
    then show ?thesis using None single by (cases "moved k") auto
  next
    case (Some nr)
    then show ?thesis using single map_of_SomeD by fastforce
  qed
  show "find (in_run (sgRank g)) runs = None" if "sgMixed g \<or> sgDelta g = 0"
    unfolding find_None_iff using that ok1 ok3 by metis
  show "\<exists>f t. find (in_run (sgRank g)) runs = Some (f, t, sgDelta g)" if "\<not> sgMixed g" "sgDelta g \<noteq> 0"
  proof -
    have "\<exists>run \<in> set runs. in_run (sgRank g) run" using ok that assms(2) by blast
    then show ?thesis using ok1 by (metis find_in_run)
  qed
qed

lemma shifts_page_rank:
  assumes "sorted (map brRank old)" "distinct_keys old" and "r \<in> set old" "\<not> skip (brKey r)"
  shows "page_rank (shifts old moved skip) (brKey r) (brRank r) =
    (case moved (brKey r) of Some nr \<Rightarrow> int nr | None \<Rightarrow> int (brRank r))"
proof -
  let ?rows = "filter (\<lambda>r. \<not> skip (brKey r)) old"
  define gs where "gs = foldl (add_to_group moved) [] ?rows"
  have rows: "sorted (map brRank ?rows)" "distinct_keys ?rows" "r \<in> set ?rows"
    using assms by (simp_all add: sorted_filter distinct_map_filter)
  have sorted: "sorted_wrt (<) (map sgRank gs)" using groups_of [OF rows(1), of moved] by (auto simp: gs_def)
  obtain g where g: "g \<in> set gs" "brKey r \<in> set (sgKeys g)" "sgRank g = brRank r" "sgMixed g \<or> row_delta moved r = sgDelta g"
    and only: "\<forall>h \<in> set gs. brKey r \<in> set (sgKeys h) \<longrightarrow> h = g"
    using group_unique [OF rows, of moved, folded gs_def] by blast
  obtain runs ranks extend where st: "foldl (add_run moved) ([], [], False) gs = (runs, ranks, extend)" by (metis prod_cases3)
  have sh: "shifts old moved skip = (runs, ranks)" by (simp add: shifts_def Let_def gs_def [symmetric] st)
  note dec = runs_decode [OF runs_ok_groups [OF sorted, of moved, unfolded st] g(1,2) only, unfolded g(3)]
  show ?thesis
  proof (cases "sgMixed g")
    case True
    then show ?thesis using dec(1,2) by (auto simp: sh page_rank_def split: option.splits)
  next
    case False
    then show ?thesis using dec g(4)
      by (cases "sgDelta g = 0") (auto simp: sh page_rank_def row_delta_def split: option.splits)
  qed
qed

text \<open>
  The compressed update a spectator's page receives decodes to the new ranks:
  for every row of the old board that is neither replaced nor removed, the runs of ranks and
  the single ranks give its new rank if it moved and its old rank if it did not.
\<close>

theorem shifts_decode:
  assumes "sorted (map brRank old)" "distinct_keys old" and "r \<in> set old" "\<not> skip (brKey r)"
  shows "page_rank (shifts old moved skip) (brKey r) (brRank r) =
    (case moved (brKey r) of Some nr \<Rightarrow> int nr | None \<Rightarrow> int (brRank r))"
  using assms by (rule shifts_page_rank)

theorem shifts_decode_witness:
  "page_rank (shifts [ex_board_row\<lparr>brRank := 1\<rparr>, ex_board_row\<lparr>brKey := ''t2'', brRank := 2\<rparr>, ex_board_row\<lparr>brKey := ''t3'', brRank := 3\<rparr>]
      [''t1'' \<mapsto> 2, ''t2'' \<mapsto> 3] (\<lambda>k. k = ''t3'')) ''t2'' 2 = 3"
proof -
  let ?old = "[ex_board_row\<lparr>brRank := 1\<rparr>, ex_board_row\<lparr>brKey := ''t2'', brRank := 2\<rparr>, ex_board_row\<lparr>brKey := ''t3'', brRank := 3\<rparr>]"
  have "sorted (map brRank ?old)" "distinct_keys ?old" by (simp_all add: ex_board_row_def)
  from shifts_decode [OF this, of "ex_board_row\<lparr>brKey := ''t2'', brRank := 2\<rparr>" "\<lambda>k. k = ''t3''" "[''t1'' \<mapsto> 2, ''t2'' \<mapsto> 3]"]
  show ?thesis by simp
qed

section \<open>What a spectator's page shows\<close>

text \<open>
  A page is a table of rows: key, rank and content. The content of a row is everything of its
  HTML but the rank, which the page rewrites when a row only moves; \<open>content\<close> extracts it.
  The template \<^verbatim>\<open>row\<close> of \<^verbatim>\<open>rws/partials.html\<close> uses of the board only its header without the freeze, and of
  the row only what is encoded.
\<close>

definition render_ok :: "(Board \<Rightarrow> BoardRow \<Rightarrow> string option) \<Rightarrow> (string \<Rightarrow> string) \<Rightarrow> (Board \<Rightarrow> BoardRow \<Rightarrow> string) \<Rightarrow> bool" where
  "render_ok render content f \<longleftrightarrow> (\<forall>b r. \<exists>html. render b r = Some html
     \<and> content html = f (unfreezeHeader b) (visible (r\<lparr>brRank := 0\<rparr>)))"

type_synonym page = "string \<rightharpoonup> nat \<times> string"

definition page_of :: "(Board \<Rightarrow> BoardRow \<Rightarrow> string) \<Rightarrow> Board \<Rightarrow> page" where
  "page_of f b = (\<lambda>k. map_option (\<lambda>r. (brRank r, f (unfreezeHeader b) (visible (r\<lparr>brRank := 0\<rparr>)))) (keyed (bdRows b) k))"

definition page_apply :: "(string \<Rightarrow> string) \<Rightarrow> rows_msg \<Rightarrow> page \<Rightarrow> page" where
  "page_apply content m pg = (\<lambda>k.
     case map_of (map (\<lambda>u. (rhKey u, u)) (msgRows m)) k of
       Some u \<Rightarrow> Some (rhRank u, content (rhHTML u))
     | None \<Rightarrow> (if k \<in> set (msgRemoved m) then None
               else map_option (\<lambda>(rk, c). (nat (page_rank (msgShift m, msgRanks m) k rk), c)) (pg k)))"

lemma go_map_keyed: "distinct_keys rows \<Longrightarrow> go_map (map (\<lambda>r. (brKey r, r)) rows) = keyed rows"
proof
  fix k assume d: "distinct_keys rows"
  note go = go_map_key [OF d, of "\<lambda>r. r" k]
  show "go_map (map (\<lambda>r. (brKey r, r)) rows) k = keyed rows k"
  proof (cases "keyed rows k")
    case None
    then have "\<forall>r \<in> set rows. brKey r \<noteq> k" by (auto simp: keyed_None)
    then show ?thesis using go(2) None by metis
  next
    case (Some r)
    then show ?thesis using go(1) [of r] keyed_Some [OF d, of k r] by simp
  qed
qed

lemma Diff_Some:
  assumes "Diff (Some old) b = (changed, removed)" "distinct_keys (bdRows old)"
  shows "changed = filter (\<lambda>r. map_option visible (keyed (bdRows old) (brKey r)) \<noteq> Some (visible r)) (bdRows b)"
    and "set removed = brKey ` set (bdRows old) - brKey ` set (bdRows b)"
  using assms by (auto simp: Diff_def old_rows_keyed keyed_visible)

text \<open>The rows of an update whose content changed.\<close>

lemma msg_rows:
  assumes "distinct_keys rows" "render_ok render content f"
  shows "map_of (map (\<lambda>u. (rhKey u, u)) (concat (map (row_html render b) rows))) k =
    map_option (\<lambda>r. \<lparr>rhKey = brKey r, rhRank = brRank r, rhName = brName r, rhHTML = the (render b r)\<rparr>) (keyed rows k)"
  using assms(1)
proof (induction rows)
  case (Cons r rows)
  obtain html where "render b r = Some html" using assms(2) by (auto simp: render_ok_def)
  with Cons show ?case by (auto simp: row_html_def keyed_def)
qed (simp add: keyed_def)

lemma onlyRank_content: "onlyRank x r \<Longrightarrow> visible (x\<lparr>brRank := 0\<rparr>) = visible (r\<lparr>brRank := 0\<rparr>)"
proof -
  have z: "visible (y\<lparr>brRank := 0\<rparr>) = (visible y)\<lparr>brRank := 0\<rparr>" for y by (simp add: visible_def)
  assume "onlyRank x r"
  then have "(visible (x\<lparr>brRank := brRank r\<rparr>))\<lparr>brRank := 0\<rparr> = (visible r)\<lparr>brRank := 0\<rparr>" by (simp add: onlyRank_def)
  then show ?thesis by (simp add: z [symmetric])
qed

lemma visible_content: "visible x = visible r \<Longrightarrow> visible (x\<lparr>brRank := 0\<rparr>) = visible (r\<lparr>brRank := 0\<rparr>)"
  using onlyRank_content [of x r] by (metis onlyRank_def visible_fields(2) BoardRow.surjective BoardRow.update_convs(2))

text \<open>A row of the new board that is not sent again: it was there before with the same content, and its new rank is known.\<close>

lemma moved_row:
  assumes "distinct_keys (bdRows old)" "distinct_keys changed" "brKey r = k"
    and "r \<in> set changed \<Longrightarrow> only_moved unfrozen old r"
    and "r \<notin> set changed \<Longrightarrow> map_option visible (keyed (bdRows old) k) = Some (visible r)"
    and "\<And>x. x \<in> set changed \<Longrightarrow> brKey x = k \<Longrightarrow> x = r"
  shows "\<exists>x. keyed (bdRows old) k = Some x \<and> visible (x\<lparr>brRank := 0\<rparr>) = visible (r\<lparr>brRank := 0\<rparr>)
    \<and> (case moved_ranks unfrozen old changed k of Some nr \<Rightarrow> int nr | None \<Rightarrow> int (brRank x)) = int (brRank r)"
proof -
  have dm: "distinct_keys (filter (only_moved unfrozen old) changed)" using assms(2) by (simp add: distinct_map_filter)
  show ?thesis
  proof (cases "r \<in> set changed")
    case True
    then obtain x where "keyed (bdRows old) k = Some x" "onlyRank x r"
      using assms(3,4) by (auto simp: only_moved_def go_map_keyed [OF assms(1)] split: option.splits)
    moreover have "moved_ranks unfrozen old changed k = Some (brRank r)"
      unfolding moved_ranks_def go_map_key(1) [OF dm] using True assms(3,4) by auto
    ultimately show ?thesis using onlyRank_content by auto
  next
    case False
    then obtain x where x: "keyed (bdRows old) k = Some x" "visible x = visible r" using assms(5) by auto
    moreover have "moved_ranks unfrozen old changed k = None"
      unfolding moved_ranks_def go_map_key(2) [OF dm] using False assms(6) by auto
    moreover have "brRank x = brRank r" using x(2) by (metis visible_fields(2))
    ultimately show ?thesis using visible_content [of x r] by simp
  qed
qed

lemma page_apply_update:
  assumes "distinct_keys changed" "render_ok render content f"
  shows "page_apply content (rows_update render seq base unfrozen old b changed removed) pg k =
     (case keyed (filter (\<lambda>r. \<not> only_moved unfrozen old r) changed) k of
        Some r \<Rightarrow> Some (brRank r, f (unfreezeHeader b) (visible (r\<lparr>brRank := 0\<rparr>)))
      | None \<Rightarrow> if k \<in> set removed then None
               else map_option (\<lambda>(rk, c). (nat (page_rank (msgShift (rows_update render seq base unfrozen old b changed removed),
                      msgRanks (rows_update render seq base unfrozen old b changed removed)) k rk), c)) (pg k))"
proof -
  have dn: "distinct_keys (filter (\<lambda>r. \<not> only_moved unfrozen old r) changed)" using assms(1) by (simp add: distinct_map_filter)
  have c: "content (the (render b r)) = f (unfreezeHeader b) (visible (r\<lparr>brRank := 0\<rparr>))" for b r
    using assms(2) unfolding render_ok_def by (metis option.sel)
  have "msgRows (rows_update render seq base unfrozen old b changed removed)
      = concat (map (row_html render b) (filter (\<lambda>r. \<not> only_moved unfrozen old r) changed))"
    "msgRemoved (rows_update render seq base unfrozen old b changed removed) = removed"
    by (simp_all add: rows_update_def Let_def)
  then show ?thesis unfolding page_apply_def 
    by (simp add: msg_rows [OF dn assms(2)] c split: option.split)
qed

lemma page_rank_update:
  assumes "distinct_keys (bdRows old)" "sorted (map brRank (bdRows old))" "keyed (bdRows old) k = Some x"
    and "keyed (filter (\<lambda>r. \<not> only_moved unfrozen old r) changed) k = None" "k \<notin> set removed"
  shows "page_rank (msgShift (rows_update render seq base unfrozen old b changed removed),
      msgRanks (rows_update render seq base unfrozen old b changed removed)) k (brRank x)
    = (case moved_ranks unfrozen old changed k of Some nr \<Rightarrow> int nr | None \<Rightarrow> int (brRank x))"
proof (cases "filter (only_moved unfrozen old) changed = []")
  case True
  then show ?thesis by (simp add: rows_update_def Let_def page_rank_def moved_ranks_def go_map_def)
next
  case False
  let ?skip = "\<lambda>k. k \<in> brKey ` set (filter (\<lambda>r. \<not> only_moved unfrozen old r) changed) \<or> k \<in> set removed"
  have x: "x \<in> set (bdRows old)" "brKey x = k" using keyed_Some [OF assms(1)] assms(3) by auto
  have "\<not> ?skip (brKey x)" using assms(4,5) x(2) unfolding keyed_None by blast
  from shifts_page_rank [OF assms(2,1) x(1), of ?skip, OF this] show ?thesis
    using False by (simp add: rows_update_def Let_def x(2))
qed

text \<open>
  An update takes the page of the old board to the page of the new one. \<open>changed\<close> are the rows of
  the difference, in any order.
\<close>

lemma rows_update_page:
  assumes "distinct_keys (bdRows old)" "distinct_keys (bdRows b)" "sorted (map brRank (bdRows old))"
    and "render_ok render content f" "unfreezeHeader old = unfreezeHeader b"
    and "Diff (Some old) b = (diff, removed)" "mset changed = mset diff"
  shows "page_apply content (rows_update render seq base unfrozen old b changed removed) (page_of f old) k = page_of f b k"
proof -
  let ?only = "only_moved unfrozen old"
  have only: "?only r \<longleftrightarrow> (\<exists>x. \<not> unfrozen \<and> keyed (bdRows old) (brKey r) = Some x \<and> onlyRank x r)" for r
    by (auto simp: only_moved_def go_map_keyed [OF assms(1)] split: option.splits)
  note d = Diff_Some [OF assms(6,1)]
  have set_ch: "set changed = {r \<in> set (bdRows b). map_option visible (keyed (bdRows old) (brKey r)) \<noteq> Some (visible r)}"
    using mset_eq_setD [OF assms(7)] d(1) by auto
  have "mset (map brKey changed) = mset (map brKey diff)" using assms(7) by simp
  then have dk: "distinct_keys changed"
    using assms(2) mset_eq_imp_distinct_iff distinct_map_filter unfolding d(1) by blast
  note new = page_apply_update [OF dk assms(4)]
  show ?thesis
  proof (cases "keyed (bdRows b) k")
    case None
    then have "keyed (filter (\<lambda>r. \<not> ?only r) changed) k = None" "k \<notin> set removed \<Longrightarrow> keyed (bdRows old) k = None"
      using set_ch d(2) by (auto simp: keyed_None)
    then show ?thesis unfolding new by (simp add: page_of_def None)
  next
    case (Some r)
    then have r: "r \<in> set (bdRows b)" "brKey r = k" using keyed_Some [OF assms(2)] by auto
    then have rm: "k \<notin> set removed" using d(2) by auto
    have same: "x = r" if "x \<in> set (bdRows b)" "brKey x = k" for x
      using that r assms(2) by (auto simp: distinct_map inj_on_def)
    show ?thesis
    proof (cases "r \<in> set changed \<and> \<not> ?only r")
      case True
      have "distinct_keys (filter (\<lambda>r. \<not> ?only r) changed)" using dk by (simp add: distinct_map_filter)
      then have "keyed (filter (\<lambda>r. \<not> ?only r) changed) k = Some r" using keyed_Some True r by auto
      then show ?thesis unfolding new by (simp add: page_of_def Some)
    next
      case False
      then have none: "keyed (filter (\<lambda>r. \<not> ?only r) changed) k = None" using same set_ch by (auto simp: keyed_None)
      obtain x where x: "keyed (bdRows old) k = Some x" "visible (x\<lparr>brRank := 0\<rparr>) = visible (r\<lparr>brRank := 0\<rparr>)"
          "(case moved_ranks unfrozen old changed k of Some nr \<Rightarrow> int nr | None \<Rightarrow> int (brRank x)) = int (brRank r)"
        using moved_row [OF assms(1) dk, of r k unfrozen] False r same set_ch only by blast
      then show ?thesis unfolding new none page_of_def Some x(1) assms(5)
        by (simp add: rm x page_rank_update [OF assms(1,3) x(1) none rm])
    qed
  qed
qed

text \<open>
  What a page does with a frame: it applies an update that starts from the sequence number it
  shows and starts over on any other, \<^const>\<open>None\<close>.
\<close>

type_synonym page_state = "(int \<times> page) option"

fun page_step :: "(string \<Rightarrow> string) \<Rightarrow> page_state \<Rightarrow> frame option \<Rightarrow> page_state" where
  "page_step content None fr = None"
| "page_step content (Some (seq, pg)) None = Some (seq, pg)"
| "page_step content (Some (seq, pg)) (Some Reload) = None"
| "page_step content (Some (seq, pg)) (Some (Rows m)) =
     (if msgBase m = seq then Some (msgSeq m, page_apply content m pg) else None)"

text \<open>A page in step with a board shows its rows under the number of its last visible change.\<close>

definition in_step :: "(Board \<Rightarrow> BoardRow \<Rightarrow> string) \<Rightarrow> sboard \<Rightarrow> page_state \<Rightarrow> bool" where
  "in_step f bd st \<longleftrightarrow> (case st of None \<Rightarrow> True
     | Some (seq, pg) \<Rightarrow> seq \<noteq> sbShown bd \<or> (\<exists>b. sbBoard bd = Some b \<and> pg = page_of f b))"

lemma announce_fields:
  assumes "announce render bd b old = (bd', fr)"
  shows "bd' = bd\<lparr>sbShown := sbShown bd'\<rparr>" "sbShown bd' = sbShown bd \<or> sbShown bd' = sbSeq bd"
  using assms by (auto simp: announce_def Let_def split: if_splits option.splits prod.splits)

lemma page_of_cong:
  assumes "unfreezeHeader a = unfreezeHeader b" "keyed (map visible (bdRows a)) = keyed (map visible (bdRows b))"
  shows "page_of f a = page_of f b"
proof
  fix k
  have "map_option visible (keyed (bdRows a) k) = map_option visible (keyed (bdRows b) k)"
    using assms(2) by (simp add: keyed_visible [symmetric])
  then show "page_of f a k = page_of f b k"
    unfolding page_of_def assms(1)
    by (cases "keyed (bdRows a) k"; cases "keyed (bdRows b) k") (simp_all, metis visible_content visible_fields(2))
qed

lemma unfreezeHeader_Header: "Header a = Header b \<Longrightarrow> unfreezeHeader a = unfreezeHeader b"
  by (simp add: unfreezeHeader_def)

lemma same_unfreeze: "sameHeader (unfreezeHeader a) (unfreezeHeader b) \<longleftrightarrow> unfreezeHeader a = unfreezeHeader b"
proof -
  have "Header (unfreezeHeader x) = unfreezeHeader x" for x by (simp add: unfreezeHeader_def Header_def)
  then show ?thesis by (simp add: sameHeader_def)
qed

lemma Diff_empty:
  assumes "Diff (Some old) b = ([], [])" "distinct_keys (bdRows old)" "distinct_keys (bdRows b)"
  shows "keyed (map visible (bdRows old)) = keyed (map visible (bdRows b))"
  using apply_Diff_keyed [of "map visible (bdRows old)" old b "[]" "[]"] assms
  by (simp add: apply_rows_def o_def)

lemma announce_Some:
  assumes "0 < sbSubs bd" "Diff (Some old) b = (diff, removed)"
  shows "announce render bd b (Some old) =
    (if \<not> unfreezes old b \<and> \<not> sameHeader old b then (bd\<lparr>sbShown := sbSeq bd\<rparr>, Some Reload)
     else if diff = [] \<and> removed = [] \<and> \<not> unfreezes old b then (bd, None)
     else (bd\<lparr>sbShown := sbSeq bd\<rparr>, Some (Rows (rows_update render (sbSeq bd) (sbShown bd) (unfreezes old b) old b
            (if unfreezes old b then reveal_order old diff else diff) removed))))"
  using assms(1) unfolding announce_def option.case assms(2) fst_conv snd_conv Let_def by (rule if_not_P [OF gr_implies_not_zero])

lemma mset_reveal_order [simp]: "mset (reveal_order old xs) = mset xs"
  by (simp add: reveal_order_def Let_def)


definition ex_render :: "Board \<Rightarrow> BoardRow \<Rightarrow> string option" where
  "ex_render b r = Some (brName r)"

definition ex_sboard :: sboard where
  "ex_sboard = newBoard\<lparr>sbBoard := Some ex_board, sbSeq := 4, sbShown := 4, sbSubs := 1\<rparr>"

lemma ex_render_ok: "render_ok ex_render (\<lambda>s. s) (\<lambda>b r. brName r)"
  by (simp add: render_ok_def ex_render_def visible_def)


end
