(* ===== verification/Ranking_Push.thy ===== *)
theory Ranking_Push
  imports Ranking_Server
begin

text \<open>
  The ranking pusher (\<^verbatim>\<open>src/internal/rankingpush\<close>): it recomputes the board of a contest when
  something changed and sends it to every ranking web server, as the difference to the last board when the
  server acknowledged that one and as a full board otherwise.

  The state of a contest and of a target are the code's; a target is kept beside the server it talks to. What the outside
  does is an argument: the contest row and the rankings read from the database, the clock, and
  what the network makes of a request. Sequence numbers are counted without the wrap-around of 64 bit integers
  (one push every nanosecond would take centuries to reach it).
\<close>

section \<open>State\<close>

record PContest = Contest +
  pcStatus :: string
  pcRankingVisibility :: string
  pcRankingWhen :: string
  pcRankingShowHidden :: bool

abbreviation row_of :: "PContest \<Rightarrow> Contest" where
  "row_of c \<equiv> Contest.truncate c"

text \<open>\<^const>\<open>None\<close> as the contest is the zero row of a state that was never pushed.\<close>

record contestState =
  stC :: "PContest option"
  stBoard :: "Board option"
  stHistory :: "point_history option"
  stSeq :: int
  stDirty :: bool
  stFull :: bool
  stLastPush :: time
  stTouched :: "(int \<times> time) list"
  stListed :: bool

definition new_state :: contestState where
  "new_state = \<lparr>stC = None, stBoard = None, stHistory = None, stSeq = 0, stDirty = True, stFull = True, stLastPush = zero_time,
     stTouched = [], stListed = False\<rparr>"

record target =
  tgSeq :: "string \<rightharpoonup> int"
  tgRetryAt :: time

definition acked_seq :: "target \<Rightarrow> string \<Rightarrow> int" where
  "acked_seq t name = (case tgSeq t name of None \<Rightarrow> 0 | Some n \<Rightarrow> n)"

section \<open>Scheduling\<close>

definition frozen_state :: "contestState \<Rightarrow> time \<Rightarrow> bool" where
  "frozen_state st now = (case stC st of None \<Rightarrow> False | Some c \<Rightarrow> Frozen (row_of c) now)"

text \<open>A score change: the contest is dirty and the participation has a new point.\<close>

definition touch :: "int \<Rightarrow> time \<Rightarrow> contestState \<Rightarrow> contestState" where
  "touch pid t st = st\<lparr>stDirty := True, stTouched := AList.update pid t (stTouched st)\<rparr>"

definition mark_full :: "contestState \<Rightarrow> contestState" where
  "mark_full st = st\<lparr>stDirty := True, stFull := True\<rparr>"

definition mark_dirty :: "contestState \<Rightarrow> contestState" where
  "mark_dirty st = st\<lparr>stDirty := True\<rparr>"

definition contest_state :: "(int \<rightharpoonup> contestState) \<Rightarrow> int \<Rightarrow> contestState" where
  "contest_state contests cid = (case contests cid of None \<Rightarrow> new_state | Some st \<Rightarrow> st)"

definition discover :: "int list \<Rightarrow> bool \<Rightarrow> (int \<rightharpoonup> contestState) \<Rightarrow> (int \<rightharpoonup> contestState)" where
  "discover ids all contests =
     foldl (\<lambda>cs cid. if cs cid \<noteq> None \<and> \<not> all then cs else cs(cid \<mapsto> mark_full (contest_state cs cid))) contests ids"

text \<open>One turn of \<^verbatim>\<open>flush\<close>: the state after the clock was looked at, and whether the contest is pushed now.\<close>

definition due :: "duration \<Rightarrow> duration \<Rightarrow> time \<Rightarrow> contestState \<Rightarrow> contestState \<times> bool" where
  "due live frozen now st =
     (let turned = (case stBoard st of
                      None \<Rightarrow> False
                    | Some b \<Rightarrow> frozen_state st now \<noteq> bdFrozen b
                        \<or> (case stC st of None \<Rightarrow> False
                           | Some c \<Rightarrow> pcRankingWhen c = ''after'' \<and> \<not> stListed st \<and> \<not> before now (cStopTime c)));
          st = (if turned then mark_full st else st);
          interval = (if frozen_state st now then frozen else live)
      in (st, stDirty st \<and> (stFull st \<or> t_sub now (stLastPush st) \<ge> interval)))"

definition published :: "PContest \<Rightarrow> time \<Rightarrow> bool" where
  "published c now \<longleftrightarrow>
     (if pcStatus c = ''draft'' then False
      else if pcRankingVisibility c = ''public'' \<or> pcRankingVisibility c = ''admins''
      then pcRankingWhen c \<noteq> ''after'' \<or> \<not> before now (cStopTime c)
      else False)"

section \<open>Photos\<close>

record photos =
  phThumbs :: "(string \<times> string) list"
  phQueued :: "string list"
  phWork :: "string list"

definition photo_row :: "photos \<times> BoardRow list \<Rightarrow> BoardRow \<Rightarrow> photos \<times> BoardRow list" where
  "photo_row = (\<lambda>(ph, rows) r.
     if brPhoto r = '''' then (ph, rows @ [r])
     else
       (let thumb = map_of (phThumbs ph) (brPhoto r);
            r' = r\<lparr>brPhoto := (case thumb of None \<Rightarrow> '''' | Some d \<Rightarrow> d)\<rparr>;
            ph' = (if thumb = None \<and> brPhoto r \<notin> set (phQueued ph) \<and> length (phWork ph) < 4096
                   then ph\<lparr>phWork := phWork ph @ [brPhoto r], phQueued := brPhoto r # phQueued ph\<rparr> else ph)
        in (ph', rows @ [r'])))"

definition photos_apply :: "photos \<Rightarrow> Board \<Rightarrow> photos \<times> Board" where
  "photos_apply ph b =
     (if \<not> bdPhotos b then (ph, b\<lparr>bdRows := map (\<lambda>r. r\<lparr>brPhoto := ''''\<rparr>) (bdRows b)\<rparr>)
      else (let (ph', rows) = foldl photo_row (ph, []) (bdRows b) in (ph', b\<lparr>bdRows := rows\<rparr>)))"

section \<open>Sending\<close>

text \<open>A request reaches the server and is answered, or its answer is lost, or it does not arrive.\<close>

datatype net = Delivered | AckLost | Unreachable

definition send :: "(Board \<Rightarrow> BoardRow \<Rightarrow> string option) \<Rightarrow> string \<Rightarrow> net \<Rightarrow> Server \<Rightarrow> Push \<Rightarrow> Server \<times> int \<times> bool" where
  "send render token nt srv msg =
     (let (srv', (status, seq), fr) = handlePush render srv (''Bearer '' @ token) (Some (wire msg));
          ack = (case seq of None \<Rightarrow> 0 | Some n \<Rightarrow> n)
      in case nt of
           Unreachable \<Rightarrow> (srv, -1, False)
         | AckLost \<Rightarrow> (srv', -1, False)
         | Delivered \<Rightarrow> if status = 200 then (srv', ack, True)
                       else if status = 409 then (srv', ack, False)
                       else (srv', -1, False))"

type_synonym peer = "target \<times> Server"

definition delete_at :: "(Board \<Rightarrow> BoardRow \<Rightarrow> string option) \<Rightarrow> string \<Rightarrow> string \<Rightarrow> net \<times> peer \<Rightarrow> peer" where
  "delete_at render token name = (\<lambda>(nt, t, srv).
     (t\<lparr>tgSeq := (tgSeq t)(name := None)\<rparr>, fst (send render token nt srv (empty_push name ''delete''))))"

definition deleteBoard :: "(Board \<Rightarrow> BoardRow \<Rightarrow> string option) \<Rightarrow> string \<Rightarrow> string \<Rightarrow> net list \<Rightarrow> peer list \<Rightarrow> peer list" where
  "deleteBoard render token name nets peers = map (delete_at render token name) (zip nets peers)"

definition push_message :: "string \<Rightarrow> int \<Rightarrow> string \<Rightarrow> bool \<Rightarrow> Board \<Rightarrow> point_history \<Rightarrow> BoardRow list \<Rightarrow> string list \<Rightarrow> point_history option \<Rightarrow>
    target \<Rightarrow> Push" where
  "push_message name seq kh full next hist changed removed appended t =
     (if full \<or> acked_seq t name \<noteq> seq - 1
      then (empty_push name ''full'')\<lparr>puSeq := seq, puKeyHash := kh, puBoard := Some next, puHistory := Some hist\<rparr>
      else (empty_push name ''delta'')\<lparr>puSeq := seq, puKeyHash := kh, puBase := seq - 1, puRows := changed, puRemoved := removed,
             puHistory := appended\<rparr>)"

text \<open>The push to one target, with whether it succeeded.\<close>

definition push_target :: "(Board \<Rightarrow> BoardRow \<Rightarrow> string option) \<Rightarrow> string \<Rightarrow> time \<Rightarrow> string \<Rightarrow> int \<Rightarrow> (target \<Rightarrow> Push) \<Rightarrow> net \<times> peer \<Rightarrow>
    peer \<times> bool" where
  "push_target render token now name seq msg = (\<lambda>(nt, t, srv).
     if before now (tgRetryAt t) then ((t\<lparr>tgSeq := (tgSeq t)(name \<mapsto> -1)\<rparr>, srv), False)
     else
       (let (srv', acked, ok) = send render token nt srv (msg t)
        in if ok then ((t\<lparr>tgSeq := (tgSeq t)(name \<mapsto> seq)\<rparr>, srv'), True)
           else ((t\<lparr>tgSeq := (tgSeq t)(name \<mapsto> -1),
                     tgRetryAt := (if acked < 0 then t_add now (2 * second) else tgRetryAt t)\<rparr>, srv'), False)))"

section \<open>The history of a board\<close>

text \<open>The histories of a replay are those of rows of its ranking.\<close>

definition keyed_history :: "Ranking \<Rightarrow> (int \<rightharpoonup> Point list) \<Rightarrow> point_history" where
  "keyed_history r hist =
     concat (map (\<lambda>row. case hist (rowParticipationID row) of
                          None \<Rightarrow> [] | Some pts \<Rightarrow> [(ParticipationKey (rowParticipationID row), pts)]) (rkRows r))"

definition totals :: "Ranking \<Rightarrow> (int \<rightharpoonup> f64)" where
  "totals r = go_map (map (\<lambda>row. (rowParticipationID row, if rkICPC r then f64 (of_int (rowSolved row)) else rowTotal row)) (rkRows r))"

definition append_point :: "(int \<rightharpoonup> f64) \<Rightarrow> point_history \<times> point_history \<Rightarrow> int \<times> time \<Rightarrow> point_history \<times> point_history" where
  "append_point tots = (\<lambda>(hist, app) (pid, t).
     case tots pid of
       None \<Rightarrow> (hist, app)
     | Some tot \<Rightarrow>
         (let k = ParticipationKey pid; pts = (case map_of hist k of None \<Rightarrow> [] | Some ps \<Rightarrow> ps)
          in if pts \<noteq> [] \<and> ptTotal (last pts) = tot then (hist, app)
             else (add_points hist (k, [\<lparr>ptTime = t, ptTotal = tot\<rparr>]), add_points app (k, [\<lparr>ptTime = t, ptTotal = tot\<rparr>]))))"

section \<open>Pushing a contest\<close>

datatype fetched = Gone | FetchError | Fetched PContest

text \<open>What the outside gives one push: the contest row, the rankings, and the network for deletions and for the push.\<close>

record env =
  envContest :: fetched
  envReplay :: "time option \<Rightarrow> Options \<Rightarrow> (string, Ranking \<times> (int \<rightharpoonup> Point list)) result"
  envCompute :: "Options \<Rightarrow> (string, Ranking) result"
  envNow :: time
  envBlobs :: bool
  envPhotos :: photos
  envRenamed :: "net list"
  envDelete :: "net list"
  envPush :: "net list"

definition load_ranking :: "env \<Rightarrow> PContest \<Rightarrow> bool \<Rightarrow> point_history option \<Rightarrow> (string, Ranking \<times> (int \<rightharpoonup> Point list) option) result" where
  "load_ranking e c full hist =
     (let opt = \<lparr>optIncludeHidden = pcRankingShowHidden c, optSiteID = 0\<rparr>
      in if Frozen (row_of c) (envNow e)
         then bind_result (envReplay e (FreezeAt (row_of c)) opt) (\<lambda>(r, h). Inr (r, Some h))
         else if full \<or> hist = None
         then bind_result (envReplay e None opt) (\<lambda>(r, h). Inr (r, Some h))
         else bind_result (envCompute e opt) (\<lambda>r. Inr (r, None)))"

definition next_board :: "env \<Rightarrow> PContest \<Rightarrow> Ranking \<Rightarrow> Board" where
  "next_board e c r =
     (let b = BuildBoard r (row_of c) (envNow e);
          b = (if envBlobs e then b else b\<lparr>bdPhotos := False\<rparr>)
      in snd (photos_apply (envPhotos e) b))"

text \<open>The new history and the points appended to it (\<^const>\<open>None\<close> when the history was recomputed).\<close>

definition next_history :: "Ranking \<Rightarrow> (int \<rightharpoonup> Point list) option \<Rightarrow> point_history option \<Rightarrow> (int \<times> time) list \<Rightarrow>
    point_history \<times> point_history option" where
  "next_history r hist old touched =
     (case hist of
        Some h \<Rightarrow> (keyed_history r h, None)
      | None \<Rightarrow> (let (h, app) = foldl (append_point (totals r)) (case old of None \<Rightarrow> [] | Some o' \<Rightarrow> o', []) touched in (h, Some app)))"

text \<open>The last part of \<^verbatim>\<open>pushContest\<close>: the difference, the message for every target and their answers.\<close>

definition push_board :: "(Board \<Rightarrow> BoardRow \<Rightarrow> string option) \<Rightarrow> string \<Rightarrow> (string \<Rightarrow> string) \<Rightarrow> env \<Rightarrow> PContest \<Rightarrow> bool \<Rightarrow> Board \<Rightarrow>
    point_history option \<Rightarrow> contestState \<Rightarrow> peer list \<Rightarrow> contestState \<times> peer list \<times> bool" where
  "push_board render token keyOf e c full next appended st peers =
     (let (changed, removed) = Diff (stBoard st) next;
          headerChanged = (case stBoard st of None \<Rightarrow> True | Some b \<Rightarrow> \<not> sameHeader b next)
      in if \<not> full \<and> \<not> headerChanged \<and> changed = [] \<and> removed = [] \<and> (appended = None \<or> appended = Some [])
         then (st, peers, True)
         else
           (let kh = (if pcRankingVisibility c = ''admins'' then keyOf (cName c) else '''');
                seq = stSeq st + 1;
                msg = push_message (cName c) seq kh (full \<or> headerChanged) next
                        (case stHistory st of None \<Rightarrow> [] | Some h \<Rightarrow> h) changed removed appended;
                res = map (push_target render token (envNow e) (cName c) seq msg) (zip (envPush e) peers);
                ok = list_all snd res;
                st = st\<lparr>stSeq := seq, stBoard := Some next, stListed := True\<rparr>
            in (if ok then st else mark_full st, map fst res, ok)))"

text \<open>The part after the contest row is known: a contest that is not published is taken off the servers.\<close>

definition push_known :: "(Board \<Rightarrow> BoardRow \<Rightarrow> string option) \<Rightarrow> string \<Rightarrow> (string \<Rightarrow> string) \<Rightarrow> env \<Rightarrow> PContest \<Rightarrow> bool \<Rightarrow>
    (int \<times> time) list \<Rightarrow> contestState \<Rightarrow> peer list \<Rightarrow> contestState \<times> peer list \<times> bool" where
  "push_known render token keyOf e c full touched st peers =
     (if \<not> published c (envNow e)
      then (if stListed st \<or> full
            then (st\<lparr>stListed := False, stBoard := None, stHistory := None\<rparr>,
                  deleteBoard render token (cName c) (envDelete e) peers, True)
            else (st, peers, True))
      else
        (case load_ranking e c full (stHistory st) of
           Inl _ \<Rightarrow> (mark_full st, peers, False)
         | Inr (r, hist) \<Rightarrow>
             (let (h, appended) = next_history r hist (stHistory st) touched
              in push_board render token keyOf e c full (next_board e c r) appended (st\<lparr>stHistory := Some h\<rparr>) peers)))"

definition renamed_from :: "contestState \<Rightarrow> PContest \<Rightarrow> string option" where
  "renamed_from st c =
     (case stC st of
        None \<Rightarrow> None
      | Some old \<Rightarrow> if stListed st \<and> cName old \<noteq> '''' \<and> cName old \<noteq> cName c then Some (cName old) else None)"

definition forget :: "(Board \<Rightarrow> BoardRow \<Rightarrow> string option) \<Rightarrow> string \<Rightarrow> env \<Rightarrow> contestState \<Rightarrow> peer list \<Rightarrow> peer list" where
  "forget render token e st peers =
     (case stC st of
        None \<Rightarrow> peers
      | Some c \<Rightarrow> if stListed st \<and> cName c \<noteq> '''' then deleteBoard render token (cName c) (envDelete e) peers else peers)"

text \<open>
  The whole of \<^verbatim>\<open>pushContest\<close>: the new state (\<^const>\<open>None\<close> when the contest is forgotten), the peers and whether
  there was no error. \<open>take_marks\<close> is its first critical section.
\<close>

definition take_marks :: "time \<Rightarrow> contestState \<Rightarrow> contestState" where
  "take_marks now st = st\<lparr>stDirty := False, stFull := False, stTouched := [], stLastPush := now\<rparr>"

definition pushContest :: "(Board \<Rightarrow> BoardRow \<Rightarrow> string option) \<Rightarrow> string \<Rightarrow> (string \<Rightarrow> string) \<Rightarrow> env \<Rightarrow> contestState \<Rightarrow> peer list \<Rightarrow>
    contestState option \<times> peer list \<times> bool" where
  "pushContest render token keyOf e st0 peers =
     (let st = take_marks (envNow e) st0
      in case envContest e of
           Gone \<Rightarrow> (None, forget render token e st peers, True)
         | FetchError \<Rightarrow> (Some (mark_full st), peers, False)
         | Fetched c \<Rightarrow>
             (let (st', peers', ok) =
                (case renamed_from st c of
                   None \<Rightarrow> push_known render token keyOf e c (stFull st0) (stTouched st0) (st\<lparr>stC := Some c\<rparr>) peers
                 | Some n \<Rightarrow> push_known render token keyOf e c (stFull st0) (stTouched st0) (st\<lparr>stListed := False, stC := Some c\<rparr>)
                               (deleteBoard render token n (envRenamed e) peers))
              in (Some st', peers', ok)))"

section \<open>Keys of a board\<close>

lemma ParticipationKey_inject [simp]: "ParticipationKey m = ParticipationKey n \<longleftrightarrow> m = n"
  by (auto simp: ParticipationKey_def dest: Itoa_inject)

text \<open>The loop over the rows gives every participation and every team one key.\<close>

definition keys_ok :: "int set \<Rightarrow> BoardRow list \<times> (string \<times> nat) list \<Rightarrow> bool" where
  "keys_ok ids = (\<lambda>(rows, teams). distinct_keys rows
     \<and> (\<forall>code i. map_of teams code = Some i \<longrightarrow> i < length rows \<and> brKey (rows ! i) = ''t'' @ code)
     \<and> (\<forall>row \<in> set rows. (\<exists>i \<in> ids. brKey row = ParticipationKey i) \<or> (\<exists>code. brKey row = ''t'' @ code \<and> map_of teams code \<noteq> None)))"

lemma mergeTeam_key [simp]: "brKey (mergeTeam t m icpc tasks) = brKey t"
  by (simp add: mergeTeam_def)

lemma board_row_key [simp]: "brKey (board_row c r row) = ParticipationKey (rowParticipationID row)"
  by (simp add: board_row_def Let_def)

lemma keys_update: "brKey r = brKey (rows ! i) \<Longrightarrow> map brKey (rows[i := r]) = map brKey rows"
  by (metis list_update_id map_update nth_map length_map list_update_beyond not_le)

lemma add_board_row_keys:
  assumes "keys_ok ids (rows, teams)" "rowParticipationID row \<notin> ids"
  shows "keys_ok (insert (rowParticipationID row) ids) (add_board_row c r (rows, teams) row)"
proof (cases "cTeamMode c \<and> rowTeamCode row \<noteq> '''' \<and> \<not> cRankingAnonymous c")
  case False
  have "ParticipationKey (rowParticipationID row) \<notin> brKey ` set rows"
  proof
    assume "ParticipationKey (rowParticipationID row) \<in> brKey ` set rows"
    then obtain x where x: "x \<in> set rows" "brKey x = ParticipationKey (rowParticipationID row)" by auto
    then have "(\<exists>i \<in> ids. brKey x = ParticipationKey i) \<or> (\<exists>code. brKey x = ''t'' @ code)"
      using assms(1) unfolding keys_ok_def by blast
    then have "\<exists>i \<in> ids. brKey x = ParticipationKey i" using x(2) by (auto simp: ParticipationKey_def)
    then show False using x(2) assms(2) by auto
  qed
  moreover have "add_board_row c r (rows, teams) row = (rows @ [board_row c r row], teams)"
    using False by (auto simp: add_board_row_def Let_def)
  ultimately show ?thesis using assms by (auto simp: keys_ok_def nth_append less_Suc_eq)
next
  case True
  show ?thesis
  proof (cases "map_of teams (rowTeamCode row)")
    case None
    have "''t'' @ rowTeamCode row \<notin> brKey ` set rows" using assms None by (auto simp: keys_ok_def ParticipationKey_def)
    moreover obtain x where eq: "add_board_row c r (rows, teams) row = (rows @ [x], (rowTeamCode row, length rows) # teams)"
      "brKey x = ''t'' @ rowTeamCode row"
      using True None by (simp add: add_board_row_def Let_def)
    moreover have "(\<exists>i \<in> insert (rowParticipationID row) ids. brKey y = ParticipationKey i)
        \<or> (\<exists>code. brKey y = ''t'' @ code \<and> map_of ((rowTeamCode row, length rows) # teams) code \<noteq> None)"
      if "y \<in> set (rows @ [x])" for y
    proof (cases "y \<in> set rows")
      case True
      then have "(\<exists>i \<in> ids. brKey y = ParticipationKey i) \<or> (\<exists>code. brKey y = ''t'' @ code \<and> map_of teams code \<noteq> None)"
        using assms(1) unfolding keys_ok_def by blast
      then show ?thesis by auto
    next
      case False
      then show ?thesis using that eq(2) by auto
    qed
    ultimately show ?thesis using assms unfolding keys_ok_def eq(1) by (auto simp: nth_append less_Suc_eq)
  next
    case (Some i)
    then have i: "i < length rows" using assms(1) by (auto simp: keys_ok_def)
    let ?rows = "rows[i := mergeTeam (rows ! i) (board_row c r row) (rkICPC r) (rkTasks r)]"
    have k: "map brKey ?rows = map brKey rows" by (rule keys_update) simp
    then have n: "brKey (?rows ! j) = brKey (rows ! j)" if "j < length rows" for j
      using that by (metis length_list_update nth_map)
    have s: "brKey ` set ?rows = brKey ` set rows" using k by (metis list.set_map)
    have "\<forall>kk \<in> brKey ` set rows. (\<exists>i \<in> insert (rowParticipationID row) ids. kk = ParticipationKey i) \<or> (\<exists>code. kk = ''t'' @ code \<and> map_of teams code \<noteq> None)"
      using assms(1) by (fastforce simp: keys_ok_def)
    then have "\<forall>kk \<in> brKey ` set ?rows. (\<exists>i \<in> insert (rowParticipationID row) ids. kk = ParticipationKey i) \<or> (\<exists>code. kk = ''t'' @ code \<and> map_of teams code \<noteq> None)"
      unfolding s .
    moreover have "add_board_row c r (rows, teams) row = (?rows, teams)"
      using True Some by (simp add: add_board_row_def Let_def)
    ultimately show ?thesis using assms(1) k n by (auto simp: keys_ok_def)
  qed
qed

lemma add_board_rows_keys:
  assumes "keys_ok ids st" "distinct (map rowParticipationID xs)" "ids \<inter> rowParticipationID ` set xs = {}"
  shows "distinct_keys (fst (foldl (add_board_row c r) st xs))"
  using assms
proof (induction xs arbitrary: ids st)
  case Nil
  then show ?case by (simp add: keys_ok_def split: prod.splits)
next
  case (Cons x xs)
  obtain rows teams where st: "st = (rows, teams)" by fastforce
  have "keys_ok (insert (rowParticipationID x) ids) (add_board_row c r st x)"
    unfolding st by (rule add_board_row_keys) (use Cons.prems in \<open>auto simp: st\<close>)
  then show ?case using Cons.IH [of "insert (rowParticipationID x) ids"] Cons.prems by auto
qed

lemma SortRows_keys [simp]: "distinct_keys (bdRows (SortRows b)) \<longleftrightarrow> distinct_keys (bdRows b)"
proof -
  have "mset (map brKey (bdRows (SortRows b))) = mset (map brKey (bdRows b))" by (simp add: SortRows_def)
  then show ?thesis by (rule mset_eq_imp_distinct_iff)
qed

lemma map2_keys: "length ks = length rows \<Longrightarrow> map brKey (map2 (\<lambda>row rk. row\<lparr>brRank := rk\<rparr>) rows ks) = map brKey rows"
  by (induction ks rows rule: list_induct2) simp_all

lemma rerank_keys [simp]: "distinct_keys (bdRows (rerank c b)) \<longleftrightarrow> distinct_keys (bdRows b)"
proof -
  let ?cmp = "board_cmp (bdICPC b) (cRankingTieBreak c)"
  let ?rows = "stable_sort (row_less ?cmp brName) (map (total_board_row (bdICPC b) (cIcpcPenaltyMinutes c) (bdPrecision b)) (bdRows b))"
  have t: "brKey (total_board_row i q p row) = brKey row" for i q p row by (simp add: total_board_row_def split: prod.splits)
  have "map brKey (bdRows (rerank c b)) = map brKey ?rows"
    by (simp add: rerank_def Let_def map2_keys del: map_map)
  then have "mset (map brKey (bdRows (rerank c b))) = mset (map brKey (bdRows b))" by (simp add: t o_def image_mset.comp [symmetric] multiset.map_comp)
  then show ?thesis by (rule mset_eq_imp_distinct_iff)
qed

lemma BuildBoard_keys:
  assumes "distinct (map rowParticipationID (rkRows r))"
  shows "distinct_keys (bdRows (BuildBoard r c now))"
proof -
  have "distinct_keys (fst (foldl (add_board_row c r) ([], []) (rkRows r)))"
    by (rule add_board_rows_keys [of "{}"]) (use assms in \<open>simp_all add: keys_ok_def\<close>)
  then show ?thesis by (simp add: BuildBoard_def Let_def hide_subtasks_def o_def)
qed

end
