(* ===== verification/Ranking_Sync.thy ===== *)
theory Ranking_Sync
  imports Ranking_Push
begin

text \<open>
  The pusher and the servers together: pushes over a network that loses requests and answers,
  servers that save and restart, other contests on the same servers. The main invariant is
  that a server at sequence number \<open>n\<close> shows exactly the board the pusher sent under \<open>n\<close>.
\<close>

section \<open>What a server shows\<close>

definition shows_board :: "Board option \<Rightarrow> Board \<Rightarrow> bool" where
  "shows_board held b \<longleftrightarrow> (\<exists>b'. held = Some b' \<and> distinct_keys (bdRows b')
     \<and> mset (bdRows b') = mset (map visible (bdRows b)) \<and> Header b' = Header b)"

definition srv_ok :: "string \<Rightarrow> (int \<rightharpoonup> Board) \<Rightarrow> Server \<Rightarrow> bool" where
  "srv_ok name sent srv \<longleftrightarrow>
     (\<forall>bd. svBoards srv name = Some bd \<longrightarrow> (\<exists>b. sent (sbSeq bd) = Some b \<and> shows_board (sbBoard bd) b))
     \<and> (\<forall>p. svDisk srv name = Some p \<longrightarrow> (\<exists>b. sent (puSeq p) = Some b \<and> shows_board (puBoard p) b))"

lemma srv_ok_log:
  assumes "srv_ok name sent srv" "sent n = None"
  shows "srv_ok name (sent(n \<mapsto> b)) srv"
  using assms unfolding srv_ok_def by (metis fun_upd_apply option.distinct(1))

lemma rebuild_fields [simp]: "sbBoard (rebuild bd) = sbBoard bd" "sbSeq (rebuild bd) = sbSeq bd"
  by (simp_all add: rebuild_def)

lemma Header_rows [simp]: "Header (b\<lparr>bdRows := rows\<rparr>) = Header b"
  by (simp add: Header_def)

lemma bdRows_SortRows [simp]: "mset (bdRows (SortRows b)) = mset (bdRows b)" "Header (SortRows b) = Header b"
  by (simp_all add: SortRows_def Header_def)

lemma bdRows_wire [simp]: "bdRows (wire_board b) = map visible (bdRows b)" "Header (wire_board b) = Header b"
  by (simp_all add: wire_board_def Header_def)

lemma shows_sorted:
  assumes "distinct_keys (bdRows b')" "mset (bdRows b') = mset (map visible (bdRows b))" "Header b' = Header b"
  shows "shows_board (Some (SortRows b')) b"
  using assms by (simp add: shows_board_def)

lemma shows_wire: "distinct_keys (bdRows b) \<Longrightarrow> shows_board (Some (SortRows (wire_board b))) b"
  by (rule shows_sorted) (simp_all add: o_def)

lemma announce_board:
  assumes "announce render bd b old = (bd', fr)"
  shows "sbBoard bd' = sbBoard bd" "sbSeq bd' = sbSeq bd"
  using announce_fields(1) [OF assms] by (metis sboard.select_convs(1,2) sboard.surjective sboard.update_convs(6))+

section \<open>The server's operations\<close>

lemma push_full_shows:
  assumes "puBoard p = Some (wire_board b)" "distinct_keys (bdRows b)" "push_full render srv p = (srv', reply, fr)"
  shows "\<exists>bd. svBoards srv' = (svBoards srv)(puContest p \<mapsto> bd) \<and> sbSeq bd = puSeq p \<and> shows_board (sbBoard bd) b"
    and "svDisk srv' = svDisk srv" "svToken srv' = svToken srv" "reply = (200, Some (puSeq p))"
proof -
  define bd where "bd = (case svBoards srv (puContest p) of None \<Rightarrow> newBoard | Some bd \<Rightarrow> bd)"
  define bd1 where "bd1 = rebuild (bd\<lparr>sbBoard := Some (SortRows (wire_board b)), sbSeq := puSeq p, sbKeyHash := puKeyHash p,
     sbHistory := (case puHistory p of None \<Rightarrow> sbHistory bd | Some h \<Rightarrow> h)\<rparr>)"
  obtain bd2 fr' where a: "announce render bd1 (SortRows (wire_board b)) (sbBoard bd) = (bd2, fr')" by fastforce
  have b2: "sbBoard bd2 = Some (SortRows (wire_board b))" "sbSeq bd2 = puSeq p"
    using announce_board [OF a] by (simp_all add: bd1_def)
  have p: "push_full render srv p = (srv\<lparr>svBoards := (svBoards srv)(puContest p \<mapsto> bd2)\<rparr>, (200, Some (puSeq p)), fr')"
    using a b2 unfolding push_full_def assms(1) by (simp add: Let_def bd_def [symmetric] bd1_def [symmetric])
  show "\<exists>bd. svBoards srv' = (svBoards srv)(puContest p \<mapsto> bd) \<and> sbSeq bd = puSeq p \<and> shows_board (sbBoard bd) b"
    using assms(3) p b2 shows_wire [OF assms(2)] by auto
  show "svDisk srv' = svDisk srv" "svToken srv' = svToken srv" "reply = (200, Some (puSeq p))"
    using assms(3) p by auto
qed

lemma push_delta_shows:
  assumes "push_delta render srv p = (srv', reply, fr)" "svBoards srv (puContest p) = Some bd" "sbSeq bd = puBase p"
    and "shows_board (sbBoard bd) prev" "distinct_keys (bdRows prev)" "distinct_keys (bdRows next)" "Header prev = Header next"
    and "Diff (Some prev) next = (changed, removed)" "puRows p = map visible changed" "puRemoved p = removed"
  shows "\<exists>bd. svBoards srv' = (svBoards srv)(puContest p \<mapsto> bd) \<and> sbSeq bd = puSeq p \<and> shows_board (sbBoard bd) next"
    and "svDisk srv' = svDisk srv" "svToken srv' = svToken srv" "reply = (200, Some (puSeq p))"
proof -
  obtain b where b: "sbBoard bd = Some b" "distinct_keys (bdRows b)" "mset (bdRows b) = mset (map visible (bdRows prev))" "Header b = Header prev"
    using assms(4) by (auto simp: shows_board_def)
  have "distinct_keys (map visible (bdRows prev))" using assms(5) by (simp add: o_def)
  then have "keyed (bdRows b) = keyed (map visible (bdRows prev))" by (rule mset_keyed [OF b(3)])
  then have rows: "distinct_keys (apply_rows (bdRows b) (map visible changed) removed)"
      "keyed (apply_rows (bdRows b) (map visible changed) removed) = keyed (map visible (bdRows next))"
    using apply_Diff_keyed [OF b(2) assms(5,6) _ assms(8)] by auto
  have "distinct_keys (map visible (bdRows next))" using assms(6) by (simp add: o_def)
  then have "mset (apply_rows (bdRows b) (map visible changed) removed) = mset (map visible (bdRows next))"
    by (rule keyed_mset [OF rows(2,1)])
  then have sh: "shows_board (Some (SortRows (b\<lparr>bdRows := apply_rows (bdRows b) (map visible changed) removed\<rparr>))) next"
    using rows(1) b(4) assms(7) by (intro shows_sorted) simp_all
  define bd1 where "bd1 = rebuild (apply_push bd b p)"
  have b1: "sbBoard bd1 = Some (SortRows (b\<lparr>bdRows := apply_rows (bdRows b) (map visible changed) removed\<rparr>))" "sbSeq bd1 = puSeq p"
    by (simp_all add: bd1_def apply_push_def assms(9,10))
  obtain bd2 fr' where a: "announce render bd1 (the (sbBoard bd1)) (Some b) = (bd2, fr')" by fastforce
  have p: "push_delta render srv p = (srv\<lparr>svBoards := (svBoards srv)(puContest p \<mapsto> bd2)\<rparr>, (200, Some (puSeq p)), fr')"
    using a announce_board [OF a] b1 assms(3) unfolding push_delta_def assms(2) by (simp add: b(1) Let_def bd1_def [symmetric])
  show "\<exists>bd. svBoards srv' = (svBoards srv)(puContest p \<mapsto> bd) \<and> sbSeq bd = puSeq p \<and> shows_board (sbBoard bd) next"
    using assms(1) p sh announce_board [OF a] b1 by auto
  show "svDisk srv' = svDisk srv" "svToken srv' = svToken srv" "reply = (200, Some (puSeq p))"
    using assms(1) p by auto
qed

text \<open>A delta for another base leaves the server alone and is refused.\<close>

lemma push_delta_conflict:
  assumes "push_delta render srv p = (srv', reply, fr)"
    and "\<forall>bd. svBoards srv (puContest p) = Some bd \<longrightarrow> sbBoard bd = None \<or> sbSeq bd \<noteq> puBase p"
  shows "srv' = srv" "fst reply = 409"
  using assms by (auto simp: push_delta_def split: option.splits if_splits)

section \<open>Sending keeps the invariant\<close>

lemma wire_fields [simp]:
  "puContest (wire p) = puContest p" "puKind (wire p) = puKind p" "puSeq (wire p) = puSeq p" "puBase (wire p) = puBase p"
  "puBoard (wire p) = map_option wire_board (puBoard p)" "puRows (wire p) = map visible (puRows p)"
  "puRemoved (wire p) = puRemoved p" "puKeyHash (wire p) = puKeyHash p"
  by (simp_all add: wire_def)

text \<open>A message fits the log when it carries the next board, or the difference to it from the board before.\<close>

definition fits :: "string \<Rightarrow> (int \<rightharpoonup> Board) \<Rightarrow> int \<Rightarrow> Board \<Rightarrow> Push \<Rightarrow> bool" where
  "fits name sent n next msg \<longleftrightarrow> puContest msg = name \<and> puSeq msg = n \<and>
     (puKind msg = ''full'' \<and> puBoard msg = Some next
      \<or> puKind msg = ''delta'' \<and> puBase msg = n - 1 \<and> (\<exists>prev. sent (n - 1) = Some prev \<and> Header prev = Header next
          \<and> Diff (Some prev) next = (puRows msg, puRemoved msg)))"

definition sent_ok :: "(int \<rightharpoonup> Board) \<Rightarrow> int \<Rightarrow> bool" where
  "sent_ok sent n \<longleftrightarrow> (\<forall>k b. sent k = Some b \<longrightarrow> k \<le> n \<and> distinct_keys (bdRows b))"

lemma sent_ok_new: "sent_ok sent n \<Longrightarrow> n < m \<Longrightarrow> sent m = None"
  unfolding sent_ok_def by (meson leD not_None_eq)

lemma handlePush_fits:
  assumes "fits name sent n next msg" "srv_ok name sent srv" "sent_ok sent (n - 1)" "distinct_keys (bdRows next)"
    and "handlePush render srv header (Some (wire msg)) = (srv', reply, fr)"
  shows "srv_ok name (sent(n \<mapsto> next)) srv'" "svToken srv' = svToken srv"
    and "fst reply = 200 \<Longrightarrow> \<exists>bd. svBoards srv' name = Some bd \<and> sbSeq bd = n \<and> shows_board (sbBoard bd) next"
proof -
  have c: "puContest msg = name" "puSeq msg = n" using assms(1) by (simp_all add: fits_def)
  have new: "sent n = None" using assms(3) by (rule sent_ok_new) simp
  have keep: "srv_ok name (sent(n \<mapsto> next)) srv" using assms(2) new by (rule srv_ok_log)
  have set: "srv_ok name (sent(n \<mapsto> next)) s'"
    if "svBoards s' = (svBoards srv)(name \<mapsto> bd)" "sbSeq bd = n" "shows_board (sbBoard bd) next" "svDisk s' = svDisk srv" for s' bd
    using keep that by (simp add: srv_ok_def)
  consider (refused) "srv' = srv" "fst reply \<noteq> 200"
    | (full) "puBoard msg = Some next" "push_full render srv (wire msg) = (srv', reply, fr)"
    | (delta) "puKind msg = ''delta''" "push_delta render srv (wire msg) = (srv', reply, fr)"
    using assms(1,5) by (auto simp: handlePush_def fits_def split: if_splits)
  then have all: "srv_ok name (sent(n \<mapsto> next)) srv' \<and> svToken srv' = svToken srv
      \<and> (fst reply = 200 \<longrightarrow> (\<exists>bd. svBoards srv' name = Some bd \<and> sbSeq bd = n \<and> shows_board (sbBoard bd) next))"
  proof cases
    case refused
    then show ?thesis using keep by simp
  next
    case full
    have b: "puBoard (wire msg) = Some (wire_board next)" using full(1) by simp
    note f = push_full_shows [OF b assms(4) full(2), unfolded wire_fields c]
    from f(1) obtain bd where "svBoards srv' = (svBoards srv)(name \<mapsto> bd)" "sbSeq bd = n" "shows_board (sbBoard bd) next" by blast
    then show ?thesis using set [of srv' bd] f(2,3) by simp
  next
    case delta
    then obtain prev where prev: "sent (n - 1) = Some prev" "Header prev = Header next" "puBase msg = n - 1"
        "Diff (Some prev) next = (puRows msg, puRemoved msg)"
      using assms(1) by (auto simp: fits_def)
    show ?thesis
    proof (cases "\<exists>bd. svBoards srv name = Some bd \<and> sbBoard bd \<noteq> None \<and> sbSeq bd = n - 1")
      case True
      then obtain bd where bd: "svBoards srv name = Some bd" "sbSeq bd = n - 1" by blast
      then have "shows_board (sbBoard bd) prev" using assms(2) prev(1) by (auto simp: srv_ok_def)
      moreover have "distinct_keys (bdRows prev)" using assms(3) prev(1) by (auto simp: sent_ok_def)
      ultimately have "\<exists>bd. svBoards srv' = (svBoards srv)(name \<mapsto> bd) \<and> sbSeq bd = n \<and> shows_board (sbBoard bd) next"
          "svDisk srv' = svDisk srv" "svToken srv' = svToken srv"
        using push_delta_shows [OF delta(2), of bd prev "next" "puRows msg" "puRemoved msg"] bd prev assms(4) c by auto
      then show ?thesis using set by auto
    next
      case False
      then have "srv' = srv" "fst reply = 409"
        using push_delta_conflict [OF delta(2)] prev(3) c by auto
      then show ?thesis using keep by simp
    qed
  qed
  from all show "srv_ok name (sent(n \<mapsto> next)) srv'" "svToken srv' = svToken srv" by simp_all
  from all show "fst reply = 200 \<Longrightarrow> \<exists>bd. svBoards srv' name = Some bd \<and> sbSeq bd = n \<and> shows_board (sbBoard bd) next" by simp
qed

lemma send_fits:
  assumes "fits name sent n next msg" "srv_ok name sent srv" "sent_ok sent (n - 1)" "distinct_keys (bdRows next)"
    and "send render token nt srv msg = (srv', acked, ok)"
  shows "srv_ok name (sent(n \<mapsto> next)) srv'" "svToken srv' = svToken srv"
    and "ok \<Longrightarrow> \<exists>bd. svBoards srv' name = Some bd \<and> sbSeq bd = n \<and> shows_board (sbBoard bd) next"
proof -
  obtain s status q fr where h: "handlePush render srv (''Bearer '' @ token) (Some (wire msg)) = (s, (status, q), fr)"
    by (cases "handlePush render srv (''Bearer '' @ token) (Some (wire msg))") auto
  note f = handlePush_fits [OF assms(1-4) h]
  have "sent n = None" using assms(3) by (rule sent_ok_new) simp
  then have keep: "srv_ok name (sent(n \<mapsto> next)) srv" using assms(2) srv_ok_log by blast
  have "srv' = s \<and> (ok \<longrightarrow> status = 200) \<or> srv' = srv \<and> \<not> ok"
    using assms(5) unfolding send_def h by (cases nt) (auto simp: Let_def split: if_splits)
  then show "srv_ok name (sent(n \<mapsto> next)) srv'" "svToken srv' = svToken srv"
    "ok \<Longrightarrow> \<exists>bd. svBoards srv' name = Some bd \<and> sbSeq bd = n \<and> shows_board (sbBoard bd) next"
    using f keep by (cases ok; auto)+
qed

lemma send_server:
  "fst (send render token nt srv msg) \<in> {srv, fst (handlePush render srv (''Bearer '' @ token) (Some (wire msg)))}"
  unfolding send_def by (cases nt) (simp_all add: Let_def split: prod.splits)

lemma push_target_fits:
  assumes "fits name sent n next (msg t)" "srv_ok name sent srv" "sent_ok sent (n - 1)" "distinct_keys (bdRows next)"
    and "push_target render token now name n msg (nt, t, srv) = ((t', srv'), ok)"
  shows "srv_ok name (sent(n \<mapsto> next)) srv'"
    and "ok \<Longrightarrow> acked_seq t' name = n \<and> (\<exists>bd. svBoards srv' name = Some bd \<and> sbSeq bd = n \<and> shows_board (sbBoard bd) next)"
proof -
  obtain s acked k where s: "send render token nt srv (msg t) = (s, acked, k)" by (metis prod_cases3)
  note f = send_fits [OF assms(1-4) s]
  have "sent n = None" using assms(3) by (rule sent_ok_new) simp
  then have "srv_ok name (sent(n \<mapsto> next)) srv" using assms(2) srv_ok_log by blast
  then show "srv_ok name (sent(n \<mapsto> next)) srv'"
    "ok \<Longrightarrow> acked_seq t' name = n \<and> (\<exists>bd. svBoards srv' name = Some bd \<and> sbSeq bd = n \<and> shows_board (sbBoard bd) next)"
    using assms(5) f unfolding push_target_def by (auto simp: s acked_seq_def split: if_splits)
qed

lemma push_delete_ok: "srv_ok name sent srv \<Longrightarrow> srv_ok name sent (fst (push_delete srv p))"
  by (auto simp: srv_ok_def push_delete_def)

lemma delete_at_ok:
  assumes "srv_ok name sent srv"
  shows "srv_ok name sent (snd (delete_at render token n (nt, t, srv)))"
proof -
  let ?m = "empty_push n ''delete''"
  have "fst (handlePush render srv (''Bearer '' @ token) (Some (wire ?m))) \<in> {srv, fst (push_delete srv (wire ?m))}"
    by (auto simp: handlePush_def empty_push_def)
  then have "srv_ok name sent (fst (handlePush render srv (''Bearer '' @ token) (Some (wire ?m))))"
    using assms push_delete_ok by fastforce
  then show ?thesis using assms send_server [of render token nt srv ?m] by (auto simp: delete_at_def)
qed

lemma saveAll_ok:
  assumes "srv_ok name sent srv"
  shows "srv_ok name sent (saveAll srv)"
proof -
  have "\<exists>b. sent (puSeq p) = Some b \<and> shows_board (puBoard p) b" if "svBoards srv name = Some bd" "save_board name bd = Some p" for bd p
    using that assms by (auto simp: save_board_def srv_ok_def shows_board_def o_def multiset.map_comp split: if_splits)
  then show ?thesis using assms unfolding saveAll_def srv_ok_def
    by (auto split: option.splits bind_splits if_splits)
qed

lemma restart_ok:
  assumes "srv_ok name sent srv"
  shows "srv_ok name sent (restart srv)"
  using assms unfolding restart_def srv_ok_def load_board_def
  by (auto simp: shows_board_def split: option.splits bind_splits if_splits)

section \<open>The push of a board\<close>

text \<open>What a successful push leaves at a peer.\<close>

definition synced :: "string \<Rightarrow> int \<Rightarrow> Board \<Rightarrow> peer \<Rightarrow> bool" where
  "synced name n b = (\<lambda>(t, srv). acked_seq t name = n
     \<and> (\<exists>bd. svBoards srv name = Some bd \<and> sbSeq bd = n \<and> shows_board (sbBoard bd) b))"

lemma push_targets_fit:
  assumes "\<And>t. fits name sent n next (msg t)" "\<forall>p \<in> set peers. srv_ok name sent (snd p)" "sent_ok sent (n - 1)" "distinct_keys (bdRows next)"
    and "res = map (push_target render token now name n msg) (zip nets peers)"
  shows "\<forall>p \<in> set (map fst res). srv_ok name (sent(n \<mapsto> next)) (snd p)"
    and "list_all snd res \<Longrightarrow> \<forall>p \<in> set (map fst res). synced name n next p"
proof -
  have each: "srv_ok name (sent(n \<mapsto> next)) (snd (fst x)) \<and> (snd x \<longrightarrow> synced name n next (fst x))" if mem: "x \<in> set res" for x
  proof -
    obtain nt t srv where z: "(nt, t, srv) \<in> set (zip nets peers)" "x = push_target render token now name n msg (nt, t, srv)"
      using mem unfolding assms(5) by auto
    have s: "srv_ok name sent srv" using z(1) assms(2) by (auto dest!: set_zip_rightD)
    obtain t' srv' k where x: "x = ((t', srv'), k)" by (metis surj_pair)
    from push_target_fits [OF assms(1) s assms(3,4) z(2) [symmetric, unfolded x]] show ?thesis
      unfolding x synced_def by simp
  qed
  show "\<forall>p \<in> set (map fst res). srv_ok name (sent(n \<mapsto> next)) (snd p)" using each by auto
  show "list_all snd res \<Longrightarrow> \<forall>p \<in> set (map fst res). synced name n next p" using each by (auto simp: list_all_iff)
qed

text \<open>Either nothing is sent, or every target gets the next board under the next number.\<close>

lemma push_board_sync:
  assumes "\<forall>p \<in> set peers. srv_ok name sent (snd p)" "sent_ok sent (stSeq st)" "distinct_keys (bdRows next)" "cName c = name"
    and "\<forall>b. stBoard st = Some b \<longrightarrow> sent (stSeq st) = Some b"
    and "push_board render token keyOf e c full next appended st peers = (st', peers', ok)"
  shows "st' = st \<and> peers' = peers \<and> ok \<and> \<not> full
    \<or> stSeq st' = stSeq st + 1 \<and> stBoard st' = Some next \<and> stC st' = stC st
      \<and> (\<forall>p \<in> set peers'. srv_ok name (sent(stSeq st' \<mapsto> next)) (snd p))
      \<and> (ok \<longrightarrow> (\<forall>p \<in> set peers'. synced name (stSeq st') next p)) \<and> (\<not> ok \<longrightarrow> stFull st' \<and> stDirty st')"
proof -
  obtain changed removed where d: "Diff (stBoard st) next = (changed, removed)" by fastforce
  define hc where "hc = (case stBoard st of None \<Rightarrow> True | Some b \<Rightarrow> \<not> sameHeader b next)"
  define msg where "msg = push_message (cName c) (stSeq st + 1) (if pcRankingVisibility c = ''admins'' then keyOf (cName c) else '''')
    (full \<or> hc) next (case stHistory st of None \<Rightarrow> [] | Some h \<Rightarrow> h) changed removed appended"
  define res where "res = map (push_target render token (envNow e) (cName c) (stSeq st + 1) msg) (zip (envPush e) peers)"
  note pb = assms(6) [unfolded push_board_def d Let_def prod.case, folded hc_def, folded msg_def, folded res_def]
  have fit: "fits name sent (stSeq st + 1) next (msg t)" for t
    using assms(5) d by (auto simp: fits_def msg_def push_message_def empty_push_def hc_def sameHeader_def assms(4) split: option.splits)
  have so: "sent_ok sent (stSeq st + 1 - 1)" using assms(2) by simp
  note res = push_targets_fit [OF fit assms(1) so assms(3) res_def [unfolded assms(4)]]
  show ?thesis
  proof (cases "\<not> full \<and> \<not> hc \<and> changed = [] \<and> removed = [] \<and> (appended = None \<or> appended = Some [])")
    case True
    then show ?thesis using pb by simp
  next
    case False
    note out = pb [unfolded if_not_P [OF False]]
    then have "peers' = map fst res" "ok = list_all snd res" "stSeq st' = stSeq st + 1" "stBoard st' = Some next" "stC st' = stC st"
        "\<not> ok \<Longrightarrow> stFull st' \<and> stDirty st'"
      by (auto simp: mark_full_def split: if_splits)
    then show ?thesis using res by simp
  qed
qed

lemma photos_apply_keys: "map brKey (bdRows (snd (photos_apply ph b))) = map brKey (bdRows b)"
proof -
  have "map brKey (snd (foldl photo_row (ph, acc) rows)) = map brKey acc @ map brKey rows" for acc rows
    by (induction rows arbitrary: ph acc) (auto simp: photo_row_def Let_def split: if_splits)
  then show ?thesis by (auto simp: photos_apply_def split: prod.splits) (metis append_Nil list.map_disc_iff list.simps(8) snd_conv)
qed

lemma next_board_keys: "distinct (map rowParticipationID (rkRows r)) \<Longrightarrow> distinct_keys (bdRows (next_board e c r))"
  by (simp add: next_board_def Let_def photos_apply_keys BuildBoard_keys)

section \<open>A run of pushes\<close>

text \<open>
  What is known of the outside of one push: the contest exists and keeps its name, and the
  participations of a ranking are distinct (their identifiers are a primary key).
\<close>

definition env_ok :: "string \<Rightarrow> env \<Rightarrow> bool" where
  "env_ok name e \<longleftrightarrow> envContest e \<noteq> Gone \<and> (\<forall>c. envContest e = Fetched c \<longrightarrow> cName c = name)
     \<and> (\<forall>cut opt r h. envReplay e cut opt = Inr (r, h) \<longrightarrow> distinct (map rowParticipationID (rkRows r)))
     \<and> (\<forall>opt r. envCompute e opt = Inr r \<longrightarrow> distinct (map rowParticipationID (rkRows r)))"

text \<open>A server changes something about other contests only.\<close>

definition elsewhere :: "string \<Rightarrow> peer \<Rightarrow> peer \<Rightarrow> bool" where
  "elsewhere name p q \<longleftrightarrow> tgSeq (fst q) name = tgSeq (fst p) name \<and> svBoards (snd q) name = svBoards (snd p) name
     \<and> svDisk (snd q) name = svDisk (snd p) name"

definition fresh_peer :: "string \<Rightarrow> peer \<Rightarrow> bool" where
  "fresh_peer name p \<longleftrightarrow> svBoards (snd p) name = None \<and> svDisk (snd p) name = None"

text \<open>
  The runs of a pusher and its servers, with the boards sent so far under each number: pushes,
  marks by the watchers and by the clock, and servers that save, restart or serve other contests.
\<close>

inductive run :: "(Board \<Rightarrow> BoardRow \<Rightarrow> string option) \<Rightarrow> string \<Rightarrow> (string \<Rightarrow> string) \<Rightarrow> string \<Rightarrow>
    (int \<rightharpoonup> Board) \<Rightarrow> contestState \<Rightarrow> peer list \<Rightarrow> bool"
  for render token keyOf name where
  start: "list_all (fresh_peer name) peers \<Longrightarrow> run render token keyOf name Map.empty new_state peers"
| push: "\<lbrakk>run render token keyOf name sent st peers; env_ok name e;
          pushContest render token keyOf e st peers = (Some st', peers', ok)\<rbrakk> \<Longrightarrow>
        run render token keyOf name (if stSeq st' = stSeq st then sent else sent(stSeq st' \<mapsto> the (stBoard st'))) st' peers'"
| mark: "run render token keyOf name sent st peers \<Longrightarrow>
        run render token keyOf name sent (st\<lparr>stDirty := d, stFull := f, stTouched := ts\<rparr>) peers"
| save: "run render token keyOf name sent st (ps @ (t, srv) # qs) \<Longrightarrow> run render token keyOf name sent st (ps @ (t, saveAll srv) # qs)"
| restarted: "run render token keyOf name sent st (ps @ (t, srv) # qs) \<Longrightarrow> run render token keyOf name sent st (ps @ (t, restart srv) # qs)"
| other: "\<lbrakk>run render token keyOf name sent st (ps @ p # qs); elsewhere name p q\<rbrakk> \<Longrightarrow> run render token keyOf name sent st (ps @ q # qs)"

text \<open>The invariant.\<close>

definition run_ok :: "string \<Rightarrow> (int \<rightharpoonup> Board) \<Rightarrow> contestState \<Rightarrow> peer list \<Rightarrow> bool" where
  "run_ok name sent st peers \<longleftrightarrow> sent_ok sent (stSeq st) \<and> (\<forall>b. stBoard st = Some b \<longrightarrow> sent (stSeq st) = Some b)
     \<and> (\<forall>c. stC st = Some c \<longrightarrow> cName c = name) \<and> (\<forall>p \<in> set peers. srv_ok name sent (snd p))"

lemma load_ranking_distinct:
  assumes "env_ok name e" "load_ranking e c full hist = Inr (r, h)"
  shows "distinct (map rowParticipationID (rkRows r))"
proof -
  have "(\<exists>cut opt h'. envReplay e cut opt = Inr (r, h')) \<or> (\<exists>opt. envCompute e opt = Inr r)"
    using assms(2) by (auto simp: load_ranking_def Let_def bind_result_eq_Inr split: if_splits)
  then show ?thesis using assms(1) unfolding env_ok_def by blast
qed

lemma deleteBoard_ok:
  assumes "\<forall>p \<in> set peers. srv_ok name sent (snd p)"
  shows "\<forall>p \<in> set (deleteBoard render token n nets peers). srv_ok name sent (snd p)"
proof -
  have "srv_ok name sent (snd (delete_at render token n (nt, t, srv)))" if "(nt, t, srv) \<in> set (zip nets peers)" for nt t srv
    using that assms by (intro delete_at_ok) (auto dest!: set_zip_rightD)
  then show ?thesis by (auto simp: deleteBoard_def)
qed

lemma pushContest_cases:
  assumes "env_ok name e" "\<forall>c. stC st = Some c \<longrightarrow> cName c = name"
    and "pushContest render token keyOf e st peers = (Some st', peers', ok)"
  obtains (idle) "stSeq st' = stSeq st" "stBoard st' = stBoard st \<or> stBoard st' = None"
      "peers' = peers \<or> peers' = deleteBoard render token name (envDelete e) peers" "ok \<or> stFull st' \<and> stDirty st'"
      "\<forall>c. stC st' = Some c \<longrightarrow> cName c = name"
    | (board) c r h hs app where "envContest e = Fetched c" "cName c = name" "load_ranking e c (stFull st) (stHistory st) = Inr (r, h)"
      "push_board render token keyOf e c (stFull st) (next_board e c r) app
         (take_marks (envNow e) st\<lparr>stC := Some c, stHistory := Some hs\<rparr>) peers = (st', peers', ok)"
proof (cases "envContest e")
  case Gone
  then show ?thesis using assms(1) by (simp add: env_ok_def)
next
  case FetchError
  then have "st' = mark_full (take_marks (envNow e) st)" "peers' = peers" "\<not> ok"
    using assms(3) by (simp_all add: pushContest_def Let_def)
  then show ?thesis using assms(2) by (intro idle) (simp_all add: mark_full_def take_marks_def)
next
  case (Fetched c)
  have n: "cName c = name" using assms(1) Fetched by (simp add: env_ok_def)
  let ?st = "take_marks (envNow e) st\<lparr>stC := Some c\<rparr>"
  have "renamed_from (take_marks (envNow e) st) c = None"
    using assms(2) n by (auto simp: renamed_from_def take_marks_def split: option.splits)
  then have body: "push_known render token keyOf e c (stFull st) (stTouched st) ?st peers = (st', peers', ok)"
    using assms(3) unfolding pushContest_def by (simp add: Fetched Let_def split: prod.splits)
  have f: "stSeq ?st = stSeq st" "stBoard ?st = stBoard st" "stC ?st = Some c" "stHistory ?st = stHistory st" "stListed ?st = stListed st"
    by (simp_all add: take_marks_def)
  show ?thesis
  proof (cases "published c (envNow e)")
    case False
    then have "peers' = peers \<and> st' = ?st \<or> peers' = deleteBoard render token name (envDelete e) peers
        \<and> st' = ?st\<lparr>stListed := False, stBoard := None, stHistory := None\<rparr>" "ok"
      using body by (auto simp: push_known_def n split: if_splits)
    then show ?thesis using f n by (intro idle) auto
  next
    case pub: True
    show ?thesis
    proof (cases "load_ranking e c (stFull st) (stHistory st)")
      case (Inl err)
      then have "st' = mark_full ?st" "peers' = peers" using body pub by (simp_all add: push_known_def f)
      then show ?thesis using f n by (intro idle) (simp_all add: mark_full_def)
    next
      case (Inr rh)
      obtain r h where rh: "rh = (r, h)" by fastforce
      obtain hs app where nh: "next_history r h (stHistory st) (stTouched st) = (hs, app)" by fastforce
      show ?thesis using body pub Inr nh
        by (intro board [OF Fetched n]) (auto simp: push_known_def f rh)
    qed
  qed
qed

lemma run_ok_push:
  assumes "run_ok name sent st peers" "env_ok name e" "pushContest render token keyOf e st peers = (Some st', peers', ok)"
  shows "run_ok name (if stSeq st' = stSeq st then sent else sent(stSeq st' \<mapsto> the (stBoard st'))) st' peers'"
proof -
  note inv = assms(1) [unfolded run_ok_def]
  then have stc: "\<forall>c. stC st = Some c \<longrightarrow> cName c = name" by blast
  from assms(2) stc assms(3) show ?thesis
  proof (cases rule: pushContest_cases)
    case idle
    have "\<forall>p \<in> set peers. srv_ok name sent (snd p)" using inv by blast
    with idle(3) have "\<forall>p \<in> set peers'. srv_ok name sent (snd p)" using deleteBoard_ok by metis
    then show ?thesis using inv idle by (auto simp: run_ok_def)
  next
    case (board c r h hs app)
    let ?st = "take_marks (envNow e) st\<lparr>stC := Some c, stHistory := Some hs\<rparr>"
    have f: "stSeq ?st = stSeq st" "stBoard ?st = stBoard st" "stC ?st = Some c" by (simp_all add: take_marks_def)
    have dk: "distinct_keys (bdRows (next_board e c r))" by (rule next_board_keys [OF load_ranking_distinct [OF assms(2) board(3)]])
    have "st' = ?st \<and> peers' = peers \<or> stSeq st' = stSeq st + 1 \<and> stBoard st' = Some (next_board e c r) \<and> stC st' = Some c
        \<and> (\<forall>p \<in> set peers'. srv_ok name (sent(stSeq st' \<mapsto> next_board e c r)) (snd p))"
      using push_board_sync [of peers name sent ?st "next_board e c r" c, OF _ _ dk board(2) _ board(4)] inv f by auto
    then show ?thesis
    proof
      assume "st' = ?st \<and> peers' = peers"
      then show ?thesis using inv f board(2) by (auto simp: run_ok_def)
    next
      assume new: "stSeq st' = stSeq st + 1 \<and> stBoard st' = Some (next_board e c r) \<and> stC st' = Some c
        \<and> (\<forall>p \<in> set peers'. srv_ok name (sent(stSeq st' \<mapsto> next_board e c r)) (snd p))"
      then have "sent_ok (sent(stSeq st' \<mapsto> next_board e c r)) (stSeq st')"
        using inv dk unfolding sent_ok_def by (auto split: if_splits) (metis add.commute add_increasing zero_le_one order_trans le_add_same_cancel2)
      then show ?thesis using new board(2) by (auto simp: run_ok_def)
    qed
  qed
qed

lemma run_invariant: "run render token keyOf name sent st peers \<Longrightarrow> run_ok name sent st peers"
proof (induction rule: run.induct)
  case (start peers)
  then show ?case by (auto simp: run_ok_def new_state_def sent_ok_def srv_ok_def fresh_peer_def list_all_iff)
next
  case (push sent st peers e st' peers' ok)
  then show ?case using run_ok_push by blast
next
  case (mark sent st peers d f ts)
  then show ?case by (simp add: run_ok_def)
next
  case (save sent st ps t srv qs)
  then show ?case using saveAll_ok by (auto simp: run_ok_def)
next
  case (restarted sent st ps t srv qs)
  then show ?case using restart_ok by (auto simp: run_ok_def)
next
  case (other sent st ps p qs q)
  have "srv_ok name sent (snd p) \<longrightarrow> srv_ok name sent (snd q)" using other.hyps(2) by (simp add: srv_ok_def elsewhere_def)
  then show ?case using other.IH by (auto simp: run_ok_def)
qed

text \<open>
  Property C2. A ranking web server never shows a mixture of boards: in every run of the pusher and its servers
  (lost requests and answers, conflicts, saves and restarts included), a server that is at sequence number \<open>n\<close> shows exactly the
  rows and settings of the board the pusher sent under \<open>n\<close>; at the current number, the pusher's current board.
\<close>

theorem run_shows_sent:
  assumes "run render token keyOf name sent st peers" "(t, srv) \<in> set peers" "svBoards srv name = Some bd"
  shows "\<exists>b. sent (sbSeq bd) = Some b \<and> shows_board (sbBoard bd) b \<and> (sbSeq bd = stSeq st \<and> stBoard st \<noteq> None \<longrightarrow> stBoard st = Some b)"
proof -
  have inv: "run_ok name sent st peers" using assms(1) by (rule run_invariant)
  then have "srv_ok name sent srv" using assms(2) by (auto simp: run_ok_def)
  then obtain b where b: "sent (sbSeq bd) = Some b" "shows_board (sbBoard bd) b" using assms(3) by (auto simp: srv_ok_def)
  then show ?thesis using inv by (auto simp: run_ok_def)
qed

section \<open>Recovery\<close>

lemma authorized_token: "authorized srv (''Bearer '' @ token) \<longleftrightarrow> token \<noteq> '''' \<and> svToken srv = token"
  by (auto simp: authorized_def TrimPrefix_def)

lemma full_target:
  assumes "msg t = (empty_push name ''full'')\<lparr>puSeq := n, puKeyHash := kh, puBoard := Some next, puHistory := Some hist\<rparr>"
    and "nameRe name" "token \<noteq> ''''" "svToken srv = token" "\<not> before now (tgRetryAt t)" "distinct_keys (bdRows next)"
  shows "snd (push_target render token now name n msg (Delivered, t, srv))
    \<and> synced name n next (fst (push_target render token now name n msg (Delivered, t, srv)))"
proof -
  let ?m = "wire (msg t)"
  obtain srv' reply fr where h: "push_full render srv ?m = (srv', reply, fr)" by (metis prod_cases3)
  have m: "puContest ?m = name" "puKind ?m = ''full''" "puSeq ?m = n" "puBoard ?m = Some (wire_board next)"
    by (simp_all add: assms(1) empty_push_def)
  note f = push_full_shows [OF m(4) assms(6) h, unfolded m]
  have "handlePush render srv (''Bearer '' @ token) (Some ?m) = (srv', (200, Some n), fr)"
    unfolding handlePush_def authorized_token option.case m using assms(2-4) h f(4) by simp
  then have "send render token Delivered srv (msg t) = (srv', n, True)" by (simp add: send_def)
  then show ?thesis using f(1) assms(5) unfolding push_target_def by (auto simp: synced_def acked_seq_def)
qed

lemma full_push_result:
  assumes "stFull st" "envContest e = Fetched c" "published c (envNow e)" "renamed_from (take_marks (envNow e) st) c = None"
    and "load_ranking e c True (stHistory st) = Inr (r, h)" "distinct (map rowParticipationID (rkRows r))"
    and "nameRe (cName c)" "token \<noteq> ''''" "envPush e = replicate (length peers) Delivered"
    and "\<forall>p \<in> set peers. svToken (snd p) = token \<and> \<not> before (envNow e) (tgRetryAt (fst p))"
  shows "\<exists>st' peers'. pushContest render token keyOf e st peers = (Some st', peers', True) \<and> length peers' = length peers
    \<and> stSeq st' = stSeq st + 1 \<and> \<not> stDirty st' \<and> (\<forall>p \<in> set peers'. synced (cName c) (stSeq st') (next_board e c r) p)"
proof -
  obtain hs app where nh: "next_history r h (stHistory st) (stTouched st) = (hs, app)" by fastforce
  let ?st = "take_marks (envNow e) st\<lparr>stC := Some c, stHistory := Some hs\<rparr>" and ?b = "next_board e c r"
  have f: "stHistory (take_marks (envNow e) st\<lparr>stC := Some c\<rparr>) = stHistory st" "stBoard ?st = stBoard st" "stSeq ?st = stSeq st"
    "stHistory ?st = Some hs" by (simp_all add: take_marks_def)
  have "pushContest render token keyOf e st peers =
      (let (st', peers', ok) = push_board render token keyOf e c True ?b app ?st peers in (Some st', peers', ok))"
    unfolding pushContest_def assms(2) fetched.case Let_def assms(4) option.case push_known_def f(1)
    using assms(1,3,5) nh by simp
  moreover obtain changed removed where d: "Diff (stBoard st) ?b = (changed, removed)" by fastforce
  define msg where "msg = push_message (cName c) (stSeq st + 1) (if pcRankingVisibility c = ''admins'' then keyOf (cName c) else '''') True ?b hs changed removed app"
  define res where "res = map (push_target render token (envNow e) (cName c) (stSeq st + 1) msg) (zip (envPush e) peers)"
  have "push_board render token keyOf e c True ?b app ?st peers =
     (if list_all snd res then ?st\<lparr>stSeq := stSeq st + 1, stBoard := Some ?b, stListed := True\<rparr>
      else mark_full (?st\<lparr>stSeq := stSeq st + 1, stBoard := Some ?b, stListed := True\<rparr>), map fst res, list_all snd res)"
    unfolding push_board_def f(2-4) d by (simp add: Let_def msg_def res_def)
  moreover have ok: "snd x \<and> synced (cName c) (stSeq st + 1) ?b (fst x)" if "x \<in> set res" for x
  proof -
    obtain t srv where x: "x = push_target render token (envNow e) (cName c) (stSeq st + 1) msg (Delivered, t, srv)" "(t, srv) \<in> set peers"
      using \<open>x \<in> set res\<close> by (auto simp: res_def assms(9) zip_replicate1)
    have "msg t = (empty_push (cName c) ''full'')\<lparr>puSeq := stSeq st + 1,
        puKeyHash := (if pcRankingVisibility c = ''admins'' then keyOf (cName c) else ''''), puBoard := Some ?b, puHistory := Some hs\<rparr>"
      by (simp add: msg_def push_message_def)
    from full_target [where msg = msg, OF this assms(7,8) _ _ next_board_keys [OF assms(6)], of srv "envNow e" render]
    show ?thesis using x assms(10) by fastforce
  qed
  moreover have "list_all snd res" using ok by (simp add: list_all_iff)
  ultimately show ?thesis by (auto simp: res_def assms(9) take_marks_def)
qed

text \<open>
  A full push repairs everything: whatever the servers hold, when a published contest is pushed in full and the servers answer,
  the push succeeds and every server shows the new board under the new number, acknowledged.
\<close>

theorem full_push_syncs:
  assumes "stFull st" "envContest e = Fetched c" "published c (envNow e)" "renamed_from (take_marks (envNow e) st) c = None"
    and "load_ranking e c True (stHistory st) = Inr (r, h)" "distinct (map rowParticipationID (rkRows r))"
    and "nameRe (cName c)" "token \<noteq> ''''" "envPush e = replicate (length peers) Delivered"
    and "\<forall>p \<in> set peers. svToken (snd p) = token \<and> \<not> before (envNow e) (tgRetryAt (fst p))"
  shows "\<exists>st' peers'. pushContest render token keyOf e st peers = (Some st', peers', True) \<and> length peers' = length peers
    \<and> stSeq st' = stSeq st + 1 \<and> \<not> stDirty st' \<and> (\<forall>p \<in> set peers'. synced (cName c) (stSeq st') (next_board e c r) p)"
  using assms by (rule full_push_result)

text \<open>
  Nothing is lost when a push fails: after any error (database, network, a server that refuses) the contest
  is marked for another push, in full, so the repair above follows.
\<close>

theorem failed_push_requeues:
  assumes "pushContest render token keyOf e st peers = (Some st', peers', False)"
  shows "stFull st' \<and> stDirty st'"
proof (cases "envContest e")
  case (Fetched c)
  have board: "stFull s' \<and> stDirty s'" if "push_board render token keyOf e c full b app s ps = (s', ps', False)" for full b app s s' ps ps'
    using that by (auto simp: push_board_def Let_def mark_full_def split: if_splits prod.splits)
  have known: "stFull s' \<and> stDirty s'" if "push_known render token keyOf e c full ts s ps = (s', ps', False)" for full ts s s' ps ps'
    using that board unfolding push_known_def
    by (cases "load_ranking e c full (stHistory s)") (auto simp: mark_full_def Let_def split: if_splits prod.splits)
  show ?thesis using assms known unfolding pushContest_def
    by (auto simp: Fetched Let_def split: option.splits prod.splits)
qed (use assms in \<open>auto simp: pushContest_def mark_full_def Let_def\<close>)

section \<open>Examples\<close>

definition ex_pcontest :: PContest where
  "ex_pcontest = Contest.extend ex_contest \<lparr>pcStatus = ''ready'', pcRankingVisibility = ''public'', pcRankingWhen = ''always'', pcRankingShowHidden = False\<rparr>"

definition ex_ranking :: Ranking where
  "ex_ranking = \<lparr>rkContestID = 1, rkContest = ''c'', rkICPC = False, rkPrecision = 0, rkTasks = [], rkRows = [], rkGenerated = 0,
     rkCutoffs = [], rkUnofficial = False, rkTieBreak = ''shared''\<rparr>"

definition ex_env :: env where
  "ex_env = \<lparr>envContest = Fetched ex_pcontest, envReplay = (\<lambda>_ _. Inr (ex_ranking, Map.empty)), envCompute = (\<lambda>_. Inr ex_ranking),
     envNow = 0, envBlobs = False, envPhotos = \<lparr>phThumbs = [], phQueued = [], phWork = []\<rparr>, envRenamed = [Delivered], envDelete = [Delivered],
     envPush = [Delivered]\<rparr>"

definition ex_peers :: "peer list" where
  "ex_peers = [(\<lparr>tgSeq = Map.empty, tgRetryAt = 0\<rparr>, \<lparr>svToken = ''secret'', svHasDataDir = True, svBoards = Map.empty, svDisk = Map.empty\<rparr>)]"

lemma ex_pcontest_fields [simp]: "row_of ex_pcontest = ex_contest" "cName ex_pcontest = ''c''" "pcStatus ex_pcontest = ''ready''"
  "pcRankingVisibility ex_pcontest = ''public''" "pcRankingWhen ex_pcontest = ''always''"
  by (simp_all add: ex_pcontest_def Contest.defs ex_contest_def)

lemma ex_env_ok: "env_ok ''c'' ex_env"
  by (simp add: env_ok_def ex_env_def ex_ranking_def)

lemma ex_load: "load_ranking ex_env ex_pcontest True None = Inr (ex_ranking, Some Map.empty)"
  by (simp add: load_ranking_def Let_def ex_env_def)

lemma ex_nameRe: "nameRe ''c''" by code_simp

lemma ex_push_premises:
  "published ex_pcontest (envNow ex_env)" "renamed_from (take_marks (envNow ex_env) new_state) ex_pcontest = None"
  "load_ranking ex_env ex_pcontest True (stHistory new_state) = Inr (ex_ranking, Some Map.empty)"
  "\<forall>p \<in> set ex_peers. svToken (snd p) = ''secret'' \<and> \<not> before (envNow ex_env) (tgRetryAt (fst p))"
  "stFull new_state" "envContest ex_env = Fetched ex_pcontest" "distinct (map rowParticipationID (rkRows ex_ranking))"
  "nameRe (cName ex_pcontest)" "''secret'' \<noteq> ''''" "envPush ex_env = replicate (length ex_peers) Delivered"
  using ex_load ex_nameRe
  by (simp_all add: published_def renamed_from_def new_state_def take_marks_def ex_peers_def ex_env_def before_def ex_ranking_def)

theorem full_push_syncs_witness:
  "\<exists>st' peers'. pushContest ex_render ''secret'' (\<lambda>k. k) ex_env new_state ex_peers = (Some st', peers', True) \<and> length peers' = 1
    \<and> stSeq st' = 1 \<and> list_all (synced ''c'' 1 (next_board ex_env ex_pcontest ex_ranking)) peers'"
  using full_push_syncs [OF ex_push_premises(5,6,1-3,7-10,4), of ex_render "\<lambda>k. k"]
  by (auto simp: new_state_def ex_peers_def list_all_iff)

theorem run_shows_sent_witness:
  "\<exists>sent st t srv bd. run ex_render ''secret'' (\<lambda>k. k) ''c'' sent st [(t, srv)] \<and> svBoards srv ''c'' = Some bd \<and> sbSeq bd = 1
     \<and> (\<exists>b. sent 1 = Some b \<and> shows_board (sbBoard bd) b)"
proof -
  have "run ex_render ''secret'' (\<lambda>k. k) ''c'' Map.empty new_state ex_peers" by (rule run.start) (simp add: ex_peers_def fresh_peer_def)
  moreover obtain st' peers' where p: "pushContest ex_render ''secret'' (\<lambda>k. k) ex_env new_state ex_peers = (Some st', peers', True)"
      "length peers' = 1" "stSeq st' = 1" "\<forall>p \<in> set peers'. synced ''c'' 1 (next_board ex_env ex_pcontest ex_ranking) p"
    using full_push_result [OF ex_push_premises(5,6,1-3,7-10,4), of ex_render "\<lambda>k. k"] by (auto simp: new_state_def ex_peers_def)
  moreover obtain t srv where q: "peers' = [(t, srv)]" using p(2) by (metis length_0_conv length_Suc_conv One_nat_def surj_pair)
  ultimately obtain sent where r: "run ex_render ''secret'' (\<lambda>k. k) ''c'' sent st' [(t, srv)]"
    using run.push [OF _ ex_env_ok] by blast
  obtain bd where bd: "svBoards srv ''c'' = Some bd" "sbSeq bd = 1" using p(4) q by (auto simp: synced_def)
  from run_shows_sent [OF r _ bd(1)] bd(2) obtain b where "sent 1 = Some b" "shows_board (sbBoard bd) b" by auto
  with r bd show ?thesis by blast
qed

theorem failed_push_requeues_witness:
  "stFull (the (fst (pushContest ex_render ''secret'' (\<lambda>k. k) (ex_env\<lparr>envContest := FetchError\<rparr>) new_state ex_peers)))"
proof -
  have "pushContest ex_render ''secret'' (\<lambda>k. k) (ex_env\<lparr>envContest := FetchError\<rparr>) new_state ex_peers
    = (Some (mark_full (take_marks 0 new_state)), ex_peers, False)"
    by (simp add: pushContest_def ex_env_def)
  from failed_push_requeues [OF this] this show ?thesis by simp
qed

section \<open>Two pushers\<close>

text \<open>
  Sequence numbers start again with every pusher process. The three boards below are one of an earlier pusher
  and two consecutive ones of its successor.
\<close>

definition ex_old :: Board where
  "ex_old = ex_board\<lparr>bdRows := [ex_board_row\<lparr>brName := ''Old''\<rparr>, ex_board_row\<lparr>brKey := ''t9''\<rparr>]\<rparr>"

definition ex_next :: Board where
  "ex_next = ex_board\<lparr>bdRows := [ex_board_row, ex_board_row\<lparr>brKey := ''t2''\<rparr>]\<rparr>"

definition ex_handle :: "Server \<Rightarrow> Push \<Rightarrow> Server \<times> push_reply \<times> frame option" where
  "ex_handle srv p = handlePush ex_render srv ''Bearer secret'' (Some (wire p))"

definition ex_full :: "int \<Rightarrow> Board \<Rightarrow> Push" where
  "ex_full n b = push_message ''c'' n '''' True b [] [] [] None (fst (hd ex_peers))"

definition ex_stale :: Server where
  "ex_stale =
     (let s1 = saveAll (fst (ex_handle (snd (hd ex_peers)) (ex_full 2 ex_old)));
          s2 = fst (ex_handle s1 (ex_full 1 ex_board));
          s3 = fst (ex_handle s2 (ex_full 2 ex_board))
      in restart s3)"

text \<open>
  Without the restriction to one pusher the invariant fails. A server saves board 2 of one pusher; another
  pusher starts counting again, sends its boards 1 and 2, and the server restarts before saving, back at 2; the
  difference from 2 to 3 is then accepted on the wrong board, and the server shows rows that are
  not in the board it was sent (until the next full push).
\<close>

theorem sequence_collision:
  "let (changed, removed) = Diff (Some ex_board) ex_next;
       (srv, reply, fr) = ex_handle ex_stale (push_message ''c'' 3 '''' False ex_next [] changed removed None
                            \<lparr>tgSeq = [''c'' \<mapsto> 2], tgRetryAt = 0\<rparr>)
   in reply = (200, Some 3)
    \<and> map_option (\<lambda>b. map brKey (bdRows b)) (Option.bind (svBoards srv ''c'') sbBoard) = Some [''t1'', ''t9'', ''t2'']
    \<and> map brKey (bdRows ex_next) = [''t1'', ''t2'']"
  by code_simp

end
