(* ===== verification/Go_Strings.thy ===== *)
theory Go_Strings
  imports Go_Strconv "HOL-Library.Sublist"
begin

text \<open>
  What the code uses of the packages \<^verbatim>\<open>strings\<close> and \<^verbatim>\<open>unicode/utf8\<close>. A string is the
  list of its bytes.
\<close>

section \<open>Replacing and joining\<close>

text \<open>
  \<^verbatim>\<open>strings.NewReplacer(...).Replace\<close>: at every position the first pair whose old text
  matches is replaced, and the scan goes on after it. The old texts are not empty.
\<close>

function replace_with :: "(string \<times> string) list \<Rightarrow> string \<Rightarrow> string" where
  "replace_with ps [] = []"
| "replace_with ps (c # cs) =
     (case find (\<lambda>p. prefix (fst p) (c # cs)) ps of
        None \<Rightarrow> c # replace_with ps cs
      | Some (old, new) \<Rightarrow> new @ replace_with ps (drop (length old - 1) cs))"
  by pat_completeness auto
termination by (relation "measure (\<lambda>(ps, s). length s)") auto

definition ReplaceAll :: "string \<Rightarrow> string \<Rightarrow> string \<Rightarrow> string" where
  "ReplaceAll s old new = replace_with [(old, new)] s"

fun Join :: "string \<Rightarrow> string list \<Rightarrow> string" where
  "Join sep [] = []"
| "Join sep [x] = x"
| "Join sep (x # y # ys) = x @ sep @ Join sep (y # ys)"

section \<open>Searching\<close>

text \<open>\<^verbatim>\<open>strings.Index\<close>: the first position of \<open>sub\<close> (not empty), or nothing.\<close>

fun Index :: "string \<Rightarrow> string \<Rightarrow> nat option" where
  "Index [] sub = None"
| "Index (c # cs) sub = (if prefix sub (c # cs) then Some 0 else map_option Suc (Index cs sub))"

lemma Index_SomeD:
  assumes "Index s sub = Some k"
  shows "k < length s \<and> prefix sub (drop k s)"
  using assms by (induction s arbitrary: k) (auto split: if_splits)

lemma Index_bound: "Index s sub = Some k \<Longrightarrow> k + length sub \<le> length s"
  using Index_SomeD [of s sub k] by (auto dest!: prefix_length_le)

definition LF :: char where "LF = CHR 0x0A"

text \<open>\<^verbatim>\<open>strings.Count(s, "\n")\<close>.\<close>

abbreviation newlines :: "string \<Rightarrow> nat" where
  "newlines s \<equiv> count_list s LF"

lemma newlines_split:
  assumes "LF \<in> set s"
  shows "newlines s = Suc (newlines (tl (dropWhile (\<lambda>c. c \<noteq> LF) s)))"
  using assms by (induction s) auto

section \<open>UTF-8\<close>

text \<open>
  The width of the rune at the head of a string, as \<^verbatim>\<open>utf8.DecodeRuneInString\<close> gives it:
  none of an empty string, and one byte where the encoding is invalid or cut off.
\<close>

abbreviation cont :: "nat \<Rightarrow> nat \<Rightarrow> char \<Rightarrow> bool" where
  "cont lo hi c \<equiv> lo \<le> (of_char c :: nat) \<and> (of_char c :: nat) \<le> hi"

definition rune_len :: "string \<Rightarrow> nat" where
  "rune_len s =
     (case s of
        [] \<Rightarrow> 0
      | c # cs \<Rightarrow>
          (let b = of_char c :: nat;
               tail = (\<lambda>n lo hi. if n \<le> length cs \<and> cont lo hi (cs ! 0) \<and> list_all (cont 0x80 0xBF) (take (n - 1) (tl cs)) then n + 1 else 1)
           in if b < 0xC2 then 1
              else if b < 0xE0 then tail 1 0x80 0xBF
              else if b = 0xE0 then tail 2 0xA0 0xBF
              else if b = 0xED then tail 2 0x80 0x9F
              else if b < 0xF0 then tail 2 0x80 0xBF
              else if b = 0xF0 then tail 3 0x90 0xBF
              else if b < 0xF4 then tail 3 0x80 0xBF
              else if b = 0xF4 then tail 3 0x80 0x8F
              else 1))"

lemma rune_len_le: "rune_len s \<le> length s"
  by (cases s) (auto simp: rune_len_def Let_def)

lemma rune_len_pos: "s \<noteq> [] \<Longrightarrow> 0 < rune_len s"
  by (cases s) (auto simp: rune_len_def Let_def)

text \<open>\<^verbatim>\<open>utf8.RuneCountInString\<close> and \<^verbatim>\<open>[]rune(s)[:n]\<close> as the bytes of the first \<open>n\<close> runes.\<close>

function RuneCount :: "string \<Rightarrow> nat" where
  "RuneCount s = (if s = [] then 0 else Suc (RuneCount (drop (rune_len s) s)))"
  by pat_completeness auto
termination
  by (relation "measure length") (auto simp: rune_len_pos)

declare RuneCount.simps [simp del]

section \<open>White space\<close>

text \<open>The white space of Unicode in UTF-8.\<close>

definition unicode_spaces :: "string list" where
  "unicode_spaces =
     [[CHR '' ''], [CHR 0x09], [CHR 0x0A], [CHR 0x0B], [CHR 0x0C], [CHR 0x0D], [CHR 0xC2, CHR 0x85], [CHR 0xC2, CHR 0xA0],
      [CHR 0xE1, CHR 0x9A, CHR 0x80], [CHR 0xE2, CHR 0x80, CHR 0x80], [CHR 0xE2, CHR 0x80, CHR 0x81], [CHR 0xE2, CHR 0x80, CHR 0x82],
      [CHR 0xE2, CHR 0x80, CHR 0x83], [CHR 0xE2, CHR 0x80, CHR 0x84], [CHR 0xE2, CHR 0x80, CHR 0x85], [CHR 0xE2, CHR 0x80, CHR 0x86],
      [CHR 0xE2, CHR 0x80, CHR 0x87], [CHR 0xE2, CHR 0x80, CHR 0x88], [CHR 0xE2, CHR 0x80, CHR 0x89], [CHR 0xE2, CHR 0x80, CHR 0x8A],
      [CHR 0xE2, CHR 0x80, CHR 0xA8], [CHR 0xE2, CHR 0x80, CHR 0xA9], [CHR 0xE2, CHR 0x80, CHR 0xAF], [CHR 0xE2, CHR 0x81, CHR 0x9F],
      [CHR 0xE3, CHR 0x80, CHR 0x80]]"

definition space_prefix :: "string list \<Rightarrow> string \<Rightarrow> string option" where
  "space_prefix ws s = find (\<lambda>w. w \<noteq> [] \<and> take (length w) s = w) ws"

function trim_prefixes :: "string list \<Rightarrow> string \<Rightarrow> string" where
  "trim_prefixes ws s = (case space_prefix ws s of None \<Rightarrow> s | Some w \<Rightarrow> trim_prefixes ws (drop (length w) s))"
  by pat_completeness auto
termination
proof (relation "measure (\<lambda>(ws, s). length s)")
  fix ws s w assume "space_prefix ws s = Some w"
  then have "w \<noteq> []" "take (length w) s = w" using find_SomeD unfolding space_prefix_def by fastforce+
  then show "((ws, drop (length w) s), ws, s) \<in> measure (\<lambda>(ws, s). length s)" by (cases s) auto
qed simp

declare trim_prefixes.simps [simp del]

definition TrimSpace :: "string \<Rightarrow> string" where
  "TrimSpace s = rev (trim_prefixes (map rev unicode_spaces) (rev (trim_prefixes unicode_spaces s)))"

text \<open>\<^verbatim>\<open>strings.Fields\<close>, with the word being read.\<close>

function Fields_loop :: "string \<Rightarrow> string \<Rightarrow> string list" where
  "Fields_loop buf s =
     (if s = [] then (if buf = [] then [] else [buf])
      else case space_prefix unicode_spaces s of
             Some w \<Rightarrow> (if buf = [] then [] else [buf]) @ Fields_loop [] (drop (length w) s)
           | None \<Rightarrow> Fields_loop (buf @ [hd s]) (tl s))"
  by pat_completeness auto
termination
proof (relation "measure (\<lambda>(buf, s). length s)")
  fix buf s w assume "s \<noteq> []" "space_prefix unicode_spaces s = Some w"
  then have "w \<noteq> []" using find_SomeD unfolding space_prefix_def by fastforce
  then show "(([], drop (length w) s), buf, s) \<in> measure (\<lambda>(buf, s). length s)" using \<open>s \<noteq> []\<close> by simp
qed simp_all

declare Fields_loop.simps [simp del]

definition Fields :: "string \<Rightarrow> string list" where
  "Fields s = Fields_loop [] s"

definition ellipsis :: string where "ellipsis = [CHR 0xE2, CHR 0x80, CHR 0xA6]"

end
