(* ===== verification/Checkers.thy ===== *)
theory Checkers
  imports Go_Float Go_Strings
begin

text \<open>
  The checkers (\<^verbatim>\<open>src/internal/checkers/checkers.go\<close>): the built-in comparators, which stream the
  expected and the actual output in bounded memory, and the interpretation of what a custom checker printed.

  A stream is the bytes that can be read from it and how it ends: at the end of the file, or with a read error.
  \<^verbatim>\<open>strconv.ParseFloat\<close> is the parameter \<open>parse\<close> (\<^const>\<open>None\<close> for a syntax or range error); its values
  include the infinities and NaN, so the type \<open>fval\<close> adds them to the finite floats.
\<close>

section \<open>Data\<close>

datatype fval = Fin f64 | PosInf | NegInf | NaN

definition MsgCorrect :: string where "MsgCorrect = ''Output is correct''"
definition MsgWrong :: string where "MsgWrong = ''Output isn'' @ [CHR 0x27] @ ''t correct''"
definition MsgPartial :: string where "MsgPartial = ''Output is partially correct''"

record Outcome =
  ocScore :: fval
  ocMessage :: string

definition Correct :: Outcome where "Correct = \<lparr>ocScore = Fin 1, ocMessage = MsgCorrect\<rparr>"
definition Wrong :: Outcome where "Wrong = \<lparr>ocScore = Fin 0, ocMessage = MsgWrong\<rparr>"

record Params =
  AbsTol :: f64
  RelTol :: f64

type_synonym stream = "string \<times> string option"

section \<open>Reading\<close>

definition bufSize :: nat where "bufSize = 65536"

datatype read_end = More | EOF | ReadError string

definition at_end :: "stream \<Rightarrow> read_end" where
  "at_end s = (case snd s of None \<Rightarrow> EOF | Some e \<Rightarrow> ReadError e)"

text \<open>\<^verbatim>\<open>io.ReadFull\<close>: a full buffer, or what is left with the reason there is no more.\<close>

definition read_full :: "nat \<Rightarrow> stream \<Rightarrow> string \<times> read_end \<times> stream" where
  "read_full n s =
     (if length (fst s) \<ge> n then (take n (fst s), More, (drop n (fst s), snd s))
      else (fst s, at_end s, ([], snd s)))"

definition newline :: char where "newline = CHR 0x0A"

definition isSpace :: "char \<Rightarrow> bool" where
  "isSpace c \<longleftrightarrow> c \<in> {CHR '' '', CHR 0x09, CHR 0x0A, CHR 0x0D, CHR 0x0B, CHR 0x0C}"

datatype slice_end = Found | BufferFull | AtEnd read_end

text \<open>\<^verbatim>\<open>bufio.ReadSlice\<close>: up to a line end, a full buffer without one, or the rest.\<close>

definition read_slice :: "stream \<Rightarrow> string \<times> slice_end \<times> stream" where
  "read_slice s =
     (if newline \<in> set (take bufSize (fst s))
      then (takeWhile (\<lambda>c. c \<noteq> newline) (fst s) @ [newline], Found, (tl (dropWhile (\<lambda>c. c \<noteq> newline) (fst s)), snd s))
      else if length (fst s) \<ge> bufSize then (take bufSize (fst s), BufferFull, (drop bufSize (fst s), snd s))
      else (fst s, AtEnd (at_end s), ([], snd s)))"

text \<open>A line with its terminator, whether there was one, and the rest.\<close>

function next_line_loop :: "string \<Rightarrow> stream \<Rightarrow> (string, string \<times> bool \<times> stream) result" where
  "next_line_loop buf s =
     (case read_slice s of
        (chunk, Found, s') \<Rightarrow> Inr (buf @ chunk, True, s')
      | (chunk, BufferFull, s') \<Rightarrow> next_line_loop (buf @ chunk) s'
      | (chunk, AtEnd (ReadError e), s') \<Rightarrow> Inl e
      | (chunk, AtEnd _, s') \<Rightarrow> Inr (buf @ chunk, buf @ chunk \<noteq> [], s'))"
  by pat_completeness auto

termination
  by (relation "measure (\<lambda>(buf, s). length (fst s))") (auto simp: read_slice_def bufSize_def split: if_splits)

declare next_line_loop.simps [simp del]

definition next_line :: "stream \<Rightarrow> (string, string \<times> bool \<times> stream) result" where
  "next_line s = next_line_loop [] s"

text \<open>\<^verbatim>\<open>fields\<close>: the maximal runs of bytes that are no white space.\<close>

function fields :: "string \<Rightarrow> string list" where
  "fields line =
     (let rest = dropWhile isSpace line
      in if rest = [] then []
         else takeWhile (\<lambda>c. \<not> isSpace c) rest # fields (dropWhile (\<lambda>c. \<not> isSpace c) rest))"
  by pat_completeness auto

termination
proof (relation "measure length")
  fix line x :: string
  assume "x = dropWhile isSpace line" "x \<noteq> []"
  then have "\<not> isSpace (hd x)" using hd_dropWhile [of isSpace line] by auto
  then have "length (dropWhile (\<lambda>c. \<not> isSpace c) x) < length x"
    using \<open>x \<noteq> []\<close> by (cases x) (simp_all add: le_imp_less_Suc length_dropWhile_le)
  moreover have "length x \<le> length line" using \<open>x = _\<close> by (simp add: length_dropWhile_le)
  ultimately show "(dropWhile (\<lambda>c. \<not> isSpace c) x, line) \<in> measure length" by simp
qed simp

declare fields.simps [simp del]

definition blank :: "string \<Rightarrow> bool" where
  "blank line \<longleftrightarrow> list_all isSpace line"

text \<open>\<^verbatim>\<open>tokenReader.next\<close>, byte by byte.\<close>

fun next_token_loop :: "string \<Rightarrow> string \<Rightarrow> string option \<Rightarrow> (string, string \<times> bool \<times> stream) result" where
  "next_token_loop buf [] e = (case e of None \<Rightarrow> Inr (buf, buf \<noteq> [], ([], e)) | Some err \<Rightarrow> Inl err)"
| "next_token_loop buf (c # cs) e =
     (if isSpace c then (if buf \<noteq> [] then Inr (buf, True, (cs, e)) else next_token_loop buf cs e)
      else if length (buf @ [c]) > 1048576 then Inl ''token longer than 1 MiB''
      else next_token_loop (buf @ [c]) cs e)"

definition next_token :: "stream \<Rightarrow> (string, string \<times> bool \<times> stream) result" where
  "next_token s = next_token_loop [] (fst s) (snd s)"

section \<open>The comparators\<close>

function CompareExact :: "stream \<Rightarrow> stream \<Rightarrow> (string, bool) result" where
  "CompareExact a b =
     (let (ca, ea, a') = read_full bufSize a; (cb, eb, b') = read_full bufSize b
      in if ca \<noteq> cb then Inr False
         else case (ea, eb) of
                (ReadError e, _) \<Rightarrow> Inl e
              | (_, ReadError e) \<Rightarrow> Inl e
              | (More, More) \<Rightarrow> CompareExact a' b'
              | _ \<Rightarrow> Inr (ea = EOF \<and> eb = EOF))"
  by pat_completeness auto

termination
  by (relation "measure (\<lambda>(a, b). length (fst a))") (auto simp: read_full_def bufSize_def at_end_def split: if_splits option.splits)

declare CompareExact.simps [simp del]

text \<open>The lengths of what is left bound the number of turns: every turn but the last consumes a byte.\<close>

fun white_loop :: "nat \<Rightarrow> stream \<Rightarrow> stream \<Rightarrow> (string, bool) result option" where
  "white_loop 0 a b = None"
| "white_loop (Suc n) a b =
     (case next_line a of
        Inl e \<Rightarrow> Some (Inl e)
      | Inr (la, okA, a') \<Rightarrow>
          (case next_line b of
             Inl e \<Rightarrow> Some (Inl e)
           | Inr (lb, okB, b') \<Rightarrow>
               if \<not> okA \<and> \<not> okB then Some (Inr True)
               else if \<not> okA then (if blank lb then white_loop n a' b' else Some (Inr False))
               else if \<not> okB then (if blank la then white_loop n a' b' else Some (Inr False))
               else if fields la = fields lb then white_loop n a' b' else Some (Inr False)))"

definition CompareWhite :: "stream \<Rightarrow> stream \<Rightarrow> (string, bool) result option" where
  "CompareWhite a b = white_loop (length (fst a) + length (fst b) + 1) a b"

definition fabs :: "f64 \<Rightarrow> f64" where
  "fabs x = (if x < 0 then 0 - x else x)"

definition token_match :: "(string \<Rightarrow> fval option) \<Rightarrow> f64 \<Rightarrow> f64 \<Rightarrow> string \<Rightarrow> string \<Rightarrow> bool" where
  "token_match parse absTol relTol ta tb \<longleftrightarrow> ta = tb \<or>
     (case (parse ta, parse tb) of
        (Some (Fin x), Some (Fin y)) \<Rightarrow> fabs (x - y) \<le> absTol \<or> fabs (x - y) \<le> relTol * fabs x
      | _ \<Rightarrow> False)"

fun float_loop :: "(string \<Rightarrow> fval option) \<Rightarrow> f64 \<Rightarrow> f64 \<Rightarrow> nat \<Rightarrow> stream \<Rightarrow> stream \<Rightarrow> (string, bool) result option" where
  "float_loop parse absTol relTol 0 a b = None"
| "float_loop parse absTol relTol (Suc n) a b =
     (case next_token a of
        Inl e \<Rightarrow> Some (Inl e)
      | Inr (ta, okA, a') \<Rightarrow>
          (case next_token b of
             Inl e \<Rightarrow> Some (Inl e)
           | Inr (tb, okB, b') \<Rightarrow>
               if \<not> okA \<or> \<not> okB then Some (Inr (okA = okB))
               else if token_match parse absTol relTol ta tb then float_loop parse absTol relTol n a' b'
               else Some (Inr False)))"

definition CompareFloat :: "(string \<Rightarrow> fval option) \<Rightarrow> f64 \<Rightarrow> f64 \<Rightarrow> stream \<Rightarrow> stream \<Rightarrow> (string, bool) result option" where
  "CompareFloat parse absTol relTol a b = float_loop parse absTol relTol (length (fst a) + 1) a b"

text \<open>\<^verbatim>\<open>Compare\<close>; \<^const>\<open>None\<close> would be a comparison that does not end.\<close>

definition Compare :: "(string \<Rightarrow> fval option) \<Rightarrow> string \<Rightarrow> stream \<Rightarrow> stream \<Rightarrow> Params \<Rightarrow> (string, Outcome) result option" where
  "Compare parse kind expected actual p =
     map_option (\<lambda>r. bind_result r (\<lambda>ok. Inr (if ok then Correct else Wrong)))
       (if kind = ''exact'' then Some (CompareExact expected actual)
        else if kind = ''white_diff'' \<or> kind = '''' then CompareWhite expected actual
        else if kind = ''float'' then CompareFloat parse (AbsTol p) (RelTol p) expected actual
        else Some (Inl (''unknown comparator '' @ kind)))"

section \<open>Custom checkers\<close>

definition first_line :: "string \<Rightarrow> string" where
  "first_line s = takeWhile (\<lambda>c. c \<noteq> newline) s"

definition truncate :: "string \<Rightarrow> nat \<Rightarrow> string" where
  "truncate s n = (if length s \<le> n then s else take n s @ ellipsis)"

definition orDefault :: "string \<Rightarrow> string \<Rightarrow> string" where
  "orDefault s d = (if s = '''' then d else s)"

definition TranslateMessage :: "string \<Rightarrow> f64 \<Rightarrow> string" where
  "TranslateMessage msg score =
     (if msg = ''translate:success'' then MsgCorrect
      else if msg = ''translate:wrong'' then MsgWrong
      else if msg = ''translate:partial'' then MsgPartial
      else if msg = '''' then (if score \<ge> 1 then MsgCorrect else if score \<le> 0 then MsgWrong else MsgPartial)
      else truncate msg 512)"

datatype checker_error = InvalidScore string | CheckerFailed string | NoPoints string | UnexpectedCode int string

definition ParseCMSChecker :: "(string \<Rightarrow> fval option) \<Rightarrow> string \<Rightarrow> string \<Rightarrow> (checker_error, Outcome) result" where
  "ParseCMSChecker parse stdout stderr =
     (let line = first_line (TrimSpace stdout); msg = first_line (TrimSpace stderr)
      in case parse (TrimSpace line) of
           Some (Fin score) \<Rightarrow>
             if score < 0 \<or> score > 1 then Inl (InvalidScore (truncate line 64))
             else Inr \<lparr>ocScore = Fin score, ocMessage = TranslateMessage (TrimSpace msg) score\<rparr>
         | _ \<Rightarrow> Inl (InvalidScore (truncate line 64)))"

text \<open>\<^verbatim>\<open>math.Max(0, math.Min(1, v))\<close>: NaN stays NaN.\<close>

fun clamp_value :: "fval \<Rightarrow> fval" where
  "clamp_value (Fin v) = Fin (max 0 (min 1 v))"
| "clamp_value PosInf = Fin 1"
| "clamp_value NegInf = Fin 0"
| "clamp_value NaN = NaN"

fun percent :: "fval \<Rightarrow> fval" where
  "percent (Fin v) = (if v > 1 then Fin (v / f64 100) else Fin v)"
| "percent v = v"

fun find_points :: "(string \<Rightarrow> fval option) \<Rightarrow> string list \<Rightarrow> fval option" where
  "find_points parse (w # v # ws) =
     (if w = ''points'' \<or> w = ''points:''
      then (case parse v of Some x \<Rightarrow> Some x | None \<Rightarrow> find_points parse (v # ws))
      else find_points parse (v # ws))"
| "find_points parse ws = None"

definition first_value :: "(string \<Rightarrow> fval option) \<Rightarrow> string list \<Rightarrow> fval option" where
  "first_value parse ws = (case ws of [] \<Rightarrow> None | w # _ \<Rightarrow> parse w)"

definition ParseTestlib :: "(string \<Rightarrow> fval option) \<Rightarrow> int \<Rightarrow> string \<Rightarrow> (checker_error, Outcome) result" where
  "ParseTestlib parse exitCode stderr =
     (let msg = truncate (TrimSpace (first_line (TrimSpace stderr))) 512
      in if exitCode = 0 then Inr \<lparr>ocScore = Fin 1, ocMessage = orDefault msg MsgCorrect\<rparr>
         else if exitCode = 1 \<or> exitCode = 2 \<or> exitCode = 4 then Inr \<lparr>ocScore = Fin 0, ocMessage = orDefault msg MsgWrong\<rparr>
         else if exitCode = 3 then Inl (CheckerFailed msg)
         else if exitCode = 7
         then (case find_points parse (Fields msg) of
                 Some v \<Rightarrow> Inr \<lparr>ocScore = clamp_value (percent v), ocMessage = msg\<rparr>
               | None \<Rightarrow>
                   (case first_value parse (Fields msg) of
                      Some v \<Rightarrow> Inr \<lparr>ocScore = clamp_value (percent v), ocMessage = msg\<rparr>
                    | None \<Rightarrow> Inl (NoPoints msg)))
         else if 16 \<le> exitCode \<and> exitCode \<le> 116
         then Inr \<lparr>ocScore = clamp_value (Fin (f64 (of_int (exitCode - 16)) / f64 100)), ocMessage = orDefault msg MsgPartial\<rparr>
         else Inl (UnexpectedCode exitCode msg))"

section \<open>Lines and tokens\<close>

lemma next_line_loop_spec:
  "next_line_loop buf (bs, e) =
     (if newline \<in> set bs
      then Inr (buf @ takeWhile (\<lambda>c. c \<noteq> newline) bs @ [newline], True, (tl (dropWhile (\<lambda>c. c \<noteq> newline) bs), e))
      else case e of None \<Rightarrow> Inr (buf @ bs, buf @ bs \<noteq> [], ([], None)) | Some err \<Rightarrow> Inl err)"
proof (induction "length bs" arbitrary: buf bs rule: less_induct)
  case less
  have split: "newline \<in> set bs \<longleftrightarrow> newline \<in> set (take bufSize bs) \<or> newline \<in> set (drop bufSize bs)"
    by (metis Un_iff append_take_drop_id set_append)
  consider (found) "newline \<in> set (take bufSize bs)" | (full) "newline \<notin> set (take bufSize bs)" "bufSize \<le> length bs"
    | (rest) "newline \<notin> set (take bufSize bs)" "length bs < bufSize" by linarith
  then show ?case
  proof cases
    case found
    then show ?thesis using split by (simp add: next_line_loop.simps [of buf] read_slice_def)
  next
    case full
    have len: "length (drop bufSize bs) < length bs" using full(2) by (simp add: bufSize_def)
    have nn: "\<And>x. x \<in> set (take bufSize bs) \<Longrightarrow> x \<noteq> newline" using full(1) by blast
    have tw: "takeWhile (\<lambda>c. c \<noteq> newline) bs = take bufSize bs @ takeWhile (\<lambda>c. c \<noteq> newline) (drop bufSize bs)"
      using takeWhile_append2 [of "take bufSize bs" "\<lambda>c. c \<noteq> newline" "drop bufSize bs"] nn unfolding append_take_drop_id by blast
    have dw: "dropWhile (\<lambda>c. c \<noteq> newline) bs = dropWhile (\<lambda>c. c \<noteq> newline) (drop bufSize bs)"
      using dropWhile_append2 [of "take bufSize bs" "\<lambda>c. c \<noteq> newline" "drop bufSize bs"] nn unfolding append_take_drop_id by blast
    have step: "next_line_loop buf (bs, e) = next_line_loop (buf @ take bufSize bs) (drop bufSize bs, e)"
      using full by (simp add: next_line_loop.simps [of buf] read_slice_def)
    have A: "(buf @ take bufSize bs) @ drop bufSize bs = buf @ bs" by simp
    show ?thesis using split full(1) unfolding step less [OF len] A tw dw by simp
  next
    case rest
    then show ?thesis by (auto simp: next_line_loop.simps [of buf] read_slice_def at_end_def split: option.splits)
  qed
qed

lemma line_rest_shorter: "newline \<in> set bs \<Longrightarrow> length (tl (dropWhile (\<lambda>c. c \<noteq> newline) bs)) < length bs"
proof -
  assume "newline \<in> set bs"
  then have "dropWhile (\<lambda>c. c \<noteq> newline) bs \<noteq> []" by auto
  moreover have "length (dropWhile (\<lambda>c. c \<noteq> newline) bs) \<le> length bs" by (rule length_dropWhile_le)
  ultimately show ?thesis by (cases "dropWhile (\<lambda>c. c \<noteq> newline) bs") auto
qed

text \<open>The lines of a file, each with its terminator.\<close>

function file_lines :: "string \<Rightarrow> string list" where
  "file_lines bs =
     (if bs = [] then []
      else if newline \<in> set bs
      then (takeWhile (\<lambda>c. c \<noteq> newline) bs @ [newline]) # file_lines (tl (dropWhile (\<lambda>c. c \<noteq> newline) bs))
      else [bs])"
  by pat_completeness auto
termination
  by (relation "measure length") (simp_all add: line_rest_shorter del: length_tl)

declare file_lines.simps [simp del]

lemma next_line_spec:
  "next_line (bs, None) =
     (case file_lines bs of
        [] \<Rightarrow> Inr ([], False, ([], None))
      | l # _ \<Rightarrow> Inr (l, True, (if newline \<in> set bs then tl (dropWhile (\<lambda>c. c \<noteq> newline) bs) else [], None)))"
  by (auto simp: next_line_def next_line_loop_spec file_lines.simps [of bs])

lemma file_lines_rest:
  "file_lines bs = l # ls \<Longrightarrow> file_lines (if newline \<in> set bs then tl (dropWhile (\<lambda>c. c \<noteq> newline) bs) else []) = ls"
  by (auto simp: file_lines.simps [of bs] file_lines.simps [of "[]"] split: if_splits)

lemma fields_Nil: "fields line = [] \<longleftrightarrow> blank line"
  by (auto simp: fields.simps [of line] Let_def blank_def list_all_iff dropWhile_eq_Nil_conv)

text \<open>Lists of lines of tokens that agree up to blank lines at the end.\<close>

fun tokens_eq :: "'a list list \<Rightarrow> 'a list list \<Rightarrow> bool" where
  "tokens_eq [] [] = True"
| "tokens_eq [] (y # ys) = (y = [] \<and> tokens_eq [] ys)"
| "tokens_eq (x # xs) [] = (x = [] \<and> tokens_eq xs [])"
| "tokens_eq (x # xs) (y # ys) = (x = y \<and> tokens_eq xs ys)"

definition strip_blank :: "'a list list \<Rightarrow> 'a list list" where
  "strip_blank xs = rev (dropWhile (\<lambda>l. l = []) (rev xs))"

lemma strip_blank_simps [simp]:
  "strip_blank [] = []" "strip_blank (x # xs) = (if x = [] \<and> strip_blank xs = [] then [] else x # strip_blank xs)"
  by (auto simp: strip_blank_def dropWhile_append dropWhile_eq_Nil_conv)

lemma tokens_eq_strip: "tokens_eq xs ys \<longleftrightarrow> strip_blank xs = strip_blank ys"
  by (induction xs ys rule: tokens_eq.induct) auto

lemma white_loop_spec:
  "length a + length b < n \<Longrightarrow>
   white_loop n (a, None) (b, None) = Some (Inr (tokens_eq (map fields (file_lines a)) (map fields (file_lines b))))"
proof (induction n arbitrary: a b)
  case (Suc n)
  let ?ra = "if newline \<in> set a then tl (dropWhile (\<lambda>c. c \<noteq> newline) a) else []"
  let ?rb = "if newline \<in> set b then tl (dropWhile (\<lambda>c. c \<noteq> newline) b) else []"
  have la: "length ?ra < length a" if "file_lines a = l # ls" for l ls
    using that line_rest_shorter [of a] by (auto simp: file_lines.simps [of a] split: if_splits)
  have lb: "length ?rb < length b" if "file_lines b = l # ls" for l ls
    using that line_rest_shorter [of b] by (auto simp: file_lines.simps [of b] split: if_splits)
  show ?case
  proof (cases "file_lines a")
    case a: Nil
    then have [simp]: "next_line (a, None) = Inr ([], False, ([], None))" by (simp add: next_line_spec)
    show ?thesis
    proof (cases "file_lines b")
      case Nil
      then show ?thesis by (simp add: a next_line_spec)
    next
      case (Cons l ls)
      then have "next_line (b, None) = Inr (l, True, (?rb, None))" by (simp add: next_line_spec)
      then show ?thesis using Suc.IH [of "[]" ?rb] Suc.prems lb [OF Cons] file_lines_rest [OF Cons]
        by (auto simp: a Cons fields_Nil file_lines.simps [of "[]"])
    qed
  next
    case a: (Cons k ks)
    then have na: "next_line (a, None) = Inr (k, True, (?ra, None))" by (simp add: next_line_spec)
    show ?thesis
    proof (cases "file_lines b")
      case Nil
      then have "next_line (b, None) = Inr ([], False, ([], None))" by (simp add: next_line_spec)
      then show ?thesis using na Suc.IH [of ?ra "[]"] Suc.prems la [OF a] file_lines_rest [OF a]
        by (auto simp: a Nil fields_Nil file_lines.simps [of "[]"])
    next
      case (Cons l ls)
      then have "next_line (b, None) = Inr (l, True, (?rb, None))" by (simp add: next_line_spec)
      then show ?thesis using na Suc.IH [of ?ra ?rb] Suc.prems la [OF a] lb [OF Cons] file_lines_rest [OF a] file_lines_rest [OF Cons]
        by (auto simp: a Cons)
    qed
  qed
qed simp

text \<open>
  Property C14. The white space comparator, which reads both files through buffers of 64 KiB, accepts exactly the outputs whose
  lines have the same tokens as the expected ones, up to blank lines at the end.
\<close>

theorem CompareWhite_spec:
  "CompareWhite (a, None) (b, None) =
     Some (Inr (strip_blank (map fields (file_lines a)) = strip_blank (map fields (file_lines b))))"
  unfolding CompareWhite_def by (subst white_loop_spec) (simp_all add: tokens_eq_strip)

lemma CompareExact_spec: "CompareExact (a, None) (b, None) = Inr (a = b)"
proof (induction "length a" arbitrary: a b rule: less_induct)
  case less
  show ?case
  proof (cases "bufSize \<le> length a \<and> bufSize \<le> length b")
    case True
    have "length (drop bufSize a) < length a" using True by (auto simp: bufSize_def)
    moreover have "a = b \<longleftrightarrow> take bufSize a = take bufSize b \<and> drop bufSize a = drop bufSize b"
      by (metis append_take_drop_id)
    ultimately show ?thesis using True less [of "drop bufSize a" "drop bufSize b"]
      by (simp add: CompareExact.simps [of "(a, None)"] read_full_def)
  next
    case False
    then show ?thesis by (auto simp: CompareExact.simps [of "(a, None)"] read_full_def at_end_def Let_def)
  qed
qed

lemma fields_space: "isSpace c \<Longrightarrow> fields (c # cs) = fields cs"
  by (simp add: fields.simps [of "c # cs"] fields.simps [of cs])

lemma fields_token:
  assumes "t \<noteq> []" "\<forall>c \<in> set t. \<not> isSpace c"
  shows "fields t = [t]" and "isSpace c \<Longrightarrow> fields (t @ c # cs) = t # fields cs"
proof -
  have d: "dropWhile isSpace (t @ xs) = t @ xs" for xs using assms by (cases t) auto
  have tw: "takeWhile (\<lambda>c. \<not> isSpace c) t = t" "dropWhile (\<lambda>c. \<not> isSpace c) t = []" using assms(2) by (simp_all add: takeWhile_eq_all_conv)
  show "fields t = [t]" using d [of "[]"] assms(1) unfolding fields.simps [of t] append_Nil2 Let_def
    by (simp only: tw fields.simps [of "[]"]) simp
  assume c: "isSpace c"
  have "takeWhile (\<lambda>c. \<not> isSpace c) (t @ c # cs) = t" "dropWhile (\<lambda>c. \<not> isSpace c) (t @ c # cs) = c # cs"
    using assms(2) c by (simp_all add: takeWhile_append2 dropWhile_append2)
  then show "fields (t @ c # cs) = t # fields cs"
    using d assms(1) fields_space [OF c] by (simp add: fields.simps [of "t @ c # cs"] Let_def)
qed

lemma prefix_token:
  assumes "t \<noteq> []" "\<forall>c \<in> set t. \<not> isSpace c"
  shows "\<exists>u us. fields (t @ cs) = u # us \<and> length t \<le> length u"
proof -
  have "dropWhile isSpace (t @ cs) = t @ cs" using assms by (cases t) auto
  moreover have "takeWhile (\<lambda>c. \<not> isSpace c) (t @ cs) = t @ takeWhile (\<lambda>c. \<not> isSpace c) cs"
    using assms(2) by (simp add: takeWhile_append2)
  ultimately show ?thesis using assms(1) by (simp add: fields.simps [of "t @ cs"] Let_def)
qed

lemma next_token_loop_spec:
  assumes "\<forall>c \<in> set buf. \<not> isSpace c" "\<forall>t \<in> set (fields (buf @ cs)). length t \<le> 1048576"
  shows "fields (buf @ cs) = [] \<and> next_token_loop buf cs None = Inr ([], False, ([], None))
    \<or> (\<exists>t ts rest. fields (buf @ cs) = t # ts \<and> next_token_loop buf cs None = Inr (t, True, (rest, None)) \<and> fields rest = ts
         \<and> length rest + 1 \<le> length (buf @ cs))"
  using assms
proof (induction cs arbitrary: buf)
  case Nil
  then show ?case using fields_token(1) [of buf] by (cases buf) (auto simp: fields.simps [of "[]"])
next
  case (Cons c cs)
  show ?case
  proof (cases "isSpace c")
    case True
    then show ?thesis using Cons fields_token(2) [of buf c cs] fields_space [OF True] by (cases "buf = []") fastforce+
  next
    case False
    have "length (buf @ [c]) \<le> 1048576"
    proof -
      have "\<exists>t xs. fields ((buf @ [c]) @ cs) = t # xs \<and> length (buf @ [c]) \<le> length t"
        using prefix_token [of "buf @ [c]" cs] Cons.prems(1) False by auto
      then show ?thesis using Cons.prems(2) by fastforce
    qed
    then show ?thesis using Cons.IH [of "buf @ [c]"] Cons.prems False by auto
  qed
qed

lemma next_token_spec:
  assumes "\<forall>t \<in> set (fields a). length t \<le> 1048576"
  shows "fields a = [] \<and> next_token (a, None) = Inr ([], False, ([], None))
    \<or> (\<exists>t ts rest. fields a = t # ts \<and> next_token (a, None) = Inr (t, True, (rest, None)) \<and> fields rest = ts \<and> length rest < length a)"
  using next_token_loop_spec [of "[]" a] assms by (auto simp: next_token_def Suc_le_eq)

lemma float_loop_spec:
  assumes "\<forall>t \<in> set (fields a). length t \<le> 1048576" "\<forall>t \<in> set (fields b). length t \<le> 1048576" "length a < n"
  shows "float_loop parse absTol relTol n (a, None) (b, None) =
    Some (Inr (list_all2 (token_match parse absTol relTol) (fields a) (fields b)))"
  using assms
proof (induction n arbitrary: a b)
  case (Suc n)
  consider (none) "fields a = []" "next_token (a, None) = Inr ([], False, ([], None))"
    | (some) t ts r where "fields a = t # ts" "next_token (a, None) = Inr (t, True, (r, None))" "fields r = ts" "length r < length a"
    using next_token_spec [OF Suc.prems(1)] by blast
  then show ?case
  proof cases
    case none
    then show ?thesis using next_token_spec [OF Suc.prems(2)] by auto
  next
    case (some t ts r)
    show ?thesis
    proof (cases "fields b")
      case Nil
      then show ?thesis using some next_token_spec [OF Suc.prems(2)] by auto
    next
      case (Cons u us)
      then obtain r' where r': "next_token (b, None) = Inr (u, True, (r', None))" "fields r' = us"
        using next_token_spec [OF Suc.prems(2)] by auto
      then have "float_loop parse absTol relTol n (r, None) (r', None) = Some (Inr (list_all2 (token_match parse absTol relTol) ts us))"
        using Suc.IH [of r r'] Suc.prems some Cons by auto
      then show ?thesis using some r' Cons by auto
    qed
  qed
qed simp

text \<open>
  The float comparator accepts exactly the outputs with as many tokens as expected, each equal to the expected
  token or a finite number within the absolute or the relative tolerance of it (for tokens up to 1 MiB).
\<close>

theorem CompareFloat_spec:
  assumes "\<forall>t \<in> set (fields a). length t \<le> 1048576" "\<forall>t \<in> set (fields b). length t \<le> 1048576"
  shows "CompareFloat parse absTol relTol (a, None) (b, None) =
    Some (Inr (list_all2 (token_match parse absTol relTol) (fields a) (fields b)))"
  unfolding CompareFloat_def by (rule float_loop_spec) (use assms in simp_all)

section \<open>Every comparison ends\<close>

lemma next_line_progress:
  assumes "next_line (a, e) = Inr (l, ok, s')"
  shows "snd s' = e" "ok \<Longrightarrow> length (fst s') < length a" "\<not> ok \<Longrightarrow> fst s' = []" "length (fst s') \<le> length a"
  using assms line_rest_shorter [of a]
  by (auto simp: next_line_def next_line_loop_spec less_imp_le split: if_splits option.splits)

lemma white_loop_total: "length (fst a) + length (fst b) < n \<Longrightarrow> white_loop n a b \<noteq> None"
proof (induction n arbitrary: a b)
  case (Suc n)
  show ?case
  proof (cases "next_line a")
    case (Inr x)
    obtain la okA a' where x: "x = (la, okA, a')" by (metis prod_cases3)
    have pa: "okA \<Longrightarrow> length (fst a') < length (fst a)" "length (fst a') \<le> length (fst a)"
      using next_line_progress [of "fst a" "snd a" la okA a'] Inr x by auto
    show ?thesis
    proof (cases "next_line b")
      case Inr2: (Inr y)
      obtain lb okB b' where y: "y = (lb, okB, b')" by (metis prod_cases3)
      have pb: "okB \<Longrightarrow> length (fst b') < length (fst b)" "length (fst b') \<le> length (fst b)"
        using next_line_progress [of "fst b" "snd b" lb okB b'] Inr2 y by auto
      have "white_loop n a' b' \<noteq> None" if "okA \<or> okB" using that pa pb Suc.prems by (intro Suc.IH) linarith
      then show ?thesis using Inr x Inr2 y by auto
    qed (use Inr x in auto)
  qed auto
qed simp

lemma next_token_loop_progress:
  "next_token_loop buf cs e = Inr (t, ok, s') \<Longrightarrow> ok \<Longrightarrow> length (fst s') < length buf + length cs"
  by (induction buf cs e rule: next_token_loop.induct) (auto split: if_splits option.splits)

lemma float_loop_total: "length (fst a) < n \<Longrightarrow> float_loop parse absTol relTol n a b \<noteq> None"
proof (induction n arbitrary: a b)
  case (Suc n)
  show ?case
  proof (cases "next_token a")
    case (Inr x)
    obtain ta okA a' where x: "x = (ta, okA, a')" by (metis prod_cases3)
    have pa: "okA \<Longrightarrow> length (fst a') < length (fst a)"
      using next_token_loop_progress [of "[]" "fst a" "snd a" ta okA a'] Inr x by (simp add: next_token_def)
    show ?thesis
    proof (cases "next_token b")
      case Inr2: (Inr y)
      obtain tb okB b' where y: "y = (tb, okB, b')" by (metis prod_cases3)
      have "float_loop parse absTol relTol n a' b' \<noteq> None" if okA using pa [OF that] Suc.prems by (intro Suc.IH) linarith
      then show ?thesis using Inr x Inr2 y by auto
    qed (use Inr x in auto)
  qed auto
qed simp

text \<open>
  Every comparison ends, whatever the streams contain and wherever reading fails: the loops consume at
  least a byte in every turn.
\<close>

theorem Compare_total: "\<exists>r. Compare parse kd a b p = Some r"
  using white_loop_total [of a b "length (fst a) + length (fst b) + 1"] float_loop_total [of a "length (fst a) + 1" parse "AbsTol p" "RelTol p" b]
  by (auto simp: Compare_def CompareWhite_def CompareFloat_def)

text \<open>
  Comparing is decided by content: the exact comparator accepts identical bytes and nothing else.
\<close>

theorem Compare_exact:
  "Compare parse ''exact'' (a, None) (b, None) p = Some (Inr (if a = b then Correct else Wrong))"
  by (simp add: Compare_def CompareExact_spec)

section \<open>Scores of custom checkers\<close>

definition unit_score :: "fval \<Rightarrow> bool" where
  "unit_score v \<longleftrightarrow> (\<exists>x. v = Fin x \<and> 0 \<le> x \<and> x \<le> 1)"

lemma clamp_value_unit: "clamp_value v = NaN \<and> v = NaN \<or> unit_score (clamp_value v)"
  by (cases v) (auto simp: unit_score_def)

lemma percent_NaN: "percent v = NaN \<longleftrightarrow> v = NaN"
  by (cases v) auto

text \<open>
  The interpretation of a checker's output gives a score between zero and one or an error, except that a testlib checker
  that exits with the code for partial points and prints a NaN passes that NaN on.
\<close>

theorem checker_scores:
  "(ParseCMSChecker parse stdout stderr = Inr oc \<longrightarrow> unit_score (ocScore oc))
   \<and> (ParseTestlib parse code stderr = Inr oc \<longrightarrow> unit_score (ocScore oc) \<or> code = 7 \<and> ocScore oc = NaN)"
proof -
  have u: "unit_score (Fin 0)" "unit_score (Fin 1)" by (simp_all add: unit_score_def f64_zero_le_one)
  have c: "unit_score (clamp_value (Fin v))" for v using clamp_value_unit [of "Fin v"] by auto
  have n: "clamp_value v \<noteq> NaN \<Longrightarrow> unit_score (clamp_value v)" for v using clamp_value_unit by blast
  have "ParseCMSChecker parse stdout stderr = Inr oc \<longrightarrow> unit_score (ocScore oc)"
    by (auto simp: ParseCMSChecker_def Let_def unit_score_def split: option.splits fval.splits if_splits)
  moreover have "unit_score (ocScore oc) \<or> code = 7 \<and> ocScore oc = NaN" if "ParseTestlib parse code stderr = Inr oc"
    using that u c unfolding ParseTestlib_def Let_def
    by (auto simp del: clamp_value.simps intro: n split: if_splits option.splits)
  ultimately show ?thesis by blast
qed

text \<open>
  The exception happens: a testlib checker that prints \<^verbatim>\<open>points nan\<close> gets the score NaN, for any parser of numbers that
  reads \<^verbatim>\<open>nan\<close> the way Go does.
\<close>

theorem testlib_nan:
  assumes "parse ''nan'' = Some NaN"
  shows "ParseTestlib parse 7 ''points nan'' = Inr \<lparr>ocScore = NaN, ocMessage = ''points nan''\<rparr>"
proof -
  have "truncate (TrimSpace (first_line (TrimSpace ''points nan''))) 512 = ''points nan''" by code_simp
  moreover have "Fields ''points nan'' = [''points'', ''nan'']" by code_simp
  ultimately show ?thesis using assms by (simp add: ParseTestlib_def)
qed

theorem testlib_nan_witness:
  "ParseTestlib (\<lambda>s. if s = ''nan'' then Some NaN else None) 7 ''points nan'' = Inr \<lparr>ocScore = NaN, ocMessage = ''points nan''\<rparr>"
  by (rule testlib_nan) simp

definition ex_parse :: "string \<Rightarrow> fval option" where
  "ex_parse s = (if s = ''0.5'' then Some (Fin (f64 (1 / 2))) else if s = ''1'' then Some (Fin 1) else None)"

theorem checker_scores_witness:
  "ParseCMSChecker ex_parse ''0.5'' '''' = Inr \<lparr>ocScore = Fin (f64 (1 / 2)), ocMessage = MsgPartial\<rparr> \<and> unit_score (Fin (f64 (1 / 2)))"
proof -
  have "ParseCMSChecker ex_parse ''0.5'' '''' = Inr \<lparr>ocScore = Fin (f64 (1 / 2)), ocMessage = MsgPartial\<rparr>" by code_simp
  then show ?thesis using checker_scores [of ex_parse "''0.5''" "''''" "\<lparr>ocScore = Fin (f64 (1 / 2)), ocMessage = MsgPartial\<rparr>" 0] by simp
qed

theorem CompareFloat_spec_witness:
  "CompareFloat ex_parse (f64 (1 / 2)) 0 (''1 x'', None) (''0.5  x'', None) = Some (Inr True)"
proof -
  have f: "fields ''1 x'' = [''1'', ''x'']" "fields ''0.5  x'' = [''0.5'', ''x'']" by code_simp+
  have m: "token_match ex_parse (f64 (1 / 2)) 0 ''1'' ''0.5''" by code_simp
  show ?thesis using CompareFloat_spec [of "''1 x''" "''0.5  x''" ex_parse "f64 (1 / 2)" 0] unfolding f
    by (simp add: m token_match_def [of _ _ _ "''x''"])
qed

end
