(* ===== verification/Langs.thy ===== *)
theory Langs
  imports Go_Float Go_Strings Go_Time "HOL-Library.AList"
begin

text \<open>
  Programming languages (\<^verbatim>\<open>src/internal/langs/langs.go\<close>): their definitions, the checks a
  definition passes before it is registered, the expansion of command templates and the
  scaling of time limits. The YAML decoder is a parameter of \<open>Load\<close>. Durations are in
  nanoseconds, sizes in bytes.
\<close>

section \<open>Data\<close>

record CompileLimits =
  clTime :: int
  clMemory :: int
  clProcesses :: int
  clOutput :: int

record CompileSeed =
  csDir :: string
  csWarmupFile :: string
  csWarmup :: string

record Language =
  lnID :: string
  lnName :: string
  lnVersionCommand :: "string list"
  lnSourceExtensions :: "string list"
  lnHeaderExtensions :: "string list"
  lnCompile :: "string list list"
  lnExecutable :: string
  lnKeepFiles :: "string list"
  lnRun :: "string list"
  lnCompileLimits :: CompileLimits
  lnRunProcesses :: int
  lnEnv :: "(string \<times> string) list"
  lnDirs :: "string list"
  lnNoAddressSpaceLimit :: bool
  lnCompileSeed :: "CompileSeed option"
  lnTimeMultiplier :: f64

definition MaxTimeMultiplier :: f64 where "MaxTimeMultiplier = f64 10"

definition DefaultEnv :: "(string \<times> string) list" where
  "DefaultEnv = [(''PATH'', ''/usr/local/bin:/usr/bin:/bin''), (''HOME'', ''/tmp''), (''LANG'', ''C.UTF-8'')]"

record Vars =
  vSources :: "string list"
  vMain :: string
  vMainSource :: string
  vExecutable :: string
  vMemory :: int

record Registry =
  rgByID :: "(string \<times> Language) list"
  rgOrder :: "string list"

section \<open>Time limits\<close>

definition Multiplied :: "Language \<Rightarrow> bool" where
  "Multiplied l \<longleftrightarrow> 0 < lnTimeMultiplier l \<and> lnTimeMultiplier l \<noteq> 1"

text \<open>\<^verbatim>\<open>int64(math.Ceil(x))\<close> within the range of \<^verbatim>\<open>int64\<close>.\<close>

definition math_Ceil :: "f64 \<Rightarrow> int" where
  "math_Ceil x = \<lceil>rat_of_f64 x\<rceil>"

definition micro :: f64 where "micro = f64 (1 / 1000000)"

definition ScaleMs :: "Language option \<Rightarrow> int \<Rightarrow> int" where
  "ScaleMs lang ms =
     (case lang of
        None \<Rightarrow> ms
      | Some l \<Rightarrow>
          if \<not> Multiplied l \<or> ms \<le> 0 then ms
          else math_Ceil (f64 (of_int ms) * lnTimeMultiplier l - micro))"

section \<open>Names and templates\<close>

text \<open>\<^verbatim>\<open>l.SourceExtensions[0]\<close>: registered languages have one.\<close>

definition SourceExtension :: "Language \<Rightarrow> string" where
  "SourceExtension l = hd (lnSourceExtensions l)"

definition Interpreted :: "Language \<Rightarrow> bool" where
  "Interpreted l \<longleftrightarrow> lnCompile l = []"

definition EnvList :: "Language \<Rightarrow> string list" where
  "EnvList l =
     (let m = foldl (\<lambda>m (k, v). AList.update k v m) [] (DefaultEnv @ lnEnv l)
      in stable_sort (<) (map (\<lambda>(k, v). k @ ''='' @ v) m))"

definition IsSource :: "Language \<Rightarrow> string \<Rightarrow> bool" where
  "IsSource l name = list_ex (\<lambda>e. suffix e name) (lnSourceExtensions l)"

definition IsHeader :: "Language \<Rightarrow> string \<Rightarrow> bool" where
  "IsHeader l name = list_ex (\<lambda>e. suffix e name) (lnHeaderExtensions l)"

definition template_pairs :: "Vars \<Rightarrow> (string \<times> string) list" where
  "template_pairs v =
     [(''{main_source}'', vMainSource v), (''{main}'', vMain v), (''{executable}'', vExecutable v),
      (''{memory_mb}'', Itoa (vMemory v div 2 ^ 20)), (''{memory_kb}'', Itoa (vMemory v div 2 ^ 10)),
      (''{sources_joined}'', Join '' '' (vSources v))]"

definition Expand :: "string list \<Rightarrow> Vars \<Rightarrow> string list" where
  "Expand tmpl v =
     concat (map (\<lambda>a. if a = ''{sources}'' then vSources v else [replace_with (template_pairs v) a]) tmpl)"

section \<open>Validation and the registry\<close>

datatype lang_error =
    InvalidID string
  | NameRequired
  | SourceExtensionsRequired
  | ExtensionDot string
  | RunRequired
  | ExecutableRequired
  | CompileEmpty nat
  | BadTimeMultiplier
  | BadCompileSeed
  | DuplicateLanguage string
  | UnreadableLanguage string

definition bad_seed :: "CompileSeed \<Rightarrow> bool" where
  "bad_seed cs \<longleftrightarrow> csDir cs = [] \<or> sublist ''..'' (csDir cs) \<or> prefix ''/'' (csDir cs)
     \<or> csWarmupFile cs = [] \<or> csWarmup cs = []"

definition Validate :: "Language \<Rightarrow> lang_error list" where
  "Validate l =
     (if lnID l = [] \<or> list_ex (\<lambda>c. c \<in> set '' /'' \<or> c = CHR 0x5C) (lnID l) then [InvalidID (lnID l)] else [])
     @ (if lnName l = [] then [NameRequired] else [])
     @ (if lnSourceExtensions l = [] then [SourceExtensionsRequired] else [])
     @ map ExtensionDot (filter (\<lambda>e. \<not> prefix ''.'' e) (lnSourceExtensions l @ lnHeaderExtensions l))
     @ (if lnRun l = [] then [RunRequired] else [])
     @ (if lnExecutable l = [] then [ExecutableRequired] else [])
     @ map (\<lambda>(i, c). CompileEmpty i) (filter (\<lambda>(i, c). c = []) (enumerate 0 (lnCompile l)))
     @ (if lnTimeMultiplier l < 0 \<or> MaxTimeMultiplier < lnTimeMultiplier l then [BadTimeMultiplier] else [])
     @ (case lnCompileSeed l of None \<Rightarrow> [] | Some cs \<Rightarrow> if bad_seed cs then [BadCompileSeed] else [])"

definition or_default :: "int \<Rightarrow> int \<Rightarrow> int" where
  "or_default v d = (if v = 0 then d else v)"

definition withDefaults :: "Language \<Rightarrow> Language" where
  "withDefaults l =
     (let c = lnCompileLimits l
      in l\<lparr>lnCompileLimits := \<lparr>clTime = or_default (clTime c) (10 * second), clMemory = or_default (clMemory c) (2 ^ 30),
            clProcesses = or_default (clProcesses c) 32, clOutput = or_default (clOutput c) (256 * 2 ^ 20)\<rparr>\<rparr>)"

definition Get :: "Registry \<Rightarrow> string \<Rightarrow> Language option" where
  "Get r i = map_of (rgByID r) i"

definition Add :: "Registry \<Rightarrow> Language \<Rightarrow> (lang_error list, Registry) result" where
  "Add r l0 =
     (let l = withDefaults l0; es = Validate l
      in if es \<noteq> [] then Inl es
         else if Get r (lnID l) \<noteq> None then Inl [DuplicateLanguage (lnID l)]
         else Inr \<lparr>rgByID = (lnID l, l) # rgByID r, rgOrder = rgOrder r @ [lnID l]\<rparr>)"

definition empty_registry :: Registry where
  "empty_registry = \<lparr>rgByID = [], rgOrder = []\<rparr>"

text \<open>The files of the directory in name order; \<open>decode\<close> reads one and decodes its YAML.\<close>

fun load_files :: "(string \<Rightarrow> Language option) \<Rightarrow> Registry \<Rightarrow> string list \<Rightarrow> (lang_error list, Registry) result" where
  "load_files decode r [] = Inr r"
| "load_files decode r (f # fs) =
     (case decode f of
        None \<Rightarrow> Inl [UnreadableLanguage f]
      | Some l \<Rightarrow> bind_result (Add r l) (\<lambda>r. load_files decode r fs))"

definition Load :: "(string \<Rightarrow> Language option) \<Rightarrow> string list \<Rightarrow> (lang_error list, Registry) result" where
  "Load decode files = load_files decode empty_registry (stable_sort (<) files)"

definition IDs :: "Registry \<Rightarrow> string list" where
  "IDs r = rgOrder r"

definition All :: "Registry \<Rightarrow> Language option list" where
  "All r = map (Get r) (rgOrder r)"

text \<open>\<^verbatim>\<open>Expand(...)[0]\<close>: \<^const>\<open>None\<close> is an index out of range.\<close>

definition ExecutableName :: "Language \<Rightarrow> string \<Rightarrow> string option" where
  "ExecutableName l main =
     (case Expand [lnExecutable l] \<lparr>vSources = [], vMain = main, vMainSource = [], vExecutable = [], vMemory = 0\<rparr> of
        [] \<Rightarrow> None | x # _ \<Rightarrow> Some x)"

section \<open>The registry\<close>

definition registry_ok :: "Registry \<Rightarrow> bool" where
  "registry_ok r \<longleftrightarrow> distinct (rgOrder r) \<and> set (rgOrder r) = dom (Get r)
     \<and> (\<forall>i l. Get r i = Some l \<longrightarrow> lnID l = i \<and> Validate l = [])"

lemma empty_registry_ok: "registry_ok empty_registry"
  by (auto simp: registry_ok_def empty_registry_def Get_def)

lemma Add_registry_ok: "registry_ok r \<Longrightarrow> Add r l = Inr r' \<Longrightarrow> registry_ok r'"
  by (auto simp: registry_ok_def Add_def Let_def Get_def split: if_splits)

lemma Add_Get:
  assumes "Add r l = Inr r'"
  shows "Get r' i = (if i = lnID l then Some (withDefaults l) else Get r i)"
  using assms by (auto simp: Add_def Let_def Get_def withDefaults_def split: if_splits)

lemma load_files_ok: "registry_ok r \<Longrightarrow> load_files decode r fs = Inr r' \<Longrightarrow> registry_ok r'"
proof (induction fs arbitrary: r)
  case (Cons f fs)
  then show ?case by (auto simp: bind_result_eq_Inr split: option.splits dest: Add_registry_ok)
qed simp

lemma load_files_order:
  "load_files decode r fs = Inr r' \<Longrightarrow> rgOrder r' = rgOrder r @ map (\<lambda>f. lnID (the (decode f))) fs"
proof (induction fs arbitrary: r)
  case (Cons f fs)
  then show ?case
    by (auto simp: bind_result_eq_Inr Add_def Let_def withDefaults_def split: option.splits if_splits)
qed simp

lemma valid_extensions:
  "Validate l = [] \<Longrightarrow> lnSourceExtensions l \<noteq> [] \<and> prefix ''.'' (SourceExtension l)"
  by (cases "lnSourceExtensions l") (auto simp: Validate_def SourceExtension_def split: if_splits)

lemma valid_multiplier: "Validate l = [] \<Longrightarrow> 0 \<le> lnTimeMultiplier l \<and> lnTimeMultiplier l \<le> MaxTimeMultiplier"
  by (auto simp: Validate_def not_less split: if_splits)

text \<open>
  A registry that loads lists its languages once each, in the order of the
  files; each listed language is found under its own id, passes the validation, and has a
  source extension, so \<^verbatim>\<open>SourceExtension\<close> never indexes an empty list.
\<close>

theorem Load_languages:
  assumes "Load decode files = Inr r"
  shows "distinct (IDs r) \<and> IDs r = map (\<lambda>f. lnID (the (decode f))) (stable_sort (<) files)
    \<and> list_all (\<lambda>x. x \<noteq> None \<and> Validate (the x) = [] \<and> lnSourceExtensions (the x) \<noteq> []
          \<and> prefix ''.'' (SourceExtension (the x)) \<and> Get r (lnID (the x)) = x) (All r)"
proof -
  have ok: "registry_ok r" using load_files_ok [OF empty_registry_ok] assms by (auto simp: Load_def)
  have "\<exists>l. Get r i = Some l \<and> lnID l = i \<and> Validate l = []" if "i \<in> set (rgOrder r)" for i
    using ok that by (auto simp: registry_ok_def)
  then show ?thesis using ok load_files_order [of decode empty_registry] assms valid_extensions
    by (fastforce simp: IDs_def All_def Load_def empty_registry_def list_all_iff registry_ok_def)
qed

definition ex_language :: "string \<Rightarrow> f64 \<Rightarrow> Language" where
  "ex_language i m = \<lparr>lnID = i, lnName = ''C++'', lnVersionCommand = [], lnSourceExtensions = [''.cpp'', ''.cc''],
     lnHeaderExtensions = [''.h''], lnCompile = [[''g++'', ''{sources}'']], lnExecutable = ''{main}'', lnKeepFiles = [],
     lnRun = [''./{executable}''], lnCompileLimits = \<lparr>clTime = 0, clMemory = 0, clProcesses = 0, clOutput = 0\<rparr>,
     lnRunProcesses = 0, lnEnv = [], lnDirs = [], lnNoAddressSpaceLimit = False, lnCompileSeed = None, lnTimeMultiplier = m\<rparr>"

definition ex_decode :: "string \<Rightarrow> Language option" where
  "ex_decode f = Some (ex_language f 1)"

theorem Load_languages_witness:
  "\<exists>r. Load ex_decode [''cpp20'', ''cpp17''] = Inr r \<and> IDs r = [''cpp17'', ''cpp20'']
     \<and> map (map_option SourceExtension) (All r) = [Some ''.cpp'', Some ''.cpp'']"
proof -
  have e: "(case Load ex_decode [''cpp20'', ''cpp17''] of
      Inr r \<Rightarrow> map (map_option SourceExtension) (All r) = [Some ''.cpp'', Some ''.cpp''] | Inl _ \<Rightarrow> False)"
    by code_simp
  then obtain r where r: "Load ex_decode [''cpp20'', ''cpp17''] = Inr r"
    by (cases "Load ex_decode [''cpp20'', ''cpp17'']") auto
  with e have a: "map (map_option SourceExtension) (All r) = [Some ''.cpp'', Some ''.cpp'']" by simp
  have "IDs r = map (\<lambda>f. lnID (the (ex_decode f))) (stable_sort (<) [''cpp20'', ''cpp17''])"
    using Load_languages [OF r] by blast
  moreover have "map (\<lambda>f. lnID (the (ex_decode f))) (stable_sort (<) [''cpp20'', ''cpp17'']) = [''cpp17'', ''cpp20'']"
    by code_simp
  ultimately show ?thesis using r a by metis
qed

section \<open>Scaling of time limits\<close>

lemma micro_small: "0 < rat_of_f64 micro \<and> rat_of_f64 micro \<le> 1 / 2048"
proof -
  have "rat_of_f64 micro = rnd64 (1 / 1000000)" by (simp add: micro_def f64.rep_eq)
  moreover have "rnd64 (pow2 (-20)) \<le> rnd64 (1 / 1000000)" by (rule rnd64_mono) (simp add: power_int_minus)
  moreover have "rnd64 (1 / 1000000) \<le> rnd64 (pow2 (-11))" by (rule rnd64_mono) (simp add: power_int_minus)
  moreover have "rnd64 (pow2 (-20)) = pow2 (-20)" "rnd64 (pow2 (-11)) = pow2 (-11)" by (rule rnd64_pow2, simp)+
  ultimately show ?thesis by (simp add: power_int_minus)
qed

lemma scaled_value:
  assumes "0 < ms" "ms \<le> 2 ^ 40"
  shows "math_Ceil (f64 (of_int ms) * m - micro)
    = \<lceil>rnd64 (rnd64 (of_int ms * rat_of_f64 m) - rat_of_f64 micro)\<rceil>"
proof -
  have "rnd64 (of_int ms) = of_int ms" using assms by (intro rnd64_of_int) simp
  then show ?thesis by (simp add: math_Ceil_def times_f64.rep_eq minus_f64.rep_eq f64.rep_eq)
qed

lemma half_exact: "\<bar>n\<bar> \<le> 2 ^ 53 \<Longrightarrow> rnd64 (of_int n / 2) = of_int n / 2"
  by (rule representable [of _ n "-1"]) (auto simp: power_int_minus)

text \<open>
  A valid language at most multiplies a positive time limit by ten; with a
  multiplier of at least one it never shortens it, and with one of at least 1/1024 it
  stays positive, so it does not turn into \<^emph>\<open>no limit\<close>.
\<close>

theorem ScaleMs_bounds:
  assumes v: "Validate l = []" and ms: "0 < ms" "ms \<le> 2 ^ 40"
  shows "ScaleMs (Some l) ms \<le> 10 * ms
    \<and> (1 \<le> lnTimeMultiplier l \<longrightarrow> ms \<le> ScaleMs (Some l) ms)
    \<and> (f64 (1 / 1024) \<le> lnTimeMultiplier l \<longrightarrow> 0 < ScaleMs (Some l) ms)"
proof (cases "Multiplied l")
  case False
  then show ?thesis using ms by (simp add: ScaleMs_def)
next
  case True
  define m p where "m = rat_of_f64 (lnTimeMultiplier l)" and "p = rnd64 (of_int ms * m)"
  have S: "ScaleMs (Some l) ms = \<lceil>rnd64 (p - rat_of_f64 micro)\<rceil>"
    using True ms scaled_value [OF ms] by (simp add: ScaleMs_def m_def p_def)
  have "m \<le> rnd64 10" using valid_multiplier [OF v] by (simp add: m_def MaxTimeMultiplier_def less_eq_f64.rep_eq f64.rep_eq)
  moreover have r10: "rnd64 (of_int n) = of_int n" if "\<bar>n\<bar> \<le> 2 ^ 53" for n using that by (rule rnd64_of_int)
  ultimately have m10: "m \<le> 10" using r10 [of 10] by simp
  have "of_int ms * m \<le> of_int (10 * ms)" using m10 ms by simp
  then have p10: "p \<le> of_int (10 * ms)" using rnd64_mono [of "of_int ms * m" "of_int (10 * ms)"] r10 [of "10 * ms"] ms by (simp add: p_def)
  have pp: "rnd64 p = p" by (simp add: p_def)
  have "rnd64 (p - rat_of_f64 micro) \<le> p" using rnd64_mono [of "p - rat_of_f64 micro" p] micro_small pp by simp
  then have up: "ScaleMs (Some l) ms \<le> 10 * ms" using p10 unfolding S by (simp add: ceiling_le_iff)
  moreover have "ms \<le> ScaleMs (Some l) ms" if "1 \<le> lnTimeMultiplier l"
  proof -
    have "1 \<le> m" using that by (simp add: m_def less_eq_f64.rep_eq one_f64.rep_eq)
    then have "of_int ms \<le> p" using rnd64_mono [of "of_int ms" "of_int ms * m"] r10 [of ms] ms by (simp add: p_def)
    then have "of_int (2 * ms - 1) / 2 \<le> p - rat_of_f64 micro" using micro_small by simp
    then have "of_int (2 * ms - 1) / 2 \<le> rnd64 (p - rat_of_f64 micro)"
      using rnd64_mono half_exact [of "2 * ms - 1"] ms by fastforce
    then show ?thesis unfolding S by (simp add: le_ceiling_iff)
  qed
  moreover have "0 < ScaleMs (Some l) ms" if "f64 (1 / 1024) \<le> lnTimeMultiplier l"
  proof -
    have e: "rnd64 (1 / 1024) = 1 / 1024" using rnd64_pow2 [of "-10"] by (simp add: power_int_minus)
    have m: "1 / 1024 \<le> m" using that e by (simp add: m_def less_eq_f64.rep_eq f64.rep_eq)
    have "1 * m \<le> of_int ms * m" using ms m by (intro mult_right_mono) auto
    with m have "1 / 1024 \<le> of_int ms * m" by linarith
    then have "1 / 1024 \<le> p" using rnd64_mono [of "1 / 1024" "of_int ms * m"] e unfolding p_def by metis
    then have "pow2 (-11) \<le> p - rat_of_f64 micro" using micro_small by (simp add: power_int_minus)
    then have "pow2 (-11) \<le> rnd64 (p - rat_of_f64 micro)" using rnd64_mono rnd64_pow2 [of "-11"] by fastforce
    then show ?thesis unfolding S by (simp add: power_int_minus)
  qed
  ultimately show ?thesis by blast
qed

theorem ScaleMs_bounds_witness:
  "Validate (ex_language ''py'' (f64 (11 / 10))) = [] \<and> ScaleMs (Some (ex_language ''py'' (f64 (11 / 10)))) 1000 = 1100
   \<and> 1000 \<le> ScaleMs (Some (ex_language ''py'' (f64 (11 / 10)))) 1000"
proof -
  have v: "Validate (ex_language ''py'' (f64 (11 / 10))) = []" by code_simp
  have "1 \<le> lnTimeMultiplier (ex_language ''py'' (f64 (11 / 10)))" by code_simp
  then have "1000 \<le> ScaleMs (Some (ex_language ''py'' (f64 (11 / 10)))) 1000" using ScaleMs_bounds [OF v, of 1000] by simp
  moreover have "ScaleMs (Some (ex_language ''py'' (f64 (11 / 10)))) 1000 = 1100" by code_simp
  ultimately show ?thesis using v by simp
qed

text \<open>
  A valid multiplier can turn a positive limit into zero, which means no limit:
  the subtracted epsilon outweighs a product below it.
\<close>

theorem ScaleMs_loses_limit:
  "Validate (ex_language ''c'' (f64 (1 / 10000000000))) = []
   \<and> ScaleMs (Some (ex_language ''c'' (f64 (1 / 10000000000)))) 1000 = 0"
  by code_simp

end
