(* ===== verification/Jobs.thy ===== *)
theory Jobs
  imports Langs
begin

text \<open>
  The messages between the dispatcher and the workers (\<^verbatim>\<open>src/internal/jobs/jobs.go\<close>), the
  priorities of the queues (\<^verbatim>\<open>src/internal/queue/queue.go\<close>) and the notifications
  (\<^verbatim>\<open>src/internal/events/events.go\<close>). SHA-256 and the JSON encoding of a language are
  parameters of \<open>CompileKey\<close>. Identifiers are integers; a missing one is 0, as in the code.
\<close>

section \<open>Priorities\<close>

type_synonym Priority = int

definition PriorityEvaluate :: Priority where "PriorityEvaluate = 0"
definition PriorityCompile :: Priority where "PriorityCompile = 1"
definition PriorityUserTest :: Priority where "PriorityUserTest = 2"
definition PriorityBackground :: Priority where "PriorityBackground = 3"
definition PriorityDeferred :: Priority where "PriorityDeferred = 4"
definition numPriorities :: Priority where "numPriorities = 5"

lemmas priority_defs = PriorityEvaluate_def PriorityCompile_def PriorityUserTest_def PriorityBackground_def
  PriorityDeferred_def numPriorities_def

definition priorityNames :: "string list" where
  "priorityNames = [''evaluate'', ''compile'', ''usertest'', ''background'', ''deferred'']"

definition serviceOrder :: "Priority list" where
  "serviceOrder = [PriorityEvaluate, PriorityCompile, PriorityDeferred, PriorityUserTest, PriorityBackground]"

definition Priority_String :: "Priority \<Rightarrow> string" where
  "Priority_String p =
     (if 0 \<le> p \<and> p < numPriorities then priorityNames ! nat p else ''priority('' @ Itoa p @ '')'')"

definition ParsePriority :: "string \<Rightarrow> Priority option" where
  "ParsePriority s = map_option (int \<circ> fst) (find (\<lambda>(i, n). n = s) (enumerate 0 priorityNames))"

section \<open>Jobs and results\<close>

definition KindCompile :: string where "KindCompile = ''compile''"
definition KindEvaluate :: string where "KindEvaluate = ''evaluate''"
definition KindUserTest :: string where "KindUserTest = ''usertest''"

record File =
  fiName :: string
  fiDigest :: string
  fiSize :: int

record Limits =
  liTimeMs :: int
  liWallTimeMs :: int
  liMemoryBytes :: int
  liOutputBytes :: int
  liProcesses :: int

definition ForLanguage :: "Limits \<Rightarrow> Language option \<Rightarrow> Limits" where
  "ForLanguage l lang = l\<lparr>liTimeMs := ScaleMs lang (liTimeMs l), liWallTimeMs := ScaleMs lang (liWallTimeMs l)\<rparr>"

record JobTestcase =
  jtID :: int
  jtCodename :: string
  jtInput :: string
  jtOutput :: string

record Job =
  jbID :: string
  jbKind :: string
  jbAttempt :: int
  jbPriority :: Priority
  jbSubmissionID :: int
  jbUserTestID :: int
  jbDatasetID :: int
  jbGeneration :: int
  jbTaskType :: string
  jbTaskTypeParams :: string
  jbLanguage :: "Language option"
  jbFiles :: "File list"
  jbManagers :: "File list"
  jbExecutables :: "File list"
  jbLimits :: Limits
  jbTestcases :: "JobTestcase list"
  jbInput :: string

record Compilation =
  coSuccess :: bool
  coText :: string
  coStdout :: string
  coStderr :: string
  coTime :: f64
  coWallTime :: f64
  coMemory :: int
  coExecutables :: "File list"
  coSecurity :: bool

record Evaluation =
  evTestcaseID :: int
  evCodename :: string
  evOutcome :: f64
  evText :: string
  evTime :: f64
  evWallTime :: f64
  evMemory :: int
  evExitStatus :: string
  evExitCode :: int
  evSignal :: int

record UserTestRun =
  utOutput :: string
  utText :: string
  utTime :: f64
  utWallTime :: f64
  utMemory :: int
  utExitStatus :: string

record JobResult =
  reJobID :: string
  reKind :: string
  reAttempt :: int
  rePriority :: Priority
  reWorker :: string
  reSubmissionID :: int
  reUserTestID :: int
  reDatasetID :: int
  reGeneration :: int
  reTestcases :: "int list"
  reCompilation :: "Compilation option"
  reEvaluations :: "Evaluation list"
  reUserTest :: "UserTestRun option"
  reError :: string

definition ForJob :: "Job \<Rightarrow> string \<Rightarrow> JobResult" where
  "ForJob j worker = \<lparr>reJobID = jbID j, reKind = jbKind j, reAttempt = jbAttempt j, rePriority = jbPriority j,
     reWorker = worker, reSubmissionID = jbSubmissionID j, reUserTestID = jbUserTestID j,
     reDatasetID = jbDatasetID j, reGeneration = jbGeneration j, reTestcases = map jtID (jbTestcases j),
     reCompilation = None, reEvaluations = [], reUserTest = None, reError = []\<rparr>"

section \<open>Keys of compilations\<close>

text \<open>\<open>key_part\<close> is the closure \<^verbatim>\<open>w\<close> on one part: its length, a colon, the part, a semicolon.\<close>

definition key_part :: "string \<Rightarrow> string" where
  "key_part p = Itoa (int (length p)) @ '':'' @ p @ '';''"

definition key_parts :: "string list \<Rightarrow> string" where
  "key_parts ps = concat (map key_part ps)"

definition sorted_files :: "File list \<Rightarrow> File list" where
  "sorted_files = stable_sort (\<lambda>a b. fiName a < fiName b)"

definition files_key :: "File list \<Rightarrow> string list" where
  "files_key fs = Itoa (int (length fs)) # concat (map (\<lambda>f. [fiName f, fiDigest f]) (sorted_files fs))"

definition compile_parts :: "(Language \<Rightarrow> string) \<Rightarrow> Language \<Rightarrow> Job \<Rightarrow> string list" where
  "compile_parts marshal lang j =
     [''v1'', marshal lang, jbTaskType j, jbTaskTypeParams j] @ files_key (jbFiles j) @ files_key (jbManagers j)"

definition CompileKey :: "(string \<Rightarrow> string) \<Rightarrow> (Language \<Rightarrow> string) \<Rightarrow> Job \<Rightarrow> string" where
  "CompileKey sha256 marshal j =
     (case jbLanguage j of None \<Rightarrow> [] | Some lang \<Rightarrow> sha256 (key_parts (compile_parts marshal lang j)))"

section \<open>Messages that leave the dispatcher\<close>

definition TypeSubmission :: string where "TypeSubmission = ''submission''"
definition TypeAlert :: string where "TypeAlert = ''alert''"
definition TypeBalloon :: string where "TypeBalloon = ''balloon''"

record Event =
  eType :: string
  eContestID :: int
  eParticipationID :: int
  eTaskID :: int
  eSubmissionID :: int
  eUserTestID :: int
  eStatus :: string
  eDone :: int
  eTotal :: int
  eText :: string

definition no_event :: Event where
  "no_event = \<lparr>eType = [], eContestID = 0, eParticipationID = 0, eTaskID = 0, eSubmissionID = 0, eUserTestID = 0,
     eStatus = [], eDone = 0, eTotal = 0, eText = []\<rparr>"

record Item =
  itPriority :: Priority
  itJob :: Job

record RankingUpdate =
  ruContestID :: int
  ruParticipationID :: int
  ruTaskID :: int
  ruScore :: f64
  ruSubtasks :: "f64 list"
  ruPending :: nat
  ruICPCSolved :: bool
  ruICPCAttempts :: nat
  ruICPCSolvedAt :: "time option"
  ruTime :: time

record Skip =
  skSubmissionID :: int
  skDatasetID :: int
  skGeneration :: int
  skTestcases :: "int list"

section \<open>The key determines the inputs\<close>

lemma digit_not_colon: "c \<in> set (Itoa (int n)) \<Longrightarrow> c \<noteq> CHR '':''"
proof -
  assume "c \<in> set (Itoa (int n))"
  then obtain d where d: "d \<in> set (decimal_digits (int n))" "c = digit_char d" by (auto simp: Itoa_def digit_char_def)
  then have "(of_char c :: nat) = nat d + 48" "0 \<le> d" "d < 10" using digits_range [of "int n" d] digit_code [of d] by auto
  then show "c \<noteq> CHR '':''" by auto
qed

lemma key_part_inject:
  assumes "key_part p @ xs = key_part q @ ys"
  shows "p = q \<and> xs = ys"
proof -
  have t: "takeWhile (\<lambda>c. c \<noteq> CHR '':'') (key_part r @ zs) = Itoa (int (length r))" for r zs
    using digit_not_colon by (simp add: key_part_def takeWhile_append2)
  from t [of p xs] t [of q ys] assms have l: "length p = length q" using Itoa_inject by fastforce
  then show ?thesis using assms by (auto simp: key_part_def)
qed

lemma key_parts_inject: "key_parts ps = key_parts qs \<Longrightarrow> ps = qs"
proof (induction ps arbitrary: qs)
  case Nil
  then show ?case by (cases qs) (auto simp: key_parts_def key_part_def)
next
  case (Cons p ps)
  then obtain q qs' where qs: "qs = q # qs'" by (cases qs) (auto simp: key_parts_def key_part_def)
  then have "key_part p @ key_parts ps = key_part q @ key_parts qs'" using Cons.prems by (simp add: key_parts_def)
  with Cons.IH qs show ?case using key_part_inject by blast
qed

definition contents :: "File list \<Rightarrow> (string \<times> string) list" where
  "contents fs = map (\<lambda>f. (fiName f, fiDigest f)) (sorted_files fs)"

lemma length_sorted_files [simp]: "length (sorted_files fs) = length fs"
  by (simp add: sorted_files_def)

lemma concat_pairs_inject:
  "length fs = length gs \<Longrightarrow> concat (map (\<lambda>f. [fiName f, fiDigest f]) fs) @ xs = concat (map (\<lambda>f. [fiName f, fiDigest f]) gs) @ ys
   \<Longrightarrow> map (\<lambda>f. (fiName f, fiDigest f)) fs = map (\<lambda>f. (fiName f, fiDigest f)) gs \<and> xs = ys"
  by (induction fs gs rule: list_induct2) auto

lemma files_key_inject:
  assumes "files_key fs @ xs = files_key gs @ ys"
  shows "contents fs = contents gs \<and> xs = ys"
proof -
  have "length fs = length gs" using assms Itoa_inject by (fastforce simp: files_key_def)
  with assms show ?thesis using concat_pairs_inject [of "sorted_files fs" "sorted_files gs"]
    by (simp add: files_key_def contents_def)
qed

text \<open>
  Property C31. Where the hash has no collision between them, two jobs with the same compile
  key have the same language (as encoded), task type and parameters, and the same submitted
  files and managers by name and content: a reused compilation is one of the same inputs.
\<close>

theorem CompileKey_inputs:
  assumes "CompileKey sha256 marshal j = CompileKey sha256 marshal j'"
    and "jbLanguage j = Some lang" "jbLanguage j' = Some lang'"
    and "sha256 (key_parts (compile_parts marshal lang j)) = sha256 (key_parts (compile_parts marshal lang' j'))
      \<Longrightarrow> key_parts (compile_parts marshal lang j) = key_parts (compile_parts marshal lang' j')"
  shows "marshal lang = marshal lang' \<and> jbTaskType j = jbTaskType j' \<and> jbTaskTypeParams j = jbTaskTypeParams j'
    \<and> contents (jbFiles j) = contents (jbFiles j') \<and> contents (jbManagers j) = contents (jbManagers j')"
proof -
  have "compile_parts marshal lang j = compile_parts marshal lang' j'"
    using assms key_parts_inject by (simp add: CompileKey_def)
  then show ?thesis
    using files_key_inject [of "jbFiles j" "files_key (jbManagers j)" "jbFiles j'" "files_key (jbManagers j')"]
      files_key_inject [of "jbManagers j" "[]" "jbManagers j'" "[]"]
    by (simp add: compile_parts_def)
qed

definition ex_job :: "File list \<Rightarrow> Job" where
  "ex_job fs = \<lparr>jbID = ''j'', jbKind = KindCompile, jbAttempt = 0, jbPriority = 0, jbSubmissionID = 1, jbUserTestID = 0,
     jbDatasetID = 2, jbGeneration = 0, jbTaskType = ''Batch'', jbTaskTypeParams = ''{}'',
     jbLanguage = Some (ex_language ''cpp'' 1), jbFiles = fs, jbManagers = [], jbExecutables = [],
     jbLimits = \<lparr>liTimeMs = 0, liWallTimeMs = 0, liMemoryBytes = 0, liOutputBytes = 0, liProcesses = 0\<rparr>,
     jbTestcases = [], jbInput = []\<rparr>"

definition ex_file :: "string \<Rightarrow> string \<Rightarrow> File" where
  "ex_file n d = \<lparr>fiName = n, fiDigest = d, fiSize = 0\<rparr>"

theorem CompileKey_inputs_witness:
  "CompileKey id lnID (ex_job [ex_file ''a'' ''1'', ex_file ''b'' ''2'']) = CompileKey id lnID (ex_job [ex_file ''b'' ''2'', ex_file ''a'' ''1''])
   \<and> contents (jbFiles (ex_job [ex_file ''a'' ''1'', ex_file ''b'' ''2''])) = contents (jbFiles (ex_job [ex_file ''b'' ''2'', ex_file ''a'' ''1'']))"
proof -
  let ?j = "ex_job [ex_file ''a'' ''1'', ex_file ''b'' ''2'']" and ?j' = "ex_job [ex_file ''b'' ''2'', ex_file ''a'' ''1'']"
  have k: "CompileKey id lnID ?j = CompileKey id lnID ?j'" by code_simp
  have l: "jbLanguage ?j = Some (ex_language ''cpp'' 1)" "jbLanguage ?j' = Some (ex_language ''cpp'' 1)" by (simp_all add: ex_job_def)
  show ?thesis using k CompileKey_inputs [OF k l] by simp
qed

text \<open>Names of priorities are read back, and every priority is served.\<close>

lemma ParsePriority_String: "0 \<le> p \<Longrightarrow> p < numPriorities \<Longrightarrow> ParsePriority (Priority_String p) = Some p"
proof -
  assume "0 \<le> p" "p < numPriorities"
  then have "p = 0 \<or> p = 1 \<or> p = 2 \<or> p = 3 \<or> p = 4" by (auto simp: numPriorities_def)
  moreover have "list_all (\<lambda>p. ParsePriority (Priority_String p) = Some p) [0, 1, 2, 3, 4]" by code_simp
  ultimately show "ParsePriority (Priority_String p) = Some p" by auto
qed

lemma serviceOrder_all: "set serviceOrder = {p. 0 \<le> p \<and> p < numPriorities} \<and> distinct serviceOrder"
  by (auto simp: serviceOrder_def priority_defs)

end
