(* ===== verification/Judging_Db.thy ===== *)
theory Judging_Db
  imports Jobs Verdicts
begin

text \<open>
  The tables of the database the dispatcher works on and the SQL statements it runs on them
  (\<^verbatim>\<open>src/internal/db/sqlc\<close>, generated from \<^verbatim>\<open>src/internal/db/queries\<close>; each
  generated Go file holds the statements). A result row carries its evaluations and
  executables. Statements that filter on the generation change nothing when it differs. A
  time is an instant (\<^verbatim>\<open>now()\<close> is a parameter); texts are ordered by bytes.
\<close>

section \<open>Tables\<close>

record TestcaseT =
  teID :: int
  teDatasetID :: int
  teCodename :: string
  tePublic :: bool
  teInputDigest :: string
  teOutputDigest :: string

record Dataset =
  dtID :: int
  dtTaskID :: int
  dtTaskType :: string
  dtTaskTypeParams :: string
  dtTimeLimitMs :: "int option"
  dtWallTimeLimitMs :: "int option"
  dtMemoryLimitBytes :: "int option"
  dtOutputLimitBytes :: int
  dtProcessLimit :: int
  dtScoreType :: string
  dtScoreTypeParams :: "json option"
  dtShortCircuit :: bool
  dtAutojudge :: bool

record TaskT =
  tkID :: int
  tkContestID :: "int option"
  tkActiveDatasetID :: "int option"
  tkScoreMode :: string
  tkScorePrecision :: nat

text \<open>A submission with its files and whether a token was played on it.\<close>

record SubmissionT =
  smID :: int
  smParticipationID :: "int option"
  smTaskID :: int
  smSubmittedAt :: time
  smLanguage :: "string option"
  smOfficial :: bool
  smTester :: bool
  smInvalidated :: bool
  smTokened :: bool
  smFiles :: "(string \<times> string) list"

record EvaluationT =
  erOutcome :: f64
  erText :: string
  erTime :: "f64 option"
  erWallTime :: "f64 option"
  erMemory :: "int option"
  erExitStatus :: string
  erExitCode :: "int option"
  erSignal :: "int option"
  erWorker :: string

datatype score_details = NoDetails | EmptyDetails | StoredDetails Details

record SubmissionResult =
  srGeneration :: int
  srCompilation :: "string option"
  srCompilationText :: string
  srCompilationStdout :: string
  srCompilationStderr :: string
  srCompilationTries :: int
  srCompilationTime :: "f64 option"
  srCompilationWallTime :: "f64 option"
  srCompilationMemory :: "int option"
  srCompilationWorker :: "string option"
  srEvaluation :: "string option"
  srEvaluationTries :: int
  srTotal :: nat
  srDone :: nat
  srScore :: "f64 option"
  srDetails :: score_details
  srPublicScore :: "f64 option"
  srPublicDetails :: score_details
  srRanking :: "f64 list option"
  srVerdict :: "string option"
  srScoredAt :: "time option"
  srSystemError :: "string option"
  srEnqueuedAt :: "time option"
  srEvaluations :: "(int \<times> EvaluationT) list"
  srExecutables :: "(string \<times> string) list"

record TaskScoreT =
  psScore :: f64
  psSubtasks :: "f64 list"
  psSolved :: bool
  psAttempts :: nat
  psSolvedAt :: "time option"
  psPending :: nat
  psLastSubmissionAt :: "time option"
  psScoreReachedAt :: "time option"
  psAdjustment :: f64

record Cached =
  ccText :: string
  ccStdout :: string
  ccStderr :: string
  ccTime :: f64
  ccWallTime :: f64
  ccMemory :: int
  ccHits :: int
  ccFiles :: "File list"

record DB =
  dbSubmissions :: "SubmissionT list"
  dbParticipations :: "(int \<times> int) list"
  dbTasks :: "TaskT list"
  dbDatasets :: "Dataset list"
  dbTestcases :: "TestcaseT list"
  dbManagers :: "(int \<times> string \<times> string) list"
  dbResults :: "int \<times> int \<rightharpoonup> SubmissionResult"
  dbScores :: "int \<times> int \<rightharpoonup> TaskScoreT"
  dbFlags :: "(int \<times> string \<times> string \<times> string) list"
  dbBlobs :: "(string \<times> int \<times> string) list"
  dbCache :: "(string \<times> Cached) list"

section \<open>Queries\<close>

record Meta =
  mtID :: int
  mtParticipationID :: int
  mtTaskID :: int
  mtSubmittedAt :: time
  mtLanguage :: "string option"
  mtOfficial :: bool
  mtTester :: bool
  mtContestID :: int

definition coalesce :: "int option \<Rightarrow> int option \<Rightarrow> int" where
  "coalesce a b = (case a of Some x \<Rightarrow> x | None \<Rightarrow> case b of Some y \<Rightarrow> y | None \<Rightarrow> 0)"

definition GetTask :: "DB \<Rightarrow> int \<Rightarrow> TaskT option" where
  "GetTask db i = find (\<lambda>t. tkID t = i) (dbTasks db)"

definition GetDataset :: "DB \<Rightarrow> int \<Rightarrow> Dataset option" where
  "GetDataset db i = find (\<lambda>d. dtID d = i) (dbDatasets db)"

definition GetSubmission :: "DB \<Rightarrow> int \<Rightarrow> SubmissionT option" where
  "GetSubmission db i = find (\<lambda>s. smID s = i) (dbSubmissions db)"

definition GetSubmissionMeta :: "DB \<Rightarrow> int \<Rightarrow> Meta option" where
  "GetSubmissionMeta db i =
     (case GetSubmission db i of
        None \<Rightarrow> None
      | Some s \<Rightarrow>
          (case GetTask db (smTaskID s) of
             None \<Rightarrow> None
           | Some t \<Rightarrow>
               Some \<lparr>mtID = smID s, mtParticipationID = coalesce (smParticipationID s) None, mtTaskID = smTaskID s,
                     mtSubmittedAt = smSubmittedAt s, mtLanguage = smLanguage s, mtOfficial = smOfficial s,
                     mtTester = smTester s,
                     mtContestID = coalesce (Option.bind (smParticipationID s) (map_of (dbParticipations db))) (tkContestID t)\<rparr>))"

definition ListTestcases :: "DB \<Rightarrow> int \<Rightarrow> TestcaseT list" where
  "ListTestcases db d = stable_sort (\<lambda>a b. teCodename a < teCodename b) (filter (\<lambda>t. teDatasetID t = d) (dbTestcases db))"

definition ListManagers :: "DB \<Rightarrow> int \<Rightarrow> (string \<times> string) list" where
  "ListManagers db d = stable_sort (\<lambda>a b. fst a < fst b) (map snd (filter (\<lambda>m. fst m = d) (dbManagers db)))"

definition ListSubmissionFiles :: "DB \<Rightarrow> int \<Rightarrow> (string \<times> string) list" where
  "ListSubmissionFiles db s =
     (case GetSubmission db s of None \<Rightarrow> [] | Some r \<Rightarrow> stable_sort (\<lambda>a b. fst a < fst b) (smFiles r))"

definition ListDatasetsByTask :: "DB \<Rightarrow> int \<Rightarrow> Dataset list" where
  "ListDatasetsByTask db t = stable_sort (\<lambda>a b. dtID a < dtID b) (filter (\<lambda>d. dtTaskID d = t) (dbDatasets db))"

definition ListJudgedDatasetsByTask :: "DB \<Rightarrow> int \<Rightarrow> Dataset list" where
  "ListJudgedDatasetsByTask db t =
     (case GetTask db t of
        None \<Rightarrow> []
      | Some task \<Rightarrow>
          (let live = (\<lambda>d. tkActiveDatasetID task = Some (dtID d))
           in stable_sort (\<lambda>a b. live a \<and> \<not> live b \<or> live a = live b \<and> dtID a < dtID b)
                (filter (\<lambda>d. dtTaskID d = t \<and> (live d \<or> dtAutojudge d)) (dbDatasets db))))"

definition LockSubmissionResult :: "DB \<Rightarrow> int \<Rightarrow> int \<Rightarrow> SubmissionResult option" where
  "LockSubmissionResult db s d = dbResults db (s, d)"

definition ListEvaluatedTestcaseIDs :: "DB \<Rightarrow> int \<Rightarrow> int \<Rightarrow> int list" where
  "ListEvaluatedTestcaseIDs db s d = (case dbResults db (s, d) of None \<Rightarrow> [] | Some r \<Rightarrow> map fst (srEvaluations r))"

definition ListEvaluations :: "DB \<Rightarrow> int \<Rightarrow> int \<Rightarrow> (int \<times> EvaluationT) list" where
  "ListEvaluations db s d = (case dbResults db (s, d) of None \<Rightarrow> [] | Some r \<Rightarrow> srEvaluations r)"

definition with_testcase :: "DB \<Rightarrow> int \<times> EvaluationT \<Rightarrow> (TestcaseT \<times> EvaluationT) list" where
  "with_testcase db e = (case find (\<lambda>t. teID t = fst e) (dbTestcases db) of None \<Rightarrow> [] | Some t \<Rightarrow> [(t, snd e)])"

definition ListEvaluationsWithTestcase :: "DB \<Rightarrow> int \<Rightarrow> int \<Rightarrow> (TestcaseT \<times> EvaluationT) list" where
  "ListEvaluationsWithTestcase db s d =
     stable_sort (\<lambda>a b. teCodename (fst a) < teCodename (fst b)) (concat (map (with_testcase db) (ListEvaluations db s d)))"

definition ListExecutables :: "DB \<Rightarrow> int \<Rightarrow> int \<Rightarrow> (string \<times> string) list" where
  "ListExecutables db s d =
     (case dbResults db (s, d) of None \<Rightarrow> [] | Some r \<Rightarrow> stable_sort (\<lambda>a b. fst a < fst b) (srExecutables r))"

text \<open>The submissions of a participation on a task that were not invalidated, each with its result on the dataset, in time order.\<close>

definition ListTaskSubmissionsForScore :: "DB \<Rightarrow> int \<Rightarrow> int \<Rightarrow> int \<Rightarrow> (SubmissionT \<times> SubmissionResult option) list" where
  "ListTaskSubmissionsForScore db d p t =
     map (\<lambda>s. (s, dbResults db (smID s, d)))
       (stable_sort (\<lambda>a b. smSubmittedAt a < smSubmittedAt b \<or> smSubmittedAt a = smSubmittedAt b \<and> smID a < smID b)
         (filter (\<lambda>s. smParticipationID s = Some p \<and> smTaskID s = t \<and> \<not> smInvalidated s) (dbSubmissions db)))"

section \<open>Updates\<close>

definition update_result :: "(SubmissionResult \<Rightarrow> SubmissionResult) \<Rightarrow> int \<Rightarrow> int \<Rightarrow> DB \<Rightarrow> DB" where
  "update_result f s d db =
     (case dbResults db (s, d) of None \<Rightarrow> db | Some r \<Rightarrow> db\<lparr>dbResults := (dbResults db)((s, d) \<mapsto> f r)\<rparr>)"

definition new_result :: SubmissionResult where
  "new_result = \<lparr>srGeneration = 0, srCompilation = None, srCompilationText = [], srCompilationStdout = [],
     srCompilationStderr = [], srCompilationTries = 0, srCompilationTime = None, srCompilationWallTime = None,
     srCompilationMemory = None, srCompilationWorker = None, srEvaluation = None, srEvaluationTries = 0, srTotal = 0,
     srDone = 0, srScore = None, srDetails = NoDetails, srPublicScore = None, srPublicDetails = NoDetails,
     srRanking = None, srVerdict = None, srScoredAt = None, srSystemError = None, srEnqueuedAt = None,
     srEvaluations = [], srExecutables = []\<rparr>"

definition EnsureSubmissionResult :: "int \<Rightarrow> int \<Rightarrow> DB \<Rightarrow> DB" where
  "EnsureSubmissionResult s d db =
     (case dbResults db (s, d) of None \<Rightarrow> db\<lparr>dbResults := (dbResults db)((s, d) \<mapsto> new_result)\<rparr> | Some _ \<Rightarrow> db)"

definition SetCompilationResult :: "int \<Rightarrow> int \<Rightarrow> string \<Rightarrow> Compilation \<Rightarrow> string \<Rightarrow> nat \<Rightarrow> int \<Rightarrow> DB \<Rightarrow> DB" where
  "SetCompilationResult s d outcome c worker n gen =
     update_result (\<lambda>r. if srGeneration r = gen then
         r\<lparr>srCompilation := Some outcome, srCompilationText := coText c, srCompilationStdout := coStdout c,
           srCompilationStderr := coStderr c, srCompilationTries := srCompilationTries r + 1,
           srCompilationTime := Some (coTime c), srCompilationWallTime := Some (coWallTime c),
           srCompilationMemory := Some (coMemory c), srCompilationWorker := Some worker, srTotal := n\<rparr> else r) s d"

definition InsertExecutable :: "int \<Rightarrow> int \<Rightarrow> string \<Rightarrow> string \<Rightarrow> DB \<Rightarrow> DB" where
  "InsertExecutable s d name digest =
     update_result (\<lambda>r. r\<lparr>srExecutables := AList.update name digest (srExecutables r)\<rparr>) s d"

definition RegisterBlob :: "string \<Rightarrow> int \<Rightarrow> string \<Rightarrow> DB \<Rightarrow> DB" where
  "RegisterBlob digest sz desc db =
     (if map_of (dbBlobs db) digest = None then db\<lparr>dbBlobs := (digest, sz, desc) # dbBlobs db\<rparr> else db)"

definition InsertSubmissionFlag :: "int \<Rightarrow> string \<Rightarrow> string \<Rightarrow> string \<Rightarrow> DB \<Rightarrow> DB" where
  "InsertSubmissionFlag s knd reason det db =
     (if list_ex (\<lambda>(s', k, rs, _). s' = s \<and> k = knd \<and> rs = reason) (dbFlags db) then db
      else db\<lparr>dbFlags := (s, knd, reason, det) # dbFlags db\<rparr>)"

definition MarkJobsEnqueued :: "time \<Rightarrow> int \<Rightarrow> int \<Rightarrow> DB \<Rightarrow> DB" where
  "MarkJobsEnqueued now = update_result (\<lambda>r. r\<lparr>srEnqueuedAt := Some now\<rparr>)"

definition UpsertEvaluation :: "int \<Rightarrow> int \<Rightarrow> int \<Rightarrow> EvaluationT \<Rightarrow> DB \<Rightarrow> DB" where
  "UpsertEvaluation s d tc e = update_result (\<lambda>r. r\<lparr>srEvaluations := AList.update tc e (srEvaluations r)\<rparr>) s d"

definition RefreshTestcasesDone :: "int \<Rightarrow> int \<Rightarrow> DB \<Rightarrow> DB" where
  "RefreshTestcasesDone = update_result (\<lambda>r. r\<lparr>srDone := length (srEvaluations r)\<rparr>)"

definition SetEvaluationDone :: "int \<Rightarrow> int \<Rightarrow> int \<Rightarrow> DB \<Rightarrow> DB" where
  "SetEvaluationDone s d gen =
     update_result (\<lambda>r. if srGeneration r = gen
       then r\<lparr>srEvaluation := Some ''ok'', srEvaluationTries := srEvaluationTries r + 1\<rparr> else r) s d"

definition SetSubmissionSystemError :: "int \<Rightarrow> int \<Rightarrow> string \<Rightarrow> DB \<Rightarrow> DB" where
  "SetSubmissionSystemError s d msg = update_result (\<lambda>r. r\<lparr>srSystemError := Some msg\<rparr>) s d"

definition SetCompilationFailedScore :: "time \<Rightarrow> int \<Rightarrow> int \<Rightarrow> DB \<Rightarrow> DB" where
  "SetCompilationFailedScore now =
     update_result (\<lambda>r. r\<lparr>srScore := Some 0, srPublicScore := Some 0, srDetails := EmptyDetails,
       srPublicDetails := EmptyDetails, srRanking := Some [], srVerdict := Some VerdictCompileError, srScoredAt := Some now\<rparr>)"

definition SetScore :: "time \<Rightarrow> int \<Rightarrow> int \<Rightarrow> Result \<Rightarrow> string \<Rightarrow> DB \<Rightarrow> DB" where
  "SetScore now s d res verdict =
     update_result (\<lambda>r. r\<lparr>srScore := Some (Score res), srDetails := StoredDetails (ResDetails res),
       srPublicScore := Some (PublicScore res), srPublicDetails := StoredDetails (PublicDetails res),
       srRanking := Some (RankingDetails res), srVerdict := Some verdict, srScoredAt := Some now\<rparr>) s d"

definition clear_compilation :: "string \<Rightarrow> SubmissionResult \<Rightarrow> SubmissionResult" where
  "clear_compilation level r =
     (if level = ''compilation''
      then r\<lparr>srCompilation := None, srCompilationText := [], srCompilationStdout := [], srCompilationStderr := [],
             srCompilationTries := 0\<rparr> else r)"

definition clear_evaluation :: "string \<Rightarrow> SubmissionResult \<Rightarrow> SubmissionResult" where
  "clear_evaluation level r =
     (if level = ''score'' then r
      else r\<lparr>srGeneration := srGeneration r + 1, srEvaluation := None, srEvaluationTries := 0, srDone := 0\<rparr>)"

definition clear_score :: "SubmissionResult \<Rightarrow> SubmissionResult" where
  "clear_score r = r\<lparr>srScore := None, srDetails := NoDetails, srPublicScore := None, srPublicDetails := NoDetails,
     srRanking := None, srVerdict := None, srScoredAt := None, srSystemError := None, srEnqueuedAt := None\<rparr>"

definition InvalidateSubmissionResult :: "string \<Rightarrow> int \<Rightarrow> int \<Rightarrow> DB \<Rightarrow> DB" where
  "InvalidateSubmissionResult level =
     update_result (\<lambda>r. clear_score (clear_evaluation level (clear_compilation level r)))"

definition DeleteEvaluations :: "int \<Rightarrow> int \<Rightarrow> DB \<Rightarrow> DB" where
  "DeleteEvaluations = update_result (\<lambda>r. r\<lparr>srEvaluations := []\<rparr>)"

definition DeleteExecutables :: "int \<Rightarrow> int \<Rightarrow> DB \<Rightarrow> DB" where
  "DeleteExecutables = update_result (\<lambda>r. r\<lparr>srExecutables := []\<rparr>)"

definition UpsertParticipationTaskScore :: "int \<Rightarrow> int \<Rightarrow> TaskScore \<Rightarrow> ICPCTask \<Rightarrow> DB \<Rightarrow> DB \<times> f64" where
  "UpsertParticipationTaskScore p t ts ic db =
     (let adj = (case dbScores db (p, t) of None \<Rightarrow> 0 | Some r \<Rightarrow> psAdjustment r);
          score = (case dbScores db (p, t) of None \<Rightarrow> taScore ts | Some r \<Rightarrow> taScore ts + psAdjustment r);
          row = \<lparr>psScore = score, psSubtasks = taSubtasks ts, psSolved = icSolved ic, psAttempts = icAttempts ic,
                 psSolvedAt = icSolvedAt ic, psPending = taPending ts, psLastSubmissionAt = taLastSubmission ts,
                 psScoreReachedAt = taReached ts, psAdjustment = adj\<rparr>
      in (db\<lparr>dbScores := (dbScores db)((p, t) \<mapsto> row)\<rparr>, score))"

text \<open>The cache of compilations: the first entry of a key stays.\<close>

definition InsertCompilationCache :: "string \<Rightarrow> Compilation \<Rightarrow> DB \<Rightarrow> DB \<times> bool" where
  "InsertCompilationCache key c db =
     (if map_of (dbCache db) key = None
      then (db\<lparr>dbCache := (key, \<lparr>ccText = coText c, ccStdout = coStdout c, ccStderr = coStderr c, ccTime = coTime c,
              ccWallTime = coWallTime c, ccMemory = coMemory c, ccHits = 0, ccFiles = []\<rparr>) # dbCache db\<rparr>, True)
      else (db, False))"

definition InsertCompilationCacheFile :: "string \<Rightarrow> File \<Rightarrow> DB \<Rightarrow> DB" where
  "InsertCompilationCacheFile key f db =
     db\<lparr>dbCache := AList.map_entry key
        (\<lambda>c. if fiName f \<in> fiName ` set (ccFiles c) then c else c\<lparr>ccFiles := ccFiles c @ [f]\<rparr>) (dbCache db)\<rparr>"

definition GetCompilationCache :: "DB \<Rightarrow> string \<Rightarrow> Cached option" where
  "GetCompilationCache db key = map_of (dbCache db) key"

definition ListCompilationCacheFiles :: "DB \<Rightarrow> string \<Rightarrow> File list" where
  "ListCompilationCacheFiles db key =
     (case map_of (dbCache db) key of None \<Rightarrow> [] | Some c \<Rightarrow> stable_sort (\<lambda>a b. fiName a < fiName b) (ccFiles c))"

definition UseCompilationCache :: "string \<Rightarrow> DB \<Rightarrow> DB" where
  "UseCompilationCache key db = db\<lparr>dbCache := AList.map_entry key (\<lambda>c. c\<lparr>ccHits := ccHits c + 1\<rparr>) (dbCache db)\<rparr>"

definition ClearCompilationCache :: "DB \<Rightarrow> DB" where
  "ClearCompilationCache db = db\<lparr>dbCache := []\<rparr>"

end
