(* ===== verification/Judging.thy ===== *)
theory Judging
  imports Judging_Db
begin

text \<open>
  The dispatcher's judging (\<^verbatim>\<open>src/internal/dispatcher\<close>: judging.go, shortcircuit.go,
  datasets.go, compilecache.go, reeval.go, dispatcher.go): what it does with a new
  submission, a job result, a reevaluation. Every handler is one database transaction; the
  side effects (jobs, events, ranking updates, testcases to skip) are collected and applied
  after the commit. A database error aborts the transaction and leaves everything as it was.

  An outcome \<^const>\<open>None\<close> of a step is a nil dereference, which ends the process.
\<close>

section \<open>Datasets\<close>

text \<open>
  The value of the interface \<^verbatim>\<open>scoring.ScoreType\<close>: \<^verbatim>\<open>scoring.New\<close> returns the
  results of \<^verbatim>\<open>newSum\<close> and \<^verbatim>\<open>newGroup\<close> directly, so on their errors the interface
  holds a nil pointer of the concrete type and is itself not nil.
\<close>

datatype score_iface = NilInterface | NilSum | NilGroup | HasType ScoreType

definition score_iface :: "string \<Rightarrow> (score_error, ScoreType) result \<Rightarrow> score_iface" where
  "score_iface name r =
     (case r of
        Inr st \<Rightarrow> HasType st
      | Inl LengthsDiffer \<Rightarrow> NilInterface
      | Inl _ \<Rightarrow> if name = ''Sum'' then NilSum
                else if name \<in> {''GroupMin'', ''GroupMul'', ''GroupThreshold''} then NilGroup else NilInterface)"

record datasetInfo =
  diDs :: Dataset
  diTask :: TaskT
  diManagers :: "File list"
  diTestcases :: "TestcaseT list"
  diScoreType :: score_iface
  diScoreTypeErr :: "score_error option"

definition byID :: "datasetInfo \<Rightarrow> int \<Rightarrow> TestcaseT option" where
  "byID di = go_map (map (\<lambda>t. (teID t, t)) (diTestcases di))"

definition live :: "datasetInfo \<Rightarrow> bool" where
  "live di \<longleftrightarrow> tkActiveDatasetID (diTask di) = Some (dtID (diDs di))"

definition or_zero :: "int option \<Rightarrow> int" where
  "or_zero v = (case v of None \<Rightarrow> 0 | Some x \<Rightarrow> x)"

definition limits :: "datasetInfo \<Rightarrow> Limits" where
  "limits di =
     (let d = diDs di
      in \<lparr>liTimeMs = or_zero (dtTimeLimitMs d), liWallTimeMs = or_zero (dtWallTimeLimitMs d),
          liMemoryBytes = or_zero (dtMemoryLimitBytes d), liOutputBytes = dtOutputLimitBytes d, liProcesses = dtProcessLimit d\<rparr>)"

definition jobTestcases :: "datasetInfo \<Rightarrow> int list \<Rightarrow> JobTestcase list" where
  "jobTestcases di ids =
     concat (map (\<lambda>i. case byID di i of
        None \<Rightarrow> []
      | Some t \<Rightarrow> [\<lparr>jtID = teID t, jtCodename = teCodename t, jtInput = teInputDigest t, jtOutput = teOutputDigest t\<rparr>]) ids)"

datatype load_error = NoSubmission | NoDataset int | NoTask int | NoLanguage string

definition load_dataset :: "regexp \<Rightarrow> DB \<Rightarrow> int \<Rightarrow> (load_error, datasetInfo) result" where
  "load_dataset re db i =
     (case GetDataset db i of
        None \<Rightarrow> Inl (NoDataset i)
      | Some ds \<Rightarrow>
          (case GetTask db (dtTaskID ds) of
             None \<Rightarrow> Inl (NoTask (dtTaskID ds))
           | Some task \<Rightarrow>
               (let tcs = ListTestcases db i;
                    r = New re (dtScoreType ds) (dtScoreTypeParams ds) (map teCodename tcs) (map tePublic tcs) (tkScorePrecision task)
                in Inr \<lparr>diDs = ds, diTask = task,
                        diManagers = map (\<lambda>(n, dg). \<lparr>fiName = n, fiDigest = dg, fiSize = 0\<rparr>) (ListManagers db i),
                        diTestcases = tcs, diScoreType = score_iface (dtScoreType ds) r,
                        diScoreTypeErr = (case r of Inl e \<Rightarrow> Some e | Inr _ \<Rightarrow> None)\<rparr>)))"

text \<open>The cache of datasets keeps an entry for \<open>ttl\<close>.\<close>

type_synonym datasetCache = "(int \<times> time \<times> datasetInfo) list"

definition cache_get :: "regexp \<Rightarrow> duration \<Rightarrow> time \<Rightarrow> DB \<Rightarrow> datasetCache \<Rightarrow> int \<Rightarrow>
    (load_error, datasetInfo) result \<times> datasetCache" where
  "cache_get re ttl now db m i =
     (let load = (case load_dataset re db i of
                    Inl e \<Rightarrow> (Inl e, m)
                  | Inr di \<Rightarrow> (Inr di, AList.update i (now, di) m))
      in case map_of m i of
           None \<Rightarrow> load
         | Some (loadedAt, di) \<Rightarrow> if t_sub now loadedAt < ttl then (Inr di, m) else load)"

section \<open>The context of a submission\<close>

record effects =
  efJobs :: "Item list"
  efEvents :: "Event list"
  efRanking :: "RankingUpdate list"
  efSkips :: "Skip list"

definition no_effects :: effects where
  "no_effects = \<lparr>efJobs = [], efEvents = [], efRanking = [], efSkips = []\<rparr>"

definition add_event :: "Event \<Rightarrow> effects \<Rightarrow> effects" where
  "add_event e eff = eff\<lparr>efEvents := efEvents eff @ [e]\<rparr>"

definition add_jobs :: "Item list \<Rightarrow> effects \<Rightarrow> effects" where
  "add_jobs js eff = eff\<lparr>efJobs := efJobs eff @ js\<rparr>"

text \<open>
  What the dispatcher is given: the regular expressions of the score types, the languages,
  the hash and encoding of compile keys, the clock, and its options.
\<close>

record Options_disp =
  opMaxAttempts :: int
  opTestcasesPerJob :: int

definition defaults :: "Options_disp \<Rightarrow> Options_disp" where
  "defaults op = \<lparr>opMaxAttempts = (if opMaxAttempts op \<le> 0 then 3 else opMaxAttempts op),
     opTestcasesPerJob = (if opTestcasesPerJob op \<le> 0 then 1 else opTestcasesPerJob op)\<rparr>"

record Dispatcher =
  dpRegexp :: regexp
  dpLangs :: Registry
  dpSha256 :: "string \<Rightarrow> string"
  dpMarshal :: "Language \<Rightarrow> string"
  dpOpts :: Options_disp
  dpNow :: time

definition newJobID :: "Dispatcher \<Rightarrow> string \<Rightarrow> int \<Rightarrow> int \<Rightarrow> int \<Rightarrow> string \<Rightarrow> string" where
  "newJobID dp knd tgt dataset gen extra =
     knd @ ''-'' @ Itoa tgt @ ''-'' @ Itoa dataset @ ''-g'' @ Itoa gen @ extra @ ''-'' @ Itoa (dpNow dp)"

definition resolveFiles :: "(string \<times> string) list \<Rightarrow> string \<Rightarrow> File list" where
  "resolveFiles files ext =
     map (\<lambda>(n, d). \<lparr>fiName = (if ext \<noteq> [] then ReplaceAll n ''.%l'' ext else n), fiDigest = d, fiSize = 0\<rparr>) files"

record submissionCtx =
  scMeta :: Meta
  scDi :: datasetInfo
  scFiles :: "File list"
  scJob :: Job

definition template_job :: "int \<Rightarrow> int \<Rightarrow> datasetInfo \<Rightarrow> Language option \<Rightarrow> File list \<Rightarrow> Job" where
  "template_job s d di lang files =
     \<lparr>jbID = [], jbKind = [], jbAttempt = 0, jbPriority = 0, jbSubmissionID = s, jbUserTestID = 0, jbDatasetID = d,
      jbGeneration = 0, jbTaskType = dtTaskType (diDs di), jbTaskTypeParams = dtTaskTypeParams (diDs di),
      jbLanguage = lang, jbFiles = files, jbManagers = diManagers di, jbExecutables = [],
      jbLimits = ForLanguage (limits di) lang, jbTestcases = [], jbInput = []\<rparr>"

definition submission_ctx :: "int \<Rightarrow> int \<Rightarrow> DB \<Rightarrow> Meta \<Rightarrow> datasetInfo \<Rightarrow> Language option \<Rightarrow> submissionCtx" where
  "submission_ctx s d db meta di lang =
     (let files = resolveFiles (ListSubmissionFiles db s) (case lang of None \<Rightarrow> [] | Some l \<Rightarrow> SourceExtension l)
      in \<lparr>scMeta = meta, scDi = di, scFiles = files, scJob = template_job s d di lang files\<rparr>)"

definition loadSubmission :: "Dispatcher \<Rightarrow> DB \<Rightarrow> datasetCache \<Rightarrow> int \<Rightarrow> int \<Rightarrow>
    (load_error, submissionCtx) result \<times> datasetCache" where
  "loadSubmission dp db m s d =
     (case GetSubmissionMeta db s of
        None \<Rightarrow> (Inl NoSubmission, m)
      | Some meta \<Rightarrow>
          (case cache_get (dpRegexp dp) (30 * second) (dpNow dp) db m d of
             (Inl e, m') \<Rightarrow> (Inl e, m')
           | (Inr di, m') \<Rightarrow>
               (case mtLanguage meta of
                  None \<Rightarrow> (Inr (submission_ctx s d db meta di None), m')
                | Some i \<Rightarrow>
                    (case Get (dpLangs dp) i of
                       None \<Rightarrow> (Inl (NoLanguage i), m')
                     | Some l \<Rightarrow> (Inr (submission_ctx s d db meta di (Some l)), m')))))"

definition priority :: "submissionCtx \<Rightarrow> Priority \<Rightarrow> bool \<Rightarrow> Priority" where
  "priority sc normal rejudge =
     (if mtTester (scMeta sc) then PriorityUserTest
      else if \<not> live (scDi sc) \<or> rejudge then PriorityBackground else normal)"

definition event :: "submissionCtx \<Rightarrow> string \<Rightarrow> Event" where
  "event sc status =
     (let m = scMeta sc; e = no_event\<lparr>eType := TypeSubmission, eTaskID := mtTaskID m, eSubmissionID := mtID m, eStatus := status\<rparr>
      in if mtTester m then e else e\<lparr>eContestID := mtContestID m, eParticipationID := mtParticipationID m\<rparr>)"

definition compileJob :: "Dispatcher \<Rightarrow> submissionCtx \<Rightarrow> int \<Rightarrow> int \<Rightarrow> Priority \<Rightarrow> Item" where
  "compileJob dp sc gen attempt prio =
     \<lparr>itPriority = prio,
      itJob = (scJob sc)\<lparr>jbID := newJobID dp KindCompile (mtID (scMeta sc)) (dtID (diDs (scDi sc))) gen [],
        jbKind := KindCompile, jbGeneration := gen, jbAttempt := attempt, jbPriority := prio\<rparr>\<rparr>"

definition evaluate_job :: "Dispatcher \<Rightarrow> submissionCtx \<Rightarrow> int \<Rightarrow> int \<Rightarrow> Priority \<Rightarrow> File list \<Rightarrow> JobTestcase list \<Rightarrow> Item" where
  "evaluate_job dp sc gen attempt prio exes tcs =
     \<lparr>itPriority = prio,
      itJob = (scJob sc)\<lparr>jbID := newJobID dp KindEvaluate (mtID (scMeta sc)) (dtID (diDs (scDi sc))) gen (''-'' @ jtCodename (hd tcs)),
        jbKind := KindEvaluate, jbGeneration := gen, jbAttempt := attempt, jbPriority := prio,
        jbExecutables := exes, jbTestcases := tcs\<rparr>\<rparr>"

text \<open>The loop over \<^verbatim>\<open>i += perJob\<close>; the options make \<open>perJob\<close> positive.\<close>

function chunks :: "nat \<Rightarrow> 'a list \<Rightarrow> 'a list list" where
  "chunks n xs = (if xs = [] \<or> n = 0 then [] else take n xs # chunks n (drop n xs))"
  by pat_completeness auto
termination by (relation "measure (\<lambda>(n, xs). length xs)") auto

declare chunks.simps [simp del]

definition evaluateJobs :: "Dispatcher \<Rightarrow> submissionCtx \<Rightarrow> int \<Rightarrow> int \<Rightarrow> Priority \<Rightarrow> File list \<Rightarrow> int list \<Rightarrow> int \<Rightarrow> Item list" where
  "evaluateJobs dp sc gen attempt prio exes ids perJob =
     map (evaluate_job dp sc gen attempt prio exes) (chunks (nat perJob) (jobTestcases (scDi sc) ids))"

section \<open>Scores\<close>

text \<open>A handler's state inside its transaction: the tables and the collected effects.\<close>

type_synonym tx = "DB \<times> effects"

definition MsgSkipped :: string where
  "MsgSkipped = ''Skipped: another testcase of the subtask failed''"

definition systemError :: "int \<Rightarrow> int \<Rightarrow> submissionCtx option \<Rightarrow> string \<Rightarrow> tx \<Rightarrow> tx" where
  "systemError s d sc msg = (\<lambda>(db, eff).
     (let alert = no_event\<lparr>eType := TypeAlert, eSubmissionID := s, eText := msg\<rparr>
      in (SetSubmissionSystemError s d msg db,
          (case sc of
             None \<Rightarrow> add_event alert eff
           | Some c \<Rightarrow> add_event (alert\<lparr>eContestID := mtContestID (scMeta c)\<rparr>) (add_event (event c ''error'') eff)))))"

definition counted :: "SubmissionT \<times> SubmissionResult option \<Rightarrow> Submission" where
  "counted = (\<lambda>(s, r).
     \<lparr>subID = smID s, subTime = smSubmittedAt s, subOfficial = smOfficial s, subTokened = smTokened s,
      subScored = (case r of None \<Rightarrow> False | Some x \<Rightarrow> srScoredAt x \<noteq> None),
      subCompileError = (case r of None \<Rightarrow> False | Some x \<Rightarrow> srCompilation x = Some ''fail''),
      subScore = (case Option.bind r srScore of None \<Rightarrow> 0 | Some v \<Rightarrow> v),
      subSubtasks = (case Option.bind r srRanking of None \<Rightarrow> [] | Some vs \<Rightarrow> vs)\<rparr>)"

fun iface_MaxScore :: "score_iface \<Rightarrow> f64 option" where
  "iface_MaxScore NilInterface = Some 0"
| "iface_MaxScore (HasType st) = Some (MaxScore st)"
| "iface_MaxScore _ = None"

definition aggregate :: "time \<Rightarrow> int \<Rightarrow> datasetInfo \<Rightarrow> DB \<Rightarrow> (DB \<times> RankingUpdate) option" where
  "aggregate now p di db =
     (let t = tkID (diTask di);
          subs = map counted (ListTaskSubmissionsForScore db (dtID (diDs di)) p t);
          ts = Aggregate (tkScoreMode (diTask di)) subs (tkScorePrecision (diTask di))
      in case iface_MaxScore (diScoreType di) of
           None \<Rightarrow> None
         | Some mx \<Rightarrow>
             (let ic = ICPC subs mx; (db', score) = UpsertParticipationTaskScore p t ts ic db
              in Some (db', \<lparr>ruContestID = coalesce (tkContestID (diTask di)) None, ruParticipationID = p, ruTaskID = t,
                   ruScore = score, ruSubtasks = taSubtasks ts, ruPending = taPending ts, ruICPCSolved = icSolved ic,
                   ruICPCAttempts = icAttempts ic, ruICPCSolvedAt = icSolvedAt ic, ruTime = now\<rparr>)))"

definition aggregateIfLive :: "time \<Rightarrow> submissionCtx \<Rightarrow> tx \<Rightarrow> tx option" where
  "aggregateIfLive now sc = (\<lambda>(db, eff).
     (let m = scMeta sc
      in if \<not> live (scDi sc) \<or> mtTester m then Some (db, eff)
         else (case aggregate now (mtParticipationID m) (scDi sc) db of
                 None \<Rightarrow> None
               | Some (db', up) \<Rightarrow>
                   (let eff' = eff\<lparr>efRanking := efRanking eff @ [up\<lparr>ruTime := mtSubmittedAt m\<rparr>]\<rparr>
                    in Some (db', if ruICPCSolved up \<and> ruICPCSolvedAt up = Some (mtSubmittedAt m)
                         then add_event (no_event\<lparr>eType := TypeBalloon, eContestID := mtContestID m,
                                eParticipationID := mtParticipationID m, eTaskID := mtTaskID m, eSubmissionID := mtID m\<rparr>) eff'
                         else eff')))))"

definition scoreCompilationFailure :: "time \<Rightarrow> submissionCtx \<Rightarrow> tx \<Rightarrow> tx option" where
  "scoreCompilationFailure now sc = (\<lambda>(db, eff).
     aggregateIfLive now sc (SetCompilationFailedScore now (mtID (scMeta sc)) (dtID (diDs (scDi sc))) db,
       add_event (event sc ''compilation_failed'') eff))"

definition scored_testcase :: "TestcaseT \<times> EvaluationT \<Rightarrow> Testcase" where
  "scored_testcase = (\<lambda>(t, e).
     \<lparr>tcID = teID t, tcCodename = teCodename t, tcPublic = tePublic t, tcEvaluated = True, tcOutcome = erOutcome e,
      tcText = erText e, tcTime = (case erTime e of None \<Rightarrow> 0 | Some v \<Rightarrow> v),
      tcMemory = (case erMemory e of None \<Rightarrow> 0 | Some v \<Rightarrow> v), tcExitStatus = erExitStatus e\<rparr>)"

text \<open>\<open>txt\<close> renders an error of the score type.\<close>

definition scoreResult :: "(score_error \<Rightarrow> string) \<Rightarrow> time \<Rightarrow> submissionCtx \<Rightarrow> tx \<Rightarrow> tx option" where
  "scoreResult txt now sc = (\<lambda>(db, eff).
     (let s = mtID (scMeta sc); d = dtID (diDs (scDi sc))
      in case diScoreTypeErr (scDi sc) of
           Some e \<Rightarrow> Some (systemError s d (Some sc) (''invalid score type parameters: '' @ txt e) (db, eff))
         | None \<Rightarrow>
             (case diScoreType (scDi sc) of
                HasType st \<Rightarrow>
                  (let res = Compute_score st (map scored_testcase (ListEvaluationsWithTestcase db s d));
                       verdict = ICPCVerdict (ResDetails res) (Score res) (MaxScore st)
                   in aggregateIfLive now sc (SetScore now s d res verdict db, add_event (event sc ''scored'') eff))
              | _ \<Rightarrow> None)))"

section \<open>Results of jobs\<close>

definition cacheWorker :: string where "cacheWorker = ''cache''"

definition cachedCompilation :: "Dispatcher \<Rightarrow> Job \<Rightarrow> DB \<Rightarrow> DB \<times> Compilation option" where
  "cachedCompilation dp job db =
     (let key = CompileKey (dpSha256 dp) (dpMarshal dp) job
      in if key = [] then (db, None)
         else case GetCompilationCache db key of
                None \<Rightarrow> (db, None)
              | Some c \<Rightarrow>
                  (let files = ListCompilationCacheFiles db key
                   in if files = [] then (db, None)
                      else (UseCompilationCache key db,
                            Some \<lparr>coSuccess = True, coText = ccText c, coStdout = ccStdout c, coStderr = ccStderr c,
                                  coTime = ccTime c, coWallTime = ccWallTime c, coMemory = ccMemory c,
                                  coExecutables = files, coSecurity = False\<rparr>)))"

definition rememberCompilation :: "Dispatcher \<Rightarrow> Job \<Rightarrow> Compilation \<Rightarrow> DB \<Rightarrow> DB" where
  "rememberCompilation dp job c db =
     (let key = CompileKey (dpSha256 dp) (dpMarshal dp) job
      in if key = [] \<or> \<not> coSuccess c \<or> coExecutables c = [] then db
         else (let (db', new) = InsertCompilationCache key c db
               in if new then foldl (\<lambda>db f. InsertCompilationCacheFile key f db) db' (coExecutables c) else db'))"

definition store_executable :: "int \<Rightarrow> int \<Rightarrow> DB \<Rightarrow> File \<Rightarrow> DB" where
  "store_executable s d db e =
     InsertExecutable s d (fiName e) (fiDigest e) (RegisterBlob (fiDigest e) (fiSize e) ''executable'' db)"

definition flag_forbidden :: "int \<Rightarrow> string \<Rightarrow> DB \<Rightarrow> DB" where
  "flag_forbidden s det = InsertSubmissionFlag s ''runtime'' ''forbidden system call'' det"

definition start_evaluation :: "Dispatcher \<Rightarrow> (score_error \<Rightarrow> string) \<Rightarrow> submissionCtx \<Rightarrow> int \<Rightarrow> Priority \<Rightarrow> File list \<Rightarrow> tx \<Rightarrow> tx option" where
  "start_evaluation dp txt sc gen resultPrio exes = (\<lambda>(db, eff).
     (let s = mtID (scMeta sc); d = dtID (diDs (scDi sc)); ids = map teID (diTestcases (scDi sc))
      in if ids = [] then scoreResult txt (dpNow dp) sc (SetEvaluationDone s d gen db, eff)
         else (let prio = priority sc PriorityEvaluate (resultPrio = PriorityBackground);
                   js = evaluateJobs dp sc gen 0 prio exes ids (opTestcasesPerJob (dpOpts dp))
               in Some (MarkJobsEnqueued (dpNow dp) s d db,
                        add_event ((event sc ''evaluating'')\<lparr>eTotal := int (length ids)\<rparr>) (add_jobs js eff)))))"

definition record_compilation :: "submissionCtx \<Rightarrow> int \<Rightarrow> JobResult \<Rightarrow> Compilation \<Rightarrow> DB \<Rightarrow> DB" where
  "record_compilation sc gen r c db =
     (let s = mtID (scMeta sc); d = dtID (diDs (scDi sc));
          db1 = SetCompilationResult s d (if coSuccess c then ''ok'' else ''fail'') c (reWorker r) (length (diTestcases (scDi sc))) gen db
      in if coSecurity c then flag_forbidden s ''compilation'' db1 else db1)"

definition keep_executables :: "Dispatcher \<Rightarrow> submissionCtx \<Rightarrow> JobResult \<Rightarrow> Compilation \<Rightarrow> DB \<Rightarrow> DB" where
  "keep_executables dp sc r c db =
     foldl (store_executable (mtID (scMeta sc)) (dtID (diDs (scDi sc))))
       (if reWorker r \<noteq> cacheWorker then rememberCompilation dp (scJob sc) c db else db) (coExecutables c)"

definition applyCompilation :: "Dispatcher \<Rightarrow> (score_error \<Rightarrow> string) \<Rightarrow> submissionCtx \<Rightarrow> int \<Rightarrow> JobResult \<Rightarrow> Compilation \<Rightarrow> tx \<Rightarrow> tx option" where
  "applyCompilation dp txt sc gen r c = (\<lambda>(db, eff).
     (let db1 = record_compilation sc gen r c db
      in if \<not> coSuccess c then scoreCompilationFailure (dpNow dp) sc (db1, eff)
         else start_evaluation dp txt sc gen (rePriority r) (coExecutables c) (keep_executables dp sc r c db1, eff)))"

definition non_zero :: "int \<Rightarrow> int option" where
  "non_zero v = (if v \<noteq> 0 then Some v else None)"

definition evaluation_row :: "string \<Rightarrow> Evaluation \<Rightarrow> EvaluationT" where
  "evaluation_row worker e = \<lparr>erOutcome = evOutcome e, erText = evText e, erTime = Some (evTime e), erWallTime = Some (evWallTime e),
     erMemory = Some (evMemory e), erExitStatus = evExitStatus e, erExitCode = non_zero (evExitCode e), erSignal = non_zero (evSignal e),
     erWorker = worker\<rparr>"

definition store_evaluation :: "submissionCtx \<Rightarrow> string \<Rightarrow> DB \<Rightarrow> Evaluation \<Rightarrow> DB" where
  "store_evaluation sc worker db e =
     (let s = mtID (scMeta sc); d = dtID (diDs (scDi sc))
      in case byID (scDi sc) (evTestcaseID e) of
           None \<Rightarrow> db
         | Some t \<Rightarrow>
             (let db' = UpsertEvaluation s d (evTestcaseID e) (evaluation_row worker e) db
              in if evExitStatus e = ''security'' then flag_forbidden s (''testcase '' @ teCodename t) db' else db'))"

definition skipped_row :: EvaluationT where
  "skipped_row = \<lparr>erOutcome = 0, erText = MsgSkipped, erTime = None, erWallTime = None, erMemory = None,
     erExitStatus = StatusSkipped, erExitCode = None, erSignal = None, erWorker = ''short-circuit''\<rparr>"

definition known_outcomes :: "submissionCtx \<Rightarrow> DB \<Rightarrow> (string \<rightharpoonup> f64)" where
  "known_outcomes sc db =
     go_map (concat (map (\<lambda>(i, e). case byID (scDi sc) i of None \<Rightarrow> [] | Some t \<Rightarrow> [(teCodename t, erOutcome e)])
       (ListEvaluations db (mtID (scMeta sc)) (dtID (diDs (scDi sc))))))"

definition skipped_ids :: "datasetInfo \<Rightarrow> string list \<Rightarrow> int list" where
  "skipped_ids di names =
     (let byName = go_map (map (\<lambda>t. (teCodename t, teID t)) (diTestcases di))
      in concat (map (\<lambda>n. case byName n of None \<Rightarrow> [] | Some i \<Rightarrow> [i]) names))"

definition skip_testcases :: "submissionCtx \<Rightarrow> int \<Rightarrow> string list \<Rightarrow> tx \<Rightarrow> tx" where
  "skip_testcases sc gen names = (\<lambda>(db, eff).
     (let s = mtID (scMeta sc); d = dtID (diDs (scDi sc)); ids = skipped_ids (scDi sc) names
      in (foldl (\<lambda>db i. UpsertEvaluation s d i skipped_row db) db ids,
          eff\<lparr>efSkips := efSkips eff @ [\<lparr>skSubmissionID = s, skDatasetID = d, skGeneration = gen, skTestcases = ids\<rparr>]\<rparr>)))"

definition shortCircuit :: "submissionCtx \<Rightarrow> int \<Rightarrow> tx \<Rightarrow> tx option" where
  "shortCircuit sc gen = (\<lambda>(db, eff).
     (case diScoreType (scDi sc) of
        HasType (GroupType g) \<Rightarrow>
          (let names = Skippable g (known_outcomes sc db)
           in if names = [] then Some (db, eff) else Some (skip_testcases sc gen names (db, eff)))
      | NilGroup \<Rightarrow> None
      | _ \<Rightarrow> Some (db, eff)))"

text \<open>The caller holds the lock of the row, so it exists; without it nothing would be scored.\<close>

definition finish_evaluation :: "(score_error \<Rightarrow> string) \<Rightarrow> time \<Rightarrow> submissionCtx \<Rightarrow> int \<Rightarrow> tx \<Rightarrow> tx option" where
  "finish_evaluation txt now sc gen = (\<lambda>(db, eff).
     (let s = mtID (scMeta sc); d = dtID (diDs (scDi sc)); db1 = RefreshTestcasesDone s d db
      in case LockSubmissionResult db1 s d of
           None \<Rightarrow> Some (db1, eff)
         | Some st \<Rightarrow>
             if srDone st < srTotal st
             then Some (db1, add_event ((event sc ''evaluating'')\<lparr>eDone := int (srDone st), eTotal := int (srTotal st)\<rparr>) eff)
             else scoreResult txt now sc (SetEvaluationDone s d gen db1, eff)))"

definition applyEvaluations :: "Dispatcher \<Rightarrow> (score_error \<Rightarrow> string) \<Rightarrow> submissionCtx \<Rightarrow> int \<Rightarrow> JobResult \<Rightarrow> tx \<Rightarrow> tx option" where
  "applyEvaluations dp txt sc gen r = (\<lambda>(db, eff).
     (let db1 = foldl (store_evaluation sc (reWorker r)) db (reEvaluations r)
      in case (if dtShortCircuit (diDs (scDi sc)) then shortCircuit sc gen (db1, eff) else Some (db1, eff)) of
           None \<Rightarrow> None
         | Some t \<Rightarrow> finish_evaluation txt (dpNow dp) sc gen t))"

definition stored_executables :: "DB \<Rightarrow> int \<Rightarrow> int \<Rightarrow> File list" where
  "stored_executables db s d = map (\<lambda>(n, dg). \<lparr>fiName = n, fiDigest = dg, fiSize = 0\<rparr>) (ListExecutables db s d)"

definition retryOrFail :: "Dispatcher \<Rightarrow> submissionCtx \<Rightarrow> int \<Rightarrow> JobResult \<Rightarrow> tx \<Rightarrow> tx" where
  "retryOrFail dp sc gen r = (\<lambda>(db, eff).
     (let s = mtID (scMeta sc); d = dtID (diDs (scDi sc)); attempt = reAttempt r + 1;
          rejudge = (rePriority r = PriorityBackground)
      in if opMaxAttempts (dpOpts dp) \<le> attempt
         then systemError s d (Some sc) (reKind r @ '' job failed '' @ Itoa attempt @ '' times (last worker '' @ reWorker r @ ''): '' @ reError r) (db, eff)
         else (let js = (if reKind r = KindCompile then [compileJob dp sc gen attempt (priority sc PriorityCompile rejudge)]
                         else if reKind r = KindEvaluate
                         then evaluateJobs dp sc gen attempt (priority sc PriorityEvaluate rejudge) (stored_executables db s d)
                                (reTestcases r) (opTestcasesPerJob (dpOpts dp))
                         else [])
               in (MarkJobsEnqueued (dpNow dp) s d db, add_jobs js eff))))"

text \<open>How a transaction ends: rolled back as stale, refused with an error, ended by a panic, or committed.\<close>

datatype tx_result = Stale | Refused string | Panicked | Committed DB effects

definition commit :: "tx option \<Rightarrow> tx_result" where
  "commit t = (case t of None \<Rightarrow> Panicked | Some (db, eff) \<Rightarrow> Committed db eff)"

text \<open>\<open>etxt\<close> renders an error of \<open>loadSubmission\<close>.\<close>

definition handle_loaded :: "Dispatcher \<Rightarrow> (score_error \<Rightarrow> string) \<Rightarrow> DB \<Rightarrow> SubmissionResult \<Rightarrow> submissionCtx \<Rightarrow> JobResult \<Rightarrow> tx_result" where
  "handle_loaded dp txt db st sc r =
     (if reError r \<noteq> [] then commit (Some (retryOrFail dp sc (srGeneration st) r (db, no_effects)))
      else if reKind r = KindCompile then
        (case (srCompilation st, reCompilation r) of
           (None, Some c) \<Rightarrow> commit (applyCompilation dp txt sc (srGeneration st) r c (db, no_effects))
         | _ \<Rightarrow> Stale)
      else if reKind r = KindEvaluate then
        (if srCompilation st \<noteq> Some ''ok'' \<or> srEvaluation st \<noteq> None then Stale
         else commit (applyEvaluations dp txt sc (srGeneration st) r (db, no_effects)))
      else Refused (''unexpected result kind '' @ reKind r))"

definition handleSubmissionResult :: "Dispatcher \<Rightarrow> (load_error \<Rightarrow> string) \<Rightarrow> (score_error \<Rightarrow> string) \<Rightarrow> datasetCache \<Rightarrow> DB \<Rightarrow> JobResult \<Rightarrow>
    tx_result \<times> datasetCache" where
  "handleSubmissionResult dp etxt txt m db r =
     (let s = reSubmissionID r; d = reDatasetID r
      in case LockSubmissionResult db s d of
           None \<Rightarrow> (Stale, m)
         | Some st \<Rightarrow>
             if srGeneration st \<noteq> reGeneration r \<or> srScoredAt st \<noteq> None \<or> srSystemError st \<noteq> None then (Stale, m)
             else (case loadSubmission dp db m s d of
                     (Inl e, m') \<Rightarrow> (commit (Some (systemError s d None (etxt e) (db, no_effects))), m')
                   | (Inr sc, m') \<Rightarrow> (handle_loaded dp txt db st sc r, m')))"

section \<open>Progress of a result\<close>

definition cached_result :: "submissionCtx \<Rightarrow> SubmissionResult \<Rightarrow> bool \<Rightarrow> Compilation \<Rightarrow> JobResult" where
  "cached_result sc st rejudge c =
     \<lparr>reJobID = [], reKind = KindCompile, reAttempt = 0,
      rePriority = (if rejudge then PriorityBackground else priority sc PriorityCompile False), reWorker = cacheWorker,
      reSubmissionID = mtID (scMeta sc), reUserTestID = 0, reDatasetID = dtID (diDs (scDi sc)), reGeneration = srGeneration st,
      reTestcases = [], reCompilation = Some c, reEvaluations = [], reUserTest = None, reError = []\<rparr>"

definition advance_compile :: "Dispatcher \<Rightarrow> (score_error \<Rightarrow> string) \<Rightarrow> submissionCtx \<Rightarrow> SubmissionResult \<Rightarrow> bool \<Rightarrow> DB \<Rightarrow> tx option" where
  "advance_compile dp txt sc st rejudge db =
     (case cachedCompilation dp (scJob sc) db of
        (db1, Some c) \<Rightarrow> applyCompilation dp txt sc (srGeneration st) (cached_result sc st rejudge c) c (db1, no_effects)
      | (db1, None) \<Rightarrow>
          (let eff = add_event (event sc ''compiling'')
                (add_jobs [compileJob dp sc (srGeneration st) 0 (priority sc PriorityCompile rejudge)] no_effects)
           in if live (scDi sc) \<and> \<not> mtTester (scMeta sc)
              then map_option (\<lambda>(db2, up). (db2, eff)) (aggregate (dpNow dp) (mtParticipationID (scMeta sc)) (scDi sc) db1)
              else Some (db1, eff)))"

definition missing :: "submissionCtx \<Rightarrow> DB \<Rightarrow> int list" where
  "missing sc db =
     filter (\<lambda>i. i \<notin> set (ListEvaluatedTestcaseIDs db (mtID (scMeta sc)) (dtID (diDs (scDi sc))))) (map teID (diTestcases (scDi sc)))"

text \<open>The second component says whether the transaction goes on to \<^verbatim>\<open>MarkJobsEnqueued\<close>.\<close>

definition advance_evaluate :: "Dispatcher \<Rightarrow> (score_error \<Rightarrow> string) \<Rightarrow> submissionCtx \<Rightarrow> SubmissionResult \<Rightarrow> bool \<Rightarrow> DB \<Rightarrow> (tx \<times> bool) option" where
  "advance_evaluate dp txt sc st rejudge db =
     (let s = mtID (scMeta sc); d = dtID (diDs (scDi sc)); ids = missing sc db; exes = stored_executables db s d
      in if ids = [] then map_option (\<lambda>t. (t, False)) (scoreResult txt (dpNow dp) sc (SetEvaluationDone s d (srGeneration st) db, no_effects))
         else if exes = [] \<and> jbLanguage (scJob sc) \<noteq> None
         then Some ((InvalidateSubmissionResult ''compilation'' s d db, no_effects), False)
         else Some ((db, add_jobs (evaluateJobs dp sc (srGeneration st) 0 (priority sc PriorityEvaluate rejudge) exes ids
                           (opTestcasesPerJob (dpOpts dp))) no_effects), True))"

definition advance_loaded :: "Dispatcher \<Rightarrow> (score_error \<Rightarrow> string) \<Rightarrow> submissionCtx \<Rightarrow> SubmissionResult \<Rightarrow> bool \<Rightarrow> DB \<Rightarrow> tx option" where
  "advance_loaded dp txt sc st rejudge db =
     (let mark = (\<lambda>(db', eff). (MarkJobsEnqueued (dpNow dp) (mtID (scMeta sc)) (dtID (diDs (scDi sc))) db', eff))
      in if srCompilation st = None then map_option mark (advance_compile dp txt sc st rejudge db)
         else if srCompilation st = Some ''fail'' then scoreCompilationFailure (dpNow dp) sc (db, no_effects)
         else if srEvaluation st = None
         then map_option (\<lambda>(t, go). if go then mark t else t) (advance_evaluate dp txt sc st rejudge db)
         else scoreResult txt (dpNow dp) sc (db, no_effects))"

definition advance :: "Dispatcher \<Rightarrow> (load_error \<Rightarrow> string) \<Rightarrow> (score_error \<Rightarrow> string) \<Rightarrow> datasetCache \<Rightarrow> int \<Rightarrow> int \<Rightarrow> bool \<Rightarrow> DB \<Rightarrow>
    tx_result \<times> datasetCache" where
  "advance dp etxt txt m s d rejudge db0 =
     (let db = EnsureSubmissionResult s d db0
      in case LockSubmissionResult db s d of
           None \<Rightarrow> (Stale, m)
         | Some st \<Rightarrow>
             if srScoredAt st \<noteq> None \<or> srSystemError st \<noteq> None then (Committed db no_effects, m)
             else (case loadSubmission dp db m s d of
                     (Inl e, m') \<Rightarrow> (commit (Some (systemError s d None (etxt e) (db, no_effects))), m')
                   | (Inr sc, m') \<Rightarrow> (commit (advance_loaded dp txt sc st rejudge db), m')))"

section \<open>Reevaluation\<close>

definition Recompile :: string where "Recompile = ''compilation''"
definition Reevaluate :: string where "Reevaluate = ''evaluation''"
definition Rescore :: string where "Rescore = ''score''"

definition ascii_lower :: "string \<Rightarrow> string" where
  "ascii_lower = map lower"

definition ParseLevel :: "string \<Rightarrow> string option" where
  "ParseLevel s =
     (let l = ascii_lower s
      in if l \<in> {''recompile'', ''compilation'', ''compile''} then Some Recompile
         else if l \<in> {''reevaluate'', ''evaluation'', ''evaluate''} then Some Reevaluate
         else if l \<in> {''rescore'', ''score''} then Some Rescore
         else None)"

record Scope =
  soContestID :: int
  soTaskID :: int
  soDatasetID :: int
  soParticipationID :: int
  soUserID :: int
  soSubmissionID :: int

definition empty_scope :: "Scope \<Rightarrow> bool" where
  "empty_scope so \<longleftrightarrow> soContestID so = 0 \<and> soTaskID so = 0 \<and> soDatasetID so = 0 \<and> soParticipationID so = 0
     \<and> soUserID so = 0 \<and> soSubmissionID so = 0"

text \<open>\<open>userOf\<close> gives the user of a participation; \<open>keys\<close> are the pairs of the result table in submission order.\<close>

definition in_scope :: "(int \<Rightarrow> int) \<Rightarrow> DB \<Rightarrow> Scope \<Rightarrow> int \<times> int \<Rightarrow> bool" where
  "in_scope userOf db so k =
     (case GetSubmission db (fst k) of
        None \<Rightarrow> False
      | Some s \<Rightarrow>
          (case (GetTask db (smTaskID s), smParticipationID s) of
             (Some t, Some p) \<Rightarrow>
               (soContestID so \<noteq> 0 \<longrightarrow> tkContestID t = Some (soContestID so)) \<and> (soTaskID so \<noteq> 0 \<longrightarrow> smTaskID s = soTaskID so)
               \<and> (soDatasetID so \<noteq> 0 \<longrightarrow> snd k = soDatasetID so) \<and> (soParticipationID so \<noteq> 0 \<longrightarrow> p = soParticipationID so)
               \<and> (soUserID so \<noteq> 0 \<longrightarrow> userOf p = soUserID so) \<and> (soSubmissionID so \<noteq> 0 \<longrightarrow> smID s = soSubmissionID so)
           | _ \<Rightarrow> False))"

definition invalidate_one :: "string \<Rightarrow> DB \<Rightarrow> int \<times> int \<Rightarrow> DB" where
  "invalidate_one level db = (\<lambda>(s, d).
     (let db1 = InvalidateSubmissionResult level s d db;
          db2 = (if level = Recompile \<or> level = Reevaluate then DeleteEvaluations s d db1 else db1)
      in if level = Recompile then DeleteExecutables s d db2 else db2))"

definition Invalidate :: "(int \<Rightarrow> int) \<Rightarrow> (int \<times> int) list \<Rightarrow> Scope \<Rightarrow> string \<Rightarrow> DB \<Rightarrow> (string, DB \<times> nat) result" where
  "Invalidate userOf keys so level db =
     (if empty_scope so then Inl ''empty reevaluation scope''
      else (let ks = filter (in_scope userOf db so) keys;
                db1 = (if level = Recompile \<and> ks \<noteq> [] then ClearCompilationCache db else db)
            in Inr (foldl (invalidate_one level) db1 ks, length ks)))"

end
