(* ===== verification/Judging_Correct.thy ===== *)
theory Judging_Correct
  imports Judging
begin

text \<open>
  Correctness of the judging: whatever the order in which job results arrive, however often
  they are delivered, whichever testcases the short-circuit skips and whenever the sweeper
  or an administrator intervenes, a scored submission has the score of its judged outcomes.
\<close>

section \<open>Testcases that cannot change a score\<close>

text \<open>\<open>J\<close> gives the outcome of each testcase, by codename.\<close>

definition irrelevant :: "ScoreType \<Rightarrow> (string \<Rightarrow> f64) \<Rightarrow> string \<Rightarrow> bool" where
  "irrelevant st J c \<longleftrightarrow>
     (case st of
        SumType _ \<Rightarrow> False
      | GroupType g \<Rightarrow> kind g \<in> {''GroupMin'', ''GroupMul''}
          \<and> (\<forall>sd \<in> set (subtasks g). (\<exists>k \<in> set (grpMembers sd). codename (grpDefs g ! k) = c) \<longrightarrow> dead g (\<lambda>c. Some (J c)) sd))"

definition faithful :: "ScoreType \<Rightarrow> (string \<Rightarrow> f64) \<Rightarrow> string \<Rightarrow> f64 \<Rightarrow> bool" where
  "faithful st J c v \<longleftrightarrow> v = J c \<or> v = 0 \<and> irrelevant st J c"

lemma faithful_dead:
  assumes "dead g known sd" "sd \<in> set (subtasks g)"
    and "\<And>c v. known c = Some v \<Longrightarrow> faithful (GroupType g) J c v"
  shows "dead g (\<lambda>c. Some (J c)) sd"
proof -
  from assms(1) obtain k v where k: "k \<in> set (grpMembers sd)" "known (codename (grpDefs g ! k)) = Some v" "clamp01 v = 0"
    by (auto simp: dead_def list_ex_iff split: option.splits)
  from assms(3) [OF k(2)] show ?thesis
  proof (cases "v = J (codename (grpDefs g ! k))")
    case True
    with k show ?thesis by (auto simp: dead_def list_ex_iff)
  next
    case False
    with assms(3) [OF k(2)] k(1) assms(2) show ?thesis by (auto simp: faithful_def irrelevant_def)
  qed
qed

lemma dead_faithful:
  assumes "dead g (\<lambda>c. Some (J c)) sd" "\<And>c. faithful (GroupType g) J c (f c)"
  shows "dead g (\<lambda>c. Some (f c)) sd"
proof -
  from assms(1) obtain k where k: "k \<in> set (grpMembers sd)" "clamp01 (J (codename (grpDefs g ! k))) = 0"
    by (auto simp: dead_def list_ex_iff)
  then have "clamp01 (f (codename (grpDefs g ! k))) = 0" using assms(2) [of "codename (grpDefs g ! k)"] by (auto simp: faithful_def)
  with k(1) show ?thesis by (auto simp: dead_def list_ex_iff)
qed

lemma faithful_subtask:
  assumes "sd \<in> set (subtasks g)" "\<And>c. faithful (GroupType g) J c (outcome_at b c)"
    and "\<And>c. outcome_at b' c = J c"
  shows "subtask_score g b sd = subtask_score g b' sd"
proof (cases "\<exists>k \<in> set (grpMembers sd). outcome_at b (codename (grpDefs g ! k)) \<noteq> J (codename (grpDefs g ! k))")
  case True
  then obtain k where k: "k \<in> set (grpMembers sd)" "irrelevant (GroupType g) J (codename (grpDefs g ! k))"
    using assms(2) by (auto simp: faithful_def)
  then have d: "dead g (\<lambda>c. Some (J c)) sd" and kd: "kind g \<in> {''GroupMin'', ''GroupMul''}"
    using assms(1) by (auto simp: irrelevant_def)
  have "fraction g sd (outcomes_of g (outcome_at b) sd) = 0"
    by (rule dead_fraction [OF dead_faithful [OF d assms(2)] kd]) simp
  moreover have "fraction g sd (outcomes_of g (outcome_at b') sd) = 0"
    by (rule dead_fraction [OF d kd]) (simp add: assms(3))
  ultimately show ?thesis by (simp add: subtask_score_outcome)
next
  case False
  then have "outcomes_of g (outcome_at b) sd = outcomes_of g (outcome_at b') sd"
    using assms(3) by (auto simp: outcomes_of_def)
  then show ?thesis by (simp add: subtask_score_outcome)
qed

definition same_scores :: "Result \<Rightarrow> Result \<Rightarrow> bool" where
  "same_scores a b \<longleftrightarrow> Score a = Score b \<and> PublicScore a = PublicScore b \<and> RankingDetails a = RankingDetails b"

lemma faithful_scores:
  assumes f: "\<And>c. faithful st J c (outcome_at (index tcs) c)" and j: "\<And>c. outcome_at (index tcs') c = J c"
  shows "same_scores (Compute_score st tcs) (Compute_score st tcs')"
proof (cases st)
  case (SumType s)
  then have "outcome_at (index tcs) c = outcome_at (index tcs') c" for c
    using f [of c] j by (auto simp: faithful_def irrelevant_def)
  then have "sum_points s (index tcs) = sum_points s (index tcs')" by (auto simp: sum_points_outcome)
  then show ?thesis using SumType by (simp add: same_scores_def sum_Compute_def Let_def)
next
  case (GroupType g)
  have "map (subtask_score g (index tcs)) sds = map (subtask_score g (index tcs')) sds" if "set sds \<subseteq> set (subtasks g)" for sds
    using faithful_subtask [of _ g J "index tcs" "index tcs'"] f j GroupType that by auto
  from this [of "subtasks g"] this [of "filter grpPublic (subtasks g)"] show ?thesis using GroupType
    by (simp add: same_scores_def Score_group PublicScore_group RankingDetails_group del: map_eq_conv)
qed

section \<open>What the statements leave alone\<close>

definition static :: "DB \<Rightarrow> SubmissionT list \<times> (int \<times> int) list \<times> TaskT list \<times> Dataset list \<times> TestcaseT list \<times> (int \<times> string \<times> string) list" where
  "static db = (dbSubmissions db, dbParticipations db, dbTasks db, dbDatasets db, dbTestcases db, dbManagers db)"

lemma dbResults_update [simp]:
  "dbResults (update_result f s d db) = (dbResults db)((s, d) := map_option f (dbResults db (s, d)))"
  by (auto simp: update_result_def fun_eq_iff split: option.splits)

lemma static_update [simp]: "static (update_result f s d db) = static db"
  by (auto simp: update_result_def static_def split: option.splits)

lemmas result_statements = SetCompilationResult_def InsertExecutable_def MarkJobsEnqueued_def UpsertEvaluation_def
  RefreshTestcasesDone_def SetEvaluationDone_def SetSubmissionSystemError_def SetCompilationFailedScore_def SetScore_def
  InvalidateSubmissionResult_def DeleteEvaluations_def DeleteExecutables_def

lemma other_statements [simp]:
  "static (RegisterBlob x y z db) = static db" "dbResults (RegisterBlob x y z db) = dbResults db"
  "static (InsertSubmissionFlag i k rs dt db) = static db" "dbResults (InsertSubmissionFlag i k rs dt db) = dbResults db"
  "static (UseCompilationCache key db) = static db" "dbResults (UseCompilationCache key db) = dbResults db"
  "static (ClearCompilationCache db) = static db" "dbResults (ClearCompilationCache db) = dbResults db"
  "static (InsertCompilationCacheFile key f db) = static db" "dbResults (InsertCompilationCacheFile key f db) = dbResults db"
  by (simp_all add: RegisterBlob_def InsertSubmissionFlag_def UseCompilationCache_def ClearCompilationCache_def
      InsertCompilationCacheFile_def static_def)

lemma UpsertScore_frame:
  "UpsertParticipationTaskScore p t ts ic db = (db', v) \<Longrightarrow> static db' = static db \<and> dbResults db' = dbResults db"
  by (auto simp: UpsertParticipationTaskScore_def Let_def static_def)

lemma InsertCache_frame:
  "InsertCompilationCache key c db = (db', b) \<Longrightarrow> static db' = static db \<and> dbResults db' = dbResults db"
  by (auto simp: InsertCompilationCache_def static_def split: if_splits)

lemma foldl_frame:
  assumes "\<And>db x. static (f db x) = static db \<and> dbResults (f db x) = dbResults db"
  shows "static (foldl f db xs) = static db \<and> dbResults (foldl f db xs) = dbResults db"
  using assms by (induction xs arbitrary: db) auto

lemma rememberCompilation_frame [simp]:
  "static (rememberCompilation dp j c db) = static db" "dbResults (rememberCompilation dp j c db) = dbResults db"
proof -
  have "static (rememberCompilation dp j c db) = static db \<and> dbResults (rememberCompilation dp j c db) = dbResults db"
    using foldl_frame [of "\<lambda>db f. InsertCompilationCacheFile k f db" for k]
    by (auto simp: rememberCompilation_def Let_def split: prod.splits dest!: InsertCache_frame)
  then show "static (rememberCompilation dp j c db) = static db" "dbResults (rememberCompilation dp j c db) = dbResults db" by auto
qed

lemma cachedCompilation_frame: "cachedCompilation dp j db = (db', c) \<Longrightarrow> static db' = static db \<and> dbResults db' = dbResults db"
  by (auto simp: cachedCompilation_def Let_def split: if_splits option.splits)

lemma flag_frame [simp]: "static (flag_forbidden s x db) = static db" "dbResults (flag_forbidden s x db) = dbResults db"
  by (simp_all add: flag_forbidden_def)

lemma aggregate_frame: "aggregate now p di db = Some (db', up) \<Longrightarrow> static db' = static db \<and> dbResults db' = dbResults db"
  by (auto simp: aggregate_def Let_def split: option.splits prod.splits dest!: UpsertScore_frame)

lemma aggregateIfLive_frame:
  "aggregateIfLive now sc (db, eff) = Some (db', eff') \<Longrightarrow> static db' = static db \<and> dbResults db' = dbResults db \<and> efSkips eff' = efSkips eff"
  by (auto simp: aggregateIfLive_def Let_def add_event_def split: if_splits option.splits prod.splits dest!: aggregate_frame)

text \<open>A step that changes the row of one pair only, and never removes it.\<close>

definition only_row :: "int \<Rightarrow> int \<Rightarrow> DB \<Rightarrow> DB \<Rightarrow> bool" where
  "only_row s d db db' \<longleftrightarrow> static db' = static db \<and> (\<forall>k. k \<noteq> (s, d) \<longrightarrow> dbResults db' k = dbResults db k)
     \<and> (dbResults db (s, d) \<noteq> None \<longrightarrow> dbResults db' (s, d) \<noteq> None)"

lemma only_row_refl [simp]: "only_row s d db db"
  by (simp add: only_row_def)

lemma only_row_trans: "only_row s d a b \<Longrightarrow> only_row s d b c \<Longrightarrow> only_row s d a c"
  by (simp add: only_row_def)

lemma only_row_statements [simp]:
  "only_row s d db (update_result f s d db')  \<longleftrightarrow> only_row s d db db'"
  by (auto simp: only_row_def)

lemma only_row_foldl: "(\<And>db x. only_row s d db (f db x)) \<Longrightarrow> only_row s d db (foldl f db xs)"
proof (induction xs arbitrary: db)
  case (Cons x xs)
  then show ?case using only_row_trans by fastforce
qed simp

lemma only_row_frame: "static db' = static db \<and> dbResults db' = dbResults db \<Longrightarrow> only_row s d a db \<Longrightarrow> only_row s d a db'"
  by (simp add: only_row_def)

abbreviation sub_of :: "submissionCtx \<Rightarrow> int" where "sub_of sc \<equiv> mtID (scMeta sc)"
abbreviation ds_of :: "submissionCtx \<Rightarrow> int" where "ds_of sc \<equiv> dtID (diDs (scDi sc))"

lemma systemError_row: "only_row s d a db \<Longrightarrow> only_row s d a (fst (systemError s d c msg (db, eff)))"
  by (simp add: systemError_def Let_def result_statements)

lemma scoreCompilationFailure_row:
  "only_row (sub_of sc) (ds_of sc) a db \<Longrightarrow> scoreCompilationFailure now sc (db, eff) = Some (db', eff') \<Longrightarrow> only_row (sub_of sc) (ds_of sc) a db'"
  by (auto simp: scoreCompilationFailure_def only_row_def result_statements dest!: aggregateIfLive_frame)

lemma scoreResult_row:
  "only_row (sub_of sc) (ds_of sc) a db \<Longrightarrow> scoreResult txt now sc (db, eff) = Some (db', eff') \<Longrightarrow> only_row (sub_of sc) (ds_of sc) a db'"
  by (auto simp: scoreResult_def systemError_def Let_def only_row_def result_statements split: option.splits score_iface.splits
      dest!: aggregateIfLive_frame)

lemma start_evaluation_row:
  "only_row (sub_of sc) (ds_of sc) a db \<Longrightarrow> start_evaluation dp txt sc gen p exes (db, eff) = Some (db', eff') \<Longrightarrow>
   only_row (sub_of sc) (ds_of sc) a db'"
  using scoreResult_row [of sc a "SetEvaluationDone (sub_of sc) (ds_of sc) gen db" "txt" "dpNow dp" eff db' eff']
  by (auto simp: start_evaluation_def Let_def result_statements split: if_splits)

lemma store_executable_row: "only_row s d db (store_executable s d db e)"
  by (simp add: store_executable_def result_statements) (simp add: only_row_def)

lemma store_executables_row: "only_row s d db (foldl (store_executable s d) db es)"
  by (rule only_row_foldl) (rule store_executable_row)

lemma record_compilation_row: "only_row (sub_of sc) (ds_of sc) db (record_compilation sc gen r c db)"
  by (auto simp: record_compilation_def Let_def only_row_def result_statements)

lemma keep_executables_row: "only_row (sub_of sc) (ds_of sc) db (keep_executables dp sc r c db)"
  unfolding keep_executables_def by (rule only_row_trans [OF _ store_executables_row]) (auto simp: only_row_def)

lemma applyCompilation_row:
  assumes "only_row (sub_of sc) (ds_of sc) a db" "applyCompilation dp txt sc gen r c (db, eff) = Some (db', eff')"
  shows "only_row (sub_of sc) (ds_of sc) a db'"
proof -
  have 1: "only_row (sub_of sc) (ds_of sc) a (record_compilation sc gen r c db)"
    using assms(1) record_compilation_row by (rule only_row_trans)
  then have "only_row (sub_of sc) (ds_of sc) a (keep_executables dp sc r c (record_compilation sc gen r c db))"
    using keep_executables_row by (rule only_row_trans)
  with 1 assms(2) show ?thesis
    by (auto simp: applyCompilation_def Let_def split: if_splits intro: start_evaluation_row scoreCompilationFailure_row)
qed

lemma store_evaluation_row: "only_row (sub_of sc) (ds_of sc) db (store_evaluation sc w db e)"
  by (auto simp: store_evaluation_def Let_def result_statements split: option.splits) (simp add: only_row_def)

lemma skip_testcases_row: "only_row (sub_of sc) (ds_of sc) db (fst (skip_testcases sc gen names (db, eff)))"
  by (auto simp: skip_testcases_def Let_def intro!: only_row_foldl) (simp add: result_statements)

lemma shortCircuit_row: "shortCircuit sc gen (db, eff) = Some (db', eff') \<Longrightarrow> only_row (sub_of sc) (ds_of sc) db db'"
  using skip_testcases_row [of sc db gen _ eff]
  by (auto simp: shortCircuit_def Let_def split: score_iface.splits ScoreType.splits if_splits) (metis fst_conv)

lemma finish_evaluation_row:
  "only_row (sub_of sc) (ds_of sc) a db \<Longrightarrow> finish_evaluation txt now sc gen (db, eff) = Some (db', eff') \<Longrightarrow> only_row (sub_of sc) (ds_of sc) a db'"
  by (auto simp: finish_evaluation_def Let_def result_statements split: option.splits if_splits
      elim!: scoreResult_row [rotated])

lemma applyEvaluations_row:
  assumes "applyEvaluations dp txt sc gen r (db, eff) = Some (db', eff')"
  shows "only_row (sub_of sc) (ds_of sc) db db'"
proof -
  let ?d1 = "foldl (store_evaluation sc (reWorker r)) db (reEvaluations r)"
  have 1: "only_row (sub_of sc) (ds_of sc) db ?d1" by (rule only_row_foldl) (rule store_evaluation_row)
  obtain d2 e2 where s: "(if dtShortCircuit (diDs (scDi sc)) then shortCircuit sc gen (?d1, eff) else Some (?d1, eff)) = Some (d2, e2)"
    and f: "finish_evaluation txt (dpNow dp) sc gen (d2, e2) = Some (db', eff')"
    using assms by (auto simp: applyEvaluations_def Let_def split: option.splits)
  have "only_row (sub_of sc) (ds_of sc) db d2" using s 1 shortCircuit_row only_row_trans by (fastforce split: if_splits)
  then show ?thesis using f by (rule finish_evaluation_row)
qed

lemma retryOrFail_row: "only_row (sub_of sc) (ds_of sc) db (fst (retryOrFail dp sc gen r (db, eff)))"
  by (auto simp: retryOrFail_def Let_def result_statements intro: systemError_row)

lemma handle_loaded_row:
  "handle_loaded dp txt db st sc r = Committed db' eff' \<Longrightarrow> only_row (sub_of sc) (ds_of sc) db db'"
  using retryOrFail_row [of sc db dp "srGeneration st" r no_effects]
  by (auto simp: handle_loaded_def commit_def split: if_splits option.splits prod.splits
      intro: applyCompilation_row [OF only_row_refl] applyEvaluations_row)

lemma advance_compile_row:
  "advance_compile dp txt sc st rj db = Some (db', eff') \<Longrightarrow> only_row (sub_of sc) (ds_of sc) db db'"
  by (auto simp: advance_compile_def Let_def split: prod.splits option.splits if_splits dest!: cachedCompilation_frame aggregate_frame
      intro: only_row_frame elim!: applyCompilation_row [rotated])

lemma advance_evaluate_row:
  "advance_evaluate dp txt sc st rj db = Some ((db', eff'), b) \<Longrightarrow> only_row (sub_of sc) (ds_of sc) db db'"
  by (auto simp: advance_evaluate_def Let_def result_statements split: if_splits intro: scoreResult_row [rotated])

lemma advance_loaded_row:
  "advance_loaded dp txt sc st rj db = Some (db', eff') \<Longrightarrow> only_row (sub_of sc) (ds_of sc) db db'"
  by (auto simp: advance_loaded_def Let_def result_statements split: if_splits
      dest!: advance_compile_row advance_evaluate_row intro: scoreResult_row [OF only_row_refl] scoreCompilationFailure_row [OF only_row_refl])

section \<open>Loading\<close>

definition cache_ok :: "regexp \<Rightarrow> DB \<Rightarrow> datasetCache \<Rightarrow> bool" where
  "cache_ok re db m \<longleftrightarrow> (\<forall>i t di. map_of m i = Some (t, di) \<longrightarrow> load_dataset re db i = Inr di)"

lemma load_dataset_static: "static db = static db' \<Longrightarrow> load_dataset re db = load_dataset re db'"
proof -
  assume "static db = static db'"
  then have e: "GetDataset db = GetDataset db'" "GetTask db = GetTask db'" "ListTestcases db = ListTestcases db'" "ListManagers db = ListManagers db'"
    by (auto simp: static_def GetDataset_def GetTask_def ListTestcases_def ListManagers_def)
  show "load_dataset re db = load_dataset re db'" unfolding load_dataset_def [abs_def] e ..
qed

lemma cache_ok_static: "static db = static db' \<Longrightarrow> cache_ok re db m = cache_ok re db' m"
  unfolding cache_ok_def by (drule load_dataset_static [of _ _ re]) simp

lemma GetDataset_id: "GetDataset db d = Some ds \<Longrightarrow> dtID ds = d"
  unfolding GetDataset_def using find_SomeD [of "\<lambda>x. dtID x = d" "dbDatasets db" ds] by blast

lemma load_dataset_cases:
  assumes "load_dataset re db d = Inr di"
  obtains ds task where "GetDataset db d = Some ds" "GetTask db (dtTaskID ds) = Some task" "diDs di = ds" "diTask di = task"
    "diTestcases di = ListTestcases db d"
    "diScoreType di = score_iface (dtScoreType ds) (New re (dtScoreType ds) (dtScoreTypeParams ds)
       (map teCodename (ListTestcases db d)) (map tePublic (ListTestcases db d)) (tkScorePrecision task))"
    "diScoreTypeErr di = (case New re (dtScoreType ds) (dtScoreTypeParams ds)
       (map teCodename (ListTestcases db d)) (map tePublic (ListTestcases db d)) (tkScorePrecision task) of Inl e \<Rightarrow> Some e | Inr _ \<Rightarrow> None)"
proof (cases "GetDataset db d")
  case (Some ds)
  show ?thesis
  proof (cases "GetTask db (dtTaskID ds)")
    case (Some task)
    with \<open>GetDataset db d = Some ds\<close> assms show ?thesis by (intro that [of ds task]) (auto simp: load_dataset_def Let_def)
  qed (use Some assms in \<open>simp add: load_dataset_def\<close>)
qed (use assms in \<open>simp add: load_dataset_def\<close>)

lemma load_dataset_id: "load_dataset re db d = Inr di \<Longrightarrow> dtID (diDs di) = d"
  by (erule load_dataset_cases) (auto dest: GetDataset_id)

lemma cache_update: "cache_ok re db m \<Longrightarrow> load_dataset re db i = Inr di \<Longrightarrow> cache_ok re db (AList.update i (now, di) m)"
  by (simp add: cache_ok_def update_conv')

lemma cache_get_ok:
  assumes c: "cache_ok re db m" and g: "cache_get re ttl now db m i = (r, m')"
  shows "cache_ok re db m' \<and> r = load_dataset re db i"
proof -
  let ?load = "case load_dataset re db i of Inl e \<Rightarrow> (Inl e, m) | Inr di \<Rightarrow> (Inr di, AList.update i (now, di) m)"
  have "(r, m') = ?load \<or> (\<exists>t di. map_of m i = Some (t, di) \<and> (r, m') = (Inr di, m))"
    using g by (auto simp: cache_get_def Let_def split: option.splits if_splits)
  then show ?thesis
  proof (elim disjE exE conjE)
    assume "(r, m') = ?load"
    then show ?thesis using c cache_update [OF c] by (cases "load_dataset re db i") auto
  next
    fix t di
    assume "map_of m i = Some (t, di)" "(r, m') = (Inr di, m)"
    then show ?thesis using c by (auto simp: cache_ok_def)
  qed
qed

lemma loadSubmission_ok:
  assumes "cache_ok (dpRegexp dp) db m" "loadSubmission dp db m s d = (r, m')"
  shows "cache_ok (dpRegexp dp) db m' \<and> (\<forall>sc. r = Inr sc \<longrightarrow> sub_of sc = s \<and> load_dataset (dpRegexp dp) db d = Inr (scDi sc))"
proof -
  obtain g m1 where c: "cache_get (dpRegexp dp) (30 * second) (dpNow dp) db m d = (g, m1)" by fastforce
  have ok: "cache_ok (dpRegexp dp) db m1" "g = load_dataset (dpRegexp dp) db d" using cache_get_ok [OF assms(1) c] by auto
  have meta: "mtID meta = s" if "GetSubmissionMeta db s = Some meta" for meta
    using that by (auto simp: GetSubmissionMeta_def GetSubmission_def split: option.splits dest!: find_SomeD)
  show ?thesis
  proof (cases "load_dataset (dpRegexp dp) db d")
    case (Inl e)
    with assms ok meta c show ?thesis by (auto simp: loadSubmission_def split: option.splits)
  next
    case (Inr di)
    with assms ok meta c show ?thesis by (auto simp: loadSubmission_def submission_ctx_def Let_def split: option.splits)
  qed
qed

section \<open>The judged outcomes\<close>

text \<open>\<open>J\<close> restricted to the testcases of the dataset, and the full set of evaluations it stands for.\<close>

definition verdicts :: "datasetInfo \<Rightarrow> (string \<Rightarrow> f64) \<Rightarrow> string \<Rightarrow> f64" where
  "verdicts di J c = (if c \<in> teCodename ` set (diTestcases di) then J c else 0)"

definition judged :: "datasetInfo \<Rightarrow> (string \<Rightarrow> f64) \<Rightarrow> Testcase list" where
  "judged di J =
     map (\<lambda>t. \<lparr>tcID = teID t, tcCodename = teCodename t, tcPublic = tePublic t, tcEvaluated = True, tcOutcome = J (teCodename t),
       tcText = [], tcTime = 0, tcMemory = 0, tcExitStatus = ''ok''\<rparr>) (diTestcases di)"

lemma index_cases:
  "(index tcs c = None \<and> c \<notin> tcCodename ` set tcs) \<or> (\<exists>t \<in> set tcs. tcCodename t = c \<and> index tcs c = Some t)"
proof (cases "index tcs c")
  case None
  then show ?thesis by (auto simp: index_def map_of_eq_None_iff image_image)
next
  case (Some t)
  then show ?thesis by (auto simp: index_def dest: map_of_SomeD)
qed

lemma judged_outcome: "outcome_at (index (judged di J)) c = verdicts di J c"
  using index_cases [of "judged di J" c] by (auto simp: outcome_at_def judged_def verdicts_def image_image)

definition evals_ok :: "datasetInfo \<Rightarrow> ScoreType \<Rightarrow> (string \<Rightarrow> f64) \<Rightarrow> (int \<times> EvaluationT) list \<Rightarrow> bool" where
  "evals_ok di st J es \<longleftrightarrow> distinct (map fst es)
     \<and> (\<forall>(i, e) \<in> set es. \<exists>t \<in> set (diTestcases di). teID t = i \<and> faithful st (verdicts di J) (teCodename t) (erOutcome e))"

definition complete :: "datasetInfo \<Rightarrow> (int \<times> EvaluationT) list \<Rightarrow> bool" where
  "complete di es \<longleftrightarrow> teID ` set (diTestcases di) \<subseteq> fst ` set es"

text \<open>
  A dataset that loads with a valid score type, over a database that keeps its constraints:
  testcase ids are unique, codenames are unique within the dataset.
\<close>

definition setting :: "regexp \<Rightarrow> DB \<Rightarrow> int \<Rightarrow> datasetInfo \<Rightarrow> ScoreType \<Rightarrow> bool" where
  "setting re db d di st \<longleftrightarrow> load_dataset re db d = Inr di \<and> diScoreType di = HasType st
     \<and> distinct (map teID (dbTestcases db)) \<and> distinct (map teCodename (diTestcases di)) \<and> int (length (diTestcases di)) < 2 ^ 63"

lemma setting_static: "static db = static db' \<Longrightarrow> setting re db d di st = setting re db' d di st"
  using load_dataset_static [of db db' re] by (simp add: setting_def) (simp add: static_def)

lemma find_unique: "distinct (map f xs) \<Longrightarrow> x \<in> set xs \<Longrightarrow> find (\<lambda>y. f y = f x) xs = Some x"
  by (induction xs) auto

lemma setting_testcases:
  assumes "setting re db d di st" "t \<in> set (diTestcases di)"
  shows "find (\<lambda>x. teID x = teID t) (dbTestcases db) = Some t"
proof -
  have l: "load_dataset re db d = Inr di" and "distinct (map teID (dbTestcases db))" using assms(1) by (auto simp: setting_def)
  from l have "diTestcases di = ListTestcases db d" by (rule load_dataset_cases)
  then have "t \<in> set (dbTestcases db)" using assms(2) by (auto simp: ListTestcases_def)
  with \<open>distinct (map teID (dbTestcases db))\<close> show ?thesis by (rule find_unique)
qed

lemma setting_distinct:
  assumes "setting re db d di st"
  shows "distinct (map teID (diTestcases di))"
proof -
  have "load_dataset re db d = Inr di" using assms by (simp add: setting_def)
  then have e: "diTestcases di = ListTestcases db d" by (rule load_dataset_cases)
  have "distinct (map teID (filter (\<lambda>t. teDatasetID t = d) (dbTestcases db)))"
    using assms by (simp add: setting_def distinct_map_filter)
  then have "distinct (map teID (stable_sort (\<lambda>a b. teCodename a < teCodename b) (filter (\<lambda>t. teDatasetID t = d) (dbTestcases db))))"
    by (simp add: distinct_map)
  then show ?thesis by (simp add: e ListTestcases_def)
qed

lemma evaluated_testcase:
  assumes "setting re db d di st" "evals_ok di st J es" "(i, e) \<in> set es"
  shows "\<exists>t. with_testcase db (i, e) = [(t, e)] \<and> t \<in> set (diTestcases di) \<and> teID t = i
    \<and> faithful st (verdicts di J) (teCodename t) (erOutcome e)"
proof -
  from assms(2,3) obtain t where "t \<in> set (diTestcases di)" "teID t = i" "faithful st (verdicts di J) (teCodename t) (erOutcome e)"
    by (auto simp: evals_ok_def)
  then show ?thesis using setting_testcases [OF assms(1)] by (auto simp: with_testcase_def)
qed

lemma stored_scores:
  assumes set: "setting re db d di st" and r: "dbResults db (s, d) = Some r"
    and ok: "evals_ok di st J (srEvaluations r)" and c: "complete di (srEvaluations r)"
  shows "same_scores (Compute_score st (map scored_testcase (ListEvaluationsWithTestcase db s d))) (Compute_score st (judged di J))"
proof (rule faithful_scores [where J = "verdicts di J"])
  let ?xs = "concat (map (with_testcase db) (srEvaluations r))"
  let ?tcs = "map scored_testcase (ListEvaluationsWithTestcase db s d)"
  have xs: "set (ListEvaluationsWithTestcase db s d) = set ?xs"
    by (simp add: ListEvaluationsWithTestcase_def ListEvaluations_def r)
  fix n
  show "faithful st (verdicts di J) n (outcome_at (index ?tcs) n)"
    using index_cases [of ?tcs n]
  proof (elim disjE bexE conjE)
    assume none: "index ?tcs n = None" "n \<notin> tcCodename ` set ?tcs"
    have "n \<notin> teCodename ` set (diTestcases di)"
    proof
      assume "n \<in> teCodename ` set (diTestcases di)"
      then obtain t where t: "t \<in> set (diTestcases di)" "teCodename t = n" by auto
      then obtain e where "(teID t, e) \<in> set (srEvaluations r)" using c by (force simp: complete_def)
      then have "(t, e) \<in> set ?xs" using setting_testcases [OF set t(1)] by (force simp: with_testcase_def)
      then show False using none(2) t(2) by (force simp: scored_testcase_def xs)
    qed
    then show ?thesis using none(1) by (simp add: faithful_def verdicts_def outcome_at_def)
  next
    fix u
    assume u: "u \<in> set ?tcs" "tcCodename u = n" "index ?tcs n = Some u"
    then obtain t e i where "u = scored_testcase (t, e)" "(i, e) \<in> set (srEvaluations r)" "with_testcase db (i, e) = [(t, e)]"
      "faithful st (verdicts di J) (teCodename t) (erOutcome e)"
      using evaluated_testcase [OF set ok] by (fastforce simp: xs)
    then show ?thesis using u(2,3) by (auto simp: outcome_at_def scored_testcase_def)
  qed
qed (rule judged_outcome)

section \<open>The invariant of a result row\<close>

definition row_ok :: "datasetInfo \<Rightarrow> ScoreType \<Rightarrow> (string \<Rightarrow> f64) \<Rightarrow> SubmissionResult \<Rightarrow> bool" where
  "row_ok di st J r \<longleftrightarrow>
     evals_ok di st J (srEvaluations r)
     \<and> srCompilation r \<in> {None, Some ''ok'', Some ''fail''}
     \<and> (srCompilation r = Some ''ok'' \<longrightarrow> srTotal r = length (diTestcases di))
     \<and> (srEvaluation r \<noteq> None \<longrightarrow> srCompilation r = Some ''ok'' \<and> complete di (srEvaluations r))
     \<and> (srScoredAt r \<noteq> None \<longrightarrow> srCompilation r = Some ''fail'' \<and> srScore r = Some 0
          \<or> srEvaluation r \<noteq> None
            \<and> (let res = Compute_score st (judged di J)
               in srScore r = Some (Score res) \<and> srPublicScore r = Some (PublicScore res) \<and> srRanking r = Some (RankingDetails res)))"

lemma row_ok_fields:
  assumes "row_ok di st J r" "srEvaluations r' = srEvaluations r" "srCompilation r' = srCompilation r" "srTotal r' = srTotal r"
    "srEvaluation r' = srEvaluation r" "srScoredAt r' = srScoredAt r" "srScore r' = srScore r" "srPublicScore r' = srPublicScore r"
    "srRanking r' = srRanking r"
  shows "row_ok di st J r'"
  using assms unfolding row_ok_def by simp

lemma evals_ok_Nil [simp]: "evals_ok di st J []"
  by (simp add: evals_ok_def)

lemma new_result_ok: "row_ok di st J new_result"
  by (simp add: row_ok_def new_result_def)

lemma evals_ok_update:
  assumes "evals_ok di st J es" "t \<in> set (diTestcases di)" "faithful st (verdicts di J) (teCodename t) (erOutcome e)"
  shows "evals_ok di st J (AList.update (teID t) e es)"
proof -
  have "set (AList.update (teID t) e es) \<subseteq> insert (teID t, e) (set es)" by (induction es) auto
  then show ?thesis using assms distinct_update [of es "teID t" e] by (auto simp: evals_ok_def)
qed

lemma complete_count:
  assumes "evals_ok di st J es" "distinct (map teID (diTestcases di))" "length (diTestcases di) \<le> length es"
  shows "complete di es"
proof -
  have "fst ` set es \<subseteq> teID ` set (diTestcases di)" using assms(1) by (fastforce simp: evals_ok_def)
  moreover have "card (fst ` set es) = length es" using assms(1) distinct_card [of "map fst es"] by (simp add: evals_ok_def)
  moreover have "card (teID ` set (diTestcases di)) = length (diTestcases di)" using distinct_card [OF assms(2)] by simp
  ultimately have "fst ` set es = teID ` set (diTestcases di)" using assms(3) by (intro card_seteq) auto
  then show ?thesis by (simp add: complete_def)
qed

text \<open>The context of the submission, and a row that satisfies a predicate.\<close>

definition ctx_ok :: "regexp \<Rightarrow> int \<Rightarrow> int \<Rightarrow> datasetInfo \<Rightarrow> ScoreType \<Rightarrow> submissionCtx \<Rightarrow> DB \<Rightarrow> bool" where
  "ctx_ok re s d di st sc db \<longleftrightarrow> setting re db d di st \<and> scDi sc = di \<and> sub_of sc = s"

lemma ctx_okD: "ctx_ok re s d di st sc db \<Longrightarrow> scDi sc = di \<and> sub_of sc = s \<and> ds_of sc = d \<and> setting re db d di st \<and> dtID (diDs di) = d"
  using load_dataset_id by (auto simp: ctx_ok_def setting_def)

lemma ctx_ok_static: "ctx_ok re s d di st sc db \<Longrightarrow> static db' = static db \<Longrightarrow> ctx_ok re s d di st sc db'"
  using setting_static [of db' db] by (simp add: ctx_ok_def)

lemma no_score_error: "setting re db d di st \<Longrightarrow> diScoreTypeErr di = None"
proof -
  assume s: "setting re db d di st"
  then have "load_dataset re db d = Inr di" by (simp add: setting_def)
  then obtain name r where "diScoreType di = score_iface name r" "diScoreTypeErr di = (case r of Inl e \<Rightarrow> Some e | Inr _ \<Rightarrow> None)"
    by (rule load_dataset_cases) blast
  with s show ?thesis
    by (cases r) (auto simp: setting_def score_iface_def split: score_error.splits if_splits)
qed

definition row_is :: "int \<Rightarrow> int \<Rightarrow> DB \<Rightarrow> (SubmissionResult \<Rightarrow> bool) \<Rightarrow> bool" where
  "row_is s d db P \<longleftrightarrow> (\<exists>r. dbResults db (s, d) = Some r \<and> P r)"

lemma row_is_update: "row_is s d db (\<lambda>r. P (f r)) \<Longrightarrow> row_is s d (update_result f s d db) P"
  by (auto simp: row_is_def)

lemma row_is_mono: "row_is s d db P \<Longrightarrow> (\<And>r. P r \<Longrightarrow> Q r) \<Longrightarrow> row_is s d db Q"
  by (auto simp: row_is_def)

lemma row_is_frame: "dbResults db' = dbResults db \<Longrightarrow> row_is s d db' P = row_is s d db P"
  by (simp add: row_is_def)

section \<open>Scoring\<close>

lemma systemError_ok:
  "row_is s d db (row_ok di st J) \<Longrightarrow> row_is s d (fst (systemError s d c msg (db, eff))) (row_ok di st J)"
  by (auto simp: systemError_def Let_def SetSubmissionSystemError_def intro!: row_is_update elim!: row_is_mono row_ok_fields)

lemma scoreCompilationFailure_ok:
  assumes "ctx_ok re s d di st sc db" "row_is s d db (\<lambda>r. row_ok di st J r \<and> srCompilation r = Some ''fail'')"
    and "scoreCompilationFailure now sc (db, eff) = Some (db', eff')"
  shows "row_is s d db' (\<lambda>r. row_ok di st J r \<and> srScoredAt r \<noteq> None) \<and> efSkips eff' = efSkips eff"
proof -
  have "dbResults db' = dbResults (SetCompilationFailedScore now s d db)" "efSkips eff' = efSkips eff"
    using assms(3) ctx_okD [OF assms(1)] by (auto simp: scoreCompilationFailure_def add_event_def dest!: aggregateIfLive_frame)
  moreover have "row_is s d (SetCompilationFailedScore now s d db) (\<lambda>r. row_ok di st J r \<and> srScoredAt r \<noteq> None)"
    using assms(2) unfolding SetCompilationFailedScore_def by (intro row_is_update) (auto simp: row_ok_def elim!: row_is_mono)
  ultimately show ?thesis using row_is_frame [of db' "SetCompilationFailedScore now s d db"] by simp
qed

lemma scoreResult_ok:
  assumes ctx: "ctx_ok re s d di st sc db" and r: "row_is s d db (\<lambda>r. row_ok di st J r \<and> srEvaluation r \<noteq> None)"
    and "scoreResult txt now sc (db, eff) = Some (db', eff')"
  shows "row_is s d db' (\<lambda>r. row_ok di st J r \<and> srScoredAt r \<noteq> None) \<and> efSkips eff' = efSkips eff"
proof -
  note c = ctx_okD [OF ctx]
  let ?res = "Compute_score st (map scored_testcase (ListEvaluationsWithTestcase db s d))"
  let ?db = "SetScore now s d ?res (ICPCVerdict (ResDetails ?res) (Score ?res) (MaxScore st)) db"
  have "diScoreType di = HasType st" "diScoreTypeErr di = None" using c no_score_error by (auto simp: setting_def)
  then have e: "dbResults db' = dbResults ?db" "efSkips eff' = efSkips eff"
    using assms(3) c by (auto simp: scoreResult_def Let_def add_event_def dest!: aggregateIfLive_frame)
  from r obtain x where x: "dbResults db (s, d) = Some x" "row_ok di st J x" "srEvaluation x \<noteq> None" by (auto simp: row_is_def)
  then have "same_scores ?res (Compute_score st (judged di J))"
    using c by (intro stored_scores) (auto simp: row_ok_def)
  then have "row_is s d ?db (\<lambda>r. row_ok di st J r \<and> srScoredAt r \<noteq> None)"
    using x by (auto simp: row_is_def SetScore_def row_ok_def same_scores_def Let_def)
  then show ?thesis using e row_is_frame [of db' ?db] by simp
qed

section \<open>Evaluations\<close>

definition evaluating :: "datasetInfo \<Rightarrow> ScoreType \<Rightarrow> (string \<Rightarrow> f64) \<Rightarrow> int \<Rightarrow> SubmissionResult \<Rightarrow> bool" where
  "evaluating di st J gen r \<longleftrightarrow> row_ok di st J r \<and> srCompilation r = Some ''ok'' \<and> srEvaluation r = None
     \<and> srScoredAt r = None \<and> srSystemError r = None \<and> srGeneration r = gen"

text \<open>
  The testcases the workers were told to skip cannot change the score; an evaluation a worker
  reports is the judged outcome, or the zero of a testcase it was told to skip.
\<close>

definition skips_ok :: "datasetInfo \<Rightarrow> ScoreType \<Rightarrow> (string \<Rightarrow> f64) \<Rightarrow> int set \<Rightarrow> bool" where
  "skips_ok di st J S \<longleftrightarrow> (\<forall>t \<in> set (diTestcases di). teID t \<in> S \<longrightarrow> irrelevant st (verdicts di J) (teCodename t))"

definition honest :: "datasetInfo \<Rightarrow> (string \<Rightarrow> f64) \<Rightarrow> int set \<Rightarrow> Evaluation \<Rightarrow> bool" where
  "honest di J S e \<longleftrightarrow>
     (\<forall>t \<in> set (diTestcases di). teID t = evTestcaseID e \<longrightarrow>
        evOutcome e = J (teCodename t) \<or> evOutcome e = 0 \<and> evTestcaseID e \<in> S)"

lemma honest_faithful:
  "skips_ok di st J S \<Longrightarrow> honest di J S e \<Longrightarrow> t \<in> set (diTestcases di) \<Longrightarrow> teID t = evTestcaseID e \<Longrightarrow>
   faithful st (verdicts di J) (teCodename t) (evOutcome e)"
  by (auto simp: honest_def skips_ok_def faithful_def verdicts_def)

lemma go_map_SomeD: "go_map kvs k = Some v \<Longrightarrow> (k, v) \<in> set kvs"
  by (auto simp: go_map_def dest: map_of_SomeD)

lemma byID_SomeD: "byID di i = Some t \<Longrightarrow> t \<in> set (diTestcases di) \<and> teID t = i"
  by (auto simp: byID_def dest!: go_map_SomeD)

lemma upsert_ok:
  assumes "row_is s d db (evaluating di st J gen)" "t \<in> set (diTestcases di)" "faithful st (verdicts di J) (teCodename t) (erOutcome e)"
  shows "row_is s d (UpsertEvaluation s d (teID t) e db) (evaluating di st J gen)"
  unfolding UpsertEvaluation_def using assms evals_ok_update
  by (intro row_is_update) (auto simp: evaluating_def row_ok_def elim!: row_is_mono)

lemma store_evaluation_ok:
  assumes "ctx_ok re s d di st sc db" "row_is s d db (evaluating di st J gen)" "skips_ok di st J S" "honest di J S e"
  shows "row_is s d (store_evaluation sc w db e) (evaluating di st J gen)"
proof (cases "byID di (evTestcaseID e)")
  case None
  then show ?thesis using assms(2) ctx_okD [OF assms(1)] by (simp add: store_evaluation_def Let_def)
next
  case (Some t)
  then have t: "t \<in> set (diTestcases di)" "teID t = evTestcaseID e" using byID_SomeD by auto
  then have "row_is s d (UpsertEvaluation s d (evTestcaseID e) (evaluation_row w e) db) (evaluating di st J gen)"
    using upsert_ok [OF assms(2) t(1), of "evaluation_row w e"] honest_faithful [OF assms(3,4) t] by (simp add: evaluation_row_def)
  then show ?thesis using Some ctx_okD [OF assms(1)] by (simp add: store_evaluation_def Let_def row_is_def)
qed

lemma store_evaluations_ok:
  assumes "ctx_ok re s d di st sc db" "row_is s d db (evaluating di st J gen)" "skips_ok di st J S" "list_all (honest di J S) es"
  shows "row_is s d (foldl (store_evaluation sc w) db es) (evaluating di st J gen)"
  using assms
proof (induction es arbitrary: db)
  case (Cons e es)
  have "static (store_evaluation sc w db e) = static db"
    using store_evaluation_row [of sc db w e] ctx_okD [OF Cons.prems(1)] by (simp add: only_row_def)
  with Cons show ?case by (auto intro!: Cons.IH intro: ctx_ok_static store_evaluation_ok)
qed simp

section \<open>The short-circuit\<close>

lemma setting_group:
  assumes "setting re db d di (GroupType g)"
  shows "wf_group g \<and> distinct (map codename (grpDefs g))"
proof -
  let ?tcs = "diTestcases di"
  let ?defs = "stable_sort (\<lambda>a b. codename a < codename b) (map2 (\<lambda>c p. \<lparr>codename = c, public = p\<rparr>) (map teCodename ?tcs) (map tePublic ?tcs))"
  have "load_dataset re db d = Inr di" using assms by (simp add: setting_def)
  then obtain name params p where "diScoreType di = score_iface name (New re name params (map teCodename ?tcs) (map tePublic ?tcs) p)"
    by (rule load_dataset_cases) auto
  then have "New re name params (map teCodename ?tcs) (map tePublic ?tcs) p = Inr (GroupType g)"
    using assms by (auto simp: setting_def score_iface_def split: Sum_Type.sum.splits score_error.splits if_splits)
  then have n: "newGroup re name params ?defs p = Inr g"
    by (auto simp: New_def Let_def bind_result_eq_Inr split: if_splits)
  have l: "int (length ?defs) < 2 ^ 63" using assms by (simp add: setting_def)
  have "mset (map codename ?defs) = mset (map codename (map2 (\<lambda>c p. \<lparr>codename = c, public = p\<rparr>) (map teCodename ?tcs) (map tePublic ?tcs)))"
    by (simp only: mset_map mset_stable_sort)
  also have "map codename (map2 (\<lambda>c p. \<lparr>codename = c, public = p\<rparr>) (map teCodename ?tcs) (map tePublic ?tcs)) = map teCodename ?tcs"
    by (auto simp: list_eq_iff_nth_eq)
  finally have "distinct (map codename ?defs) = distinct (map teCodename ?tcs)" by (rule mset_eq_imp_distinct_iff)
  then have "distinct (map codename ?defs)" using assms by (simp add: setting_def)
  then show ?thesis using newGroup_wf [OF n l] by simp
qed

lemma known_faithful:
  assumes "ctx_ok re s d di st sc db" "row_is s d db (\<lambda>r. evals_ok di st J (srEvaluations r))" "known_outcomes sc db n = Some v"
  shows "faithful st (verdicts di J) n v"
proof -
  note c = ctx_okD [OF assms(1)]
  obtain r where r: "dbResults db (s, d) = Some r" "evals_ok di st J (srEvaluations r)" using assms(2) by (auto simp: row_is_def)
  from assms(3) obtain i e where i: "(i, e) \<in> set (srEvaluations r)"
    and n: "(n, v) \<in> set (case byID di i of None \<Rightarrow> [] | Some t \<Rightarrow> [(teCodename t, erOutcome e)])"
    using c r(1) by (auto simp: known_outcomes_def ListEvaluations_def dest!: go_map_SomeD) blast
  then obtain t where e: "(i, e) \<in> set (srEvaluations r)" "byID di i = Some t" "n = teCodename t" "v = erOutcome e"
    by (cases "byID di i") auto
  from r(2) e(1) obtain t' where t': "t' \<in> set (diTestcases di)" "teID t' = i" "faithful st (verdicts di J) (teCodename t') v"
    using e(4) by (auto simp: evals_ok_def)
  have "t = t'" using byID_SomeD [OF e(2)] t'(1,2) setting_distinct c by (metis distinct_map inj_onD)
  then show ?thesis using t'(3) e(3) by simp
qed

lemma skippable_irrelevant:
  assumes "ctx_ok re s d di (GroupType g) sc db" "row_is s d db (\<lambda>r. evals_ok di (GroupType g) J (srEvaluations r))"
    and n: "n \<in> set (Skippable g (known_outcomes sc db))"
  shows "irrelevant (GroupType g) (verdicts di J) n"
proof -
  have g: "wf_group g" "distinct (map codename (grpDefs g))" using setting_group ctx_okD [OF assms(1)] by blast+
  have "kind g \<in> {''GroupMin'', ''GroupMul''}" using n by (auto simp: Skippable_def split: if_splits)
  moreover have "dead g (\<lambda>c. Some (verdicts di J c)) sd"
    if "sd \<in> set (subtasks g)" "k \<in> set (grpMembers sd)" "codename (grpDefs g ! k) = n" for sd k
    using Skippable_dead [OF g that(1,2)] n that known_faithful [OF assms(1,2)] by (blast intro: faithful_dead)
  ultimately show ?thesis by (auto simp: irrelevant_def)
qed

lemma skipped_idsD: "i \<in> set (skipped_ids di names) \<Longrightarrow> \<exists>t \<in> set (diTestcases di). teID t = i \<and> teCodename t \<in> set names"
proof -
  let ?f = "go_map (map (\<lambda>t. (teCodename t, teID t)) (diTestcases di))"
  assume "i \<in> set (skipped_ids di names)"
  then obtain n where n: "n \<in> set names" "i \<in> set (case ?f n of None \<Rightarrow> [] | Some i \<Rightarrow> [i])" by (auto simp: skipped_ids_def Let_def)
  then have "?f n = Some i" by (cases "?f n") auto
  then show "\<exists>t \<in> set (diTestcases di). teID t = i \<and> teCodename t \<in> set names" using n(1) by (auto dest!: go_map_SomeD)
qed

lemma skip_rows_ok:
  assumes "row_is s d db (evaluating di st J gen)"
    and "\<And>i. i \<in> set ids \<Longrightarrow> \<exists>t \<in> set (diTestcases di). teID t = i \<and> irrelevant st (verdicts di J) (teCodename t)"
  shows "row_is s d (foldl (\<lambda>db i. UpsertEvaluation s d i skipped_row db) db ids) (evaluating di st J gen)"
  using assms
proof (induction ids arbitrary: db)
  case (Cons i ids)
  then obtain t where "t \<in> set (diTestcases di)" "teID t = i" "irrelevant st (verdicts di J) (teCodename t)" by auto
  then have "row_is s d (UpsertEvaluation s d i skipped_row db) (evaluating di st J gen)"
    using upsert_ok [OF Cons.prems(1)] by (auto simp: faithful_def skipped_row_def)
  then show ?case using Cons by auto
qed simp

definition skipped_in :: "int \<Rightarrow> int \<Rightarrow> effects \<Rightarrow> int set" where
  "skipped_in s d eff = (\<Union>k \<in> set (efSkips eff). if skSubmissionID k = s \<and> skDatasetID k = d then set (skTestcases k) else {})"

lemma shortCircuit_ok:
  assumes ctx: "ctx_ok re s d di st sc db" and r: "row_is s d db (evaluating di st J gen)"
    and sk: "shortCircuit sc gen (db, eff) = Some (db', eff')" and S: "skips_ok di st J (skipped_in s d eff)"
  shows "row_is s d db' (evaluating di st J gen) \<and> skips_ok di st J (skipped_in s d eff')"
proof (cases "db' = db \<and> eff' = eff")
  case False
  note c = ctx_okD [OF ctx]
  have "diScoreType di = HasType st" using c by (simp add: setting_def)
  with False sk c obtain g where g: "st = GroupType g"
    and e: "(db', eff') = skip_testcases sc gen (Skippable g (known_outcomes sc db)) (db, eff)"
    by (auto simp: shortCircuit_def Let_def split: ScoreType.splits if_splits)
  let ?ids = "skipped_ids di (Skippable g (known_outcomes sc db))"
  have rows: "row_is s d db (\<lambda>r. evals_ok di (GroupType g) J (srEvaluations r))"
    using r g by (auto simp: evaluating_def row_ok_def elim!: row_is_mono)
  have i: "\<exists>t \<in> set (diTestcases di). teID t = i \<and> irrelevant st (verdicts di J) (teCodename t)" if "i \<in> set ?ids" for i
    using skipped_idsD [OF that] skippable_irrelevant [of re s d di g sc db J] ctx rows g by blast
  then have "irrelevant st (verdicts di J) (teCodename t)" if "t \<in> set (diTestcases di)" "teID t \<in> set ?ids" for t
    using that setting_distinct c by (metis distinct_map inj_onD)
  then have "skips_ok di st J (skipped_in s d eff')"
    using S e c by (auto simp: skips_ok_def skip_testcases_def Let_def skipped_in_def split: if_splits)
  moreover have "row_is s d db' (evaluating di st J gen)"
    using skip_rows_ok [OF r i] e c by (simp add: skip_testcases_def Let_def)
  ultimately show ?thesis by blast
qed (use r S in simp)

section \<open>Handlers keep the invariant\<close>

definition row_keys :: "SubmissionResult \<Rightarrow> int set" where
  "row_keys r = fst ` set (srEvaluations r)"

lemma finish_evaluation_ok:
  assumes ctx: "ctx_ok re s d di st sc db" and r: "row_is s d db (\<lambda>r. evaluating di st J gen r \<and> A \<subseteq> row_keys r)"
    and f: "finish_evaluation txt now sc gen (db, eff) = Some (db', eff')"
  shows "row_is s d db' (\<lambda>r. row_ok di st J r \<and> (srScoredAt r \<noteq> None \<or> evaluating di st J gen r \<and> A \<subseteq> row_keys r \<and> \<not> complete di (srEvaluations r)))
    \<and> efSkips eff' = efSkips eff"
proof -
  note c = ctx_okD [OF ctx]
  obtain x where x: "dbResults db (s, d) = Some x" "evaluating di st J gen x" "A \<subseteq> row_keys x" using r by (auto simp: row_is_def)
  let ?y = "x\<lparr>srDone := length (srEvaluations x)\<rparr>"
  let ?db = "RefreshTestcasesDone s d db"
  have y: "dbResults ?db (s, d) = Some ?y" using x(1) by (simp add: RefreshTestcasesDone_def)
  have total: "srTotal x = length (diTestcases di)" and e: "evals_ok di st J (srEvaluations x)" and ok: "row_ok di st J ?y"
    using x(2) by (auto simp: evaluating_def row_ok_def)
  show ?thesis
  proof (cases "length (srEvaluations x) < srTotal x")
    case True
    then have "db' = ?db" "efSkips eff' = efSkips eff"
      using f c y by (auto simp: finish_evaluation_def Let_def LockSubmissionResult_def add_event_def)
    moreover have "\<not> complete di (srEvaluations x)"
    proof
      assume "complete di (srEvaluations x)"
      then have "card (teID ` set (diTestcases di)) \<le> card (fst ` set (srEvaluations x))" by (intro card_mono) (auto simp: complete_def)
      then show False using True total card_image_le [of "set (srEvaluations x)" fst] card_length [of "srEvaluations x"]
          distinct_card [OF setting_distinct] c by (metis List.finite_set le_trans length_map linorder_not_less list.set_map)
    qed
    ultimately show ?thesis using y x ok by (auto simp: row_is_def evaluating_def row_keys_def)
  next
    case False
    then have comp: "complete di (srEvaluations x)" using complete_count [OF e] setting_distinct c total by fastforce
    let ?db2 = "SetEvaluationDone s d gen ?db"
    have "scoreResult txt now sc (?db2, eff) = Some (db', eff')"
      using f False c y by (auto simp: finish_evaluation_def Let_def LockSubmissionResult_def)
    moreover have "row_is s d ?db2 (\<lambda>r. row_ok di st J r \<and> srEvaluation r \<noteq> None)"
      using x(2) y comp unfolding SetEvaluationDone_def
      by (intro row_is_update) (auto simp: row_is_def evaluating_def row_ok_def)
    moreover have "ctx_ok re s d di st sc ?db2"
      using ctx_ok_static [OF ctx] by (simp add: SetEvaluationDone_def RefreshTestcasesDone_def)
    ultimately show ?thesis using scoreResult_ok [of re s d di st sc ?db2 J "txt" now eff db' eff'] by (auto elim!: row_is_mono)
  qed
qed

text \<open>The testcases a list of evaluations is about.\<close>

definition reported :: "datasetInfo \<Rightarrow> Evaluation list \<Rightarrow> int set" where
  "reported di es = evTestcaseID ` set es \<inter> teID ` set (diTestcases di)"

lemma upsert_keys:
  "row_is s d db (\<lambda>r. A \<subseteq> row_keys r) \<Longrightarrow> row_is s d (UpsertEvaluation s d i e db) (\<lambda>r. insert i A \<subseteq> row_keys r)"
  unfolding UpsertEvaluation_def
  by (rule row_is_update, erule row_is_mono) (auto simp: row_keys_def update_conv simp flip: dom_map_of_conv_image_fst)

lemma byID_None: "byID di i = None \<longleftrightarrow> i \<notin> teID ` set (diTestcases di)"
  by (auto simp: byID_def go_map_def map_of_eq_None_iff image_image)

lemma store_evaluation_keys:
  assumes "ctx_ok re s d di st sc db" "row_is s d db (\<lambda>r. A \<subseteq> row_keys r)"
  shows "row_is s d (store_evaluation sc w db e) (\<lambda>r. A \<union> reported di [e] \<subseteq> row_keys r)"
proof (cases "byID di (evTestcaseID e)")
  case None
  then show ?thesis using assms(2) ctx_okD [OF assms(1)] byID_None [of di "evTestcaseID e"]
    by (simp add: store_evaluation_def Let_def reported_def)
next
  case (Some t)
  then show ?thesis
    using upsert_keys [OF assms(2), of "evTestcaseID e" "evaluation_row w e"] ctx_okD [OF assms(1)] byID_None [of di "evTestcaseID e"]
    by (auto simp: store_evaluation_def Let_def reported_def row_is_def)
qed

lemma store_evaluations_keys:
  assumes "ctx_ok re s d di st sc db" "row_is s d db (\<lambda>r. A \<subseteq> row_keys r)"
  shows "row_is s d (foldl (store_evaluation sc w) db es) (\<lambda>r. A \<union> reported di es \<subseteq> row_keys r)"
  using assms
proof (induction es arbitrary: db A)
  case (Cons e es)
  have "static (store_evaluation sc w db e) = static db"
    using store_evaluation_row [of sc db w e] ctx_okD [OF Cons.prems(1)] by (simp add: only_row_def)
  then have "row_is s d (foldl (store_evaluation sc w) (store_evaluation sc w db e) es) (\<lambda>r. (A \<union> reported di [e]) \<union> reported di es \<subseteq> row_keys r)"
    using Cons.IH [OF ctx_ok_static [OF Cons.prems(1)] store_evaluation_keys [OF Cons.prems]] by simp
  then show ?case by (auto simp: reported_def elim!: row_is_mono)
qed (simp add: reported_def)

lemma shortCircuit_keys:
  assumes "ctx_ok re s d di st sc db" "row_is s d db (\<lambda>r. A \<subseteq> row_keys r)" "shortCircuit sc gen (db, eff) = Some (db', eff')"
  shows "row_is s d db' (\<lambda>r. A \<subseteq> row_keys r)"
proof -
  have "row_is s d (foldl (\<lambda>db i. UpsertEvaluation s d i skipped_row db) db ids) (\<lambda>r. A \<subseteq> row_keys r)" for ids
    using assms(2)
  proof (induction ids arbitrary: db)
    case (Cons i ids)
    then show ?case using upsert_keys [OF Cons.prems, of i skipped_row] by (auto elim!: row_is_mono intro!: Cons.IH)
  qed simp
  then show ?thesis using assms ctx_okD [OF assms(1)]
    by (auto simp: shortCircuit_def skip_testcases_def Let_def split: score_iface.splits ScoreType.splits if_splits)
qed

lemma row_is_conj: "row_is s d db P \<Longrightarrow> row_is s d db Q \<Longrightarrow> row_is s d db (\<lambda>r. P r \<and> Q r)"
  by (auto simp: row_is_def)

lemma skips_none [simp]: "skips_ok di st J (skipped_in s d no_effects)"
  by (simp add: skips_ok_def skipped_in_def no_effects_def)

lemma applyEvaluations_ok:
  assumes ctx: "ctx_ok re s d di st sc db" and r: "row_is s d db (\<lambda>r. evaluating di st J gen r \<and> A \<subseteq> row_keys r)"
    and S: "skips_ok di st J S" and h: "list_all (honest di J S) (reEvaluations x)"
    and a: "applyEvaluations dp txt sc gen x (db, no_effects) = Some (db', eff')"
  shows "row_is s d db' (\<lambda>r. row_ok di st J r \<and> (srScoredAt r \<noteq> None \<or>
      evaluating di st J gen r \<and> A \<union> reported di (reEvaluations x) \<subseteq> row_keys r \<and> \<not> complete di (srEvaluations r)))
    \<and> skips_ok di st J (skipped_in s d eff')"
proof -
  note c = ctx_okD [OF ctx]
  let ?B = "A \<union> reported di (reEvaluations x)"
  let ?d1 = "foldl (store_evaluation sc (reWorker x)) db (reEvaluations x)"
  have "row_is s d db (evaluating di st J gen)" "row_is s d db (\<lambda>r. A \<subseteq> row_keys r)" using r by (rule row_is_mono, simp)+
  then have r1: "row_is s d ?d1 (evaluating di st J gen)" "row_is s d ?d1 (\<lambda>r. ?B \<subseteq> row_keys r)"
    using store_evaluations_ok [OF ctx _ S h] store_evaluations_keys [OF ctx, of A] by blast+
  have "only_row s d db ?d1" using only_row_foldl store_evaluation_row c by metis
  then have c1: "ctx_ok re s d di st sc ?d1" by (intro ctx_ok_static [OF ctx]) (simp add: only_row_def)
  obtain d2 e2 where d2: "(if dtShortCircuit (diDs (scDi sc)) then shortCircuit sc gen (?d1, no_effects) else Some (?d1, no_effects)) = Some (d2, e2)"
    and f: "finish_evaluation txt (dpNow dp) sc gen (d2, e2) = Some (db', eff')"
    using a by (auto simp: applyEvaluations_def Let_def split: option.splits)
  have "(row_is s d d2 (evaluating di st J gen) \<and> skips_ok di st J (skipped_in s d e2)) \<and> row_is s d d2 (\<lambda>r. ?B \<subseteq> row_keys r)"
  proof (cases "dtShortCircuit (diDs (scDi sc))")
    case True
    with d2 have sk: "shortCircuit sc gen (?d1, no_effects) = Some (d2, e2)" by simp
    show ?thesis using shortCircuit_ok [OF c1 r1(1) sk skips_none] shortCircuit_keys [OF c1 r1(2) sk] by (rule conjI)
  next
    case False
    with d2 have "d2 = ?d1" "e2 = no_effects" by auto
    then show ?thesis using r1 skips_none by simp
  qed
  then have r2: "row_is s d d2 (\<lambda>r. evaluating di st J gen r \<and> ?B \<subseteq> row_keys r)" and s2: "skips_ok di st J (skipped_in s d e2)"
    using row_is_conj by blast+
  have "static d2 = static ?d1" using d2 shortCircuit_row by (fastforce simp: only_row_def split: if_splits)
  then have c2: "ctx_ok re s d di st sc d2" by (intro ctx_ok_static [OF c1])
  show ?thesis using finish_evaluation_ok [OF c2 r2 f] s2 by (simp add: skipped_in_def)
qed

lemma start_evaluation_ok:
  assumes ctx: "ctx_ok re s d di st sc db" and r: "row_is s d db (evaluating di st J gen)"
    and a: "start_evaluation dp txt sc gen p exes (db, eff) = Some (db', eff')"
  shows "row_is s d db' (row_ok di st J) \<and> efSkips eff' = efSkips eff"
proof (cases "diTestcases di = []")
  case True
  let ?db = "SetEvaluationDone s d gen db"
  have "scoreResult txt (dpNow dp) sc (?db, eff) = Some (db', eff')"
    using a True ctx_okD [OF ctx] by (simp add: start_evaluation_def Let_def)
  moreover have "row_is s d ?db (\<lambda>r. row_ok di st J r \<and> srEvaluation r \<noteq> None)"
    using r True unfolding SetEvaluationDone_def
    by (intro row_is_update) (auto simp: evaluating_def row_ok_def complete_def elim!: row_is_mono)
  moreover have "ctx_ok re s d di st sc ?db" using ctx_ok_static [OF ctx] by (simp add: SetEvaluationDone_def)
  ultimately show ?thesis using scoreResult_ok [of re s d di st sc ?db J "txt" "dpNow dp" eff db' eff'] by (auto elim!: row_is_mono)
next
  case False
  then have "db' = MarkJobsEnqueued (dpNow dp) s d db" "efSkips eff' = efSkips eff"
    using a ctx_okD [OF ctx] by (auto simp: start_evaluation_def Let_def add_event_def add_jobs_def)
  then show ?thesis using r unfolding MarkJobsEnqueued_def
    by (auto simp: evaluating_def intro!: row_is_update elim!: row_is_mono row_ok_fields)
qed

lemma store_executables_ok:
  assumes "\<And>r es. P r \<Longrightarrow> P (r\<lparr>srExecutables := es\<rparr>)" "row_is s d db P"
  shows "row_is s d (foldl (store_executable s d) db es) P"
  using assms(2)
proof (induction es arbitrary: db)
  case (Cons e es)
  have "row_is s d (store_executable s d db e) P"
    using Cons.prems assms(1) unfolding store_executable_def InsertExecutable_def by (intro row_is_update) (auto simp: row_is_def)
  then show ?case using Cons.IH by simp
qed simp

lemma applyCompilation_ok:
  assumes ctx: "ctx_ok re s d di st sc db"
    and r: "row_is s d db (\<lambda>r. row_ok di st J r \<and> srCompilation r = None \<and> srScoredAt r = None \<and> srSystemError r = None \<and> srGeneration r = gen)"
    and a: "applyCompilation dp txt sc gen x c (db, eff) = Some (db', eff')"
  shows "row_is s d db' (row_ok di st J) \<and> efSkips eff' = efSkips eff"
proof -
  note c = ctx_okD [OF ctx]
  let ?d1 = "record_compilation sc gen x c db"
  have r1: "row_is s d ?d1 (\<lambda>r. row_ok di st J r \<and> srCompilation r = Some (if coSuccess c then ''ok'' else ''fail'')
      \<and> srEvaluation r = None \<and> srScoredAt r = None \<and> srSystemError r = None \<and> srGeneration r = gen)"
    using r c by (auto simp: record_compilation_def Let_def SetCompilationResult_def row_is_def row_ok_def)
  have c1: "ctx_ok re s d di st sc ?d1" using ctx_ok_static [OF ctx] record_compilation_row [of sc db gen x c] by (simp add: only_row_def)
  show ?thesis
  proof (cases "coSuccess c")
    case False
    then have f: "scoreCompilationFailure (dpNow dp) sc (?d1, eff) = Some (db', eff')" using a by (simp add: applyCompilation_def Let_def)
    have "row_is s d ?d1 (\<lambda>r. row_ok di st J r \<and> srCompilation r = Some ''fail'')" using r1 False by (auto elim!: row_is_mono)
    from scoreCompilationFailure_ok [OF c1 this f] show ?thesis by (auto elim: row_is_mono)
  next
    case True
    let ?d2 = "keep_executables dp sc x c ?d1"
    have s: "start_evaluation dp txt sc gen (rePriority x) (coExecutables c) (?d2, eff) = Some (db', eff')"
      using a True by (simp add: applyCompilation_def Let_def)
    have "row_is s d ?d1 (evaluating di st J gen)" using r1 True by (auto simp: evaluating_def elim!: row_is_mono)
    then have "row_is s d (if reWorker x \<noteq> cacheWorker then rememberCompilation dp (scJob sc) c ?d1 else ?d1) (evaluating di st J gen)"
      by (simp add: row_is_def)
    then have r2: "row_is s d ?d2 (evaluating di st J gen)"
      unfolding keep_executables_def using c by (auto intro!: store_executables_ok simp: evaluating_def row_ok_def)
    have c2: "ctx_ok re s d di st sc ?d2" using ctx_ok_static [OF c1] keep_executables_row [of sc ?d1 dp x c] by (simp add: only_row_def)
    show ?thesis by (rule start_evaluation_ok [OF c2 r2 s])
  qed
qed

lemma retryOrFail_ok:
  assumes "ctx_ok re s d di st sc db" "row_is s d db (row_ok di st J)"
  shows "row_is s d (fst (retryOrFail dp sc gen x (db, eff))) (row_ok di st J) \<and> efSkips (snd (retryOrFail dp sc gen x (db, eff))) = efSkips eff"
proof -
  have "row_is s d (MarkJobsEnqueued now s d db) (row_ok di st J)" for now
    using assms(2) unfolding MarkJobsEnqueued_def by (auto intro!: row_is_update elim!: row_is_mono row_ok_fields)
  then show ?thesis using systemError_ok [OF assms(2)] ctx_okD [OF assms(1)]
    by (auto simp: retryOrFail_def Let_def add_jobs_def systemError_def add_event_def)
qed

definition pending :: "datasetInfo \<Rightarrow> ScoreType \<Rightarrow> (string \<Rightarrow> f64) \<Rightarrow> SubmissionResult \<Rightarrow> bool" where
  "pending di st J r \<longleftrightarrow> row_ok di st J r \<and> srScoredAt r = None \<and> srSystemError r = None"

lemma handle_loaded_ok:
  assumes ctx: "ctx_ok re s d di st sc db" and r: "dbResults db (s, d) = Some r" "pending di st J r"
    and S: "skips_ok di st J S" and h: "list_all (honest di J S) (reEvaluations x)"
    and a: "handle_loaded dp txt db r sc x = Committed db' eff'"
  shows "row_is s d db' (row_ok di st J) \<and> skips_ok di st J (skipped_in s d eff')"
proof (cases "reError x = []")
  case False
  have "row_is s d db (row_ok di st J)" using r by (auto simp: row_is_def pending_def)
  then show ?thesis using a False retryOrFail_ok [OF ctx, of J dp "srGeneration r" x no_effects] skips_none [of di st J s d]
    by (auto simp: handle_loaded_def commit_def skipped_in_def split: prod.splits)
next
  case True
  show ?thesis
  proof (cases "reKind x = KindCompile")
    case True
    with \<open>reError x = []\<close> a obtain c where c: "srCompilation r = None" "applyCompilation dp txt sc (srGeneration r) x c (db, no_effects) = Some (db', eff')"
      by (auto simp: handle_loaded_def commit_def split: option.splits)
    have "row_is s d db (\<lambda>y. row_ok di st J y \<and> srCompilation y = None \<and> srScoredAt y = None \<and> srSystemError y = None \<and> srGeneration y = srGeneration r)"
      using r c(1) by (auto simp: row_is_def pending_def)
    from applyCompilation_ok [OF ctx this c(2)] show ?thesis using skips_none [of di st J s d] by (simp add: skipped_in_def)
  next
    case False
    with \<open>reError x = []\<close> a have e: "srCompilation r = Some ''ok''" "srEvaluation r = None"
        "applyEvaluations dp txt sc (srGeneration r) x (db, no_effects) = Some (db', eff')"
      by (auto simp: handle_loaded_def commit_def split: option.splits if_splits)
    have "row_is s d db (\<lambda>y. evaluating di st J (srGeneration r) y \<and> {} \<subseteq> row_keys y)"
      using r e by (auto simp: row_is_def evaluating_def pending_def)
    from applyEvaluations_ok [OF ctx this S h e(3)] show ?thesis by (auto elim: row_is_mono)
  qed
qed

lemma advance_compile_ok:
  assumes ctx: "ctx_ok re s d di st sc db" and r: "dbResults db (s, d) = Some r" "pending di st J r" "srCompilation r = None"
    and a: "advance_compile dp txt sc r rj db = Some (db', eff')"
  shows "row_is s d db' (row_ok di st J) \<and> efSkips eff' = []"
proof -
  obtain d1 c where c: "cachedCompilation dp (scJob sc) db = (d1, c)" by fastforce
  note f = cachedCompilation_frame [OF c]
  have c1: "ctx_ok re s d di st sc d1" using ctx_ok_static [OF ctx] f by simp
  have r1: "row_is s d d1 (\<lambda>y. row_ok di st J y \<and> srCompilation y = None \<and> srScoredAt y = None \<and> srSystemError y = None \<and> srGeneration y = srGeneration r)"
    using r f by (auto simp: row_is_def pending_def)
  show ?thesis
  proof (cases c)
    case (Some co)
    then have "applyCompilation dp txt sc (srGeneration r) (cached_result sc r rj co) co (d1, no_effects) = Some (db', eff')"
      using a c by (simp add: advance_compile_def)
    from applyCompilation_ok [OF c1 r1 this] show ?thesis by (simp add: no_effects_def)
  next
    case None
    then have "dbResults db' = dbResults d1 \<and> efSkips eff' = []"
      using a c by (auto simp: advance_compile_def Let_def no_effects_def add_event_def add_jobs_def split: if_splits dest!: aggregate_frame)
    then show ?thesis using r1 by (auto simp: row_is_def)
  qed
qed

lemma advance_evaluate_ok:
  assumes ctx: "ctx_ok re s d di st sc db" and r: "dbResults db (s, d) = Some r" "pending di st J r" "srCompilation r = Some ''ok''" "srEvaluation r = None"
    and a: "advance_evaluate dp txt sc r rj db = Some ((db', eff'), b)"
  shows "row_is s d db' (row_ok di st J) \<and> efSkips eff' = []"
proof (cases "missing sc db = []")
  case True
  note c = ctx_okD [OF ctx]
  let ?db = "SetEvaluationDone s d (srGeneration r) db"
  have "complete di (srEvaluations r)"
    using True r(1) c by (auto simp: missing_def complete_def ListEvaluatedTestcaseIDs_def filter_empty_conv)
  then have "row_is s d ?db (\<lambda>r. row_ok di st J r \<and> srEvaluation r \<noteq> None)"
    using r by (auto simp: SetEvaluationDone_def row_is_def pending_def row_ok_def)
  moreover have "ctx_ok re s d di st sc ?db" using ctx_ok_static [OF ctx] by (simp add: SetEvaluationDone_def)
  moreover have "scoreResult txt (dpNow dp) sc (?db, no_effects) = Some (db', eff')"
    using a True c by (auto simp: advance_evaluate_def Let_def)
  ultimately show ?thesis using scoreResult_ok [of re s d di st sc ?db J "txt" "dpNow dp" no_effects db' eff']
    by (auto simp: no_effects_def elim!: row_is_mono)
next
  case False
  have "row_is s d (InvalidateSubmissionResult ''compilation'' s d db) (row_ok di st J)"
    using r by (auto simp: InvalidateSubmissionResult_def row_is_def pending_def row_ok_def clear_compilation_def clear_evaluation_def clear_score_def)
  moreover have "row_is s d db (row_ok di st J)" using r by (auto simp: row_is_def pending_def)
  ultimately show ?thesis using a False ctx_okD [OF ctx]
    by (auto simp: advance_evaluate_def Let_def no_effects_def add_jobs_def split: if_splits)
qed

lemma advance_loaded_ok:
  assumes ctx: "ctx_ok re s d di st sc db" and r: "dbResults db (s, d) = Some r" "pending di st J r"
    and a: "advance_loaded dp txt sc r rj db = Some (db', eff')"
  shows "row_is s d db' (row_ok di st J) \<and> efSkips eff' = []"
proof -
  note c = ctx_okD [OF ctx]
  have mark: "row_is s d (MarkJobsEnqueued now s d x) (row_ok di st J)" if "row_is s d x (row_ok di st J)" for x now
    using that unfolding MarkJobsEnqueued_def by (auto intro!: row_is_update elim!: row_is_mono row_ok_fields)
  have "srCompilation r \<in> {None, Some ''ok'', Some ''fail''}" using r(2) by (simp add: pending_def row_ok_def)
  then consider (none) "srCompilation r = None" | (fail) "srCompilation r = Some ''fail''"
    | (eval) "srCompilation r = Some ''ok''" "srEvaluation r = None" | (score) "srCompilation r = Some ''ok''" "srEvaluation r \<noteq> None"
    by (cases "srEvaluation r") auto
  then show ?thesis
  proof cases
    case none
    then obtain d1 where "advance_compile dp txt sc r rj db = Some (d1, eff')" "db' = MarkJobsEnqueued (dpNow dp) s d d1"
      using a c by (auto simp: advance_loaded_def)
    then show ?thesis using advance_compile_ok [OF ctx r none] mark by blast
  next
    case fail
    then have f: "scoreCompilationFailure (dpNow dp) sc (db, no_effects) = Some (db', eff')" using a by (simp add: advance_loaded_def)
    have "row_is s d db (\<lambda>r. row_ok di st J r \<and> srCompilation r = Some ''fail'')" using r fail by (auto simp: row_is_def pending_def)
    from scoreCompilationFailure_ok [OF ctx this f] show ?thesis by (auto simp: no_effects_def elim: row_is_mono)
  next
    case eval
    with a obtain d1 e1 b where e: "advance_evaluate dp txt sc r rj db = Some ((d1, e1), b)"
      by (cases "advance_evaluate dp txt sc r rj db") (auto simp: advance_loaded_def)
    then have "e1 = eff'" "db' = (if b then MarkJobsEnqueued (dpNow dp) s d d1 else d1)"
      using a c eval by (auto simp: advance_loaded_def split: if_splits)
    then show ?thesis using advance_evaluate_ok [OF ctx r eval e] mark by simp
  next
    case score
    then have f: "scoreResult txt (dpNow dp) sc (db, no_effects) = Some (db', eff')" using a by (auto simp: advance_loaded_def)
    have "row_is s d db (\<lambda>r. row_ok di st J r \<and> srEvaluation r \<noteq> None)" using r score by (auto simp: row_is_def pending_def)
    from scoreResult_ok [OF ctx this f] show ?thesis by (auto simp: no_effects_def elim: row_is_mono)
  qed
qed

section \<open>Runs\<close>

text \<open>
  What happens to the database and the cache of datasets, with the testcases the workers were
  told to skip for submission \<open>s\<close> on dataset \<open>d\<close>: a job result is processed (results of
  other submissions are arbitrary, those of \<open>s\<close> on \<open>d\<close> are honest), a result is made
  to progress (a new submission, the sweeper), results are invalidated, the cache is dropped.
  The clock, the options and the languages may differ from step to step.
\<close>

type_synonym world = "DB \<times> datasetCache \<times> int set"

definition after_tx :: "DB \<Rightarrow> tx_result \<Rightarrow> DB" where
  "after_tx db t = (case t of Committed db' _ \<Rightarrow> db' | _ \<Rightarrow> db)"

definition tx_skips :: "int \<Rightarrow> int \<Rightarrow> tx_result \<Rightarrow> int set" where
  "tx_skips s d t = (case t of Committed _ eff \<Rightarrow> skipped_in s d eff | _ \<Rightarrow> {})"

inductive judging :: "regexp \<Rightarrow> int \<Rightarrow> int \<Rightarrow> datasetInfo \<Rightarrow> (string \<Rightarrow> f64) \<Rightarrow> world \<Rightarrow> world \<Rightarrow> bool"
  for re s d di J where
  start: "judging re s d di J w w"
| result: "judging re s d di J w (db, m, S) \<Longrightarrow> dpRegexp dp = re \<Longrightarrow>
    (reSubmissionID x = s \<and> reDatasetID x = d \<longrightarrow> list_all (honest di J S) (reEvaluations x)) \<Longrightarrow>
    handleSubmissionResult dp etxt txt m db x = (t, m') \<Longrightarrow> judging re s d di J w (after_tx db t, m', S \<union> tx_skips s d t)"
| progress: "judging re s d di J w (db, m, S) \<Longrightarrow> dpRegexp dp = re \<Longrightarrow> advance dp etxt txt m s' d' rj db = (t, m') \<Longrightarrow>
    judging re s d di J w (after_tx db t, m', S \<union> tx_skips s d t)"
| invalidated: "judging re s d di J w (db, m, S) \<Longrightarrow> level \<in> {Recompile, Reevaluate, Rescore} \<Longrightarrow>
    Invalidate userOf keys so level db = Inr (db', n) \<Longrightarrow> judging re s d di J w (db', m, S)"
| dropped: "judging re s d di J w (db, m, S) \<Longrightarrow> judging re s d di J w (db, [], S)"

inductive_cases judgingE: "judging re s d di J w w'"

definition world_ok :: "regexp \<Rightarrow> int \<Rightarrow> int \<Rightarrow> datasetInfo \<Rightarrow> ScoreType \<Rightarrow> (string \<Rightarrow> f64) \<Rightarrow> world \<Rightarrow> bool" where
  "world_ok re s d di st J = (\<lambda>(db, m, S).
     setting re db d di st \<and> cache_ok re db m \<and> skips_ok di st J S \<and> (\<forall>r. dbResults db (s, d) = Some r \<longrightarrow> row_ok di st J r))"

lemma skips_union: "skips_ok di st J A \<Longrightarrow> skips_ok di st J B \<Longrightarrow> skips_ok di st J (A \<union> B)"
  by (auto simp: skips_ok_def)

lemma skips_empty [simp]: "skips_ok di st J {}"
  by (simp add: skips_ok_def)

lemma world_ok_row:
  assumes "world_ok re s d di st J (db, m, S)" "static db' = static db" "cache_ok re db m'" "skips_ok di st J S'"
    and "\<And>r. dbResults db' (s, d) = Some r \<Longrightarrow> row_ok di st J r"
  shows "world_ok re s d di st J (db', m', S \<union> S')"
  using assms setting_static [of db db'] cache_ok_static [of db db'] skips_union by (auto simp: world_ok_def)

lemma other_row:
  assumes "only_row s' d' db db'" "(s', d') \<noteq> (s, d)" "world_ok re s d di st J (db, m, S)"
  shows "dbResults db' (s, d) = Some r \<Longrightarrow> row_ok di st J r"
  using assms by (auto simp: only_row_def world_ok_def)

lemma loaded_ctx:
  assumes "world_ok re s d di st J (db, m, S)" "dpRegexp dp = re" "loadSubmission dp db m s d = (Inr sc, m')"
  shows "ctx_ok re s d di st sc db"
  using assms loadSubmission_ok [of dp db m s d "Inr sc" m'] by (auto simp: world_ok_def ctx_ok_def setting_def)

lemma skipped_in_other: "efSkips eff = [] \<Longrightarrow> skipped_in s d eff = {}"
  by (simp add: skipped_in_def)

lemma systemError_world:
  assumes "world_ok re s d di st J (db, m, S)" "only_row s' d' db db1" "\<And>r. dbResults db1 (s, d) = Some r \<Longrightarrow> row_ok di st J r"
    and "systemError s' d' None msg (db1, no_effects) = (db', eff')"
  shows "static db' = static db \<and> skipped_in s d eff' = {} \<and> (\<forall>r. dbResults db' (s, d) = Some r \<longrightarrow> row_ok di st J r)"
  using assms by (auto simp: systemError_def Let_def no_effects_def add_event_def skipped_in_def SetSubmissionSystemError_def
      only_row_def elim!: row_ok_fields split: if_splits)

text \<open>A handler publishes testcases to skip for its own submission only.\<close>

definition own_skips :: "submissionCtx \<Rightarrow> effects \<Rightarrow> bool" where
  "own_skips sc eff \<longleftrightarrow> (\<forall>k \<in> set (efSkips eff). skSubmissionID k = sub_of sc \<and> skDatasetID k = ds_of sc)"

lemma own_skips_other: "own_skips sc eff \<Longrightarrow> (sub_of sc, ds_of sc) \<noteq> (s, d) \<Longrightarrow> skipped_in s d eff = {}"
  by (auto simp: own_skips_def skipped_in_def)

lemma own_skips_none [simp]: "own_skips sc no_effects"
  by (simp add: own_skips_def no_effects_def)

lemma own_skips_event [simp]: "own_skips sc (add_event e eff) = own_skips sc eff" "own_skips sc (add_jobs js eff) = own_skips sc eff"
  by (simp_all add: own_skips_def add_event_def add_jobs_def)

lemma aggregateIfLive_skips: "aggregateIfLive now sc t = Some (db', eff') \<Longrightarrow> own_skips sc (snd t) \<Longrightarrow> own_skips sc eff'"
  by (cases t) (auto simp: own_skips_def dest!: aggregateIfLive_frame)

lemma scoreResult_skips: "scoreResult txt now sc t = Some (db', eff') \<Longrightarrow> own_skips sc (snd t) \<Longrightarrow> own_skips sc eff'"
  by (cases t) (auto simp: scoreResult_def systemError_def Let_def split: option.splits score_iface.splits dest!: aggregateIfLive_skips)

lemma finish_evaluation_skips: "finish_evaluation txt now sc gen t = Some (db', eff') \<Longrightarrow> own_skips sc (snd t) \<Longrightarrow> own_skips sc eff'"
  by (cases t) (auto simp: finish_evaluation_def Let_def split: option.splits if_splits dest!: scoreResult_skips)

lemma shortCircuit_skips: "shortCircuit sc gen t = Some (db', eff') \<Longrightarrow> own_skips sc (snd t) \<Longrightarrow> own_skips sc eff'"
  by (cases t) (auto simp: shortCircuit_def skip_testcases_def Let_def own_skips_def split: score_iface.splits ScoreType.splits if_splits)

lemma applyEvaluations_skips:
  "applyEvaluations dp txt sc gen x (db, no_effects) = Some (db', eff') \<Longrightarrow> own_skips sc eff'"
  by (auto simp: applyEvaluations_def Let_def split: option.splits if_splits dest!: finish_evaluation_skips shortCircuit_skips)

lemma applyCompilation_skips:
  "applyCompilation dp txt sc gen x c (db, no_effects) = Some (db', eff') \<Longrightarrow> own_skips sc eff'"
  by (auto simp: applyCompilation_def start_evaluation_def scoreCompilationFailure_def Let_def split: if_splits
      dest!: scoreResult_skips aggregateIfLive_skips)

lemma handle_loaded_skips: "handle_loaded dp txt db st sc x = Committed db' eff' \<Longrightarrow> own_skips sc eff'"
  by (auto simp: handle_loaded_def commit_def retryOrFail_def systemError_def Let_def split: if_splits option.splits prod.splits
      dest!: applyEvaluations_skips applyCompilation_skips)

lemma advance_loaded_skips: "advance_loaded dp txt sc st rj db = Some (db', eff') \<Longrightarrow> own_skips sc eff'"
  by (auto simp: advance_loaded_def advance_compile_def advance_evaluate_def scoreCompilationFailure_def Let_def
      split: if_splits option.splits prod.splits dest!: applyCompilation_skips scoreResult_skips aggregateIfLive_skips)

lemma handle_world:
  assumes w: "world_ok re s d di st J (db, m, S)" and re: "dpRegexp dp = re"
    and h: "reSubmissionID x = s \<and> reDatasetID x = d \<longrightarrow> list_all (honest di J S) (reEvaluations x)"
    and a: "handleSubmissionResult dp etxt txt m db x = (t, m')"
  shows "world_ok re s d di st J (after_tx db t, m', S \<union> tx_skips s d t)"
proof -
  let ?s = "reSubmissionID x" and ?d = "reDatasetID x"
  have c: "cache_ok (dpRegexp dp) db m" and rows: "\<And>r. dbResults db (s, d) = Some r \<Longrightarrow> row_ok di st J r"
    and Sk: "skips_ok di st J S" using w re by (auto simp: world_ok_def)
  have same: "world_ok re s d di st J (db, m1, S)" if "cache_ok re db m1" for m1
    using world_ok_row [OF w refl that skips_empty rows] by simp
  show ?thesis
  proof (cases "t = Stale \<and> m' = m")
    case True
    then show ?thesis using w by (simp add: after_tx_def tx_skips_def)
  next
    case False
    then obtain r where r: "dbResults db (?s, ?d) = Some r" "srScoredAt r = None" "srSystemError r = None"
      using a by (auto simp: handleSubmissionResult_def Let_def LockSubmissionResult_def split: option.splits if_splits)
    obtain l m1 where l: "loadSubmission dp db m ?s ?d = (l, m1)" by fastforce
    have m': "m' = m1" and t: "t = (case l of Inl e \<Rightarrow> commit (Some (systemError ?s ?d None (etxt e) (db, no_effects))) | Inr sc \<Rightarrow> handle_loaded dp txt db r sc x)"
      using a False r l by (auto simp: handleSubmissionResult_def Let_def LockSubmissionResult_def split: if_splits Sum_Type.sum.splits)
    note L = loadSubmission_ok [OF c l]
    then have c1: "cache_ok re db m'" using m' re by simp
    show ?thesis
    proof (cases t)
      case (Committed db' eff')
      have "static db' = static db \<and> skips_ok di st J (skipped_in s d eff') \<and> (\<forall>r. dbResults db' (s, d) = Some r \<longrightarrow> row_ok di st J r)"
      proof (cases l)
        case (Inl e)
        then show ?thesis using systemError_world [OF w only_row_refl rows] t Committed
          by (auto simp: commit_def split: prod.splits)
      next
        case (Inr sc)
        then have hl: "handle_loaded dp txt db r sc x = Committed db' eff'" and sc: "sub_of sc = ?s" "ds_of sc = ?d"
          using t Committed L load_dataset_id by auto
        have o: "only_row ?s ?d db db'" using handle_loaded_row [OF hl] sc by simp
        show ?thesis
        proof (cases "(?s, ?d) = (s, d)")
          case True
          then have ctx: "ctx_ok re s d di st sc db" using loaded_ctx [OF w re, of sc m'] l Inr m' by simp
          have "pending di st J r" using r rows True by (simp add: pending_def)
          with handle_loaded_ok [OF ctx _ _ Sk _ hl] r h True show ?thesis using o by (auto simp: only_row_def row_is_def)
        next
          case False
          then show ?thesis using own_skips_other [OF handle_loaded_skips [OF hl]] sc other_row [OF o False w] o
            by (auto simp: only_row_def)
        qed
      qed
      then show ?thesis using world_ok_row [OF w _ c1] Committed by (auto simp: after_tx_def tx_skips_def)
    qed (use same [OF c1] in \<open>simp_all add: after_tx_def tx_skips_def\<close>)
  qed
qed

lemma Ensure_row: "only_row s d db (EnsureSubmissionResult s d db)"
  by (auto simp: EnsureSubmissionResult_def only_row_def static_def split: option.splits)

lemma Ensure_ok:
  assumes "world_ok re s d di st J (db, m, S)"
  shows "dbResults (EnsureSubmissionResult s' d' db) (s, d) = Some r \<Longrightarrow> row_ok di st J r"
  using assms new_result_ok by (auto simp: EnsureSubmissionResult_def world_ok_def split: option.splits if_splits)

lemma advance_world:
  assumes w: "world_ok re s d di st J (db, m, S)" and re: "dpRegexp dp = re"
    and a: "advance dp etxt txt m s' d' rj db = (t, m')"
  shows "world_ok re s d di st J (after_tx db t, m', S \<union> tx_skips s d t)"
proof -
  let ?db = "EnsureSubmissionResult s' d' db"
  note E = Ensure_row [of s' d' db]
  have st: "static ?db = static db" using E by (simp add: only_row_def)
  have c: "cache_ok (dpRegexp dp) ?db m" using w re cache_ok_static [OF st] by (simp add: world_ok_def)
  have w1: "world_ok re s d di st J (?db, m1, S)" if "cache_ok re ?db m1" for m1
    using world_ok_row [OF w st, of m1 "{}"] that cache_ok_static [OF st] Ensure_ok [OF w] by simp
  have w2: "world_ok re s d di st J (?db, m, S)" using w1 c re by simp
  have rows: "\<And>r. dbResults db (s, d) = Some r \<Longrightarrow> row_ok di st J r" using w by (simp add: world_ok_def)
  obtain r where r: "dbResults ?db (s', d') = Some r" by (cases "dbResults db (s', d')") (auto simp: EnsureSubmissionResult_def)
  show ?thesis
  proof (cases "srScoredAt r \<noteq> None \<or> srSystemError r \<noteq> None")
    case True
    then have "t = Committed ?db no_effects" "m' = m" using a r by (auto simp: advance_def Let_def LockSubmissionResult_def)
    then show ?thesis using w2 by (simp add: after_tx_def tx_skips_def skipped_in_def no_effects_def)
  next
    case False
    obtain l m1 where l: "loadSubmission dp ?db m s' d' = (l, m1)" by fastforce
    have m': "m' = m1" and t: "t = (case l of Inl e \<Rightarrow> commit (Some (systemError s' d' None (etxt e) (?db, no_effects)))
        | Inr sc \<Rightarrow> commit (advance_loaded dp txt sc r rj ?db))"
      using a False r l by (auto simp: advance_def Let_def LockSubmissionResult_def split: if_splits Sum_Type.sum.splits)
    note L = loadSubmission_ok [OF c l]
    then have c1: "cache_ok re ?db m'" using m' re by simp
    then have c2: "cache_ok re db m'" using cache_ok_static [OF st] by simp
    show ?thesis
    proof (cases t)
      case (Committed db' eff')
      have "static db' = static ?db \<and> skips_ok di st J (skipped_in s d eff') \<and> (\<forall>r. dbResults db' (s, d) = Some r \<longrightarrow> row_ok di st J r)"
      proof (cases l)
        case (Inl e)
        then show ?thesis using systemError_world [OF w2 only_row_refl Ensure_ok [OF w]] t Committed
          by (auto simp: commit_def split: prod.splits)
      next
        case (Inr sc)
        then have al: "advance_loaded dp txt sc r rj ?db = Some (db', eff')" and sc: "sub_of sc = s'" "ds_of sc = d'"
          using t Committed L load_dataset_id by (auto simp: commit_def split: option.splits)
        have o: "only_row s' d' ?db db'" using advance_loaded_row [OF al] sc by simp
        show ?thesis
        proof (cases "(s', d') = (s, d)")
          case True
          then have ctx: "ctx_ok re s d di st sc ?db" using loaded_ctx [OF w2 re, of sc m'] l Inr m' by simp
          have "pending di st J r" using r False Ensure_ok [OF w] True by (auto simp: pending_def)
          with advance_loaded_ok [OF ctx _ _ al] r True show ?thesis using o by (auto simp: only_row_def row_is_def skipped_in_other)
        next
          case False
          then show ?thesis using own_skips_other [OF advance_loaded_skips [OF al]] sc other_row [OF o False w2] o
            by (auto simp: only_row_def)
        qed
      qed
      then show ?thesis using world_ok_row [OF w _ c2] st Committed by (auto simp: after_tx_def tx_skips_def)
    qed (use world_ok_row [OF w refl c2 skips_empty rows] in \<open>simp_all add: after_tx_def tx_skips_def\<close>)
  qed
qed

lemma invalidate_row_ok:
  assumes "\<And>r. dbResults db (s, d) = Some r \<Longrightarrow> row_ok di st J r" "level \<in> {Recompile, Reevaluate, Rescore}"
  shows "dbResults (invalidate_one level db k) (s, d) = Some r \<Longrightarrow> row_ok di st J r"
  using assms
  by (cases k) (auto simp: invalidate_one_def Let_def result_statements Recompile_def Reevaluate_def Rescore_def
      clear_compilation_def clear_evaluation_def clear_score_def row_ok_def split: if_splits)

lemma invalidate_static: "static (invalidate_one level db k) = static db"
  by (cases k) (auto simp: invalidate_one_def Let_def result_statements)

lemma invalidate_all_ok:
  assumes "\<And>r. dbResults db (s, d) = Some r \<Longrightarrow> row_ok di st J r" "level \<in> {Recompile, Reevaluate, Rescore}"
  shows "(\<forall>r. dbResults (foldl (invalidate_one level) db ks) (s, d) = Some r \<longrightarrow> row_ok di st J r)
    \<and> static (foldl (invalidate_one level) db ks) = static db"
  using assms(1)
proof (induction ks arbitrary: db)
  case (Cons k ks)
  have "row_ok di st J r" if "dbResults (invalidate_one level db k) (s, d) = Some r" for r
    using invalidate_row_ok [of db s d di st J level k r] Cons.prems assms(2) that by blast
  then show ?case using Cons.IH [of "invalidate_one level db k"] invalidate_static [of level db k] by simp
qed simp

lemma judging_ok:
  assumes "judging re s d di J w w'" "world_ok re s d di st J w"
  shows "world_ok re s d di st J w'"
  using assms
proof induction
  case (result w db m S dp x)
  then show ?case by (intro handle_world)
next
  case (progress w db m S dp)
  then show ?case by (intro advance_world)
next
  case (invalidated w db m S level userOf keys so db' n)
  then have w: "world_ok re s d di st J (db, m, S)" by simp
  let ?c = "if level = Recompile \<and> filter (in_scope userOf db so) keys \<noteq> [] then ClearCompilationCache db else db"
  have "db' = foldl (invalidate_one level) ?c (filter (in_scope userOf db so) keys)"
    using invalidated.hyps(3) by (auto simp: Invalidate_def Let_def split: if_splits)
  moreover have "static ?c = static db" "dbResults ?c = dbResults db" by auto
  ultimately have "(\<forall>r. dbResults db' (s, d) = Some r \<longrightarrow> row_ok di st J r) \<and> static db' = static db"
    using invalidate_all_ok [of ?c s d di st J level] invalidated.hyps(2) w by (auto simp: world_ok_def)
  then show ?case using world_ok_row [OF w, of db' m "{}"] w by (auto simp: world_ok_def)
next
  case (dropped w db m S)
  then show ?case by (auto simp: world_ok_def cache_ok_def)
qed

end
