(* ===== verification/Judging_Props.thy ===== *)
theory Judging_Props
  imports Judging_Correct
begin

text \<open>
  The properties of the judging: the score of a judged submission, that enough results finish
  it, that a valid score type never ends the process (and an invalid one does), that every
  missing testcase is enqueued, and that retries are bounded.
\<close>

section \<open>The score of a judged submission\<close>

text \<open>
  Property C1. Judging is confluent and the short-circuit sound, end to end: start without a
  result of the submission on the dataset; let job results be processed in any order and any
  number of times (those of other submissions, of other generations and failed ones
  included), let the sweeper and new submissions advance results, let administrators
  invalidate results at any level, and let the dispatcher skip testcases. Whenever the
  submission's result is scored and it compiled, its score, public score and subtask scores
  are those of the full set of judged outcomes.
\<close>

theorem judged_score:
  assumes "setting re db0 d di st" "dbResults db0 (s, d) = None"
    and "judging re s d di J (db0, [], {}) (db, m, S)"
    and "dbResults db (s, d) = Some r" "srScoredAt r \<noteq> None" "srCompilation r = Some ''ok''"
  shows "srScore r = Some (Score (Compute_score st (judged di J)))
    \<and> srPublicScore r = Some (PublicScore (Compute_score st (judged di J)))
    \<and> srRanking r = Some (RankingDetails (Compute_score st (judged di J)))"
proof -
  have "world_ok re s d di st J (db0, [], {})" using assms(1,2) by (simp add: world_ok_def cache_ok_def)
  from judging_ok [OF assms(3) this] have "row_ok di st J r" using assms(4) by (simp add: world_ok_def)
  then show ?thesis using assms(5,6) by (auto simp: row_ok_def Let_def)
qed

definition ex_test :: "int \<Rightarrow> string \<Rightarrow> TestcaseT" where
  "ex_test i c = \<lparr>teID = i, teDatasetID = 2, teCodename = c, tePublic = True, teInputDigest = ''in'', teOutputDigest = ''out''\<rparr>"

definition ex_judging_db :: "int option \<Rightarrow> json \<Rightarrow> DB" where
  "ex_judging_db active params =
     \<lparr>dbSubmissions = [\<lparr>smID = 5, smParticipationID = Some 7, smTaskID = 1, smSubmittedAt = 100, smLanguage = None, smOfficial = True,
        smTester = False, smInvalidated = False, smTokened = False, smFiles = [(''out.txt'', ''digest'')]\<rparr>],
      dbParticipations = [(7, 3)],
      dbTasks = [\<lparr>tkID = 1, tkContestID = Some 3, tkActiveDatasetID = active, tkScoreMode = ModeMax, tkScorePrecision = 0\<rparr>],
      dbDatasets = [\<lparr>dtID = 2, dtTaskID = 1, dtTaskType = ''OutputOnly'', dtTaskTypeParams = ''{}'', dtTimeLimitMs = Some 1000,
        dtWallTimeLimitMs = None, dtMemoryLimitBytes = None, dtOutputLimitBytes = 0, dtProcessLimit = 1, dtScoreType = ''GroupMin'',
        dtScoreTypeParams = Some params, dtShortCircuit = True, dtAutojudge = False\<rparr>],
      dbTestcases = [ex_test 11 ''a'', ex_test 12 ''b''], dbManagers = [], dbResults = Map.empty, dbScores = Map.empty, dbFlags = [],
      dbBlobs = [], dbCache = []\<rparr>"

definition ex_db :: DB where "ex_db = ex_judging_db None (JArr [JArr [JInt 100, JInt 2]])"

definition ex_disp :: Dispatcher where
  "ex_disp = \<lparr>dpRegexp = (\<lambda>_. None), dpLangs = empty_registry, dpSha256 = id, dpMarshal = lnID,
     dpOpts = defaults \<lparr>opMaxAttempts = 0, opTestcasesPerJob = 0\<rparr>, dpNow = 200\<rparr>"

definition ex_res :: "string \<Rightarrow> Compilation option \<Rightarrow> Evaluation list \<Rightarrow> JobResult" where
  "ex_res k c es = \<lparr>reJobID = [], reKind = k, reAttempt = 0, rePriority = PriorityEvaluate, reWorker = ''w'', reSubmissionID = 5,
     reUserTestID = 0, reDatasetID = 2, reGeneration = 0, reTestcases = [], reCompilation = c, reEvaluations = es, reUserTest = None,
     reError = []\<rparr>"

definition ex_eval :: "int \<Rightarrow> string \<Rightarrow> f64 \<Rightarrow> Evaluation" where
  "ex_eval i c v = \<lparr>evTestcaseID = i, evCodename = c, evOutcome = v, evText = [], evTime = 0, evWallTime = 0, evMemory = 0,
     evExitStatus = ''ok'', evExitCode = 0, evSignal = 0\<rparr>"

definition ex_compiled :: JobResult where
  "ex_compiled = ex_res KindCompile (Some \<lparr>coSuccess = True, coText = [], coStdout = [], coStderr = [], coTime = 0, coWallTime = 0,
     coMemory = 0, coExecutables = [], coSecurity = False\<rparr>) []"

definition ex_evaluated :: JobResult where
  "ex_evaluated = ex_res KindEvaluate None [ex_eval 11 ''a'' 0]"

definition ex_created :: "DB \<times> datasetCache" where
  "ex_created = (let (t, m) = advance ex_disp (\<lambda>_. []) (\<lambda>_. []) [] 5 2 False ex_db in (after_tx ex_db t, m))"

definition process :: "Dispatcher \<Rightarrow> (load_error \<Rightarrow> string) \<Rightarrow> (score_error \<Rightarrow> string) \<Rightarrow> DB \<times> datasetCache \<Rightarrow> JobResult \<Rightarrow> DB \<times> datasetCache" where
  "process dp etxt txt = (\<lambda>(db, m) x. let (t, m') = handleSubmissionResult dp etxt txt m db x in (after_tx db t, m'))"

definition ex_ready :: "DB \<times> datasetCache" where
  "ex_ready = process ex_disp (\<lambda>_. []) (\<lambda>_. []) ex_created ex_compiled"

definition ex_judged :: "DB \<times> datasetCache" where
  "ex_judged = process ex_disp (\<lambda>_. []) (\<lambda>_. []) ex_ready ex_evaluated"

definition ex_di :: datasetInfo where
  "ex_di = (case load_dataset (\<lambda>_. None) ex_db 2 of Inr di \<Rightarrow> di | Inl _ \<Rightarrow> undefined)"

definition ex_st :: ScoreType where
  "ex_st = (case diScoreType ex_di of HasType st \<Rightarrow> st | _ \<Rightarrow> undefined)"

definition ex_J :: "string \<Rightarrow> f64" where
  "ex_J c = (if c = ''a'' then 0 else 1)"

lemma ex_setting: "setting (\<lambda>_. None) ex_db 2 ex_di ex_st"
proof -
  have "\<not> isl (load_dataset (\<lambda>_. None) ex_db 2)" by code_simp
  then have "load_dataset (\<lambda>_. None) ex_db 2 = Inr ex_di" by (cases "load_dataset (\<lambda>_. None) ex_db 2") (auto simp: ex_di_def)
  moreover have "diScoreType ex_di = HasType ex_st" by code_simp
  moreover have "distinct (map teID (dbTestcases ex_db)) \<and> distinct (map teCodename (diTestcases ex_di)) \<and> length (diTestcases ex_di) = 2"
    by code_simp
  ultimately show ?thesis by (simp add: setting_def)
qed

lemma process_judging:
  assumes "judging re s d di J w (db, m, S)" "dpRegexp dp = re"
    and "reSubmissionID x = s \<and> reDatasetID x = d \<longrightarrow> list_all (honest di J S) (reEvaluations x)"
  shows "\<exists>S'. S \<subseteq> S' \<and> judging re s d di J w (fst (process dp etxt txt (db, m) x), snd (process dp etxt txt (db, m) x), S')"
proof -
  obtain t m' where "handleSubmissionResult dp etxt txt m db x = (t, m')" by fastforce
  with judging.result [OF assms this] show ?thesis by (auto simp: process_def)
qed

lemma ex_ready_run: "\<exists>S. judging (\<lambda>_. None) 5 2 ex_di ex_J (ex_db, [], {}) (fst ex_ready, snd ex_ready, S)"
proof -
  obtain t m' where a: "advance ex_disp (\<lambda>_. []) (\<lambda>_. []) [] 5 2 False ex_db = (t, m')" by fastforce
  have "dpRegexp ex_disp = (\<lambda>_. None)" by (simp add: ex_disp_def)
  from judging.progress [OF judging.start this a, of 5 2 ex_di ex_J "{}"]
  obtain S where s: "judging (\<lambda>_. None) 5 2 ex_di ex_J (ex_db, [], {}) (fst ex_created, snd ex_created, S)"
    by (auto simp: ex_created_def a)
  have "list_all (honest ex_di ex_J S') (reEvaluations ex_compiled)" for S' by (simp add: ex_compiled_def ex_res_def)
  then show ?thesis using process_judging [OF s, of ex_disp ex_compiled "\<lambda>_. []" "\<lambda>_. []"] by (auto simp: ex_disp_def ex_ready_def)
qed

lemma ex_honest: "list_all (honest ex_di ex_J S) (reEvaluations ex_evaluated)"
proof -
  have "map teID (diTestcases ex_di) = [11, 12] \<and> map teCodename (diTestcases ex_di) = [''a'', ''b'']" by code_simp
  then obtain x y where "diTestcases ex_di = [x, y]" "teID x = 11" "teID y = 12" "teCodename x = ''a''" by auto
  then show ?thesis by (auto simp: ex_evaluated_def ex_res_def honest_def ex_eval_def ex_J_def)
qed

lemma ex_run: "\<exists>S. judging (\<lambda>_. None) 5 2 ex_di ex_J (ex_db, [], {}) (fst ex_judged, snd ex_judged, S)"
proof -
  obtain S1 where s1: "judging (\<lambda>_. None) 5 2 ex_di ex_J (ex_db, [], {}) (fst ex_ready, snd ex_ready, S1)" using ex_ready_run by blast
  from process_judging [OF s1, of ex_disp ex_evaluated "\<lambda>_. []" "\<lambda>_. []"] ex_honest show ?thesis
    by (auto simp: ex_disp_def ex_judged_def)
qed

theorem judged_score_witness:
  "\<exists>db m S r. setting (\<lambda>_. None) ex_db 2 ex_di ex_st \<and> judging (\<lambda>_. None) 5 2 ex_di ex_J (ex_db, [], {}) (db, m, S)
    \<and> dbResults db (5, 2) = Some r \<and> length (srEvaluations r) = 2
    \<and> srScore r = Some (Score (Compute_score ex_st (judged ex_di ex_J)))"
proof -
  obtain S where run: "judging (\<lambda>_. None) 5 2 ex_di ex_J (ex_db, [], {}) (fst ex_judged, snd ex_judged, S)" using ex_run by blast
  have "case dbResults (fst ex_judged) (5, 2) of
      Some r \<Rightarrow> srScoredAt r \<noteq> None \<and> srCompilation r = Some ''ok'' \<and> length (srEvaluations r) = 2 | None \<Rightarrow> False"
    by code_simp
  then obtain r where r: "dbResults (fst ex_judged) (5, 2) = Some r" "srScoredAt r \<noteq> None" "srCompilation r = Some ''ok''"
    "length (srEvaluations r) = 2" by (auto split: option.splits)
  have "dbResults ex_db (5, 2) = None" by (simp add: ex_db_def ex_judging_db_def)
  from judged_score [OF ex_setting this run r(1-3)] show ?thesis using ex_setting run r by blast
qed

section \<open>No handler panics with a valid score type\<close>

lemma aggregateIfLive_total: "diScoreType (scDi sc) = HasType st \<Longrightarrow> \<exists>t'. aggregateIfLive now sc t = Some t'"
  by (cases t) (auto simp: aggregateIfLive_def aggregate_def Let_def split: prod.splits)

lemma scoreResult_total:
  assumes "diScoreType (scDi sc) = HasType st"
  shows "\<exists>t'. scoreResult txt now sc t = Some t'"
  using aggregateIfLive_total [OF assms] assms by (cases t; cases "diScoreTypeErr (scDi sc)") (auto simp: scoreResult_def Let_def)

lemma scoreCompilationFailure_total: "diScoreType (scDi sc) = HasType st \<Longrightarrow> \<exists>t'. scoreCompilationFailure now sc t = Some t'"
  using aggregateIfLive_total by (cases t) (simp add: scoreCompilationFailure_def)

lemma finish_evaluation_total:
  assumes "diScoreType (scDi sc) = HasType st"
  shows "\<exists>t'. finish_evaluation txt now sc gen t = Some t'"
  using scoreResult_total [OF assms] by (cases t) (auto simp: finish_evaluation_def Let_def split: option.splits)

lemma shortCircuit_total: "diScoreType (scDi sc) = HasType st \<Longrightarrow> \<exists>t'. shortCircuit sc gen t = Some t'"
  by (cases t) (auto simp: shortCircuit_def Let_def split: ScoreType.splits)

lemma applyEvaluations_total:
  assumes "diScoreType (scDi sc) = HasType st"
  shows "\<exists>t'. applyEvaluations dp txt sc gen x t = Some t'"
proof (cases t)
  case (Pair db eff)
  obtain t1 where "(if dtShortCircuit (diDs (scDi sc)) then shortCircuit sc gen (foldl (store_evaluation sc (reWorker x)) db (reEvaluations x), eff)
      else Some (foldl (store_evaluation sc (reWorker x)) db (reEvaluations x), eff)) = Some t1"
    using shortCircuit_total [OF assms] by (cases "dtShortCircuit (diDs (scDi sc))") fastforce+
  then show ?thesis using finish_evaluation_total [OF assms] Pair by (simp add: applyEvaluations_def)
qed

lemma applyCompilation_total:
  assumes "diScoreType (scDi sc) = HasType st"
  shows "\<exists>t'. applyCompilation dp txt sc gen x c t = Some t'"
  using scoreResult_total [OF assms] scoreCompilationFailure_total [OF assms]
  by (cases t) (simp add: applyCompilation_def start_evaluation_def Let_def)

lemma advance_compile_total:
  assumes "diScoreType (scDi sc) = HasType st"
  shows "\<exists>t'. advance_compile dp txt sc r rj db = Some t'"
proof -
  obtain d1 c where c: "cachedCompilation dp (scJob sc) db = (d1, c)" by fastforce
  have "\<exists>x. aggregate now p (scDi sc) d1 = Some x" for now p using assms by (auto simp: aggregate_def Let_def split: prod.splits)
  then show ?thesis using c applyCompilation_total [OF assms] by (cases c) (simp_all add: advance_compile_def Let_def)
qed

lemma advance_evaluate_total:
  assumes "diScoreType (scDi sc) = HasType st"
  shows "\<exists>t'. advance_evaluate dp txt sc r rj db = Some t'"
proof (cases "missing sc db = []")
  case True
  then show ?thesis using scoreResult_total [OF assms] by (simp add: advance_evaluate_def Let_def del: split_paired_Ex)
next
  case False
  then show ?thesis by (cases "stored_executables db (sub_of sc) (ds_of sc) = [] \<and> jbLanguage (scJob sc) \<noteq> None") (simp_all add: advance_evaluate_def Let_def del: split_paired_Ex)
qed

lemma advance_loaded_total:
  assumes "diScoreType (scDi sc) = HasType st"
  shows "\<exists>t'. advance_loaded dp txt sc r rj db = Some t'"
proof -
  obtain a where "advance_compile dp txt sc r rj db = Some a" using advance_compile_total [OF assms] by blast
  moreover obtain b where "advance_evaluate dp txt sc r rj db = Some b" using advance_evaluate_total [OF assms] by blast
  ultimately show ?thesis using scoreResult_total [OF assms] scoreCompilationFailure_total [OF assms]
    by (simp add: advance_loaded_def Let_def del: split_paired_Ex)
qed

lemma commit_total: "\<exists>t'. t = Some t' \<Longrightarrow> commit t \<noteq> Panicked"
  by (auto simp: commit_def)

lemma handle_loaded_total:
  assumes "diScoreType (scDi sc) = HasType st"
  shows "handle_loaded dp txt db r sc x \<noteq> Panicked"
  using commit_total [OF applyCompilation_total [OF assms]] commit_total [OF applyEvaluations_total [OF assms]]
    commit_total [of "Some t" for t]
  by (cases "srCompilation r"; cases "reCompilation x") (simp_all add: handle_loaded_def)

text \<open>
  With valid score type parameters no handler ends the process: processing a job
  result of the dataset and advancing a submission on it never panic.
\<close>

theorem valid_score_type_safe:
  assumes "load_dataset (dpRegexp dp) db d = Inr di" "diScoreType di = HasType st" "cache_ok (dpRegexp dp) db m"
  shows "fst (advance dp etxt txt m s d rj db) \<noteq> Panicked
    \<and> (reDatasetID x = d \<longrightarrow> fst (handleSubmissionResult dp etxt txt m db x) \<noteq> Panicked)"
proof -
  have sc: "diScoreType (scDi sc) = HasType st" if "loadSubmission dp db' m s' d = (Inr sc, m')" "static db' = static db" for db' s' sc m'
    using loadSubmission_ok [of dp db' m s' d "Inr sc" m'] that assms cache_ok_static [of db' db] load_dataset_static [of db' db "dpRegexp dp"]
    by simp
  have e: "static (EnsureSubmissionResult s d db) = static db" using Ensure_row by (simp add: only_row_def)
  have "fst (advance dp etxt txt m s d rj db) \<noteq> Panicked"
  proof -
    obtain l m' where l: "loadSubmission dp (EnsureSubmissionResult s d db) m s d = (l, m')" by fastforce
    show ?thesis
    proof (cases l)
      case (Inr sc)
      then show ?thesis using l sc [OF _ e] commit_total [OF advance_loaded_total] by (auto simp: advance_def Let_def split: option.splits)
    qed (use l in \<open>auto simp: advance_def Let_def commit_def split: option.splits prod.splits\<close>)
  qed
  moreover have "fst (handleSubmissionResult dp etxt txt m db x) \<noteq> Panicked" if d: "reDatasetID x = d"
  proof -
    obtain l m' where l: "loadSubmission dp db m (reSubmissionID x) d = (l, m')" by fastforce
    show ?thesis
    proof (cases l)
      case (Inr sc)
      then show ?thesis using l d sc [OF _ refl] handle_loaded_total by (auto simp: handleSubmissionResult_def Let_def split: option.splits)
    qed (use l d in \<open>auto simp: handleSubmissionResult_def Let_def commit_def split: option.splits prod.splits\<close>)
  qed
  ultimately show ?thesis by blast
qed

theorem valid_score_type_safe_witness:
  "fst (advance ex_disp (\<lambda>_. []) (\<lambda>_. []) [] 5 2 False ex_db) \<noteq> Panicked
    \<and> fst (handleSubmissionResult ex_disp (\<lambda>_. []) (\<lambda>_. []) [] (fst ex_created) ex_compiled) \<noteq> Panicked"
proof -
  have l: "load_dataset (dpRegexp ex_disp) db 2 = Inr ex_di \<and> diScoreType ex_di = HasType ex_st \<and> cache_ok (dpRegexp ex_disp) db []"
    if "static db = static ex_db" for db
    using ex_setting load_dataset_static [OF that] by (simp add: setting_def ex_disp_def cache_ok_def)
  have s: "static (fst ex_created) = static ex_db" by code_simp
  have x: "reDatasetID ex_compiled = 2" by (simp add: ex_compiled_def ex_res_def)
  show ?thesis using l [OF refl] l [OF s] x
      valid_score_type_safe [of ex_disp ex_db 2 ex_di ex_st "[]" "\<lambda>_. []" "\<lambda>_. []" 5 False]
      valid_score_type_safe [of ex_disp "fst ex_created" 2 ex_di ex_st "[]" "\<lambda>_. []" "\<lambda>_. []" 5 False ex_compiled] by blast
qed

text \<open>
  With invalid parameters of a score type the dispatcher crashes instead of
  reporting a system error: \<^verbatim>\<open>scoring.New\<close> returns the nil pointer of the concrete type
  inside a non-nil interface, \<^verbatim>\<open>aggregate\<close> takes it for a score type and
  dereferences it. Here a subtask of the live dataset asks for three testcases where the
  dataset has two; creating a submission ends the process, while the same dataset that is not
  live only enqueues the compilation.
\<close>

theorem invalid_score_type_crashes:
  "fst (advance ex_disp (\<lambda>_. []) (\<lambda>_. []) [] 5 2 False (ex_judging_db (Some 2) (JArr [JArr [JInt 100, JInt 3]]))) = Panicked
    \<and> fst (advance ex_disp (\<lambda>_. []) (\<lambda>_. []) [] 5 2 False (ex_judging_db None (JArr [JArr [JInt 100, JInt 3]]))) \<noteq> Panicked"
proof
  have "case fst (advance ex_disp (\<lambda>_. []) (\<lambda>_. []) [] 5 2 False (ex_judging_db (Some 2) (JArr [JArr [JInt 100, JInt 3]]))) of
      Panicked \<Rightarrow> True | _ \<Rightarrow> False" by code_simp
  then show "fst (advance ex_disp (\<lambda>_. []) (\<lambda>_. []) [] 5 2 False (ex_judging_db (Some 2) (JArr [JArr [JInt 100, JInt 3]]))) = Panicked"
    by (simp split: tx_result.splits)
next
  have "case fst (advance ex_disp (\<lambda>_. []) (\<lambda>_. []) [] 5 2 False (ex_judging_db None (JArr [JArr [JInt 100, JInt 3]]))) of
      Committed db eff \<Rightarrow> length (efJobs eff) = 1 | _ \<Rightarrow> False" by code_simp
  then show "fst (advance ex_disp (\<lambda>_. []) (\<lambda>_. []) [] 5 2 False (ex_judging_db None (JArr [JArr [JInt 100, JInt 3]]))) \<noteq> Panicked"
    by (auto split: tx_result.splits)
qed

section \<open>Enough results finish a submission\<close>

text \<open>The submission can be loaded: it exists and its language is known.\<close>

definition loadable :: "Dispatcher \<Rightarrow> DB \<Rightarrow> int \<Rightarrow> bool" where
  "loadable dp db s =
     (case GetSubmissionMeta db s of
        None \<Rightarrow> False
      | Some meta \<Rightarrow> (case mtLanguage meta of None \<Rightarrow> True | Some i \<Rightarrow> Get (dpLangs dp) i \<noteq> None))"

lemma loadable_static: "static db = static db' \<Longrightarrow> loadable dp db s = loadable dp db' s"
proof -
  assume "static db = static db'"
  then have e: "GetSubmission db = GetSubmission db'" "GetTask db = GetTask db'" "dbParticipations db = dbParticipations db'"
    by (auto simp: static_def GetSubmission_def GetTask_def)
  show "loadable dp db s = loadable dp db' s" unfolding loadable_def GetSubmissionMeta_def e ..
qed

lemma loadSubmission_total:
  assumes "cache_ok (dpRegexp dp) db m" "load_dataset (dpRegexp dp) db d = Inr di" "loadable dp db s"
  obtains sc m' where "loadSubmission dp db m s d = (Inr sc, m')"
proof -
  obtain g m1 where c: "cache_get (dpRegexp dp) (30 * second) (dpNow dp) db m d = (g, m1)" by fastforce
  then have "g = Inr di" using cache_get_ok [OF assms(1) c] assms(2) by simp
  then show ?thesis using that c assms(3) by (auto simp: loadSubmission_def loadable_def split: option.splits)
qed

text \<open>A result of an evaluation job of this generation, without an error and honest.\<close>

definition good_result :: "int \<Rightarrow> int \<Rightarrow> int \<Rightarrow> datasetInfo \<Rightarrow> (string \<Rightarrow> f64) \<Rightarrow> int set \<Rightarrow> JobResult \<Rightarrow> bool" where
  "good_result s d gen di J S x \<longleftrightarrow> reSubmissionID x = s \<and> reDatasetID x = d \<and> reGeneration x = gen \<and> reKind x = KindEvaluate
     \<and> reError x = [] \<and> list_all (honest di J S) (reEvaluations x)"

lemma process_good:
  assumes st: "setting (dpRegexp dp) db d di st" and c: "cache_ok (dpRegexp dp) db m" and l: "loadable dp db s"
    and S: "skips_ok di st J S" and x: "good_result s d gen di J S x"
    and r: "row_is s d db (\<lambda>r. srScoredAt r \<noteq> None \<or> evaluating di st J gen r \<and> A \<subseteq> row_keys r)"
    and p: "process dp etxt txt (db, m) x = (db', m')"
  shows "static db' = static db \<and> cache_ok (dpRegexp dp) db' m' \<and> row_is s d db' (\<lambda>r. srScoredAt r \<noteq> None
      \<or> (evaluating di st J gen r \<and> A \<union> reported di (reEvaluations x) \<subseteq> row_keys r) \<and> \<not> complete di (srEvaluations r))"
proof -
  obtain y where y: "dbResults db (s, d) = Some y" and Y: "srScoredAt y \<noteq> None \<or> evaluating di st J gen y \<and> A \<subseteq> row_keys y"
    using r by (auto simp: row_is_def)
  note X = x [unfolded good_result_def]
  show ?thesis
  proof (cases "srScoredAt y = None")
    case False
    then have "handleSubmissionResult dp etxt txt m db x = (Stale, m)"
      using X y by (simp add: handleSubmissionResult_def Let_def LockSubmissionResult_def)
    then show ?thesis using p c y False by (auto simp: process_def after_tx_def row_is_def)
  next
    case True
    then have ev: "evaluating di st J gen y" "A \<subseteq> row_keys y" using Y by auto
    obtain sc m1 where sc: "loadSubmission dp db m s d = (Inr sc, m1)"
      by (rule loadSubmission_total [OF c _ l]) (use st in \<open>auto simp: setting_def\<close>)
    have L: "cache_ok (dpRegexp dp) db m1" "sub_of sc = s" "scDi sc = di" using loadSubmission_ok [OF c sc] st by (auto simp: setting_def)
    then have ctx: "ctx_ok (dpRegexp dp) s d di st sc db" using st by (simp add: ctx_ok_def)
    obtain d1 e1 where a: "applyEvaluations dp txt sc gen x (db, no_effects) = Some (d1, e1)"
      using applyEvaluations_total [of sc st] L(3) st by (fastforce simp: setting_def)
    have "handleSubmissionResult dp etxt txt m db x = (Committed d1 e1, m1)"
      using X y ev(1) sc a by (simp add: handleSubmissionResult_def Let_def LockSubmissionResult_def handle_loaded_def evaluating_def commit_def
          KindCompile_def KindEvaluate_def)
    then have d1: "db' = d1" "m' = m1" using p by (simp_all add: process_def after_tx_def)
    have "row_is s d db (\<lambda>r. evaluating di st J gen r \<and> A \<subseteq> row_keys r)" using y ev by (auto simp: row_is_def)
    from applyEvaluations_ok [OF ctx this S _ a] X have "row_is s d d1 (\<lambda>r. srScoredAt r \<noteq> None
        \<or> (evaluating di st J gen r \<and> A \<union> reported di (reEvaluations x) \<subseteq> row_keys r) \<and> \<not> complete di (srEvaluations r))"
      by (auto elim!: row_is_mono)
    moreover have "static d1 = static db" using applyEvaluations_row [OF a] by (simp add: only_row_def)
    ultimately show ?thesis using d1 L(1) cache_ok_static [of d1 db] by simp
  qed
qed

lemma process_all_good:
  assumes "setting (dpRegexp dp) db d di st" "cache_ok (dpRegexp dp) db m" "loadable dp db s" "skips_ok di st J S"
    and "list_all (good_result s d gen di J S) xs"
    and "row_is s d db (\<lambda>r. srScoredAt r \<noteq> None \<or> (evaluating di st J gen r \<and> A \<subseteq> row_keys r) \<and> \<not> complete di (srEvaluations r))"
  shows "row_is s d (fst (foldl (process dp etxt txt) (db, m) xs)) (\<lambda>r. srScoredAt r \<noteq> None
      \<or> (evaluating di st J gen r \<and> A \<union> (\<Union>x \<in> set xs. reported di (reEvaluations x)) \<subseteq> row_keys r) \<and> \<not> complete di (srEvaluations r))"
  using assms
proof (induction xs arbitrary: db m A)
  case (Cons x xs)
  obtain db1 m1 where p: "process dp etxt txt (db, m) x = (db1, m1)" by fastforce
  have "row_is s d db (\<lambda>r. srScoredAt r \<noteq> None \<or> evaluating di st J gen r \<and> A \<subseteq> row_keys r)"
    using Cons.prems(6) by (rule row_is_mono) blast
  from process_good [OF Cons.prems(1-4) _ this p] Cons.prems(5) have
    1: "static db1 = static db" "cache_ok (dpRegexp dp) db1 m1" "row_is s d db1 (\<lambda>r. srScoredAt r \<noteq> None
      \<or> (evaluating di st J gen r \<and> A \<union> reported di (reEvaluations x) \<subseteq> row_keys r) \<and> \<not> complete di (srEvaluations r))"
    by simp_all
  have "row_is s d (fst (foldl (process dp etxt txt) (db1, m1) xs)) (\<lambda>r. srScoredAt r \<noteq> None
      \<or> (evaluating di st J gen r \<and> (A \<union> reported di (reEvaluations x)) \<union> (\<Union>x \<in> set xs. reported di (reEvaluations x)) \<subseteq> row_keys r) \<and> \<not> complete di (srEvaluations r))"
    using Cons.IH [OF _ 1(2) _ Cons.prems(4) _ 1(3)] Cons.prems(1,3,5) setting_static [OF 1(1)] loadable_static [OF 1(1)] by simp
  then show ?case using p by (simp add: Un_assoc)
qed simp

lemma covered_complete: "teID ` set (diTestcases di) \<subseteq> row_keys r \<Longrightarrow> complete di (srEvaluations r)"
  by (simp add: complete_def row_keys_def)

text \<open>
  Property C3. Judging ends: take a submission that is being evaluated and not yet complete,
  and error-free evaluation results of its generation, in any order, with repetitions, that
  report every testcase not yet evaluated. Once the dispatcher has processed them all, the
  submission is scored: no interleaving, no short-circuit and no duplicate leaves it waiting.
\<close>

theorem results_finish:
  assumes "setting (dpRegexp dp) db d di st" "cache_ok (dpRegexp dp) db m" "loadable dp db s" "skips_ok di st J S"
    and "dbResults db (s, d) = Some r" "evaluating di st J gen r" "\<not> complete di (srEvaluations r)"
    and "list_all (good_result s d gen di J S) xs"
    and "teID ` set (diTestcases di) \<subseteq> row_keys r \<union> (\<Union>x \<in> set xs. reported di (reEvaluations x))"
  shows "\<exists>r'. dbResults (fst (foldl (process dp etxt txt) (db, m) xs)) (s, d) = Some r' \<and> srScoredAt r' \<noteq> None"
proof -
  have "row_is s d db (\<lambda>r'. srScoredAt r' \<noteq> None \<or> (evaluating di st J gen r' \<and> row_keys r \<subseteq> row_keys r') \<and> \<not> complete di (srEvaluations r'))"
    using assms(5-7) by (auto simp: row_is_def)
  from process_all_good [OF assms(1-4,8) this, of etxt "txt"] obtain r' where
    1: "dbResults (fst (foldl (process dp etxt txt) (db, m) xs)) (s, d) = Some r'" and
    2: "srScoredAt r' \<noteq> None \<or> (evaluating di st J gen r' \<and> row_keys r \<union> (\<Union>x \<in> set xs. reported di (reEvaluations x)) \<subseteq> row_keys r')
      \<and> \<not> complete di (srEvaluations r')"
    unfolding row_is_def by blast
  from 2 have "srScoredAt r' \<noteq> None" using covered_complete [OF subset_trans [OF assms(9)]] by blast
  with 1 show ?thesis by blast
qed

lemma ex_ready_ok:
  "setting (\<lambda>_. None) (fst ex_ready) 2 ex_di ex_st \<and> cache_ok (\<lambda>_. None) (fst ex_ready) (snd ex_ready)
    \<and> loadable ex_disp (fst ex_ready) 5
    \<and> (\<exists>r. dbResults (fst ex_ready) (5, 2) = Some r \<and> evaluating ex_di ex_st ex_J 0 r \<and> srEvaluations r = [])"
proof -
  have "dbResults ex_db (5, 2) = None" by (simp add: ex_db_def ex_judging_db_def)
  then have w0: "world_ok (\<lambda>_. None) 5 2 ex_di ex_st ex_J (ex_db, [], {})" using ex_setting by (simp add: world_ok_def cache_ok_def)
  obtain S where "judging (\<lambda>_. None) 5 2 ex_di ex_J (ex_db, [], {}) (fst ex_ready, snd ex_ready, S)" using ex_ready_run by blast
  from judging_ok [OF this w0] have w: "world_ok (\<lambda>_. None) 5 2 ex_di ex_st ex_J (fst ex_ready, snd ex_ready, S)" .
  have "case dbResults (fst ex_ready) (5, 2) of None \<Rightarrow> False
      | Some r \<Rightarrow> srCompilation r = Some ''ok'' \<and> srEvaluation r = None \<and> srScoredAt r = None \<and> srSystemError r = None \<and> srGeneration r = 0
          \<and> srEvaluations r = []" by code_simp
  moreover have "loadable ex_disp (fst ex_ready) 5" by code_simp
  ultimately show ?thesis using w by (auto simp: world_ok_def evaluating_def split: option.splits)
qed

theorem results_finish_witness:
  "evTestcaseID (ex_eval 11 ''a'' 0) = 11
    \<and> (\<exists>r'. dbResults (fst (foldl (process ex_disp (\<lambda>_. []) (\<lambda>_. [])) (fst ex_ready, snd ex_ready)
          [ex_res KindEvaluate None [ex_eval 12 ''b'' 1], ex_evaluated])) (5, 2) = Some r' \<and> srScoredAt r' \<noteq> None)"
proof -
  let ?xs = "[ex_res KindEvaluate None [ex_eval 12 ''b'' 1], ex_evaluated]"
  obtain r where r: "setting (dpRegexp ex_disp) (fst ex_ready) 2 ex_di ex_st" "cache_ok (dpRegexp ex_disp) (fst ex_ready) (snd ex_ready)"
      "loadable ex_disp (fst ex_ready) 5" "dbResults (fst ex_ready) (5, 2) = Some r" "evaluating ex_di ex_st ex_J 0 r" "srEvaluations r = []"
    using ex_ready_ok by (auto simp: ex_disp_def)
  have "map teID (diTestcases ex_di) = [11, 12] \<and> map teCodename (diTestcases ex_di) = [''a'', ''b'']" by code_simp
  then obtain x y where xy: "diTestcases ex_di = [x, y]" "teID x = 11" "teID y = 12" "teCodename y = ''b''" by auto
  then have "list_all (honest ex_di ex_J {}) [ex_eval 12 ''b'' 1]" by (auto simp: honest_def ex_eval_def ex_J_def)
  then have g: "list_all (good_result 5 2 0 ex_di ex_J {}) ?xs"
    using ex_honest [of "{}"] by (simp add: good_result_def) (simp add: ex_res_def ex_evaluated_def)
  have n: "\<not> complete ex_di (srEvaluations r)" using r(6) xy by (simp add: complete_def)
  have "teID ` set (diTestcases ex_di) \<subseteq> row_keys r \<union> (\<Union>x \<in> set ?xs. reported ex_di (reEvaluations x))"
    using xy by (auto simp: reported_def ex_res_def ex_evaluated_def ex_eval_def)
  from results_finish [OF r(1-3) skips_empty r(4,5) n g this, of "\<lambda>_. []" "\<lambda>_. []"] show ?thesis by (simp add: ex_eval_def)
qed

section \<open>Jobs\<close>

lemma chunks_concat: "0 < n \<Longrightarrow> concat (chunks n xs) = xs"
proof (induction n xs rule: chunks.induct)
  case (1 n xs)
  then show ?case by (subst chunks.simps) auto
qed

lemma chunks_bounds: "c \<in> set (chunks n xs) \<Longrightarrow> c \<noteq> [] \<and> length c \<le> n"
proof (induction n xs rule: chunks.induct)
  case (1 n xs)
  then show ?case by (subst (asm) (2) chunks.simps) (auto split: if_splits)
qed

abbreviation job_testcases :: "Item list \<Rightarrow> JobTestcase list" where
  "job_testcases js \<equiv> concat (map (jbTestcases \<circ> itJob) js)"

definition evaluation_job :: "Dispatcher \<Rightarrow> int \<Rightarrow> int \<Rightarrow> Item \<Rightarrow> bool" where
  "evaluation_job dp gen attempt it \<longleftrightarrow> jbKind (itJob it) = KindEvaluate \<and> jbGeneration (itJob it) = gen \<and> jbAttempt (itJob it) = attempt
     \<and> jbTestcases (itJob it) \<noteq> [] \<and> int (length (jbTestcases (itJob it))) \<le> opTestcasesPerJob (dpOpts dp)"

lemma evaluateJobs_partition:
  assumes "0 < opTestcasesPerJob (dpOpts dp)"
  shows "job_testcases (evaluateJobs dp sc gen attempt prio exes ids (opTestcasesPerJob (dpOpts dp))) = jobTestcases (scDi sc) ids"
    and "list_all (evaluation_job dp gen attempt) (evaluateJobs dp sc gen attempt prio exes ids (opTestcasesPerJob (dpOpts dp)))"
proof -
  have "jbTestcases \<circ> itJob \<circ> evaluate_job dp sc gen attempt prio exes = id" by (simp add: fun_eq_iff evaluate_job_def)
  then show "job_testcases (evaluateJobs dp sc gen attempt prio exes ids (opTestcasesPerJob (dpOpts dp))) = jobTestcases (scDi sc) ids"
    using chunks_concat [of "nat (opTestcasesPerJob (dpOpts dp))"] assms by (simp add: evaluateJobs_def)
  show "list_all (evaluation_job dp gen attempt) (evaluateJobs dp sc gen attempt prio exes ids (opTestcasesPerJob (dpOpts dp)))"
    using assms by (auto simp: evaluateJobs_def list_all_iff evaluation_job_def evaluate_job_def dest!: chunks_bounds)
qed

lemma byID_unique: "distinct (map teID (diTestcases di)) \<Longrightarrow> t \<in> set (diTestcases di) \<Longrightarrow> byID di (teID t) = Some t"
proof -
  assume d: "distinct (map teID (diTestcases di))" and t: "t \<in> set (diTestcases di)"
  then obtain u where u: "byID di (teID t) = Some u" using byID_None [of di "teID t"] by blast
  then show ?thesis using byID_SomeD [OF u] d t by (metis distinct_map inj_onD)
qed

lemma jobTestcases_ids:
  assumes "distinct (map teID (diTestcases di))" "set ids \<subseteq> teID ` set (diTestcases di)"
  shows "map jtID (jobTestcases di ids) = ids"
  using assms(2)
proof (induction ids)
  case (Cons i ids)
  then obtain t where "t \<in> set (diTestcases di)" "i = teID t" by auto
  then show ?case using Cons byID_unique [OF assms(1)] by (simp add: jobTestcases_def)
qed (simp add: jobTestcases_def)

text \<open>
  Property C20. The sweeper recovers lost evaluations exactly: advancing a compiled,
  unscored submission enqueues every testcase without an evaluation once and no other, in
  evaluation jobs of the current generation that are not empty and hold at most
  \<^verbatim>\<open>TestcasesPerJob\<close> testcases, and otherwise only notes the time.
\<close>

theorem advance_enqueues_missing:
  assumes "setting (dpRegexp dp) db d di st" "cache_ok (dpRegexp dp) db m" "loadable dp db s" "0 < opTestcasesPerJob (dpOpts dp)"
    and "dbResults db (s, d) = Some r" "evaluating di st J gen r" "\<not> complete di (srEvaluations r)"
    and "srExecutables r \<noteq> [] \<or> (\<exists>t. GetSubmissionMeta db s = Some t \<and> mtLanguage t = None)"
  shows "\<exists>eff m'. advance dp etxt txt m s d rj db = (Committed (MarkJobsEnqueued (dpNow dp) s d db) eff, m')
    \<and> map jtID (job_testcases (efJobs eff)) = filter (\<lambda>i. i \<notin> row_keys r) (map teID (diTestcases di))
    \<and> list_all (evaluation_job dp gen 0) (efJobs eff)"
proof -
  note R = assms(6) [unfolded evaluating_def]
  have e: "EnsureSubmissionResult s d db = db" using assms(5) by (simp add: EnsureSubmissionResult_def)
  obtain sc m1 where sc: "loadSubmission dp db m s d = (Inr sc, m1)"
    by (rule loadSubmission_total [OF assms(2) _ assms(3)]) (use assms(1) in \<open>auto simp: setting_def\<close>)
  have L: "sub_of sc = s" "scDi sc = di" "ds_of sc = d" 
    using loadSubmission_ok [OF assms(2) sc] assms(1) load_dataset_id by (auto simp: setting_def)
  let ?ids = "filter (\<lambda>i. i \<notin> row_keys r) (map teID (diTestcases di))"
  have ids: "missing sc db = ?ids" using assms(5) L by (auto simp: missing_def ListEvaluatedTestcaseIDs_def row_keys_def intro!: filter_cong)
  then have ne: "missing sc db \<noteq> []" using assms(7) by (auto simp: complete_def row_keys_def filter_empty_conv)
  have ex: "stored_executables db s d \<noteq> [] \<or> jbLanguage (scJob sc) = None"
  proof (cases "srExecutables r = []")
    case True
    then obtain t where "GetSubmissionMeta db s = Some t" "mtLanguage t = None" using assms(8) by blast
    then show ?thesis using sc
      by (auto simp: loadSubmission_def submission_ctx_def template_job_def Let_def split: prod.splits Sum_Type.sum.splits)
  next
    case False
    then have "stable_sort (\<lambda>a b. fst a < fst b) (srExecutables r) \<noteq> []" using mset_stable_sort by (metis mset_zero_iff)
    then show ?thesis using assms(5) by (simp add: stored_executables_def ListExecutables_def)
  qed
  let ?js = "evaluateJobs dp sc gen 0 (priority sc PriorityEvaluate rj) (stored_executables db s d) ?ids (opTestcasesPerJob (dpOpts dp))"
  have "advance dp etxt txt m s d rj db = (Committed (MarkJobsEnqueued (dpNow dp) s d db) (add_jobs ?js no_effects), m1)"
    using R sc ids ne ex L e assms(5)
    by (auto simp: advance_def Let_def LockSubmissionResult_def advance_loaded_def advance_evaluate_def commit_def)
  moreover have "map jtID (job_testcases ?js) = ?ids"
    unfolding evaluateJobs_partition(1) [OF assms(4)] L using setting_distinct [OF assms(1)] by (intro jobTestcases_ids) auto
  moreover have "list_all (evaluation_job dp gen 0) ?js" by (rule evaluateJobs_partition(2) [OF assms(4)])
  ultimately show ?thesis by (auto simp: add_jobs_def no_effects_def)
qed

theorem advance_enqueues_missing_witness:
  "\<exists>eff m'. advance ex_disp (\<lambda>_. []) (\<lambda>_. []) (snd ex_ready) 5 2 False (fst ex_ready)
      = (Committed (MarkJobsEnqueued (dpNow ex_disp) 5 2 (fst ex_ready)) eff, m')
    \<and> map jtID (job_testcases (efJobs eff)) = [11, 12]"
proof -
  obtain r where r: "setting (dpRegexp ex_disp) (fst ex_ready) 2 ex_di ex_st" "cache_ok (dpRegexp ex_disp) (fst ex_ready) (snd ex_ready)"
      "loadable ex_disp (fst ex_ready) 5" "dbResults (fst ex_ready) (5, 2) = Some r" "evaluating ex_di ex_st ex_J 0 r" "srEvaluations r = []"
    using ex_ready_ok by (auto simp: ex_disp_def)
  have ids: "map teID (diTestcases ex_di) = [11, 12]" by code_simp
  then have n: "\<not> complete ex_di (srEvaluations r)" using r(6) by (cases "diTestcases ex_di") (auto simp: complete_def)
  have p: "0 < opTestcasesPerJob (dpOpts ex_disp)" by code_simp
  have "case GetSubmissionMeta (fst ex_ready) 5 of None \<Rightarrow> False | Some t \<Rightarrow> mtLanguage t = None" by code_simp
  then have l: "srExecutables r \<noteq> [] \<or> (\<exists>t. GetSubmissionMeta (fst ex_ready) 5 = Some t \<and> mtLanguage t = None)" by (auto split: option.splits)
  from advance_enqueues_missing [OF r(1-3) p r(4,5) n l, of "\<lambda>_. []" "\<lambda>_. []" False] show ?thesis
    using r(6) ids by (auto simp: row_keys_def)
qed

text \<open>
  Property C22. Failed jobs are retried a bounded number of times: a failed result of the
  current generation whose attempt is below the limit enqueues the same work with the next
  attempt number (a compilation, or exactly the testcases of the failed job), and at the limit
  nothing is enqueued and the submission ends with a system error, so that later results of
  it are stale.
\<close>

theorem retry_bounded:
  assumes "setting (dpRegexp dp) db d di st" "cache_ok (dpRegexp dp) db m" "loadable dp db s" "0 < opTestcasesPerJob (dpOpts dp)"
    and "dbResults db (s, d) = Some r" "pending di st J r"
    and "reSubmissionID x = s" "reDatasetID x = d" "reGeneration x = srGeneration r" "reError x \<noteq> []"
  shows "\<exists>db' eff m'. handleSubmissionResult dp etxt txt m db x = (Committed db' eff, m')
    \<and> (if opMaxAttempts (dpOpts dp) \<le> reAttempt x + 1
       then efJobs eff = [] \<and> row_is s d db' (\<lambda>r. srSystemError r \<noteq> None) 
         \<and> (reSubmissionID y = s \<and> reDatasetID y = d \<longrightarrow> handleSubmissionResult dp etxt txt m' db' y = (Stale, m'))
       else db' = MarkJobsEnqueued (dpNow dp) s d db
         \<and> (if reKind x = KindCompile
            then map (\<lambda>it. (jbKind (itJob it), jbGeneration (itJob it), jbAttempt (itJob it))) (efJobs eff) = [(KindCompile, srGeneration r, reAttempt x + 1)]
            else if reKind x = KindEvaluate
            then job_testcases (efJobs eff) = jobTestcases di (reTestcases x)
              \<and> list_all (evaluation_job dp (srGeneration r) (reAttempt x + 1)) (efJobs eff)
            else efJobs eff = []))"
proof -
  note R = assms(6) [unfolded pending_def]
  obtain sc m1 where sc: "loadSubmission dp db m s d = (Inr sc, m1)"
    by (rule loadSubmission_total [OF assms(2) _ assms(3)]) (use assms(1) in \<open>auto simp: setting_def\<close>)
  have L: "sub_of sc = s" "scDi sc = di" "ds_of sc = d"
    using loadSubmission_ok [OF assms(2) sc] assms(1) load_dataset_id by (auto simp: setting_def)
  obtain db' eff where f: "retryOrFail dp sc (srGeneration r) x (db, no_effects) = (db', eff)" by fastforce
  have h: "handleSubmissionResult dp etxt txt m db x = (Committed db' eff, m1)"
    using R assms(5,7-10) sc f by (simp add: handleSubmissionResult_def Let_def LockSubmissionResult_def handle_loaded_def commit_def)
  show ?thesis
  proof (cases "opMaxAttempts (dpOpts dp) \<le> reAttempt x + 1")
    case True
    then have 1: "efJobs eff = []" "row_is s d db' (\<lambda>r. srSystemError r \<noteq> None)"
      using f L assms(5) by (auto simp: retryOrFail_def systemError_def Let_def add_event_def no_effects_def row_is_def SetSubmissionSystemError_def)
    then have "handleSubmissionResult dp etxt txt m1 db' y = (Stale, m1)" if "reSubmissionID y = s" "reDatasetID y = d"
      using that by (auto simp: handleSubmissionResult_def Let_def LockSubmissionResult_def row_is_def)
    then show ?thesis using h 1 True by auto
  next
    case False
    then show ?thesis using h f L evaluateJobs_partition [OF assms(4)]
      by (auto simp: retryOrFail_def Let_def add_jobs_def no_effects_def compileJob_def KindCompile_def KindEvaluate_def)
  qed
qed

definition ex_failed :: JobResult where
  "ex_failed = (ex_res KindEvaluate None [])\<lparr>reTestcases := [12], reError := ''worker lost''\<rparr>"

theorem retry_bounded_witness:
  "\<exists>db' eff m'. handleSubmissionResult ex_disp (\<lambda>_. []) (\<lambda>_. []) (snd ex_ready) (fst ex_ready) ex_failed = (Committed db' eff, m')
    \<and> job_testcases (efJobs eff) = jobTestcases ex_di [12] \<and> list_all (evaluation_job ex_disp 0 1) (efJobs eff)"
proof -
  obtain r where r: "setting (dpRegexp ex_disp) (fst ex_ready) 2 ex_di ex_st" "cache_ok (dpRegexp ex_disp) (fst ex_ready) (snd ex_ready)"
      "loadable ex_disp (fst ex_ready) 5" "dbResults (fst ex_ready) (5, 2) = Some r" "evaluating ex_di ex_st ex_J 0 r"
    using ex_ready_ok by (auto simp: ex_disp_def)
  then have p: "pending ex_di ex_st ex_J r" "srGeneration r = 0" by (auto simp: evaluating_def pending_def)
  have o: "0 < opTestcasesPerJob (dpOpts ex_disp) \<and> \<not> opMaxAttempts (dpOpts ex_disp) \<le> 1" by code_simp
  have x: "reSubmissionID ex_failed = 5" "reDatasetID ex_failed = 2" "reGeneration ex_failed = srGeneration r" "reError ex_failed \<noteq> []"
      "reKind ex_failed = KindEvaluate" "reTestcases ex_failed = [12]" "reAttempt ex_failed = 0"
    using p(2) by (simp_all add: ex_failed_def ex_res_def)
  from retry_bounded [OF r(1-3) conjunct1 [OF o] r(4) p(1) x(1-4), of "\<lambda>_. []" "\<lambda>_. []" ex_failed] show ?thesis
    using o x(5-7) p(2) by (auto simp: KindCompile_def KindEvaluate_def)
qed

section \<open>Results of an earlier generation\<close>

lemma invalidate_generation:
  assumes "level \<in> {Recompile, Reevaluate}" "dbResults db (s, d) = Some r"
  shows "\<exists>r'. dbResults (invalidate_one level db k) (s, d) = Some r' \<and> srGeneration r' = srGeneration r + (if k = (s, d) then 1 else 0)"
  using assms
  by (cases k) (auto simp: invalidate_one_def Let_def result_statements Recompile_def Reevaluate_def
      clear_compilation_def clear_evaluation_def clear_score_def)

lemma invalidate_all_generation:
  assumes "level \<in> {Recompile, Reevaluate}" "dbResults db (s, d) = Some r"
  shows "\<exists>r'. dbResults (foldl (invalidate_one level) db ks) (s, d) = Some r' \<and> srGeneration r' = srGeneration r + int (count_list ks (s, d))"
  using assms(2)
proof (induction ks arbitrary: db r)
  case (Cons k ks)
  obtain r1 where "dbResults (invalidate_one level db k) (s, d) = Some r1" "srGeneration r1 = srGeneration r + (if k = (s, d) then 1 else 0)"
    using invalidate_generation [OF assms(1) Cons.prems] by blast
  with Cons.IH [of "invalidate_one level db k" r1] show ?case by auto
qed auto

text \<open>
  Property C23. A recompilation or reevaluation discards the work in flight: after
  \<^verbatim>\<open>Invalidate\<close> has reset a result, every job result of the generation before, or of an
  earlier one, is stale and changes nothing.
\<close>

theorem invalidated_results_stale:
  assumes "level \<in> {Recompile, Reevaluate}" "Invalidate userOf keys so level db = Inr (db', n)"
    and "(s, d) \<in> set keys" "in_scope userOf db so (s, d)" "dbResults db (s, d) = Some r"
    and "reSubmissionID x = s" "reDatasetID x = d" "reGeneration x \<le> srGeneration r"
  shows "handleSubmissionResult dp etxt txt m db' x = (Stale, m)"
proof -
  let ?ks = "filter (in_scope userOf db so) keys"
  let ?c = "if level = Recompile \<and> ?ks \<noteq> [] then ClearCompilationCache db else db"
  have "db' = foldl (invalidate_one level) ?c ?ks" using assms(2) by (auto simp: Invalidate_def Let_def split: if_splits)
  moreover have "dbResults ?c (s, d) = Some r" using assms(5) by simp
  ultimately obtain r' where r': "dbResults db' (s, d) = Some r'" "srGeneration r' = srGeneration r + int (count_list ?ks (s, d))"
    using invalidate_all_generation [OF assms(1)] by metis
  have "count_list ?ks (s, d) \<noteq> 0" using assms(3,4) by (simp add: count_list_0_iff)
  then show ?thesis using r' assms(6-8) by (simp add: handleSubmissionResult_def Let_def LockSubmissionResult_def)
qed

theorem invalidated_results_stale_witness:
  "\<exists>db' n. Invalidate (\<lambda>_. 0) [(5, 2)] \<lparr>soContestID = 0, soTaskID = 0, soDatasetID = 2, soParticipationID = 0, soUserID = 0, soSubmissionID = 0\<rparr>
      Reevaluate (fst ex_ready) = Inr (db', n) \<and> n = 1
    \<and> handleSubmissionResult ex_disp (\<lambda>_. []) (\<lambda>_. []) (snd ex_ready) db' ex_evaluated = (Stale, snd ex_ready)"
proof -
  let ?so = "\<lparr>soContestID = 0, soTaskID = 0, soDatasetID = 2, soParticipationID = 0, soUserID = 0, soSubmissionID = 0\<rparr>"
  have i: "in_scope (\<lambda>_. 0) (fst ex_ready) ?so (5, 2)" by code_simp
  then obtain db' where d: "Invalidate (\<lambda>_. 0) [(5, 2)] ?so Reevaluate (fst ex_ready) = Inr (db', 1)"
    by (simp add: Invalidate_def empty_scope_def Let_def)
  obtain r where r: "dbResults (fst ex_ready) (5, 2) = Some r" "srGeneration r = 0" using ex_ready_ok by (auto simp: evaluating_def)
  have "handleSubmissionResult ex_disp (\<lambda>_. []) (\<lambda>_. []) (snd ex_ready) db' ex_evaluated = (Stale, snd ex_ready)"
    by (rule invalidated_results_stale [OF _ d _ i r(1)]) (use r(2) in \<open>simp_all add: ex_evaluated_def ex_res_def\<close>)
  with d show ?thesis by blast
qed

end
