(* ===== verification/Highlight.thy ===== *)
theory Highlight
  imports Go_Strings Go_Json
begin

text \<open>
  The source highlighter (\<^verbatim>\<open>src/internal/highlight/highlight.go\<close>): a tokenizer by language
  family, the HTML it writes, and the token stream the plagiarism detection reads. Strings are
  bytes; lower case concerns ASCII letters.
\<close>

section \<open>Languages\<close>

record Syntax =
  syKeywords :: "string list"
  syLineComments :: "string list"
  syBlockComments :: "(string \<times> string) list"
  syQuotes :: string
  syRawQuotes :: string
  syTripleQuotes :: bool
  syPreprocessor :: bool
  syCaseInsensitive :: bool
  syCharQuote :: bool

abbreviation DQ :: char where "DQ \<equiv> CHR 0x22"
abbreviation SQ :: char where "SQ \<equiv> CHR 0x27"
abbreviation BQ :: char where "BQ \<equiv> CHR 0x60"
abbreviation BS :: char where "BS \<equiv> CHR 0x5C"
abbreviation SP :: char where "SP \<equiv> CHR 0x20"
abbreviation TAB :: char where "TAB \<equiv> CHR 0x09"

definition isIdentStart :: "char \<Rightarrow> bool" where
  "isIdentStart c \<longleftrightarrow> c = CHR ''_'' \<or> CHR ''a'' \<le> c \<and> c \<le> CHR ''z'' \<or> CHR ''A'' \<le> c \<and> c \<le> CHR ''Z''"

definition isDigit :: "char \<Rightarrow> bool" where
  "isDigit c \<longleftrightarrow> CHR ''0'' \<le> c \<and> c \<le> CHR ''9''"

definition isIdent :: "char \<Rightarrow> bool" where
  "isIdent c \<longleftrightarrow> isIdentStart c \<or> isDigit c"

definition words :: "string \<Rightarrow> string list" where
  "words s = Fields s"

definition cLike :: string where
  "cLike = ''auto break case char const continue default do double else enum extern float for goto if inline int long register restrict return short signed sizeof static struct switch typedef union unsigned void volatile while bool true false NULL''"

definition cpp :: string where
  "cpp = cLike @ '' alignas alignof and asm catch class constexpr consteval constinit co_await co_return co_yield concept decltype delete dynamic_cast explicit export friend mutable namespace new noexcept not nullptr operator or private protected public reinterpret_cast requires static_assert static_cast template this thread_local throw try typeid typename using virtual xor std string vector map set pair size_t int64_t uint64_t''"

definition java :: string where
  "java = ''abstract assert boolean break byte case catch char class const continue default do double else enum extends final finally float for goto if implements import instanceof int interface long native new package private protected public return short static strictfp super switch synchronized this throw throws transient try void volatile while var record true false null String''"

definition kotlin :: string where
  "kotlin = ''as break class continue do else false for fun if in interface is null object package return super this throw true try typealias typeof val var when while by catch constructor finally get import init internal lateinit open override private protected public sealed set data enum companion inline suspend Int Long String Boolean Double''"

definition csharp :: string where
  "csharp = ''abstract as base bool break byte case catch char checked class const continue decimal default delegate do double else enum event explicit extern false finally fixed float for foreach goto if implicit in int interface internal is lock long namespace new null object operator out override params private protected public readonly ref return sbyte sealed short sizeof stackalloc static string struct switch this throw true try typeof uint ulong unchecked unsafe ushort using var virtual void volatile while''"

definition golang :: string where
  "golang = ''break case chan const continue default defer else fallthrough for func go goto if import interface map package range return select struct switch type var true false nil int int64 string byte rune bool float64 error make len append''"

definition rust :: string where
  "rust = ''as async await break const continue crate dyn else enum extern false fn for if impl in let loop match mod move mut pub ref return self Self static struct super trait true type unsafe use where while i32 i64 u32 u64 usize f64 bool String Vec''"

definition python :: string where
  "python = ''False None True and as assert async await break class continue def del elif else except finally for from global if import in is lambda nonlocal not or pass raise return try while with yield print range len int str list dict set''"

definition pascal :: string where
  "pascal = ''and array begin case const div do downto else end file for function goto if in label mod nil not of or packed procedure program record repeat set then to type until var while with uses integer longint int64 boolean char string real readln writeln read write true false''"

definition haskell :: string where
  "haskell = ''case class data default deriving do else foreign if import in '' @ ''infi'' @ ''x infi'' @ ''xl infi'' @ ''xr instance let module newtype of then type where Int Integer String Bool True False IO Maybe''"

definition javascript :: string where
  "javascript = ''function var let const if else for while return new class this null true false undefined''"

definition c_syntax :: "string \<Rightarrow> Syntax" where
  "c_syntax kws = \<lparr>syKeywords = words kws, syLineComments = [''//''], syBlockComments = [(''/*'', ''*/'')], syQuotes = [DQ, SQ],
     syRawQuotes = [], syTripleQuotes = False, syPreprocessor = False, syCaseInsensitive = False, syCharQuote = False\<rparr>"

definition syntaxes :: "(string list \<times> Syntax) list" where
  "syntaxes =
     [([''.c'', ''.h''], (c_syntax cLike)\<lparr>syPreprocessor := True\<rparr>),
      ([''.cpp'', ''.cc'', ''.cxx'', ''.c++'', ''.hpp'', ''.hh'', ''.hxx''], (c_syntax cpp)\<lparr>syPreprocessor := True\<rparr>),
      ([''.java''], c_syntax java),
      ([''.kt'', ''.kts''], c_syntax kotlin),
      ([''.cs''], (c_syntax csharp)\<lparr>syPreprocessor := True\<rparr>),
      ([''.go''], (c_syntax golang)\<lparr>syRawQuotes := [BQ]\<rparr>),
      ([''.rs''], (c_syntax rust)\<lparr>syQuotes := [DQ], syCharQuote := True\<rparr>),
      ([''.py''], (c_syntax python)\<lparr>syLineComments := [''#''], syBlockComments := [], syTripleQuotes := True\<rparr>),
      ([''.pas'', ''.pp'', ''.dpr''], (c_syntax pascal)\<lparr>syBlockComments := [(''{'', ''}''), (''(*'', ''*)'')], syQuotes := [SQ], syCaseInsensitive := True\<rparr>),
      ([''.hs''], (c_syntax haskell)\<lparr>syLineComments := [''--''], syBlockComments := [(''{-'', ''-}'')], syQuotes := [DQ], syCharQuote := True\<rparr>),
      ([''.js'', ''.mjs''], (c_syntax javascript)\<lparr>syRawQuotes := [BQ]\<rparr>)]"

text \<open>The bytes that may begin a token other than plain text.\<close>

definition starts :: "Syntax \<Rightarrow> char \<Rightarrow> bool" where
  "starts s c \<longleftrightarrow> isIdentStart c \<or> isDigit c \<or> c = CHR ''.'' \<or> c = CHR ''#'' \<and> syPreprocessor s
     \<or> c \<in> set (syQuotes s @ syRawQuotes s) \<or> list_ex (\<lambda>lc. c = hd lc) (syLineComments s)
     \<or> list_ex (\<lambda>bc. c = hd (fst bc)) (syBlockComments s)
     \<or> (syTripleQuotes s \<or> syCharQuote s) \<and> (c = DQ \<or> c = SQ)"

text \<open>\<^verbatim>\<open>filepath.Ext\<close>: from the last dot of the last element of the path.\<close>

definition Ext :: "string \<Rightarrow> string" where
  "Ext name =
     (let r = takeWhile (\<lambda>c. c \<noteq> CHR ''/'') (rev name)
      in if CHR ''.'' \<in> set r then CHR ''.'' # rev (takeWhile (\<lambda>c. c \<noteq> CHR ''.'') r) else [])"

definition ForFile :: "string \<Rightarrow> Syntax option" where
  "ForFile name = map_option snd (find (\<lambda>(exts, s). map lower (Ext name) \<in> set exts) syntaxes)"

section \<open>The tokenizer\<close>

definition slice :: "string \<Rightarrow> nat \<Rightarrow> nat \<Rightarrow> string" where
  "slice src a b = take (b - a) (drop a src)"

definition indexFrom :: "string \<Rightarrow> nat \<Rightarrow> string \<Rightarrow> nat" where
  "indexFrom s i x = (case Index (drop i s) x of Some k \<Rightarrow> i + k | None \<Rightarrow> length s)"

definition comment :: "Syntax \<Rightarrow> string \<Rightarrow> nat \<Rightarrow> nat option" where
  "comment s src i =
     (if list_ex (\<lambda>lc. prefix lc (drop i src)) (syLineComments s) then Some (indexFrom src i [LF])
      else case find (\<lambda>bc. prefix (fst bc) (drop i src)) (syBlockComments s) of
             None \<Rightarrow> None
           | Some (opening, closing) \<Rightarrow>
               Some (case Index (drop (i + length opening) src) closing of
                       Some k \<Rightarrow> i + length opening + k + length closing
                     | None \<Rightarrow> length src))"

text \<open>The loop over a quoted string from \<open>j\<close>; \<open>esc\<close> says that a backslash hides the next byte.\<close>

function string_end :: "bool \<Rightarrow> char \<Rightarrow> string \<Rightarrow> nat \<Rightarrow> nat" where
  "string_end esc c src j =
     (if length src \<le> j then length src
      else if src ! j = BS then string_end esc c src (if esc then j + 2 else j + 1)
      else if src ! j = c then j + 1
      else if src ! j = LF then j
      else string_end esc c src (j + 1))"
  by pat_completeness auto
termination by (relation "measure (\<lambda>(esc, c, src, j). length src - j)") auto

declare string_end.simps [simp del]

definition char_end :: "string \<Rightarrow> nat \<Rightarrow> nat option" where
  "char_end src i =
     (if i + 1 < length src \<and> src ! (i + 1) = BS
      then map_option (\<lambda>k. i + 2 + k + 1) (Index (slice src (i + 2) (min (length src) (i + 14))) [SQ])
      else (let n = rune_len (drop (i + 1) src)
            in if 0 < n \<and> i + 1 + n < length src \<and> src ! (i + 1 + n) = SQ \<and> src ! (i + 1) \<noteq> LF then Some (i + 1 + n + 1) else None))"

definition stringAt :: "Syntax \<Rightarrow> string \<Rightarrow> nat \<Rightarrow> nat option" where
  "stringAt s src i =
     (let c = src ! i
      in if syTripleQuotes s \<and> (prefix [DQ, DQ, DQ] (drop i src) \<or> prefix [SQ, SQ, SQ] (drop i src))
         then Some (case Index (drop (i + 3) src) (slice src i (i + 3)) of Some k \<Rightarrow> i + 3 + k + 3 | None \<Rightarrow> length src)
         else if c \<in> set (syRawQuotes s)
         then Some (case Index (drop (i + 1) src) [c] of Some k \<Rightarrow> i + 1 + k + 1 | None \<Rightarrow> length src)
         else if syCharQuote s \<and> c = SQ then char_end src i
         else if c \<notin> set (syQuotes s) then None
         else Some (string_end (\<not> syCaseInsensitive s) c src (i + 1)))"

function number_end :: "Syntax \<Rightarrow> string \<Rightarrow> nat \<Rightarrow> nat" where
  "number_end s src j =
     (if j < length src \<and> (isIdent (src ! j) \<or> src ! j = CHR ''.''
          \<or> src ! j = SQ \<and> syPreprocessor s \<and> j + 1 < length src \<and> isDigit (src ! (j + 1)))
      then number_end s src (j + 1) else j)"
  by pat_completeness auto
termination by (relation "measure (\<lambda>(s, src, j). length src - j)") auto

declare number_end.simps [simp del]

definition ident_end :: "string \<Rightarrow> nat \<Rightarrow> nat" where
  "ident_end src j = j + length (takeWhile isIdent (drop j src))"

definition word_at :: "Syntax \<Rightarrow> string \<Rightarrow> nat \<Rightarrow> string" where
  "word_at s src i = (let w = slice src i (ident_end src (i + 1)) in if syCaseInsensitive s then map lower w else w)"

text \<open>
  The piece that begins at \<open>i\<close>: its end and class, if it gets one. Otherwise the scan goes on
  after an identifier or after one byte.
\<close>

definition piece_at :: "Syntax \<Rightarrow> string \<Rightarrow> nat \<Rightarrow> bool \<Rightarrow> (nat \<times> string) option" where
  "piece_at s src i atStart =
     (let c = src ! i
      in if syPreprocessor s \<and> atStart \<and> c = CHR ''#'' then Some (indexFrom src i [LF], ''p'')
         else case comment s src i of
           Some e \<Rightarrow> Some (e, ''c'')
         | None \<Rightarrow>
             (case stringAt s src i of
                Some e \<Rightarrow> Some (e, ''s'')
              | None \<Rightarrow>
                  if isDigit c \<or> c = CHR ''.'' \<and> i + 1 < length src \<and> isDigit (src ! (i + 1))
                  then Some (number_end s src (i + 1), ''n'')
                  else if isIdentStart c \<and> word_at s src i \<in> set (syKeywords s) then Some (ident_end src (i + 1), ''k'')
                  else None))"

definition skip_plain :: "string \<Rightarrow> nat \<Rightarrow> nat" where
  "skip_plain src i = (if isIdentStart (src ! i) then ident_end src (i + 1) else i + 1)"

type_synonym piece = "string \<times> string"

definition emit :: "string \<Rightarrow> nat \<Rightarrow> nat \<Rightarrow> nat \<Rightarrow> string \<Rightarrow> piece list" where
  "emit src plain i e cls = (if plain < i then [([], slice src plain i)] else []) @ [(cls, slice src i e)]"

text \<open>
  The loop at position \<open>i\<close>, with the pending plain run from \<open>plain\<close> and the pieces so far.
  Whether it ends depends on the syntax.
\<close>

partial_function (option) tokenize_loop :: "Syntax \<Rightarrow> string \<Rightarrow> nat \<Rightarrow> nat \<Rightarrow> bool \<Rightarrow> piece list \<Rightarrow> piece list option" where
  "tokenize_loop s src i plain lineStart acc =
     (if length src \<le> i then Some (acc @ (if plain < length src then [([], drop plain src)] else []))
      else if src ! i = LF then tokenize_loop s src (i + 1) plain True acc
      else if src ! i = SP \<or> src ! i = TAB then tokenize_loop s src (i + 1) plain lineStart acc
      else if \<not> starts s (src ! i) then tokenize_loop s src (i + 1) plain False acc
      else (case piece_at s src i lineStart of
              Some (e, cls) \<Rightarrow> tokenize_loop s src e e False (acc @ emit src plain i e cls)
            | None \<Rightarrow> tokenize_loop s src (skip_plain src i) plain False acc))"

declare tokenize_loop.simps [code]

definition tokenize :: "Syntax \<Rightarrow> string \<Rightarrow> piece list option" where
  "tokenize s src = tokenize_loop s src 0 0 True []"

section \<open>Tokens\<close>

definition Keyword :: char where "Keyword = CHR ''k''"
definition Identifier :: char where "Identifier = CHR ''i''"
definition Number :: char where "Number = CHR ''n''"
definition StringTok :: char where "StringTok = CHR ''s''"
definition Comment :: char where "Comment = CHR ''c''"
definition Preprocessor :: char where "Preprocessor = CHR ''p''"
definition Operator :: char where "Operator = CHR ''o''"

type_synonym htoken = "char \<times> string \<times> nat"

definition layout :: "char \<Rightarrow> bool" where
  "layout c \<longleftrightarrow> c \<in> {SP, TAB, CHR 0x0D, CHR 0x0C, CHR 0x0B}"

text \<open>The tokens of a plain run that begins on a line.\<close>

function plain_tokens :: "nat \<Rightarrow> string \<Rightarrow> htoken list" where
  "plain_tokens line [] = []"
| "plain_tokens line (c # cs) =
     (if c = LF then plain_tokens (line + 1) cs
      else if layout c then plain_tokens line cs
      else if isIdentStart c
      then (Identifier, c # takeWhile isIdent cs, line) # plain_tokens line (dropWhile isIdent cs)
      else (let n = rune_len (c # cs) in (Operator, take n (c # cs), line) # plain_tokens line (drop (n - 1) cs)))"
  by pat_completeness auto
termination
  by (relation "measure (\<lambda>(line, s). length s)") (auto simp: le_imp_less_Suc [OF length_dropWhile_le])

fun piece_tokens :: "Syntax \<Rightarrow> nat \<Rightarrow> piece list \<Rightarrow> htoken list" where
  "piece_tokens s line [] = []"
| "piece_tokens s line ((cls, t) # ps) =
     (if cls = [] then plain_tokens line t
      else if cls = ''k'' \<and> syCaseInsensitive s then [(Keyword, map lower t, line)]
      else [(hd cls, t, line)]) @ piece_tokens s (line + newlines t) ps"

definition Tokens :: "string \<Rightarrow> Syntax \<Rightarrow> htoken list option" where
  "Tokens src s = map_option (piece_tokens s 0) (tokenize s src)"

section \<open>HTML\<close>

definition esc_char :: "char \<Rightarrow> string" where
  "esc_char c =
     (if c = CHR ''<'' then ''&lt;'' else if c = CHR ''>'' then ''&gt;'' else if c = CHR ''&'' then ''&amp;''
      else if c = DQ then ''&#34;'' else if c = SQ then ''&#39;'' else [c])"

definition escape :: "string \<Rightarrow> string" where
  "escape s = concat (map esc_char s)"

definition span :: "string \<Rightarrow> string" where
  "span cls = ''<span class='' @ [DQ] @ cls @ [DQ] @ ''>''"

definition span_end :: string where
  "span_end = ''</span>''"

definition open_line :: "(nat \<Rightarrow> bool) \<Rightarrow> nat \<Rightarrow> string" where
  "open_line marked line = (if marked line then span ''l m'' else span ''l'')"

definition write_part :: "string \<Rightarrow> string \<Rightarrow> string" where
  "write_part cls part =
     (if part = [] then [] else if cls = [] then escape part else span cls @ escape part @ span_end)"

text \<open>The output of \<^verbatim>\<open>write\<close> for a text that begins on a line, with the line it ends on.\<close>

function write_text :: "(nat \<Rightarrow> bool) \<Rightarrow> nat \<Rightarrow> string \<Rightarrow> string \<Rightarrow> string \<times> nat" where
  "write_text marked line cls t =
     (if LF \<in> set t
      then (let (out, l) = write_text marked (line + 1) cls (tl (dropWhile (\<lambda>c. c \<noteq> LF) t))
            in (write_part cls (takeWhile (\<lambda>c. c \<noteq> LF) t) @ span_end @ [LF] @ open_line marked (line + 1) @ out, l))
      else (write_part cls t, line))"
  by pat_completeness auto
termination
proof (relation "measure (\<lambda>(marked, line, cls, t). length t)")
  fix marked line cls t assume "LF \<in> set t"
  then have "dropWhile (\<lambda>c. c \<noteq> LF) t \<noteq> []" by auto
  moreover have "length (dropWhile (\<lambda>c. c \<noteq> LF) t) \<le> length t" by (rule length_dropWhile_le)
  ultimately show "((marked, line + 1, cls, tl (dropWhile (\<lambda>c. c \<noteq> LF) t)), marked, line, cls, t) \<in> measure (\<lambda>(marked, line, cls, t). length t)"
    by (cases "dropWhile (\<lambda>c. c \<noteq> LF) t") auto
qed simp

declare write_text.simps [simp del]

fun write_all :: "(nat \<Rightarrow> bool) \<Rightarrow> nat \<Rightarrow> piece list \<Rightarrow> string" where
  "write_all marked line [] = []"
| "write_all marked line ((cls, t) # ps) = (let (out, l) = write_text marked line cls t in out @ write_all marked l ps)"

definition HTMLMarked :: "string \<Rightarrow> Syntax option \<Rightarrow> (nat \<Rightarrow> bool) \<Rightarrow> string option" where
  "HTMLMarked src0 s marked =
     (let src = ReplaceAll src0 [CHR 0x0D, LF] [LF]
      in map_option (\<lambda>ps. open_line marked 0 @ write_all marked 0 ps @ span_end)
           (case s of None \<Rightarrow> Some [([], src)] | Some sy \<Rightarrow> tokenize sy src))"

definition HTML :: "string \<Rightarrow> Syntax option \<Rightarrow> string option" where
  "HTML src0 s =
     (let src = ReplaceAll src0 [CHR 0x0D, LF] [LF]
      in map_option (\<lambda>ps. span ''l'' @ write_all (\<lambda>_. False) 0 ps @ span_end)
           (case s of None \<Rightarrow> Some [([], src)] | Some sy \<Rightarrow> tokenize sy src))"

section \<open>The tokenizer cuts the source into pieces\<close>

text \<open>Every closing mark of a block comment has at least one byte; this holds of the registered syntaxes.\<close>

definition wf_syntax :: "Syntax \<Rightarrow> bool" where
  "wf_syntax s \<longleftrightarrow> list_all (\<lambda>bc. snd bc \<noteq> []) (syBlockComments s)"

lemma take_slice: "a \<le> b \<Longrightarrow> take a src @ slice src a b = take b src"
  using take_add [of a "b - a" src] by (simp add: slice_def)

lemma slice_drop: "a \<le> b \<Longrightarrow> slice src a b @ drop b src = drop a src"
  using append_take_drop_id [of "b - a" "drop a src"] by (simp add: slice_def)

lemma slice_not_Nil: "a < b \<Longrightarrow> b \<le> length src \<Longrightarrow> slice src a b \<noteq> []"
  by (simp add: slice_def)

lemma indexFrom_le: "i \<le> length src \<Longrightarrow> i \<le> indexFrom src i x \<and> indexFrom src i x \<le> length src"
  using Index_bound [of "drop i src" x] by (auto simp: indexFrom_def split: option.splits)

lemma indexFrom_LF: "i < length src \<Longrightarrow> src ! i \<noteq> LF \<Longrightarrow> i < indexFrom src i [LF]"
  by (cases "drop i src") (auto simp: indexFrom_def Cons_nth_drop_Suc [symmetric] split: option.splits if_splits)

lemma string_end_bound: "j \<le> length src \<Longrightarrow> j \<le> string_end esc c src j \<and> string_end esc c src j \<le> length src"
proof (induction esc c src j rule: string_end.induct)
  case (1 esc c src j)
  note step = string_end.simps [of esc c src j]
  have past: "string_end esc c src k = length src" if "length src \<le> k" for k
    using that by (simp add: string_end.simps [of esc c src k])
  show ?case
  proof (cases "j < length src")
    case True
    then consider (bs) "src ! j = BS" | "src ! j \<noteq> BS" "src ! j = c \<or> src ! j = LF" | (more) "src ! j \<noteq> BS" "src ! j \<noteq> c" "src ! j \<noteq> LF" by blast
    then show ?thesis
    proof cases
      case bs
      then have "string_end esc c src j = string_end esc c src (if esc then j + 2 else j + 1)" using True by (subst step) simp
      then show ?thesis using 1(1) bs True past [of "if esc then j + 2 else j + 1"]
        by (cases "(if esc then j + 2 else j + 1) \<le> length src") (auto split: if_splits)
    next
      case more
      then have "string_end esc c src j = string_end esc c src (j + 1)" using True by (subst step) simp
      then show ?thesis using 1(2) more True by auto
    qed (use True in \<open>subst (1 2) step, auto\<close>)
  qed (use 1 past in auto)
qed

lemma number_end_bound: "j \<le> length src \<Longrightarrow> j \<le> number_end s src j \<and> number_end s src j \<le> length src"
proof (induction s src j rule: number_end.induct)
  case (1 s src j)
  note step = number_end.simps [of s src j]
  show ?case by (subst (1 2) step) (use 1 in auto)
qed

lemma ident_end_bound: "j \<le> length src \<Longrightarrow> j \<le> ident_end src j \<and> ident_end src j \<le> length src"
  using length_takeWhile_le [of isIdent "drop j src"] by (simp add: ident_end_def)

lemma comment_bound:
  assumes "wf_syntax s" "i < length src" "src ! i \<noteq> LF" "comment s src i = Some e"
  shows "i < e \<and> e \<le> length src"
proof (cases "list_ex (\<lambda>lc. prefix lc (drop i src)) (syLineComments s)")
  case True
  then show ?thesis using assms indexFrom_LF [OF assms(2,3)] indexFrom_le [of i src "[LF]"] by (simp add: comment_def)
next
  case False
  then obtain a b where f: "find (\<lambda>bc. prefix (fst bc) (drop i src)) (syBlockComments s) = Some (a, b)"
    and e: "e = (case Index (drop (i + length a) src) b of Some k \<Rightarrow> i + length a + k + length b | None \<Rightarrow> length src)"
    using assms(4) by (auto simp: comment_def split: option.splits)
  have "b \<noteq> []" "prefix a (drop i src)" using find_SomeD [OF f] assms(1) by (auto simp: wf_syntax_def list_all_iff)
  then show ?thesis using e assms(2) prefix_length_le [of a "drop i src"] Index_bound [of "drop (i + length a) src" b]
    by (auto split: option.splits)
qed

lemma char_end_bound: "char_end src i = Some e \<Longrightarrow> i < e \<and> e \<le> length src"
  using Index_bound [of "slice src (i + 2) (min (length src) (i + 14))" "[SQ]"]
  by (auto simp: char_end_def Let_def slice_def split: if_splits)

lemma stringAt_bound: "i < length src \<Longrightarrow> stringAt s src i = Some e \<Longrightarrow> i < e \<and> e \<le> length src"
  using Index_bound [of "drop (i + 3) src" "slice src i (i + 3)"] Index_bound [of "drop (i + 1) src" "[src ! i]"]
    string_end_bound [of "i + 1" src "\<not> syCaseInsensitive s" "src ! i"] char_end_bound [of src i e]
  by (auto simp: stringAt_def Let_def slice_def prefix_length_le dest!: prefix_length_le split: if_splits option.splits)

definition classes :: "string list" where "classes = [''p'', ''c'', ''s'', ''n'', ''k'']"

lemma piece_at_bound:
  assumes "wf_syntax s" "i < length src" "src ! i \<noteq> LF" "piece_at s src i b = Some (e, cls)"
  shows "i < e \<and> e \<le> length src \<and> cls \<in> set classes"
  using assms comment_bound [OF assms(1-3)] stringAt_bound [OF assms(2)] indexFrom_LF [OF assms(2,3)] indexFrom_le [of i src "[LF]"]
    number_end_bound [of "i + 1" src s] ident_end_bound [of "i + 1" src]
  by (auto simp: piece_at_def Let_def classes_def split: if_splits option.splits)

lemma skip_plain_bound: "i < length src \<Longrightarrow> i < skip_plain src i \<and> skip_plain src i \<le> length src"
  using ident_end_bound [of "i + 1" src] by (auto simp: skip_plain_def)

definition good_piece :: "piece \<Rightarrow> bool" where
  "good_piece p \<longleftrightarrow> (fst p = [] \<or> fst p \<in> set classes) \<and> snd p \<noteq> []"

lemma tokenize_loop_total:
  assumes "wf_syntax s" "plain \<le> i" "i \<le> length src"
  shows "\<exists>ps. tokenize_loop s src i plain ls acc = Some (acc @ ps) \<and> concat (map snd ps) = drop plain src \<and> list_all good_piece ps"
  using assms(2,3)
proof (induction "length src - i" arbitrary: i plain ls acc rule: less_induct)
  case less
  note step = tokenize_loop.simps [of s src i plain ls acc]
  show ?case
  proof (cases "length src \<le> i")
    case True
    then show ?thesis using less.prems by (subst step) (auto simp: good_piece_def)
  next
    case False
    then have i: "i < length src" by simp
    note IH = less.hyps [OF _ _ _, of "i + 1" plain]
    consider "src ! i = LF" | "src ! i = SP \<or> src ! i = TAB" "src ! i \<noteq> LF"
      | "\<not> starts s (src ! i)" "src ! i \<noteq> LF" "src ! i \<noteq> SP" "src ! i \<noteq> TAB"
      | (tok) "starts s (src ! i)" "src ! i \<noteq> LF" "src ! i \<noteq> SP" "src ! i \<noteq> TAB" by blast
    then show ?thesis
    proof cases
      case tok
      show ?thesis
      proof (cases "piece_at s src i ls")
        case None
        then have "tokenize_loop s src i plain ls acc = tokenize_loop s src (skip_plain src i) plain False acc"
          using i tok by (subst step) simp
        moreover have "length src - skip_plain src i < length src - i" using skip_plain_bound [OF i] i by linarith
        ultimately show ?thesis using less.hyps [of "skip_plain src i" plain False acc] skip_plain_bound [OF i] less.prems by simp
      next
        case (Some p)
        then obtain e cls where p: "piece_at s src i ls = Some (e, cls)" by (cases p) auto
        note b = piece_at_bound [OF assms(1) i tok(2) p]
        have "tokenize_loop s src i plain ls acc = tokenize_loop s src e e False (acc @ emit src plain i e cls)"
          using i tok p by (subst step) simp
        moreover obtain ps where "tokenize_loop s src e e False (acc @ emit src plain i e cls) = Some ((acc @ emit src plain i e cls) @ ps)"
            "concat (map snd ps) = drop e src" "list_all good_piece ps"
          using less.hyps [of e e] b i by fastforce
        moreover have "concat (map snd (emit src plain i e cls)) @ drop e src = drop plain src"
          using slice_drop [of plain i src] slice_drop [of i e src] b less.prems by (auto simp: emit_def)
        moreover have "list_all good_piece (emit src plain i e cls)"
          using slice_not_Nil b less.prems by (auto simp: emit_def good_piece_def)
        ultimately show ?thesis by auto
      qed
    qed (use i IH less.prems in \<open>subst step, simp\<close>)+
  qed
qed

lemma tokenize_total: "wf_syntax s \<Longrightarrow> \<exists>ps. tokenize s src = Some ps \<and> concat (map snd ps) = src \<and> list_all good_piece ps"
  using tokenize_loop_total [of s 0 0 src True "[]"] by (simp add: tokenize_def)

lemma registered_wf: "ForFile name = Some s \<Longrightarrow> wf_syntax s"
proof -
  assume "ForFile name = Some s"
  then obtain exts where "(exts, s) \<in> set syntaxes" by (auto simp: ForFile_def dest!: find_SomeD)
  then show "wf_syntax s" by (auto simp: syntaxes_def c_syntax_def wf_syntax_def)
qed

text \<open>
  For every file of a known language the tokenizer ends, its pieces put together
  are the source, no piece is empty and every marked piece has one of the five classes.
\<close>

theorem tokenize_partition:
  assumes "ForFile name = Some s"
  shows "\<exists>ps. tokenize s src = Some ps \<and> concat (map snd ps) = src \<and> list_all good_piece ps"
  using tokenize_total [OF registered_wf [OF assms]] .

definition ex_source :: string where
  "ex_source = ''int x = 0x1f; // a < b'' @ [LF] @ ''return x;''"

theorem tokenize_partition_witness:
  "\<exists>s ps. ForFile ''sol.js'' = Some s \<and> tokenize s ex_source = Some ps \<and> concat (map snd ps) = ex_source"
proof -
  have "ForFile ''sol.js'' = Some ((c_syntax javascript)\<lparr>syRawQuotes := [BQ]\<rparr>)"
    by (simp add: ForFile_def Ext_def syntaxes_def lower_def)
  from tokenize_partition [OF this, of ex_source] this show ?thesis by blast
qed

section \<open>The HTML shows the source and nothing else\<close>

text \<open>What a browser reads: tags, and characters with the five entities decoded.\<close>

datatype item = Tag string | Txt char

definition entities :: "(string \<times> char) list" where
  "entities = [(''lt;'', CHR ''<''), (''gt;'', CHR ''>''), (''amp;'', CHR ''&''), (''#34;'', DQ), (''#39;'', SQ)]"

function read_html :: "string \<Rightarrow> item list" where
  "read_html [] = []"
| "read_html (c # cs) =
     (if c = CHR ''<'' then Tag (takeWhile (\<lambda>c. c \<noteq> CHR ''>'') cs) # read_html (tl (dropWhile (\<lambda>c. c \<noteq> CHR ''>'') cs))
      else if c = CHR ''&''
      then (case find (\<lambda>e. prefix (fst e) cs) entities of
              Some (e, ch) \<Rightarrow> Txt ch # read_html (drop (length e) cs)
            | None \<Rightarrow> Txt c # read_html cs)
      else Txt c # read_html cs)"
  by pat_completeness auto
termination
proof (relation "measure length")
  fix c :: char and cs :: string
  have "length (dropWhile (\<lambda>c. c \<noteq> CHR ''>'') cs) \<le> length cs" by (rule length_dropWhile_le)
  then show "(tl (dropWhile (\<lambda>c. c \<noteq> CHR ''>'') cs), c # cs) \<in> measure length" by simp
qed auto

fun html_text :: "item list \<Rightarrow> string" where
  "html_text [] = []"
| "html_text (Txt c # xs) = c # html_text xs"
| "html_text (Tag t # xs) = html_text xs"

definition tag_of :: "string \<Rightarrow> string" where
  "tag_of cls = ''span class='' @ [DQ] @ cls @ [DQ]"

text \<open>
  Well-formed lines: each line is one element of class \<open>l\<close> (\<open>l m\<close> when it is marked), a line
  break stands between two of them, and inside there are only spans of the five classes, not nested.
\<close>

fun wf_lines :: "(nat \<Rightarrow> bool) \<Rightarrow> nat \<Rightarrow> nat \<Rightarrow> item list \<Rightarrow> bool" where
  "wf_lines m line d [] \<longleftrightarrow> d = 0"
| "wf_lines m line d (Txt c # xs) \<longleftrightarrow> (c = LF) = (d = 0) \<and> wf_lines m (if c = LF then line + 1 else line) d xs"
| "wf_lines m line d (Tag t # xs) \<longleftrightarrow>
     (if t = ''/span'' then 0 < d \<and> wf_lines m line (d - 1) xs
      else if d = 0 then t = tag_of (if m line then ''l m'' else ''l'') \<and> wf_lines m line 1 xs
      else d = 1 \<and> t \<in> tag_of ` set classes \<and> wf_lines m line 2 xs)"

lemma read_span: "CHR ''>'' \<notin> set cls \<Longrightarrow> read_html (span cls @ b) = Tag (tag_of cls) # read_html b"
proof -
  assume "CHR ''>'' \<notin> set cls"
  then have "takeWhile (\<lambda>c. c \<noteq> CHR ''>'') (cls @ DQ # CHR ''>'' # b) = cls @ [DQ]"
    "dropWhile (\<lambda>c. c \<noteq> CHR ''>'') (cls @ DQ # CHR ''>'' # b) = CHR ''>'' # b"
    by (auto simp: takeWhile_append dropWhile_append)
  then show ?thesis by (simp add: span_def tag_of_def)
qed

lemma read_span_end: "read_html (span_end @ b) = Tag ''/span'' # read_html b"
  by (simp add: span_end_def)

lemma read_esc_char: "read_html (esc_char c @ b) = Txt c # read_html b"
  by (auto simp: esc_char_def entities_def)

lemma read_escape: "read_html (escape t @ b) = map Txt t @ read_html b"
  by (induction t) (simp_all add: escape_def read_esc_char)

lemma html_text_Txt [simp]: "html_text (map Txt t @ xs) = t @ html_text xs"
  by (induction t) simp_all

lemma wf_lines_Txt: "LF \<notin> set t \<Longrightarrow> 0 < d \<Longrightarrow> wf_lines m line d (map Txt t @ xs) = wf_lines m line d xs"
  by (induction t) auto

lemma read_open_line: "read_html (open_line m line @ b) = Tag (tag_of (if m line then ''l m'' else ''l'')) # read_html b"
  by (simp add: open_line_def read_span)

lemma tag_of_not_end [simp]: "tag_of cls \<noteq> ''/span''"
  by (simp add: tag_of_def)

lemma class_no_bracket: "cls \<in> set classes \<Longrightarrow> CHR ''>'' \<notin> set cls"
  by (auto simp: classes_def)

lemma read_write_part:
  assumes "cls = [] \<or> cls \<in> set classes" "LF \<notin> set t"
  shows "html_text (read_html (write_part cls t @ b)) = t @ html_text (read_html b)"
    and "wf_lines m line 1 (read_html (write_part cls t @ b)) = wf_lines m line 1 (read_html b)"
proof -
  have r: "read_html (write_part cls t @ b) =
      (if t = [] \<or> cls = [] then map Txt t @ read_html b else Tag (tag_of cls) # map Txt t @ Tag ''/span'' # read_html b)"
    using assms(1) class_no_bracket by (auto simp: write_part_def read_span read_span_end read_escape)
  show "html_text (read_html (write_part cls t @ b)) = t @ html_text (read_html b)" by (simp add: r)
  show "wf_lines m line 1 (read_html (write_part cls t @ b)) = wf_lines m line 1 (read_html b)"
    using assms by (auto simp: r wf_lines_Txt)
qed

lemma write_text_spec:
  assumes "cls = [] \<or> cls \<in> set classes" "write_text m line cls t = (out, l)"
  shows "l = line + newlines t \<and> html_text (read_html (out @ b)) = t @ html_text (read_html b)
    \<and> wf_lines m line 1 (read_html (out @ b)) = wf_lines m l 1 (read_html b)"
  using assms
proof (induction m line cls t arbitrary: out l rule: write_text.induct)
  case (1 m line cls t)
  note step = write_text.simps [of m line cls t]
  show ?case
  proof (cases "LF \<in> set t")
    case False
    then have "out = write_part cls t" "l = line" using 1(3) by (simp_all add: step)
    then show ?thesis using False read_write_part [OF 1(2) False] by (simp add: count_list_0_iff)
  next
    case True
    let ?h = "takeWhile (\<lambda>c. c \<noteq> LF) t" and ?r = "tl (dropWhile (\<lambda>c. c \<noteq> LF) t)"
    obtain o' where o': "write_text m (line + 1) cls ?r = (o', l)"
      and out: "out = write_part cls ?h @ span_end @ [LF] @ open_line m (line + 1) @ o'"
      using True 1(3) by (auto simp: step Let_def split: prod.splits)
    have t: "?h @ LF # ?r = t"
    proof -
      have "dropWhile (\<lambda>c. c \<noteq> LF) t \<noteq> []" using True by auto
      then have "dropWhile (\<lambda>c. c \<noteq> LF) t = LF # ?r" using hd_dropWhile [of "\<lambda>c. c \<noteq> LF" t] by (cases "dropWhile (\<lambda>c. c \<noteq> LF) t") auto
      then show ?thesis by (metis takeWhile_dropWhile_id)
    qed
    have h: "LF \<notin> set ?h" by (auto dest: set_takeWhileD)
    have IH: "l = line + 1 + newlines ?r" "html_text (read_html (o' @ b)) = ?r @ html_text (read_html b)"
        "wf_lines m (line + 1) 1 (read_html (o' @ b)) = wf_lines m l 1 (read_html b)"
      using 1(1) [OF True 1(2) o'] by auto
    have LFr: "read_html (LF # x) = Txt LF # read_html x" for x by (simp add: LF_def)
    have out_b: "out @ b = write_part cls ?h @ (span_end @ (LF # (open_line m (line + 1) @ (o' @ b))))" by (simp add: out)
    have "read_html (span_end @ (LF # (open_line m (line + 1) @ (o' @ b)))) =
        Tag ''/span'' # Txt LF # Tag (tag_of (if m (line + 1) then ''l m'' else ''l'')) # read_html (o' @ b)"
      by (simp only: read_span_end LFr read_open_line)
    then show ?thesis
      unfolding out_b read_write_part(1) [OF 1(2) h] read_write_part(2) [OF 1(2) h]
      using IH t newlines_split [OF True] by simp
  qed
qed

definition plain_or_class :: "piece \<Rightarrow> bool" where
  "plain_or_class p \<longleftrightarrow> fst p = [] \<or> fst p \<in> set classes"

lemma good_plain_or_class: "list_all good_piece ps \<Longrightarrow> list_all plain_or_class ps"
  by (auto simp: list_all_iff good_piece_def plain_or_class_def)

lemma write_all_spec:
  assumes "list_all plain_or_class ps"
  shows "html_text (read_html (write_all m line ps @ b)) = concat (map snd ps) @ html_text (read_html b)
    \<and> wf_lines m line 1 (read_html (write_all m line ps @ b)) = wf_lines m (line + newlines (concat (map snd ps))) 1 (read_html b)"
  using assms
proof (induction ps arbitrary: line)
  case (Cons p ps)
  obtain cls t where p: "p = (cls, t)" by (cases p)
  obtain out l where w: "write_text m line cls t = (out, l)" by fastforce
  have "cls = [] \<or> cls \<in> set classes" using Cons.prems p by (simp add: plain_or_class_def)
  note s = write_text_spec [OF this w, of "write_all m l ps @ b"]
  have l: "l = line + newlines t" using s by simp
  have "write_all m line (p # ps) @ b = out @ write_all m l ps @ b" using p w by simp
  then show ?case using s [THEN conjunct2] Cons.IH [of l] Cons.prems p unfolding l by (simp add: add.assoc)
qed simp

lemma HTMLMarked_spec:
  assumes "s = None \<or> s = Some sy \<and> wf_syntax sy"
  shows "\<exists>out. HTMLMarked src s marked = Some out
    \<and> html_text (read_html out) = ReplaceAll src [CHR 0x0D, LF] [LF] \<and> wf_lines marked 0 0 (read_html out)"
proof -
  let ?src = "ReplaceAll src [CHR 0x0D, LF] [LF]"
  have "\<exists>ps. (case s of None \<Rightarrow> Some [([], ?src)] | Some sy \<Rightarrow> tokenize sy ?src) = Some ps
      \<and> concat (map snd ps) = ?src \<and> (ps = [([], ?src)] \<or> list_all good_piece ps)"
    using assms tokenize_total [of sy ?src] by auto
  then obtain ps where ps: "(case s of None \<Rightarrow> Some [([], ?src)] | Some sy \<Rightarrow> tokenize sy ?src) = Some ps"
    "concat (map snd ps) = ?src" "list_all plain_or_class ps"
    using good_plain_or_class by (force simp: plain_or_class_def)
  have out: "HTMLMarked src s marked = Some (open_line marked 0 @ write_all marked 0 ps @ span_end)"
    by (simp add: HTMLMarked_def Let_def ps(1))
  have e: "read_html span_end = [Tag ''/span'']" using read_span_end [of "[]"] by simp
  show ?thesis
    using write_all_spec [OF ps(3), of marked 0 span_end] by (simp add: out read_open_line e ps(2))
qed

lemma HTML_HTMLMarked: "HTML src s = HTMLMarked src s (\<lambda>_. False)"
  by (simp add: HTML_def HTMLMarked_def open_line_def)

text \<open>
  Property C27. The page of a submission: whatever the source, the highlighter ends and a browser
  shows exactly the source with its CRLF line ends turned to LF; the only markup is one element
  per line, marked where asked, holding spans of the five classes that never nest and never cross
  a line.
\<close>

theorem HTMLMarked_shows_source:
  "\<exists>out. HTMLMarked src (ForFile name) marked = Some out
     \<and> html_text (read_html out) = ReplaceAll src [CHR 0x0D, LF] [LF]
     \<and> wf_lines marked 0 0 (read_html out)"
proof (cases "ForFile name")
  case None
  then show ?thesis using HTMLMarked_spec [of None] by simp
next
  case (Some sy)
  then show ?thesis using HTMLMarked_spec [of "Some sy" sy] registered_wf [OF Some] by simp
qed

end
