(* ===== verification/Plagiarism.thy ===== *)
theory Plagiarism
  imports Highlight Go_Float "HOL-Library.Word" "HOL-Library.AList"
begin

text \<open>
  The similarity detection (\<^verbatim>\<open>src/internal/plagiarism/plagiarism.go\<close>): sources become streams of
  normalised tokens, the hashes of K consecutive tokens are winnowed, and submissions that
  share rare fingerprints are paired. Hashes are 64 bit words that wrap; line numbers, which the
  code keeps in 32 bits, are naturals (a source has fewer than \<open>2 ^ 31\<close> lines). The order in which
  Go walks a map is a parameter of \<open>Compare\<close>.
\<close>

unbundle bit_operations_syntax

section \<open>Tokens and hashes\<close>

definition K :: nat where "K = 12"
definition W :: nat where "W = 8"
definition MinShared :: nat where "MinShared = 4"

record fingerprint =
  fpHash :: "64 word"
  fpLine :: nat
  fpEnd :: nat

record Doc =
  docID :: int
  docGroup :: int
  docTokens :: nat
  docFps :: "fingerprint list"

type_synonym ptoken = "64 word \<times> nat"
type_synonym Source = "string \<times> string"

definition strHash :: "string \<Rightarrow> 64 word" where
  "strHash s = foldl (\<lambda>h c. (h XOR of_nat (of_char c)) * 1099511628211) 14695981039346656037 s"

definition identHash :: "64 word" where "identHash = strHash ''I''"
definition numberHash :: "64 word" where "numberHash = strHash ''N''"
definition stringHash :: "64 word" where "stringHash = strHash ''S''"

definition crlf :: "string \<Rightarrow> string" where
  "crlf s = (if CHR 0x0D \<notin> set s then s else ReplaceAll s [CHR 0x0D, LF] [LF])"

text \<open>The callback of \<^verbatim>\<open>tokens\<close> on one token of a file that begins on line \<open>base\<close>.\<close>

definition normalise :: "nat \<Rightarrow> htoken \<Rightarrow> ptoken list" where
  "normalise base t =
     (case t of (kind, txt, line) \<Rightarrow>
        if kind = Identifier then [(identHash, base + line)]
        else if kind = Number then [(numberHash, base + line)]
        else if kind = StringTok then [(stringHash, base + line)]
        else if kind = Comment \<or> kind = Preprocessor then []
        else [(strHash txt, base + line)])"

fun tokens_from :: "nat \<Rightarrow> Source list \<Rightarrow> ptoken list option" where
  "tokens_from base [] = Some []"
| "tokens_from base ((name, dat) # fs) =
     (let d = crlf dat; next_base = base + newlines d + 1
      in case ForFile name of
           None \<Rightarrow> tokens_from next_base fs
         | Some s \<Rightarrow>
             (case Tokens d s of
                None \<Rightarrow> None
              | Some ts \<Rightarrow> map_option (\<lambda>rest. concat (map (normalise base) ts) @ rest) (tokens_from next_base fs)))"

definition tokens :: "Source list \<Rightarrow> ptoken list option" where
  "tokens files = tokens_from 0 files"

fun Offsets_from :: "nat \<Rightarrow> Source list \<Rightarrow> nat list" where
  "Offsets_from base [] = []"
| "Offsets_from base ((name, dat) # fs) = base # Offsets_from (base + newlines dat + 1) fs"

definition Offsets :: "Source list \<Rightarrow> nat list" where
  "Offsets files = Offsets_from 0 files"

definition mix :: "64 word \<Rightarrow> 64 word" where
  "mix x0 =
     (let x1 = (x0 XOR drop_bit 30 x0) * 0xbf58476d1ce4e5b9;
          x2 = (x1 XOR drop_bit 27 x1) * 0x94d049bb133111eb
      in x2 XOR drop_bit 31 x2)"

definition mul :: "64 word" where "mul = 0x100000001b3"

definition top_mul :: "64 word" where
  "top_mul = fold (\<lambda>_ t. t * mul) [1..<K] 1"

function kgram_loop :: "64 word list \<Rightarrow> nat \<Rightarrow> 64 word \<Rightarrow> 64 word list" where
  "kgram_loop ts i h =
     (if length ts \<le> i then []
      else let h1 = (if K \<le> i then h - ts ! (i - K) * top_mul else h); h2 = h1 * mul + ts ! i
           in (if K - 1 \<le> i then [mix h2] else []) @ kgram_loop ts (i + 1) h2)"
  by pat_completeness auto
termination by (relation "measure (\<lambda>(ts, i, h). length ts - i)") auto

declare kgram_loop.simps [simp del]

definition kgrams :: "ptoken list \<Rightarrow> 64 word list" where
  "kgrams toks = (if length toks < K then [] else kgram_loop (map fst toks) 0 0)"

type_synonym Base = "64 word set"

fun NewBase_from :: "Base \<Rightarrow> Source list \<Rightarrow> Base option" where
  "NewBase_from b [] = Some b"
| "NewBase_from b (f # fs) =
     (case tokens [f] of None \<Rightarrow> None | Some ts \<Rightarrow> NewBase_from (fold insert (kgrams ts) b) fs)"

definition NewBase :: "Source list \<Rightarrow> Base option" where
  "NewBase files = NewBase_from {} files"

section \<open>Fingerprints\<close>

definition cover :: "Base \<Rightarrow> 64 word list \<Rightarrow> nat \<Rightarrow> bool list" where
  "cover base hashes n =
     fold (\<lambda>i cov. if hashes ! i \<in> base then fold (\<lambda>j cov. cov[j := True]) [i..<i + K] cov else cov)
       [0..<length hashes] (replicate n False)"

function blocked_loop :: "bool list \<Rightarrow> nat \<Rightarrow> int \<Rightarrow> bool list" where
  "blocked_loop cov i run =
     (if length cov \<le> i then []
      else let run1 = (if cov ! i then run + 1 else run);
               run2 = (if K \<le> i \<and> cov ! (i - K) then run1 - 1 else run1)
           in (if K - 1 \<le> i then [0 < run2] else []) @ blocked_loop cov (i + 1) run2)"
  by pat_completeness auto
termination by (relation "measure (\<lambda>(cov, i, run). length cov - i)") auto

declare blocked_loop.simps [simp del]

text \<open>Whether the k-gram \<open>i\<close> has no token of the base code.\<close>

definition is_free :: "Base \<Rightarrow> 64 word list \<Rightarrow> nat \<Rightarrow> nat \<Rightarrow> bool" where
  "is_free base hashes n = (let blocked = blocked_loop (cover base hashes n) 0 0 in (\<lambda>i. base = {} \<or> \<not> blocked ! i))"

definition scan_min :: "64 word list \<Rightarrow> (nat \<Rightarrow> bool) \<Rightarrow> nat list \<Rightarrow> nat option" where
  "scan_min hs free js =
     fold (\<lambda>i m. if free i \<and> (case m of None \<Rightarrow> True | Some p \<Rightarrow> hs ! i \<le> hs ! p) then Some i else m) js None"

text \<open>One window; \<open>None\<close> is the index -1.\<close>

definition window_min :: "64 word list \<Rightarrow> (nat \<Rightarrow> bool) \<Rightarrow> nat \<Rightarrow> nat \<Rightarrow> nat option \<Rightarrow> nat option" where
  "window_min hs free start stop m =
     (case m of
        Some p \<Rightarrow>
          if p < start then scan_min hs free [start..<stop]
          else if free (stop - 1) \<and> hs ! (stop - 1) \<le> hs ! p then Some (stop - 1) else m
      | None \<Rightarrow> scan_min hs free [start..<stop])"

function winnow :: "64 word list \<Rightarrow> (nat \<Rightarrow> bool) \<Rightarrow> nat \<Rightarrow> nat option \<Rightarrow> nat option \<Rightarrow> nat list" where
  "winnow hs free start m prev =
     (let stop = min (start + W) (length hs); m1 = window_min hs free start stop m;
          new = (case m1 of Some p \<Rightarrow> prev \<noteq> Some p | None \<Rightarrow> False)
      in (if new then [the m1] else [])
         @ (if stop = length hs then [] else winnow hs free (start + 1) m1 (if new then m1 else prev)))"
  by pat_completeness auto
termination by (relation "measure (\<lambda>(hs, free, start, m, prev). length hs - start)") (auto simp: min_def split: if_splits)

declare winnow.simps [simp del]

definition fp_at :: "ptoken list \<Rightarrow> 64 word list \<Rightarrow> nat \<Rightarrow> fingerprint" where
  "fp_at toks hs m = \<lparr>fpHash = hs ! m, fpLine = snd (toks ! m), fpEnd = snd (toks ! (m + K - 1))\<rparr>"

definition Fingerprint :: "int \<Rightarrow> int \<Rightarrow> Source list \<Rightarrow> Base \<Rightarrow> Doc option" where
  "Fingerprint ident grp files base =
     map_option (\<lambda>toks.
         let hashes = kgrams toks
         in \<lparr>docID = ident, docGroup = grp, docTokens = length toks,
             docFps = (if hashes = [] then []
                       else map (fp_at toks hashes) (winnow hashes (is_free base hashes (length toks)) 0 None None))\<rparr>)
       (tokens files)"

section \<open>Comparison\<close>

record Pair =
  pairA :: Doc
  pairB :: Doc
  pairShared :: nat
  pairSimilarity :: f64

record Options =
  optCommon :: int
  optThreshold :: f64
  optLimit :: int

type_synonym index = "(64 word \<times> nat list) list"
type_synonym counts = "((nat \<times> nat) \<times> nat) list"

definition post :: "64 word \<Rightarrow> nat \<Rightarrow> index \<Rightarrow> index" where
  "post h i idx = AList.update h ((case map_of idx h of None \<Rightarrow> [] | Some l \<Rightarrow> l) @ [i]) idx"

fun index_fps :: "nat \<Rightarrow> 64 word list \<Rightarrow> fingerprint list \<Rightarrow> index \<Rightarrow> index" where
  "index_fps i seen [] idx = idx"
| "index_fps i seen (f # fs) idx =
     (if fpHash f \<in> set seen then index_fps i seen fs idx
      else index_fps i (fpHash f # seen) fs (post (fpHash f) i idx))"

fun index_docs :: "nat \<Rightarrow> Doc list \<Rightarrow> index \<Rightarrow> index" where
  "index_docs i [] idx = idx"
| "index_docs i (d # ds) idx = index_docs (i + 1) ds (index_fps i [] (docFps d) idx)"

fun pair_up :: "nat list \<Rightarrow> (nat \<times> nat) list" where
  "pair_up [] = []"
| "pair_up (a # l) = map (Pair a) l @ pair_up l"

definition same_group :: "Doc list \<Rightarrow> nat \<times> nat \<Rightarrow> bool" where
  "same_group docs k \<longleftrightarrow> docGroup (docs ! fst k) \<noteq> 0 \<and> docGroup (docs ! fst k) = docGroup (docs ! snd k)"

definition bump :: "'a \<Rightarrow> ('a \<times> nat) list \<Rightarrow> ('a \<times> nat) list" where
  "bump k m = AList.update k ((case map_of m k of None \<Rightarrow> 0 | Some n \<Rightarrow> n) + 1) m"

text \<open>One posting list of the index: \<open>own\<close> and \<open>shared\<close> after it.\<close>

definition count_list_of :: "Doc list \<Rightarrow> int \<Rightarrow> 64 word \<times> nat list \<Rightarrow> nat list \<times> counts \<Rightarrow> nat list \<times> counts" where
  "count_list_of docs common e s =
     (case s of (own, shared) \<Rightarrow>
        if common < int (length (snd e)) then s
        else (fold (\<lambda>i own. own[i := own ! i + 1]) (snd e) own,
              fold bump (filter (\<lambda>k. \<not> same_group docs k) (pair_up (snd e))) shared))"

definition similarity :: "nat \<Rightarrow> nat \<Rightarrow> f64" where
  "similarity n den = (let sim = f64 (of_nat n) / f64 (of_nat den) in if 1 < sim then 1 else sim)"

definition report :: "Doc list \<Rightarrow> Options \<Rightarrow> nat list \<Rightarrow> (nat \<times> nat) \<times> nat \<Rightarrow> Pair list" where
  "report docs opt own e =
     (case e of ((a, b), n) \<Rightarrow>
        let den = min (own ! a) (own ! b); sim = similarity n den
        in if n < MinShared \<or> den = 0 then []
           else if optThreshold opt \<le> sim
           then [\<lparr>pairA = docs ! a, pairB = docs ! b, pairShared = n, pairSimilarity = sim\<rparr>] else [])"

definition pair_less :: "Pair \<Rightarrow> Pair \<Rightarrow> bool" where
  "pair_less p q \<longleftrightarrow>
     (if pairSimilarity p \<noteq> pairSimilarity q then pairSimilarity q < pairSimilarity p
      else if pairShared p \<noteq> pairShared q then pairShared q < pairShared p
      else docID (pairA p) < docID (pairA q)
        \<or> docID (pairA p) = docID (pairA q) \<and> docID (pairB p) < docID (pairB q))"

definition common_of :: "Doc list \<Rightarrow> Options \<Rightarrow> int" where
  "common_of docs opt = (if optCommon opt \<le> 0 then max 5 (int (length docs) div 10) else optCommon opt)"

definition limit_of :: "Options \<Rightarrow> int" where
  "limit_of opt = (if optLimit opt \<le> 0 then 200 else optLimit opt)"

definition Compare :: "(index \<Rightarrow> index) \<Rightarrow> (counts \<Rightarrow> counts) \<Rightarrow> Doc list \<Rightarrow> Options \<Rightarrow> Pair list" where
  "Compare walk_index walk_shared docs opt =
     (let (own, shared) = fold (count_list_of docs (common_of docs opt)) (walk_index (index_docs 0 docs []))
            (replicate (length docs) 0, []);
          out = stable_sort pair_less (concat (map (report docs opt own) (walk_shared shared)))
      in take (nat (limit_of opt)) out)"

definition lines_of :: "64 word set \<Rightarrow> fingerprint list \<Rightarrow> nat set" where
  "lines_of hs fps = set (concat (map (\<lambda>f. [fpLine f..<fpEnd f + 1]) (filter (\<lambda>f. fpHash f \<in> hs) fps)))"

definition Matches :: "Doc \<Rightarrow> Doc \<Rightarrow> nat set \<times> nat set" where
  "Matches a b =
     (let inB = set (map fpHash (docFps b));
          inA = set (map fpHash (filter (\<lambda>f. fpHash f \<in> inB) (docFps a)))
      in (lines_of inB (docFps a), lines_of inA (docFps b)))"

section \<open>The rolling hash\<close>

text \<open>The hash of a k-gram, computed afresh.\<close>

definition poly :: "64 word list \<Rightarrow> 64 word" where
  "poly ts = foldl (\<lambda>h t. h * mul + t) 0 ts"

definition gram :: "64 word list \<Rightarrow> nat \<Rightarrow> 64 word" where
  "gram ts i = mix (poly (take K (drop i ts)))"

lemma poly_snoc [simp]: "poly (ts @ [t]) = poly ts * mul + t"
  by (simp add: poly_def)

lemma poly_Nil [simp]: "poly [] = 0"
  by (simp add: poly_def)

lemma poly_single [simp]: "poly [t] = t"
  by (simp add: poly_def)

lemma poly_Cons: "poly (t # ts) = t * mul ^ length ts + poly ts"
  by (induction ts rule: rev_induct) (simp_all add: algebra_simps flip: append_Cons)

lemma top_mul: "top_mul = mul ^ (K - 1)"
  by (simp add: top_mul_def K_def upt_rec power_numeral_reduce)

text \<open>The last K entries before \<open>i\<close>, fewer at the beginning: what both sliding loops summarise.\<close>

definition recent :: "'a list \<Rightarrow> nat \<Rightarrow> 'a list" where
  "recent ts i = drop (i - K) (take i ts)"

lemma recent_0 [simp]: "recent ts 0 = []"
  by (simp add: recent_def)

lemma recent_Suc_short: "i < length ts \<Longrightarrow> i < K \<Longrightarrow> recent ts (i + 1) = recent ts i @ [ts ! i]"
  by (simp add: recent_def take_Suc_conv_app_nth)

lemma recent_Suc_full:
  assumes "i < length ts" "K \<le> i"
  obtains r where "recent ts i = ts ! (i - K) # r" "length r = K - 1" "recent ts (i + 1) = r @ [ts ! i]"
proof
  let ?r = "drop (i + 1 - K) (take i ts)"
  have K: "0 < K" by (simp add: K_def)
  show "recent ts i = ts ! (i - K) # ?r"
    using assms K by (simp add: recent_def Suc_diff_le flip: Cons_nth_drop_Suc)
  show "length ?r = K - 1" using assms by simp
  show "recent ts (i + 1) = ?r @ [ts ! i]"
    using assms K by (simp add: recent_def take_Suc_conv_app_nth)
qed

lemma recent_window: "K - 1 \<le> i \<Longrightarrow> i < length ts \<Longrightarrow> recent ts (i + 1) = take K (drop (i + 1 - K) ts)"
  by (simp add: recent_def take_drop K_def)

lemma upt_from_window:
  "i < n \<Longrightarrow> (if K - 1 \<le> i then [f (i + 1 - K)] else []) @ map f [i + 1 + 1 - K..<n + 1 - K] = map f [i + 1 - K..<n + 1 - K]"
proof (cases "K - 1 \<le> i")
  case True
  assume "i < n"
  then have "[i + 1 - K..<n + 1 - K] = (i + 1 - K) # [Suc (i + 1 - K)..<n + 1 - K]"
    using True by (intro upt_conv_Cons) (simp add: K_def)
  moreover have "i + 1 + 1 - K = Suc (i + 1 - K)" using True by (simp add: K_def)
  ultimately show ?thesis using True by simp
qed (simp add: K_def)

lemma poly_recent_step:
  "i < length ts \<Longrightarrow>
    poly (recent ts (i + 1)) = (if K \<le> i then poly (recent ts i) - ts ! (i - K) * top_mul else poly (recent ts i)) * mul + ts ! i"
proof (cases "K \<le> i")
  case True
  assume "i < length ts"
  from recent_Suc_full [OF this True] obtain r where
    "recent ts i = ts ! (i - K) # r" "length r = K - 1" "recent ts (i + 1) = r @ [ts ! i]" .
  then show ?thesis using True by (simp add: poly_Cons top_mul)
qed (simp add: recent_Suc_short [simplified])

lemma kgram_loop_grams:
  "i \<le> length ts \<Longrightarrow> h = poly (recent ts i) \<Longrightarrow> kgram_loop ts i h = map (gram ts) [i + 1 - K..<length ts + 1 - K]"
proof (induction ts i h rule: kgram_loop.induct)
  case (1 ts i h)
  note step = kgram_loop.simps [of ts i h]
  show ?case
  proof (cases "length ts \<le> i")
    case True
    then show ?thesis using 1 by (subst step) simp
  next
    case False
    let ?h = "(if K \<le> i then h - ts ! (i - K) * top_mul else h) * mul + ts ! i"
    have h: "?h = poly (recent ts (i + 1))" using False 1(3) poly_recent_step [of i ts] by simp
    have IH: "kgram_loop ts (i + 1) ?h = map (gram ts) [i + 1 + 1 - K..<length ts + 1 - K]"
      using 1(1) [OF False refl refl] False h by simp
    have "kgram_loop ts i h = (if K - 1 \<le> i then [mix ?h] else []) @ kgram_loop ts (i + 1) ?h"
      using False by (subst step) (simp add: Let_def)
    also have "\<dots> = (if K - 1 \<le> i then [gram ts (i + 1 - K)] else []) @ map (gram ts) [i + 1 + 1 - K..<length ts + 1 - K]"
      unfolding IH using h recent_window [of i ts] False by (simp add: gram_def)
    also have "\<dots> = map (gram ts) [i + 1 - K..<length ts + 1 - K]"
      using False by (intro upt_from_window) simp
    finally show ?thesis .
  qed
qed

lemma kgrams_grams: "kgrams toks = map (gram (map fst toks)) [0..<length toks + 1 - K]"
  using kgram_loop_grams [of 0 "map fst toks" 0] by (auto simp: kgrams_def recent_def K_def)

section \<open>The code of the base\<close>

lemma nth_update: "x < length xs \<Longrightarrow> xs[j := v] ! x = (if x = j then v else xs ! x)"
  by (cases "x = j") simp_all

lemma fold_set_True:
  "length (fold (\<lambda>j cov. cov[j := True]) js cov) = length cov"
  "x < length cov \<Longrightarrow> fold (\<lambda>j cov. cov[j := True]) js cov ! x \<longleftrightarrow> cov ! x \<or> x \<in> set js"
  by (induction js arbitrary: cov) (auto simp: nth_update)

lemma fold_cover:
  "length (fold (\<lambda>i cov. if P i then fold (\<lambda>j cov. cov[j := True]) [i..<i + K] cov else cov) is' cov) = length cov"
  "x < length cov \<Longrightarrow> fold (\<lambda>i cov. if P i then fold (\<lambda>j cov. cov[j := True]) [i..<i + K] cov else cov) is' cov ! x
     \<longleftrightarrow> cov ! x \<or> (\<exists>i \<in> set is'. P i \<and> i \<le> x \<and> x < i + K)"
  by (induction is' arbitrary: cov) (auto simp: fold_set_True)

text \<open>Token \<open>x\<close> belongs to a k-gram of the base code.\<close>

definition base_token :: "Base \<Rightarrow> 64 word list \<Rightarrow> nat \<Rightarrow> bool" where
  "base_token base ts x \<longleftrightarrow> (\<exists>i. i + K \<le> length ts \<and> gram ts i \<in> base \<and> i \<le> x \<and> x < i + K)"

lemma length_kgrams: "i < length (kgrams toks) \<longleftrightarrow> i + K \<le> length toks"
  by (auto simp: kgrams_grams K_def)

lemma kgrams_nth: "i + K \<le> length toks \<Longrightarrow> kgrams toks ! i = gram (map fst toks) i"
  by (simp add: kgrams_grams K_def)

lemma cover_nth:
  "length (cover base (kgrams toks) (length toks)) = length toks"
  "x < length toks \<Longrightarrow> cover base (kgrams toks) (length toks) ! x \<longleftrightarrow> base_token base (map fst toks) x"
  by (auto simp: cover_def fold_cover length_kgrams kgrams_nth base_token_def)

lemma pos_count_list: "0 < count_list xs x \<longleftrightarrow> x \<in> set xs"
  using count_list_0_iff [of xs x] by auto

lemma blocked_step:
  assumes "i < length cov" and run: "run = int (count_list (recent cov i) True)"
  shows "int (count_list (recent cov (i + 1)) True) =
    (let run1 = (if cov ! i then run + 1 else run) in if K \<le> i \<and> cov ! (i - K) then run1 - 1 else run1)"
proof (cases "K \<le> i")
  case True
  from recent_Suc_full [OF assms(1) True] obtain r where
    "recent cov i = cov ! (i - K) # r" "recent cov (i + 1) = r @ [cov ! i]" .
  then show ?thesis using True run by (simp add: Let_def)
qed (use assms in \<open>simp add: recent_Suc_short [simplified]\<close>)

lemma blocked_loop_spec:
  "i \<le> length cov \<Longrightarrow> run = int (count_list (recent cov i) True) \<Longrightarrow>
    blocked_loop cov i run = map (\<lambda>p. True \<in> set (take K (drop p cov))) [i + 1 - K..<length cov + 1 - K]"
proof (induction cov i run rule: blocked_loop.induct)
  case (1 cov i run)
  note step = blocked_loop.simps [of cov i run]
  show ?case
  proof (cases "length cov \<le> i")
    case True
    then show ?thesis using 1 by (subst step) simp
  next
    case False
    let ?run = "let run1 = (if cov ! i then run + 1 else run) in if K \<le> i \<and> cov ! (i - K) then run1 - 1 else run1"
    have run: "?run = int (count_list (recent cov (i + 1)) True)" using False blocked_step [OF _ 1(3)] by simp
    have IH: "blocked_loop cov (i + 1) ?run = map (\<lambda>p. True \<in> set (take K (drop p cov))) [i + 1 + 1 - K..<length cov + 1 - K]"
      using 1(1) [OF False refl refl] False run by (simp add: Let_def)
    have "blocked_loop cov i run = (if K - 1 \<le> i then [0 < ?run] else []) @ blocked_loop cov (i + 1) ?run"
      using False by (subst step) (simp add: Let_def)
    also have "\<dots> = (if K - 1 \<le> i then [True \<in> set (take K (drop (i + 1 - K) cov))] else [])
        @ map (\<lambda>p. True \<in> set (take K (drop p cov))) [i + 1 + 1 - K..<length cov + 1 - K]"
      unfolding IH unfolding run using recent_window [of i cov] False by (simp add: pos_count_list)
    also have "\<dots> = map (\<lambda>p. True \<in> set (take K (drop p cov))) [i + 1 - K..<length cov + 1 - K]"
      using False by (intro upt_from_window) simp
    finally show ?thesis .
  qed
qed

lemma in_window: "p + n \<le> length xs \<Longrightarrow> v \<in> set (take n (drop p xs)) \<longleftrightarrow> (\<exists>x. p \<le> x \<and> x < p + n \<and> xs ! x = v)"
proof
  assume "p + n \<le> length xs" "v \<in> set (take n (drop p xs))"
  then obtain j where "j < n" "xs ! (p + j) = v" by (auto simp: in_set_conv_nth)
  then show "\<exists>x. p \<le> x \<and> x < p + n \<and> xs ! x = v" by (intro exI [of _ "p + j"]) simp
next
  assume n: "p + n \<le> length xs" and "\<exists>x. p \<le> x \<and> x < p + n \<and> xs ! x = v"
  then obtain x where "p \<le> x" "x < p + n" "xs ! x = v" by blast
  then show "v \<in> set (take n (drop p xs))" using n by (auto simp: in_set_conv_nth intro!: exI [of _ "x - p"])
qed

lemma is_free_spec:
  assumes "p < length (kgrams toks)"
  shows "is_free base (kgrams toks) (length toks) p \<longleftrightarrow> (\<forall>x. p \<le> x \<and> x < p + K \<longrightarrow> \<not> base_token base (map fst toks) x)"
proof -
  let ?cov = "cover base (kgrams toks) (length toks)"
  have p: "p + K \<le> length toks" "p < length toks + 1 - K" using assms by (auto simp: kgrams_grams K_def)
  have "blocked_loop ?cov 0 0 ! p \<longleftrightarrow> True \<in> set (take K (drop p ?cov))"
    using blocked_loop_spec [of 0 ?cov 0] p by (simp add: cover_nth K_def)
  also have "\<dots> \<longleftrightarrow> (\<exists>x. p \<le> x \<and> x < p + K \<and> ?cov ! x = True)"
    using p by (intro in_window) (simp add: cover_nth)
  also have "\<dots> \<longleftrightarrow> (\<exists>x. p \<le> x \<and> x < p + K \<and> base_token base (map fst toks) x)"
    using p by (auto simp: cover_nth)
  finally show ?thesis by (auto simp: is_free_def Let_def base_token_def)
qed

section \<open>Winnowing\<close>

text \<open>\<open>m\<close> is the rightmost minimum among the free positions from \<open>a\<close> to before \<open>b\<close>.\<close>

definition is_min :: "64 word list \<Rightarrow> (nat \<Rightarrow> bool) \<Rightarrow> nat \<Rightarrow> nat \<Rightarrow> nat option \<Rightarrow> bool" where
  "is_min hs free a b m \<longleftrightarrow>
     (case m of
        None \<Rightarrow> (\<forall>i. a \<le> i \<and> i < b \<longrightarrow> \<not> free i)
      | Some p \<Rightarrow> a \<le> p \<and> p < b \<and> free p \<and> (\<forall>i. a \<le> i \<and> i < b \<and> free i \<longrightarrow> hs ! p \<le> hs ! i \<and> (p < i \<longrightarrow> hs ! p < hs ! i)))"

lemma is_min_Some:
  "is_min hs free a b (Some p) \<longleftrightarrow>
     a \<le> p \<and> p < b \<and> free p \<and> (\<forall>i. a \<le> i \<and> i < b \<and> free i \<longrightarrow> hs ! p \<le> hs ! i \<and> (p < i \<longrightarrow> hs ! p < hs ! i))"
  by (simp add: is_min_def)

lemma is_min_None: "is_min hs free a b None \<longleftrightarrow> (\<forall>i. a \<le> i \<and> i < b \<longrightarrow> \<not> free i)"
  by (simp add: is_min_def)

lemma is_min_extend:
  assumes "a \<le> b" "is_min hs free a b m"
  shows "is_min hs free a (Suc b) (if free b \<and> (case m of None \<Rightarrow> True | Some p \<Rightarrow> hs ! b \<le> hs ! p) then Some b else m)"
proof (cases m)
  case None
  with assms show ?thesis by (auto simp: is_min_def less_Suc_eq)
next
  case (Some p)
  with assms show ?thesis by (force simp: is_min_def less_Suc_eq)
qed

lemma scan_min_is_min: "a \<le> b \<Longrightarrow> is_min hs free a b (scan_min hs free [a..<b])"
proof (induction rule: dec_induct)
  case base
  then show ?case by (auto simp: scan_min_def is_min_def)
next
  case (step n)
  have "scan_min hs free [a..<Suc n] =
      (if free n \<and> (case scan_min hs free [a..<n] of None \<Rightarrow> True | Some p \<Rightarrow> hs ! n \<le> hs ! p) then Some n else scan_min hs free [a..<n])"
    using step(1) by (simp add: scan_min_def)
  then show ?case using is_min_extend [OF step(1) step(3)] by simp
qed

lemma is_min_drop_first: "is_min hs free a b (Some p) \<Longrightarrow> a < p \<Longrightarrow> is_min hs free (Suc a) b (Some p)"
  by (auto simp: is_min_Some)

lemma window_min_first: "window_min hs free start stop None = scan_min hs free [start..<stop]"
  by (simp add: window_min_def)

lemma window_min_slide:
  assumes "is_min hs free a (a + W) m"
  shows "is_min hs free (Suc a) (Suc a + W) (window_min hs free (Suc a) (Suc a + W) m)"
proof (cases "\<exists>p. m = Some p \<and> a < p")
  case False
  then have "window_min hs free (Suc a) (Suc a + W) m = scan_min hs free [Suc a..<Suc a + W]"
    using assms by (auto simp: window_min_def is_min_Some split: option.splits)
  then show ?thesis using scan_min_is_min [of "Suc a" "Suc a + W"] by simp
next
  case True
  then obtain p where p: "m = Some p" "a < p" by blast
  with assms have "is_min hs free (Suc a) (a + W) (Some p)" using is_min_drop_first by simp
  moreover have "Suc a \<le> a + W" by (simp add: W_def)
  ultimately have "is_min hs free (Suc a) (Suc (a + W)) (if free (a + W) \<and> hs ! (a + W) \<le> hs ! p then Some (a + W) else Some p)"
    using is_min_extend [of "Suc a" "a + W" hs free "Some p"] by simp
  then show ?thesis using p by (auto simp: window_min_def split: if_splits)
qed

lemma is_min_mono:
  assumes "is_min hs free a (a + W) (Some r)" "is_min hs free s b (Some p)" "a \<le> s" "r < s \<or> r < b"
  shows "r \<le> p"
proof (rule ccontr)
  assume "\<not> r \<le> p"
  then have "s \<le> r" "p < r" using assms(2) by (auto simp: is_min_Some)
  then have "hs ! p < hs ! r" using assms by (auto simp: is_min_Some)
  moreover have "hs ! r \<le> hs ! p" using assms \<open>p < r\<close> by (auto simp: is_min_Some)
  ultimately show False by simp
qed

lemma is_min_unique: "is_min hs free a b m \<Longrightarrow> is_min hs free a b m' \<Longrightarrow> m = m'"
proof (cases m)
  case None
  assume "is_min hs free a b m" "is_min hs free a b m'"
  with None show ?thesis by (cases m') (auto simp: is_min_def)
next
  case (Some p)
  assume *: "is_min hs free a b m" "is_min hs free a b m'"
  with Some obtain q where q: "m' = Some q" by (cases m') (auto simp: is_min_def)
  have "a \<le> p" "p < b" "free p" "a \<le> q" "q < b" "free q" using * unfolding Some q by (simp_all add: is_min_Some)
  then have "p < q \<Longrightarrow> hs ! p < hs ! q" "hs ! q \<le> hs ! p" "q < p \<Longrightarrow> hs ! q < hs ! p" "hs ! p \<le> hs ! q"
    using * unfolding Some q by (simp_all add: is_min_Some)
  then have "\<not> p < q" "\<not> q < p" by auto
  then show ?thesis using Some q by simp
qed

text \<open>The state of the winnowing loop before the window at \<open>start\<close>.\<close>

definition winnow_inv :: "64 word list \<Rightarrow> (nat \<Rightarrow> bool) \<Rightarrow> nat \<Rightarrow> nat option \<Rightarrow> nat option \<Rightarrow> bool" where
  "winnow_inv hs free start m prev \<longleftrightarrow>
     start = 0 \<and> m = None \<and> prev = None
     \<or> (\<exists>a. start = Suc a \<and> start + W \<le> length hs \<and> is_min hs free a (a + W) m
          \<and> (\<forall>r. prev = Some r \<longrightarrow> (\<exists>s < start. is_min hs free s (s + W) (Some r))))"

text \<open>The positions that winnowing has to keep from the window at \<open>start\<close> on.\<close>

definition window_minima :: "64 word list \<Rightarrow> (nat \<Rightarrow> bool) \<Rightarrow> nat \<Rightarrow> nat set" where
  "window_minima hs free start =
     {p. \<exists>s \<ge> start. (s = start \<or> s + W \<le> length hs) \<and> is_min hs free s (min (s + W) (length hs)) (Some p)}"

lemma winnow_window:
  assumes "winnow_inv hs free start m prev"
  shows "is_min hs free start (min (start + W) (length hs)) (window_min hs free start (min (start + W) (length hs)) m)"
  using assms window_min_slide scan_min_is_min [of 0 "min W (length hs)" hs free]
  by (auto simp: winnow_inv_def window_min_first min_def split: if_splits)

lemma winnow_inv_step:
  assumes "winnow_inv hs free start m prev" "start + W < length hs" "is_min hs free start (start + W) m1"
    "prev1 = m1 \<and> m1 \<noteq> None \<or> prev1 = prev"
  shows "winnow_inv hs free (start + 1) m1 prev1"
  using assms by (auto simp: winnow_inv_def less_Suc_eq)

lemma window_minima_step:
  "window_minima hs free start =
     {p. is_min hs free start (min (start + W) (length hs)) (Some p)}
     \<union> (if start + W < length hs then window_minima hs free (start + 1) else {})"
proof -
  let ?w = "\<lambda>s p. is_min hs free s (min (s + W) (length hs)) (Some p)"
  have "start \<le> s \<and> (s = start \<or> s + W \<le> length hs) \<longleftrightarrow>
      s = start \<or> start + W < length hs \<and> start + 1 \<le> s \<and> (s = start + 1 \<or> s + W \<le> length hs)" for s
    by auto
  then have "(\<exists>s\<ge>start. (s = start \<or> s + W \<le> length hs) \<and> ?w s p) \<longleftrightarrow>
      ?w start p \<or> start + W < length hs \<and> (\<exists>s\<ge>start + 1. (s = start + 1 \<or> s + W \<le> length hs) \<and> ?w s p)" for p
    by metis
  then show ?thesis by (simp add: window_minima_def Collect_disj_eq)
qed

lemma prev_le_minima:
  assumes "winnow_inv hs free start m (Some r)" "p \<in> window_minima hs free start"
  shows "r \<le> p"
proof -
  from assms(1) obtain s0 where s0: "s0 < start" "start + W \<le> length hs" "is_min hs free s0 (s0 + W) (Some r)"
    by (auto simp: winnow_inv_def)
  from assms(2) s0(2) obtain s where "start \<le> s" "is_min hs free s (s + W) (Some p)"
    by (auto simp: window_minima_def min_def split: if_splits)
  with s0 show ?thesis using is_min_mono [of hs free s0 r s "s + W" p] by (auto simp: is_min_Some)
qed

lemma winnow_spec:
  assumes "winnow_inv hs free start m prev"
  shows "sorted_wrt (<) (winnow hs free start m prev)
    \<and> set (winnow hs free start m prev) = window_minima hs free start - set_option prev"
  using assms
proof (induction hs free start m prev rule: winnow.induct)
  case (1 hs free start m prev)
  note step = winnow.simps [of hs free start m prev]
  define stop where "stop = min (start + W) (length hs)"
  define m1 where "m1 = window_min hs free start stop m"
  define new where "new = (case m1 of Some p \<Rightarrow> prev \<noteq> Some p | None \<Rightarrow> False)"
  define prev1 where "prev1 = (if new then m1 else prev)"
  define rest where "rest = (if stop = length hs then [] else winnow hs free (start + 1) m1 prev1)"
  have unf: "winnow hs free start m prev = (if new then [the m1] else []) @ rest"
    by (subst step) (simp add: Let_def stop_def m1_def new_def prev1_def rest_def)
  have m1: "is_min hs free start stop m1" using winnow_window [OF 1(2)] by (simp add: stop_def m1_def)
  have "is_min hs free start stop (Some p) \<longleftrightarrow> m1 = Some p" for p using m1 is_min_unique by metis
  then have one: "{p. is_min hs free start stop (Some p)} = set_option m1" by (cases m1) auto
  define later where "later = (if stop = length hs then {} else window_minima hs free (start + 1))"
  have all: "window_minima hs free start = set_option m1 \<union> later"
    using window_minima_step [of hs free start] by (simp add: one [unfolded stop_def] later_def stop_def)
  have inv: "winnow_inv hs free (start + 1) m1 prev1" if "stop \<noteq> length hs"
  proof -
    have "start + W < length hs" "stop = start + W" using that by (auto simp: stop_def)
    then show ?thesis using winnow_inv_step [OF 1(2), of m1 prev1] m1
      by (auto simp: prev1_def new_def split: option.splits)
  qed
  have rest: "sorted_wrt (<) rest" "set rest = later - set_option prev1"
    using 1(1) [OF stop_def m1_def new_def] inv by (auto simp: rest_def later_def prev1_def)
  have "the m1 < q" if "new" "q \<in> set rest" for q
  proof -
    obtain r where r: "m1 = Some r" using \<open>new\<close> by (auto simp: new_def split: option.splits)
    have "stop \<noteq> length hs" "q \<in> window_minima hs free (start + 1)" "q \<noteq> r"
      using that rest r by (auto simp: later_def prev1_def split: if_splits)
    with prev_le_minima [of hs free "start + 1" m1 r q] inv r \<open>new\<close> show ?thesis by (auto simp: prev1_def)
  qed
  moreover have "set_option prev \<inter> later = {}" if "new"
  proof -
    obtain r where r: "m1 = Some r" "prev \<noteq> Some r" using \<open>new\<close> by (auto simp: new_def split: option.splits)
    have "r0 \<noteq> q" if "prev = Some r0" "q \<in> later" for r0 q
    proof -
      have "stop \<noteq> length hs" "q \<in> window_minima hs free (start + 1)" using that by (auto simp: later_def split: if_splits)
      then have "r \<le> q" using prev_le_minima [of hs free "start + 1" m1 r q] inv r \<open>new\<close> by (simp add: prev1_def)
      moreover have "r0 \<le> r" using prev_le_minima [of hs free start m r0 r] 1(2) that r all by simp
      ultimately show ?thesis using r that by auto
    qed
    then show ?thesis by (cases prev) auto
  qed
  ultimately show ?case unfolding unf all
    using rest by (cases m1; cases prev) (auto simp: prev1_def new_def)
qed

section \<open>Every long common run is found\<close>

lemma tokens_from_total: "\<exists>ts. tokens_from base files = Some ts"
proof (induction files arbitrary: base)
  case (Cons f fs)
  obtain name dat where f: "f = (name, dat)" by (cases f)
  obtain rest where r: "tokens_from (base + newlines (crlf dat) + 1) fs = Some rest" using Cons by blast
  show ?case
  proof (cases "ForFile name")
    case None
    with f r show ?thesis by (simp add: Let_def)
  next
    case (Some s)
    from tokenize_total [OF registered_wf [OF Some]] obtain ps where "tokenize s (crlf dat) = Some ps" by blast
    with f r Some show ?thesis by (simp add: Let_def Tokens_def)
  qed
qed simp

lemma tokens_total: "\<exists>ts. tokens files = Some ts"
  by (simp add: tokens_def tokens_from_total)

abbreviation hashes_of :: "ptoken list \<Rightarrow> 64 word list" where
  "hashes_of toks \<equiv> map fst toks"

text \<open>A run of \<open>n\<close> tokens from \<open>i\<close> on, none of them from the base code.\<close>

definition own_run :: "Base \<Rightarrow> ptoken list \<Rightarrow> nat \<Rightarrow> nat \<Rightarrow> bool" where
  "own_run base toks i n \<longleftrightarrow> i + n \<le> length toks \<and> (\<forall>x. i \<le> x \<and> x < i + n \<longrightarrow> \<not> base_token base (hashes_of toks) x)"

definition kept :: "Base \<Rightarrow> ptoken list \<Rightarrow> nat list" where
  "kept base toks = (if kgrams toks = [] then [] else winnow (kgrams toks) (is_free base (kgrams toks) (length toks)) 0 None None)"

lemma Fingerprint_kept:
  "tokens files = Some toks \<Longrightarrow>
    Fingerprint ident grp files base = Some \<lparr>docID = ident, docGroup = grp, docTokens = length toks,
      docFps = map (fp_at toks (kgrams toks)) (kept base toks)\<rparr>"
  by (simp add: Fingerprint_def Let_def kept_def)

lemma kept_minima:
  "sorted_wrt (<) (kept base toks)"
  "kgrams toks \<noteq> [] \<Longrightarrow> set (kept base toks) = window_minima (kgrams toks) (is_free base (kgrams toks) (length toks)) 0"
  using winnow_spec [of "kgrams toks" "is_free base (kgrams toks) (length toks)" 0 None None]
  by (auto simp: kept_def winnow_inv_def)

lemma kept_own: "p \<in> set (kept base toks) \<Longrightarrow> own_run base toks p K"
proof -
  assume p: "p \<in> set (kept base toks)"
  then have "kgrams toks \<noteq> []" by (auto simp: kept_def)
  with p have "p < length (kgrams toks)" "is_free base (kgrams toks) (length toks) p"
    by (auto simp: kept_minima(2) window_minima_def is_min_Some)
  then show ?thesis by (simp add: is_free_spec own_run_def) (simp add: length_kgrams)
qed

text \<open>In a run of \<open>K + W - 1\<close> own tokens, the least k-gram hash is kept.\<close>

lemma run_keeps_min:
  assumes "own_run base toks i (K + W - 1)"
  obtains p where "p < W" "i + p \<in> set (kept base toks)"
    "\<And>k. k < W \<Longrightarrow> gram (hashes_of toks) (i + p) \<le> gram (hashes_of toks) (i + k)"
proof -
  let ?hs = "kgrams toks" and ?free = "is_free base (kgrams toks) (length toks)"
  have len: "i + k + K \<le> length toks" if "k < W" for k using assms that by (auto simp: own_run_def W_def)
  have free: "?free (i + k)" if "k < W" for k
    using assms len [OF that] that by (auto simp: is_free_spec length_kgrams own_run_def)
  have iW: "i + W \<le> length ?hs" using len [of "W - 1"] length_kgrams [of "i + (W - 1)" toks] by (simp add: W_def)
  have m: "is_min ?hs ?free i (i + W) (scan_min ?hs ?free [i..<i + W])" by (rule scan_min_is_min) simp
  moreover have "scan_min ?hs ?free [i..<i + W] \<noteq> None"
  proof
    assume "scan_min ?hs ?free [i..<i + W] = None"
    with m free [of 0] show False by (auto simp: is_min_None W_def)
  qed
  ultimately obtain q where q: "is_min ?hs ?free i (i + W) (Some q)" by auto
  define p where "p = q - i"
  have p: "q = i + p" "p < W" using q by (auto simp: p_def is_min_Some)
  have "q \<in> window_minima ?hs ?free 0" using q iW by (auto simp: window_minima_def min_def intro!: exI [of _ i])
  then have "i + p \<in> set (kept base toks)" using iW p by (subst kept_minima(2)) (auto simp: W_def)
  moreover have "gram (hashes_of toks) (i + p) \<le> gram (hashes_of toks) (i + k)" if "k < W" for k
  proof -
    have "?hs ! (i + p) \<le> ?hs ! (i + k)" using q free [OF that] that by (auto simp: is_min_Some p(1))
    then show ?thesis using kgrams_nth [OF len [OF that]] kgrams_nth [OF len [OF p(2)]] by simp
  qed
  ultimately show ?thesis using that p by blast
qed

lemma gram_common:
  assumes "take n (drop i xs) = take n (drop j ys)" "k + K \<le> n"
  shows "gram xs (i + k) = gram ys (j + k)"
proof -
  have "take K (drop k (take n (drop i xs))) = take K (drop k (take n (drop j ys)))" using assms by simp
  then show ?thesis using assms(2) by (simp add: gram_def drop_take add.commute)
qed

lemma kept_fp: "p \<in> set (kept base toks) \<Longrightarrow>
    fp_at toks (kgrams toks) p = \<lparr>fpHash = gram (hashes_of toks) p, fpLine = snd (toks ! p), fpEnd = snd (toks ! (p + K - 1))\<rparr>"
  using kept_own [of p base toks] by (simp add: fp_at_def kgrams_nth own_run_def)

text \<open>
  Property C25. The guarantee of winnowing: two submissions with a common run of at least
  \<open>K + W - 1\<close> normalised tokens, none of them from the code handed out, share a fingerprint, and in
  each of them it lies inside that run, whatever surrounds it.
\<close>

theorem common_run_found:
  assumes "tokens fa = Some ta" "tokens fb = Some tb"
    and "own_run base ta i (K + W - 1)" "own_run base tb j (K + W - 1)"
    and "take (K + W - 1) (drop i (hashes_of ta)) = take (K + W - 1) (drop j (hashes_of tb))"
  shows "\<exists>da db f g p q. Fingerprint x gx fa base = Some da \<and> Fingerprint y gy fb base = Some db
    \<and> f \<in> set (docFps da) \<and> g \<in> set (docFps db) \<and> fpHash f = fpHash g
    \<and> p < W \<and> fpLine f = snd (ta ! (i + p)) \<and> fpEnd f = snd (ta ! (i + p + K - 1))
    \<and> q < W \<and> fpLine g = snd (tb ! (j + q)) \<and> fpEnd g = snd (tb ! (j + q + K - 1))"
proof -
  obtain p where p: "p < W" "i + p \<in> set (kept base ta)"
      "\<And>k. k < W \<Longrightarrow> gram (hashes_of ta) (i + p) \<le> gram (hashes_of ta) (i + k)"
    using run_keeps_min [OF assms(3)] by blast
  obtain q where q: "q < W" "j + q \<in> set (kept base tb)"
      "\<And>k. k < W \<Longrightarrow> gram (hashes_of tb) (j + q) \<le> gram (hashes_of tb) (j + k)"
    using run_keeps_min [OF assms(4)] by blast
  have same: "gram (hashes_of ta) (i + k) = gram (hashes_of tb) (j + k)" if "k < W" for k
    using gram_common [OF assms(5)] that by simp
  then have "gram (hashes_of ta) (i + p) = gram (hashes_of tb) (j + q)"
    using p(3) [OF q(1)] q(3) [OF p(1)] p(1) q(1) by (simp add: order_antisym)
  then show ?thesis
    using p(1,2) q(1,2) unfolding Fingerprint_kept [OF assms(1)] Fingerprint_kept [OF assms(2)]
    by (force simp: kept_fp)
qed

lemma ex_tokens: "tokens [(''a.js'', replicate 19 (CHR '';''))] = Some (replicate 19 (strHash '';'', 0))"
proof -
  have "ForFile ''a.js'' = Some ((c_syntax javascript)\<lparr>syRawQuotes := [BQ]\<rparr>)"
    by (simp add: ForFile_def Ext_def syntaxes_def lower_def)
  moreover have "tokenize ((c_syntax javascript)\<lparr>syRawQuotes := [BQ]\<rparr>) (replicate 19 (CHR '';'')) = Some [([], replicate 19 (CHR '';''))]"
    by (simp add: tokenize_def tokenize_loop.simps c_syntax_def starts_def isIdentStart_def isDigit_def LF_def numeral_eq_Suc)
  ultimately show ?thesis
    by (simp add: tokens_def crlf_def LF_def Tokens_def numeral_eq_Suc isIdentStart_def layout_def rune_len_def normalise_def
        Identifier_def Operator_def Number_def StringTok_def Comment_def Preprocessor_def)
qed

theorem common_run_found_witness:
  "\<exists>da db f g. Fingerprint 1 1 [(''a.js'', replicate 19 (CHR '';''))] {} = Some da
     \<and> Fingerprint 2 2 [(''a.js'', replicate 19 (CHR '';''))] {} = Some db
     \<and> f \<in> set (docFps da) \<and> g \<in> set (docFps db) \<and> fpHash f = fpHash g"
proof -
  have "own_run {} (replicate 19 (strHash '';'', 0)) 0 (K + W - 1)" by (simp add: own_run_def base_token_def K_def W_def)
  from common_run_found [OF ex_tokens ex_tokens this this refl, of 1 1 2 2] show ?thesis by blast
qed

end
