(* ===== verification/Plagiarism_Compare.thy ===== *)
theory Plagiarism_Compare
  imports Plagiarism "HOL-Library.Product_Lexorder"
begin

text \<open>
  The comparison of fingerprinted submissions returns what a comparison of every pair would:
  the inverted index, the counters over it and the order in which Go walks its maps leave no
  trace in the result.
\<close>

section \<open>The inverted index\<close>

abbreviation hset :: "Doc \<Rightarrow> 64 word set" where
  "hset d \<equiv> fpHash ` set (docFps d)"

definition holders :: "Doc list \<Rightarrow> 64 word \<Rightarrow> nat list" where
  "holders docs h = filter (\<lambda>i. h \<in> hset (docs ! i)) [0..<length docs]"

definition postings :: "index \<Rightarrow> 64 word \<Rightarrow> nat list" where
  "postings idx h = (case map_of idx h of None \<Rightarrow> [] | Some l \<Rightarrow> l)"

definition wf_index :: "index \<Rightarrow> bool" where
  "wf_index idx \<longleftrightarrow> distinct (map fst idx) \<and> (\<forall>e \<in> set idx. snd e \<noteq> [])"

lemma post_postings: "postings (post h i idx) h' = postings idx h' @ (if h = h' then [i] else [])"
  by (simp add: postings_def post_def update_conv')

lemma set_update_subset: "set (AList.update k v al) \<subseteq> insert (k, v) (set al)"
  by (induction al) auto

lemma post_wf: "wf_index idx \<Longrightarrow> wf_index (post h i idx)"
  using set_update_subset [of h _ idx] by (fastforce simp: wf_index_def post_def distinct_update)

lemma index_fps_spec:
  assumes "wf_index idx"
  shows "wf_index (index_fps i seen fps idx)
    \<and> postings (index_fps i seen fps idx) h = postings idx h @ (if h \<in> fpHash ` set fps - set seen then [i] else [])"
  using assms by (induction i seen fps idx rule: index_fps.induct) (auto simp: post_postings post_wf)

lemma index_docs_spec:
  "wf_index idx \<Longrightarrow> i = length pre \<Longrightarrow> (\<forall>h. postings idx h = holders pre h) \<Longrightarrow>
    wf_index (index_docs i ds idx) \<and> postings (index_docs i ds idx) h = holders (pre @ ds) h"
proof (induction ds arbitrary: i pre idx)
  case (Cons d ds)
  have "holders (pre @ [d]) h = holders pre h @ (if h \<in> hset d then [length pre] else [])" for h
    by (auto simp: holders_def nth_append intro!: filter_cong)
  then show ?case using Cons.IH [of "index_fps i [] (docFps d) idx" "i + 1" "pre @ [d]"] Cons.prems
      index_fps_spec [of idx i "[]" "docFps d"] by simp
qed simp

lemma index_spec:
  "wf_index (index_docs 0 docs [])"
  "(h, l) \<in> set (index_docs 0 docs []) \<longleftrightarrow> l = holders docs h \<and> l \<noteq> []"
proof -
  have *: "wf_index (index_docs 0 docs [])" "postings (index_docs 0 docs []) h = holders docs h" for h
    using index_docs_spec [of "[]" 0 "[]" docs] by (simp_all add: wf_index_def postings_def holders_def)
  then show "wf_index (index_docs 0 docs [])" by simp
  show "(h, l) \<in> set (index_docs 0 docs []) \<longleftrightarrow> l = holders docs h \<and> l \<noteq> []"
  proof
    assume "(h, l) \<in> set (index_docs 0 docs [])"
    then show "l = holders docs h \<and> l \<noteq> []" using *(1) *(2) [of h] by (auto simp: wf_index_def postings_def)
  next
    assume "l = holders docs h \<and> l \<noteq> []"
    then show "(h, l) \<in> set (index_docs 0 docs [])"
      using *(2) [of h] by (auto simp: postings_def split: option.splits dest: map_of_SomeD)
  qed
qed

section \<open>The counts\<close>

definition tally :: "('a \<times> nat) list \<Rightarrow> 'a \<Rightarrow> nat" where
  "tally m k = (case map_of m k of None \<Rightarrow> 0 | Some n \<Rightarrow> n)"

definition wf_tally :: "('a \<times> nat) list \<Rightarrow> bool" where
  "wf_tally m \<longleftrightarrow> distinct (map fst m) \<and> (\<forall>e \<in> set m. 0 < snd e)"

lemma tally_bump: "tally (bump k m) k' = tally m k' + (if k = k' then 1 else 0)"
  by (simp add: tally_def bump_def update_conv')

lemma wf_bump: "wf_tally m \<Longrightarrow> wf_tally (bump k m)"
  using set_update_subset [of k _ m] by (fastforce simp: wf_tally_def bump_def distinct_update)

lemma fold_bump:
  "wf_tally m \<Longrightarrow> wf_tally (fold bump ks m) \<and> tally (fold bump ks m) k = tally m k + count_list ks k"
  by (induction ks arbitrary: m) (auto simp: wf_bump tally_bump)

lemma wf_tally_iff: "wf_tally m \<Longrightarrow> (k, n) \<in> set m \<longleftrightarrow> tally m k = n \<and> 0 < n"
  by (auto simp: wf_tally_def tally_def split: option.splits dest: map_of_SomeD) (metis eq_key_imp_eq_value)

lemma fold_inc:
  "distinct js \<Longrightarrow> length (fold (\<lambda>i own. own[i := own ! i + 1]) js own) = length own
     \<and> (a < length own \<longrightarrow> fold (\<lambda>i own. own[i := own ! i + 1]) js own ! a = own ! a + (if a \<in> set js then 1 else (0 :: nat)))"
  by (induction js arbitrary: own) (auto simp: nth_update)

lemma count_list_distinct: "distinct l \<Longrightarrow> count_list l b = (if b \<in> set l then 1 else 0)"
  by (induction l) auto

lemma count_pair_up:
  "sorted_wrt (<) l \<Longrightarrow> count_list (pair_up l) (a, b) = (if a \<in> set l \<and> b \<in> set l \<and> a < b then 1 else 0)"
proof (induction l)
  case (Cons x l)
  have "count_list (map (Pair x) l) (a, b) = (if x = a then count_list l b else 0)" by (induction l) auto
  moreover have "count_list l b = (if b \<in> set l then 1 else 0)"
    using Cons.prems by (intro count_list_distinct) (simp add: strict_sorted_iff)
  ultimately show ?case using Cons by auto
qed simp

definition is_rare :: "int \<Rightarrow> 64 word \<times> nat list \<Rightarrow> bool" where
  "is_rare common e \<longleftrightarrow> int (length (snd e)) \<le> common"

definition wf_posting :: "nat \<Rightarrow> 64 word \<times> nat list \<Rightarrow> bool" where
  "wf_posting n e \<longleftrightarrow> sorted_wrt (<) (snd e) \<and> (\<forall>i \<in> set (snd e). i < n)"

lemma count_list_filter_if: "count_list (filter P ks) k = (if P k then count_list ks k else 0)"
  by (induction ks) auto

lemma counts_spec:
  assumes "\<forall>e \<in> set es. wf_posting (length own) e" "wf_tally sh"
  shows "fold (count_list_of docs common) es (own, sh) = (own', sh') \<Longrightarrow>
    length own' = length own \<and> wf_tally sh'
    \<and> (\<forall>a < length own. own' ! a = own ! a + length (filter (\<lambda>e. is_rare common e \<and> a \<in> set (snd e)) es))
    \<and> (\<forall>a b. tally sh' (a, b) = tally sh (a, b)
         + (if same_group docs (a, b) then 0
            else length (filter (\<lambda>e. is_rare common e \<and> a \<in> set (snd e) \<and> b \<in> set (snd e) \<and> a < b) es)))"
  using assms
proof (induction es arbitrary: own sh)
  case (Cons e es)
  show ?case
  proof (cases "is_rare common e")
    case False
    then show ?thesis using Cons by (auto simp: count_list_of_def is_rare_def)
  next
    case True
    have wf: "wf_tally sh" by (rule Cons.prems)
    let ?own = "fold (\<lambda>i own. own[i := own ! i + 1]) (snd e) own"
    let ?sh = "fold bump (filter (\<lambda>k. \<not> same_group docs k) (pair_up (snd e))) sh"
    have e: "sorted_wrt (<) (snd e)" "distinct (snd e)" using Cons.prems by (auto simp: wf_posting_def strict_sorted_iff)
    have "count_list_of docs common e (own, sh) = (?own, ?sh)" using True by (simp add: count_list_of_def is_rare_def)
    moreover have "length ?own = length own" using fold_inc [OF e(2)] by blast
    moreover have "\<forall>a < length own. ?own ! a = own ! a + (if a \<in> set (snd e) then 1 else 0)" using fold_inc [OF e(2), of own] by blast
    moreover have "wf_tally ?sh" by (rule fold_bump [OF wf, THEN conjunct1])
    moreover have "tally ?sh (a, b) = tally sh (a, b)
        + (if same_group docs (a, b) then 0 else if a \<in> set (snd e) \<and> b \<in> set (snd e) \<and> a < b then 1 else 0)" for a b
    proof -
      have "tally ?sh (a, b) = tally sh (a, b) + count_list (filter (\<lambda>k. \<not> same_group docs k) (pair_up (snd e))) (a, b)"
        by (rule fold_bump [OF wf, THEN conjunct2])
      then show ?thesis by (simp add: count_list_filter_if count_pair_up [OF e(1)])
    qed
    ultimately show ?thesis using Cons.IH [of ?own ?sh] Cons.prems True by simp
  qed
qed simp

section \<open>The comparison of every pair\<close>

abbreviation common_hash :: "Doc list \<Rightarrow> int \<Rightarrow> 64 word \<Rightarrow> bool" where
  "common_hash docs common h \<equiv> common < int (length (holders docs h))"

definition ref_own :: "Doc list \<Rightarrow> int \<Rightarrow> nat \<Rightarrow> nat" where
  "ref_own docs common a = card {h \<in> hset (docs ! a). \<not> common_hash docs common h}"

definition ref_shared :: "Doc list \<Rightarrow> int \<Rightarrow> nat \<Rightarrow> nat \<Rightarrow> nat" where
  "ref_shared docs common a b = card {h \<in> hset (docs ! a) \<inter> hset (docs ! b). \<not> common_hash docs common h}"

definition ref_pair :: "Doc list \<Rightarrow> Options \<Rightarrow> nat \<times> nat \<Rightarrow> Pair" where
  "ref_pair docs opt k =
     (let c = common_of docs opt; n = ref_shared docs c (fst k) (snd k)
      in \<lparr>pairA = docs ! fst k, pairB = docs ! snd k, pairShared = n,
          pairSimilarity = f64 (of_nat n) / f64 (of_nat (min (ref_own docs c (fst k)) (ref_own docs c (snd k))))\<rparr>)"

definition reportable :: "Doc list \<Rightarrow> Options \<Rightarrow> nat \<times> nat \<Rightarrow> bool" where
  "reportable docs opt k \<longleftrightarrow>
     \<not> same_group docs k \<and> MinShared \<le> pairShared (ref_pair docs opt k) \<and> optThreshold opt \<le> pairSimilarity (ref_pair docs opt k)"

definition all_pairs :: "nat \<Rightarrow> (nat \<times> nat) list" where
  "all_pairs n = concat (map (\<lambda>a. map (Pair a) [a + 1..<n]) [0..<n])"

definition Compare_ref :: "Doc list \<Rightarrow> Options \<Rightarrow> Pair list" where
  "Compare_ref docs opt =
     take (nat (limit_of opt))
       (stable_sort pair_less (map (ref_pair docs opt) (filter (reportable docs opt) (all_pairs (length docs)))))"

lemma holders_mem: "a \<in> set (holders docs h) \<longleftrightarrow> a < length docs \<and> h \<in> hset (docs ! a)"
  by (auto simp: holders_def)

lemma holders_nonempty: "a < length docs \<Longrightarrow> h \<in> hset (docs ! a) \<Longrightarrow> holders docs h \<noteq> []"
  using holders_mem [of a docs h] by (metis empty_iff list.set(1))

lemma holders_posting: "wf_posting (length docs) (h, holders docs h)"
  by (auto simp: wf_posting_def holders_def intro: sorted_wrt_filter)

lemma count_index:
  assumes "mset es = mset (index_docs 0 docs [])" "\<And>h l. P (h, l) \<longleftrightarrow> Q h l"
  shows "length (filter P es) = card {h. holders docs h \<noteq> [] \<and> Q h (holders docs h)}"
proof -
  let ?idx = "index_docs 0 docs []"
  have "length (filter P es) = size (filter_mset P (mset es))" by (metis mset_filter size_mset)
  also have "\<dots> = length (filter P ?idx)" unfolding assms(1) by (metis mset_filter size_mset)
  also have "\<dots> = card (fst ` set (filter P ?idx))"
  proof -
    have "distinct (map fst (filter P ?idx))" using index_spec(1) [of docs] by (auto simp: wf_index_def intro: distinct_map_filter)
    then show ?thesis by (metis distinct_card length_map list.set_map)
  qed
  also have "fst ` set (filter P ?idx) = {h. holders docs h \<noteq> [] \<and> Q h (holders docs h)}"
    using index_spec(2) assms(2) by (force simp: image_iff)
  finally show ?thesis .
qed

lemma all_pairs_set: "(a, b) \<in> set (all_pairs n) \<longleftrightarrow> a < b \<and> b < n"
  by (auto simp: all_pairs_def intro!: bexI [of _ a])

lemma all_pairs_distinct: "distinct (all_pairs n)"
proof -
  have "distinct (concat (map (\<lambda>a. map (Pair a) [a + 1..<n]) as))" if "distinct as" for as
    using that by (induction as) (auto simp: distinct_map inj_on_def)
  then show ?thesis by (simp add: all_pairs_def)
qed

lemma ref_shared_le_own: "ref_shared docs c a b \<le> ref_own docs c a" "ref_shared docs c a b \<le> ref_own docs c b"
  unfolding ref_shared_def ref_own_def by (rule card_mono; auto)+

text \<open>The counters after the walk over the index.\<close>

lemma Compare_counts:
  assumes "\<And>xs. mset (walk_index xs) = mset xs"
    and "fold (count_list_of docs c) (walk_index (index_docs 0 docs [])) (replicate (length docs) 0, []) = (own, sh)"
  shows "a < length docs \<Longrightarrow> own ! a = ref_own docs c a"
    and "((a, b), n) \<in> set sh \<longleftrightarrow> a < b \<and> b < length docs \<and> \<not> same_group docs (a, b) \<and> n = ref_shared docs c a b \<and> 0 < n"
    and "distinct (map fst sh)"
proof -
  let ?es = "walk_index (index_docs 0 docs [])"
  have es: "mset ?es = mset (index_docs 0 docs [])" by (rule assms)
  have "wf_posting (length docs) e" if "e \<in> set ?es" for e
  proof -
    have "e \<in> set (index_docs 0 docs [])" using that mset_eq_setD [OF es] by blast
    moreover obtain h l where e: "e = (h, l)" by (cases e)
    ultimately have "l = holders docs h" using index_spec(2) by simp
    then show ?thesis using holders_posting e by simp
  qed
  then have s: "wf_tally sh"
      "\<forall>a < length docs. own ! a = length (filter (\<lambda>e. is_rare c e \<and> a \<in> set (snd e)) ?es)"
      "\<forall>a b. tally sh (a, b) = (if same_group docs (a, b) then 0
            else length (filter (\<lambda>e. is_rare c e \<and> a \<in> set (snd e) \<and> b \<in> set (snd e) \<and> a < b) ?es))"
    using counts_spec [OF _ _ assms(2)] by (simp_all add: wf_tally_def tally_def)
  show "own ! a = ref_own docs c a" if a: "a < length docs"
  proof -
    have "{h. holders docs h \<noteq> [] \<and> int (length (holders docs h)) \<le> c \<and> a \<in> set (holders docs h)} =
        {h \<in> hset (docs ! a). \<not> common_hash docs c h}"
      using a holders_nonempty [OF a] by (auto simp: holders_mem not_less)
    then show ?thesis using s(2) a count_index [OF es, of "\<lambda>e. is_rare c e \<and> a \<in> set (snd e)" "\<lambda>h l. int (length l) \<le> c \<and> a \<in> set l"]
      by (simp add: is_rare_def ref_own_def)
  qed
  have t: "tally sh (a, b) = (if same_group docs (a, b) \<or> \<not> (a < b \<and> b < length docs) then 0 else ref_shared docs c a b)"
  proof -
    have "{h. holders docs h \<noteq> [] \<and> int (length (holders docs h)) \<le> c \<and> a \<in> set (holders docs h) \<and> b \<in> set (holders docs h) \<and> a < b} =
        (if a < b \<and> b < length docs then {h \<in> hset (docs ! a) \<inter> hset (docs ! b). \<not> common_hash docs c h} else {})"
      using holders_nonempty [of b docs] by (auto simp: holders_mem not_less)
    moreover have "length (filter (\<lambda>e. is_rare c e \<and> a \<in> set (snd e) \<and> b \<in> set (snd e) \<and> a < b) ?es) =
        card {h. holders docs h \<noteq> [] \<and> int (length (holders docs h)) \<le> c \<and> a \<in> set (holders docs h) \<and> b \<in> set (holders docs h) \<and> a < b}"
      by (rule count_index [OF es]) (simp add: is_rare_def)
    ultimately have l: "length (filter (\<lambda>e. is_rare c e \<and> a \<in> set (snd e) \<and> b \<in> set (snd e) \<and> a < b) ?es) =
        (if a < b \<and> b < length docs then ref_shared docs c a b else 0)"
      by (cases "a < b \<and> b < length docs") (simp_all only: ref_shared_def if_True if_False card.empty simp_thms)
    show ?thesis unfolding s(3) [rule_format] l by simp
  qed
  show "((a, b), n) \<in> set sh \<longleftrightarrow> a < b \<and> b < length docs \<and> \<not> same_group docs (a, b) \<and> n = ref_shared docs c a b \<and> 0 < n"
    unfolding wf_tally_iff [OF s(1)] t by auto
  show "distinct (map fst sh)" using s(1) by (simp add: wf_tally_def)
qed

text \<open>Neither the bound on the similarity nor the test for an empty document ever matters.\<close>

lemma report_ref:
  assumes "own ! a = ref_own docs (common_of docs opt) a" "own ! b = ref_own docs (common_of docs opt) b"
    and "n = ref_shared docs (common_of docs opt) a b" "\<not> same_group docs (a, b)"
  shows "report docs opt own ((a, b), n) = (if reportable docs opt (a, b) then [ref_pair docs opt (a, b)] else [])"
proof (cases "MinShared \<le> n")
  case True
  let ?den = "min (own ! a) (own ! b)"
  have den: "n \<le> ?den" using assms ref_shared_le_own [of docs] by simp
  then have pos: "0 < ?den" using True by (simp add: MinShared_def)
  have "f64 (of_nat n) / f64 (of_nat ?den) \<le> 1" by (rule f64_ratio_le_1 [OF den pos])
  then have "similarity n ?den = pairSimilarity (ref_pair docs opt (a, b))"
    unfolding similarity_def ref_pair_def Let_def assms by (simp only: not_le [symmetric]) simp
  then show ?thesis using True pos assms by (simp add: report_def Let_def reportable_def) (simp add: ref_pair_def Let_def)
qed (use assms in \<open>simp add: report_def reportable_def ref_pair_def Let_def\<close>)

text \<open>The order of the report is total on pairs of distinct documents.\<close>

definition pair_key :: "Pair \<Rightarrow> rat \<times> int \<times> int \<times> int" where
  "pair_key p = (- rat_of_f64 (pairSimilarity p), - int (pairShared p), docID (pairA p), docID (pairB p))"

lemma pair_less_key: "pair_less = (\<lambda>p q. pair_key p < pair_key q)"
proof (intro ext)
  fix p q :: Pair
  have "rat_of_f64 (pairSimilarity p) = rat_of_f64 (pairSimilarity q) \<longleftrightarrow> pairSimilarity p = pairSimilarity q"
    by (metis f64_rat_of_f64)
  then show "pair_less p q \<longleftrightarrow> pair_key p < pair_key q"
    by (auto simp: pair_less_def pair_key_def f64_less_rat)
qed

lemma stable_sort_unique:
  assumes "inj_on f (set xs)" "distinct xs" "distinct ys" "set xs = set ys"
  shows "stable_sort (\<lambda>a b. (f a :: 'b::linorder) < f b) xs = stable_sort (\<lambda>a b. f a < f b) ys"
  using assms by (intro map_sorted_distinct_set_unique [of f] sorted_stable_sort_key) (simp_all add: distinct_map)

lemma ref_pair_inj:
  assumes "distinct (map docID docs)"
  shows "inj_on (\<lambda>k. pair_key (ref_pair docs opt k)) {(a, b). a < length docs \<and> b < length docs}"
proof (rule inj_onI)
  fix k k' assume *: "k \<in> {(a, b). a < length docs \<and> b < length docs}" "k' \<in> {(a, b). a < length docs \<and> b < length docs}"
    "pair_key (ref_pair docs opt k) = pair_key (ref_pair docs opt k')"
  then have "docID (docs ! fst k) = docID (docs ! fst k')" "docID (docs ! snd k) = docID (docs ! snd k')"
    by (simp_all add: pair_key_def ref_pair_def Let_def)
  moreover have "i = j" if "docID (docs ! i) = docID (docs ! j)" "i < length docs" "j < length docs" for i j
    using that nth_eq_iff_index_eq [OF assms, of i j] by simp
  ultimately show "k = k'" using *(1,2) by (auto simp: prod_eq_iff)
qed

lemma Compare_pairs:
  assumes "\<And>xs. mset (walk_index xs) = mset xs" "\<And>xs. mset (walk_shared xs) = mset xs"
    and "fold (count_list_of docs (common_of docs opt)) (walk_index (index_docs 0 docs [])) (replicate (length docs) 0, []) = (own, sh)"
  obtains ks where "concat (map (report docs opt own) (walk_shared sh)) = map (ref_pair docs opt) ks" "distinct ks"
    "set ks = set (filter (reportable docs opt) (all_pairs (length docs)))"
proof
  let ?c = "common_of docs opt" and ?ks = "filter (reportable docs opt) (map fst (walk_shared sh))"
  note counts = Compare_counts [OF assms(1) assms(3)]
  have sh: "mset (walk_shared sh) = mset sh" by (rule assms(2))
  have "report docs opt own e = (if reportable docs opt (fst e) then [ref_pair docs opt (fst e)] else [])" if "e \<in> set (walk_shared sh)" for e
  proof -
    obtain a b n where e: "e = ((a, b), n)" by (metis surj_pair)
    moreover have "e \<in> set sh" using that mset_eq_setD [OF sh] by blast
    ultimately have "a < b" "b < length docs" "\<not> same_group docs (a, b)" "n = ref_shared docs ?c a b" using counts(2) by auto
    then show ?thesis using report_ref [of own a docs opt b n] counts(1) e by simp
  qed
  then have "concat (map (report docs opt own) es) = map (ref_pair docs opt) (filter (reportable docs opt) (map fst es))"
    if "set es \<subseteq> set (walk_shared sh)" for es
    using that by (induction es) auto
  then show "concat (map (report docs opt own) (walk_shared sh)) = map (ref_pair docs opt) ?ks" by simp
  have "mset (map fst (walk_shared sh)) = mset (map fst sh)" using sh by (simp only: mset_map)
  then have "distinct (map fst (walk_shared sh))" using counts(3) by (metis mset_eq_imp_distinct_iff)
  then show "distinct ?ks" by simp
  have "(a, b) \<in> fst ` set sh \<longleftrightarrow> (\<exists>n. ((a, b), n) \<in> set sh)" for a b by force
  then have k: "(a, b) \<in> fst ` set sh \<longleftrightarrow> a < b \<and> b < length docs \<and> \<not> same_group docs (a, b) \<and> 0 < ref_shared docs ?c a b" for a b
    unfolding counts(2) by auto
  have "reportable docs opt (a, b) \<Longrightarrow> \<not> same_group docs (a, b) \<and> 0 < ref_shared docs ?c a b" for a b
    by (simp add: reportable_def ref_pair_def Let_def MinShared_def)
  moreover have "fst ` set (walk_shared sh) = fst ` set sh" using mset_eq_setD [OF sh] by simp
  ultimately have "(a, b) \<in> set ?ks \<longleftrightarrow> (a, b) \<in> set (filter (reportable docs opt) (all_pairs (length docs)))" for a b
    using k [of a b] by (auto simp: all_pairs_set)
  then show "set ?ks = set (filter (reportable docs opt) (all_pairs (length docs)))" by (intro set_eqI) (metis surj_pair)
qed

text \<open>
  Property C26. The comparison over the inverted index returns exactly what a comparison of every
  pair would: the pairs of different groups that share at least four rare fingerprints, with the
  share of the smaller document and at least the threshold, most similar first and cut at the limit. The
  order in which the two maps are walked does not matter.
\<close>

theorem Compare_reference:
  assumes "distinct (map docID docs)" "\<And>xs. mset (walk_index xs) = mset xs" "\<And>xs. mset (walk_shared xs) = mset xs"
  shows "Compare walk_index walk_shared docs opt = Compare_ref docs opt"
proof -
  obtain own sh where f: "fold (count_list_of docs (common_of docs opt)) (walk_index (index_docs 0 docs [])) (replicate (length docs) 0, []) = (own, sh)"
    by fastforce
  from Compare_pairs [of walk_index walk_shared, OF assms(2,3) f] obtain ks where ks:
    "concat (map (report docs opt own) (walk_shared sh)) = map (ref_pair docs opt) ks" "distinct ks"
    "set ks = set (filter (reportable docs opt) (all_pairs (length docs)))" by blast
  let ?rs = "filter (reportable docs opt) (all_pairs (length docs))"
  have sub: "set ?rs \<subseteq> {(a, b). a < length docs \<and> b < length docs}" by (auto simp: all_pairs_set)
  note inj = inj_on_subset [OF ref_pair_inj [OF assms(1)] sub, of opt]
  have inj_ref: "inj_on (ref_pair docs opt) (set ?rs)" using inj by (auto simp: inj_on_def)
  have "inj_on pair_key (set (map (ref_pair docs opt) ks))" using inj by (auto simp: inj_on_def ks(3))
  then have "stable_sort pair_less (map (ref_pair docs opt) ks) = stable_sort pair_less (map (ref_pair docs opt) ?rs)"
    unfolding pair_less_key using inj_ref ks(2,3) all_pairs_distinct
    by (intro stable_sort_unique) (auto simp: distinct_map)
  then show ?thesis by (simp add: Compare_def Compare_ref_def f ks(1))
qed

definition ex_fps :: "fingerprint list" where
  "ex_fps = map (\<lambda>h. \<lparr>fpHash = h, fpLine = 0, fpEnd = 1\<rparr>) [7, 3, 9, 5]"

definition ex_docs :: "Doc list" where
  "ex_docs =
     [\<lparr>docID = 4, docGroup = 1, docTokens = 30, docFps = ex_fps\<rparr>,
      \<lparr>docID = 2, docGroup = 2, docTokens = 40, docFps = ex_fps @ [\<lparr>fpHash = 11, fpLine = 2, fpEnd = 3\<rparr>]\<rparr>,
      \<lparr>docID = 6, docGroup = 1, docTokens = 30, docFps = ex_fps\<rparr>]"

definition ex_options :: Options where
  "ex_options = \<lparr>optCommon = 0, optThreshold = 0, optLimit = 0\<rparr>"

theorem Compare_reference_witness:
  "Compare rev rev ex_docs ex_options = Compare_ref ex_docs ex_options
   \<and> map (\<lambda>p. (docID (pairA p), docID (pairB p), pairShared p)) (Compare id id ex_docs ex_options) = [(2, 6, 4), (4, 2, 4)]"
proof
  show "Compare rev rev ex_docs ex_options = Compare_ref ex_docs ex_options"
    by (rule Compare_reference) (simp_all add: ex_docs_def)
  show "map (\<lambda>p. (docID (pairA p), docID (pairB p), pairShared p)) (Compare id id ex_docs ex_options) = [(2, 6, 4), (4, 2, 4)]"
    by code_simp
qed

section \<open>Lines\<close>

abbreviation hline :: "htoken \<Rightarrow> nat" where "hline t \<equiv> snd (snd t)"

text \<open>A list of line numbers that never goes back and stays between two bounds.\<close>

definition lines_between :: "nat \<Rightarrow> nat \<Rightarrow> nat list \<Rightarrow> bool" where
  "lines_between a b ls \<longleftrightarrow> sorted ls \<and> (\<forall>l \<in> set ls. a \<le> l \<and> l \<le> b)"

lemma lines_between_Nil [simp]: "lines_between a b []"
  by (simp add: lines_between_def)

lemma lines_between_Cons: "lines_between l b ls \<Longrightarrow> l \<le> b \<Longrightarrow> lines_between l b (l # ls)"
  by (auto simp: lines_between_def)

lemma lines_between_append: "lines_between a m xs \<Longrightarrow> lines_between m b ys \<Longrightarrow> a \<le> m \<Longrightarrow> m \<le> b \<Longrightarrow> lines_between a b (xs @ ys)"
  by (fastforce simp: lines_between_def sorted_append)

lemma lines_between_weaken: "lines_between a b ls \<Longrightarrow> a' \<le> a \<Longrightarrow> b \<le> b' \<Longrightarrow> lines_between a' b' ls"
  by (fastforce simp: lines_between_def)

lemma newlines_suffix: "newlines (drop n s) \<le> newlines s" "newlines (dropWhile P s) \<le> newlines s"
  by (metis append_take_drop_id count_list_append le_add2) (metis takeWhile_dropWhile_id count_list_append le_add2)

lemma plain_tokens_lines: "lines_between line (line + newlines s) (map hline (plain_tokens line s))"
proof (induction line s rule: plain_tokens.induct)
  case (2 line c cs)
  show ?case
  proof (cases "c = LF \<or> layout c")
    case True
    then show ?thesis using 2(1,2) by (auto intro: lines_between_weaken)
  next
    case False
    show ?thesis
    proof (cases "isIdentStart c")
      case True
      then show ?thesis using False 2(3) newlines_suffix(2) [of isIdent cs]
        by (auto intro!: lines_between_Cons elim!: lines_between_weaken)
    next
      case nid: False
      then show ?thesis using False 2(4) newlines_suffix(1) [of "rune_len (c # cs) - 1" cs]
        by (auto simp: Let_def intro!: lines_between_Cons elim!: lines_between_weaken)
    qed
  qed
qed simp

lemma piece_tokens_lines: "lines_between line (line + newlines (concat (map snd ps))) (map hline (piece_tokens s line ps))"
proof (induction s line ps rule: piece_tokens.induct)
  case (2 s line cls t ps)
  have "lines_between line (line + newlines t) (map hline
      (if cls = [] then plain_tokens line t
       else if cls = ''k'' \<and> syCaseInsensitive s then [(Keyword, map lower t, line)] else [(hd cls, t, line)]))"
    using plain_tokens_lines by (auto intro: lines_between_Cons)
  from lines_between_append [OF this 2] show ?case by (simp add: add.assoc)
qed simp

lemma newlines_ReplaceAll: "newlines (ReplaceAll s [CHR 0x0D, LF] [LF]) = newlines s"
proof -
  have "newlines (replace_with [([CHR 0x0D, LF], [LF])] s) = newlines s"
    by (induction s rule: induct_list012) (auto simp: LF_def)
  then show ?thesis by (simp add: ReplaceAll_def)
qed

lemma newlines_crlf [simp]: "newlines (crlf s) = newlines s"
  by (simp add: crlf_def newlines_ReplaceAll)

lemma Tokens_lines:
  assumes "ForFile name = Some s" "Tokens src s = Some ts"
  shows "lines_between 0 (newlines src) (map hline ts)"
proof -
  from tokenize_total [OF registered_wf [OF assms(1)], of src] obtain ps where
    "tokenize s src = Some ps" "concat (map snd ps) = src" by blast
  then show ?thesis using piece_tokens_lines [of 0 ps s] assms(2) by (simp add: Tokens_def)
qed

lemma normalise_lines:
  assumes "lines_between 0 n (map hline ts)"
  shows "lines_between base (base + n) (map snd (concat (map (normalise base) ts)))"
proof -
  have "map snd (concat (map (normalise base) ts)) = map (\<lambda>t. base + hline t) (filter (\<lambda>t. normalise base t \<noteq> []) ts)"
  proof (induction ts)
    case (Cons t ts)
    have "normalise base t = [] \<or> (\<exists>h. normalise base t = [(h, base + hline t)])" by (simp add: normalise_def split: prod.splits)
    then show ?case using Cons by auto
  qed simp
  moreover have "sorted (map (\<lambda>t. base + hline t) ts)" using assms by (simp add: lines_between_def sorted_wrt_map)
  ultimately show ?thesis using assms by (auto simp: lines_between_def intro: sorted_filter)
qed

text \<open>The lines of file \<open>i\<close> in the numbering of the matches.\<close>

definition line_of_file :: "Source list \<Rightarrow> nat \<Rightarrow> nat \<Rightarrow> bool" where
  "line_of_file files i l \<longleftrightarrow> i < length files \<and> Offsets files ! i \<le> l \<and> l \<le> Offsets files ! i + newlines (snd (files ! i))"

lemma Offsets_from_nth:
  "i < length files \<Longrightarrow> Offsets_from base files ! i = base + sum_list (map (\<lambda>f. newlines (snd f) + 1) (take i files))"
proof (induction files arbitrary: base i)
  case (Cons f fs)
  then show ?case by (cases f; cases i) auto
qed simp

lemma tokens_from_lines:
  "tokens_from base files = Some ts \<Longrightarrow> lines_between base (base + sum_list (map (\<lambda>f. newlines (snd f) + 1) files) - 1) (map snd ts)"
proof (induction base files arbitrary: ts rule: tokens_from.induct)
  case (2 base name dat fs)
  let ?n = "newlines dat" and ?sum = "sum_list (map (\<lambda>f. newlines (snd f) + 1) fs)"
  show ?case
  proof (cases "ForFile name")
    case None
    then have "lines_between (base + ?n + 1) (base + ?n + 1 + ?sum - 1) (map snd ts)"
      using 2 by (simp add: Let_def)
    then show ?thesis by (auto elim!: lines_between_weaken)
  next
    case (Some s)
    then obtain hs rest where *: "Tokens (crlf dat) s = Some hs" "tokens_from (base + ?n + 1) fs = Some rest"
        "ts = concat (map (normalise base) hs) @ rest"
      using 2(3) by (auto simp: Let_def split: option.splits)
    have "lines_between base (base + ?n) (map snd (concat (map (normalise base) hs)))"
      using Tokens_lines [OF Some *(1)] normalise_lines by simp
    moreover have "lines_between (base + ?n) (base + ?n + ?sum) (map snd rest)"
      using 2(2) [OF refl refl Some *(1)] *(2) by (auto elim!: lines_between_weaken)
    ultimately have "lines_between base (base + ?n + ?sum) (map snd ts)"
      using lines_between_append [of base "base + ?n" _ "base + ?n + ?sum" "map snd rest"] *(3) by simp
    then show ?thesis by (simp add: add.assoc)
  qed
qed simp

lemma line_in_some_file:
  "l < sum_list (map (\<lambda>f. newlines (snd f) + 1) files) \<Longrightarrow>
    \<exists>i < length files. base + l \<ge> Offsets_from base files ! i \<and> base + l \<le> Offsets_from base files ! i + newlines (snd (files ! i))"
proof (induction files arbitrary: base l)
  case (Cons f fs)
  obtain name dat where f: "f = (name, dat)" by (cases f)
  show ?case
  proof (cases "l \<le> newlines dat")
    case True
    then show ?thesis using f by (intro exI [of _ 0]) simp
  next
    case False
    then have "l - (newlines dat + 1) < sum_list (map (\<lambda>f. newlines (snd f) + 1) fs)" using Cons.prems f by simp
    from Cons.IH [OF this, of "base + newlines dat + 1"] False f obtain i where "i < length fs"
      "Offsets_from (base + newlines dat + 1) fs ! i \<le> base + l"
      "base + l \<le> Offsets_from (base + newlines dat + 1) fs ! i + newlines (snd (fs ! i))" by auto
    then show ?thesis using f by (intro exI [of _ "i + 1"]) simp
  qed
qed simp

lemma Fingerprint_lines:
  assumes "Fingerprint ident grp files base = Some d" "f \<in> set (docFps d)" "fpLine f \<le> l" "l \<le> fpEnd f"
  shows "\<exists>i. line_of_file files i l"
proof -
  obtain ts where ts: "tokens files = Some ts" using tokens_total by blast
  obtain p where p: "p \<in> set (kept base ts)" "f = fp_at ts (kgrams ts) p" using assms(1,2) Fingerprint_kept [OF ts] by auto
  have "p + K - 1 < length ts" using kept_own [OF p(1)] by (simp add: own_run_def K_def)
  then have e: "fpEnd f \<in> set (map snd ts)" using p(2) by (simp add: fp_at_def)
  have b: "lines_between 0 (sum_list (map (\<lambda>f. newlines (snd f) + 1) files) - 1) (map snd ts)"
    using tokens_from_lines [of 0 files ts] ts by (simp add: tokens_def)
  have "files \<noteq> []" using ts e by (auto simp: tokens_def)
  then have "0 < sum_list (map (\<lambda>f. newlines (snd f) + 1) files)" by (cases files) auto
  then have "l < sum_list (map (\<lambda>f. newlines (snd f) + 1) files)" using b e assms(4) by (fastforce simp: lines_between_def)
  from line_in_some_file [OF this, of 0] show ?thesis by (auto simp: line_of_file_def Offsets_def)
qed

lemma fp_line_le_end:
  assumes "Fingerprint ident grp files base = Some d" "f \<in> set (docFps d)"
  shows "fpLine f \<le> fpEnd f"
proof -
  obtain ts where ts: "tokens files = Some ts" using tokens_total by blast
  obtain p where p: "p \<in> set (kept base ts)" "f = fp_at ts (kgrams ts) p" using assms Fingerprint_kept [OF ts] by auto
  have "p + K \<le> length ts" using kept_own [OF p(1)] by (simp add: own_run_def)
  moreover have "sorted (map snd ts)" using tokens_from_lines [of 0 files ts] ts by (simp add: tokens_def lines_between_def)
  ultimately show ?thesis using sorted_nth_mono [of "map snd ts" p "p + K - 1"] p(2) by (simp add: fp_at_def K_def)
qed

lemma lines_of_iff: "l \<in> lines_of hs fps \<longleftrightarrow> (\<exists>f \<in> set fps. fpHash f \<in> hs \<and> fpLine f \<le> l \<and> l \<le> fpEnd f)"
  by (auto simp: lines_of_def)

text \<open>The lines of a document covered by fingerprints that another one also has.\<close>

definition shared_lines :: "Doc \<Rightarrow> Doc \<Rightarrow> nat set" where
  "shared_lines a b = {l. \<exists>f \<in> set (docFps a). fpHash f \<in> hset b \<and> fpLine f \<le> l \<and> l \<le> fpEnd f}"

lemma Matches_shared_lines: "Matches a b = (shared_lines a b, shared_lines b a)"
proof -
  have "fpHash ` {f \<in> set (docFps a). fpHash f \<in> hset b} = hset a \<inter> hset b" by auto
  moreover have "lines_of (hset a \<inter> hset b) (docFps b) = shared_lines b a"
    unfolding lines_of_iff shared_lines_def set_eq_iff by blast
  moreover have "lines_of (hset b) (docFps a) = shared_lines a b"
    unfolding lines_of_iff shared_lines_def set_eq_iff by blast
  ultimately show ?thesis by (simp add: Matches_def Let_def)
qed

lemma shared_lines_in_files:
  "Fingerprint x gx files base = Some a \<Longrightarrow> l \<in> shared_lines a b \<Longrightarrow> \<exists>i. line_of_file files i l"
  unfolding shared_lines_def using Fingerprint_lines by blast

lemma shared_first_line:
  "Fingerprint x gx files base = Some a \<Longrightarrow> f \<in> set (docFps a) \<Longrightarrow> fpHash f \<in> hset b \<Longrightarrow> fpLine f \<in> shared_lines a b"
  unfolding shared_lines_def using fp_line_le_end [of x gx files base a f] by blast

text \<open>
  The side-by-side view: a line is marked in a submission exactly when a
  fingerprint that the other one also has covers it, every marked line belongs to a file by the
  offsets, and every shared fingerprint marks at least its first line on both sides.
\<close>

theorem Matches_lines:
  assumes "Fingerprint x gx fa base = Some a" "Fingerprint y gy fb base' = Some b"
  shows "Matches a b = (shared_lines a b, shared_lines b a)
    \<and> (\<forall>l \<in> shared_lines a b. \<exists>i. line_of_file fa i l) \<and> (\<forall>l \<in> shared_lines b a. \<exists>i. line_of_file fb i l)
    \<and> (\<forall>f \<in> set (docFps a). \<forall>g \<in> set (docFps b). fpHash f = fpHash g \<longrightarrow> fpLine f \<in> shared_lines a b \<and> fpLine g \<in> shared_lines b a)"
proof (intro conjI ballI impI)
  fix f g assume *: "f \<in> set (docFps a)" "g \<in> set (docFps b)" "fpHash f = fpHash g"
  then have "fpHash f \<in> hset b" "fpHash g \<in> hset a" by (simp_all add: image_iff) metis+
  then show "fpLine f \<in> shared_lines a b" "fpLine g \<in> shared_lines b a"
    using shared_first_line [OF assms(1) *(1)] shared_first_line [OF assms(2) *(2)] by blast+
qed (use assms shared_lines_in_files Matches_shared_lines in blast)+

theorem Matches_lines_witness:
  "\<exists>a b. Fingerprint 1 1 [(''a.js'', replicate 19 (CHR '';''))] {} = Some a
     \<and> Fingerprint 2 2 [(''a.js'', replicate 19 (CHR '';''))] {} = Some b \<and> Matches a b = (shared_lines a b, shared_lines b a)"
  using Matches_lines [OF Fingerprint_kept [OF ex_tokens, of 1 1 "{}"] Fingerprint_kept [OF ex_tokens, of 2 2 "{}"]]
    Fingerprint_kept [OF ex_tokens, of 1 1 "{}"] Fingerprint_kept [OF ex_tokens, of 2 2 "{}"] by blast

end
