(* ===== verification/User_Tests.thy ===== *)
theory User_Tests
  imports Judging
begin

text \<open>
  User tests and testcase jobs (\<^verbatim>\<open>src/internal/dispatcher\<close>: usertests.go, testcasejobs.go, and
  their statements under \<^verbatim>\<open>src/internal/db/sqlc\<close>). A user test runs a program on an input that a
  contestant or an administrator gives; a testcase job of an administrator waits for one or two
  of them, a generator and a reference solution. As for submissions, a handler is one transaction
  whose side effects are applied after the commit, and a database error aborts it.
\<close>

section \<open>Tables\<close>

record UserTestT =
  usID :: int
  usParticipationID :: "int option"
  usTaskID :: int
  usLanguage :: "string option"
  usInputDigest :: string
  usAdminID :: "int option"
  usDatasetID :: "int option"
  usPlain :: bool
  usFiles :: "(string \<times> string) list"

record UserTestResultT =
  urGeneration :: int
  urCompilation :: "string option"
  urCompilationText :: string
  urCompilationStdout :: string
  urCompilationStderr :: string
  urCompilationTries :: int
  urCompilationTime :: "f64 option"
  urCompilationWallTime :: "f64 option"
  urCompilationMemory :: "int option"
  urEvaluation :: "string option"
  urEvaluationText :: string
  urEvaluationTries :: int
  urOutputDigest :: "string option"
  urTime :: "f64 option"
  urWallTime :: "f64 option"
  urMemory :: "int option"
  urExitStatus :: "string option"
  urSystemError :: "string option"
  urCompletedAt :: "time option"
  urEnqueuedAt :: "time option"
  urExecutables :: "(string \<times> string) list"

record TestcaseJob =
  tjID :: int
  tjDatasetID :: int
  tjCodename :: string
  tjPublic :: bool
  tjAdminID :: "int option"
  tjInputDigest :: "string option"
  tjOutput :: string
  tjSolutionID :: "int option"
  tjUserTestID :: "int option"
  tjState :: string
  tjError :: string

text \<open>The tables of judging with those of user tests; the sequences give the next identity of a user test and of a testcase.\<close>

record UDB =
  udDB :: DB
  udTests :: "UserTestT list"
  udResults :: "int \<times> int \<rightharpoonup> UserTestResultT"
  udJobs :: "TestcaseJob list"
  udNextTest :: int
  udNextTestcase :: int

record UserTestMeta =
  umID :: int
  umParticipationID :: int
  umTaskID :: int
  umLanguage :: "string option"
  umInputDigest :: string
  umDatasetID :: "int option"
  umPlain :: bool

section \<open>Statements\<close>

definition GetUserTest :: "UDB \<Rightarrow> int \<Rightarrow> UserTestT option" where
  "GetUserTest db i = find (\<lambda>u. usID u = i) (udTests db)"

definition own_or_live :: "UDB \<Rightarrow> UserTestT \<Rightarrow> TaskT \<Rightarrow> int option" where
  "own_or_live db u t = (case usDatasetID u of Some d \<Rightarrow> Some d | None \<Rightarrow> tkActiveDatasetID t)"

definition GetUserTestMeta :: "UDB \<Rightarrow> int \<Rightarrow> UserTestMeta option" where
  "GetUserTestMeta db i =
     (case GetUserTest db i of
        None \<Rightarrow> None
      | Some u \<Rightarrow>
          (case GetTask (udDB db) (usTaskID u) of
             None \<Rightarrow> None
           | Some t \<Rightarrow>
               Some \<lparr>umID = usID u, umParticipationID = coalesce (usParticipationID u) None, umTaskID = usTaskID u,
                     umLanguage = usLanguage u, umInputDigest = usInputDigest u, umDatasetID = own_or_live db u t,
                     umPlain = usPlain u\<rparr>))"

definition ListUserTestFiles :: "UDB \<Rightarrow> int \<Rightarrow> (string \<times> string) list" where
  "ListUserTestFiles db i =
     (case GetUserTest db i of None \<Rightarrow> [] | Some u \<Rightarrow> stable_sort (\<lambda>a b. fst a < fst b) (usFiles u))"

definition new_run :: UserTestResultT where
  "new_run = \<lparr>urGeneration = 0, urCompilation = None, urCompilationText = [], urCompilationStdout = [],
     urCompilationStderr = [], urCompilationTries = 0, urCompilationTime = None, urCompilationWallTime = None,
     urCompilationMemory = None, urEvaluation = None, urEvaluationText = [], urEvaluationTries = 0, urOutputDigest = None,
     urTime = None, urWallTime = None, urMemory = None, urExitStatus = None, urSystemError = None, urCompletedAt = None,
     urEnqueuedAt = None, urExecutables = []\<rparr>"

definition update_run :: "(UserTestResultT \<Rightarrow> UserTestResultT) \<Rightarrow> int \<Rightarrow> int \<Rightarrow> UDB \<Rightarrow> UDB" where
  "update_run f u d db =
     (case udResults db (u, d) of None \<Rightarrow> db | Some r \<Rightarrow> db\<lparr>udResults := (udResults db)((u, d) \<mapsto> f r)\<rparr>)"

definition EnsureUserTestResult :: "int \<Rightarrow> int \<Rightarrow> UDB \<Rightarrow> UDB" where
  "EnsureUserTestResult u d db =
     (case udResults db (u, d) of None \<Rightarrow> db\<lparr>udResults := (udResults db)((u, d) \<mapsto> new_run)\<rparr> | Some _ \<Rightarrow> db)"

definition LockUserTestResult :: "UDB \<Rightarrow> int \<Rightarrow> int \<Rightarrow> UserTestResultT option" where
  "LockUserTestResult db u d = udResults db (u, d)"

definition SetUserTestSystemError :: "time \<Rightarrow> int \<Rightarrow> int \<Rightarrow> string \<Rightarrow> UDB \<Rightarrow> UDB" where
  "SetUserTestSystemError now u d msg = update_run (\<lambda>r. r\<lparr>urSystemError := Some msg, urCompletedAt := Some now\<rparr>) u d"

definition SetUserTestJobsEnqueued :: "time \<Rightarrow> int \<Rightarrow> int \<Rightarrow> UDB \<Rightarrow> UDB" where
  "SetUserTestJobsEnqueued now = update_run (\<lambda>r. r\<lparr>urEnqueuedAt := Some now\<rparr>)"

definition SetUserTestCompilation :: "time \<Rightarrow> int \<Rightarrow> int \<Rightarrow> string \<Rightarrow> Compilation \<Rightarrow> int \<Rightarrow> UDB \<Rightarrow> UDB" where
  "SetUserTestCompilation now u d outcome c gen =
     update_run (\<lambda>r. if urGeneration r = gen then
         r\<lparr>urCompilation := Some outcome, urCompilationText := coText c, urCompilationStdout := coStdout c,
           urCompilationStderr := coStderr c, urCompilationTries := urCompilationTries r + 1,
           urCompilationTime := Some (coTime c), urCompilationWallTime := Some (coWallTime c),
           urCompilationMemory := Some (coMemory c),
           urCompletedAt := (if outcome = ''fail'' then Some now else urCompletedAt r)\<rparr> else r) u d"

definition InsertUserTestExecutable :: "int \<Rightarrow> int \<Rightarrow> string \<Rightarrow> string \<Rightarrow> UDB \<Rightarrow> UDB" where
  "InsertUserTestExecutable u d name digest =
     update_run (\<lambda>r. r\<lparr>urExecutables := AList.update name digest (urExecutables r)\<rparr>) u d"

definition SetUserTestEvaluation :: "time \<Rightarrow> int \<Rightarrow> int \<Rightarrow> UserTestRun \<Rightarrow> string option \<Rightarrow> int \<Rightarrow> UDB \<Rightarrow> UDB" where
  "SetUserTestEvaluation now u d x out gen =
     update_run (\<lambda>r. if urGeneration r = gen then
         r\<lparr>urEvaluation := Some ''ok'', urEvaluationText := utText x, urEvaluationTries := urEvaluationTries r + 1,
           urOutputDigest := out, urTime := Some (utTime x), urWallTime := Some (utWallTime x), urMemory := Some (utMemory x),
           urExitStatus := Some (utExitStatus x), urCompletedAt := Some now\<rparr> else r) u d"

definition register_blob :: "string \<Rightarrow> int \<Rightarrow> string \<Rightarrow> UDB \<Rightarrow> UDB" where
  "register_blob digest sz desc db = db\<lparr>udDB := RegisterBlob digest sz desc (udDB db)\<rparr>"

definition LockTestcaseJobByUserTest :: "UDB \<Rightarrow> int \<Rightarrow> TestcaseJob option" where
  "LockTestcaseJobByUserTest db i =
     find (\<lambda>j. tjUserTestID j = Some i \<and> (tjState j = ''input'' \<or> tjState j = ''output'')) (udJobs db)"

definition SetTestcaseJobStep :: "int \<Rightarrow> string \<Rightarrow> string option \<Rightarrow> int option \<Rightarrow> string \<Rightarrow> UDB \<Rightarrow> UDB" where
  "SetTestcaseJobStep i state input u err db =
     db\<lparr>udJobs := map (\<lambda>j. if tjID j = i then j\<lparr>tjState := state, tjInputDigest := input, tjUserTestID := u, tjError := err\<rparr> else j) (udJobs db)\<rparr>"

definition DeleteTestcaseJob :: "int \<Rightarrow> UDB \<Rightarrow> UDB" where
  "DeleteTestcaseJob i db = db\<lparr>udJobs := filter (\<lambda>j. tjID j \<noteq> i) (udJobs db)\<rparr>"

definition CreateAdminUserTest :: "int \<Rightarrow> int option \<Rightarrow> int option \<Rightarrow> bool \<Rightarrow> string option \<Rightarrow> string \<Rightarrow> UDB \<Rightarrow> UDB \<times> int" where
  "CreateAdminUserTest task adm dataset plain lang input db =
     (db\<lparr>udTests := udTests db @ [\<lparr>usID = udNextTest db, usParticipationID = None, usTaskID = task, usLanguage = lang,
           usInputDigest = input, usAdminID = adm, usDatasetID = dataset, usPlain = plain, usFiles = []\<rparr>],
         udNextTest := udNextTest db + 1\<rparr>, udNextTest db)"

definition CreateUserTestFiles :: "int \<Rightarrow> (string \<times> string) list \<Rightarrow> UDB \<Rightarrow> UDB" where
  "CreateUserTestFiles i files db =
     db\<lparr>udTests := map (\<lambda>u. if usID u = i then u\<lparr>usFiles := usFiles u @ files\<rparr> else u) (udTests db)\<rparr>"

definition same_testcase :: "int \<Rightarrow> string \<Rightarrow> TestcaseT \<Rightarrow> bool" where
  "same_testcase d name t \<longleftrightarrow> teDatasetID t = d \<and> teCodename t = name"

definition UpsertTestcase :: "int \<Rightarrow> string \<Rightarrow> bool \<Rightarrow> string \<Rightarrow> string \<Rightarrow> UDB \<Rightarrow> UDB" where
  "UpsertTestcase d name pub input outp db =
     (let tcs = dbTestcases (udDB db)
      in if list_ex (same_testcase d name) tcs
         then db\<lparr>udDB := (udDB db)\<lparr>dbTestcases :=
                map (\<lambda>t. if same_testcase d name t then t\<lparr>tePublic := pub, teInputDigest := input, teOutputDigest := outp\<rparr> else t) tcs\<rparr>\<rparr>
         else db\<lparr>udDB := (udDB db)\<lparr>dbTestcases := tcs @ [\<lparr>teID = udNextTestcase db, teDatasetID = d, teCodename = name,
                tePublic = pub, teInputDigest = input, teOutputDigest = outp\<rparr>]\<rparr>, udNextTestcase := udNextTestcase db + 1\<rparr>)"

section \<open>Texts\<close>

definition isRuneStart :: "char \<Rightarrow> bool" where
  "isRuneStart b \<longleftrightarrow> \<not> (128 \<le> (of_char b :: nat) \<and> (of_char b :: nat) < 192)"

fun back_to_rune :: "string \<Rightarrow> nat \<Rightarrow> nat" where
  "back_to_rune s 0 = 0"
| "back_to_rune s (Suc n) = (if isRuneStart (s ! Suc n) then Suc n else back_to_rune s n)"

definition truncate_text :: "string \<Rightarrow> nat \<Rightarrow> string" where
  "truncate_text s0 n =
     (let s = TrimSpace s0 in if length s \<le> n then s else take (back_to_rune s n) s @ ellipsis)"

section \<open>Testcase jobs\<close>

definition emptyDigest :: string where
  "emptyDigest = ''e3b0c44298fc1c149afbf4c8996fb92427ae41e4649b934ca495991b7852b855''"

record runEnd =
  rdErr :: string
  rdOutput :: string
  rdStatus :: string
  rdText :: string

definition failure :: "runEnd \<Rightarrow> string" where
  "failure e =
     (if rdErr e \<noteq> [] then rdErr e
      else if rdStatus e \<noteq> ''ok'' then ''the program did not end well ('' @ rdStatus e @ ''): '' @ rdText e
      else if rdOutput e = [] then ''the program wrote no output''
      else [])"

definition compileFailure :: "Compilation \<Rightarrow> string" where
  "compileFailure c =
     (let err = TrimSpace (coStderr c); out = TrimSpace (coStdout c)
      in ''compilation failed: '' @ truncate_text (if err \<noteq> [] then err else if out \<noteq> [] then out else coText c) 1500)"

record ueffects =
  ueJobs :: "Item list"
  ueEvents :: "Event list"
  ueUserTests :: "int list"
  ueDatasets :: "int list"

definition no_ueffects :: ueffects where
  "no_ueffects = \<lparr>ueJobs = [], ueEvents = [], ueUserTests = [], ueDatasets = []\<rparr>"

type_synonym utx = "UDB \<times> ueffects"

text \<open>The text of \<^verbatim>\<open>pgx.ErrNoRows\<close> is a parameter.\<close>

definition startSolutionRun :: "string \<Rightarrow> TestcaseJob \<Rightarrow> string \<Rightarrow> UDB \<Rightarrow> (string, UDB \<times> int) result" where
  "startSolutionRun noRows job input db =
     (case tjSolutionID job of
        None \<Rightarrow> Inl ''the reference solution was deleted''
      | Some sol \<Rightarrow>
          (case GetSubmission (udDB db) sol of
             None \<Rightarrow> Inl (''the reference solution was deleted: '' @ noRows)
           | Some sub \<Rightarrow>
               (let (db1, i) = CreateAdminUserTest (smTaskID sub) (tjAdminID job) (Some (tjDatasetID job)) False (smLanguage sub) input db
                in Inr (CreateUserTestFiles i (ListSubmissionFiles (udDB db) (smID sub)) db1, i))))"

definition testcaseJobStep :: "string \<Rightarrow> int \<Rightarrow> runEnd \<Rightarrow> utx \<Rightarrow> (string, utx) result" where
  "testcaseJobStep noRows i e = (\<lambda>(db, eff).
     (case LockTestcaseJobByUserTest db i of
        None \<Rightarrow> Inr (db, eff)
      | Some job \<Rightarrow>
          if failure e \<noteq> [] then
            Inr (SetTestcaseJobStep (tjID job) ''failed'' (tjInputDigest job) (tjUserTestID job)
                  (truncate_text ((if tjState job = ''output'' then ''reference solution'' else ''generator'') @ '': '' @ failure e) 600) db, eff)
          else if tjState job = ''input'' \<and> tjOutput job = ''solution'' then
            (case startSolutionRun noRows job (rdOutput e) db of
               Inl err \<Rightarrow>
                 Inr (SetTestcaseJobStep (tjID job) ''failed'' (Some (rdOutput e)) (tjUserTestID job) (truncate_text err 600) db, eff)
             | Inr (db1, run) \<Rightarrow>
                 Inr (SetTestcaseJobStep (tjID job) ''output'' (Some (rdOutput e)) (Some run) [] db1,
                      eff\<lparr>ueUserTests := ueUserTests eff @ [run]\<rparr>))
          else
            (let input = (if tjState job = ''input'' then Some (rdOutput e) else tjInputDigest job);
                 outp = (if tjState job = ''input'' then emptyDigest else rdOutput e)
             in case input of
                  None \<Rightarrow> Inl ''testcase job without an input''
                | Some inp \<Rightarrow>
                    Inr (DeleteTestcaseJob (tjID job)
                           (UpsertTestcase (tjDatasetID job) (tjCodename job) (tjPublic job) inp outp db),
                         eff\<lparr>ueDatasets := ueDatasets eff @ [tjDatasetID job]\<rparr>))))"

section \<open>User tests\<close>

definition plainLimits :: "Limits \<Rightarrow> Limits" where
  "plainLimits l =
     (let t = max (liTimeMs l) 10000
      in l\<lparr>liTimeMs := t, liWallTimeMs := max (liWallTimeMs l) (2 * t), liMemoryBytes := max (liMemoryBytes l) (2 ^ 30),
           liOutputBytes := max (liOutputBytes l) (256 * 2 ^ 20)\<rparr>)"

definition run_job :: "Dispatcher \<Rightarrow> int \<Rightarrow> int \<Rightarrow> int \<Rightarrow> int \<Rightarrow> UserTestMeta \<Rightarrow> datasetInfo \<Rightarrow> Language option \<Rightarrow> (string \<times> string) list \<Rightarrow> Job" where
  "run_job dp u d gen attempt meta di lang files =
     (let lims = (if umPlain meta then plainLimits (limits di) else limits di)
      in \<lparr>jbID = newJobID dp KindUserTest u d gen [], jbKind = KindUserTest, jbAttempt = attempt, jbPriority = PriorityUserTest,
          jbSubmissionID = 0, jbUserTestID = u, jbDatasetID = d, jbGeneration = gen,
          jbTaskType = (if umPlain meta then ''Batch'' else dtTaskType (diDs di)),
          jbTaskTypeParams = (if umPlain meta then ''{}'' else dtTaskTypeParams (diDs di)), jbLanguage = lang,
          jbFiles = resolveFiles files (case lang of None \<Rightarrow> [] | Some l \<Rightarrow> SourceExtension l),
          jbManagers = (if umPlain meta then [] else diManagers di), jbExecutables = [],
          jbLimits = (case lang of None \<Rightarrow> lims | Some _ \<Rightarrow> ForLanguage lims lang), jbTestcases = [], jbInput = umInputDigest meta\<rparr>)"

text \<open>\<open>NoSubmission\<close> stands for the missing row of a user test.\<close>

definition userTestJob :: "Dispatcher \<Rightarrow> UDB \<Rightarrow> datasetCache \<Rightarrow> int \<Rightarrow> int \<Rightarrow> int \<Rightarrow> int \<Rightarrow> (load_error, Job) result \<times> datasetCache" where
  "userTestJob dp db m u d gen attempt =
     (case GetUserTestMeta db u of
        None \<Rightarrow> (Inl NoSubmission, m)
      | Some meta \<Rightarrow>
          (case cache_get (dpRegexp dp) (30 * second) (dpNow dp) (udDB db) m d of
             (Inl e, m') \<Rightarrow> (Inl e, m')
           | (Inr di, m') \<Rightarrow>
               (case umLanguage meta of
                  None \<Rightarrow> (Inr (run_job dp u d gen attempt meta di None (ListUserTestFiles db u)), m')
                | Some i \<Rightarrow>
                    (case Get (dpLangs dp) i of
                       None \<Rightarrow> (Inl (NoLanguage i), m')
                     | Some l \<Rightarrow> (Inr (run_job dp u d gen attempt meta di (Some l) (ListUserTestFiles db u)), m')))))"

definition TypeUserTest :: string where "TypeUserTest = ''user_test''"

definition userTestEvent :: "UserTestMeta \<Rightarrow> string \<Rightarrow> Event" where
  "userTestEvent meta status = no_event\<lparr>eType := TypeUserTest, eParticipationID := umParticipationID meta,
     eTaskID := umTaskID meta, eUserTestID := umID meta, eStatus := status\<rparr>"

datatype utx_result = UStale | URefused string | UCommitted UDB ueffects

definition advanceUserTest :: "Dispatcher \<Rightarrow> (load_error \<Rightarrow> string) \<Rightarrow> datasetCache \<Rightarrow> int \<Rightarrow> int \<Rightarrow> UDB \<Rightarrow> utx_result \<times> datasetCache" where
  "advanceUserTest dp etxt m u d db0 =
     (let db = EnsureUserTestResult u d db0
      in case LockUserTestResult db u d of
           None \<Rightarrow> (UStale, m)
         | Some st \<Rightarrow>
             if urCompletedAt st \<noteq> None then (UCommitted db no_ueffects, m)
             else (case (userTestJob dp db m u d (urGeneration st) 0, GetUserTestMeta db u) of
                     ((Inr j, m'), Some meta) \<Rightarrow>
                       (UCommitted (SetUserTestJobsEnqueued (dpNow dp) u d db)
                          (no_ueffects\<lparr>ueJobs := [\<lparr>itPriority = PriorityUserTest, itJob = j\<rparr>], ueEvents := [userTestEvent meta ''compiling'']\<rparr>), m')
                   | ((Inr j, m'), None) \<Rightarrow> (UCommitted (SetUserTestSystemError (dpNow dp) u d (etxt NoSubmission) db) no_ueffects, m')
                   | ((Inl e, m'), _) \<Rightarrow> (UCommitted (SetUserTestSystemError (dpNow dp) u d (etxt e) db) no_ueffects, m')))"

definition newUserTest :: "Dispatcher \<Rightarrow> (load_error \<Rightarrow> string) \<Rightarrow> datasetCache \<Rightarrow> int \<Rightarrow> UDB \<Rightarrow> utx_result \<times> datasetCache" where
  "newUserTest dp etxt m u db =
     (case GetUserTestMeta db u of
        None \<Rightarrow> (UCommitted db no_ueffects, m)
      | Some meta \<Rightarrow>
          (case umDatasetID meta of
             None \<Rightarrow> (UCommitted db no_ueffects, m)
           | Some d \<Rightarrow> advanceUserTest dp etxt m u d db))"

definition store_run_executable :: "int \<Rightarrow> int \<Rightarrow> UDB \<Rightarrow> File \<Rightarrow> UDB" where
  "store_run_executable u d db e =
     InsertUserTestExecutable u d (fiName e) (fiDigest e) (register_blob (fiDigest e) (fiSize e) ''executable'' db)"

definition store_run :: "time \<Rightarrow> int \<Rightarrow> int \<Rightarrow> int \<Rightarrow> Compilation \<Rightarrow> UserTestRun \<Rightarrow> UDB \<Rightarrow> UDB" where
  "store_run now u d gen c x db0 =
     (let db1 = foldl (store_run_executable u d) db0 (coExecutables c);
          out = (if utOutput x = [] then None else Some (utOutput x));
          db2 = (if utOutput x = [] then db1 else register_blob (utOutput x) 0 ''user test output'' db1)
      in SetUserTestEvaluation now u d x out gen db2)"

definition finish_utx :: "(string, utx) result \<Rightarrow> utx_result" where
  "finish_utx t = (case t of Inl e \<Rightarrow> URefused e | Inr (db, eff) \<Rightarrow> UCommitted db eff)"

definition run_event :: "UserTestMeta \<Rightarrow> string \<Rightarrow> ueffects" where
  "run_event meta status = no_ueffects\<lparr>ueEvents := [userTestEvent meta status]\<rparr>"

definition run_failed :: "Dispatcher \<Rightarrow> (load_error \<Rightarrow> string) \<Rightarrow> string \<Rightarrow> datasetCache \<Rightarrow> UDB \<Rightarrow> UserTestResultT \<Rightarrow> UserTestMeta \<Rightarrow> JobResult \<Rightarrow>
    utx_result \<times> datasetCache" where
  "run_failed dp etxt noRows m db st meta r =
     (let u = reUserTestID r; d = reDatasetID r; attempt = reAttempt r + 1
      in if opMaxAttempts (dpOpts dp) \<le> attempt
         then (let msg = ''user test job failed '' @ Itoa attempt @ '' times: '' @ reError r
               in (finish_utx (testcaseJobStep noRows u \<lparr>rdErr = msg, rdOutput = [], rdStatus = [], rdText = []\<rparr>
                     (SetUserTestSystemError (dpNow dp) u d msg db, run_event meta ''error'')), m))
         else (case userTestJob dp db m u d (urGeneration st) attempt of
                 (Inl e, m') \<Rightarrow> (URefused (etxt e), m')
               | (Inr j, m') \<Rightarrow>
                   (UCommitted (SetUserTestJobsEnqueued (dpNow dp) u d db)
                      (no_ueffects\<lparr>ueJobs := [\<lparr>itPriority = PriorityUserTest, itJob = j\<rparr>]\<rparr>), m')))"

definition run_compiled :: "Dispatcher \<Rightarrow> string \<Rightarrow> UDB \<Rightarrow> UserTestResultT \<Rightarrow> UserTestMeta \<Rightarrow> Compilation \<Rightarrow> JobResult \<Rightarrow> (string, utx) result" where
  "run_compiled dp noRows db0 st meta c r =
     (let u = reUserTestID r; d = reDatasetID r;
          db = SetUserTestCompilation (dpNow dp) u d (if coSuccess c then ''ok'' else ''fail'') c (urGeneration st) db0
      in case (coSuccess c, reUserTest r) of
           (True, Some x) \<Rightarrow>
             testcaseJobStep noRows u \<lparr>rdErr = [], rdOutput = utOutput x, rdStatus = utExitStatus x, rdText = utText x\<rparr>
               (store_run (dpNow dp) u d (urGeneration st) c x db, run_event meta ''done'')
         | _ \<Rightarrow>
             testcaseJobStep noRows u
               \<lparr>rdErr = (if coSuccess c then ''the run gave no result'' else compileFailure c), rdOutput = [], rdStatus = [], rdText = []\<rparr>
               (db, run_event meta ''done''))"

definition handleUserTestResult :: "Dispatcher \<Rightarrow> (load_error \<Rightarrow> string) \<Rightarrow> string \<Rightarrow> datasetCache \<Rightarrow> UDB \<Rightarrow> JobResult \<Rightarrow>
    utx_result \<times> datasetCache" where
  "handleUserTestResult dp etxt noRows m db r =
     (case LockUserTestResult db (reUserTestID r) (reDatasetID r) of
        None \<Rightarrow> (UStale, m)
      | Some st \<Rightarrow>
          if urGeneration st \<noteq> reGeneration r \<or> urCompletedAt st \<noteq> None then (UStale, m)
          else (case GetUserTestMeta db (reUserTestID r) of
                  None \<Rightarrow> (URefused noRows, m)
                | Some meta \<Rightarrow>
                    if reError r \<noteq> [] then run_failed dp etxt noRows m db st meta r
                    else (case reCompilation r of
                            None \<Rightarrow> (URefused ''user test result without compilation'', m)
                          | Some c \<Rightarrow> (finish_utx (run_compiled dp noRows db st meta c r), m))))"

text \<open>The state that a transaction leaves.\<close>

definition after_utx :: "UDB \<Rightarrow> utx_result \<Rightarrow> UDB" where
  "after_utx db t = (case t of UCommitted db' _ \<Rightarrow> db' | _ \<Rightarrow> db)"

end
