(* ===== verification/User_Test_Props.thy ===== *)
theory User_Test_Props
  imports User_Tests Judging_Props
begin

text \<open>
  What user tests and testcase jobs guarantee: a run ends once, a testcase job moves forward
  with its runs and makes a testcase of their outputs; and the one way in which a job is left
  waiting for a run that is already over.
\<close>

section \<open>Texts\<close>

lemma back_to_rune: "back_to_rune s n \<le> n" "0 < back_to_rune s n \<Longrightarrow> isRuneStart (s ! back_to_rune s n)"
  by (induction n) auto

text \<open>A shortened text has at most \<open>n\<close> bytes before the ellipsis and never ends inside a character.\<close>

lemma truncate_text_spec:
  "truncate_text s n = TrimSpace s \<and> length (TrimSpace s) \<le> n
   \<or> (\<exists>k \<le> n. truncate_text s n = take k (TrimSpace s) @ ellipsis \<and> n < length (TrimSpace s) \<and> (k = 0 \<or> isRuneStart (TrimSpace s ! k)))"
  using back_to_rune [of "TrimSpace s" n] by (auto simp: truncate_text_def Let_def)

lemma truncate_text_length: "length (truncate_text s n) \<le> n + 3"
  using truncate_text_spec [of s n] by (auto simp: ellipsis_def)

section \<open>Statements\<close>

lemma update_run_simps [simp]:
  "udDB (update_run f u d db) = udDB db" "udTests (update_run f u d db) = udTests db"
  "udJobs (update_run f u d db) = udJobs db" "udNextTest (update_run f u d db) = udNextTest db"
  "udNextTestcase (update_run f u d db) = udNextTestcase db"
  by (simp_all add: update_run_def split: option.splits)

lemma update_run_results: "udResults (update_run f u d db) k = (if k = (u, d) then map_option f (udResults db k) else udResults db k)"
  by (simp add: update_run_def split: option.splits)

lemmas run_statements = SetUserTestSystemError_def SetUserTestJobsEnqueued_def SetUserTestCompilation_def
  InsertUserTestExecutable_def SetUserTestEvaluation_def

lemma register_blob_simps [simp]:
  "udTests (register_blob g n x db) = udTests db" "udResults (register_blob g n x db) = udResults db"
  "udJobs (register_blob g n x db) = udJobs db" "udNextTest (register_blob g n x db) = udNextTest db"
  "udNextTestcase (register_blob g n x db) = udNextTestcase db"
  "GetTask (udDB (register_blob g n x db)) = GetTask (udDB db)"
  "GetSubmission (udDB (register_blob g n x db)) = GetSubmission (udDB db)"
  "ListSubmissionFiles (udDB (register_blob g n x db)) = ListSubmissionFiles (udDB db)"
  "dbTestcases (udDB (register_blob g n x db)) = dbTestcases (udDB db)"
  by (auto simp: register_blob_def RegisterBlob_def GetTask_def GetSubmission_def ListSubmissionFiles_def fun_eq_iff)

text \<open>What the statements of a run leave alone.\<close>

definition same_world :: "UDB \<Rightarrow> UDB \<Rightarrow> bool" where
  "same_world a b \<longleftrightarrow> udTests a = udTests b \<and> udJobs a = udJobs b \<and> udNextTest a = udNextTest b \<and> udNextTestcase a = udNextTestcase b
     \<and> GetTask (udDB a) = GetTask (udDB b) \<and> GetSubmission (udDB a) = GetSubmission (udDB b)
     \<and> ListSubmissionFiles (udDB a) = ListSubmissionFiles (udDB b) \<and> dbTestcases (udDB a) = dbTestcases (udDB b)"

lemma same_world_trans: "same_world a b \<Longrightarrow> same_world b c \<Longrightarrow> same_world a c"
  by (auto simp: same_world_def)

lemma store_executables_world:
  "same_world (foldl (store_run_executable u d) db es) db"
  "k \<noteq> (u, d) \<Longrightarrow> udResults (foldl (store_run_executable u d) db es) k = udResults db k"
  "map_option (\<lambda>r. (urGeneration r, urCompletedAt r)) (udResults (foldl (store_run_executable u d) db es) (u, d)) =
     map_option (\<lambda>r. (urGeneration r, urCompletedAt r)) (udResults db (u, d))"
proof (induction es arbitrary: db)
  case (Cons e es)
  have s: "same_world (store_run_executable u d db e) db" for db
    by (simp add: same_world_def store_run_executable_def run_statements)
  have r: "udResults (store_run_executable u d db e) k =
      (if k = (u, d) then map_option (\<lambda>r. r\<lparr>urExecutables := AList.update (fiName e) (fiDigest e) (urExecutables r)\<rparr>) (udResults db k) else udResults db k)" for k db
    by (simp add: store_run_executable_def run_statements update_run_results)
  { case 1 show ?case using same_world_trans [OF Cons.IH(1) s] by simp }
  { case 2 then show ?case using Cons.IH(2) [of "store_run_executable u d db e"] r by simp }
  { case 3 show ?case using Cons.IH(3) [of "store_run_executable u d db e"] r by (simp add: option.map_comp comp_def) }
qed (simp_all add: same_world_def)

lemma store_run_spec:
  "same_world (store_run now u d gen c x db) db"
  "udResults db (u, d) = Some st \<Longrightarrow> urGeneration st = gen \<Longrightarrow>
    \<exists>st'. udResults (store_run now u d gen c x db) (u, d) = Some st' \<and> urCompletedAt st' = Some now"
proof -
  let ?db1 = "foldl (store_run_executable u d) db (coExecutables c)"
  show "same_world (store_run now u d gen c x db) db"
    using store_executables_world(1) [of u d db "coExecutables c"]
    by (simp add: store_run_def Let_def run_statements same_world_def)
  assume "udResults db (u, d) = Some st" "urGeneration st = gen"
  then obtain st1 where "udResults ?db1 (u, d) = Some st1" "urGeneration st1 = gen"
    using store_executables_world(3) [of u d db "coExecutables c"] by (cases "udResults ?db1 (u, d)") auto
  then show "\<exists>st'. udResults (store_run now u d gen c x db) (u, d) = Some st' \<and> urCompletedAt st' = Some now"
    by (simp add: store_run_def Let_def run_statements update_run_results)
qed

lemma testcase_statements_results [simp]:
  "udResults (SetTestcaseJobStep i s inp u err db) = udResults db" "udResults (DeleteTestcaseJob i db) = udResults db"
  "udResults (UpsertTestcase d n p inp' outp db) = udResults db" "udResults (CreateUserTestFiles i fs db) = udResults db"
  by (simp_all add: SetTestcaseJobStep_def DeleteTestcaseJob_def UpsertTestcase_def CreateUserTestFiles_def Let_def)

lemma startSolutionRun_results: "startSolutionRun nr job inp db = Inr (db', i) \<Longrightarrow> udResults db' = udResults db"
  by (auto simp: startSolutionRun_def CreateAdminUserTest_def Let_def split: option.splits)

lemma testcaseJobStep_results: "testcaseJobStep nr i e (db, eff) = Inr (db', eff') \<Longrightarrow> udResults db' = udResults db"
  by (auto simp: testcaseJobStep_def Let_def startSolutionRun_results split: option.splits if_splits Sum_Type.sum.splits prod.splits)

section \<open>A run ends once\<close>

text \<open>The results that end a run: the last attempt failed, the compilation failed, or the program ran.\<close>

definition conclusive :: "Dispatcher \<Rightarrow> JobResult \<Rightarrow> bool" where
  "conclusive dp r \<longleftrightarrow>
     (if reError r \<noteq> [] then opMaxAttempts (dpOpts dp) \<le> reAttempt r + 1
      else case reCompilation r of None \<Rightarrow> False | Some c \<Rightarrow> \<not> coSuccess c \<or> reUserTest r \<noteq> None)"

lemma finish_utx_committed: "finish_utx t = UCommitted db eff \<longleftrightarrow> t = Inr (db, eff)"
  by (auto simp: finish_utx_def split: Sum_Type.sum.splits)

lemma conclusive_completes:
  assumes "handleUserTestResult dp etxt nr m db r = (UCommitted db' eff, m')" "conclusive dp r"
  shows "\<exists>st. udResults db' (reUserTestID r, reDatasetID r) = Some st \<and> urCompletedAt st \<noteq> None"
proof -
  let ?k = "(reUserTestID r, reDatasetID r)"
  obtain st where st: "udResults db ?k = Some st" "urGeneration st = reGeneration r" "urCompletedAt st = None"
    using assms(1) by (cases "udResults db ?k") (auto simp: handleUserTestResult_def LockUserTestResult_def split: if_splits)
  obtain meta where meta: "GetUserTestMeta db (reUserTestID r) = Some meta"
    using assms(1) st by (cases "GetUserTestMeta db (reUserTestID r)") (auto simp: handleUserTestResult_def LockUserTestResult_def)
  have h: "(if reError r \<noteq> [] then run_failed dp etxt nr m db st meta r
       else case reCompilation r of None \<Rightarrow> (URefused ''user test result without compilation'', m)
            | Some c \<Rightarrow> (finish_utx (run_compiled dp nr db st meta c r), m)) = (UCommitted db' eff, m')"
    using assms(1) st meta by (simp add: handleUserTestResult_def LockUserTestResult_def)
  show ?thesis
  proof (cases "reError r = []")
    case False
    then have "\<exists>e eff0. testcaseJobStep nr (reUserTestID r) e (SetUserTestSystemError (dpNow dp) (reUserTestID r) (reDatasetID r)
        (''user test job failed '' @ Itoa (reAttempt r + 1) @ '' times: '' @ reError r) db, eff0) = Inr (db', eff)"
      using h assms(2) by (auto simp: conclusive_def run_failed_def Let_def finish_utx_committed)
    then show ?thesis using st by (auto dest!: testcaseJobStep_results simp: run_statements update_run_results)
  next
    case True
    then obtain c where c: "reCompilation r = Some c" "\<not> coSuccess c \<or> reUserTest r \<noteq> None"
      using assms(2) by (auto simp: conclusive_def split: option.splits)
    let ?db1 = "SetUserTestCompilation (dpNow dp) (reUserTestID r) (reDatasetID r) (if coSuccess c then ''ok'' else ''fail'') c (urGeneration st) db"
    have run: "run_compiled dp nr db st meta c r = Inr (db', eff)" using h True c(1) by (simp add: finish_utx_committed)
    have st1: "udResults ?db1 (reUserTestID r, reDatasetID r) = Some st1 \<Longrightarrow> urGeneration st1 = urGeneration st" for st1
      using st by (auto simp: run_statements update_run_results)
    show ?thesis
    proof (cases "coSuccess c")
      case False
      then have "udResults db' = udResults ?db1"
        using run by (auto simp: run_compiled_def Let_def dest!: testcaseJobStep_results)
      then show ?thesis using st False by (simp add: run_statements update_run_results)
    next
      case s: True
      then obtain x where x: "reUserTest r = Some x" using c(2) by auto
      then have "udResults db' = udResults (store_run (dpNow dp) (reUserTestID r) (reDatasetID r) (urGeneration st) c x ?db1)"
        using run s by (auto simp: run_compiled_def Let_def dest!: testcaseJobStep_results)
      moreover obtain st1' where s1: "udResults ?db1 ?k = Some st1'"
        using st by (auto simp: run_statements update_run_results)
      ultimately show ?thesis
        using store_run_spec(2) [OF s1 st1 [OF s1], where now = "dpNow dp" and c = c and x = x] by auto
    qed
  qed
qed

lemma completed_stale:
  assumes "udResults db (u, d) = Some st" "urCompletedAt st \<noteq> None"
  shows "reUserTestID r = u \<Longrightarrow> reDatasetID r = d \<Longrightarrow> handleUserTestResult dp etxt nr m db r = (UStale, m)"
    and "advanceUserTest dp etxt m u d db = (UCommitted db no_ueffects, m)"
  using assms by (auto simp: handleUserTestResult_def LockUserTestResult_def advanceUserTest_def Let_def EnsureUserTestResult_def)

text \<open>
  Property C29. A run ends once: after a result that ends a user test is committed, every other
  result of that run, repeated, late or from another attempt, is dropped and the sweeper's
  advance does nothing, so the step of the testcase job that the commit carried is never repeated.
\<close>

theorem user_test_ends_once:
  assumes "handleUserTestResult dp etxt nr m db r = (UCommitted db' eff, m')" "conclusive dp r"
    and "reUserTestID r2 = reUserTestID r" "reDatasetID r2 = reDatasetID r"
  shows "handleUserTestResult dp2 etxt2 nr2 m2 db' r2 = (UStale, m2)
    \<and> advanceUserTest dp2 etxt2 m2 (reUserTestID r) (reDatasetID r) db' = (UCommitted db' no_ueffects, m2)"
  using conclusive_completes [OF assms(1,2)] completed_stale assms(3,4) by blast

section \<open>A testcase is made of the outputs of its runs\<close>

lemma store_run_other: "k \<noteq> (u, d) \<Longrightarrow> udResults (store_run now u d gen c x db) k = udResults db k"
  using store_executables_world(2) [of k u d db "coExecutables c"]
  by (simp add: store_run_def Let_def run_statements update_run_results)

text \<open>A result of a program that compiled and ran.\<close>

definition ran :: "JobResult \<Rightarrow> UserTestRun \<Rightarrow> bool" where
  "ran r x \<longleftrightarrow> reError r = [] \<and> reUserTest r = Some x \<and> (\<exists>c. reCompilation r = Some c \<and> coSuccess c)"

abbreviation run_end :: "UserTestRun \<Rightarrow> runEnd" where
  "run_end x \<equiv> \<lparr>rdErr = [], rdOutput = utOutput x, rdStatus = utExitStatus x, rdText = utText x\<rparr>"

lemma ran_handled:
  assumes "udResults db (reUserTestID r, reDatasetID r) = Some st" "urGeneration st = reGeneration r" "urCompletedAt st = None"
    and "GetUserTestMeta db (reUserTestID r) = Some meta" "ran r x"
  obtains dbx where "same_world dbx db" "\<And>k. k \<noteq> (reUserTestID r, reDatasetID r) \<Longrightarrow> udResults dbx k = udResults db k"
    "handleUserTestResult dp etxt nr m db r = (finish_utx (testcaseJobStep nr (reUserTestID r) (run_end x) (dbx, run_event meta ''done'')), m)"
proof -
  obtain c where c: "reCompilation r = Some c" "coSuccess c" using assms(5) by (auto simp: ran_def)
  let ?db1 = "SetUserTestCompilation (dpNow dp) (reUserTestID r) (reDatasetID r) ''ok'' c (urGeneration st) db"
  let ?dbx = "store_run (dpNow dp) (reUserTestID r) (reDatasetID r) (urGeneration st) c x ?db1"
  have "same_world ?db1 db" by (simp add: same_world_def run_statements)
  then have "same_world ?dbx db" using store_run_spec(1) same_world_trans by blast
  moreover have "udResults ?dbx k = udResults db k" if "k \<noteq> (reUserTestID r, reDatasetID r)" for k
    using that by (simp add: store_run_other) (simp add: run_statements update_run_results)
  moreover have "handleUserTestResult dp etxt nr m db r =
      (finish_utx (testcaseJobStep nr (reUserTestID r) (run_end x) (?dbx, run_event meta ''done'')), m)"
    using assms c by (simp add: handleUserTestResult_def LockUserTestResult_def ran_def run_compiled_def Let_def)
  ultimately show ?thesis using that by blast
qed

text \<open>A run that wrote something and ended well.\<close>

definition good_run :: "UserTestRun \<Rightarrow> bool" where
  "good_run x \<longleftrightarrow> utExitStatus x = ''ok'' \<and> utOutput x \<noteq> []"

lemma good_run_end: "good_run x \<Longrightarrow> failure (run_end x) = []"
  by (simp add: good_run_def failure_def)

text \<open>The state of a job whose generator runs: only it waits for that run, and identities are fresh.\<close>

definition generating :: "UDB \<Rightarrow> TestcaseJob \<Rightarrow> SubmissionT \<Rightarrow> int \<Rightarrow> bool" where
  "generating db job sub g \<longleftrightarrow>
     LockTestcaseJobByUserTest db g = Some job \<and> tjState job = ''input'' \<and> tjOutput job = ''solution''
     \<and> Option.bind (tjSolutionID job) (GetSubmission (udDB db)) = Some sub \<and> smID sub = the (tjSolutionID job)
     \<and> distinct (map tjID (udJobs db)) \<and> (\<forall>u \<in> set (udTests db). usID u < udNextTest db)
     \<and> (\<forall>j \<in> set (udJobs db). tjUserTestID j \<noteq> Some (udNextTest db)) \<and> (\<forall>d. udResults db (udNextTest db, d) = None)"

definition solution_run :: "UDB \<Rightarrow> TestcaseJob \<Rightarrow> SubmissionT \<Rightarrow> string \<Rightarrow> UserTestT" where
  "solution_run db job sub input =
     \<lparr>usID = udNextTest db, usParticipationID = None, usTaskID = smTaskID sub, usLanguage = smLanguage sub,
      usInputDigest = input, usAdminID = tjAdminID job, usDatasetID = Some (tjDatasetID job), usPlain = False,
      usFiles = ListSubmissionFiles (udDB db) (smID sub)\<rparr>"

lemma solution_started:
  assumes "generating db job sub g" "failure e = []"
  obtains db' where "testcaseJobStep nr g e (db, eff) = Inr (db', eff\<lparr>ueUserTests := ueUserTests eff @ [udNextTest db]\<rparr>)"
    "udTests db' = udTests db @ [solution_run db job sub (rdOutput e)]" "udDB db' = udDB db" "udResults db' = udResults db"
    "udJobs db' = map (\<lambda>j. if tjID j = tjID job then j\<lparr>tjState := ''output'', tjInputDigest := Some (rdOutput e),
        tjUserTestID := Some (udNextTest db), tjError := []\<rparr> else j) (udJobs db)"
proof -
  obtain sol where sol: "tjSolutionID job = Some sol" "GetSubmission (udDB db) sol = Some sub"
    using assms(1) by (auto simp: generating_def Option.bind_eq_Some_conv)
  have ids: "u \<in> set (udTests db) \<Longrightarrow> usID u \<noteq> udNextTest db" for u using assms(1) by (auto simp: generating_def)
  let ?run = "\<lparr>usID = udNextTest db, usParticipationID = None, usTaskID = smTaskID sub, usLanguage = smLanguage sub,
      usInputDigest = rdOutput e, usAdminID = tjAdminID job, usDatasetID = Some (tjDatasetID job), usPlain = False, usFiles = []\<rparr>"
  let ?db1 = "CreateUserTestFiles (udNextTest db) (ListSubmissionFiles (udDB db) (smID sub)) (db\<lparr>udTests := udTests db @ [?run], udNextTest := udNextTest db + 1\<rparr>)"
  have start: "startSolutionRun nr job (rdOutput e) db = Inr (?db1, udNextTest db)"
    using sol by (simp add: startSolutionRun_def CreateAdminUserTest_def Let_def)
  have tests: "udTests ?db1 = udTests db @ [solution_run db job sub (rdOutput e)]"
    using ids by (simp add: CreateUserTestFiles_def solution_run_def map_idI)
  let ?db' = "SetTestcaseJobStep (tjID job) ''output'' (Some (rdOutput e)) (Some (udNextTest db)) [] ?db1"
  have "testcaseJobStep nr g e (db, eff) = Inr (?db', eff\<lparr>ueUserTests := ueUserTests eff @ [udNextTest db]\<rparr>)"
    using assms start by (simp add: testcaseJobStep_def generating_def)
  moreover have "udTests ?db' = udTests ?db1" "udDB ?db' = udDB db" "udResults ?db' = udResults db"
    by (simp_all add: SetTestcaseJobStep_def CreateUserTestFiles_def)
  moreover have "udJobs ?db' = map (\<lambda>j. if tjID j = tjID job then j\<lparr>tjState := ''output'', tjInputDigest := Some (rdOutput e),
        tjUserTestID := Some (udNextTest db), tjError := []\<rparr> else j) (udJobs db)"
    by (simp add: SetTestcaseJobStep_def CreateUserTestFiles_def)
  ultimately show ?thesis using that [of ?db'] tests by simp
qed

text \<open>The state of a job whose reference solution runs.\<close>

definition answering :: "UDB \<Rightarrow> TestcaseJob \<Rightarrow> string \<Rightarrow> int \<Rightarrow> bool" where
  "answering db job input n \<longleftrightarrow>
     LockTestcaseJobByUserTest db n = Some job \<and> tjState job = ''output'' \<and> tjInputDigest job = Some input"

definition has_testcase :: "UDB \<Rightarrow> TestcaseJob \<Rightarrow> string \<Rightarrow> string \<Rightarrow> bool" where
  "has_testcase db job input outp \<longleftrightarrow>
     (\<exists>t \<in> set (dbTestcases (udDB db)). teDatasetID t = tjDatasetID job \<and> teCodename t = tjCodename job
        \<and> tePublic t = tjPublic job \<and> teInputDigest t = input \<and> teOutputDigest t = outp)"

lemma UpsertTestcase_has:
  "\<exists>t \<in> set (dbTestcases (udDB (UpsertTestcase d n p i x db))). teDatasetID t = d \<and> teCodename t = n \<and> tePublic t = p
     \<and> teInputDigest t = i \<and> teOutputDigest t = x"
proof (cases "list_ex (same_testcase d n) (dbTestcases (udDB db))")
  case True
  then obtain t where t: "t \<in> set (dbTestcases (udDB db))" "same_testcase d n t" by (auto simp: list_ex_iff)
  then have "t\<lparr>tePublic := p, teInputDigest := i, teOutputDigest := x\<rparr> \<in> set (dbTestcases (udDB (UpsertTestcase d n p i x db)))"
    using True by (force simp: UpsertTestcase_def Let_def)
  then show ?thesis using t by (intro bexI) (auto simp: same_testcase_def)
qed (simp add: UpsertTestcase_def Let_def)

lemma testcase_stored:
  assumes "answering db job input n" "failure e = []"
  obtains db' where "testcaseJobStep nr n e (db, eff) = Inr (db', eff\<lparr>ueDatasets := ueDatasets eff @ [tjDatasetID job]\<rparr>)"
    "has_testcase db' job input (rdOutput e)" "tjID job \<notin> tjID ` set (udJobs db')"
proof -
  let ?db1 = "UpsertTestcase (tjDatasetID job) (tjCodename job) (tjPublic job) input (rdOutput e) db"
  have "testcaseJobStep nr n e (db, eff) = Inr (DeleteTestcaseJob (tjID job) ?db1, eff\<lparr>ueDatasets := ueDatasets eff @ [tjDatasetID job]\<rparr>)"
    using assms by (simp add: testcaseJobStep_def answering_def)
  moreover have "has_testcase (DeleteTestcaseJob (tjID job) ?db1) job input (rdOutput e)"
    using UpsertTestcase_has by (simp add: has_testcase_def DeleteTestcaseJob_def)
  moreover have "tjID job \<notin> tjID ` set (udJobs (DeleteTestcaseJob (tjID job) ?db1))" by (auto simp: DeleteTestcaseJob_def)
  ultimately show ?thesis using that by blast
qed

lemma find_only:
  assumes "x \<in> set xs" "P x" "\<And>y. y \<in> set xs \<Longrightarrow> P y \<Longrightarrow> y = x"
  shows "find P xs = Some x"
proof (cases "find P xs")
  case None
  then show ?thesis using assms(1,2) by (auto simp: find_None_iff)
next
  case (Some y)
  then show ?thesis using assms(3) [of y] find_SomeD [OF Some] by simp
qed

lemma generating_world:
  assumes "generating db job sub g" "same_world dbx db" "\<And>k. k \<noteq> (g, d) \<Longrightarrow> udResults dbx k = udResults db k" "g \<noteq> udNextTest db"
  shows "generating dbx job sub g"
proof -
  have "LockTestcaseJobByUserTest dbx = LockTestcaseJobByUserTest db"
    using assms(2) by (simp add: LockTestcaseJobByUserTest_def fun_eq_iff same_world_def)
  then show ?thesis using assms by (auto simp: generating_def same_world_def)
qed

lemma solution_waits:
  assumes "generating db job sub g"
    and "jobs = map (\<lambda>j. if tjID j = tjID job then j\<lparr>tjState := ''output'', tjInputDigest := Some input,
        tjUserTestID := Some (udNextTest db), tjError := []\<rparr> else j) (udJobs db)" "udJobs db' = jobs"
  obtains job' where "answering db' job' input (udNextTest db)" "tjID job' = tjID job"
    "tjDatasetID job' = tjDatasetID job" "tjCodename job' = tjCodename job" "tjPublic job' = tjPublic job"
proof -
  let ?f = "\<lambda>j. if tjID j = tjID job then j\<lparr>tjState := ''output'', tjInputDigest := Some input,
        tjUserTestID := Some (udNextTest db), tjError := []\<rparr> else j"
  have job: "job \<in> set (udJobs db)" using assms(1) by (auto simp: generating_def LockTestcaseJobByUserTest_def dest: find_SomeD)
  have uniq: "j = job" if "j \<in> set (udJobs db)" "tjID j = tjID job" for j
    using that job assms(1) by (auto simp: generating_def distinct_map inj_on_def)
  have "LockTestcaseJobByUserTest db' (udNextTest db) = Some (?f job)"
    unfolding LockTestcaseJobByUserTest_def assms(3) assms(2)
  proof (rule find_only)
    show "?f job \<in> set (map ?f (udJobs db))" using job by (simp del: if_True)
    fix y assume "y \<in> set (map ?f (udJobs db))" "tjUserTestID y = Some (udNextTest db) \<and> (tjState y = ''input'' \<or> tjState y = ''output'')"
    then obtain j where j: "j \<in> set (udJobs db)" "y = ?f j" "tjUserTestID y = Some (udNextTest db)" by auto
    have "tjUserTestID j \<noteq> Some (udNextTest db)" using assms(1) j(1) by (simp add: generating_def)
    then have "tjID j = tjID job" using j by (auto split: if_splits)
    then show "y = ?f job" using uniq j by blast
  qed simp
  then show ?thesis using that [of "?f job"] by (simp add: answering_def)
qed

lemma newUserTest_started:
  assumes "newUserTest dp etxt m n db = (UCommitted db' eff, m')" "ueJobs eff \<noteq> []"
    and "GetUserTest db n = Some u" "usDatasetID u = Some d" "udResults db (n, d) = None"
  shows "udTests db' = udTests db" "udJobs db' = udJobs db" "udDB db' = udDB db"
    "\<exists>st meta. udResults db' (n, d) = Some st \<and> urGeneration st = 0 \<and> urCompletedAt st = None \<and> GetUserTestMeta db' n = Some meta"
proof -
  obtain t where t: "GetTask (udDB db) (usTaskID u) = Some t"
    using assms(1-3) by (cases "GetTask (udDB db) (usTaskID u)") (auto simp: newUserTest_def GetUserTestMeta_def no_ueffects_def)
  let ?db = "EnsureUserTestResult n d db"
  have adv: "advanceUserTest dp etxt m n d db = (UCommitted db' eff, m')"
    using assms(1,3,4) t by (simp add: newUserTest_def GetUserTestMeta_def own_or_live_def)
  have "db' = SetUserTestJobsEnqueued (dpNow dp) n d ?db"
    using adv assms(2,5) by (auto simp: advanceUserTest_def Let_def LockUserTestResult_def EnsureUserTestResult_def new_run_def no_ueffects_def
        split: prod.splits Sum_Type.sum.splits option.splits)
  then have s: "udTests db' = udTests db" "udJobs db' = udJobs db" "udDB db' = udDB db"
      "udResults db' (n, d) = Some (new_run\<lparr>urEnqueuedAt := Some (dpNow dp)\<rparr>)"
    using assms(5) by (simp_all add: run_statements update_run_results EnsureUserTestResult_def)
  then show "udTests db' = udTests db" "udJobs db' = udJobs db" "udDB db' = udDB db" by auto
  show "\<exists>st meta. udResults db' (n, d) = Some st \<and> urGeneration st = 0 \<and> urCompletedAt st = None \<and> GetUserTestMeta db' n = Some meta"
    using s t assms(3) by (simp add: new_run_def GetUserTestMeta_def GetUserTest_def)
qed

text \<open>
  Property C28. A generated testcase: when the generator of a testcase job ends well, the
  reference solution is started on what it wrote, with the solution's language and files; when that
  run ends well too, the testcase has the generator's output as input and the solution's output
  as output, the job is gone and the dataset is announced as changed.
\<close>

theorem testcase_generated:
  assumes gen: "generating db job sub (reUserTestID r1)"
    and row: "udResults db (reUserTestID r1, reDatasetID r1) = Some st" "urGeneration st = reGeneration r1" "urCompletedAt st = None"
      "GetUserTestMeta db (reUserTestID r1) = Some meta"
    and runs: "ran r1 x1" "good_run x1" "ran r2 x2" "good_run x2"
    and r2: "reUserTestID r2 = udNextTest db" "reDatasetID r2 = tjDatasetID job" "reGeneration r2 = 0"
    and steps: "handleUserTestResult dp1 e1 nr m db r1 = (t1, m1)"
      "newUserTest dp2 e2 m1 (udNextTest db) (after_utx db t1) = (UCommitted db2 eff2, m2)" "ueJobs eff2 \<noteq> []"
      "handleUserTestResult dp3 e3 nr3 m3 db2 r2 = (t3, m4)"
  shows "\<exists>db1 eff1 db3 eff3. t1 = UCommitted db1 eff1 \<and> ueUserTests eff1 = [udNextTest db]
    \<and> GetUserTest db1 (udNextTest db) = Some (solution_run db job sub (utOutput x1))
    \<and> t3 = UCommitted db3 eff3 \<and> has_testcase db3 job (utOutput x1) (utOutput x2)
    \<and> tjID job \<notin> tjID ` set (udJobs db3) \<and> ueDatasets eff3 = [tjDatasetID job]"
proof -
  let ?n = "udNextTest db" and ?d = "tjDatasetID job"
  obtain dbx where dbx: "same_world dbx db" "\<And>k. k \<noteq> (reUserTestID r1, reDatasetID r1) \<Longrightarrow> udResults dbx k = udResults db k"
    and t1: "t1 = finish_utx (testcaseJobStep nr (reUserTestID r1) (run_end x1) (dbx, run_event meta ''done''))"
    using ran_handled [OF row runs(1)] steps(1) by (metis prod.inject)
  have g: "reUserTestID r1 \<noteq> ?n"
    using row(4) gen by (force simp: GetUserTestMeta_def GetUserTest_def generating_def split: option.splits dest!: find_SomeD)
  have genx: "generating dbx job sub (reUserTestID r1)" by (rule generating_world [OF gen dbx g]) simp
  have w: "udNextTest dbx = ?n" "udTests dbx = udTests db" "solution_run dbx = solution_run db"
    using dbx(1) by (simp_all add: same_world_def solution_run_def fun_eq_iff)
  let ?eff = "run_event meta ''done''"
  have eff: "?eff\<lparr>ueUserTests := ueUserTests ?eff @ [udNextTest dbx]\<rparr> = ?eff\<lparr>ueUserTests := [?n]\<rparr>"
    using w(1) by (simp add: run_event_def no_ueffects_def)
  obtain db1 where s1: "testcaseJobStep nr (reUserTestID r1) (run_end x1) (dbx, ?eff) = Inr (db1, ?eff\<lparr>ueUserTests := [?n]\<rparr>)"
      "udTests db1 = udTests db @ [solution_run db job sub (utOutput x1)]" "udResults db1 = udResults dbx"
    and jobs1: "udJobs db1 = map (\<lambda>j. if tjID j = tjID job then j\<lparr>tjState := ''output'', tjInputDigest := Some (utOutput x1),
        tjUserTestID := Some (udNextTest dbx), tjError := []\<rparr> else j) (udJobs dbx)"
    using solution_started [OF genx good_run_end [OF runs(2)], of nr ?eff, unfolded eff w(2,3) runEnd.simps] by blast
  have c1: "t1 = UCommitted db1 ((run_event meta ''done'')\<lparr>ueUserTests := [?n]\<rparr>)" using t1 s1(1) by (simp add: finish_utx_def)
  have "\<forall>u \<in> set (udTests db). usID u \<noteq> ?n" using gen by (auto simp: generating_def)
  then have u1: "GetUserTest db1 ?n = Some (solution_run db job sub (utOutput x1))"
    unfolding GetUserTest_def s1(2) by (intro find_only) (auto simp: solution_run_def)
  have "udResults db1 (?n, ?d) = None" using s1(3) genx w by (simp add: generating_def)
  then have st2: "udJobs db2 = udJobs db1"
      "\<exists>st meta. udResults db2 (?n, ?d) = Some st \<and> urGeneration st = 0 \<and> urCompletedAt st = None \<and> GetUserTestMeta db2 ?n = Some meta"
    using newUserTest_started [of dp2 e2 m1 ?n db1 db2 eff2 m2, OF _ steps(3) u1] steps(2) c1
    by (simp_all add: after_utx_def solution_run_def)
  then obtain st2 meta2 where row2: "udResults db2 (reUserTestID r2, reDatasetID r2) = Some st2" "urGeneration st2 = reGeneration r2"
      "urCompletedAt st2 = None" "GetUserTestMeta db2 (reUserTestID r2) = Some meta2" using r2 by auto
  obtain dby where dby: "same_world dby db2"
    and t3: "t3 = finish_utx (testcaseJobStep nr3 (reUserTestID r2) (run_end x2) (dby, run_event meta2 ''done''))"
    using ran_handled [OF row2 runs(3)] steps(4) by (metis prod.inject)
  have "udJobs dby = udJobs db1" using dby st2(1) by (simp add: same_world_def)
  then obtain job' where job': "answering dby job' (utOutput x1) (reUserTestID r2)" "tjID job' = tjID job"
      "tjDatasetID job' = ?d" "tjCodename job' = tjCodename job" "tjPublic job' = tjPublic job"
    using solution_waits [OF genx jobs1, of dby] w r2 by metis
  obtain db3 where "testcaseJobStep nr3 (reUserTestID r2) (run_end x2) (dby, run_event meta2 ''done'') =
        Inr (db3, (run_event meta2 ''done'')\<lparr>ueDatasets := ueDatasets (run_event meta2 ''done'') @ [?d]\<rparr>)"
      "has_testcase db3 job' (utOutput x1) (utOutput x2)" "tjID job \<notin> tjID ` set (udJobs db3)"
    using testcase_stored [OF job'(1) good_run_end [OF runs(4)], of nr3 "run_event meta2 ''done''"] job'(2,3) by auto
  then show ?thesis using c1 u1 t3 job' by (simp add: finish_utx_def has_testcase_def run_event_def no_ueffects_def)
qed

definition ex_job_tc :: TestcaseJob where
  "ex_job_tc = \<lparr>tjID = 40, tjDatasetID = 2, tjCodename = ''big'', tjPublic = False, tjAdminID = Some 1, tjInputDigest = None,
     tjOutput = ''solution'', tjSolutionID = Some 5, tjUserTestID = Some 20, tjState = ''input'', tjError = []\<rparr>"

definition ex_generator :: "string option \<Rightarrow> UserTestT" where
  "ex_generator lang = \<lparr>usID = 20, usParticipationID = None, usTaskID = 1, usLanguage = lang, usInputDigest = ''seed'',
     usAdminID = Some 1, usDatasetID = Some 2, usPlain = True, usFiles = [(''gen.py'', ''code'')]\<rparr>"

definition ex_udb :: "string option \<Rightarrow> UDB" where
  "ex_udb lang = \<lparr>udDB = ex_db, udTests = [ex_generator lang], udResults = Map.empty((20, 2) \<mapsto> new_run), udJobs = [ex_job_tc],
     udNextTest = 21, udNextTestcase = 13\<rparr>"

definition ex_run :: "string \<Rightarrow> UserTestRun" where
  "ex_run out = \<lparr>utOutput = out, utText = [], utTime = 0, utWallTime = 0, utMemory = 0, utExitStatus = ''ok''\<rparr>"

definition ex_run_result :: "int \<Rightarrow> string \<Rightarrow> JobResult" where
  "ex_run_result u out = ex_compiled\<lparr>reUserTestID := u, reUserTest := Some (ex_run out)\<rparr>"

definition ex_step1 :: "utx_result \<times> datasetCache" where
  "ex_step1 = handleUserTestResult ex_disp (\<lambda>_. []) [] [] (ex_udb None) (ex_run_result 20 ''I'')"

definition ex_step2 :: "utx_result \<times> datasetCache" where
  "ex_step2 = newUserTest ex_disp (\<lambda>_. []) (snd ex_step1) 21 (after_utx (ex_udb None) (fst ex_step1))"

lemma ex_ran: "ran (ex_run_result u out) (ex_run out)"
  by (simp add: ran_def ex_run_result_def ex_compiled_def ex_res_def)

lemma ex_generating: "generating (ex_udb None) ex_job_tc (hd (dbSubmissions ex_db)) 20"
  by (simp add: generating_def ex_udb_def LockTestcaseJobByUserTest_def ex_job_tc_def GetSubmission_def ex_db_def
      ex_judging_db_def ex_generator_def)

theorem testcase_generated_witness:
  "\<exists>db1 eff1 db2 eff2 m db3 eff3. ex_step1 = (UCommitted db1 eff1, m) \<and> fst ex_step2 = UCommitted db2 eff2
     \<and> fst (handleUserTestResult ex_disp (\<lambda>_. []) [] [] db2 (ex_run_result 21 ''O'')) = UCommitted db3 eff3
     \<and> has_testcase db3 ex_job_tc ''I'' ''O''"
proof -
  have "case ex_step2 of (UCommitted db eff, m) \<Rightarrow> ueJobs eff \<noteq> [] | _ \<Rightarrow> False" by code_simp
  then obtain db2 eff2 m2 where s2: "ex_step2 = (UCommitted db2 eff2, m2)" "ueJobs eff2 \<noteq> []"
    by (auto split: prod.splits utx_result.splits)
  obtain t1 m1 where s1: "ex_step1 = (t1, m1)" by fastforce
  obtain t3 m4 where s3: "handleUserTestResult ex_disp (\<lambda>_. []) [] [] db2 (ex_run_result 21 ''O'') = (t3, m4)" by fastforce
  have n: "udNextTest (ex_udb None) = 21" by (simp add: ex_udb_def)
  have meta: "\<exists>meta. GetUserTestMeta (ex_udb None) 20 = Some meta"
    by (simp add: GetUserTestMeta_def GetUserTest_def ex_udb_def ex_generator_def GetTask_def ex_db_def ex_judging_db_def)
  then obtain meta where meta: "GetUserTestMeta (ex_udb None) (reUserTestID (ex_run_result 20 ''I'')) = Some meta"
    by (auto simp: ex_run_result_def)
  have r: "reUserTestID (ex_run_result u out) = u" "reDatasetID (ex_run_result u out) = 2" "reGeneration (ex_run_result u out) = 0" for u out
    by (simp_all add: ex_run_result_def ex_compiled_def ex_res_def)
  have gen: "generating (ex_udb None) ex_job_tc (hd (dbSubmissions ex_db)) (reUserTestID (ex_run_result 20 ''I''))"
    using ex_generating r by simp
  have row: "udResults (ex_udb None) (reUserTestID (ex_run_result 20 ''I''), reDatasetID (ex_run_result 20 ''I'')) = Some new_run"
    using r by (simp add: ex_udb_def)
  have "\<exists>db1 eff1 db3 eff3. t1 = UCommitted db1 eff1 \<and> ueUserTests eff1 = [udNextTest (ex_udb None)]
    \<and> GetUserTest db1 (udNextTest (ex_udb None)) = Some (solution_run (ex_udb None) ex_job_tc (hd (dbSubmissions ex_db)) (utOutput (ex_run ''I'')))
    \<and> t3 = UCommitted db3 eff3 \<and> has_testcase db3 ex_job_tc (utOutput (ex_run ''I'')) (utOutput (ex_run ''O''))
    \<and> tjID ex_job_tc \<notin> tjID ` set (udJobs db3) \<and> ueDatasets eff3 = [tjDatasetID ex_job_tc]"
  proof (rule testcase_generated [OF gen row _ _ meta ex_ran _ ex_ran _ _ _ _ _ _ s2(2) s3])
    show "handleUserTestResult ex_disp (\<lambda>_. []) [] [] (ex_udb None) (ex_run_result 20 ''I'') = (t1, m1)" using s1 by (simp add: ex_step1_def)
    show "newUserTest ex_disp (\<lambda>_. []) m1 (udNextTest (ex_udb None)) (after_utx (ex_udb None) t1) = (UCommitted db2 eff2, m2)"
      using s2(1) unfolding ex_step2_def s1 n by simp
  qed (simp_all add: r n new_run_def good_run_def ex_run_def ex_job_tc_def)
  moreover have "utOutput (ex_run out) = out" for out by (simp add: ex_run_def)
  moreover have "fst ex_step2 = UCommitted db2 eff2" unfolding s2(1) by simp
  moreover have "fst (handleUserTestResult ex_disp (\<lambda>_. []) [] [] db2 (ex_run_result 21 ''O'')) = t3" unfolding s3 by simp
  ultimately show ?thesis using s1 by metis
qed

theorem user_test_ends_once_witness:
  "\<exists>db' eff m. handleUserTestResult ex_disp (\<lambda>_. []) [] [] (ex_udb None) (ex_run_result 20 ''I'') = (UCommitted db' eff, m)
     \<and> handleUserTestResult ex_disp (\<lambda>_. []) [] [] db' (ex_run_result 20 ''I'') = (UStale, [])"
proof -
  have "case handleUserTestResult ex_disp (\<lambda>_. []) [] [] (ex_udb None) (ex_run_result 20 ''I'') of (UCommitted db eff, m) \<Rightarrow> True | _ \<Rightarrow> False"
    by code_simp
  then obtain db' eff m where h: "handleUserTestResult ex_disp (\<lambda>_. []) [] [] (ex_udb None) (ex_run_result 20 ''I'') = (UCommitted db' eff, m)"
    by (auto split: prod.splits utx_result.splits)
  have "conclusive ex_disp (ex_run_result 20 ''I'')" by (simp add: conclusive_def ex_run_result_def ex_compiled_def ex_res_def)
  from user_test_ends_once [OF h this refl refl, of ex_disp "\<lambda>_. []" "[]" "[]"] h show ?thesis by blast
qed

section \<open>A job left waiting\<close>

text \<open>
  When the job of a run cannot be built (the language was removed from the
  configuration, say), the run ends with a system error but the testcase job that waits for it is
  not told: it stays in its state, and no later result or sweep of that run can move it.
\<close>

theorem unbuildable_run_strands_job:
  assumes "LockTestcaseJobByUserTest db u = Some job"
    and "\<And>st. udResults db (u, d) = Some st \<Longrightarrow> urCompletedAt st = None"
    and "userTestJob dp (EnsureUserTestResult u d db) m u d (urGeneration (the (udResults (EnsureUserTestResult u d db) (u, d)))) 0 = (Inl e, m')"
  shows "\<exists>db'. advanceUserTest dp etxt m u d db = (UCommitted db' no_ueffects, m') \<and> LockTestcaseJobByUserTest db' u = Some job
    \<and> (\<forall>dp2 etxt2 nr m2 r. reUserTestID r = u \<and> reDatasetID r = d \<longrightarrow> handleUserTestResult dp2 etxt2 nr m2 db' r = (UStale, m2))
    \<and> (\<forall>dp2 etxt2 m2. advanceUserTest dp2 etxt2 m2 u d db' = (UCommitted db' no_ueffects, m2))"
proof -
  let ?db = "EnsureUserTestResult u d db"
  let ?db' = "SetUserTestSystemError (dpNow dp) u d (etxt e) ?db"
  obtain st where st: "udResults ?db (u, d) = Some st" "urCompletedAt st = None"
    using assms(2) by (cases "udResults db (u, d)") (auto simp: EnsureUserTestResult_def new_run_def)
  have adv: "advanceUserTest dp etxt m u d db = (UCommitted ?db' no_ueffects, m')"
    using st assms(3) by (simp add: advanceUserTest_def Let_def LockUserTestResult_def split: option.splits)
  have "\<exists>st'. udResults ?db' (u, d) = Some st' \<and> urCompletedAt st' \<noteq> None"
    using st by (simp add: run_statements update_run_results)
  then obtain st' where st': "udResults ?db' (u, d) = Some st'" "urCompletedAt st' \<noteq> None" by blast
  have "udJobs ?db' = udJobs db" by (simp add: run_statements EnsureUserTestResult_def split: option.splits)
  then have "LockTestcaseJobByUserTest ?db' u = Some job" using assms(1) by (simp add: LockTestcaseJobByUserTest_def)
  then show ?thesis using adv completed_stale [OF st'] by blast
qed

theorem unbuildable_run_strands_job_witness:
  "\<exists>db' m. advanceUserTest ex_disp (\<lambda>_. ''gone'') [] 20 2 (ex_udb (Some ''Pascal'')) = (UCommitted db' no_ueffects, m)
     \<and> LockTestcaseJobByUserTest db' 20 = Some ex_job_tc"
proof -
  have "case userTestJob ex_disp (EnsureUserTestResult 20 2 (ex_udb (Some ''Pascal''))) [] 20 2
      (urGeneration (the (udResults (EnsureUserTestResult 20 2 (ex_udb (Some ''Pascal''))) (20, 2)))) 0 of (Inl e, m) \<Rightarrow> True | _ \<Rightarrow> False"
    by code_simp
  then obtain e m where e: "userTestJob ex_disp (EnsureUserTestResult 20 2 (ex_udb (Some ''Pascal''))) [] 20 2
      (urGeneration (the (udResults (EnsureUserTestResult 20 2 (ex_udb (Some ''Pascal''))) (20, 2)))) 0 = (Inl e, m)"
    by (auto split: prod.splits Sum_Type.sum.splits)
  have "LockTestcaseJobByUserTest (ex_udb (Some ''Pascal'')) 20 = Some ex_job_tc"
    by (simp add: LockTestcaseJobByUserTest_def ex_udb_def ex_job_tc_def)
  moreover have "urCompletedAt st = None" if "udResults (ex_udb (Some ''Pascal'')) (20, 2) = Some st" for st
    using that by (auto simp: ex_udb_def new_run_def)
  ultimately show ?thesis using unbuildable_run_strands_job [OF _ _ e, of ex_job_tc "\<lambda>_. ''gone''"] by blast
qed

end
