(* ===== verification/Dispatching.thy ===== *)
theory Dispatching
  imports User_Tests Judging_Props "HOL-Library.Word"
begin

text \<open>
  The dispatcher around its transactions (\<^verbatim>\<open>src/internal/dispatcher\<close>: dispatcher.go, sweep.go, the
  rest of judging.go and reeval.go): what each event starts, how results are spread over the
  processors, the side effects that follow a commit, and the sweeper that derives lost work from the
  database. The world is the database, the cache of datasets and what was sent to the queue; a
  state \<^const>\<open>None\<close> means that a panic ended the process.
\<close>

section \<open>Statements\<close>

definition missing_of :: "DB \<Rightarrow> SubmissionT \<Rightarrow> (int \<times> int) list" where
  "missing_of db s =
     (case GetTask db (smTaskID s) of
        None \<Rightarrow> []
      | Some t \<Rightarrow>
          map (\<lambda>d. (smID s, dtID d))
            (filter (\<lambda>d. dtTaskID d = smTaskID s \<and> (tkActiveDatasetID t = Some (dtID d) \<or> dtAutojudge d \<or> smTester s)
               \<and> dbResults db (smID s, dtID d) = None) (dbDatasets db)))"

text \<open>The rows before the limit; a limit takes the first ones.\<close>

definition ListSubmissionsMissingResults :: "DB \<Rightarrow> (int \<times> int) list" where
  "ListSubmissionsMissingResults db =
     concat (map (missing_of db) (stable_sort (\<lambda>a b. smID a < smID b) (dbSubmissions db)))"

definition needs_work :: "time \<Rightarrow> SubmissionResult \<Rightarrow> bool" where
  "needs_work cutoff r \<longleftrightarrow> srScoredAt r = None \<and> srSystemError r = None
     \<and> (case srEnqueuedAt r of None \<Rightarrow> True | Some t \<Rightarrow> t < cutoff)"

definition nulls_first :: "time option \<Rightarrow> time option \<Rightarrow> bool" where
  "nulls_first a b = (case (a, b) of (None, Some _) \<Rightarrow> True | (Some x, Some y) \<Rightarrow> x < y | _ \<Rightarrow> False)"

text \<open>A result belongs to a submission and a dataset of the tables.\<close>

definition result_keys :: "DB \<Rightarrow> (int \<times> int) list" where
  "result_keys db = concat (map (\<lambda>s. map (\<lambda>d. (smID s, dtID d)) (dbDatasets db)) (dbSubmissions db))"

definition ListSweepableResults :: "time \<Rightarrow> DB \<Rightarrow> ((int \<times> int) \<times> time option) list" where
  "ListSweepableResults cutoff db =
     stable_sort (\<lambda>a b. nulls_first (snd a) (snd b) \<or> snd a = snd b \<and> fst (fst a) < fst (fst b))
       (concat (map (\<lambda>k. case dbResults db k of
            None \<Rightarrow> [] | Some r \<Rightarrow> if needs_work cutoff r then [(k, srEnqueuedAt r)] else []) (result_keys db)))"

definition ListUnfinishedOlderSubmissions :: "DB \<Rightarrow> int \<Rightarrow> int \<Rightarrow> int \<Rightarrow> int list" where
  "ListUnfinishedOlderSubmissions db p t cutoff =
     remdups (map smID (filter (\<lambda>s. smParticipationID s = Some p \<and> smTaskID s = t \<and> smID s < cutoff
        \<and> list_ex (\<lambda>d. case dbResults db (smID s, dtID d) of None \<Rightarrow> False | Some r \<Rightarrow> srScoredAt r = None \<and> srSystemError r = None)
            (dbDatasets db)) (dbSubmissions db)))"

definition ListParticipationsWithSubmissions :: "DB \<Rightarrow> int \<Rightarrow> int list" where
  "ListParticipationsWithSubmissions db t =
     remdups (concat (map (\<lambda>s. case smParticipationID s of None \<Rightarrow> [] | Some p \<Rightarrow> [p])
       (filter (\<lambda>s. smTaskID s = t) (dbSubmissions db))))"

definition SetActiveDataset :: "int \<Rightarrow> int \<Rightarrow> DB \<Rightarrow> DB" where
  "SetActiveDataset t d db = db\<lparr>dbTasks := map (\<lambda>x. if tkID x = t then x\<lparr>tkActiveDatasetID := Some d\<rparr> else x) (dbTasks db)\<rparr>"

definition missing_test :: "UDB \<Rightarrow> UserTestT \<Rightarrow> (int \<times> int) list" where
  "missing_test db u =
     (case Option.bind (GetTask (udDB db) (usTaskID u)) (own_or_live db u) of
        None \<Rightarrow> []
      | Some d \<Rightarrow> if udResults db (usID u, d) = None then [(usID u, d)] else [])"

definition ListUserTestsMissingResults :: "UDB \<Rightarrow> (int \<times> int) list" where
  "ListUserTestsMissingResults db = concat (map (missing_test db) (stable_sort (\<lambda>a b. usID a < usID b) (udTests db)))"

definition run_needs_work :: "time \<Rightarrow> UserTestResultT \<Rightarrow> bool" where
  "run_needs_work cutoff r \<longleftrightarrow> urCompletedAt r = None \<and> urSystemError r = None
     \<and> (case urEnqueuedAt r of None \<Rightarrow> True | Some t \<Rightarrow> t < cutoff)"

definition ListSweepableUserTests :: "time \<Rightarrow> UDB \<Rightarrow> (int \<times> int) list" where
  "ListSweepableUserTests cutoff db =
     map fst (stable_sort (\<lambda>a b. nulls_first (snd a) (snd b) \<or> snd a = snd b \<and> fst (fst a) < fst (fst b))
       (concat (map (\<lambda>k. case udResults db k of
            None \<Rightarrow> [] | Some r \<Rightarrow> if run_needs_work cutoff r then [(k, urEnqueuedAt r)] else [])
          (concat (map (\<lambda>u. map (\<lambda>d. (usID u, dtID d)) (dbDatasets (udDB db))) (udTests db))))))"

section \<open>The world and its side effects\<close>

record QueueEvent =
  qeKind :: string
  qeSubmissionID :: int
  qeUserTestID :: int
  qeParticipationID :: int
  qeTaskID :: int
  qeDatasetID :: int
  qeContestID :: int

definition EventSubmission :: string where "EventSubmission = ''submission''"
definition EventUserTest :: string where "EventUserTest = ''user_test''"
definition EventReevaluate :: string where "EventReevaluate = ''reevaluate''"
definition EventDatasetChanged :: string where "EventDatasetChanged = ''dataset_changed''"
definition EventReaggregate :: string where "EventReaggregate = ''reaggregate''"

lemmas event_kinds = EventSubmission_def EventUserTest_def EventReevaluate_def EventDatasetChanged_def EventReaggregate_def

definition dataset_changed :: "int \<Rightarrow> int \<Rightarrow> QueueEvent" where
  "dataset_changed t d = \<lparr>qeKind = EventDatasetChanged, qeSubmissionID = 0, qeUserTestID = 0, qeParticipationID = 0, qeTaskID = t, qeDatasetID = d, qeContestID = 0\<rparr>"

record World =
  woDB :: UDB
  woCache :: datasetCache
  woJobs :: "Item list"
  woEvents :: "Event list"
  woRanking :: "RankingUpdate list"
  woSkips :: "Skip list"
  woNotified :: "QueueEvent list"
  woSuperseded :: "int list"
  woSweepNow :: bool

text \<open>What the dispatcher is given: its parameters, the renderings of errors and the text of \<^verbatim>\<open>pgx.ErrNoRows\<close>.\<close>

record Env =
  enDisp :: Dispatcher
  enLoadText :: "load_error \<Rightarrow> string"
  enScoreText :: "score_error \<Rightarrow> string"
  enNoRows :: string
  enStaleAfter :: duration

abbreviation sub_db :: "World \<Rightarrow> DB" where "sub_db w \<equiv> udDB (woDB w)"

definition apply_effects :: "effects \<Rightarrow> World \<Rightarrow> World" where
  "apply_effects e w = w\<lparr>woJobs := woJobs w @ efJobs e, woEvents := woEvents w @ efEvents e,
     woRanking := woRanking w @ efRanking e, woSkips := woSkips w @ efSkips e\<rparr>"

definition apply_sent :: "ueffects \<Rightarrow> World \<Rightarrow> World" where
  "apply_sent e w = w\<lparr>woJobs := woJobs w @ ueJobs e, woEvents := woEvents w @ ueEvents e\<rparr>"

definition do_advance :: "Env \<Rightarrow> int \<Rightarrow> int \<Rightarrow> bool \<Rightarrow> World \<Rightarrow> World option" where
  "do_advance en s d rejudge w =
     (case advance (enDisp en) (enLoadText en) (enScoreText en) (woCache w) s d rejudge (sub_db w) of
        (Panicked, m) \<Rightarrow> None
      | (Committed db eff, m) \<Rightarrow> Some (apply_effects eff (w\<lparr>woDB := (woDB w)\<lparr>udDB := db\<rparr>, woCache := m\<rparr>))
      | (_, m) \<Rightarrow> Some (w\<lparr>woCache := m\<rparr>))"

definition start_run :: "Env \<Rightarrow> World \<Rightarrow> int \<Rightarrow> World" where
  "start_run en w u =
     (case newUserTest (enDisp en) (enLoadText en) (woCache w) u (woDB w) of
        (UCommitted db eff, m) \<Rightarrow> apply_sent eff (w\<lparr>woDB := db, woCache := m\<rparr>)
      | (_, m) \<Rightarrow> w\<lparr>woCache := m\<rparr>)"

definition apply_user :: "Env \<Rightarrow> ueffects \<Rightarrow> World \<Rightarrow> World" where
  "apply_user en e w =
     (let w1 = foldl (start_run en) (apply_sent e w) (ueUserTests e)
      in w1\<lparr>woNotified := woNotified w1 @ map (dataset_changed 0) (ueDatasets e)\<rparr>)"

definition do_advance_run :: "Env \<Rightarrow> World \<Rightarrow> int \<times> int \<Rightarrow> World" where
  "do_advance_run en w k =
     (case advanceUserTest (enDisp en) (enLoadText en) (woCache w) (fst k) (snd k) (woDB w) of
        (UCommitted db eff, m) \<Rightarrow> apply_sent eff (w\<lparr>woDB := db, woCache := m\<rparr>)
      | (_, m) \<Rightarrow> w\<lparr>woCache := m\<rparr>)"

section \<open>Events\<close>

text \<open>How the handling of an event or a result ends: a panic, an error that is logged, or done.\<close>

datatype handled = Died | Errored World | Done World

fun advance_all :: "Env \<Rightarrow> int \<Rightarrow> int list \<Rightarrow> World \<Rightarrow> World option" where
  "advance_all en s [] w = Some w"
| "advance_all en s (d # ds) w = Option.bind (do_advance en s d False w) (advance_all en s ds)"

definition newSubmission :: "Env \<Rightarrow> int \<Rightarrow> World \<Rightarrow> handled" where
  "newSubmission en s w =
     (case GetSubmissionMeta (sub_db w) s of
        None \<Rightarrow> Done w
      | Some meta \<Rightarrow>
          (let dss = (if mtTester meta then ListDatasetsByTask else ListJudgedDatasetsByTask) (sub_db w) (mtTaskID meta)
           in case advance_all en s (map dtID dss) w of
                None \<Rightarrow> Died
              | Some w1 \<Rightarrow>
                  Done (if mtTester meta then w1
                        else w1\<lparr>woSuperseded := woSuperseded w1
                               @ ListUnfinishedOlderSubmissions (sub_db w1) (mtParticipationID meta) (mtTaskID meta) s\<rparr>)))"

text \<open>The aggregation of one participation outside a transaction, with the ranking updates so far.\<close>

fun aggregate_all :: "time \<Rightarrow> datasetInfo \<Rightarrow> int list \<Rightarrow> DB \<times> RankingUpdate list \<Rightarrow> (DB \<times> RankingUpdate list) option" where
  "aggregate_all now di [] s = Some s"
| "aggregate_all now di (p # ps) (db, ups) =
     (case aggregate now p di db of None \<Rightarrow> None | Some (db1, up) \<Rightarrow> aggregate_all now di ps (db1, ups @ [up]))"

definition reaggregate_parts :: "Env \<Rightarrow> int \<Rightarrow> int list \<Rightarrow> World \<Rightarrow> handled" where
  "reaggregate_parts en d ps w =
     (case cache_get (dpRegexp (enDisp en)) (30 * second) (dpNow (enDisp en)) (sub_db w) (woCache w) d of
        (Inl e, m) \<Rightarrow> Errored (w\<lparr>woCache := m\<rparr>)
      | (Inr di, m) \<Rightarrow>
          (case aggregate_all (dpNow (enDisp en)) di ps (sub_db w, []) of
             None \<Rightarrow> Died
           | Some (db, ups) \<Rightarrow> Done (apply_effects (no_effects\<lparr>efRanking := ups\<rparr>) (w\<lparr>woDB := (woDB w)\<lparr>udDB := db\<rparr>, woCache := m\<rparr>))))"

definition reaggregateTask :: "Env \<Rightarrow> int \<Rightarrow> World \<Rightarrow> handled" where
  "reaggregateTask en t w =
     (case GetTask (sub_db w) t of
        None \<Rightarrow> Errored w
      | Some task \<Rightarrow>
          (case tkActiveDatasetID task of
             None \<Rightarrow> Done w
           | Some d \<Rightarrow> reaggregate_parts en d (ListParticipationsWithSubmissions (sub_db w) t) w))"

definition reaggregate :: "Env \<Rightarrow> int \<Rightarrow> int \<Rightarrow> World \<Rightarrow> handled" where
  "reaggregate en p t w =
     (case Option.bind (GetTask (sub_db w) t) tkActiveDatasetID of
        None \<Rightarrow> Done w
      | Some d \<Rightarrow> reaggregate_parts en d [p] w)"

definition reaggregateSubmission :: "Env \<Rightarrow> int \<Rightarrow> World \<Rightarrow> handled" where
  "reaggregateSubmission en s w =
     (case GetSubmission (sub_db w) s of
        None \<Rightarrow> Done w
      | Some sub \<Rightarrow> (case smParticipationID sub of None \<Rightarrow> Done w | Some p \<Rightarrow> reaggregate en p (smTaskID sub) w))"

definition RequestSweep :: "World \<Rightarrow> World" where
  "RequestSweep w = w\<lparr>woSweepNow := True\<rparr>"

definition handleEvent :: "Env \<Rightarrow> QueueEvent \<Rightarrow> World \<Rightarrow> handled" where
  "handleEvent en e w =
     (if qeKind e = EventSubmission then newSubmission en (qeSubmissionID e) w
      else if qeKind e = EventUserTest then Done (start_run en w (qeUserTestID e))
      else if qeKind e = EventReevaluate then Done (RequestSweep w)
      else if qeKind e = EventReaggregate
      then (if qeSubmissionID e = 0 then reaggregate en (qeParticipationID e) (qeTaskID e) w else reaggregateSubmission en (qeSubmissionID e) w)
      else if qeKind e = EventDatasetChanged
      then (let w1 = w\<lparr>woCache := []\<rparr>
            in if qeTaskID e = 0 then Done (RequestSweep w1)
               else case reaggregateTask en (qeTaskID e) w1 of Done w2 \<Rightarrow> Done (RequestSweep w2) | h \<Rightarrow> h)
      else Done w)"

definition ChangeLiveDataset :: "int \<Rightarrow> World \<Rightarrow> World option" where
  "ChangeLiveDataset d w =
     map_option (\<lambda>ds. w\<lparr>woDB := (woDB w)\<lparr>udDB := SetActiveDataset (dtTaskID ds) (dtID ds) (sub_db w)\<rparr>,
         woNotified := woNotified w @ [dataset_changed (dtTaskID ds) (dtID ds)]\<rparr>)
       (GetDataset (sub_db w) d)"

section \<open>Results\<close>

definition fnv32 :: "nat list \<Rightarrow> 32 word" where
  "fnv32 bs = foldl (\<lambda>h b. Bit_Operations.xor h (of_nat b) * 16777619) 2166136261 bs"

definition shard :: "int \<Rightarrow> int \<Rightarrow> nat \<Rightarrow> nat" where
  "shard sub ut n =
     (let v = (if sub = 0 then ut else sub);
          b = map (\<lambda>i. nat (v div 2 ^ (8 * i) mod 256)) [0..<8] @ [if sub = 0 then 1 else 0]
      in unat (fnv32 b) mod n)"

definition processResult :: "Env \<Rightarrow> JobResult \<Rightarrow> World \<Rightarrow> handled" where
  "processResult en r w =
     (if reUserTestID r \<noteq> 0 then
        (case handleUserTestResult (enDisp en) (enLoadText en) (enNoRows en) (woCache w) (woDB w) r of
           (UStale, m) \<Rightarrow> Done (w\<lparr>woCache := m\<rparr>)
         | (URefused e, m) \<Rightarrow> Errored (w\<lparr>woCache := m\<rparr>)
         | (UCommitted db eff, m) \<Rightarrow> Done (apply_user en eff (w\<lparr>woDB := db, woCache := m\<rparr>)))
      else
        (case handleSubmissionResult (enDisp en) (enLoadText en) (enScoreText en) (woCache w) (sub_db w) r of
           (Stale, m) \<Rightarrow> Done (w\<lparr>woCache := m\<rparr>)
         | (Refused e, m) \<Rightarrow> Errored (w\<lparr>woCache := m\<rparr>)
         | (Panicked, m) \<Rightarrow> Died
         | (Committed db eff, m) \<Rightarrow> Done (apply_effects eff (w\<lparr>woDB := (woDB w)\<lparr>udDB := db\<rparr>, woCache := m\<rparr>))))"

section \<open>The sweeper\<close>

definition sweepPage :: nat where "sweepPage = 500"

definition isRecent :: "DB \<Rightarrow> int \<Rightarrow> time \<Rightarrow> bool" where
  "isRecent db s since = (case GetSubmissionMeta db s of None \<Rightarrow> False | Some m \<Rightarrow> since < mtSubmittedAt m)"

text \<open>
  The rows of one page, each with the time its jobs were enqueued (\<open>Some None\<close>: never; \<open>None\<close> for
  a missing result): the world, the keys seen and whether anything was new.
\<close>

fun sweep_rows :: "Env \<Rightarrow> ((int \<times> int) \<times> time option option) list \<Rightarrow> World \<times> (int \<times> int) list \<times> bool \<Rightarrow>
    (World \<times> (int \<times> int) list \<times> bool) option" where
  "sweep_rows en [] st = Some st"
| "sweep_rows en ((k, enq) # rows) (w, seen, progress) =
     (if k \<in> set seen then sweep_rows en rows (w, seen, progress)
      else (let recent = isRecent (sub_db w) (fst k) (dpNow (enDisp en) - 10 * minute);
                rejudge = (enq = Some None \<or> \<not> recent)
            in case do_advance en (fst k) (snd k) rejudge w of
                 None \<Rightarrow> None
               | Some w1 \<Rightarrow> sweep_rows en rows (w1, k # seen, True)))"

fun sweep_pages :: "Env \<Rightarrow> (World \<Rightarrow> ((int \<times> int) \<times> time option option) list) \<Rightarrow> nat \<Rightarrow> World \<times> (int \<times> int) list \<Rightarrow>
    (World \<times> (int \<times> int) list) option" where
  "sweep_pages en query 0 st = Some st"
| "sweep_pages en query (Suc n) (w, seen) =
     (let rows = take sweepPage (query w)
      in case sweep_rows en rows (w, seen, False) of
           None \<Rightarrow> None
         | Some (w1, seen1, progress) \<Rightarrow>
             if length rows < sweepPage \<or> \<not> progress then Some (w1, seen1) else sweep_pages en query n (w1, seen1))"

definition missing_rows :: "World \<Rightarrow> ((int \<times> int) \<times> time option option) list" where
  "missing_rows w = map (\<lambda>k. (k, None)) (ListSubmissionsMissingResults (sub_db w))"

definition stale_rows :: "Env \<Rightarrow> World \<Rightarrow> ((int \<times> int) \<times> time option option) list" where
  "stale_rows en w = map (\<lambda>(k, t). (k, Some t)) (ListSweepableResults (dpNow (enDisp en) - enStaleAfter en) (sub_db w))"

definition sweepUserTests :: "Env \<Rightarrow> World \<Rightarrow> World" where
  "sweepUserTests en w =
     (let miss = take sweepPage (ListUserTestsMissingResults (woDB w));
          w1 = foldl (do_advance_run en) w miss;
          rows = take sweepPage (ListSweepableUserTests (dpNow (enDisp en) - enStaleAfter en) (woDB w1))
      in foldl (do_advance_run en) w1 (filter (\<lambda>k. k \<notin> set miss) rows))"

definition Sweep :: "Env \<Rightarrow> World \<Rightarrow> World option" where
  "Sweep en w =
     (case sweep_pages en missing_rows 1000 (w, []) of
        None \<Rightarrow> None
      | Some (w1, seen) \<Rightarrow>
          (case sweep_pages en (stale_rows en) 1000 (w1, seen) of
             None \<Rightarrow> None
           | Some (w2, _) \<Rightarrow> Some (sweepUserTests en w2)))"

end
