(* ===== verification/Dispatching_Props.thy ===== *)
theory Dispatching_Props
  imports Dispatching
begin

text \<open>
  What the dispatcher guarantees around its transactions: the sweeper creates every result
  that is missing and never touches a finished one, a new submission gets its results, and a
  change of the live dataset brings every score of the task up to date.
\<close>

section \<open>One advance\<close>

abbreviation coherent :: "Env \<Rightarrow> World \<Rightarrow> bool" where
  "coherent en w \<equiv> cache_ok (dpRegexp (enDisp en)) (sub_db w) (woCache w)"

definition finished :: "SubmissionResult \<Rightarrow> bool" where
  "finished r \<longleftrightarrow> srScoredAt r \<noteq> None \<or> srSystemError r \<noteq> None"

lemma Ensure_exists: "dbResults (EnsureSubmissionResult s d db) (s, d) \<noteq> None"
  by (auto simp: EnsureSubmissionResult_def split: option.splits)

lemma row_unchanged: "only_row s d db db' \<Longrightarrow> k \<noteq> (s, d) \<Longrightarrow> dbResults db' k = dbResults db k"
  unfolding only_row_def by blast

lemma advance_commits:
  assumes "advance dp etxt txt m s d rj db = (t, m')" "cache_ok (dpRegexp dp) db m"
  shows "cache_ok (dpRegexp dp) db m' \<and>
    (t = Panicked \<or> (\<exists>db' eff. t = Committed db' eff \<and> only_row s d db db' \<and> dbResults db' (s, d) \<noteq> None
       \<and> (\<forall>r. dbResults db (s, d) = Some r \<and> finished r \<longrightarrow> dbResults db' (s, d) = Some r)))"
proof -
  let ?db = "EnsureSubmissionResult s d db"
  have E: "only_row s d db ?db" by (rule Ensure_row)
  obtain st where st: "dbResults ?db (s, d) = Some st" using Ensure_exists [of s d db] by auto
  have c: "cache_ok (dpRegexp dp) ?db m" using assms(2) E cache_ok_static by (metis only_row_def)
  have keep: "dbResults db (s, d) = Some r \<Longrightarrow> st = r" for r using st by (simp add: EnsureSubmissionResult_def)
  show ?thesis
  proof (cases "finished st")
    case True
    then have "(t, m') = (Committed ?db no_effects, m)" using assms(1) st by (auto simp: advance_def Let_def LockSubmissionResult_def finished_def)
    then show ?thesis using E st assms(2) keep by auto
  next
    case False
    then have nf: "\<not> (dbResults db (s, d) = Some r \<and> finished r)" for r using keep by auto
    obtain l m1 where l: "loadSubmission dp ?db m s d = (l, m1)" by fastforce
    note lok = loadSubmission_ok [OF c l]
    have m': "m' = m1" and t: "t = (case l of Inl e \<Rightarrow> commit (Some (systemError s d None (etxt e) (?db, no_effects)))
        | Inr sc \<Rightarrow> commit (advance_loaded dp txt sc st rj ?db))"
      using assms(1) st False l by (auto simp: advance_def Let_def LockSubmissionResult_def finished_def split: Sum_Type.sum.splits)
    have mok: "cache_ok (dpRegexp dp) db m'" using lok m' E cache_ok_static by (metis only_row_def)
    have "t = Panicked \<or> (\<exists>db' eff. t = Committed db' eff \<and> only_row s d ?db db')"
    proof (cases l)
      case (Inl e)
      obtain db' eff where se: "systemError s d None (etxt e) (?db, no_effects) = (db', eff)" by fastforce
      then show ?thesis using t Inl systemError_row [OF only_row_refl, of s d ?db None "etxt e" no_effects] by (simp add: commit_def)
    next
      case (Inr sc)
      then have "sub_of sc = s" "ds_of sc = d" using lok load_dataset_id by auto
      then show ?thesis using t Inr advance_loaded_row [of dp "txt" sc st rj ?db] by (auto simp: commit_def split: option.splits)
    qed
    then show ?thesis
    proof (elim disjE exE conjE)
      fix db' eff assume c: "t = Committed db' eff" and row: "only_row s d ?db db'"
      have "dbResults db' (s, d) \<noteq> None" using row st unfolding only_row_def by blast
      then show ?thesis using c only_row_trans [OF E row] mok nf by blast
    qed (use mok in simp)
  qed
qed

lemma do_advance_spec:
  assumes "do_advance en s d rj w = Some w'" "coherent en w"
  shows "coherent en w' \<and> only_row s d (sub_db w) (sub_db w') \<and> dbResults (sub_db w') (s, d) \<noteq> None
    \<and> (\<forall>k r. dbResults (sub_db w) k = Some r \<and> finished r \<longrightarrow> dbResults (sub_db w') k = Some r)"
proof -
  obtain t m' where a: "advance (enDisp en) (enLoadText en) (enScoreText en) (woCache w) s d rj (sub_db w) = (t, m')" by fastforce
  note c = advance_commits [OF a assms(2)]
  have "t \<noteq> Panicked" using assms(1) a by (auto simp: do_advance_def)
  with c obtain db' eff where t: "t = Committed db' eff" and row: "only_row s d (sub_db w) db'" "dbResults db' (s, d) \<noteq> None"
    and fin: "\<forall>r. dbResults (sub_db w) (s, d) = Some r \<and> finished r \<longrightarrow> dbResults db' (s, d) = Some r" by auto
  have w': "sub_db w' = db'" "woCache w' = m'" using assms(1) a t by (auto simp: do_advance_def apply_effects_def)
  have "coherent en w'" unfolding w' using c row(1) cache_ok_static by (metis only_row_def)
  moreover have "dbResults db' k = Some r" if "dbResults (sub_db w) k = Some r" "finished r" for k r
    using fin row_unchanged [OF row(1), of k] that by (cases "k = (s, d)") auto
  ultimately show ?thesis using row w' by simp
qed

section \<open>Missing results\<close>

lemma filter_map_distrib: "filter P (map f xs) = map f (filter (\<lambda>x. P (f x)) xs)"
  by (induction xs) auto

lemma filter_concat_map: "filter P (concat (map f xs)) = concat (map (\<lambda>x. filter P (f x)) xs)"
  by (induction xs) auto

lemma missing_after:
  assumes "only_row s d db db'" "dbResults db' (s, d) \<noteq> None"
  shows "ListSubmissionsMissingResults db' = filter (\<lambda>k. k \<noteq> (s, d)) (ListSubmissionsMissingResults db)"
proof -
  have st: "dbSubmissions db' = dbSubmissions db" "dbTasks db' = dbTasks db" "dbDatasets db' = dbDatasets db"
    using assms(1) by (auto simp: only_row_def static_def)
  have rows: "dbResults db' k = None \<longleftrightarrow> k \<noteq> (s, d) \<and> dbResults db k = None" for k
    using assms(2) row_unchanged [OF assms(1), of k] by (cases "k = (s, d)") auto
  have one: "missing_of db' x = filter (\<lambda>k. k \<noteq> (s, d)) (missing_of db x)" for x
    by (simp add: missing_of_def GetTask_def st rows filter_map_distrib conj_commute conj_left_commute split: option.splits)
  then have "missing_of db' = (\<lambda>x. filter (\<lambda>k. k \<noteq> (s, d)) (missing_of db x))" by (simp add: fun_eq_iff)
  then show ?thesis by (simp add: ListSubmissionsMissingResults_def st filter_concat_map)
qed

text \<open>What a sweep keeps: the cache agrees with the tables, no result is removed, finished ones stay as they are.\<close>

definition sweeps :: "Env \<Rightarrow> World \<Rightarrow> World \<Rightarrow> bool" where
  "sweeps en w w' \<longleftrightarrow> coherent en w' \<and> static (sub_db w') = static (sub_db w)
     \<and> set (ListSubmissionsMissingResults (sub_db w')) \<subseteq> set (ListSubmissionsMissingResults (sub_db w))
     \<and> (\<forall>k r. dbResults (sub_db w) k = Some r \<and> finished r \<longrightarrow> dbResults (sub_db w') k = Some r)"

lemma sweeps_refl: "coherent en w \<Longrightarrow> sweeps en w w"
  by (simp add: sweeps_def)

lemma sweeps_trans: "sweeps en a b \<Longrightarrow> sweeps en b c \<Longrightarrow> sweeps en a c"
  by (auto simp: sweeps_def)

lemma do_advance_sweeps: "do_advance en s d rj w = Some w' \<Longrightarrow> coherent en w \<Longrightarrow> sweeps en w w'"
  using do_advance_spec [of en s d rj w w'] missing_after [of s d "sub_db w" "sub_db w'"]
  by (auto simp: sweeps_def only_row_def)

lemma sweep_rows_sweeps:
  "sweep_rows en rows st = Some st' \<Longrightarrow> coherent en (fst st) \<Longrightarrow> sweeps en (fst st) (fst st')"
proof (induction en rows st arbitrary: st' rule: sweep_rows.induct)
  case (2 en k enq rows w seen progress)
  show ?case
  proof (cases "k \<in> set seen")
    case True
    then show ?thesis using 2(1,3,4) by simp
  next
    case False
    let ?rj = "enq = Some None \<or> \<not> isRecent (sub_db w) (fst k) (dpNow (enDisp en) - 10 * minute)"
    obtain w1 where w1: "do_advance en (fst k) (snd k) ?rj w = Some w1"
      using False 2(3) by (auto simp: Let_def split: option.splits)
    have s1: "sweeps en w w1" using do_advance_sweeps [OF w1] 2(4) by simp
    have "sweep_rows en rows (w1, k # seen, True) = Some st'" using False 2(3) w1 by (simp add: Let_def)
    then have "sweeps en w1 (fst st')" using 2(2) [OF False refl refl w1] s1 by (simp add: sweeps_def)
    then show ?thesis using sweeps_trans [OF s1] by simp
  qed
qed (simp add: sweeps_refl)

lemma sweep_pages_sweeps:
  "sweep_pages en query n st = Some st' \<Longrightarrow> coherent en (fst st) \<Longrightarrow> sweeps en (fst st) (fst st')"
proof (induction en query n st arbitrary: st' rule: sweep_pages.induct)
  case (2 en query n w seen)
  obtain w1 seen1 progress where r: "sweep_rows en (take sweepPage (query w)) (w, seen, False) = Some (w1, seen1, progress)"
    using 2(2) by (auto simp: Let_def split: option.splits)
  have s1: "sweeps en w w1" using sweep_rows_sweeps [OF r] 2(3) by simp
  show ?case
  proof (cases "length (take sweepPage (query w)) < sweepPage \<or> \<not> progress")
    case True
    then have "st' = (w1, seen1)" using 2(2) r by (simp add: Let_def)
    then show ?thesis using s1 by simp
  next
    case False
    then have "sweep_pages en query n (w1, seen1) = Some st'" using 2(2) r by (simp add: Let_def)
    then have "sweeps en w1 (fst st')" using 2(1) [OF refl r refl refl False] s1 by (simp add: sweeps_def)
    then show ?thesis using sweeps_trans [OF s1] by simp
  qed
qed (simp add: sweeps_refl)

abbreviation missing_in :: "World \<Rightarrow> (int \<times> int) list" where
  "missing_in w \<equiv> ListSubmissionsMissingResults (sub_db w)"

lemma sweep_rows_missing:
  "sweep_rows en rows (w, seen, pr) = Some (w', seen', pr') \<Longrightarrow> coherent en w \<Longrightarrow> set seen \<inter> set (missing_in w) = {} \<Longrightarrow>
   missing_in w' = filter (\<lambda>k. k \<notin> fst ` set rows) (missing_in w) \<and> set seen' \<inter> set (missing_in w') = {}
   \<and> (pr' \<or> fst ` set rows \<subseteq> set seen)"
proof (induction rows arbitrary: w seen pr)
  case (Cons row rows)
  obtain k enq where row: "row = (k, enq)" by (cases row)
  show ?case
  proof (cases "k \<in> set seen")
    case True
    then have "sweep_rows en rows (w, seen, pr) = Some (w', seen', pr')" using Cons.prems(1) row by simp
    note IH = Cons.IH [OF this Cons.prems(2,3)]
    have "k \<notin> set (missing_in w)" using True Cons.prems(3) by blast
    then have "filter (\<lambda>k. k \<notin> fst ` set rows) (missing_in w) = filter (\<lambda>x. x \<notin> fst ` set (row # rows)) (missing_in w)"
      using row by (intro filter_cong) auto
    then show ?thesis using IH row True by auto
  next
    case False
    let ?rj = "enq = Some None \<or> \<not> isRecent (sub_db w) (fst k) (dpNow (enDisp en) - 10 * minute)"
    obtain w1 where w1: "do_advance en (fst k) (snd k) ?rj w = Some w1"
      using False Cons.prems(1) row by (auto simp: Let_def split: option.splits)
    have r: "sweep_rows en rows (w1, k # seen, True) = Some (w', seen', pr')" using False Cons.prems(1) row w1 by (simp add: Let_def)
    note s = do_advance_spec [OF w1 Cons.prems(2)]
    have m1: "missing_in w1 = filter (\<lambda>x. x \<noteq> k) (missing_in w)" using missing_after [of "fst k" "snd k"] s by simp
    have "set (k # seen) \<inter> set (missing_in w1) = {}" using Cons.prems(3) m1 by auto
    note IH = Cons.IH [OF r _ this]
    have pr: "pr'" using r by (induction rows arbitrary: w1 seen k) (auto simp: Let_def split: if_splits option.splits)
    show ?thesis using IH s m1 row pr by (auto simp: filter_filter intro: filter_cong)
  qed
qed simp

lemma length_filter_take: "length (filter (\<lambda>k. k \<notin> set (take n xs)) xs) \<le> length xs - n"
proof -
  have "filter (\<lambda>k. k \<notin> set (take n xs)) (take n xs) = []" by (simp add: filter_empty_conv)
  then have "filter (\<lambda>k. k \<notin> set (take n xs)) xs = filter (\<lambda>k. k \<notin> set (take n xs)) (drop n xs)"
    by (metis append_Nil append_take_drop_id filter_append)
  then show ?thesis by (metis length_drop length_filter_le)
qed

lemma sweep_pages_missing:
  "sweep_pages en missing_rows n (w, seen) = Some (w', seen') \<Longrightarrow> coherent en w \<Longrightarrow> set seen \<inter> set (missing_in w) = {} \<Longrightarrow>
   length (missing_in w) \<le> sweepPage * n \<Longrightarrow> missing_in w' = []"
proof (induction n arbitrary: w seen)
  case (Suc n)
  let ?rows = "take sweepPage (missing_rows w)"
  obtain w1 seen1 progress where r: "sweep_rows en ?rows (w, seen, False) = Some (w1, seen1, progress)"
    using Suc.prems(1) by (auto simp: Let_def split: option.splits)
  have keys: "fst ` set ?rows = set (take sweepPage (missing_in w))" by (force simp: missing_rows_def take_map)
  note m = sweep_rows_missing [OF r Suc.prems(2,3), unfolded keys]
  have c1: "coherent en w1" using sweep_rows_sweeps [OF r] Suc.prems(2) by (simp add: sweeps_def)
  have len: "length (missing_in w1) \<le> length (missing_in w) - sweepPage" using m length_filter_take [of sweepPage "missing_in w"] by simp
  show ?case
  proof (cases "length ?rows < sweepPage \<or> \<not> progress")
    case True
    then have "w' = w1" using Suc.prems(1) r by (simp add: Let_def)
    moreover have "length (missing_in w) < sweepPage \<or> missing_in w = []"
    proof (cases progress)
      case True
      then show ?thesis using \<open>length ?rows < sweepPage \<or> \<not> progress\<close> by (auto simp: missing_rows_def)
    next
      case False
      then have "set (take sweepPage (missing_in w)) \<subseteq> set seen \<inter> set (missing_in w)" using m set_take_subset by fastforce
      then show ?thesis using Suc.prems(3) by (simp add: sweepPage_def)
    qed
    ultimately show ?thesis using len by auto
  next
    case False
    then have "sweep_pages en missing_rows n (w1, seen1) = Some (w', seen')" using Suc.prems(1) r by (simp add: Let_def)
    then show ?thesis using Suc.IH c1 m len Suc.prems(4) by force
  qed
qed simp

lemma do_advance_run_db: "udDB (woDB (do_advance_run en w k)) = sub_db w"
proof -
  have "udDB db' = udDB db" if "advanceUserTest dp etxt m u d db = (UCommitted db' eff, m')" for dp etxt m u d db db' eff m'
    using that by (auto simp: advanceUserTest_def Let_def EnsureUserTestResult_def SetUserTestJobsEnqueued_def SetUserTestSystemError_def
        update_run_def split: option.splits if_splits prod.splits Sum_Type.sum.splits)
  then show ?thesis by (auto simp: do_advance_run_def apply_sent_def split: prod.splits utx_result.splits)
qed

lemma sweepUserTests_db: "sub_db (sweepUserTests en w) = sub_db w"
proof -
  have "sub_db (foldl (do_advance_run en) w ks) = sub_db w" for w ks
    by (induction ks arbitrary: w) (simp_all add: do_advance_run_db)
  then show ?thesis by (simp add: sweepUserTests_def Let_def)
qed


section \<open>A new submission\<close>

lemma advance_all_spec:
  "advance_all en s ds w = Some w' \<Longrightarrow> coherent en w \<Longrightarrow>
   sweeps en w w' \<and> missing_in w' = filter (\<lambda>k. k \<notin> Pair s ` set ds) (missing_in w)"
proof (induction ds arbitrary: w)
  case (Cons d ds)
  obtain w1 where w1: "do_advance en s d False w = Some w1" "advance_all en s ds w1 = Some w'"
    using Cons.prems(1) by (auto simp: bind_eq_Some_conv)
  note s = do_advance_spec [OF w1(1) Cons.prems(2)]
  have s1: "sweeps en w w1" by (rule do_advance_sweeps [OF w1(1) Cons.prems(2)])
  have m1: "missing_in w1 = filter (\<lambda>x. x \<noteq> (s, d)) (missing_in w)" using missing_after s by blast
  have IH: "sweeps en w1 w'" "missing_in w' = filter (\<lambda>k. k \<notin> Pair s ` set ds) (missing_in w1)"
    using Cons.IH [OF w1(2)] s by auto
  have "missing_in w' = filter (\<lambda>k. k \<notin> Pair s ` set (d # ds)) (missing_in w)"
    unfolding IH(2) m1 filter_filter by (rule filter_cong) auto
  then show ?case using sweeps_trans [OF s1 IH(1)] by simp
qed (simp add: sweeps_refl)

lemma find_key: "distinct (map f xs) \<Longrightarrow> x \<in> set xs \<Longrightarrow> f x = i \<Longrightarrow> find (\<lambda>y. f y = i) xs = Some x"
  by (induction xs) auto

lemma missing_of_judged:
  assumes "distinct (map smID (dbSubmissions db))" "GetSubmissionMeta db s = Some meta" "(s, d) \<in> set (ListSubmissionsMissingResults db)"
  shows "d \<in> dtID ` set ((if mtTester meta then ListDatasetsByTask else ListJudgedDatasetsByTask) db (mtTaskID meta))"
proof -
  obtain x where x0: "x \<in> set (dbSubmissions db)" "(s, d) \<in> set (missing_of db x)"
    using assms(3) by (auto simp: ListSubmissionsMissingResults_def)
  then obtain t where t: "GetTask db (smTaskID x) = Some t" by (cases "GetTask db (smTaskID x)") (auto simp: missing_of_def)
  with x0 obtain ds where x: "x \<in> set (dbSubmissions db)" "smID x = s" "GetTask db (smTaskID x) = Some t" "ds \<in> set (dbDatasets db)" "dtID ds = d"
      "dtTaskID ds = smTaskID x" "tkActiveDatasetID t = Some (dtID ds) \<or> dtAutojudge ds \<or> smTester x"
    by (auto simp: missing_of_def)
  have "GetSubmission db s = Some x" unfolding GetSubmission_def by (rule find_key [OF assms(1) x(1,2)])
  then have "mtTester meta = smTester x" "mtTaskID meta = smTaskID x" using assms(2) x(3) by (auto simp: GetSubmissionMeta_def)
  then show ?thesis using x by (auto simp: ListDatasetsByTask_def ListJudgedDatasetsByTask_def Let_def)
qed

text \<open>
  A new submission is judged everywhere it must be: after its event is handled, it
  has a result on every dataset that judges it, the results of the other submissions that were
  finished are as they were, and no other submission lost or gained a missing result.
\<close>

theorem newSubmission_creates_results:
  assumes "newSubmission en s w = Done w'" "coherent en w" "GetSubmissionMeta (sub_db w) s = Some meta"
    and "distinct (map smID (dbSubmissions (sub_db w)))"
  shows "missing_in w' = filter (\<lambda>k. fst k \<noteq> s) (missing_in w)
    \<and> (\<forall>k r. dbResults (sub_db w) k = Some r \<and> finished r \<longrightarrow> dbResults (sub_db w') k = Some r)"
proof -
  let ?ds = "map dtID ((if mtTester meta then ListDatasetsByTask else ListJudgedDatasetsByTask) (sub_db w) (mtTaskID meta))"
  obtain w1 where w1: "advance_all en s ?ds w = Some w1" and w': "sub_db w' = sub_db w1"
    using assms(1,3) by (auto simp: newSubmission_def Let_def split: option.splits if_splits)
  have sub: "set (missing_in w) \<inter> {k. fst k = s} \<subseteq> Pair s ` set ?ds" using missing_of_judged [OF assms(4,3)] by auto
  have "missing_in w1 = filter (\<lambda>k. k \<notin> Pair s ` set ?ds) (missing_in w)" using advance_all_spec [OF w1 assms(2)] by blast
  also have "\<dots> = filter (\<lambda>k. fst k \<noteq> s) (missing_in w)" using sub by (intro filter_cong) auto
  finally show ?thesis using advance_all_spec [OF w1 assms(2)] w' by (simp add: sweeps_def)
qed

section \<open>A change of the live dataset\<close>

text \<open>The stored score of a participation is that of its submissions' results on the dataset, with its adjustment.\<close>

definition up_to_date :: "DB \<Rightarrow> int \<Rightarrow> TaskT \<Rightarrow> int \<Rightarrow> bool" where
  "up_to_date db d task p \<longleftrightarrow>
     (case dbScores db (p, tkID task) of
        None \<Rightarrow> False
      | Some row \<Rightarrow>
          (let ts = Aggregate (tkScoreMode task) (map counted (ListTaskSubmissionsForScore db d p (tkID task))) (tkScorePrecision task)
           in psScore row = taScore ts + psAdjustment row \<and> psSubtasks row = taSubtasks ts \<and> psPending row = taPending ts
              \<and> psScoreReachedAt row = taReached ts))"

lemma ListTaskSubmissionsForScore_frame:
  "static db' = static db \<Longrightarrow> dbResults db' = dbResults db \<Longrightarrow> ListTaskSubmissionsForScore db' = ListTaskSubmissionsForScore db"
  by (simp add: ListTaskSubmissionsForScore_def fun_eq_iff static_def)

lemma aggregate_up_to_date:
  assumes "aggregate now p di db = Some (db', up)"
  shows "up_to_date db' (dtID (diDs di)) (diTask di) p" "ruParticipationID up = p"
    "q \<noteq> p \<Longrightarrow> up_to_date db' (dtID (diDs di)) (diTask di) q = up_to_date db (dtID (diDs di)) (diTask di) q"
proof -
  have f: "static db' = static db" "dbResults db' = dbResults db" using aggregate_frame [OF assms] by auto
  note l = ListTaskSubmissionsForScore_frame [OF f]
  obtain mx where mx: "iface_MaxScore (diScoreType di) = Some mx" using assms by (auto simp: aggregate_def Let_def split: option.splits)
  show "up_to_date db' (dtID (diDs di)) (diTask di) p"
    using assms mx unfolding up_to_date_def l
    by (auto simp: aggregate_def Let_def UpsertParticipationTaskScore_def split: option.splits)
  show "ruParticipationID up = p" using assms mx by (auto simp: aggregate_def Let_def UpsertParticipationTaskScore_def)
  assume "q \<noteq> p"
  then have "dbScores db' (q, tkID (diTask di)) = dbScores db (q, tkID (diTask di))"
    using assms mx by (auto simp: aggregate_def Let_def UpsertParticipationTaskScore_def)
  then show "up_to_date db' (dtID (diDs di)) (diTask di) q = up_to_date db (dtID (diDs di)) (diTask di) q"
    unfolding up_to_date_def l by simp
qed

lemma aggregate_all_up_to_date:
  "aggregate_all now di ps (db, ups) = Some (db', ups') \<Longrightarrow>
   (\<forall>q. q \<in> set ps \<or> up_to_date db (dtID (diDs di)) (diTask di) q \<longrightarrow> up_to_date db' (dtID (diDs di)) (diTask di) q)
   \<and> map ruParticipationID ups' = map ruParticipationID ups @ ps"
proof (induction ps arbitrary: db ups)
  case (Cons p ps)
  obtain db1 up where a: "aggregate now p di db = Some (db1, up)" "aggregate_all now di ps (db1, ups @ [up]) = Some (db', ups')"
    using Cons.prems by (auto split: option.splits)
  note u = aggregate_up_to_date [OF a(1)]
  have "up_to_date db1 (dtID (diDs di)) (diTask di) q" if "q = p \<or> up_to_date db (dtID (diDs di)) (diTask di) q" for q
    using that u(1) u(3) [of q] by (cases "q = p") auto
  then show ?case using Cons.IH [OF a(2)] u(2) by auto
qed simp

lemma GetTask_SetActiveDataset: "GetTask (SetActiveDataset i d db) i = map_option (\<lambda>t. t\<lparr>tkActiveDatasetID := Some d\<rparr>) (GetTask db i)"
proof -
  have "find (\<lambda>x. tkID x = i) (map (\<lambda>x. if tkID x = i then x\<lparr>tkActiveDatasetID := Some d\<rparr> else x) ts) =
      map_option (\<lambda>t. t\<lparr>tkActiveDatasetID := Some d\<rparr>) (find (\<lambda>x. tkID x = i) ts)" for ts :: "TaskT list"
    by (induction ts) auto
  then show ?thesis by (simp add: GetTask_def SetActiveDataset_def)
qed

text \<open>
  Property C30. A change of the live dataset: once its event is handled, the stored score of every
  participation with submissions on the task is the one of its results on the new dataset, the
  rankings are sent one update for each of them, and a sweep is requested that judges what has
  no result there yet.
\<close>

theorem live_change_updates_scores:
  assumes "ChangeLiveDataset d w = Some w1" "GetDataset (sub_db w) d = Some ds" "GetTask (sub_db w) (dtTaskID ds) = Some t" "dtTaskID ds \<noteq> 0"
    and "handleEvent en (dataset_changed (dtTaskID ds) d) w1 = Done w2"
  shows "last (woNotified w1) = dataset_changed (dtTaskID ds) d \<and> woSweepNow w2
    \<and> list_all (up_to_date (sub_db w2) d (t\<lparr>tkActiveDatasetID := Some d\<rparr>)) (ListParticipationsWithSubmissions (sub_db w1) (dtTaskID ds))
    \<and> map ruParticipationID (woRanking w2) = map ruParticipationID (woRanking w1) @ ListParticipationsWithSubmissions (sub_db w1) (dtTaskID ds)"
proof -
  let ?t = "t\<lparr>tkActiveDatasetID := Some d\<rparr>" and ?w = "w1\<lparr>woCache := []\<rparr>" and ?ps = "ListParticipationsWithSubmissions (sub_db w1) (dtTaskID ds)"
  let ?re = "dpRegexp (enDisp en)"
  have ds: "dtID ds = d" using assms(2) GetDataset_id by blast
  have db1: "sub_db w1 = SetActiveDataset (dtTaskID ds) d (sub_db w)" and n: "last (woNotified w1) = dataset_changed (dtTaskID ds) d"
    using assms(1,2) ds by (auto simp: ChangeLiveDataset_def)
  have tid: "tkID t = dtTaskID ds" using assms(3) by (auto simp: GetTask_def dest: find_SomeD)
  have t1: "GetTask (sub_db w1) (dtTaskID ds) = Some ?t" using assms(3) by (simp add: db1 GetTask_SetActiveDataset)
  have g1: "GetDataset (sub_db w1) d = Some ds" using assms(2) by (simp add: db1 GetDataset_def SetActiveDataset_def)
  obtain w2' where r: "reaggregateTask en (dtTaskID ds) ?w = Done w2'" and w2: "w2 = RequestSweep w2'"
    using assms(4,5) by (auto simp: handleEvent_def dataset_changed_def event_kinds split: handled.splits)
  then have r2: "reaggregate_parts en d ?ps ?w = Done w2'" using t1 by (simp add: reaggregateTask_def)
  obtain di m where di: "cache_get ?re (30 * second) (dpNow (enDisp en)) (sub_db w1) [] d = (Inr di, m)"
    using r2 by (auto simp: reaggregate_parts_def split: prod.splits Sum_Type.sum.splits)
  then have "load_dataset ?re (sub_db w1) d = Inr di" by (auto simp: cache_get_def split: Sum_Type.sum.splits)
  then have d2: "diDs di = ds" "diTask di = ?t" using g1 t1 by (auto elim!: load_dataset_cases)
  obtain db ups where a: "aggregate_all (dpNow (enDisp en)) di ?ps (sub_db w1, []) = Some (db, ups)"
    and w2': "sub_db w2' = db" "woRanking w2' = woRanking w1 @ ups"
    using r2 di by (auto simp: reaggregate_parts_def apply_effects_def no_effects_def split: option.splits)
  show ?thesis
    using aggregate_all_up_to_date [OF a] n w2 w2' d2 ds by (simp add: list_all_iff RequestSweep_def)
qed

section \<open>Examples\<close>

definition ex_env :: Env where
  "ex_env = \<lparr>enDisp = ex_disp, enLoadText = (\<lambda>_. []), enScoreText = (\<lambda>_. []), enNoRows = [], enStaleAfter = 60\<rparr>"

definition ex_world :: "int option \<Rightarrow> World" where
  "ex_world active =
     \<lparr>woDB = \<lparr>udDB = ex_judging_db active (JArr [JArr [JInt 100, JInt 2]]), udTests = [], udResults = Map.empty, udJobs = [],
        udNextTest = 1, udNextTestcase = 20\<rparr>,
      woCache = [], woJobs = [], woEvents = [], woRanking = [], woSkips = [], woNotified = [], woSuperseded = [], woSweepNow = False\<rparr>"

lemma ex_coherent: "coherent ex_env (ex_world active)"
  by (simp add: cache_ok_def ex_world_def)

lemma ex_missing: "missing_in (ex_world (Some 2)) = [(5, 2)]"
  by code_simp

theorem newSubmission_creates_results_witness:
  "\<exists>w'. newSubmission ex_env 5 (ex_world (Some 2)) = Done w' \<and> missing_in (ex_world (Some 2)) = [(5, 2)] \<and> missing_in w' = []"
proof -
  have "case newSubmission ex_env 5 (ex_world (Some 2)) of Done w \<Rightarrow> True | _ \<Rightarrow> False" by code_simp
  then obtain w' where w': "newSubmission ex_env 5 (ex_world (Some 2)) = Done w'" by (auto split: handled.splits)
  have "case GetSubmissionMeta (sub_db (ex_world (Some 2))) 5 of Some meta \<Rightarrow> True | None \<Rightarrow> False" by code_simp
  then obtain meta where m: "GetSubmissionMeta (sub_db (ex_world (Some 2))) 5 = Some meta" by (auto split: option.splits)
  have "distinct (map smID (dbSubmissions (sub_db (ex_world (Some 2)))))" by (simp add: ex_world_def ex_judging_db_def)
  from newSubmission_creates_results [OF w' ex_coherent m this] w' show ?thesis by (simp add: ex_missing)
qed

theorem live_change_updates_scores_witness:
  "\<exists>w1 w2. ChangeLiveDataset 2 (ex_world None) = Some w1 \<and> handleEvent ex_env (dataset_changed 1 2) w1 = Done w2
     \<and> ListParticipationsWithSubmissions (sub_db w1) 1 = [7] \<and> map ruParticipationID (woRanking w2) = [7]"
proof -
  have "case ChangeLiveDataset 2 (ex_world None) of
      Some w1 \<Rightarrow> woRanking w1 = [] \<and> ListParticipationsWithSubmissions (sub_db w1) 1 = [7]
        \<and> (case handleEvent ex_env (dataset_changed 1 2) w1 of Done w \<Rightarrow> True | _ \<Rightarrow> False)
    | None \<Rightarrow> False" by code_simp
  then obtain w1 w2 where w: "ChangeLiveDataset 2 (ex_world None) = Some w1" "woRanking w1 = []"
      "ListParticipationsWithSubmissions (sub_db w1) 1 = [7]" "handleEvent ex_env (dataset_changed 1 2) w1 = Done w2"
    by (auto split: option.splits handled.splits)
  have "\<exists>ds. GetDataset (sub_db (ex_world None)) 2 = Some ds \<and> dtTaskID ds = 1"
    by (simp add: GetDataset_def ex_world_def ex_judging_db_def)
  then obtain ds where ds: "GetDataset (sub_db (ex_world None)) 2 = Some ds" "dtTaskID ds = 1" by blast
  have "\<exists>t. GetTask (sub_db (ex_world None)) (dtTaskID ds) = Some t"
    by (simp add: GetTask_def ds(2) ex_world_def ex_judging_db_def)
  then obtain t where t: "GetTask (sub_db (ex_world None)) (dtTaskID ds) = Some t" by blast
  from live_change_updates_scores [OF w(1) ds(1) t, of ex_env w2] ds(2) w show ?thesis by simp
qed


end
