(* ===== verification/Slots.thy ===== *)
theory Slots
  imports Main
begin

text \<open>
  The slots of a worker (\<^verbatim>\<open>src/internal/sandbox/slot.go\<close>). A logical box is backed by two isolate
  boxes used in turn: while one runs a program, the other is initialised in the background. Every
  initialisation has a serial number, which stands for the box it makes; the model also records
  which boxes were handed out, which were disposed of and which one the caller is using.
\<close>

section \<open>Operations\<close>

text \<open>The channel \<^verbatim>\<open>ready[k]\<close>: nil, open while an initialisation runs, closed after it.\<close>

datatype chan = NoChan | Opened | Closed

record lbox =
  lbNext :: nat
  lbReady :: "nat \<Rightarrow> chan"
  lbPhys :: "nat \<Rightarrow> nat option"
  lbErr :: "nat \<Rightarrow> bool"
  lbSerial :: nat
  lbHanded :: "nat list"
  lbDisposed :: "nat list"
  lbInUse :: "nat option"

definition NewSlot :: lbox where
  "NewSlot = \<lparr>lbNext = 0, lbReady = \<lambda>_. NoChan, lbPhys = \<lambda>_. None, lbErr = \<lambda>_. False, lbSerial = 0, lbHanded = [],
     lbDisposed = [], lbInUse = None\<rparr>"

definition initAsync :: "nat \<Rightarrow> lbox \<Rightarrow> lbox" where
  "initAsync k s = s\<lparr>lbReady := (lbReady s)(k := Opened)\<rparr>"

definition dispose :: "nat option \<Rightarrow> nat list \<Rightarrow> nat list" where
  "dispose b ds = (case b of None \<Rightarrow> ds | Some n \<Rightarrow> n # ds)"

text \<open>The goroutine of \<open>initAsync\<close>: it disposes of the old box and initialises the new one, which may fail.\<close>

definition init_done :: "nat \<Rightarrow> bool \<Rightarrow> lbox \<Rightarrow> lbox" where
  "init_done k ok s = s\<lparr>lbReady := (lbReady s)(k := Closed), lbPhys := (lbPhys s)(k := if ok then Some (lbSerial s) else None),
     lbErr := (lbErr s)(k := \<not> ok), lbSerial := lbSerial s + 1, lbDisposed := dispose (lbPhys s k) (lbDisposed s)\<rparr>"

text \<open>\<^verbatim>\<open>Slot.Box\<close> up to the wait for the channel, and after it; a cancelled call does only the first part.\<close>

definition Box_begin :: "lbox \<Rightarrow> lbox" where
  "Box_begin s = (if lbReady s (lbNext s) = NoChan then initAsync (lbNext s) s else s)"

definition Box_take :: "lbox \<Rightarrow> nat option \<times> lbox" where
  "Box_take s =
     (let k = lbNext s; other = 1 - k
      in if lbErr s k
         then (None, s\<lparr>lbReady := (lbReady s)(k := NoChan), lbPhys := (lbPhys s)(k := None), lbErr := (lbErr s)(k := False)\<rparr>)
         else (let b = lbPhys s k;
                   s1 = (if lbPhys s other \<noteq> None \<or> lbReady s other = NoChan then initAsync other s else s)
               in (b, s1\<lparr>lbNext := other, lbReady := (lbReady s1)(k := NoChan),
                         lbHanded := dispose b (lbHanded s1), lbInUse := b\<rparr>)))"

definition Recycle :: "lbox \<Rightarrow> lbox" where
  "Recycle s = s\<lparr>lbPhys := \<lambda>_. None, lbReady := \<lambda>_. NoChan, lbErr := \<lambda>_. False,
     lbDisposed := dispose (lbPhys s 1) (dispose (lbPhys s 0) (lbDisposed s)), lbInUse := None\<rparr>"

text \<open>
  Any interleaving of calls and background initialisations. A call waits for the channel before it
  takes the box; \<open>Recycle\<close> waits for the running initialisations.
\<close>

inductive slot_run :: "lbox \<Rightarrow> bool" where
  new: "slot_run NewSlot"
| call: "slot_run s \<Longrightarrow> slot_run (Box_begin s)"
| inited: "slot_run s \<Longrightarrow> k < 2 \<Longrightarrow> lbReady s k = Opened \<Longrightarrow> slot_run (init_done k ok s)"
| taken: "slot_run s \<Longrightarrow> lbReady s (lbNext s) = Closed \<Longrightarrow> slot_run (snd (Box_take s))"
| recycled: "slot_run s \<Longrightarrow> lbReady s 0 \<noteq> Opened \<Longrightarrow> lbReady s 1 \<noteq> Opened \<Longrightarrow> slot_run (Recycle s)"

section \<open>Every box handed out is fresh\<close>

text \<open>
  The invariant. The box that is not next has no initialisation under way; it is the one in use.
  A box that waits behind a closed channel was neither handed out nor disposed of.
\<close>

definition slot_inv :: "lbox \<Rightarrow> bool" where
  "slot_inv s \<longleftrightarrow> lbNext s < 2 \<and> lbReady s (1 - lbNext s) = NoChan \<and> \<not> lbErr s (1 - lbNext s)
     \<and> (\<forall>n \<in> set (lbHanded s) \<union> set (lbDisposed s). n < lbSerial s) \<and> distinct (lbHanded s)
     \<and> (case lbReady s (lbNext s) of
          Closed \<Rightarrow> if lbErr s (lbNext s) then lbPhys s (lbNext s) = None
                   else (\<exists>n. lbPhys s (lbNext s) = Some n \<and> n < lbSerial s \<and> n \<notin> set (lbHanded s) \<and> n \<notin> set (lbDisposed s)
                             \<and> lbPhys s (1 - lbNext s) \<noteq> Some n)
        | _ \<Rightarrow> \<not> lbErr s (lbNext s))
     \<and> (\<forall>k n. lbPhys s k = Some n \<longrightarrow> n < lbSerial s)
     \<and> (case lbInUse s of None \<Rightarrow> True | Some n \<Rightarrow> lbPhys s (1 - lbNext s) = Some n \<and> n \<notin> set (lbDisposed s) \<and> lbPhys s (lbNext s) \<noteq> Some n)"

lemma less_2: "k < 2 \<longleftrightarrow> k = 0 \<or> k = (1::nat)" by auto

lemma slot_run_inv: "slot_run s \<Longrightarrow> slot_inv s"
proof (induction rule: slot_run.induct)
  case new
  show ?case by (simp add: slot_inv_def NewSlot_def)
next
  case (call s)
  then show ?case by (auto simp: slot_inv_def Box_begin_def initAsync_def less_2 split: option.splits)
next
  case (inited s k ok)
  then have "k = lbNext s" by (auto simp: slot_inv_def less_2)
  with inited show ?case
    by (auto simp: slot_inv_def init_done_def dispose_def less_2 less_Suc_eq split: option.splits)
next
  case (taken s)
  then show ?case
    by (auto simp: slot_inv_def Box_take_def initAsync_def dispose_def Let_def less_2 split: option.splits if_splits)
next
  case (recycled s)
  then show ?case
    by (auto simp: slot_inv_def Recycle_def dispose_def less_2 split: option.splits)
qed



section \<open>Box numbers\<close>

definition BoxesPerSlot :: nat where "BoxesPerSlot = 6"

text \<open>\<^verbatim>\<open>NewSlots\<close>: the isolate boxes of slot \<open>i\<close>, two for each logical box, and those of all the slots.\<close>

definition slot_ids :: "int \<Rightarrow> nat \<Rightarrow> int list" where
  "slot_ids offset i = map (\<lambda>j. offset + int i * 2 * int BoxesPerSlot + int j) [0..<2 * BoxesPerSlot]"

definition NewSlots :: "'core list \<Rightarrow> int \<Rightarrow> ('core \<times> int list) list" where
  "NewSlots cores offset = map (\<lambda>(i, c). (c, slot_ids offset i)) (enumerate 0 cores)"

text \<open>No two slots of a worker share a sandbox: every box of isolate belongs to one slot.\<close>

lemma slot_ids_range: "set (slot_ids offset i) = {offset + int i * 12 ..< offset + int i * 12 + 12}"
proof -
  have "x \<in> (\<lambda>j. offset + int i * 12 + int j) ` {0..<12}" if "offset + int i * 12 \<le> x" "x < offset + int i * 12 + 12" for x
    using that by (intro image_eqI [of _ _ "nat (x - offset - int i * 12)"]) auto
  then show ?thesis by (auto simp: slot_ids_def BoxesPerSlot_def mult.commute)
qed

lemma NewSlots_separate:
  assumes "i < length cores" "j < length cores" "i \<noteq> j"
  shows "set (snd (NewSlots cores offset ! i)) \<inter> set (snd (NewSlots cores offset ! j)) = {}"
    and "distinct (snd (NewSlots cores offset ! i))" "length (snd (NewSlots cores offset ! i)) = 2 * BoxesPerSlot"
proof -
  have n: "NewSlots cores offset ! k = (cores ! k, slot_ids offset k)" if "k < length cores" for k
    using that by (simp add: NewSlots_def nth_enumerate_eq)
  have "int i * 12 + 12 \<le> int j * 12 \<or> int j * 12 + 12 \<le> int i * 12" using assms(3) by linarith
  then show "set (snd (NewSlots cores offset ! i)) \<inter> set (snd (NewSlots cores offset ! j)) = {}"
    using n assms(1,2) by (auto simp: slot_ids_range)
  show "distinct (snd (NewSlots cores offset ! i))" "length (snd (NewSlots cores offset ! i)) = 2 * BoxesPerSlot"
    using n assms(1) by (simp_all add: slot_ids_def distinct_map inj_on_def)
qed

end
