(* ===== verification/Sandbox.thy ===== *)
theory Sandbox
  imports Checkers Langs Go_Strconv
begin

text \<open>
  The sandbox around isolate (\<^verbatim>\<open>src/internal/sandbox\<close>: sandbox.go, stage.go): the command line of
  a run, the classification of its outcome from isolate's meta file, and the files of a box. Isolate
  itself is a parameter of \<open>Run\<close>: given the command line, the files of the box and of the
  stage, it leaves a meta file and the files the program wrote, or none at all.

  The files of a box are a map from names; what is not a regular file (a link, a device, a directory)
  is \<open>Special\<close>. Directories are not modelled otherwise: a name may hold slashes.
\<close>

section \<open>Data\<close>

definition StatusOK :: string where "StatusOK = ''ok''"
definition StatusNonZero :: string where "StatusNonZero = ''nonzero''"
definition StatusSignal :: string where "StatusSignal = ''signal''"
definition StatusTimeout :: string where "StatusTimeout = ''timeout''"
definition StatusWallTimeout :: string where "StatusWallTimeout = ''timeout_wall''"
definition StatusMemory :: string where "StatusMemory = ''memory''"
definition StatusOutputLimit :: string where "StatusOutputLimit = ''output_limit''"
definition StatusSecurity :: string where "StatusSecurity = ''security''"
definition StatusSandboxError :: string where "StatusSandboxError = ''sandbox_error''"

lemmas status_defs = StatusOK_def StatusNonZero_def StatusSignal_def StatusTimeout_def StatusWallTimeout_def
  StatusMemory_def StatusOutputLimit_def StatusSecurity_def StatusSandboxError_def

record RunLimits =
  slCPUTime :: duration
  slWallTime :: duration
  slMemory :: int
  slStack :: int
  slProcesses :: int
  slFileSize :: int
  slOpenFiles :: int

record Dir =
  drInside :: string
  drOutside :: string
  drRW :: bool
  drMaybe :: bool
  drNoExec :: bool

text \<open>An open file given for a standard stream is a flag.\<close>

record Spec =
  spArgs :: "string list"
  spStdin :: string
  spStdout :: string
  spStderr :: string
  spStderrToStdout :: bool
  spEnv :: "string list"
  spDirs :: "Dir list"
  spLimits :: RunLimits
  spShareNet :: bool
  spNoSeccomp :: bool
  spStdinFile :: bool
  spStdoutFile :: bool

record Run =
  rnStatus :: string
  rnExitCode :: int
  rnSignal :: int
  rnCPUTime :: duration
  rnWallTime :: duration
  rnMemory :: int
  rnMessage :: string

record Isolate =
  isCG :: bool
  isLauncher :: string

section \<open>Numbers as text\<close>

definition digit_value :: "char \<Rightarrow> int" where
  "digit_value c = int (of_char c :: nat) - 48"

definition is_digit :: "char \<Rightarrow> bool" where
  "is_digit c \<longleftrightarrow> 0 \<le> digit_value c \<and> digit_value c \<le> 9"

text \<open>
  \<^verbatim>\<open>strconv.ParseInt(s, 10, 64)\<close>, and \<^verbatim>\<open>strconv.Atoi\<close> on 64 bits: the value, and whether there
  was no error. The value is zero for a syntax error and the nearest bound for a range error.
\<close>

definition ParseInt :: "string \<Rightarrow> int \<times> bool" where
  "ParseInt s =
     (let neg = (s \<noteq> [] \<and> hd s = CHR ''-'');
          ds = (if s \<noteq> [] \<and> (hd s = CHR ''-'' \<or> hd s = CHR ''+'') then tl s else s);
          n = foldl (\<lambda>a c. 10 * a + digit_value c) 0 ds;
          v = (if neg then - n else n)
      in if ds = [] \<or> \<not> list_all is_digit ds then (0, False)
         else if 2 ^ 63 \<le> v then (2 ^ 63 - 1, False)
         else if v < - (2 ^ 63) then (- (2 ^ 63), False)
         else (v, True))"

text \<open>\<^verbatim>\<open>d.Seconds()\<close>.\<close>

definition Seconds :: "duration \<Rightarrow> f64" where
  "Seconds d = (let s = go_div d second in f64 (of_int s) + f64 (of_int (d - s * second)) / f64 1000000000)"

text \<open>\<^verbatim>\<open>strconv.FormatFloat(x, 'f', 3, 64)\<close> of a number that is not negative: ties go to the even digit.\<close>

definition milli_text :: "f64 \<Rightarrow> string" where
  "milli_text x =
     (let n = rne (rat_of_f64 x * 1000); m = n mod 1000
      in Itoa (n div 1000) @ ''.'' @ (if m < 10 then ''00'' else if m < 100 then ''0'' else []) @ Itoa m)"

text \<open>
  \<^verbatim>\<open>time.Duration(x)\<close> of a float truncates; what does not fit becomes the least integer (the
  conversion of the amd64 processor).
\<close>

definition to_duration :: "f64 \<Rightarrow> duration" where
  "to_duration x =
     (let q = rat_of_f64 x; n = (if q < 0 then - \<lfloor>- q\<rfloor> else \<lfloor>q\<rfloor>)
      in if in_i64 n then n else - (2 ^ 63))"

section \<open>Names of files\<close>

fun components :: "string \<Rightarrow> string list" where
  "components [] = [[]]"
| "components (c # cs) =
     (if c = CHR ''/'' then [] # components cs
      else (case components cs of [] \<Rightarrow> [[c]] | x # xs \<Rightarrow> (c # x) # xs))"

text \<open>\<^verbatim>\<open>filepath.Clean(name) == name\<close> for a relative name: dots only as the name itself, parents only at the front.\<close>

definition clean_relative :: "string \<Rightarrow> bool" where
  "clean_relative name \<longleftrightarrow> name = ''.'' \<or>
     (let cs = components name
      in list_all (\<lambda>c. c \<noteq> [] \<and> c \<noteq> ''.'') cs \<and> ''..'' \<notin> set (dropWhile (\<lambda>c. c = ''..'') cs))"

definition checkName :: "string \<Rightarrow> bool" where
  "checkName name \<longleftrightarrow> \<not> (name = [] \<or> hd name = CHR ''/'' \<or> \<not> clean_relative name \<or> prefix ''..'' name)"

section \<open>Boxes and the stage\<close>

datatype node = Regular string | Special

type_synonym box = "string \<rightharpoonup> node"
type_synonym stage = "string \<rightharpoonup> string"

datatype file_error = BadName | NotExist | UnsafeFile | Exists

text \<open>\<^verbatim>\<open>Box.create\<close> refuses an existing name; \<open>CopyIn\<close>, \<open>WriteFile\<close> and \<open>WriteFrom\<close> write through it.\<close>

definition create :: "string \<Rightarrow> string \<Rightarrow> box \<Rightarrow> (file_error, box) result" where
  "create name data b =
     (if \<not> checkName name then Inl BadName else if b name \<noteq> None then Inl Exists else Inr (b(name \<mapsto> Regular data)))"

definition OpenOutput :: "box \<Rightarrow> string \<Rightarrow> (file_error, string) result" where
  "OpenOutput b name =
     (if \<not> checkName name then Inl BadName
      else (case b name of None \<Rightarrow> Inl NotExist | Some Special \<Rightarrow> Inl UnsafeFile | Some (Regular data) \<Rightarrow> Inr data))"

definition ReadFile :: "box \<Rightarrow> string \<Rightarrow> nat \<Rightarrow> (file_error, string \<times> bool) result" where
  "ReadFile b name n = bind_result (OpenOutput b name) (\<lambda>data. Inr (take n data, n < length data))"

definition StageMount :: string where "StageMount = ''/stage''"

definition stage_Path :: "string \<Rightarrow> string" where
  "stage_Path name = StageMount @ ''/'' @ name"

definition stage_Dir :: "string \<Rightarrow> Dir" where
  "stage_Dir dir = \<lparr>drInside = StageMount, drOutside = dir, drRW = False, drMaybe = False, drNoExec = True\<rparr>"

text \<open>\<^verbatim>\<open>Stage.Add\<close> replaces a file of that name; \<^verbatim>\<open>Stage.Clear\<close> leaves no file.\<close>

definition stage_Add :: "string \<Rightarrow> string \<Rightarrow> stage \<Rightarrow> (file_error, stage) result" where
  "stage_Add data name st = (if checkName name then Inr (st(name \<mapsto> data)) else Inl BadName)"

definition stage_Clear :: "stage \<Rightarrow> stage" where
  "stage_Clear st = Map.empty"

section \<open>The command line\<close>

definition kb :: "int \<Rightarrow> string" where
  "kb bytes = Itoa (go_div (wrap64 (bytes + 1023)) 1024)"

definition secs :: "duration \<Rightarrow> string" where
  "secs d = milli_text (Seconds d)"

definition orDevNull :: "string \<Rightarrow> string" where
  "orDevNull p = (if p = [] then ''/dev/null'' else p)"

definition opt :: "bool \<Rightarrow> string \<Rightarrow> string list" where
  "opt c s = (if c then [s] else [])"

definition dir_arg :: "Dir \<Rightarrow> string" where
  "dir_arg d =
     (let opts = opt (drRW d) ''rw'' @ opt (drMaybe d) ''maybe'' @ opt (drNoExec d) ''noexec''
      in ''--dir='' @ drInside d
         @ (if drOutside d \<noteq> [] \<and> drOutside d \<noteq> drInside d then ''='' @ drOutside d else [])
         @ (if opts \<noteq> [] then '':'' @ Join '':'' opts else []))"

definition limit_args :: "bool \<Rightarrow> RunLimits \<Rightarrow> string list" where
  "limit_args cg l =
     (let stack = (if slStack l = 0 then slMemory l else slStack l)
      in opt (0 < slCPUTime l) (''--time='' @ secs (slCPUTime l))
         @ opt (0 < slWallTime l) (''--wall-time='' @ secs (slWallTime l))
         @ opt (0 < slMemory l) ((if cg then ''--cg-mem='' else ''--mem='') @ kb (slMemory l))
         @ opt (0 < stack) (''--stack='' @ kb stack)
         @ [''--processes='' @ Itoa (if slProcesses l < 1 then 1 else slProcesses l)]
         @ opt (0 < slFileSize l) (''--fsize='' @ kb (slFileSize l))
         @ opt (0 < slOpenFiles l) (''--open-files='' @ Itoa (slOpenFiles l)))"

definition stream_args :: "Spec \<Rightarrow> string list" where
  "stream_args s =
     opt (\<not> spStdinFile s) (''--stdin='' @ orDevNull (spStdin s))
     @ opt (\<not> spStdoutFile s) (''--stdout='' @ orDevNull (spStdout s))
     @ [if spStderrToStdout s then ''--stderr-to-stdout'' else ''--stderr='' @ orDevNull (spStderr s)]"

definition LauncherDir :: string where "LauncherDir = ''/cms-launcher''"

text \<open>\<^verbatim>\<open>filepath.Dir\<close> and \<^verbatim>\<open>filepath.Base\<close> of a clean path with a directory.\<close>

definition path_base :: "string \<Rightarrow> string" where
  "path_base p = last (components p)"

definition path_dir :: "string \<Rightarrow> string" where
  "path_dir p = (let d = take (length p - length (path_base p) - 1) p in if d = [] then ''/'' else d)"

definition box_options :: "Isolate \<Rightarrow> int \<Rightarrow> string \<Rightarrow> Spec \<Rightarrow> string list" where
  "box_options is0 i meta s =
     [''--box-id='' @ Itoa i, ''--meta='' @ meta, ''--silent''] @ limit_args (isCG is0) (spLimits s) @ stream_args s
     @ map (\<lambda>e. ''--env='' @ e) (spEnv s)
     @ opt (\<not> list_ex (\<lambda>d. drInside d = ''/dev/shm'') (spDirs s)) ''--dir=/dev/shm:tmp''
     @ map dir_arg (spDirs s) @ opt (spShareNet s) ''--share-net''"

definition args :: "Isolate \<Rightarrow> int \<Rightarrow> string \<Rightarrow> Spec \<Rightarrow> string list" where
  "args is0 i meta s =
     box_options is0 i meta s
     @ (if isLauncher is0 \<noteq> [] \<and> \<not> spNoSeccomp s
        then [''--dir='' @ LauncherDir @ ''='' @ path_dir (isLauncher is0), ''--run'', ''--'', LauncherDir @ ''/'' @ path_base (isLauncher is0)]
        else [''--run'', ''--''])
     @ spArgs s"

section \<open>The outcome of a run\<close>

type_synonym meta = "(string \<times> string) list"

definition meta_get :: "meta \<Rightarrow> string \<Rightarrow> string" where
  "meta_get m k = (case map_of m k of None \<Rightarrow> [] | Some v \<Rightarrow> v)"

definition parseSeconds :: "(string \<Rightarrow> fval option) \<Rightarrow> string \<Rightarrow> duration" where
  "parseSeconds parse s =
     (case parse s of
        None \<Rightarrow> 0
      | Some (Fin x) \<Rightarrow> to_duration (x * f64 1000000000)
      | Some _ \<Rightarrow> - (2 ^ 63))"

definition meta_memory :: "meta \<Rightarrow> bool \<Rightarrow> int" where
  "meta_memory m cg =
     (let (v, ok) = ParseInt (meta_get m ''cg-mem''); (v', ok') = ParseInt (meta_get m ''max-rss'')
      in if ok \<and> cg then wrap64 (v * 1024) else if ok' then wrap64 (v' * 1024) else 0)"

definition SIGPIPE :: int where "SIGPIPE = 13"
definition SIGXFSZ :: int where "SIGXFSZ = 25"
definition SIGSYS :: int where "SIGSYS = 31"

definition run_status :: "meta \<Rightarrow> RunLimits \<Rightarrow> Run \<Rightarrow> string" where
  "run_status m l r =
     (let status = meta_get m ''status''
      in if status = ''XX'' then StatusSandboxError
         else if meta_get m ''cg-oom-killed'' = ''1'' then StatusMemory
         else if status = ''TO''
         then (if Index (rnMessage r) ''wall'' \<noteq> None \<and> (slCPUTime l = 0 \<or> rnCPUTime r < slCPUTime l) then StatusWallTimeout
               else StatusTimeout)
         else if 0 < slCPUTime l \<and> slCPUTime l < rnCPUTime r then StatusTimeout
         else if status = ''SG'' \<and> rnSignal r = SIGXFSZ then StatusOutputLimit
         else if status = ''SG'' \<and> rnSignal r = SIGSYS then StatusSecurity
         else if (status = ''SG'' \<or> status = ''RE'') \<and> 0 < slMemory l \<and> go_div (wrap64 (slMemory l * 98)) 100 \<le> rnMemory r then StatusMemory
         else if status = ''SG'' then StatusSignal
         else if status = ''RE'' then StatusNonZero
         else StatusOK)"

definition classify :: "(string \<Rightarrow> fval option) \<Rightarrow> meta \<Rightarrow> RunLimits \<Rightarrow> bool \<Rightarrow> Run" where
  "classify parse m l cg =
     (let r = \<lparr>rnStatus = [], rnExitCode = fst (ParseInt (meta_get m ''exitcode'')), rnSignal = fst (ParseInt (meta_get m ''exitsig'')),
               rnCPUTime = parseSeconds parse (meta_get m ''time''), rnWallTime = parseSeconds parse (meta_get m ''time-wall''),
               rnMemory = meta_memory m cg, rnMessage = meta_get m ''message''\<rparr>
      in r\<lparr>rnStatus := run_status m l r\<rparr>)"

text \<open>The lines of the meta file; a line without a colon counts for nothing.\<close>

definition cut_colon :: "string \<Rightarrow> (string \<times> string) option" where
  "cut_colon s = (case Index s '':'' of None \<Rightarrow> None | Some i \<Rightarrow> Some (take i s, drop (i + 1) s))"

definition readMeta :: "string list \<Rightarrow> meta" where
  "readMeta ls = foldl (\<lambda>m l. case cut_colon l of None \<Rightarrow> m | Some (k, v) \<Rightarrow> AList.update k v m) [] ls"

text \<open>
  What isolate leaves: the lines of the meta file and the files of the box; \<^const>\<open>None\<close> when there
  is no meta file. An error carries the text of \<^verbatim>\<open>ErrSandbox\<close> or of an empty command.
\<close>

type_synonym isolate_run = "string list \<Rightarrow> box \<Rightarrow> stage \<Rightarrow> (string list \<times> box) option"

datatype run_error = EmptyCommand | SandboxError string

text \<open>What follows the end of isolate, and the run in one piece.\<close>

definition Run_end :: "(string \<Rightarrow> fval option) \<Rightarrow> Isolate \<Rightarrow> Spec \<Rightarrow> (string list \<times> box) option \<Rightarrow> (run_error, Run \<times> box) result" where
  "Run_end parse is0 s out =
     (case out of
        None \<Rightarrow> Inl (SandboxError ''no meta file'')
      | Some (ls, b') \<Rightarrow>
          if readMeta ls = [] then Inl (SandboxError ''no meta file'')
          else (let r = classify parse (readMeta ls) (spLimits s) (isCG is0)
                in if rnStatus r = StatusSandboxError then Inl (SandboxError (rnMessage r)) else Inr (r, b')))"

definition Run :: "(string \<Rightarrow> fval option) \<Rightarrow> Isolate \<Rightarrow> isolate_run \<Rightarrow> int \<Rightarrow> string \<Rightarrow> Spec \<Rightarrow> stage \<Rightarrow> box \<Rightarrow> (run_error, Run \<times> box) result" where
  "Run parse is0 exec i meta s st b =
     (if spArgs s = [] then Inl EmptyCommand else Run_end parse is0 s (exec (args is0 i meta s) b st))"

section \<open>Lemmas\<close>

lemma status_distinct:
  "StatusOK \<noteq> StatusNonZero" "StatusOK \<noteq> StatusSignal" "StatusOK \<noteq> StatusTimeout" "StatusOK \<noteq> StatusWallTimeout"
  "StatusOK \<noteq> StatusMemory" "StatusOK \<noteq> StatusOutputLimit" "StatusOK \<noteq> StatusSecurity" "StatusOK \<noteq> StatusSandboxError"
  "StatusTimeout \<noteq> StatusWallTimeout" "StatusNonZero \<noteq> StatusSignal" "StatusMemory \<noteq> StatusSandboxError"
  by (simp_all add: status_defs)

lemmas status_distincts [simp] = status_distinct status_distinct [symmetric]

text \<open>A run is ok exactly when isolate reports no trouble and the CPU time is within its limit.\<close>

lemma run_status_ok:
  "run_status m l r = StatusOK \<longleftrightarrow> meta_get m ''status'' \<notin> {''XX'', ''TO'', ''SG'', ''RE''} \<and> meta_get m ''cg-oom-killed'' \<noteq> ''1''
     \<and> (slCPUTime l \<le> 0 \<or> rnCPUTime r \<le> slCPUTime l)"
  by (cases "meta_get m ''status'' = ''XX''"; cases "meta_get m ''status'' = ''TO''"; cases "meta_get m ''status'' = ''SG''";
      cases "meta_get m ''status'' = ''RE''"; simp add: run_status_def Let_def not_less)

lemma classify_ok_time: "rnStatus (classify parse m l cg) = StatusOK \<Longrightarrow> 0 < slCPUTime l \<Longrightarrow> rnCPUTime (classify parse m l cg) \<le> slCPUTime l"
  by (simp add: classify_def Let_def run_status_ok)

lemma Run_end_ok_time:
  "Run_end parse is0 s out = Inr (r, b') \<Longrightarrow> rnStatus r = StatusOK \<Longrightarrow> 0 < slCPUTime (spLimits s) \<Longrightarrow>
   rnCPUTime r \<le> slCPUTime (spLimits s)"
  by (auto simp: Run_end_def Let_def split: if_splits option.splits dest: classify_ok_time)

lemma Run_end_not_sandbox: "Run_end parse is0 s out = Inr (r, b') \<Longrightarrow> rnStatus r \<noteq> StatusSandboxError"
  by (auto simp: Run_end_def Let_def split: if_splits option.splits)

lemma Run_InrD: "Run parse is0 exec i meta s st b = Inr rb \<Longrightarrow> spArgs s \<noteq> [] \<and> (\<exists>out. Run_end parse is0 s out = Inr rb)"
  by (auto simp: Run_def split: if_splits)

text \<open>No name that the box accepts leads out of it.\<close>

lemma components_ne [simp]: "components s \<noteq> []"
  by (induction s) (auto split: list.splits)

lemma components_prefix: "components name = c # cs \<Longrightarrow> prefix c name"
  by (induction name arbitrary: c cs) (auto split: if_splits list.splits)

lemma checkName_inside:
  assumes "checkName name"
  shows "''..'' \<notin> set (components name)"
proof -
  obtain c cs where c: "components name = c # cs" by (cases "components name") auto
  have "c \<noteq> ''..''" using assms components_prefix [OF c] by (auto simp: checkName_def)
  moreover have "clean_relative name" using assms by (simp add: checkName_def)
  ultimately show ?thesis using c by (auto simp: clean_relative_def)
qed

end
