(* ===== verification/Task_Types.thy ===== *)
theory Task_Types
  imports Sandbox Slots Judging Highlight
begin

text \<open>
  The work of a worker (\<^verbatim>\<open>src/internal/tasktypes\<close> and \<^verbatim>\<open>src/internal/worker/executor.go\<close>): how
  each kind of task is compiled and evaluated. What lies outside is a parameter, in the record
  \<open>Worker\<close>: isolate, alone and with several sandboxes at once; the cache of blobs and the store;
  directories inside a box (\<open>wkMkdir\<close>; a box is a map from clean paths to files);
  globbing; the compile seeds and the compilation of managers given as source; the JSON decoder; the
  texts of errors of the system. The outcome of an evaluation is an \<open>fval\<close>, since a testlib checker
  can make it NaN, which the encoding of the result refuses.
\<close>

section \<open>The environment of a job\<close>

text \<open>
  Errors: \<open>Infra\<close> wraps \<^verbatim>\<open>errInfra\<close>, \<open>Crashed\<close> is an error of \<^verbatim>\<open>Box.Run\<close> passed on as it is,
  \<open>Failed\<close> any other one, \<open>Joined\<close> the join of several and \<open>Context\<close> an error with a text before it;
  \<open>WPanic\<close> is an index out of range.
\<close>

datatype worker_error = Infra string | Failed string | Crashed run_error | WPanic | Joined "worker_error list" | Context string worker_error

record Worker =
  wkParse :: "string \<Rightarrow> fval option"
  wkJson :: "string \<Rightarrow> json option"
  wkJsonError :: "string \<Rightarrow> string"
  wkQuote :: "string \<Rightarrow> string"
  wkFileText :: "file_error \<Rightarrow> string"
  wkCheckerText :: "checker_error \<Rightarrow> string"
  wkFetch :: "string \<Rightarrow> (string, string) result"
  wkStore :: "string \<Rightarrow> (string, string \<times> int) result"
  wkBox :: "nat \<Rightarrow> string option"
  wkMkdir :: "string \<Rightarrow> box \<Rightarrow> string option"
  wkClear :: "string option"
  wkBoxID :: "nat \<Rightarrow> int"
  wkMetaPath :: "nat \<Rightarrow> string"
  wkIsolate :: Isolate
  wkExec :: isolate_run
  wkJoint :: "(string list \<times> box) list \<Rightarrow> stage \<Rightarrow> (string list \<times> box) option list"
  wkStageDir :: string
  wkFifoDir :: string
  wkFifos :: "string option"
  wkPipes :: "string option"
  wkSandboxDirs :: "string list"
  wkGlob :: "string \<Rightarrow> string list"
  wkBoxGlob :: "box \<Rightarrow> string \<Rightarrow> (string, string list) result"
  wkSeed :: "Language \<Rightarrow> box \<Rightarrow> (string, box) result"
  wkBuild :: "File \<Rightarrow> File list \<Rightarrow> (worker_error, string) result"
  wkName :: string

definition run_error_text :: "run_error \<Rightarrow> string" where
  "run_error_text e = (case e of EmptyCommand \<Rightarrow> ''sandbox: empty command'' | SandboxError t \<Rightarrow> ''sandbox error: '' @ t)"

fun error_text :: "worker_error \<Rightarrow> string" where
  "error_text (Infra t) = ''worker infrastructure error: '' @ t"
| "error_text (Failed t) = t"
| "error_text (Crashed r) = run_error_text r"
| "error_text WPanic = ''runtime error: index out of range''"
| "error_text (Joined es) = Join [LF] (map error_text es)"
| "error_text (Context t e) = t @ '': '' @ error_text e"

text \<open>\<^verbatim>\<open>errors.Is(err, sandbox.ErrSandbox)\<close>; \<^verbatim>\<open>infra\<close> keeps only the text of what it wraps.\<close>

fun is_sandbox :: "worker_error \<Rightarrow> bool" where
  "is_sandbox (Crashed (SandboxError t)) = True"
| "is_sandbox (Joined es) = list_ex is_sandbox es"
| "is_sandbox (Context t e) = is_sandbox e"
| "is_sandbox _ = False"

definition fetch :: "Worker \<Rightarrow> string \<Rightarrow> (worker_error, string) result" where
  "fetch w digest =
     (case wkFetch w digest of Inl t \<Rightarrow> Inl (Infra (''fetch '' @ digest @ '': '' @ t)) | Inr data \<Rightarrow> Inr data)"

text \<open>\<^verbatim>\<open>CopyIn\<close> and \<^verbatim>\<open>WriteFrom\<close> with the error they are wrapped in.\<close>

definition write_in :: "Worker \<Rightarrow> string \<Rightarrow> string \<Rightarrow> string \<Rightarrow> box \<Rightarrow> (worker_error, box) result" where
  "write_in w what name data b =
     (case create name data b of Inl e \<Rightarrow> Inl (Infra (what @ '': '' @ wkFileText w e)) | Inr b' \<Rightarrow> Inr b')"

text \<open>\<^verbatim>\<open>filepath.Dir\<close> of a clean name.\<close>

definition name_dir :: "string \<Rightarrow> string" where
  "name_dir name = (if CHR ''/'' \<in> set name then path_dir name else ''.'')"

definition put :: "Worker \<Rightarrow> string \<Rightarrow> string \<Rightarrow> box \<Rightarrow> (worker_error, box) result" where
  "put w name digest b =
     bind_result (fetch w digest) (\<lambda>data.
       case (if name_dir name = ''.'' then None else wkMkdir w (name_dir name) b) of
         Some t \<Rightarrow> Inl (Infra (''mkdir '' @ name_dir name @ '': '' @ t))
       | None \<Rightarrow> write_in w (''copy '' @ name @ '' into box'') name data b)"

fun put_files :: "Worker \<Rightarrow> File list \<Rightarrow> box \<Rightarrow> (worker_error, box) result" where
  "put_files w [] b = Inr b"
| "put_files w (f # fs) b = bind_result (put w (fiName f) (fiDigest f) b) (put_files w fs)"

definition stage_file :: "Worker \<Rightarrow> string \<Rightarrow> string \<Rightarrow> stage \<Rightarrow> (worker_error, string \<times> stage) result" where
  "stage_file w name digest st =
     bind_result (fetch w digest) (\<lambda>data.
       case stage_Add data name st of
         Inl e \<Rightarrow> Inl (Infra (''stage '' @ name @ '': '' @ wkFileText w e))
       | Inr st' \<Rightarrow> Inr (stage_Path name, st'))"

definition clear_stage :: "Worker \<Rightarrow> stage \<Rightarrow> (worker_error, stage) result" where
  "clear_stage w st = (case wkClear w of Some t \<Rightarrow> Inl (Infra (''clear stage: '' @ t)) | None \<Rightarrow> Inr (stage_Clear st))"

text \<open>A box of the slot is clean (see theory \<open>Slots\<close>).\<close>

definition clean_box :: "Worker \<Rightarrow> nat \<Rightarrow> (worker_error, box) result" where
  "clean_box w i = (case wkBox w i of Some t \<Rightarrow> Inl (Infra (''prepare box: '' @ t)) | None \<Rightarrow> Inr Map.empty)"

definition DefaultDirs :: "string list" where "DefaultDirs = [''/etc/alternatives'']"

fun unseen :: "string list \<Rightarrow> string list \<Rightarrow> string list" where
  "unseen seen [] = []"
| "unseen seen (p # ps) = (if p \<noteq> [] \<and> p \<notin> set seen then p # unseen (p # seen) ps else unseen seen ps)"

definition dirs :: "Worker \<Rightarrow> Language option \<Rightarrow> Dir list" where
  "dirs w l =
     (let ps = (case l of None \<Rightarrow> [] | Some la \<Rightarrow> DefaultDirs @ lnDirs la) @ wkSandboxDirs w;
          glob = (\<lambda>p. if list_ex (\<lambda>c. c \<in> set ''*?['') p then wkGlob w p else [p])
      in map (\<lambda>p. \<lparr>drInside = p, drOutside = [], drRW = False, drMaybe = True, drNoExec = False\<rparr>) (unseen [] (concat (map glob ps))))"

definition uploadFile :: "Worker \<Rightarrow> box \<Rightarrow> string \<Rightarrow> int \<Rightarrow> (worker_error, File) result" where
  "uploadFile w b name maxSize =
     (case OpenOutput b name of
        Inl e \<Rightarrow> Inl (Failed (wkFileText w e))
      | Inr data \<Rightarrow>
          if maxSize < int (length data) then Inl (Failed (name @ '' is too large ('' @ Itoa (int (length data)) @ '' bytes)''))
          else (case wkStore w data of
                  Inl t \<Rightarrow> Inl (Infra (''upload '' @ name @ '': '' @ t))
                | Inr (digest, sz) \<Rightarrow> Inr \<lparr>fiName = name, fiDigest = digest, fiSize = sz\<rparr>))"

definition upload :: "Worker \<Rightarrow> box \<Rightarrow> string \<Rightarrow> int \<Rightarrow> (worker_error, string) result" where
  "upload w b name maxSize = bind_result (uploadFile w b name maxSize) (\<lambda>f. Inr (fiDigest f))"

definition millisecond :: duration where "millisecond = 1000000"

definition WallLimit :: "int \<Rightarrow> int \<Rightarrow> duration" where
  "WallLimit timeMs wallMs =
     (if 0 < wallMs then dmul wallMs millisecond
      else if timeMs \<le> 0 then 0
      else (let tl = dmul timeMs millisecond in max (dmul 2 tl) (dadd tl second)))"

section \<open>Messages\<close>

definition compilerOutputLimit :: nat where "compilerOutputLimit = 65536"
definition maxExecutableSize :: int where "maxExecutableSize = 256 * 2 ^ 20"
definition compileStdout :: string where "compileStdout = ''.compile.out''"
definition compileStderr :: string where "compileStderr = ''.compile.err''"
definition runStdout :: string where "runStdout = ''.stdout''"

definition MsgCompilationSucceeded :: string where "MsgCompilationSucceeded = ''Compilation succeeded''"
definition MsgCompilationFailed :: string where "MsgCompilationFailed = ''Compilation failed''"
definition MsgCompilationTimeout :: string where "MsgCompilationTimeout = ''Compilation timed out''"
definition MsgCompilationMemory :: string where "MsgCompilationMemory = ''Compilation exceeded the memory limit''"
definition MsgCompilationOutput :: string where "MsgCompilationOutput = ''Compilation produced too much output''"
definition MsgCompilationSecurity :: string where "MsgCompilationSecurity = ''Compilation stopped: forbidden system call''"
definition MsgTimeout :: string where "MsgTimeout = ''Execution timed out''"
definition MsgWallTimeout :: string where "MsgWallTimeout = ''Execution timed out (wall clock limit exceeded)''"
definition MsgMemory :: string where "MsgMemory = ''Memory limit exceeded''"
definition MsgOutputLimit :: string where "MsgOutputLimit = ''Output limit exceeded''"
definition MsgSecurity :: string where "MsgSecurity = ''Security violation: the program made a forbidden system call''"
definition MsgNonZero :: string where "MsgNonZero = ''Execution failed because the return code was nonzero''"
definition MsgExecutionOK :: string where "MsgExecutionOK = ''Execution completed successfully''"

definition MsgSignal :: "int \<Rightarrow> string" where
  "MsgSignal n = ''Execution killed by signal '' @ Itoa n"

definition MsgMissingOutput :: "string \<Rightarrow> string" where
  "MsgMissingOutput f = ''Evaluation didn'' @ [CHR 0x27] @ ''t produce file '' @ f"

definition executionText :: "Run \<Rightarrow> string" where
  "executionText r =
     (let s = rnStatus r
      in if s = StatusTimeout then MsgTimeout
         else if s = StatusWallTimeout then MsgWallTimeout
         else if s = StatusMemory then MsgMemory
         else if s = StatusOutputLimit then MsgOutputLimit
         else if s = StatusSecurity then MsgSecurity
         else if s = StatusSignal then MsgSignal (rnSignal r)
         else if s = StatusNonZero then MsgNonZero
         else MsgExecutionOK)"

text \<open>\<^verbatim>\<open>strings.ToValidUTF8\<close> with the replacement character: one for each run of invalid bytes.\<close>

definition invalid_head :: "string \<Rightarrow> bool" where
  "invalid_head s \<longleftrightarrow> s \<noteq> [] \<and> 128 \<le> (of_char (hd s) :: nat) \<and> rune_len s = 1"

function to_valid :: "bool \<Rightarrow> string \<Rightarrow> string" where
  "to_valid bad s =
     (if s = [] then []
      else if invalid_head s then (if bad then [] else [CHR 0xEF, CHR 0xBF, CHR 0xBD]) @ to_valid True (tl s)
      else take (rune_len s) s @ to_valid False (drop (rune_len s) s))"
  by pat_completeness auto
termination by (relation "measure (\<lambda>(bad, s). length s)") (auto simp: rune_len_pos)

declare to_valid.simps [simp del]

function ValidString :: "string \<Rightarrow> bool" where
  "ValidString s = (if s = [] then True else if invalid_head s then False else ValidString (drop (rune_len s) s))"
  by pat_completeness auto
termination by (relation "measure length") (auto simp: rune_len_pos)

declare ValidString.simps [simp del]

definition sanitize :: "string \<Rightarrow> bool \<Rightarrow> string" where
  "sanitize b truncated = to_valid False b @ (if truncated then LF # ''[output truncated]'' else [])"

function cut_invalid :: "string \<Rightarrow> string" where
  "cut_invalid s = (if ValidString s \<or> s = [] then s else cut_invalid (butlast s))"
  by pat_completeness auto
termination by (relation "measure length") auto

declare cut_invalid.simps [simp del]

definition truncateUTF8 :: "string \<Rightarrow> nat \<Rightarrow> string" where
  "truncateUTF8 s n = (if length s \<le> n then s else cut_invalid (take n s) @ LF # ''[output truncated]'')"

section \<open>Compilation\<close>

record sourceSet =
  ssLang :: Language
  ssUser :: "File list"
  ssManagers :: "File list"
  ssGrader :: string

definition stem :: "string \<Rightarrow> string" where
  "stem name = take (length name - length (Ext name)) name"

definition src_main :: "sourceSet \<Rightarrow> string" where
  "src_main s =
     (if ssGrader s \<noteq> [] then stem (ssGrader s)
      else (case find (\<lambda>f. IsSource (ssLang s) (fiName f)) (ssUser s) of
              Some f \<Rightarrow> stem (fiName f)
            | None \<Rightarrow> (case ssUser s of f # _ \<Rightarrow> stem (fiName f) | [] \<Rightarrow> ''main'')))"

definition src_list :: "sourceSet \<Rightarrow> string list" where
  "src_list s = opt (ssGrader s \<noteq> []) (ssGrader s) @ filter (IsSource (ssLang s)) (map fiName (ssUser s))"

text \<open>Of several managers of the grader's name the last one counts, of several extensions the first.\<close>

fun find_grader :: "string \<Rightarrow> File list \<Rightarrow> string list \<Rightarrow> string" where
  "find_grader base ms [] = []"
| "find_grader base ms (e # es) =
     (if base @ e \<in> fiName ` set ms \<and> base @ e \<noteq> [] then base @ e else find_grader base ms es)"

definition newSourceSet :: "Language \<Rightarrow> File list \<Rightarrow> File list \<Rightarrow> bool \<Rightarrow> string \<Rightarrow> (worker_error, sourceSet) result" where
  "newSourceSet lang user managers withGrader base0 =
     (let ms = filter (\<lambda>m. IsHeader lang (fiName m) \<or> IsSource lang (fiName m)) managers;
          base = (if base0 = [] then ''grader'' else base0);
          g = (if withGrader then find_grader base ms (lnSourceExtensions lang) else [])
      in if withGrader \<and> g = [] then Inl (Failed (''no '' @ base @ '' grader for language '' @ lnID lang))
         else Inr \<lparr>ssLang = lang, ssUser = user, ssManagers = ms, ssGrader = g\<rparr>)"

text \<open>The files of the contestant: \<open>Inl\<close> is the first name that the task reserves.\<close>

fun put_user :: "Worker \<Rightarrow> string list \<Rightarrow> File list \<Rightarrow> box \<Rightarrow> (worker_error, (string, box) result) result" where
  "put_user w names [] b = Inr (Inr b)"
| "put_user w names (f # fs) b =
     (if fiName f \<in> set names then Inr (Inl (fiName f))
      else bind_result (put w (fiName f) (fiDigest f) b) (put_user w names fs))"

definition new_compilation :: "bool \<Rightarrow> string \<Rightarrow> Compilation" where
  "new_compilation ok text = \<lparr>coSuccess = ok, coText = text, coStdout = [], coStderr = [], coTime = 0, coWallTime = 0,
     coMemory = 0, coExecutables = [], coSecurity = False\<rparr>"

definition compile_limits :: "Worker \<Rightarrow> Language \<Rightarrow> RunLimits" where
  "compile_limits w lang =
     (let cl = lnCompileLimits lang
      in \<lparr>slCPUTime = clTime cl, slWallTime = dadd (dmul 2 (clTime cl)) second,
          slMemory = (if \<not> isCG (wkIsolate w) \<and> lnNoAddressSpaceLimit lang then 0 else clMemory cl), slStack = 0,
          slProcesses = clProcesses cl, slFileSize = clOutput cl, slOpenFiles = 512\<rparr>)"

definition no_spec :: Spec where
  "no_spec = \<lparr>spArgs = [], spStdin = [], spStdout = [], spStderr = [], spStderrToStdout = False, spEnv = [], spDirs = [],
     spLimits = \<lparr>slCPUTime = 0, slWallTime = 0, slMemory = 0, slStack = 0, slProcesses = 0, slFileSize = 0, slOpenFiles = 0\<rparr>,
     spShareNet = False, spNoSeccomp = False, spStdinFile = False, spStdoutFile = False\<rparr>"

definition box_run :: "Worker \<Rightarrow> nat \<Rightarrow> Spec \<Rightarrow> stage \<Rightarrow> box \<Rightarrow> (run_error, Run \<times> box) result" where
  "box_run w i = Run (wkParse w) (wkIsolate w) (wkExec w) (wkBoxID w i) (wkMetaPath w i)"

definition compiler_output :: "box \<Rightarrow> string \<Rightarrow> string list" where
  "compiler_output b name =
     (case ReadFile b name compilerOutputLimit of
        Inr (out, trunc) \<Rightarrow> if out = [] then [] else [sanitize out trunc]
      | Inl _ \<Rightarrow> [])"

definition compile_failed :: "Run \<Rightarrow> Compilation \<Rightarrow> Compilation" where
  "compile_failed r c =
     (let s = rnStatus r
      in c\<lparr>coSuccess := False, coSecurity := (s = StatusSecurity),
           coText := (if s = StatusTimeout \<or> s = StatusWallTimeout then MsgCompilationTimeout
                      else if s = StatusMemory then MsgCompilationMemory
                      else if s = StatusOutputLimit then MsgCompilationOutput
                      else if s = StatusSecurity then MsgCompilationSecurity
                      else MsgCompilationFailed)\<rparr>)"

fun compile_steps :: "Worker \<Rightarrow> nat \<Rightarrow> Language \<Rightarrow> Vars \<Rightarrow> string list list \<Rightarrow> Compilation \<times> string list \<times> string list \<times> box \<Rightarrow>
    (worker_error, Compilation \<times> string list \<times> string list \<times> box) result" where
  "compile_steps w i lang v [] st = Inr st"
| "compile_steps w i lang v (tmpl # ts) (c, outs, errs, b) =
     (case box_run w i (no_spec\<lparr>spArgs := Expand tmpl v, spStdout := compileStdout, spStderr := compileStderr, spEnv := EnvList lang,
             spDirs := dirs w (Some lang), spLimits := compile_limits w lang\<rparr>) Map.empty b of
        Inl e \<Rightarrow> Inl (Infra (''compile: '' @ run_error_text e))
      | Inr (r, b1) \<Rightarrow>
          (let c1 = c\<lparr>coTime := coTime c + Seconds (rnCPUTime r), coWallTime := coWallTime c + Seconds (rnWallTime r),
                      coMemory := max (coMemory c) (rnMemory r)\<rparr>;
               outs1 = outs @ compiler_output b1 compileStdout; errs1 = errs @ compiler_output b1 compileStderr;
               b2 = b1(compileStdout := None, compileStderr := None)
           in if rnStatus r \<noteq> StatusOK then Inr (compile_failed r c1, outs1, errs1, b2)
              else compile_steps w i lang v ts (c1, outs1, errs1, b2)))"

fun add_artifacts :: "box \<Rightarrow> string list \<Rightarrow> string list \<Rightarrow> string list" where
  "add_artifacts b out [] = out"
| "add_artifacts b out (n # ns) =
     add_artifacts b (case OpenOutput b n of Inr _ \<Rightarrow> if n \<in> set out then out else out @ [n] | Inl _ \<Rightarrow> out) ns"

fun keep_artifacts :: "Worker \<Rightarrow> box \<Rightarrow> string list \<Rightarrow> string list \<Rightarrow> (string, string list) result" where
  "keep_artifacts w b out [] = Inr out"
| "keep_artifacts w b out (pat # pats) =
     bind_result (wkBoxGlob w b pat) (\<lambda>ms.
       keep_artifacts w b (add_artifacts b out (filter (\<lambda>m. \<not> prefix ''.'' m) (stable_sort (<) ms))) pats)"

definition collectArtifacts :: "Worker \<Rightarrow> box \<Rightarrow> Language \<Rightarrow> string \<Rightarrow> (string, string list) result" where
  "collectArtifacts w b lang exe =
     (case add_artifacts b [] [exe] of [] \<Rightarrow> Inr [] | out \<Rightarrow> keep_artifacts w b out (lnKeepFiles lang))"

fun upload_artifacts :: "Worker \<Rightarrow> box \<Rightarrow> string list \<Rightarrow> Compilation \<Rightarrow> (worker_error, Compilation) result" where
  "upload_artifacts w b [] c = Inr c"
| "upload_artifacts w b (n # ns) c =
     (case uploadFile w b n maxExecutableSize of
        Inl (Failed t) \<Rightarrow> Inr (c\<lparr>coSuccess := False, coText := MsgCompilationFailed, coStderr := TrimSpace (coStderr c @ LF # t)\<rparr>)
      | Inl e \<Rightarrow> Inl e
      | Inr f \<Rightarrow> upload_artifacts w b ns (c\<lparr>coExecutables := coExecutables c @ [f]\<rparr>))"

definition finish_compile :: "Worker \<Rightarrow> Language \<Rightarrow> string \<Rightarrow> Compilation \<times> string list \<times> string list \<times> box \<Rightarrow> (worker_error, Compilation) result" where
  "finish_compile w lang exe = (\<lambda>(c0, outs, errs, b).
     (let c = c0\<lparr>coStdout := truncateUTF8 (Join [LF] outs) compilerOutputLimit, coStderr := truncateUTF8 (Join [LF] errs) compilerOutputLimit\<rparr>
      in if \<not> coSuccess c then Inr c
         else (case collectArtifacts w b lang exe of
                 Inl t \<Rightarrow> Inl (Infra (''collect artifacts: '' @ t))
               | Inr names \<Rightarrow>
                   if names = [] \<or> hd names \<noteq> exe
                   then Inr (c\<lparr>coSuccess := False, coText := MsgCompilationFailed,
                               coStderr := TrimSpace (coStderr c @ LF # ''the compiler did not produce '' @ exe)\<rparr>)
                   else upload_artifacts w b names c)))"

definition compile :: "Worker \<Rightarrow> nat \<Rightarrow> box \<Rightarrow> sourceSet \<Rightarrow> (worker_error, Compilation) result" where
  "compile w i b0 s =
     bind_result (put_files w (ssManagers s) b0) (\<lambda>b1.
     bind_result (put_user w (map fiName (ssManagers s)) (ssUser s) b1) (\<lambda>u.
       case u of
         Inl name \<Rightarrow> Inr ((new_compilation False MsgCompilationFailed)\<lparr>coStderr := ''the file name '' @ name @ '' is reserved by the task''\<rparr>)
       | Inr b2 \<Rightarrow>
           (case wkSeed w (ssLang s) b2 of
              Inl t \<Rightarrow> Inl (Infra (''copy compile seed: '' @ t))
            | Inr b3 \<Rightarrow>
                (case ExecutableName (ssLang s) (src_main s) of
                   None \<Rightarrow> Inl WPanic
                 | Some exe \<Rightarrow>
                     bind_result
                       (compile_steps w i (ssLang s)
                          \<lparr>vSources = src_list s, vMain = src_main s, vMainSource = (case src_list s of [] \<Rightarrow> [] | x # _ \<Rightarrow> x), vExecutable = exe, vMemory = 0\<rparr>
                          (lnCompile (ssLang s)) (new_compilation True MsgCompilationSucceeded, [], [], b3))
                       (finish_compile w (ssLang s) exe)))))"

section \<open>Running the contestant's program\<close>

record runOptions =
  roLang :: Language
  roExecutables :: "File list"
  roMain :: string
  roLimits :: Limits
  roStdin :: string
  roStdout :: string
  roStderr :: string
  roArgs :: "string list"
  roDirs :: "Dir list"
  roNoExecCopy :: bool
  roPipes :: bool

definition program_limits :: "Worker \<Rightarrow> runOptions \<Rightarrow> RunLimits" where
  "program_limits w o1 =
     (let l = roLimits o1; mem = (if \<not> isCG (wkIsolate w) \<and> lnNoAddressSpaceLimit (roLang o1) then 0 else liMemoryBytes l)
      in \<lparr>slCPUTime = dmul (liTimeMs l) millisecond, slWallTime = WallLimit (liTimeMs l) (liWallTimeMs l), slMemory = mem, slStack = mem,
          slProcesses = max (max (liProcesses l) (lnRunProcesses (roLang o1))) 1, slFileSize = liOutputBytes l, slOpenFiles = 64\<rparr>)"

definition run_spec :: "Worker \<Rightarrow> runOptions \<Rightarrow> Spec option" where
  "run_spec w o1 =
     (case ExecutableName (roLang o1) (roMain o1) of
        None \<Rightarrow> None
      | Some exe \<Rightarrow>
          Some (no_spec\<lparr>spArgs := Expand (lnRun (roLang o1))
                    \<lparr>vSources = [], vMain = roMain o1, vMainSource = [], vExecutable = exe, vMemory = liMemoryBytes (roLimits o1)\<rparr> @ roArgs o1,
                  spStdin := roStdin o1, spStdout := roStdout o1, spStderr := roStderr o1, spEnv := EnvList (roLang o1),
                  spDirs := dirs w (Some (roLang o1)) @ roDirs o1, spLimits := program_limits w o1,
                  spStdinFile := roPipes o1, spStdoutFile := roPipes o1\<rparr>))"

text \<open>Without control groups the memory limit is enforced on the measured peak.\<close>

definition enforce_memory :: "int \<Rightarrow> Run \<Rightarrow> Run" where
  "enforce_memory mem r =
     (if 0 < mem \<and> mem < rnMemory r \<and> rnStatus r \<noteq> StatusTimeout \<and> rnStatus r \<noteq> StatusWallTimeout
      then r\<lparr>rnStatus := StatusMemory\<rparr> else r)"

definition run_done :: "runOptions \<Rightarrow> (run_error, Run \<times> box) result \<Rightarrow> (worker_error, Run \<times> box) result" where
  "run_done o1 res =
     (case res of
        Inl e \<Rightarrow> Inl (Infra (''run: '' @ run_error_text e))
      | Inr (r, b) \<Rightarrow> Inr (enforce_memory (liMemoryBytes (roLimits o1)) r, b))"

definition run :: "Worker \<Rightarrow> nat \<Rightarrow> stage \<Rightarrow> box \<Rightarrow> runOptions \<Rightarrow> (worker_error, Run \<times> box) result" where
  "run w i st b o1 =
     bind_result (if roNoExecCopy o1 then Inr b else put_files w (roExecutables o1) b) (\<lambda>b1.
       case run_spec w o1 of None \<Rightarrow> Inl WPanic | Some s \<Rightarrow> run_done o1 (box_run w i s st b1))"

text \<open>Sandboxes that run at the same time, connected by pipes.\<close>

definition joint_run :: "Worker \<Rightarrow> (nat \<times> Spec \<times> box) list \<Rightarrow> stage \<Rightarrow> (run_error, Run \<times> box) result list" where
  "joint_run w ps st =
     (let outs = wkJoint w (map (\<lambda>(i, s, b). (args (wkIsolate w) (wkBoxID w i) (wkMetaPath w i) s, b)) ps) st
      in map (\<lambda>k. let s = fst (snd (ps ! k))
                  in if spArgs s = [] then Inl EmptyCommand
                     else Run_end (wkParse w) (wkIsolate w) s (if k < length outs then outs ! k else None)) [0..<length ps])"

definition evaluationFromRun :: "JobTestcase \<Rightarrow> Run \<Rightarrow> Evaluation" where
  "evaluationFromRun tc r = \<lparr>evTestcaseID = jtID tc, evCodename = jtCodename tc, evOutcome = 0, evText = [],
     evTime = Seconds (rnCPUTime r), evWallTime = Seconds (rnWallTime r), evMemory = rnMemory r,
     evExitStatus = rnStatus r, evExitCode = rnExitCode r, evSignal = rnSignal r\<rparr>"

text \<open>An evaluation with its outcome; \<open>evOutcome\<close> is set when the result is encoded.\<close>

type_synonym weval = "Evaluation \<times> fval"

definition failed_run :: "Run \<Rightarrow> Evaluation \<Rightarrow> weval" where
  "failed_run r ev = (ev\<lparr>evText := executionText r\<rparr>, Fin 0)"

definition scored :: "Outcome \<Rightarrow> Evaluation \<Rightarrow> weval" where
  "scored x ev = (ev\<lparr>evText := ocMessage x\<rparr>, ocScore x)"

definition base_options :: "Job \<Rightarrow> Language \<Rightarrow> string \<Rightarrow> runOptions" where
  "base_options job lang main = \<lparr>roLang = lang, roExecutables = jbExecutables job, roMain = main, roLimits = jbLimits job, roStdin = [],
     roStdout = [], roStderr = [], roArgs = [], roDirs = [], roNoExecCopy = False, roPipes = False\<rparr>"

definition user_run :: "Run \<Rightarrow> UserTestRun" where
  "user_run r = \<lparr>utOutput = [], utText = executionText r, utTime = Seconds (rnCPUTime r), utWallTime = Seconds (rnWallTime r),
     utMemory = rnMemory r, utExitStatus = rnStatus r\<rparr>"

section \<open>Checkers\<close>

record CheckerParams =
  cpChecker :: string
  cpFloatAbsTol :: f64
  cpFloatRelTol :: f64
  cpTimeLimitMs :: int
  cpMemoryBytes :: int

definition custom :: "CheckerParams \<Rightarrow> bool" where
  "custom p \<longleftrightarrow> cpChecker p = ''custom'' \<or> cpChecker p = ''testlib''"

text \<open>The managers up to one of that name: that one, or the last source and the headers.\<close>

fun find_manager :: "string \<Rightarrow> File list \<Rightarrow> File option \<Rightarrow> File list \<Rightarrow> File + File option \<times> File list" where
  "find_manager name [] src headers = Inr (src, headers)"
| "find_manager name (m # ms) src headers =
     (if fiName m = name then Inl m
      else if fiName m = name @ ''.cpp'' \<or> fiName m = name @ ''.cc'' \<or> fiName m = name @ ''.c'' then find_manager name ms (Some m) headers
      else if Ext (fiName m) = ''.h'' \<or> Ext (fiName m) = ''.hpp'' then find_manager name ms src (headers @ [m])
      else find_manager name ms src headers)"

definition managerExecutable :: "Worker \<Rightarrow> Job \<Rightarrow> string \<Rightarrow> (worker_error, string) result" where
  "managerExecutable w job name =
     (case find_manager name (jbManagers job) None [] of
        Inl m \<Rightarrow> fetch w (fiDigest m)
      | Inr (None, _) \<Rightarrow> Inl (Failed (''dataset has no '' @ wkQuote w name @ '' manager (binary, .c or .cpp source)''))
      | Inr (Some src, headers) \<Rightarrow> wkBuild w src headers)"

definition checker_spec :: "Worker \<Rightarrow> CheckerParams \<Rightarrow> string \<Rightarrow> string \<Rightarrow> Spec" where
  "checker_spec w p input correct =
     (let t = dmul (cpTimeLimitMs p) millisecond; tl = (if t \<le> 0 then 10 * second else t);
          mem = (if cpMemoryBytes p \<le> 0 then 2 ^ 30 else cpMemoryBytes p)
      in no_spec\<lparr>spArgs := (if cpChecker p = ''testlib'' then [''./checker'', input, ''contestant'', correct]
                           else [''./checker'', input, correct, ''contestant'']),
           spStdout := ''.checker.out'', spStderr := ''.checker.err'', spEnv := [''PATH=/usr/bin:/bin''], spDirs := [stage_Dir (wkStageDir w)],
           spLimits := \<lparr>slCPUTime = tl, slWallTime = dadd (dmul 2 tl) second, slMemory = mem, slStack = 0, slProcesses = 1,
             slFileSize = 16 * 2 ^ 20, slOpenFiles = 0\<rparr>\<rparr>)"

definition read_text :: "box \<Rightarrow> string \<Rightarrow> string" where
  "read_text b name = (case ReadFile b name 65536 of Inr (data, _) \<Rightarrow> data | Inl _ \<Rightarrow> [])"

definition checker_outcome :: "Worker \<Rightarrow> (checker_error, Outcome) result \<Rightarrow> (worker_error, Outcome) result" where
  "checker_outcome w r = (case r of Inl e \<Rightarrow> Inl (Failed (wkCheckerText w e)) | Inr x \<Rightarrow> Inr x)"

definition checker_verdict :: "Worker \<Rightarrow> CheckerParams \<Rightarrow> Run \<Rightarrow> box \<Rightarrow> (worker_error, Outcome) result" where
  "checker_verdict w p r b =
     (let stdout = read_text b ''.checker.out''; stderr = read_text b ''.checker.err''
      in if cpChecker p = ''testlib'' then
           (if rnStatus r \<noteq> StatusOK \<and> rnStatus r \<noteq> StatusNonZero then Inl (Failed (''checker failed: '' @ executionText r))
            else checker_outcome w (ParseTestlib (wkParse w) (rnExitCode r) stderr))
         else if rnStatus r \<noteq> StatusOK then Inl (Failed (''checker failed: '' @ executionText r @ '': '' @ stderr))
         else checker_outcome w (ParseCMSChecker (wkParse w) stdout stderr))"

definition runChecker :: "Worker \<Rightarrow> Job \<Rightarrow> CheckerParams \<Rightarrow> JobTestcase \<Rightarrow> stage \<Rightarrow> box \<Rightarrow> string \<Rightarrow> (worker_error, Outcome) result" where
  "runChecker w job p tc st0 progBox outp =
     bind_result (managerExecutable w job ''checker'') (\<lambda>exe.
       case OpenOutput progBox outp of
         Inl e \<Rightarrow> Inl (Infra (''open contestant output: '' @ wkFileText w e))
       | Inr src \<Rightarrow>
           bind_result (clean_box w 1) (\<lambda>b0.
           bind_result (write_in w ''copy checker'' ''checker'' exe b0) (\<lambda>b1.
           bind_result (write_in w ''copy output'' ''contestant'' src b1) (\<lambda>b2.
           bind_result (clear_stage w st0) (\<lambda>st1.
           bind_result (stage_file w ''input'' (jtInput tc) st1) (\<lambda>(input, st2).
           bind_result (stage_file w ''correct'' (jtOutput tc) st2) (\<lambda>(correct, st3).
             case box_run w 1 (checker_spec w p input correct) st3 b2 of
               Inl e \<Rightarrow> Inl (Infra (''run checker: '' @ run_error_text e))
             | Inr (r, b3) \<Rightarrow> checker_verdict w p r b3)))))))"

text \<open>The comparators always end (see theory \<open>Checkers\<close>); the \<^const>\<open>None\<close> of \<open>Compare\<close> never occurs.\<close>

definition check :: "Worker \<Rightarrow> Job \<Rightarrow> CheckerParams \<Rightarrow> JobTestcase \<Rightarrow> stage \<Rightarrow> box \<Rightarrow> string \<Rightarrow> (worker_error, Outcome) result" where
  "check w job p tc st b outp =
     (if \<not> custom p then
        bind_result (fetch w (jtOutput tc)) (\<lambda>expected.
          case OpenOutput b outp of
            Inl e \<Rightarrow> Inl (Infra (''open contestant output: '' @ wkFileText w e))
          | Inr actual \<Rightarrow>
              (case Compare (wkParse w) (cpChecker p) (expected, None) (actual, None) \<lparr>AbsTol = cpFloatAbsTol p, RelTol = cpFloatRelTol p\<rparr> of
                 Some (Inr x) \<Rightarrow> Inr x
               | Some (Inl e) \<Rightarrow> Inl (Failed (''compare: '' @ e))
               | None \<Rightarrow> Inl (Failed ''compare'')))
      else runChecker w job p tc st b outp)"

section \<open>Parameters\<close>

fun to_bool :: "json \<Rightarrow> bool option" where
  "to_bool JNull = Some False"
| "to_bool (JBool b) = Some b"
| "to_bool _ = None"

definition jget :: "(json \<Rightarrow> 'a option) \<Rightarrow> 'a \<Rightarrow> string \<Rightarrow> (string \<times> json) list \<Rightarrow> 'a option" where
  "jget conv zero name kvs = (case field name kvs of None \<Rightarrow> Some zero | Some j \<Rightarrow> conv j)"

text \<open>Decoding of a document into a structure; an empty document and \<^verbatim>\<open>null\<close> leave it as it is.\<close>

definition decoded :: "Worker \<Rightarrow> string \<Rightarrow> string \<Rightarrow> ((string \<times> json) list \<Rightarrow> 'a option) \<Rightarrow> (worker_error, 'a) result" where
  "decoded w what raw dec =
     (let fields = (if raw = [] then Some []
                    else (case wkJson w raw of Some (JObj kvs) \<Rightarrow> Some kvs | Some JNull \<Rightarrow> Some [] | _ \<Rightarrow> None))
      in case Option.bind fields dec of
           None \<Rightarrow> Inl (Failed (''invalid '' @ what @ '' parameters: '' @ wkJsonError w raw))
         | Some p \<Rightarrow> Inr p)"

definition decode_checker :: "(string \<times> json) list \<Rightarrow> CheckerParams option" where
  "decode_checker kvs =
     Option.bind (jget to_string [] ''checker'' kvs) (\<lambda>c.
     Option.bind (jget to_float 0 ''float_abs_tol'' kvs) (\<lambda>a.
     Option.bind (jget to_float 0 ''float_rel_tol'' kvs) (\<lambda>r.
     Option.bind (jget to_int 0 ''checker_time_limit_ms'' kvs) (\<lambda>t.
     Option.bind (jget to_int 0 ''checker_memory_bytes'' kvs) (\<lambda>m.
       Some \<lparr>cpChecker = c, cpFloatAbsTol = a, cpFloatRelTol = r, cpTimeLimitMs = t, cpMemoryBytes = m\<rparr>)))))"

section \<open>Batch\<close>

record BatchParams =
  bpCompilation :: string
  bpInputFile :: string
  bpOutputFile :: string
  bpChecker :: CheckerParams

definition decode_batch :: "(string \<times> json) list \<Rightarrow> BatchParams option" where
  "decode_batch kvs =
     Option.bind (jget to_string [] ''compilation'' kvs) (\<lambda>c.
     Option.bind (jget to_string [] ''input_file'' kvs) (\<lambda>i.
     Option.bind (jget to_string [] ''output_file'' kvs) (\<lambda>u.
     Option.bind (decode_checker kvs) (\<lambda>cp.
       Some \<lparr>bpCompilation = c, bpInputFile = i, bpOutputFile = u, bpChecker = cp\<rparr>))))"

definition parseBatch :: "Worker \<Rightarrow> string \<Rightarrow> (worker_error, BatchParams) result" where
  "parseBatch w raw =
     bind_result (decoded w ''Batch'' raw decode_batch) (\<lambda>p0.
       let p = (if bpCompilation p0 = [] then p0\<lparr>bpCompilation := ''alone''\<rparr> else p0)
       in if bpCompilation p \<noteq> ''alone'' \<and> bpCompilation p \<noteq> ''grader''
          then Inl (Failed (''invalid Batch compilation '' @ wkQuote w (bpCompilation p))) else Inr p)"

definition with_language :: "string \<Rightarrow> Job \<Rightarrow> (Language \<Rightarrow> (worker_error, sourceSet) result) \<Rightarrow> (worker_error, sourceSet) result" where
  "with_language what job f =
     (case jbLanguage job of None \<Rightarrow> Inl (Failed (what @ '' submissions need a language'')) | Some l \<Rightarrow> f l)"

definition Batch_sources :: "Job \<Rightarrow> BatchParams \<Rightarrow> (worker_error, sourceSet) result" where
  "Batch_sources job p =
     with_language ''Batch'' job (\<lambda>l. newSourceSet l (jbFiles job) (jbManagers job) (bpCompilation p = ''grader'') ''grader'')"

text \<open>The compilation of a source set in a clean box, as every task type with sources does it.\<close>

definition compile_sources :: "Worker \<Rightarrow> (worker_error, sourceSet) result \<Rightarrow> (worker_error, Compilation) result" where
  "compile_sources w srcs = bind_result srcs (\<lambda>s. bind_result (clean_box w 0) (\<lambda>b. compile w 0 b s))"

definition Batch_Compile :: "Worker \<Rightarrow> Job \<Rightarrow> (worker_error, Compilation) result" where
  "Batch_Compile w job = bind_result (parseBatch w (jbTaskTypeParams job)) (\<lambda>p. compile_sources w (Batch_sources job p))"

text \<open>The box, the run and the name of the output; the stage holds the input if it is read from there.\<close>

definition Batch_execute :: "Worker \<Rightarrow> Job \<Rightarrow> BatchParams \<Rightarrow> string \<Rightarrow> (worker_error, box \<times> Run \<times> string) result" where
  "Batch_execute w job p input =
     bind_result (Batch_sources job p) (\<lambda>s.
     bind_result (clean_box w 0) (\<lambda>b0.
     bind_result (clear_stage w Map.empty) (\<lambda>st0.
       let outp = (if bpOutputFile p = [] then runStdout else bpOutputFile p);
           o1 = (base_options job (ssLang s) (src_main s))\<lparr>roStdout := (if bpOutputFile p = [] then runStdout else [])\<rparr>;
           res = (if bpInputFile p = []
                  then bind_result (stage_file w ''input'' input st0) (\<lambda>(path, st1).
                         run w 0 st1 b0 (o1\<lparr>roStdin := path, roDirs := [stage_Dir (wkStageDir w)]\<rparr>))
                  else bind_result (put w (bpInputFile p) input b0) (\<lambda>b1. run w 0 Map.empty b1 o1))
       in bind_result res (\<lambda>(r, b). Inr (b, r, outp)))))"

definition Batch_Evaluate :: "Worker \<Rightarrow> Job \<Rightarrow> JobTestcase \<Rightarrow> (worker_error, weval) result" where
  "Batch_Evaluate w job tc =
     bind_result (parseBatch w (jbTaskTypeParams job)) (\<lambda>p.
     bind_result (Batch_execute w job p (jtInput tc)) (\<lambda>(b, r, outp).
       let ev = evaluationFromRun tc r
       in if rnStatus r \<noteq> StatusOK then Inr (failed_run r ev)
          else (case OpenOutput b outp of
                  Inl e \<Rightarrow>
                    if e = NotExist \<or> e = UnsafeFile then Inr (ev\<lparr>evText := MsgMissingOutput (bpOutputFile p)\<rparr>, Fin 0)
                    else Inl (Infra (''open output: '' @ wkFileText w e))
                | Inr _ \<Rightarrow> bind_result (check w job (bpChecker p) tc Map.empty b outp) (\<lambda>x. Inr (scored x ev)))))"

text \<open>The output of a user test: an upload that fails for another reason than the infrastructure leaves it empty.\<close>

definition with_output :: "UserTestRun \<Rightarrow> (worker_error, string) result \<Rightarrow> (worker_error, UserTestRun) result" where
  "with_output x u = (case u of Inr d \<Rightarrow> Inr (x\<lparr>utOutput := d\<rparr>) | Inl (Infra t) \<Rightarrow> Inl (Infra t) | Inl _ \<Rightarrow> Inr x)"

type_synonym user_outcome = "(worker_error, Compilation \<times> UserTestRun option) result"

text \<open>A user test compiles first and runs what was compiled.\<close>

definition after_compile :: "(worker_error, Compilation) result \<Rightarrow> Job \<Rightarrow> (Job \<Rightarrow> (worker_error, UserTestRun) result) \<Rightarrow> user_outcome" where
  "after_compile c job f =
     bind_result c (\<lambda>comp. if \<not> coSuccess comp then Inr (comp, None)
       else bind_result (f (job\<lparr>jbExecutables := coExecutables comp\<rparr>)) (\<lambda>x. Inr (comp, Some x)))"

definition Batch_UserTest :: "Worker \<Rightarrow> Job \<Rightarrow> user_outcome" where
  "Batch_UserTest w job =
     bind_result (parseBatch w (jbTaskTypeParams job)) (\<lambda>p.
       after_compile (Batch_Compile w job) job (\<lambda>j.
         bind_result (Batch_execute w j p (jbInput job)) (\<lambda>(b, r, outp).
           with_output (user_run r)
             (upload w b outp (if liOutputBytes (jbLimits job) \<le> 0 then 64 * 2 ^ 20 else liOutputBytes (jbLimits job))))))"

section \<open>Output only\<close>

record OutputOnlyParams =
  opOutputPattern :: string
  opMergePrevious :: bool
  opChecker :: CheckerParams

definition decode_outputonly :: "(string \<times> json) list \<Rightarrow> OutputOnlyParams option" where
  "decode_outputonly kvs =
     Option.bind (jget to_string [] ''output_pattern'' kvs) (\<lambda>c.
     Option.bind (jget to_bool False ''merge_previous'' kvs) (\<lambda>m.
     Option.bind (decode_checker kvs) (\<lambda>cp.
       Some \<lparr>opOutputPattern = c, opMergePrevious = m, opChecker = cp\<rparr>)))"

text \<open>\<^verbatim>\<open>strings.Count(s, "%s")\<close> and \<^verbatim>\<open>strings.Replace(s, "%s", r, 1)\<close>.\<close>

fun count_verb :: "string \<Rightarrow> nat" where
  "count_verb (a # b # cs) = (if a = CHR 0x25 \<and> b = CHR ''s'' then Suc (count_verb cs) else count_verb (b # cs))"
| "count_verb _ = 0"

fun replace_verb :: "string \<Rightarrow> string \<Rightarrow> string" where
  "replace_verb r (a # b # cs) = (if a = CHR 0x25 \<and> b = CHR ''s'' then r @ cs else a # replace_verb r (b # cs))"
| "replace_verb r s = s"

definition default_pattern :: string where
  "default_pattern = ''output_'' @ [CHR 0x25] @ ''s.txt''"

definition parseOutputOnly :: "Worker \<Rightarrow> string \<Rightarrow> (worker_error, OutputOnlyParams) result" where
  "parseOutputOnly w raw =
     bind_result (decoded w ''OutputOnly'' raw decode_outputonly) (\<lambda>p0.
       let p = (if opOutputPattern p0 = [] then p0\<lparr>opOutputPattern := default_pattern\<rparr> else p0)
       in if count_verb (opOutputPattern p) \<noteq> 1 then Inl (Failed (''output_pattern must contain exactly one '' @ [CHR 0x25] @ ''s'')) else Inr p)"

definition OutputOnlyConfig :: "Worker \<Rightarrow> string \<Rightarrow> (worker_error, string \<times> bool) result" where
  "OutputOnlyConfig w raw = bind_result (parseOutputOnly w raw) (\<lambda>p. Inr (opOutputPattern p, opMergePrevious p))"

definition OutputFileName :: "string \<Rightarrow> string \<Rightarrow> string" where
  "OutputFileName pat name = replace_verb name (if pat = [] then default_pattern else pat)"

definition MsgFileNotSubmitted :: string where "MsgFileNotSubmitted = ''File not submitted''"

definition OutputOnly_Compile :: "Worker \<Rightarrow> Job \<Rightarrow> (worker_error, Compilation) result" where
  "OutputOnly_Compile w job = Inr (new_compilation True ''No compilation needed'')"

text \<open>The digest of the last submitted file of that name; empty for none.\<close>

definition submitted :: "Job \<Rightarrow> string \<Rightarrow> string" where
  "submitted job name = fold (\<lambda>f d. if fiName f = name then fiDigest f else d) (jbFiles job) []"

definition full_check :: "Worker \<Rightarrow> Job \<Rightarrow> CheckerParams \<Rightarrow> JobTestcase \<Rightarrow> string \<Rightarrow> (worker_error, Outcome) result" where
  "full_check w job p tc digest =
     bind_result (clean_box w 0) (\<lambda>b0.
     bind_result (put w ''output.txt'' digest b0) (\<lambda>b1. check w job p tc Map.empty b1 ''output.txt''))"

definition OutputOnly_Evaluate :: "Worker \<Rightarrow> Job \<Rightarrow> JobTestcase \<Rightarrow> (worker_error, weval) result" where
  "OutputOnly_Evaluate w job tc =
     bind_result (parseOutputOnly w (jbTaskTypeParams job)) (\<lambda>p.
       let ev = \<lparr>evTestcaseID = jtID tc, evCodename = jtCodename tc, evOutcome = 0, evText = [], evTime = 0, evWallTime = 0,
                 evMemory = 0, evExitStatus = ''ok'', evExitCode = 0, evSignal = 0\<rparr>;
           digest = submitted job (OutputFileName (opOutputPattern p) (jtCodename tc))
       in if digest = [] then Inr (ev\<lparr>evText := MsgFileNotSubmitted\<rparr>, Fin 0)
          else if digest = jtOutput tc \<and> \<not> custom (opChecker p) then Inr (scored Correct ev)
          else bind_result (full_check w job (opChecker p) tc digest) (\<lambda>x. Inr (scored x ev)))"

definition OutputOnly_UserTest :: "Worker \<Rightarrow> Job \<Rightarrow> user_outcome" where
  "OutputOnly_UserTest w job = Inl (Failed ''user tests are not available for OutputOnly tasks'')"

section \<open>Two steps\<close>

record TwoStepsParams =
  tpManager :: string
  tpChecker :: CheckerParams

definition parseTwoSteps :: "Worker \<Rightarrow> string \<Rightarrow> (worker_error, TwoStepsParams) result" where
  "parseTwoSteps w raw =
     bind_result (decoded w ''TwoSteps'' raw (\<lambda>kvs.
         Option.bind (jget to_string [] ''manager'' kvs) (\<lambda>m.
         Option.bind (decode_checker kvs) (\<lambda>cp. Some \<lparr>tpManager = m, tpChecker = cp\<rparr>)))) (\<lambda>p.
       Inr (if tpManager p = [] then p\<lparr>tpManager := ''manager''\<rparr> else p))"

definition twoStepsMessage :: string where "twoStepsMessage = ''message.bin''"

definition TwoSteps_sources :: "Job \<Rightarrow> TwoStepsParams \<Rightarrow> (worker_error, sourceSet) result" where
  "TwoSteps_sources job p = with_language ''TwoSteps'' job (\<lambda>l. newSourceSet l (jbFiles job) (jbManagers job) True (tpManager p))"

definition TwoSteps_Compile :: "Worker \<Rightarrow> Job \<Rightarrow> (worker_error, Compilation) result" where
  "TwoSteps_Compile w job = bind_result (parseTwoSteps w (jbTaskTypeParams job)) (\<lambda>p. compile_sources w (TwoSteps_sources job p))"

definition combined :: "Run \<Rightarrow> Run \<Rightarrow> Run" where
  "combined r1 r2 = r2\<lparr>rnCPUTime := dadd (rnCPUTime r2) (rnCPUTime r1), rnWallTime := dadd (rnWallTime r2) (rnWallTime r1),
     rnMemory := max (rnMemory r1) (rnMemory r2)\<rparr>"

definition first_step :: "Worker \<Rightarrow> Job \<Rightarrow> sourceSet \<Rightarrow> string \<Rightarrow> (worker_error, Run \<times> box) result" where
  "first_step w job s input =
     bind_result (clean_box w 0) (\<lambda>b.
     bind_result (clear_stage w Map.empty) (\<lambda>st0.
     bind_result (stage_file w ''input'' input st0) (\<lambda>(path, st).
       run w 0 st b ((base_options job (ssLang s) (src_main s))\<lparr>roStdin := path, roStdout := twoStepsMessage, roArgs := [''0''],
         roDirs := [stage_Dir (wkStageDir w)]\<rparr>))))"

definition second_step :: "Worker \<Rightarrow> Job \<Rightarrow> sourceSet \<Rightarrow> string \<Rightarrow> (worker_error, Run \<times> box) result" where
  "second_step w job s msg =
     bind_result (clean_box w 3) (\<lambda>b0.
     bind_result (write_in w ''copy message'' twoStepsMessage msg b0) (\<lambda>b.
       run w 3 Map.empty b ((base_options job (ssLang s) (src_main s))\<lparr>roStdin := twoStepsMessage, roStdout := runStdout, roArgs := [''1'']\<rparr>)))"

definition steps :: "Worker \<Rightarrow> Job \<Rightarrow> TwoStepsParams \<Rightarrow> string \<Rightarrow> (worker_error, box \<times> Run) result" where
  "steps w job p input =
     bind_result (TwoSteps_sources job p) (\<lambda>s.
     bind_result (first_step w job s input) (\<lambda>(r1, b1).
       if rnStatus r1 \<noteq> StatusOK then Inr (b1, r1)
       else (case OpenOutput b1 twoStepsMessage of
               Inl e \<Rightarrow> Inl (Infra (''read first step output: '' @ wkFileText w e))
             | Inr msg \<Rightarrow> bind_result (second_step w job s msg) (\<lambda>(r2, b2). Inr (b2, combined r1 r2)))))"

definition TwoSteps_Evaluate :: "Worker \<Rightarrow> Job \<Rightarrow> JobTestcase \<Rightarrow> (worker_error, weval) result" where
  "TwoSteps_Evaluate w job tc =
     bind_result (parseTwoSteps w (jbTaskTypeParams job)) (\<lambda>p.
     bind_result (steps w job p (jtInput tc)) (\<lambda>(b, r).
       let ev = evaluationFromRun tc r
       in if rnStatus r \<noteq> StatusOK then Inr (failed_run r ev)
          else bind_result (check w job (tpChecker p) tc Map.empty b runStdout) (\<lambda>x. Inr (scored x ev))))"

definition TwoSteps_UserTest :: "Worker \<Rightarrow> Job \<Rightarrow> user_outcome" where
  "TwoSteps_UserTest w job =
     bind_result (parseTwoSteps w (jbTaskTypeParams job)) (\<lambda>p.
       after_compile (TwoSteps_Compile w job) job (\<lambda>j.
         bind_result (steps w j p (jbInput job)) (\<lambda>(b, r).
           if rnStatus r \<noteq> StatusOK then Inr (user_run r)
           else (case upload w b runStdout (max (liOutputBytes (jbLimits job)) (2 ^ 20)) of
                   Inr d \<Rightarrow> Inr ((user_run r)\<lparr>utOutput := d\<rparr>)
                 | Inl (Infra t) \<Rightarrow> Inl (Infra t)
                 | Inl e \<Rightarrow> Inr (if OpenOutput b runStdout = Inl NotExist then user_run r else (user_run r)\<lparr>utText := error_text e\<rparr>)))))"

section \<open>Interactive\<close>

record InteractiveParams =
  ipTimeLimitMs :: int
  ipMemoryBytes :: int

definition parseInteractive :: "Worker \<Rightarrow> string \<Rightarrow> (worker_error, InteractiveParams) result" where
  "parseInteractive w raw =
     bind_result (decoded w ''Interactive'' raw (\<lambda>kvs.
         Option.bind (jget to_int 0 ''interactor_time_limit_ms'' kvs) (\<lambda>t.
         Option.bind (jget to_int 0 ''interactor_memory_bytes'' kvs) (\<lambda>m. Some \<lparr>ipTimeLimitMs = t, ipMemoryBytes = m\<rparr>)))) (\<lambda>p.
       if ipTimeLimitMs p < 0 \<or> ipMemoryBytes p < 0 then Inl (Failed ''interactor limits must not be negative'') else Inr p)"

definition Interactive_sources :: "Job \<Rightarrow> (worker_error, sourceSet) result" where
  "Interactive_sources job = with_language ''Interactive'' job (\<lambda>l. newSourceSet l (jbFiles job) (jbManagers job) False [])"

definition Interactive_Compile :: "Worker \<Rightarrow> Job \<Rightarrow> (worker_error, Compilation) result" where
  "Interactive_Compile w job = bind_result (parseInteractive w (jbTaskTypeParams job)) (\<lambda>_. compile_sources w (Interactive_sources job))"

record interaction =
  inUser :: Run
  inInteractor :: Run
  inBox :: box

text \<open>The limits of an interactor or a manager: its own, or ten seconds more than the contestant's.\<close>

definition judge_limits :: "int \<Rightarrow> int \<Rightarrow> duration \<Rightarrow> duration \<Rightarrow> int \<Rightarrow> RunLimits" where
  "judge_limits timeMs mem contestant userWall fsize =
     (let t = dmul timeMs millisecond; tl = (if t \<le> 0 then dadd (10 * second) contestant else t)
      in \<lparr>slCPUTime = tl, slWallTime = max (dmul 2 tl) (dadd userWall (5 * second)), slMemory = (if mem \<le> 0 then 2 ^ 30 else mem),
          slStack = 0, slProcesses = 4, slFileSize = fsize, slOpenFiles = 0\<rparr>)"

definition interactor_spec :: "Worker \<Rightarrow> Job \<Rightarrow> InteractiveParams \<Rightarrow> string \<Rightarrow> string \<Rightarrow> Spec" where
  "interactor_spec w job p input answer =
     no_spec\<lparr>spArgs := [''./interactor'', input, ''tout'', answer], spStderr := ''.interactor.err'', spEnv := [''PATH=/usr/bin:/bin''],
       spDirs := [stage_Dir (wkStageDir w)], spStdinFile := True, spStdoutFile := True,
       spLimits := judge_limits (ipTimeLimitMs p) (ipMemoryBytes p) (dmul (liTimeMs (jbLimits job)) millisecond)
         (WallLimit (liTimeMs (jbLimits job)) (liWallTimeMs (jbLimits job))) (64 * 2 ^ 20)\<rparr>"

text \<open>The results of both sides; \<open>errors.Join\<close> of what failed.\<close>

definition joined :: "worker_error list \<Rightarrow> 'a \<Rightarrow> (worker_error, 'a) result" where
  "joined es x = (if es = [] then Inr x else Inl (Joined es))"

definition interact_end :: "runOptions \<Rightarrow> (run_error, Run \<times> box) result \<Rightarrow> (run_error, Run \<times> box) result \<Rightarrow> (worker_error, interaction) result" where
  "interact_end o1 ir ur =
     (case (ir, run_done o1 ur) of
        (Inr (ri, bi), Inr (ru, _)) \<Rightarrow> Inr \<lparr>inUser = ru, inInteractor = ri, inBox = bi\<rparr>
      | (Inl e, Inl e') \<Rightarrow> Inl (Joined [Crashed e, e'])
      | (Inl e, _) \<Rightarrow> Inl (Joined [Crashed e])
      | (_, Inl e') \<Rightarrow> Inl (Joined [e']))"

definition Interactive_interact :: "Worker \<Rightarrow> Job \<Rightarrow> InteractiveParams \<Rightarrow> string \<Rightarrow> string \<Rightarrow> (worker_error, interaction) result" where
  "Interactive_interact w job p input answer =
     bind_result (Interactive_sources job) (\<lambda>s.
     bind_result (managerExecutable w job ''interactor'') (\<lambda>exe.
     bind_result (clear_stage w Map.empty) (\<lambda>st0.
     bind_result (stage_file w ''input'' input st0) (\<lambda>(inp, st1).
     bind_result (if answer = [] then Inr (''/dev/null'', st1) else stage_file w ''answer'' answer st1) (\<lambda>(ans, st2).
     bind_result (clean_box w 0) (\<lambda>i0.
     bind_result (write_in w ''copy interactor'' ''interactor'' exe i0) (\<lambda>ibox.
     bind_result (clean_box w 2) (\<lambda>u0.
     bind_result (put_files w (jbExecutables job) u0) (\<lambda>ubox.
       case wkPipes w of
         Some t \<Rightarrow> Inl (Infra (''pipe: '' @ t))
       | None \<Rightarrow>
           (let o1 = (base_options job (ssLang s) (src_main s))\<lparr>roNoExecCopy := True, roPipes := True\<rparr>
            in case run_spec w o1 of
                 None \<Rightarrow> Inl WPanic
               | Some us \<Rightarrow>
                   (let rs = joint_run w [(0, interactor_spec w job p inp ans, ibox), (2, us, ubox)] st2
                    in interact_end o1 (rs ! 0) (rs ! 1))))))))))))"

definition limitExceeded :: "Run \<Rightarrow> bool" where
  "limitExceeded r \<longleftrightarrow> rnStatus r \<in> {StatusTimeout, StatusWallTimeout, StatusMemory, StatusOutputLimit, StatusSecurity}"

definition Interactive_judge :: "Worker \<Rightarrow> JobTestcase \<Rightarrow> interaction \<Rightarrow> (worker_error, weval) result" where
  "Interactive_judge w tc x =
     (let u = inUser x; ev = evaluationFromRun tc u; ir = inInteractor x
      in if limitExceeded u then Inr (failed_run u ev)
         else if rnStatus ir \<noteq> StatusOK \<and> rnStatus ir \<noteq> StatusNonZero then Inl (Failed (''interactor failed: '' @ executionText ir))
         else (case ParseTestlib (wkParse w) (rnExitCode ir) (read_text (inBox x) ''.interactor.err'') of
                 Inl e \<Rightarrow> Inl (Failed (''interactor: '' @ wkCheckerText w e))
               | Inr res \<Rightarrow>
                   if rnStatus u \<noteq> StatusOK \<and> \<not> (rnStatus u = StatusSignal \<and> rnSignal u = SIGPIPE) then Inr (failed_run u ev)
                   else Inr (scored res (ev\<lparr>evExitStatus := StatusOK, evExitCode := 0, evSignal := 0\<rparr>))))"

definition Interactive_Evaluate :: "Worker \<Rightarrow> Job \<Rightarrow> JobTestcase \<Rightarrow> (worker_error, weval) result" where
  "Interactive_Evaluate w job tc =
     bind_result (parseInteractive w (jbTaskTypeParams job)) (\<lambda>p.
     bind_result (Interactive_interact w job p (jtInput tc) (jtOutput tc)) (Interactive_judge w tc))"

definition no_testcase :: JobTestcase where
  "no_testcase = \<lparr>jtID = 0, jtCodename = [], jtInput = [], jtOutput = []\<rparr>"

definition Interactive_UserTest :: "Worker \<Rightarrow> Job \<Rightarrow> user_outcome" where
  "Interactive_UserTest w job =
     bind_result (parseInteractive w (jbTaskTypeParams job)) (\<lambda>p.
       after_compile (Interactive_Compile w job) job (\<lambda>j.
         bind_result (Interactive_interact w j p (jbInput job) []) (\<lambda>x.
           let r = user_run (inUser x);
               r1 = (case Interactive_judge w no_testcase x of
                       Inl e \<Rightarrow> r\<lparr>utExitStatus := StatusSandboxError, utText := error_text e\<rparr>
                     | Inr (ev, _) \<Rightarrow> r\<lparr>utExitStatus := evExitStatus ev, utText := evText ev\<rparr>)
           in with_output r1 (upload w (inBox x) ''tout'' (2 ^ 20)))))"

section \<open>Communication\<close>

record CommunicationParams =
  mpNumProcesses :: int
  mpCompilation :: string
  mpUserIO :: string
  mpTimeLimitMs :: int
  mpMemoryBytes :: int
  mpLimitsMode :: string

definition decode_communication :: "(string \<times> json) list \<Rightarrow> CommunicationParams option" where
  "decode_communication kvs =
     Option.bind (jget to_int 0 ''num_processes'' kvs) (\<lambda>n.
     Option.bind (jget to_string [] ''compilation'' kvs) (\<lambda>c.
     Option.bind (jget to_string [] ''user_io'' kvs) (\<lambda>u.
     Option.bind (jget to_int 0 ''manager_time_limit_ms'' kvs) (\<lambda>t.
     Option.bind (jget to_int 0 ''manager_memory_bytes'' kvs) (\<lambda>m.
     Option.bind (jget to_string [] ''limits_mode'' kvs) (\<lambda>l.
       Some \<lparr>mpNumProcesses = n, mpCompilation = c, mpUserIO = u, mpTimeLimitMs = t, mpMemoryBytes = m, mpLimitsMode = l\<rparr>))))))"

definition parseCommunication :: "Worker \<Rightarrow> string \<Rightarrow> (worker_error, CommunicationParams) result" where
  "parseCommunication w raw =
     bind_result (decoded w ''Communication'' raw decode_communication) (\<lambda>p0.
       let p = p0\<lparr>mpNumProcesses := (if mpNumProcesses p0 = 0 then 1 else mpNumProcesses p0),
                  mpCompilation := (if mpCompilation p0 = [] then ''stub'' else mpCompilation p0),
                  mpUserIO := (if mpUserIO p0 = [] then ''fifos'' else mpUserIO p0),
                  mpLimitsMode := (if mpLimitsMode p0 = [] then ''per_process'' else mpLimitsMode p0)\<rparr>
       in if mpNumProcesses p < 1 \<or> int BoxesPerSlot - 2 < mpNumProcesses p
          then Inl (Failed (''num_processes must be between 1 and '' @ Itoa (int BoxesPerSlot - 2)))
          else if mpCompilation p \<noteq> ''stub'' \<and> mpCompilation p \<noteq> ''alone''
          then Inl (Failed (''invalid Communication compilation '' @ wkQuote w (mpCompilation p)))
          else if mpUserIO p \<noteq> ''fifos'' \<and> mpUserIO p \<noteq> ''std_io''
          then Inl (Failed (''invalid Communication user_io '' @ wkQuote w (mpUserIO p)))
          else if mpLimitsMode p \<noteq> ''per_process'' \<and> mpLimitsMode p \<noteq> ''total''
          then Inl (Failed (''invalid Communication limits_mode '' @ wkQuote w (mpLimitsMode p) @ '' (per_process, total)''))
          else Inr p)"

definition Communication_sources :: "Job \<Rightarrow> CommunicationParams \<Rightarrow> (worker_error, sourceSet) result" where
  "Communication_sources job p =
     with_language ''Communication'' job (\<lambda>l. newSourceSet l (jbFiles job) (jbManagers job) (mpCompilation p = ''stub'') ''stub'')"

definition Communication_Compile :: "Worker \<Rightarrow> Job \<Rightarrow> (worker_error, Compilation) result" where
  "Communication_Compile w job = bind_result (parseCommunication w (jbTaskTypeParams job)) (\<lambda>p. compile_sources w (Communication_sources job p))"

record commOutcome =
  cmUsers :: "Run list"
  cmManager :: Run
  cmBox :: box

definition fifo_dir :: "Worker \<Rightarrow> string \<Rightarrow> nat \<Rightarrow> Dir" where
  "fifo_dir w inside i =
     \<lparr>drInside = inside, drOutside = wkFifoDir w @ ''/'' @ Itoa (int i), drRW = True, drMaybe = False, drNoExec = False\<rparr>"

definition manager_spec :: "Worker \<Rightarrow> Job \<Rightarrow> CommunicationParams \<Rightarrow> string \<Rightarrow> Spec" where
  "manager_spec w job p input =
     (let n = nat (mpNumProcesses p); inside = (\<lambda>i. ''/fifo'' @ Itoa (int i))
      in no_spec\<lparr>spArgs := ''./manager'' # concat (map (\<lambda>i. [inside i @ ''/u2m'', inside i @ ''/m2u'']) [0..<n]),
           spStdin := input, spStdout := ''.manager.out'', spStderr := ''.manager.err'', spEnv := [''PATH=/usr/bin:/bin''],
           spDirs := stage_Dir (wkStageDir w) # map (\<lambda>i. fifo_dir w (inside i) i) [0..<n],
           spLimits := judge_limits (mpTimeLimitMs p) (mpMemoryBytes p) (dmul (dmul (liTimeMs (jbLimits job)) millisecond) (mpNumProcesses p))
             (WallLimit (liTimeMs (jbLimits job)) (liWallTimeMs (jbLimits job))) (16 * 2 ^ 20)\<rparr>)"

definition process_options :: "Worker \<Rightarrow> Job \<Rightarrow> CommunicationParams \<Rightarrow> sourceSet \<Rightarrow> nat \<Rightarrow> runOptions" where
  "process_options w job p s i =
     (let o1 = (base_options job (ssLang s) (src_main s))\<lparr>roNoExecCopy := True, roDirs := [fifo_dir w ''/fifo'' i]\<rparr>;
          o2 = (if mpUserIO p = ''std_io'' then o1\<lparr>roStdin := ''/fifo/m2u'', roStdout := ''/fifo/u2m''\<rparr>
                else o1\<lparr>roArgs := [''/fifo/m2u'', ''/fifo/u2m'']\<rparr>)
      in if 1 < mpNumProcesses p then o2\<lparr>roArgs := roArgs o2 @ [Itoa (int i)]\<rparr> else o2)"

fun prepare_boxes :: "Worker \<Rightarrow> Job \<Rightarrow> nat \<Rightarrow> nat \<Rightarrow> (worker_error, box list) result" where
  "prepare_boxes w job i 0 = Inr []"
| "prepare_boxes w job i (Suc n) =
     bind_result (clean_box w (2 + i)) (\<lambda>b0.
     bind_result (put_files w (jbExecutables job) b0) (\<lambda>b.
     bind_result (prepare_boxes w job (i + 1) n) (\<lambda>bs. Inr (b # bs))))"

text \<open>The results of the processes, then the manager's.\<close>

definition comm_end :: "(worker_error, Run \<times> box) result list \<Rightarrow> (run_error, Run \<times> box) result \<Rightarrow> (worker_error, commOutcome) result" where
  "comm_end us mr =
     (let errs = concat (map (\<lambda>r. case r of Inl e \<Rightarrow> [e] | Inr _ \<Rightarrow> []) us);
          users = concat (map (\<lambda>r. case r of Inl _ \<Rightarrow> [] | Inr (ru, _) \<Rightarrow> [ru]) us)
      in case mr of
           Inl e \<Rightarrow> Inl (Joined (errs @ [Crashed e]))
         | Inr (rm, b) \<Rightarrow> joined errs \<lparr>cmUsers = users, cmManager = rm, cmBox = b\<rparr>)"

definition Communication_interact :: "Worker \<Rightarrow> Job \<Rightarrow> CommunicationParams \<Rightarrow> string \<Rightarrow> (worker_error, commOutcome) result" where
  "Communication_interact w job p input =
     bind_result (Communication_sources job p) (\<lambda>s.
     bind_result (managerExecutable w job ''manager'') (\<lambda>exe.
       case wkFifos w of
         Some t \<Rightarrow> Inl (Infra (''fifos: '' @ t))
       | None \<Rightarrow>
           bind_result (clear_stage w Map.empty) (\<lambda>st0.
           bind_result (stage_file w ''input'' input st0) (\<lambda>(inp, st).
           bind_result (clean_box w 0) (\<lambda>m0.
           bind_result (write_in w ''copy manager'' ''manager'' exe m0) (\<lambda>mbox.
           bind_result (prepare_boxes w job 0 (nat (mpNumProcesses p))) (\<lambda>ubox.
             let n = nat (mpNumProcesses p); os = map (process_options w job p s) [0..<n]
             in case all_some (map (run_spec w) os) of
                  None \<Rightarrow> Inl WPanic
                | Some specs \<Rightarrow>
                    (let rs = joint_run w ((0, manager_spec w job p inp, mbox) # map (\<lambda>i. (2 + i, specs ! i, ubox ! i)) [0..<n]) st
                     in comm_end (map (\<lambda>i. run_done (os ! i) (rs ! (i + 1))) [0..<n]) (rs ! 0)))))))))"

text \<open>The loop over the processes: CPU time, wall time, memory, their sum, and the first that failed.\<close>

record comm_sums =
  csTime :: f64
  csWall :: f64
  csMem :: int
  csTotal :: int
  csFailed :: "Run option"

definition add_process :: "Run \<Rightarrow> comm_sums \<Rightarrow> Run \<Rightarrow> comm_sums" where
  "add_process manager a u =
     (let broken = (rnStatus manager = StatusOK \<and> rnStatus u = StatusSignal \<and> rnSignal u = SIGPIPE)
      in \<lparr>csTime = csTime a + Seconds (rnCPUTime u), csWall = max (csWall a) (Seconds (rnWallTime u)), csMem = max (csMem a) (rnMemory u),
          csTotal = wrap64 (csTotal a + rnMemory u),
          csFailed = (if rnStatus u = StatusOK \<or> csFailed a \<noteq> None \<or> broken then csFailed a else Some u)\<rparr>)"

definition process_sums :: "commOutcome \<Rightarrow> comm_sums" where
  "process_sums x = foldl (add_process (cmManager x)) \<lparr>csTime = 0, csWall = 0, csMem = 0, csTotal = 0, csFailed = None\<rparr> (cmUsers x)"

definition manager_verdict :: "Worker \<Rightarrow> commOutcome \<Rightarrow> Evaluation \<Rightarrow> (worker_error, weval) result" where
  "manager_verdict w x ev =
     (case ParseCMSChecker (wkParse w) (read_text (cmBox x) ''.manager.out'') (read_text (cmBox x) ''.manager.err'') of
        Inl e \<Rightarrow> Inl (Failed (''manager output: '' @ wkCheckerText w e))
      | Inr res \<Rightarrow> Inr (scored res ev))"

definition Communication_judge :: "Worker \<Rightarrow> JobTestcase \<Rightarrow> commOutcome \<Rightarrow> CommunicationParams \<Rightarrow> Limits \<Rightarrow> (worker_error, weval) result" where
  "Communication_judge w tc x p l =
     (let a = process_sums x;
          ev = \<lparr>evTestcaseID = jtID tc, evCodename = jtCodename tc, evOutcome = 0, evText = [], evTime = csTime a, evWallTime = csWall a,
                evMemory = csMem a, evExitStatus = StatusOK, evExitCode = 0, evSignal = 0\<rparr>;
          blocked = (case csFailed a of None \<Rightarrow> True | Some f \<Rightarrow> rnStatus f = StatusWallTimeout)
      in if rnStatus (cmManager x) \<noteq> StatusOK \<and> blocked then Inl (Failed (''manager failed: '' @ executionText (cmManager x)))
         else (case csFailed a of
                 Some f \<Rightarrow> Inr (failed_run f (ev\<lparr>evExitStatus := rnStatus f, evExitCode := rnExitCode f, evSignal := rnSignal f\<rparr>))
               | None \<Rightarrow>
                   if mpLimitsMode p = ''total'' then
                     (let ev1 = ev\<lparr>evMemory := csTotal a\<rparr>
                      in if 0 < liTimeMs l \<and> f64 (of_int (liTimeMs l)) / f64 1000 < evTime ev1
                         then Inr (ev1\<lparr>evExitStatus := StatusTimeout, evText := MsgTimeout\<rparr>, Fin 0)
                         else if 0 < liMemoryBytes l \<and> liMemoryBytes l < csTotal a
                         then Inr (ev1\<lparr>evExitStatus := StatusMemory, evText := MsgMemory\<rparr>, Fin 0)
                         else manager_verdict w x ev1)
                   else manager_verdict w x ev))"

definition Communication_Evaluate :: "Worker \<Rightarrow> Job \<Rightarrow> JobTestcase \<Rightarrow> (worker_error, weval) result" where
  "Communication_Evaluate w job tc =
     bind_result (parseCommunication w (jbTaskTypeParams job)) (\<lambda>p.
     bind_result (Communication_interact w job p (jtInput tc)) (\<lambda>x. Communication_judge w tc x p (jbLimits job)))"

definition Communication_UserTest :: "Worker \<Rightarrow> Job \<Rightarrow> user_outcome" where
  "Communication_UserTest w job =
     bind_result (parseCommunication w (jbTaskTypeParams job)) (\<lambda>p.
       after_compile (Communication_Compile w job) job (\<lambda>j.
         bind_result (Communication_interact w j p (jbInput job)) (\<lambda>x.
           let r = \<lparr>utOutput = [], utText = MsgExecutionOK, utTime = 0, utWallTime = 0, utMemory = 0, utExitStatus = StatusOK\<rparr>;
               r1 = (case Communication_judge w no_testcase x p (jbLimits job) of
                       Inl e \<Rightarrow> r\<lparr>utExitStatus := StatusSandboxError, utText := error_text e\<rparr>
                     | Inr (ev, _) \<Rightarrow>
                         r\<lparr>utTime := evTime ev, utWallTime := evWallTime ev, utMemory := evMemory ev, utExitStatus := evExitStatus ev,
                           utText := (if evExitStatus ev \<noteq> StatusOK then evText ev else MsgExecutionOK)\<rparr>)
           in with_output r1 (upload w (cmBox x) ''.manager.out'' (2 ^ 20)))))"

section \<open>Task types\<close>

record TaskType =
  ttCompile :: "Worker \<Rightarrow> Job \<Rightarrow> (worker_error, Compilation) result"
  ttEvaluate :: "Worker \<Rightarrow> Job \<Rightarrow> JobTestcase \<Rightarrow> (worker_error, weval) result"
  ttUserTest :: "Worker \<Rightarrow> Job \<Rightarrow> user_outcome"

definition registry :: "(string \<times> TaskType) list" where
  "registry =
     [(''Batch'', \<lparr>ttCompile = Batch_Compile, ttEvaluate = Batch_Evaluate, ttUserTest = Batch_UserTest\<rparr>),
      (''OutputOnly'', \<lparr>ttCompile = OutputOnly_Compile, ttEvaluate = OutputOnly_Evaluate, ttUserTest = OutputOnly_UserTest\<rparr>),
      (''TwoSteps'', \<lparr>ttCompile = TwoSteps_Compile, ttEvaluate = TwoSteps_Evaluate, ttUserTest = TwoSteps_UserTest\<rparr>),
      (''Interactive'', \<lparr>ttCompile = Interactive_Compile, ttEvaluate = Interactive_Evaluate, ttUserTest = Interactive_UserTest\<rparr>),
      (''Communication'', \<lparr>ttCompile = Communication_Compile, ttEvaluate = Communication_Evaluate, ttUserTest = Communication_UserTest\<rparr>)]"

definition Get_type :: "Worker \<Rightarrow> string \<Rightarrow> (worker_error, TaskType) result" where
  "Get_type w name =
     (case map_of registry name of None \<Rightarrow> Inl (Failed (''unknown task type '' @ wkQuote w name)) | Some t \<Rightarrow> Inr t)"

definition SortedNames :: "string list" where
  "SortedNames = stable_sort (<) (map fst registry)"

definition checker_valid :: "Worker \<Rightarrow> CheckerParams \<Rightarrow> (worker_error, unit) result" where
  "checker_valid w cp =
     (if cpChecker cp \<notin> {[], ''white_diff'', ''exact'', ''float'', ''custom'', ''testlib''}
      then Inl (Failed (''unknown checker '' @ wkQuote w (cpChecker cp) @ '' (white_diff, exact, float, custom, testlib)''))
      else if cpFloatAbsTol cp < 0 \<or> cpFloatRelTol cp < 0 then Inl (Failed ''float tolerances must not be negative'')
      else Inr ())"

definition ValidateParams :: "Worker \<Rightarrow> string \<Rightarrow> string \<Rightarrow> (worker_error, unit) result" where
  "ValidateParams w name raw =
     bind_result (Get_type w name) (\<lambda>_.
       if name = ''Batch'' then bind_result (parseBatch w raw) (\<lambda>p. checker_valid w (bpChecker p))
       else if name = ''OutputOnly'' then bind_result (parseOutputOnly w raw) (\<lambda>p. checker_valid w (opChecker p))
       else if name = ''TwoSteps'' then bind_result (parseTwoSteps w raw) (\<lambda>p. checker_valid w (tpChecker p))
       else if name = ''Communication'' then bind_result (parseCommunication w raw) (\<lambda>_. Inr ())
       else if name = ''Interactive'' then bind_result (parseInteractive w raw) (\<lambda>_. Inr ())
       else Inr ())"

definition with_ext :: "string \<Rightarrow> string" where
  "with_ext s = s @ ''.<ext>''"

definition RequiredManagers :: "Worker \<Rightarrow> string \<Rightarrow> string \<Rightarrow> string list" where
  "RequiredManagers w name raw =
     (if name = ''Batch''
      then (case parseBatch w raw of
              Inr p \<Rightarrow> opt (bpCompilation p = ''grader'') (with_ext ''grader'') @ opt (custom (bpChecker p)) ''checker'' | Inl _ \<Rightarrow> [])
      else if name = ''OutputOnly''
      then (case parseOutputOnly w raw of Inr p \<Rightarrow> opt (custom (opChecker p)) ''checker'' | Inl _ \<Rightarrow> [])
      else if name = ''TwoSteps''
      then (case parseTwoSteps w raw of Inr p \<Rightarrow> with_ext (tpManager p) # opt (custom (tpChecker p)) ''checker'' | Inl _ \<Rightarrow> [])
      else if name = ''Interactive'' then [''interactor'']
      else if name = ''Communication''
      then (case parseCommunication w raw of Inr p \<Rightarrow> ''manager'' # opt (mpCompilation p = ''stub'') (with_ext ''stub'') | Inl _ \<Rightarrow> [])
      else [])"

section \<open>The executor\<close>

definition skipped_eval :: "JobTestcase \<Rightarrow> weval" where
  "skipped_eval tc = (\<lparr>evTestcaseID = jtID tc, evCodename = jtCodename tc, evOutcome = 0, evText = MsgSkipped, evTime = 0,
     evWallTime = 0, evMemory = 0, evExitStatus = StatusSkipped, evExitCode = 0, evSignal = 0\<rparr>, Fin 0)"

fun evaluate_all :: "Worker \<Rightarrow> (Job \<Rightarrow> JobTestcase \<Rightarrow> bool) \<Rightarrow> TaskType \<Rightarrow> Job \<Rightarrow> JobTestcase list \<Rightarrow> (worker_error, weval list) result" where
  "evaluate_all w skip tt job [] = Inr []"
| "evaluate_all w skip tt job (tc # tcs) =
     bind_result (if skip job tc then Inr (skipped_eval tc)
                  else (case ttEvaluate tt w job tc of
                          Inl e \<Rightarrow> Inl (Context (''testcase '' @ jtCodename tc) e)
                        | Inr x \<Rightarrow> Inr x)) (\<lambda>x.
     bind_result (evaluate_all w skip tt job tcs) (\<lambda>xs. Inr (x # xs)))"

text \<open>The result of a job and the evaluations still to be encoded.\<close>

definition execute_kind :: "Worker \<Rightarrow> (Job \<Rightarrow> JobTestcase \<Rightarrow> bool) \<Rightarrow> TaskType \<Rightarrow> Job \<Rightarrow> (worker_error, JobResult \<times> weval list) result" where
  "execute_kind w skip tt job =
     (let res = ForJob job (wkName w)
      in if jbKind job = KindCompile then bind_result (ttCompile tt w job) (\<lambda>c. Inr (res\<lparr>reCompilation := Some c\<rparr>, []))
         else if jbKind job = KindEvaluate then bind_result (evaluate_all w skip tt job (jbTestcases job)) (\<lambda>xs. Inr (res, xs))
         else if jbKind job = KindUserTest
         then bind_result (ttUserTest tt w job) (\<lambda>(c, x). Inr (res\<lparr>reCompilation := Some c, reUserTest := x\<rparr>, []))
         else Inl (Failed (''unknown job kind '' @ wkQuote w (jbKind job))))"

text \<open>The last component tells whether the slot's boxes are recycled.\<close>

definition Execute :: "Worker \<Rightarrow> (Job \<Rightarrow> JobTestcase \<Rightarrow> bool) \<Rightarrow> Job \<Rightarrow> (JobResult \<times> weval list) \<times> bool" where
  "Execute w skip job =
     (case bind_result (Get_type w (jbTaskType job)) (\<lambda>tt. execute_kind w skip tt job) of
        Inl e \<Rightarrow> (((ForJob job (wkName w))\<lparr>reError := error_text e\<rparr>, []), is_sandbox e)
      | Inr x \<Rightarrow> (x, False))"

text \<open>The skips that the dispatcher published for the job's submission, dataset and generation.\<close>

definition service_skip :: "(int \<Rightarrow> int \<Rightarrow> int \<Rightarrow> int \<Rightarrow> bool) \<Rightarrow> Job \<Rightarrow> JobTestcase \<Rightarrow> bool" where
  "service_skip skips job tc \<longleftrightarrow> jbSubmissionID job \<noteq> 0 \<and> skips (jbSubmissionID job) (jbDatasetID job) (jbGeneration job) (jtID tc)"

text \<open>The encoding of the result when it is published: JSON has no NaN and no infinity.\<close>

definition encode_eval :: "weval \<Rightarrow> Evaluation option" where
  "encode_eval x = (case snd x of Fin v \<Rightarrow> Some ((fst x)\<lparr>evOutcome := v\<rparr>) | _ \<Rightarrow> None)"

definition Complete :: "JobResult \<times> weval list \<Rightarrow> JobResult option" where
  "Complete x = map_option (\<lambda>es. (fst x)\<lparr>reEvaluations := es\<rparr>) (all_some (map encode_eval (snd x)))"

text \<open>
  What \<^verbatim>\<open>Service.loop\<close> does with a delivered message: a message that cannot be decoded is dropped, a
  superseded submission goes to the deferred queue, and a result that cannot be published leaves the
  job pending, for the monitor to run again. \<open>deferred\<close> and \<open>published\<close> are the answers of Redis.
\<close>

datatype handled = Dropped | DeferredJob Job | PublishedResult JobResult | StillPending

definition loop_step :: "Worker \<Rightarrow> (Job \<Rightarrow> JobTestcase \<Rightarrow> bool) \<Rightarrow> (int \<Rightarrow> bool) \<Rightarrow> bool \<Rightarrow> bool \<Rightarrow> Priority \<Rightarrow> Job option \<Rightarrow> handled" where
  "loop_step w skip superseded deferred published prio d =
     (case d of
        None \<Rightarrow> Dropped
      | Some job \<Rightarrow>
          if (prio = PriorityEvaluate \<or> prio = PriorityCompile) \<and> jbSubmissionID job \<noteq> 0 \<and> superseded (jbSubmissionID job) \<and> deferred
          then DeferredJob (job\<lparr>jbPriority := PriorityDeferred\<rparr>)
          else (case Complete (fst (Execute w skip job)) of
                  Some r \<Rightarrow> if published then PublishedResult r else StillPending
                | None \<Rightarrow> StillPending))"

end
