(* ===== verification/Task_Type_Props.thy ===== *)
theory Task_Type_Props
  imports Task_Types Judging_Correct
begin

text \<open>
  What a worker's results promise: evaluations belong to their testcases and score only when the
  program ended well and within its limits, the comparators and the shortcuts agree, parameters that
  were validated do not fail while judging, and the results of a job are the honest ones that the
  dispatcher's correctness asks for.
\<close>

section \<open>Errors and runs\<close>

lemma bind_InlD: "bind_result r f = Inl e \<Longrightarrow> r = Inl e \<or> (\<exists>x. r = Inr x \<and> f x = Inl e)"
  by (cases r) auto

lemma bind_InrD: "bind_result r f = Inr y \<Longrightarrow> \<exists>x. r = Inr x \<and> f x = Inr y"
  by (cases r) auto

lemma run_InrD:
  assumes "run w i st b o1 = Inr (r, b')"
  obtains s r0 b1 out where "run_spec w o1 = Some s" "Run_end (wkParse w) (wkIsolate w) s out = Inr (r0, b')"
    "r = enforce_memory (liMemoryBytes (roLimits o1)) r0"
proof -
  obtain s b1 where s: "run_spec w o1 = Some s" "run_done o1 (box_run w i s st b1) = Inr (r, b')"
    using assms by (auto simp: run_def dest!: bind_InrD split: option.splits)
  then obtain r0 where r0: "box_run w i s st b1 = Inr (r0, b')" "r = enforce_memory (liMemoryBytes (roLimits o1)) r0"
    by (auto simp: run_done_def split: Sum_Type.sum.splits)
  then show thesis using that [OF s(1)] Run_InrD [of "wkParse w" "wkIsolate w" "wkExec w"] by (metis box_run_def)
qed

lemma enforce_memory_ok: "rnStatus (enforce_memory mem r) = StatusOK \<Longrightarrow> rnStatus r = StatusOK \<and> (0 < mem \<longrightarrow> rnMemory r \<le> mem)"
  by (auto simp: enforce_memory_def split: if_splits)

lemma enforce_memory_same [simp]: "rnMemory (enforce_memory mem r) = rnMemory r" "rnCPUTime (enforce_memory mem r) = rnCPUTime r"
  by (simp_all add: enforce_memory_def)

lemma run_spec_limits: "run_spec w o1 = Some s \<Longrightarrow> spLimits s = program_limits w o1"
  by (auto simp: run_spec_def split: option.splits)

text \<open>A run that ended well used at most the limits.\<close>

lemma run_within_limits:
  assumes "run w i st b o1 = Inr (r, b')" "rnStatus r = StatusOK"
  shows "0 < dmul (liTimeMs (roLimits o1)) millisecond \<Longrightarrow> rnCPUTime r \<le> dmul (liTimeMs (roLimits o1)) millisecond"
    and "0 < liMemoryBytes (roLimits o1) \<Longrightarrow> rnMemory r \<le> liMemoryBytes (roLimits o1)"
proof -
  obtain s r0 out where r: "run_spec w o1 = Some s" "Run_end (wkParse w) (wkIsolate w) s out = Inr (r0, b')"
    "r = enforce_memory (liMemoryBytes (roLimits o1)) r0" using run_InrD [OF assms(1)] by metis
  then have ok: "rnStatus r0 = StatusOK" "0 < liMemoryBytes (roLimits o1) \<longrightarrow> rnMemory r0 \<le> liMemoryBytes (roLimits o1)"
    using enforce_memory_ok assms(2) by metis+
  show "0 < dmul (liTimeMs (roLimits o1)) millisecond \<Longrightarrow> rnCPUTime r \<le> dmul (liTimeMs (roLimits o1)) millisecond"
    using Run_end_ok_time [OF r(2) ok(1)] run_spec_limits [OF r(1)] r(3) by (simp add: program_limits_def Let_def)
  show "0 < liMemoryBytes (roLimits o1) \<Longrightarrow> rnMemory r \<le> liMemoryBytes (roLimits o1)" using ok(2) r(3) by simp
qed

section \<open>Evaluations\<close>

lemma weval_simps [simp]:
  "fst (failed_run r ev) = ev\<lparr>evText := executionText r\<rparr>" "snd (failed_run r ev) = Fin 0"
  "fst (scored x ev) = ev\<lparr>evText := ocMessage x\<rparr>" "snd (scored x ev) = ocScore x"
  by (simp_all add: failed_run_def scored_def)

text \<open>The shape of every evaluation: of its testcase, and without points unless the exit status is ok.\<close>

definition eval_ok :: "JobTestcase \<Rightarrow> weval \<Rightarrow> bool" where
  "eval_ok tc x \<longleftrightarrow> evTestcaseID (fst x) = jtID tc \<and> evCodename (fst x) = jtCodename tc
     \<and> (evExitStatus (fst x) = StatusOK \<or> snd x = Fin 0)"

lemma eval_ok_run: "evExitStatus ev = StatusOK \<or> snd x = Fin 0 \<Longrightarrow> fst x = ev\<lparr>evText := t\<rparr> \<Longrightarrow> evTestcaseID ev = jtID tc \<Longrightarrow>
  evCodename ev = jtCodename tc \<Longrightarrow> eval_ok tc x"
  by (auto simp: eval_ok_def)

lemma evaluationFromRun_simps [simp]:
  "evTestcaseID (evaluationFromRun tc r) = jtID tc" "evCodename (evaluationFromRun tc r) = jtCodename tc"
  "evExitStatus (evaluationFromRun tc r) = rnStatus r" "evTime (evaluationFromRun tc r) = Seconds (rnCPUTime r)"
  "evMemory (evaluationFromRun tc r) = rnMemory r"
  by (simp_all add: evaluationFromRun_def)

lemma Batch_Evaluate_ok: "Batch_Evaluate w job tc = Inr x \<Longrightarrow> eval_ok tc x"
  by (auto simp: Batch_Evaluate_def Let_def eval_ok_def dest!: bind_InrD split: if_splits Sum_Type.sum.splits)

lemma OutputOnly_Evaluate_ok: "OutputOnly_Evaluate w job tc = Inr x \<Longrightarrow> eval_ok tc x"
  by (auto simp: OutputOnly_Evaluate_def Let_def eval_ok_def StatusOK_def dest!: bind_InrD split: if_splits)

lemma TwoSteps_Evaluate_ok: "TwoSteps_Evaluate w job tc = Inr x \<Longrightarrow> eval_ok tc x"
  by (auto simp: TwoSteps_Evaluate_def Let_def eval_ok_def dest!: bind_InrD split: if_splits)

lemma Interactive_judge_ok: "Interactive_judge w tc o1 = Inr x \<Longrightarrow> eval_ok tc x"
  by (auto simp: Interactive_judge_def Let_def eval_ok_def split: if_splits Sum_Type.sum.splits)

lemma Communication_judge_ok: "Communication_judge w tc o1 p l = Inr x \<Longrightarrow> eval_ok tc x"
  by (auto simp: Communication_judge_def manager_verdict_def Let_def eval_ok_def split: if_splits Sum_Type.sum.splits option.splits)

lemma Evaluate_ok: "Get_type w name = Inr tt \<Longrightarrow> ttEvaluate tt w job tc = Inr x \<Longrightarrow> eval_ok tc x"
  by (auto simp: Get_type_def registry_def Interactive_Evaluate_def Communication_Evaluate_def split: option.splits if_splits
      intro: Batch_Evaluate_ok OutputOnly_Evaluate_ok TwoSteps_Evaluate_ok Interactive_judge_ok Communication_judge_ok dest!: bind_InrD)


text \<open>What a Batch or TwoSteps program that scored has used.\<close>

lemma Batch_execute_runs:
  assumes "Batch_execute w job p input = Inr (b, r, outp)"
  obtains i st b0 o1 where "run w i st b0 o1 = Inr (r, b)" "roLimits o1 = jbLimits job"
  using assms that by (fastforce simp: Batch_execute_def Let_def base_options_def dest!: bind_InrD split: if_splits)

lemma Batch_scored_run:
  assumes "Batch_Evaluate w job tc = Inr (ev, x)" "x \<noteq> Fin 0"
  obtains r p b outp where "Batch_execute w job p (jtInput tc) = Inr (b, r, outp)" "rnStatus r = StatusOK"
    "evTime ev = Seconds (rnCPUTime r)" "evMemory ev = rnMemory r"
  using assms that
  by (auto simp: Batch_Evaluate_def Let_def failed_run_def scored_def dest!: bind_InrD split: if_splits Sum_Type.sum.splits)

text \<open>
  Property C15. Points only within the limits: a Batch submission with a non-zero outcome used at
  most the CPU time of the job's limits, and at most its memory, also where no control group
  enforces it, for every limit up to the range of a duration.
\<close>

theorem Batch_within_limits:
  assumes "Batch_Evaluate w job tc = Inr (ev, x)" "x \<noteq> Fin 0"
    and "0 < liTimeMs (jbLimits job)" "liTimeMs (jbLimits job) * millisecond < 2 ^ 63"
  shows "(\<exists>t. evTime ev = Seconds t \<and> t \<le> liTimeMs (jbLimits job) * millisecond)
    \<and> (0 < liMemoryBytes (jbLimits job) \<longrightarrow> evMemory ev \<le> liMemoryBytes (jbLimits job))"
proof -
  obtain r p b outp where r: "Batch_execute w job p (jtInput tc) = Inr (b, r, outp)" "rnStatus r = StatusOK"
    "evTime ev = Seconds (rnCPUTime r)" "evMemory ev = rnMemory r" using Batch_scored_run [OF assms(1,2)] by metis
  obtain i st b0 o1 where o1: "run w i st b0 o1 = Inr (r, b)" "roLimits o1 = jbLimits job" using Batch_execute_runs [OF r(1)] by metis
  have pos: "0 < liTimeMs (jbLimits job) * millisecond" using assms(3) by (simp add: millisecond_def)
  have d: "dmul (liTimeMs (jbLimits job)) millisecond = liTimeMs (jbLimits job) * millisecond"
    using assms(4) pos by (simp add: dmul_def wrap64_id in_i64_def)
  show ?thesis using run_within_limits [OF o1(1) r(2)] r(3,4) pos d o1(2) by auto
qed

section \<open>Comparators\<close>

definition comparator :: "string \<Rightarrow> bool" where
  "comparator k \<longleftrightarrow> k = [] \<or> k = ''white_diff'' \<or> k = ''exact'' \<or> k = ''float''"

definition short_tokens :: "string \<Rightarrow> bool" where
  "short_tokens data \<longleftrightarrow> (\<forall>t \<in> set (Checkers.fields data). length t \<le> 1048576)"

lemma CompareWhite_lines:
  "CompareWhite (a, None) (b, None) = Some (Inr (tokens_eq (map Checkers.fields (file_lines a)) (map Checkers.fields (file_lines b))))"
  unfolding CompareWhite_def by (rule white_loop_spec) simp

lemma CompareFloat_tokens:
  "short_tokens a \<Longrightarrow> short_tokens b \<Longrightarrow>
   CompareFloat parse absTol relTol (a, None) (b, None) = Some (Inr (list_all2 (token_match parse absTol relTol) (Checkers.fields a) (Checkers.fields b)))"
  unfolding CompareFloat_def short_tokens_def by (rule float_loop_spec) simp_all

text \<open>A comparator gives an outcome, and accepts identical content; only the float one minds long tokens.\<close>

lemma Compare_outcome:
  assumes "comparator k" "k = ''float'' \<longrightarrow> short_tokens a \<and> short_tokens b"
  shows "\<exists>x. Compare parse k (a, None) (b, None) p = Some (Inr x) \<and> (a = b \<longrightarrow> x = Correct)"
  using assms
  by (auto simp: comparator_def Compare_def CompareWhite_lines CompareFloat_tokens CompareExact_spec tokens_eq_strip token_match_def
      intro!: list_all2_refl)

lemma check_comparator:
  assumes "comparator (cpChecker p)" "fetch w (jtOutput tc) = Inr expected" "OpenOutput b outp = Inr actual"
    and "cpChecker p = ''float'' \<longrightarrow> short_tokens expected \<and> short_tokens actual"
  shows "\<exists>x. check w job p tc st b outp = Inr x \<and> (expected = actual \<longrightarrow> x = Correct)"
proof -
  have "\<not> custom p" using assms(1) by (auto simp: comparator_def custom_def)
  moreover obtain x where "Compare (wkParse w) (cpChecker p) (expected, None) (actual, None)
      \<lparr>AbsTol = cpFloatAbsTol p, RelTol = cpFloatRelTol p\<rparr> = Some (Inr x)" "expected = actual \<longrightarrow> x = Correct"
    using Compare_outcome [OF assms(1,4)] by blast
  ultimately show ?thesis using assms(2,3) by (simp add: check_def)
qed

text \<open>
  The shortcut of OutputOnly: where the submitted file has the digest of the
  correct output, the evaluation without running a comparator is the one that the comparator would
  have given, for every comparator (the float one up to its bound of 1 MiB on a token).
\<close>

theorem OutputOnly_shortcut:
  assumes "comparator (cpChecker p)" "wkBox w 0 = None" "fetch w (jtOutput tc) = Inr data"
    and "cpChecker p = ''float'' \<longrightarrow> short_tokens data"
    and "parseOutputOnly w (jbTaskTypeParams job) = Inr q" "opChecker q = p"
    and "submitted job (OutputFileName (opOutputPattern q) (jtCodename tc)) = jtOutput tc" "jtOutput tc \<noteq> []"
  shows "\<exists>ev x. OutputOnly_Evaluate w job tc = Inr (scored x ev) \<and> full_check w job p tc (jtOutput tc) = Inr x"
proof -
  have name: "checkName ''output.txt''" by code_simp
  have b: "clean_box w 0 = Inr Map.empty" using assms(2) by (simp add: clean_box_def)
  have put: "put w ''output.txt'' (jtOutput tc) Map.empty = Inr [''output.txt'' \<mapsto> Regular data]"
    using assms(3) name by (simp add: put_def name_dir_def write_in_def create_def)
  have out: "OpenOutput [''output.txt'' \<mapsto> Regular data] ''output.txt'' = Inr data" using name by (simp add: OpenOutput_def)
  have full: "full_check w job p tc (jtOutput tc) = Inr Correct"
    using check_comparator [OF assms(1,3) out] assms(4) b put by (auto simp: full_check_def)
  have "\<not> custom p" using assms(1) by (auto simp: comparator_def custom_def)
  then have "\<exists>ev. OutputOnly_Evaluate w job tc = Inr (scored Correct ev)"
    using assms(5-8) unfolding OutputOnly_Evaluate_def by (auto simp: Let_def)
  then show ?thesis using full by blast
qed

lemma long_token:
  assumes "\<forall>c \<in> set t. \<not> isSpace c" "1048576 < length (buf @ t)" "length buf \<le> 1048576"
  shows "next_token_loop buf (t @ rest) e = Inl ''token longer than 1 MiB''"
  using assms by (induction t arbitrary: buf) auto

lemma CompareFloat_long_token:
  assumes "short_tokens a" "\<forall>c \<in> set t. \<not> isSpace c" "1048576 < length t"
  shows "CompareFloat parse absTol relTol (a, None) (t @ rest, None) = Some (Inl ''token longer than 1 MiB'')"
proof -
  have "next_token (t @ rest, None) = Inl ''token longer than 1 MiB''" using long_token [of t "[]"] assms(2,3) by (simp add: next_token_def)
  then show ?thesis using next_token_spec [of a] assms(1) by (auto simp: CompareFloat_def short_tokens_def)
qed

text \<open>
  A contestant can make judging fail: with the float comparator, a program that ends
  well and prints a token of more than 1 MiB first does not get a wrong answer. The evaluation
  is an error, which the dispatcher retries and in the end reports as a system error.
\<close>

theorem long_token_system_error:
  assumes "parseBatch w (jbTaskTypeParams job) = Inr p" "cpChecker (bpChecker p) = ''float''"
    and "Batch_execute w job p (jtInput tc) = Inr (b, r, outp)" "rnStatus r = StatusOK"
    and "fetch w (jtOutput tc) = Inr expected" "short_tokens expected"
    and "OpenOutput b outp = Inr (t @ rest)" "\<forall>c \<in> set t. \<not> isSpace c" "1048576 < length t"
  shows "Batch_Evaluate w job tc = Inl (Failed ''compare: token longer than 1 MiB'')"
proof -
  have "\<not> custom (bpChecker p)" using assms(2) by (simp add: custom_def)
  then show ?thesis
    using CompareFloat_long_token [OF assms(6,8,9)] assms(1-5,7) by (simp add: Batch_Evaluate_def check_def Compare_def)
qed

section \<open>Where errors come from\<close>

definition errs :: "(worker_error \<Rightarrow> bool) \<Rightarrow> (worker_error, 'a) result \<Rightarrow> bool" where
  "errs P r \<longleftrightarrow> (\<forall>e. r = Inl e \<longrightarrow> P e)"

lemma errs_simps [simp]: "errs P (Inr x)" "errs P (Inl e) \<longleftrightarrow> P e"
  by (simp_all add: errs_def)

lemma errs_bind: "errs P r \<Longrightarrow> (\<And>x. r = Inr x \<Longrightarrow> errs P (f x)) \<Longrightarrow> errs P (bind_result r f)"
  by (cases r) (auto simp: errs_def)

lemma errs_if: "(c \<Longrightarrow> errs P a) \<Longrightarrow> (\<not> c \<Longrightarrow> errs P b) \<Longrightarrow> errs P (if c then a else b)"
  by simp

text \<open>A class of errors that holds those of the infrastructure holds those of the steps of a run.\<close>

locale error_class =
  fixes P :: "worker_error \<Rightarrow> bool"
  assumes infra: "P (Infra t)" and panic: "P WPanic"
begin

lemma fetch_errs: "errs P (fetch w d)"
  by (simp add: fetch_def infra split: Sum_Type.sum.split)

lemma write_in_errs: "errs P (write_in w what name data b)"
  by (simp add: write_in_def infra split: Sum_Type.sum.split)

lemma put_errs: "errs P (put w name d b)"
  by (auto simp: put_def infra intro!: errs_bind fetch_errs write_in_errs split: option.split)

lemma put_files_errs: "errs P (put_files w fs b)"
  by (induction fs arbitrary: b) (auto intro: errs_bind put_errs)

lemma stage_file_errs: "errs P (stage_file w name d st)"
  by (auto simp: stage_file_def infra intro!: errs_bind fetch_errs split: Sum_Type.sum.split)

lemma clear_stage_errs: "errs P (clear_stage w st)"
  by (simp add: clear_stage_def infra split: option.split)

lemma clean_box_errs: "errs P (clean_box w i)"
  by (simp add: clean_box_def infra split: option.split)

lemma run_done_errs: "errs P (run_done o1 res)"
  by (simp add: run_done_def infra split: Sum_Type.sum.split)

lemma run_errs: "errs P (run w i st b o1)"
  by (auto simp: run_def panic intro!: errs_bind put_files_errs run_done_errs split: option.split)

lemma Batch_execute_errs: "errs P (Batch_sources job p) \<Longrightarrow> errs P (Batch_execute w job p input)"
  unfolding Batch_execute_def Let_def
  by (auto intro!: errs_bind clean_box_errs clear_stage_errs stage_file_errs put_errs run_errs)

lemma steps_errs: "errs P (TwoSteps_sources job p) \<Longrightarrow> errs P (steps w job p input)"
  unfolding steps_def first_step_def second_step_def Let_def
  by (auto intro!: errs_bind clean_box_errs clear_stage_errs stage_file_errs write_in_errs run_errs simp: infra split: Sum_Type.sum.split)

lemma Batch_Evaluate_errs:
  assumes "errs P (parseBatch w (jbTaskTypeParams job))" "\<And>p. parseBatch w (jbTaskTypeParams job) = Inr p \<Longrightarrow> errs P (Batch_sources job p)"
    and "\<And>p st b outp. parseBatch w (jbTaskTypeParams job) = Inr p \<Longrightarrow> errs P (check w job (bpChecker p) tc st b outp)"
  shows "errs P (Batch_Evaluate w job tc)"
  unfolding Batch_Evaluate_def Let_def
  by (auto intro!: errs_bind Batch_execute_errs assms simp: infra split: Sum_Type.sum.split)

lemma OutputOnly_Evaluate_errs:
  assumes "errs P (parseOutputOnly w (jbTaskTypeParams job))"
    and "\<And>p st b outp. parseOutputOnly w (jbTaskTypeParams job) = Inr p \<Longrightarrow> errs P (check w job (opChecker p) tc st b outp)"
  shows "errs P (OutputOnly_Evaluate w job tc)"
  unfolding OutputOnly_Evaluate_def full_check_def Let_def by (auto intro!: errs_bind clean_box_errs put_errs assms)

lemma TwoSteps_Evaluate_errs:
  assumes "errs P (parseTwoSteps w (jbTaskTypeParams job))" "\<And>p. parseTwoSteps w (jbTaskTypeParams job) = Inr p \<Longrightarrow> errs P (TwoSteps_sources job p)"
    and "\<And>p st b outp. parseTwoSteps w (jbTaskTypeParams job) = Inr p \<Longrightarrow> errs P (check w job (tpChecker p) tc st b outp)"
  shows "errs P (TwoSteps_Evaluate w job tc)"
  unfolding TwoSteps_Evaluate_def Let_def by (auto intro!: errs_bind steps_errs assms)

end

text \<open>One that holds every other error but those of the sandbox holds those of whole evaluations.\<close>

locale plain_errors = error_class +
  assumes failed: "P (Failed t)"
begin

lemma sources_errs: "errs P (Batch_sources job bp)" "errs P (TwoSteps_sources job tp)"
  by (auto simp: Batch_sources_def TwoSteps_sources_def with_language_def newSourceSet_def Let_def failed split: option.split)

lemma decoded_errs: "errs P (decoded w what raw dec)"
  by (simp add: decoded_def Let_def failed split: option.split)

lemma parse_errs: "errs P (parseBatch w raw)" "errs P (parseOutputOnly w raw)" "errs P (parseTwoSteps w raw)"
  unfolding parseBatch_def parseOutputOnly_def parseTwoSteps_def Let_def
  by (auto intro!: errs_bind decoded_errs simp: failed)

lemma runChecker_errs:
  assumes "\<And>src hs. errs P (wkBuild w src hs)"
  shows "errs P (runChecker w job p tc st b outp)"
proof -
  have "errs P (managerExecutable w job ''checker'')"
    using assms by (auto simp: managerExecutable_def failed fetch_errs split: Sum_Type.sum.split option.split)
  then show ?thesis
    unfolding runChecker_def checker_verdict_def checker_outcome_def Let_def
    by (auto intro!: errs_bind clean_box_errs write_in_errs clear_stage_errs stage_file_errs errs_if
        simp: infra failed split: Sum_Type.sum.split)
qed

lemma check_errs: "(\<And>src hs. errs P (wkBuild w src hs)) \<Longrightarrow> errs P (check w job p tc st b outp)"
  unfolding check_def
  by (auto intro!: errs_bind fetch_errs runChecker_errs errs_if simp: infra failed split: Sum_Type.sum.split option.split)

lemma Evaluate_errs:
  assumes "\<And>src hs. errs P (wkBuild w src hs)"
  shows "errs P (Batch_Evaluate w job tc)" "errs P (OutputOnly_Evaluate w job tc)" "errs P (TwoSteps_Evaluate w job tc)"
  by (intro Batch_Evaluate_errs OutputOnly_Evaluate_errs TwoSteps_Evaluate_errs parse_errs sources_errs check_errs assms)+

end

interpretation not_failed: error_class "\<lambda>e. \<forall>t. e \<noteq> Failed t"
  by unfold_locales auto

interpretation not_sandbox: plain_errors "\<lambda>e. \<not> is_sandbox e"
  by unfold_locales auto

text \<open>
  A failure of the sandbox under a contestant's program never recycles the slot: the error keeps only
  the text, so the executor does not recognise it. (The build of a manager wraps its errors likewise.)
\<close>

theorem sandbox_error_hidden:
  assumes "\<And>src hs. errs (\<lambda>e. \<not> is_sandbox e) (wkBuild w src hs)" "name \<in> {''Batch'', ''OutputOnly'', ''TwoSteps''}"
    and "jbTaskType job = name" "jbKind job = KindEvaluate"
  shows "\<not> snd (Execute w skip job)"
proof -
  obtain tt where tt: "Get_type w name = Inr tt" "\<And>tc. errs (\<lambda>e. \<not> is_sandbox e) (ttEvaluate tt w job tc)"
    using assms(2) not_sandbox.Evaluate_errs [OF assms(1)] by (auto simp: Get_type_def registry_def)
  have "errs (\<lambda>e. \<not> is_sandbox e) (evaluate_all w skip tt job tcs)" for tcs
    using tt(2) by (induction tcs) (auto simp: errs_def dest!: bind_InlD split: if_splits Sum_Type.sum.splits)
  then have "errs (\<lambda>e. \<not> is_sandbox e) (execute_kind w skip tt job)"
    using assms(4) unfolding execute_kind_def Let_def by (auto intro!: errs_bind simp: KindEvaluate_def KindCompile_def)
  then show ?thesis using tt(1) assms(3) by (auto simp: Execute_def errs_def split: Sum_Type.sum.split)
qed

section \<open>Validated parameters\<close>

lemma next_token_loop_end:
  "next_token_loop buf cs None = Inl e \<Longrightarrow> e = ''token longer than 1 MiB''"
  "next_token_loop buf cs None = Inr (t, ok, s) \<Longrightarrow> snd s = None"
  by (induction buf cs "None :: string option" rule: next_token_loop.induct) (auto split: if_splits)

lemma float_loop_error:
  "float_loop parse absTol relTol n (a, None) (b, None) = Some (Inl e) \<Longrightarrow> e = ''token longer than 1 MiB''"
proof (induction n arbitrary: a b)
  case (Suc n)
  then show ?case
    using next_token_loop_end [of "[]" a] next_token_loop_end [of "[]" b]
    by (force simp: next_token_def split: Sum_Type.sum.splits prod.splits if_splits)
qed simp

lemma check_failed:
  assumes "checker_valid w p = Inr ()" "\<not> custom p" "check w job p tc st b outp = Inl (Failed t)"
  shows "t = ''compare: token longer than 1 MiB''"
proof -
  have k: "comparator (cpChecker p)" using assms(1,2) by (auto simp: checker_valid_def comparator_def custom_def split: if_splits)
  let ?cmp = "\<lambda>a c. Compare (wkParse w) (cpChecker p) (a, None) (c, None) \<lparr>AbsTol = cpFloatAbsTol p, RelTol = cpFloatRelTol p\<rparr>"
  obtain a where a: "fetch w (jtOutput tc) = Inr a"
    using assms(2,3) not_failed.fetch_errs [of w "jtOutput tc"] by (auto simp: check_def errs_def dest!: bind_InlD)
  then obtain c where c: "OpenOutput b outp = Inr c" using assms(2,3) by (auto simp: check_def split: Sum_Type.sum.splits)
  obtain r where r: "?cmp a c = Some r" using Compare_total by blast
  then obtain e where e: "r = Inl e" "t = ''compare: '' @ e"
    using a c assms(2,3) by (auto simp: check_def split: Sum_Type.sum.splits)
  then have "CompareFloat (wkParse w) (cpFloatAbsTol p) (cpFloatRelTol p) (a, None) (c, None) = Some (Inl e)"
    using k r by (auto simp: comparator_def Compare_def CompareWhite_lines CompareExact_spec dest!: bind_InlD)
  then have "e = ''token longer than 1 MiB''" unfolding CompareFloat_def by (rule float_loop_error)
  then show ?thesis using e(2) by simp
qed

text \<open>Why the sources of a job cannot be put together.\<close>

definition source_error :: "Job \<Rightarrow> string \<Rightarrow> bool" where
  "source_error job t \<longleftrightarrow> jbLanguage job = None \<or> (\<exists>base l. jbLanguage job = Some l \<and> t = ''no '' @ base @ '' grader for language '' @ lnID l)"

lemma sources_failed: "Batch_sources job p = Inl (Failed t) \<or> TwoSteps_sources job q = Inl (Failed t) \<Longrightarrow> source_error job t"
  by (auto simp: Batch_sources_def TwoSteps_sources_def with_language_def newSourceSet_def source_error_def Let_def split: option.splits if_splits)

lemma errs_failed: "errs (\<lambda>e. \<forall>t. e = Failed t \<longrightarrow> Q t) r \<longleftrightarrow> (\<forall>t. r = Inl (Failed t) \<longrightarrow> Q t)"
  by (auto simp: errs_def)

lemma validated_cases:
  assumes "ValidateParams w name raw = Inr ()" "''checker'' \<notin> set (RequiredManagers w name raw)"
  shows "name = ''Batch'' \<Longrightarrow> \<exists>p. parseBatch w raw = Inr p \<and> checker_valid w (bpChecker p) = Inr () \<and> \<not> custom (bpChecker p)"
    and "name = ''OutputOnly'' \<Longrightarrow> \<exists>p. parseOutputOnly w raw = Inr p \<and> checker_valid w (opChecker p) = Inr () \<and> \<not> custom (opChecker p)"
    and "name = ''TwoSteps'' \<Longrightarrow> \<exists>p. parseTwoSteps w raw = Inr p \<and> checker_valid w (tpChecker p) = Inr () \<and> \<not> custom (tpChecker p)"
  using assms by (auto simp: ValidateParams_def RequiredManagers_def opt_def dest!: bind_InrD split: if_splits)

text \<open>
  Configuration errors are found when a dataset is saved: with parameters that
  \<open>ValidateParams\<close> accepts and no custom checker, an evaluation fails for no other reason than the
  infrastructure, a missing language or grader, or a token beyond the float comparator's bound.
\<close>

theorem validated_params_judge:
  assumes "ValidateParams w name (jbTaskTypeParams job) = Inr ()" "''checker'' \<notin> set (RequiredManagers w name (jbTaskTypeParams job))"
    and "name \<in> {''Batch'', ''OutputOnly'', ''TwoSteps''}" "Get_type w name = Inr tt"
    and "ttEvaluate tt w job tc = Inl (Failed t)"
  shows "source_error job t \<or> t = ''compare: token longer than 1 MiB''"
proof -
  let ?P = "\<lambda>e. \<forall>t. e = Failed t \<longrightarrow> source_error job t \<or> t = ''compare: token longer than 1 MiB''"
  have ec: "error_class ?P" by unfold_locales auto
  note valid = validated_cases [OF assms(1,2)]
  have src: "errs ?P (Batch_sources job p)" "errs ?P (TwoSteps_sources job q)" for p q
    using sources_failed by (auto simp: errs_failed)
  have chk: "errs ?P (check w job cp tc st b outp)" if "checker_valid w cp = Inr ()" "\<not> custom cp" for cp st b outp
    using check_failed [OF that] by (auto simp: errs_failed)
  consider "name = ''Batch''" "tt = the (map_of registry ''Batch'')" | "name = ''OutputOnly''" "tt = the (map_of registry ''OutputOnly'')"
    | "name = ''TwoSteps''" "tt = the (map_of registry ''TwoSteps'')"
    using assms(3,4) by (auto simp: Get_type_def split: option.splits)
  then have "errs ?P (ttEvaluate tt w job tc)"
  proof cases
    case 1
    then show ?thesis using valid(1) src(1) chk by (auto simp: registry_def intro!: error_class.Batch_Evaluate_errs [OF ec])
  next
    case 2
    then show ?thesis using valid(2) chk by (auto simp: registry_def intro!: error_class.OutputOnly_Evaluate_errs [OF ec])
  next
    case 3
    then show ?thesis using valid(3) src(2) chk by (auto simp: registry_def intro!: error_class.TwoSteps_Evaluate_errs [OF ec])
  qed
  then show ?thesis using assms(5) by simp
qed

section \<open>The results of a job are honest\<close>

definition verdict_of :: "Worker \<Rightarrow> TaskType \<Rightarrow> Job \<Rightarrow> JobTestcase \<Rightarrow> f64" where
  "verdict_of w tt job tc = (case ttEvaluate tt w job tc of Inr (_, Fin v) \<Rightarrow> v | _ \<Rightarrow> 0)"

text \<open>An evaluation of a testcase: skipped, or with the verdict of its task type.\<close>

definition evaluated :: "Worker \<Rightarrow> (Job \<Rightarrow> JobTestcase \<Rightarrow> bool) \<Rightarrow> TaskType \<Rightarrow> Job \<Rightarrow> JobTestcase \<Rightarrow> Evaluation \<Rightarrow> bool" where
  "evaluated w skip tt job tc e \<longleftrightarrow> evTestcaseID e = jtID tc \<and> evCodename e = jtCodename tc
     \<and> (if skip job tc then evOutcome e = 0 else evOutcome e = verdict_of w tt job tc)"

lemma encode_eval_SomeD: "encode_eval x = Some e \<Longrightarrow> \<exists>v. snd x = Fin v \<and> e = (fst x)\<lparr>evOutcome := v\<rparr>"
  by (cases "snd x") (auto simp: encode_eval_def)

lemma evaluate_all_evaluated:
  assumes "Get_type w name = Inr tt" "evaluate_all w skip tt job tcs = Inr xs" "all_some (map encode_eval xs) = Some es"
  shows "list_all2 (evaluated w skip tt job) tcs es"
  using assms(2,3)
proof (induction tcs arbitrary: xs es)
  case (Cons tc tcs)
  obtain x ys where x: "xs = x # ys" "evaluate_all w skip tt job tcs = Inr ys"
    "if skip job tc then x = skipped_eval tc else ttEvaluate tt w job tc = Inr x"
    using Cons.prems(1) by (cases "skipped_eval tc") (auto dest!: bind_InrD split: if_splits Sum_Type.sum.splits)
  obtain e es' where e: "es = e # es'" "encode_eval x = Some e" "all_some (map encode_eval ys) = Some es'"
    using Cons.prems(2) x(1) by (auto simp: all_some_Some)
  have "evaluated w skip tt job tc e"
    using x(3) encode_eval_SomeD [OF e(2)] Evaluate_ok [OF assms(1), of job tc x]
    by (cases x) (auto simp: evaluated_def verdict_of_def skipped_eval_def eval_ok_def split: if_splits)
  then show ?case using Cons.IH [OF x(2) e(3)] x(1) e(1) by simp
qed (auto simp: all_some_Some)

lemma evaluate_all_error: "evaluate_all w skip tt job tcs = Inl e \<Longrightarrow> error_text e \<noteq> []"
  by (induction tcs) (auto dest!: bind_InlD split: if_splits Sum_Type.sum.splits)

text \<open>
  Property C7. Workers are honest: the published result of an evaluation job without an error has one
  evaluation for each testcase of the job, in order, each with the verdict that the task type gives
  for the testcase, or zero for a testcase that the dispatcher told the workers to skip. This is
  the assumption under which the dispatcher's scores are correct.
\<close>

theorem Execute_honest:
  assumes "Complete (fst (Execute w (service_skip skips) job)) = Some r" "reError r = []" "jbKind job = KindEvaluate"
    and "Get_type w (jbTaskType job) = Inr tt"
    and "\<And>tc t. tc \<in> set (jbTestcases job) \<Longrightarrow> t \<in> set (diTestcases di) \<Longrightarrow> teID t = jtID tc \<Longrightarrow>
           J (teCodename t) = verdict_of w tt job tc"
    and "\<And>i. skips (jbSubmissionID job) (jbDatasetID job) (jbGeneration job) i \<Longrightarrow> i \<in> S"
  shows "list_all (honest di J S) (reEvaluations r) \<and> map evTestcaseID (reEvaluations r) = map jtID (jbTestcases job)
    \<and> reSubmissionID r = jbSubmissionID job \<and> reDatasetID r = jbDatasetID job \<and> reGeneration r = jbGeneration job"
proof -
  let ?skip = "service_skip skips"
  have kind: "execute_kind w ?skip tt job = bind_result (evaluate_all w ?skip tt job (jbTestcases job)) (\<lambda>xs. Inr (ForJob job (wkName w), xs))"
    using assms(3) by (simp add: execute_kind_def KindEvaluate_def KindCompile_def)
  obtain xs where xs: "evaluate_all w ?skip tt job (jbTestcases job) = Inr xs"
    using assms(1,2,4) kind by (cases "evaluate_all w ?skip tt job (jbTestcases job)")
      (auto simp: Execute_def Complete_def ForJob_def dest: evaluate_all_error)
  then obtain es where es: "all_some (map encode_eval xs) = Some es" "r = (ForJob job (wkName w))\<lparr>reEvaluations := es\<rparr>"
    using assms(1,4) kind by (auto simp: Execute_def Complete_def)
  have all: "list_all2 (evaluated w ?skip tt job) (jbTestcases job) es" by (rule evaluate_all_evaluated [OF assms(4) xs es(1)])
  have "honest di J S e" if e: "e \<in> set es" for e
  proof -
    obtain tc where "tc \<in> set (jbTestcases job)" "evaluated w ?skip tt job tc e" using all e by (metis in_set_conv_nth list_all2_conv_all_nth)
    then show ?thesis using assms(5,6) by (fastforce simp: honest_def evaluated_def service_skip_def split: if_splits)
  qed
  moreover have "map evTestcaseID es = map jtID (jbTestcases job)"
    using all by (auto simp: list_all2_conv_all_nth evaluated_def intro!: nth_equalityI)
  ultimately show ?thesis by (simp add: es(2) ForJob_def list_all_iff)
qed

text \<open>
  A job whose evaluations hold a NaN is never finished: the result cannot be encoded, the job stays
  pending and is run again and again.
\<close>

lemma nan_job_stuck:
  assumes "execute_kind w skip tt job = Inr (r, xs)" "Get_type w (jbTaskType job) = Inr tt" "(ev, NaN) \<in> set xs"
    and "\<not> (jbSubmissionID job \<noteq> 0 \<and> superseded (jbSubmissionID job))"
  shows "loop_step w skip superseded deferred published prio (Some job) = StillPending"
proof -
  have "None \<in> set (map encode_eval xs)" using assms(3) by (force simp: encode_eval_def image_iff)
  moreover have "None \<notin> set (map Some ys)" for ys :: "Evaluation list" by auto
  ultimately have "all_some (map encode_eval xs) = None" by (metis all_some_Some not_Some_eq)
  then show ?thesis using assms(1,2,4) by (auto simp: loop_step_def Execute_def Complete_def)
qed

section \<open>Compilation\<close>

lemma put_user_names: "put_user w names fs b = Inr (Inr b') \<Longrightarrow> fiName ` set fs \<inter> set names = {}"
  by (induction fs arbitrary: b) (auto dest!: bind_InrD split: if_splits)

lemma upload_artifacts_names:
  "upload_artifacts w b ns c = Inr c' \<Longrightarrow> coSuccess c' \<Longrightarrow> map fiName (coExecutables c') = map fiName (coExecutables c) @ ns"
proof (induction ns arbitrary: c)
  case (Cons n ns)
  then show ?case
    by (auto simp: uploadFile_def split: Sum_Type.sum.splits worker_error.splits if_splits)
qed simp

lemma compile_steps_executables:
  "compile_steps w i lang v ts (c, outs, es, b) = Inr (c', st) \<Longrightarrow> coExecutables c' = coExecutables c"
  by (induction ts arbitrary: c outs es b)
    (auto simp: Let_def compile_failed_def split: Sum_Type.sum.splits prod.splits if_splits)

lemma add_artifacts_one: "add_artifacts b [] [exe] = x # xs \<Longrightarrow> x = exe \<and> xs = []"
  by (auto split: Sum_Type.sum.splits)

text \<open>
  Property C37. A contestant cannot replace the task's files: when a compilation succeeds, no
  submitted file has the name of a manager of the task, and its executables are not empty and start
  with the one that the language runs.
\<close>

theorem compile_safe:
  assumes "compile w i b s = Inr c" "coSuccess c"
  shows "fiName ` set (ssUser s) \<inter> fiName ` set (ssManagers s) = {}
    \<and> (\<exists>exe f fs. ExecutableName (ssLang s) (src_main s) = Some exe \<and> coExecutables c = f # fs \<and> fiName f = exe)"
proof -
  obtain b1 u where u: "put_user w (map fiName (ssManagers s)) (ssUser s) b1 = Inr u"
    "case u of Inl name \<Rightarrow> False | Inr b2 \<Rightarrow> \<exists>b3 exe v st c0 x.
       ExecutableName (ssLang s) (src_main s) = Some exe \<and> compile_steps w i (ssLang s) v (lnCompile (ssLang s)) (new_compilation True MsgCompilationSucceeded, [], [], b3) = Inr (c0, x)
       \<and> finish_compile w (ssLang s) exe (c0, x) = Inr c"
    using assms by (fastforce simp: compile_def new_compilation_def dest!: bind_InrD split: Sum_Type.sum.splits option.splits)
  then obtain b2 where b2: "u = Inr b2" by (auto split: Sum_Type.sum.splits)
  then obtain b3 exe v c0 x where x: "ExecutableName (ssLang s) (src_main s) = Some exe"
    "compile_steps w i (ssLang s) v (lnCompile (ssLang s)) (new_compilation True MsgCompilationSucceeded, [], [], b3) = Inr (c0, x)"
    "finish_compile w (ssLang s) exe (c0, x) = Inr c" using u(2) by auto
  have e0: "coExecutables c0 = []" using compile_steps_executables [OF x(2)] by (simp add: new_compilation_def)
  obtain names c1 b' where n: "upload_artifacts w b' names c1 = Inr c" "names \<noteq> []" "hd names = exe" "coExecutables c1 = []"
    using x(3) assms(2) e0 by (cases x) (auto simp: finish_compile_def Let_def split: if_splits Sum_Type.sum.splits)
  then have "map fiName (coExecutables c) = names" using upload_artifacts_names [OF n(1) assms(2)] by simp
  then have "\<exists>f fs. coExecutables c = f # fs \<and> fiName f = exe" using n(2,3) by (cases "coExecutables c") auto
  then show ?thesis using put_user_names u(1) b2 x(1) by fastforce
qed

section \<open>Examples\<close>

text \<open>A worker whose blobs are their own digests and whose programs write \<open>out\<close> and end well.\<close>

definition wx_worker :: "string \<Rightarrow> Worker" where
  "wx_worker out = \<lparr>wkParse = \<lambda>_. None, wkJson = \<lambda>_. Some (JObj [(''checker'', JStr ''float'')]), wkJsonError = id, wkQuote = id,
     wkFileText = \<lambda>_. ''file'', wkCheckerText = \<lambda>_. ''checker'', wkFetch = Inr, wkStore = \<lambda>d. Inr (d, int (length d)), wkBox = \<lambda>_. None, wkMkdir = \<lambda>_ _. None,
     wkClear = None, wkBoxID = int, wkMetaPath = \<lambda>_. ''meta'', wkIsolate = \<lparr>isCG = False, isLauncher = []\<rparr>,
     wkExec = \<lambda>_ b _. Some ([''exitcode:0''], b(runStdout \<mapsto> Regular out, ''main'' \<mapsto> Regular out)), wkJoint = \<lambda>_ _. [], wkStageDir = ''/stage'', wkFifoDir = ''/fifos'',
     wkFifos = None, wkPipes = None, wkSandboxDirs = [], wkGlob = \<lambda>_. [], wkBoxGlob = \<lambda>_ _. Inr [], wkSeed = \<lambda>_ b. Inr b,
     wkBuild = \<lambda>_ _. Inl (Failed ''build''), wkName = ''worker''\<rparr>"

definition wx_lang :: Language where
  "wx_lang = \<lparr>lnID = ''c'', lnName = ''C'', lnVersionCommand = [], lnSourceExtensions = [''.c''], lnHeaderExtensions = [''.h''],
     lnCompile = [[''cc'']], lnExecutable = ''main'', lnKeepFiles = [], lnRun = [''./main''],
     lnCompileLimits = \<lparr>clTime = 0, clMemory = 0, clProcesses = 1, clOutput = 0\<rparr>, lnRunProcesses = 1, lnEnv = [], lnDirs = [],
     lnNoAddressSpaceLimit = False, lnCompileSeed = None, lnTimeMultiplier = 1\<rparr>"

definition wx_job :: "string \<Rightarrow> string \<Rightarrow> Job" where
  "wx_job tty raw = \<lparr>jbID = ''j'', jbKind = KindEvaluate, jbAttempt = 0, jbPriority = PriorityEvaluate, jbSubmissionID = 1, jbUserTestID = 0,
     jbDatasetID = 2, jbGeneration = 0, jbTaskType = tty, jbTaskTypeParams = raw, jbLanguage = Some wx_lang,
     jbFiles = [\<lparr>fiName = ''output_01.txt'', fiDigest = ''7'', fiSize = 1\<rparr>], jbManagers = [], jbExecutables = [],
     jbLimits = \<lparr>liTimeMs = 1000, liWallTimeMs = 0, liMemoryBytes = 1024, liOutputBytes = 0, liProcesses = 1\<rparr>,
     jbTestcases = [\<lparr>jtID = 5, jtCodename = ''01'', jtInput = ''x'', jtOutput = ''7''\<rparr>], jbInput = []\<rparr>"

abbreviation wx_tc :: JobTestcase where
  "wx_tc \<equiv> \<lparr>jtID = 5, jtCodename = ''01'', jtInput = ''x'', jtOutput = ''7''\<rparr>"

definition wx_params :: "string \<Rightarrow> BatchParams" where
  "wx_params c = \<lparr>bpCompilation = ''alone'', bpInputFile = [], bpOutputFile = [],
     bpChecker = \<lparr>cpChecker = c, cpFloatAbsTol = 0, cpFloatRelTol = 0, cpTimeLimitMs = 0, cpMemoryBytes = 0\<rparr>\<rparr>"

definition wx_run :: Run where
  "wx_run = \<lparr>rnStatus = StatusOK, rnExitCode = 0, rnSignal = 0, rnCPUTime = 0, rnWallTime = 0, rnMemory = 0, rnMessage = []\<rparr>"

lemma wx_simps [simp]:
  "jbTaskType (wx_job tty raw) = tty" "jbTaskTypeParams (wx_job tty raw) = raw" "jbExecutables (wx_job tty raw) = []"
  "liMemoryBytes (jbLimits (wx_job tty raw)) = 1024" "liTimeMs (jbLimits (wx_job tty raw)) = 1000"
  "bpChecker (wx_params c) = \<lparr>cpChecker = c, cpFloatAbsTol = 0, cpFloatRelTol = 0, cpTimeLimitMs = 0, cpMemoryBytes = 0\<rparr>"
  "bpInputFile (wx_params c) = []" "bpOutputFile (wx_params c) = []" "rnStatus wx_run = StatusOK" "rnMemory wx_run = 0"
  by (simp_all add: wx_job_def wx_params_def wx_run_def)

lemma wx_parse:
  "parseBatch (wx_worker out) [] = Inr (wx_params [])" "parseBatch (wx_worker out) ''p'' = Inr (wx_params ''float'')"
  by (simp_all add: parseBatch_def decoded_def decode_batch_def decode_checker_def jget_def field_def wx_params_def wx_worker_def
      same_key_def lower_def Let_def)

lemma wx_classify: "classify (\<lambda>_. None) (readMeta [''exitcode:0'']) l False = wx_run"
  by (simp add: classify_def readMeta_def cut_colon_def meta_get_def ParseInt_def meta_memory_def run_status_def parseSeconds_def wx_run_def
      digit_value_def is_digit_def Let_def)

definition wx_sources :: sourceSet where
  "wx_sources = \<lparr>ssLang = wx_lang, ssUser = [\<lparr>fiName = ''output_01.txt'', fiDigest = ''7'', fiSize = 1\<rparr>], ssManagers = [], ssGrader = []\<rparr>"

definition wx_box :: "string \<Rightarrow> box" where
  "wx_box out = [runStdout \<mapsto> Regular out, ''main'' \<mapsto> Regular out]"

lemma wx_srcs: "Batch_sources (wx_job tty raw) (wx_params c) = Inr wx_sources"
  by (simp add: Batch_sources_def with_language_def newSourceSet_def wx_job_def wx_params_def wx_sources_def)

lemma wx_exe: "ExecutableName wx_lang m = Some ''main''"
  unfolding wx_lang_def by code_simp

lemma wx_box_run:
  assumes "spArgs s \<noteq> []"
  shows "box_run (wx_worker out) i s st b = Inr (wx_run, b(runStdout \<mapsto> Regular out, ''main'' \<mapsto> Regular out))"
proof -
  have "readMeta [''exitcode:0''] \<noteq> []" by (simp add: readMeta_def cut_colon_def)
  then show ?thesis using assms wx_classify [of "spLimits s"]
    by (simp add: box_run_def Run_def Run_end_def wx_worker_def)
qed

lemma wx_program:
  assumes "roLang o1 = wx_lang" "roExecutables o1 = []" "liMemoryBytes (roLimits o1) \<ge> 0"
  shows "run (wx_worker out) i st b o1 = Inr (wx_run, b(runStdout \<mapsto> Regular out, ''main'' \<mapsto> Regular out))"
proof -
  obtain s where s: "run_spec (wx_worker out) o1 = Some s" "spArgs s \<noteq> []"
    using assms(1) by (simp add: run_spec_def wx_exe) (simp add: wx_lang_def Expand_def)
  have "enforce_memory (liMemoryBytes (roLimits o1)) wx_run = wx_run" using assms(3) by (simp add: enforce_memory_def wx_run_def)
  then show ?thesis using assms(2) s wx_box_run [OF s(2)] by (simp add: run_def run_done_def)
qed

lemma wx_execute: "Batch_execute (wx_worker out) (wx_job tty raw) (wx_params c) input = Inr (wx_box out, wx_run, runStdout)"
proof -
  have "checkName ''input''" by code_simp
  then have "stage_Add input ''input'' (stage_Clear Map.empty) \<noteq> Inl e" for e by (simp add: stage_Add_def stage_Clear_def)
  then obtain st where "stage_file (wx_worker out) ''input'' input (stage_Clear Map.empty) = Inr (stage_Path ''input'', st)"
    by (cases "stage_Add input ''input'' (stage_Clear Map.empty)") (auto simp: stage_file_def fetch_def wx_worker_def)
  moreover have "clean_box (wx_worker out) 0 = Inr Map.empty" "clear_stage (wx_worker out) Map.empty = Inr (stage_Clear Map.empty)"
    by (simp_all add: clean_box_def clear_stage_def wx_worker_def)
  ultimately show ?thesis
    by (simp add: Batch_execute_def wx_srcs) (simp add: wx_program base_options_def wx_sources_def wx_box_def)
qed

lemma wx_output: "OpenOutput (wx_box out) runStdout = Inr out"
proof -
  have "checkName runStdout" by code_simp
  then show ?thesis by (simp add: OpenOutput_def wx_box_def runStdout_def)
qed

text \<open>A program that prints the correct output has all the points.\<close>

lemma wx_correct: "Batch_Evaluate (wx_worker ''7'') (wx_job tty []) wx_tc = Inr (scored Correct (evaluationFromRun wx_tc wx_run))"
proof -
  have "fetch (wx_worker ''7'') ''7'' = Inr ''7''" by (simp add: fetch_def wx_worker_def)
  then obtain x where "check (wx_worker ''7'') (wx_job tty []) (bpChecker (wx_params [])) wx_tc Map.empty (wx_box ''7'') runStdout = Inr x" "x = Correct"
    using check_comparator [of "bpChecker (wx_params [])" "wx_worker ''7''" wx_tc "''7''" "wx_box ''7''" runStdout "''7''"] wx_output
    by (fastforce simp: comparator_def)
  then show ?thesis by (simp add: Batch_Evaluate_def wx_parse wx_execute wx_output)
qed

lemma wx_batch: "Get_type w ''Batch'' = Inr \<lparr>ttCompile = Batch_Compile, ttEvaluate = Batch_Evaluate, ttUserTest = Batch_UserTest\<rparr>"
  by (simp add: Get_type_def registry_def)

lemma wx_score: "ocScore Correct = Fin 1"
  by (simp add: Correct_def)


theorem Batch_within_limits_witness:
  "Batch_Evaluate (wx_worker ''7'') (wx_job ''Batch'' []) wx_tc = Inr (scored Correct (evaluationFromRun wx_tc wx_run))
   \<and> evMemory (fst (scored Correct (evaluationFromRun wx_tc wx_run))) \<le> 1024"
  using Batch_within_limits [of "wx_worker ''7''" "wx_job ''Batch'' []" wx_tc
      "fst (scored Correct (evaluationFromRun wx_tc wx_run))" "Fin 1"] wx_correct wx_score
  by (simp add: scored_def millisecond_def)

theorem long_token_system_error_witness:
  "Batch_Evaluate (wx_worker (replicate 1048577 (CHR ''a''))) (wx_job ''Batch'' ''p'') wx_tc = Inl (Failed ''compare: token longer than 1 MiB'')"
proof -
  define t where "t = replicate 1048577 (CHR ''a'')"
  have t: "\<forall>c \<in> set t. \<not> isSpace c" "1048576 < length t" by (simp_all add: t_def isSpace_def)
  have "Checkers.fields ''7'' = [''7'']" by code_simp
  then have "short_tokens ''7''" "fetch (wx_worker t) ''7'' = Inr ''7''" by (simp_all add: short_tokens_def fetch_def wx_worker_def)
  then show ?thesis
    unfolding t_def [symmetric]
    using long_token_system_error [of "wx_worker t" "wx_job ''Batch'' ''p''" "wx_params ''float''" wx_tc "wx_box t" wx_run runStdout "''7''" t "[]"]
    by (simp add: wx_parse wx_execute wx_output t)
qed

theorem OutputOnly_shortcut_witness:
  "\<exists>ev x. OutputOnly_Evaluate (wx_worker []) (wx_job ''OutputOnly'' []) wx_tc = Inr (scored x ev)
     \<and> full_check (wx_worker []) (wx_job ''OutputOnly'' []) \<lparr>cpChecker = [], cpFloatAbsTol = 0, cpFloatRelTol = 0, cpTimeLimitMs = 0, cpMemoryBytes = 0\<rparr>
         wx_tc ''7'' = Inr x"
proof -
  let ?p = "\<lparr>cpChecker = [], cpFloatAbsTol = 0, cpFloatRelTol = 0, cpTimeLimitMs = 0, cpMemoryBytes = 0\<rparr>"
  have "count_verb default_pattern = 1" unfolding default_pattern_def by code_simp
  then obtain q where q: "parseOutputOnly (wx_worker []) [] = Inr q" "opChecker q = ?p" "opOutputPattern q = default_pattern"
    by (simp add: parseOutputOnly_def decoded_def decode_outputonly_def decode_checker_def jget_def field_def Let_def)
  have "submitted (wx_job ''OutputOnly'' []) (OutputFileName default_pattern ''01'') = ''7''"
    unfolding wx_job_def default_pattern_def by code_simp
  moreover have "comparator (cpChecker ?p)" "wkBox (wx_worker []) 0 = None" "fetch (wx_worker []) ''7'' = Inr ''7''"
    by (simp_all add: comparator_def wx_worker_def fetch_def)
  ultimately show ?thesis using OutputOnly_shortcut [of ?p "wx_worker []" wx_tc "''7''" "wx_job ''OutputOnly'' []" q] q by simp
qed

lemma wx_parse_valid: "ValidateParams (wx_worker out) ''Batch'' [] = Inr ()" "RequiredManagers (wx_worker out) ''Batch'' [] = []"
  by (simp_all add: ValidateParams_def RequiredManagers_def wx_batch wx_parse checker_valid_def custom_def opt_def) (simp add: wx_params_def)

theorem validated_params_judge_witness:
  "ValidateParams (wx_worker []) ''Batch'' [] = Inr ()
   \<and> Batch_Evaluate (wx_worker []) ((wx_job ''Batch'' [])\<lparr>jbLanguage := None\<rparr>) wx_tc = Inl (Failed ''Batch submissions need a language'')
   \<and> source_error ((wx_job ''Batch'' [])\<lparr>jbLanguage := None\<rparr>) ''Batch submissions need a language''"
proof -
  let ?job = "(wx_job ''Batch'' [])\<lparr>jbLanguage := None\<rparr>"
  have e: "Batch_Evaluate (wx_worker []) ?job wx_tc = Inl (Failed ''Batch submissions need a language'')"
    by (simp add: Batch_Evaluate_def wx_parse Batch_execute_def Batch_sources_def with_language_def)
  then show ?thesis
    using validated_params_judge [OF _ _ _ wx_batch, of "wx_worker []" ?job wx_tc "''Batch submissions need a language''"] wx_parse_valid by simp
qed

definition wx_di :: datasetInfo where
  "wx_di = \<lparr>diDs = \<lparr>dtID = 2, dtTaskID = 1, dtTaskType = ''Batch'', dtTaskTypeParams = [], dtTimeLimitMs = Some 1000,
       dtWallTimeLimitMs = None, dtMemoryLimitBytes = Some 1024, dtOutputLimitBytes = 0, dtProcessLimit = 1, dtScoreType = ''Sum'',
       dtScoreTypeParams = Some (JInt 100), dtShortCircuit = False, dtAutojudge = False\<rparr>,
     diTask = \<lparr>tkID = 1, tkContestID = Some 3, tkActiveDatasetID = Some 2, tkScoreMode = ModeMax, tkScorePrecision = 0\<rparr>,
     diManagers = [], diTestcases = [\<lparr>teID = 5, teDatasetID = 2, teCodename = ''01'', tePublic = True, teInputDigest = ''x'', teOutputDigest = ''7''\<rparr>],
     diScoreType = NilSum, diScoreTypeErr = None\<rparr>"

definition wx_result :: JobResult where
  "wx_result = (ForJob (wx_job ''Batch'' []) ''worker'')\<lparr>reEvaluations :=
     [(fst (scored Correct (evaluationFromRun wx_tc wx_run)))\<lparr>evOutcome := 1\<rparr>]\<rparr>"

text \<open>A correct solution: the published result has the points, and they are the ones of the honest verdict.\<close>

theorem Execute_honest_witness:
  "Complete (fst (Execute (wx_worker ''7'') (service_skip (\<lambda>_ _ _ _. False)) (wx_job ''Batch'' []))) = Some wx_result
   \<and> list_all (honest wx_di (\<lambda>_. 1) {}) (reEvaluations wx_result) \<and> map evTestcaseID (reEvaluations wx_result) = [5]"
proof -
  let ?w = "wx_worker ''7''" and ?job = "wx_job ''Batch'' []" and ?skip = "service_skip (\<lambda>_ _ _ _. False)"
  let ?tt = "\<lparr>ttCompile = Batch_Compile, ttEvaluate = Batch_Evaluate, ttUserTest = Batch_UserTest\<rparr>"
  have tcs: "jbTestcases ?job = [wx_tc]" "jbKind ?job = KindEvaluate" by (simp_all add: wx_job_def)
  have "evaluate_all ?w ?skip ?tt ?job [wx_tc] = Inr [scored Correct (evaluationFromRun wx_tc wx_run)]"
    using wx_correct by (simp add: service_skip_def)
  then have k: "execute_kind ?w ?skip ?tt ?job = Inr (ForJob ?job ''worker'', [scored Correct (evaluationFromRun wx_tc wx_run)])"
    using tcs by (simp add: execute_kind_def KindEvaluate_def KindCompile_def) (simp add: wx_worker_def)
  have r: "Complete (fst (Execute ?w ?skip ?job)) = Some wx_result"
    by (simp add: Execute_def wx_batch k Complete_def encode_eval_def wx_score wx_result_def)
  have v: "verdict_of ?w ?tt ?job wx_tc = 1" using wx_correct wx_score by (simp add: verdict_of_def scored_def)
  have "reError wx_result = []" by (simp add: wx_result_def ForJob_def)
  then show ?thesis
    using Execute_honest [OF r _ tcs(2), of ?tt wx_di "\<lambda>_. 1" "{}"] wx_batch v r tcs(1) by simp
qed

definition wx_set :: sourceSet where
  "wx_set = \<lparr>ssLang = wx_lang, ssUser = [\<lparr>fiName = ''a.c'', fiDigest = ''text'', fiSize = 4\<rparr>],
     ssManagers = [\<lparr>fiName = ''task.h'', fiDigest = ''header'', fiSize = 6\<rparr>], ssGrader = []\<rparr>"

lemma wx_put: "checkName n \<Longrightarrow> b n = None \<Longrightarrow> put (wx_worker out) n d b = Inr (b(n \<mapsto> Regular d))"
  by (simp add: put_def name_dir_def fetch_def write_in_def create_def wx_worker_def)

lemma wx_steps:
  "coSuccess c \<Longrightarrow> \<exists>c' outs es b'. compile_steps (wx_worker []) 0 wx_lang v (lnCompile wx_lang) (c, [], [], b) = Inr (c', outs, es, b')
     \<and> coSuccess c' \<and> b' ''main'' = Some (Regular [])"
  by (simp add: wx_lang_def wx_box_run Expand_def Let_def compileStdout_def compileStderr_def)

lemma wx_finish:
  assumes "coSuccess c" "b ''main'' = Some (Regular [])"
  shows "\<exists>c'. finish_compile (wx_worker []) wx_lang ''main'' (c, outs, es, b) = Inr c' \<and> coSuccess c'"
proof -
  have "checkName ''main''" by code_simp
  then have out: "OpenOutput b ''main'' = Inr []" using assms(2) by (simp add: OpenOutput_def)
  then have "collectArtifacts (wx_worker []) b wx_lang ''main'' = Inr [''main'']" by (simp add: collectArtifacts_def wx_lang_def)
  then show ?thesis using assms(1) out
    by (simp add: finish_compile_def Let_def uploadFile_def maxExecutableSize_def wx_worker_def)
qed

lemma wx_compile: "\<exists>c. compile (wx_worker []) 0 Map.empty wx_set = Inr c \<and> coSuccess c"
proof -
  have n: "checkName ''a.c''" "checkName ''task.h''" by code_simp+
  obtain b where files: "put_files (wx_worker []) (ssManagers wx_set) Map.empty = Inr [''task.h'' \<mapsto> Regular ''header'']"
    "put_user (wx_worker []) [''task.h''] (ssUser wx_set) [''task.h'' \<mapsto> Regular ''header''] = Inr (Inr b)"
    using n by (simp add: wx_set_def wx_put)
  have set: "ssLang wx_set = wx_lang" "map fiName (ssManagers wx_set) = [''task.h'']" "\<And>b. wkSeed (wx_worker []) wx_lang b = Inr b"
    by (simp_all add: wx_set_def wx_worker_def)
  obtain c outs es b' where steps: "compile_steps (wx_worker []) 0 wx_lang
      \<lparr>vSources = src_list wx_set, vMain = src_main wx_set, vMainSource = (case src_list wx_set of [] \<Rightarrow> [] | x # _ \<Rightarrow> x), vExecutable = ''main'', vMemory = 0\<rparr>
      (lnCompile wx_lang) (new_compilation True MsgCompilationSucceeded, [], [], b) = Inr (c, outs, es, b')" "coSuccess c" "b' ''main'' = Some (Regular [])"
    using wx_steps by (metis (no_types) new_compilation_def Compilation.select_convs(1))
  show ?thesis using wx_finish [of c b'] steps(2,3) by (simp add: compile_def files set wx_exe steps(1))
qed

theorem compile_safe_witness:
  "(\<exists>c f fs. compile (wx_worker []) 0 Map.empty wx_set = Inr c \<and> coExecutables c = f # fs \<and> fiName f = ''main'')
   \<and> fiName ` set (ssUser wx_set) \<inter> fiName ` set (ssManagers wx_set) = {}"
proof -
  obtain c where c: "compile (wx_worker []) 0 Map.empty wx_set = Inr c" "coSuccess c" using wx_compile by blast
  have "ssLang wx_set = wx_lang" by (simp add: wx_set_def)
  then show ?thesis using compile_safe [OF c] c(1) wx_exe by auto
qed

end
