(* ===== verification/Job_Queue.thy ===== *)
theory Job_Queue
  imports Jobs
begin

text \<open>
  The job queues (\<^verbatim>\<open>src/internal/queue/queue.go\<close>) and the monitor that takes jobs back from dead
  workers (\<^verbatim>\<open>src/internal/monitor/monitor.go\<close>). Redis is a parameter: the record \<open>Redis\<close> has the
  commands the code uses and what a stream with its consumer group holds, and the locale
  \<open>redis_streams\<close> the documented behaviour of streams. The JSON encodings are parameters too.
  The identifier of a message is its rank in the history of its stream.
\<close>

section \<open>Streams\<close>

text \<open>
  \<open>rdWaiting\<close> are the messages not yet delivered to the group, \<open>rdPending\<close> the delivered and not
  acknowledged ones with their consumers, \<open>rdIdle\<close> the time since the delivery. \<open>rdRead\<close> is
  \<^verbatim>\<open>XREADGROUP\<close> of new messages with \<^verbatim>\<open>COUNT 1\<close> on several streams: at most one message of each
  stream. \<open>rdRemove\<close> is \<^verbatim>\<open>XACK\<close> and \<^verbatim>\<open>XDEL\<close>.
\<close>

record ('s, 'v) Redis =
  rdWaiting :: "'s \<Rightarrow> string \<Rightarrow> (nat \<times> 'v) list"
  rdPending :: "'s \<Rightarrow> string \<Rightarrow> (nat \<times> string \<times> 'v) list"
  rdLast :: "'s \<Rightarrow> string \<Rightarrow> nat"
  rdIdle :: "'s \<Rightarrow> string \<Rightarrow> nat \<Rightarrow> duration"
  rdAdd :: "string \<Rightarrow> 'v \<Rightarrow> 's \<Rightarrow> 's"
  rdRead :: "string list \<Rightarrow> string \<Rightarrow> 's \<Rightarrow> 's \<times> (string \<times> nat \<times> 'v) list"
  rdRemove :: "string \<Rightarrow> nat \<Rightarrow> 's \<Rightarrow> 's"
  rdClaim :: "string \<Rightarrow> string \<Rightarrow> duration \<Rightarrow> nat \<Rightarrow> 's \<Rightarrow> 's \<times> 'v option"

definition claimed :: "string \<Rightarrow> nat \<Rightarrow> nat \<times> string \<times> 'v \<Rightarrow> nat \<times> string \<times> 'v" where
  "claimed c i = (\<lambda>(i', c', v). if i' = i then (i', c, v) else (i', c', v))"

locale redis_streams =
  fixes R :: "('s, 'v) Redis"
  assumes add: "rdWaiting R (rdAdd R st v s) st' = rdWaiting R s st' @ (if st' = st then [(Suc (rdLast R s st), v)] else [])"
      "rdPending R (rdAdd R st v s) st' = rdPending R s st'"
      "rdLast R (rdAdd R st v s) st' = (if st' = st then Suc (rdLast R s st) else rdLast R s st')"
    and read: "distinct sts \<Longrightarrow> snd (rdRead R sts c s) = concat (map (\<lambda>st. map (\<lambda>(i, v). (st, i, v)) (take 1 (rdWaiting R s st))) sts)"
      "distinct sts \<Longrightarrow> rdWaiting R (fst (rdRead R sts c s)) st = (if st \<in> set sts then drop 1 (rdWaiting R s st) else rdWaiting R s st)"
      "distinct sts \<Longrightarrow> rdPending R (fst (rdRead R sts c s)) st =
         rdPending R s st @ (if st \<in> set sts then map (\<lambda>(i, v). (i, c, v)) (take 1 (rdWaiting R s st)) else [])"
      "distinct sts \<Longrightarrow> rdLast R (fst (rdRead R sts c s)) st = rdLast R s st"
    and remove: "rdWaiting R (rdRemove R st i s) st' = (if st' = st then filter (\<lambda>m. fst m \<noteq> i) (rdWaiting R s st') else rdWaiting R s st')"
      "rdPending R (rdRemove R st i s) st' = (if st' = st then filter (\<lambda>m. fst m \<noteq> i) (rdPending R s st') else rdPending R s st')"
      "rdLast R (rdRemove R st i s) st' = rdLast R s st'"
    and claim: "snd (rdClaim R st c idle i s) = Some v \<Longrightarrow> \<exists>c'. (i, c', v) \<in> set (rdPending R s st)"
      "rdWaiting R (fst (rdClaim R st c idle i s)) st' = rdWaiting R s st'"
      "rdPending R (fst (rdClaim R st c idle i s)) st' =
         (if st' = st \<and> snd (rdClaim R st c idle i s) \<noteq> None then map (claimed c i) (rdPending R s st') else rdPending R s st')"
      "rdLast R (fst (rdClaim R st c idle i s)) st' = rdLast R s st'"
    and ids: "distinct (map fst (rdWaiting R s st) @ map fst (rdPending R s st))"
      "i \<in> fst ` set (rdWaiting R s st) \<union> fst ` set (rdPending R s st) \<Longrightarrow> i \<le> rdLast R s st"

section \<open>The queue\<close>

definition queue_Key :: "string \<Rightarrow> string list \<Rightarrow> string" where
  "queue_Key ns parts = ns @ Join '':'' parts"

definition JobStream :: "string \<Rightarrow> Priority \<Rightarrow> string" where
  "JobStream ns p = queue_Key ns [''q'', Priority_String p]"

definition resultsStream :: "string \<Rightarrow> string" where
  "resultsStream ns = queue_Key ns [''results'']"

definition Enqueue :: "('s, 'v) Redis \<Rightarrow> (Job \<Rightarrow> 'v) \<Rightarrow> string \<Rightarrow> Priority \<Rightarrow> Job \<Rightarrow> 's \<Rightarrow> 's" where
  "Enqueue R enc ns p j = rdAdd R (JobStream ns p) (enc j)"

definition EnqueueMany :: "('s, 'v) Redis \<Rightarrow> (Job \<Rightarrow> 'v) \<Rightarrow> string \<Rightarrow> Item list \<Rightarrow> 's \<Rightarrow> 's" where
  "EnqueueMany R enc ns items s = foldl (\<lambda>s it. Enqueue R enc ns (itPriority it) (itJob it) s) s items"

record 'v Delivery =
  dlPriority :: Priority
  dlID :: nat
  dlJob :: "Job option"
  dlRaw :: 'v

text \<open>\<^verbatim>\<open>s[strings.LastIndex(s, ":")+1:]\<close>.\<close>

definition after_colon :: "string \<Rightarrow> string" where
  "after_colon s = rev (takeWhile (\<lambda>c. c \<noteq> CHR '':'') (rev s))"

fun firstDelivery :: "('v \<Rightarrow> Job option) \<Rightarrow> (string \<times> nat \<times> 'v) list \<Rightarrow> 'v Delivery option" where
  "firstDelivery dec [] = None"
| "firstDelivery dec ((st, i, v) # ms) =
     Some \<lparr>dlPriority = (case ParsePriority (after_colon st) of Some p \<Rightarrow> p | None \<Rightarrow> 0), dlID = i, dlJob = dec v, dlRaw = v\<rparr>"

fun poll :: "('s, 'v) Redis \<Rightarrow> ('v \<Rightarrow> Job option) \<Rightarrow> string \<Rightarrow> string \<Rightarrow> Priority list \<Rightarrow> 's \<Rightarrow> 's \<times> 'v Delivery option" where
  "poll R dec ns c [] s = (s, None)"
| "poll R dec ns c (p # ps) s =
     (let (s', ms) = rdRead R [JobStream ns p] c s
      in case firstDelivery dec ms of Some d \<Rightarrow> (s', Some d) | None \<Rightarrow> poll R dec ns c ps s')"

text \<open>\<open>env\<close> is what the other clients do before the blocking read returns.\<close>

definition Next :: "('s, 'v) Redis \<Rightarrow> ('v \<Rightarrow> Job option) \<Rightarrow> string \<Rightarrow> string \<Rightarrow> Priority list \<Rightarrow> ('s \<Rightarrow> 's) \<Rightarrow> 's \<Rightarrow> 's \<times> 'v Delivery option" where
  "Next R dec ns c allowed0 env s =
     (let allowed = (if allowed0 = [] then serviceOrder else allowed0)
      in case poll R dec ns c allowed s of
           (s', Some d) \<Rightarrow> (s', Some d)
         | (s', None) \<Rightarrow> (let (s2, ms) = rdRead R (map (JobStream ns) allowed) c (env s') in (s2, firstDelivery dec ms)))"

definition Ack :: "('s, 'v) Redis \<Rightarrow> string \<Rightarrow> 'v Delivery \<Rightarrow> 's \<Rightarrow> 's" where
  "Ack R ns d = rdRemove R (JobStream ns (dlPriority d)) (dlID d)"

definition Defer :: "('s, 'v) Redis \<Rightarrow> (Job \<Rightarrow> 'v) \<Rightarrow> string \<Rightarrow> 'v Delivery \<Rightarrow> Job \<Rightarrow> 's \<Rightarrow> 's" where
  "Defer R enc ns d j s = Ack R ns d (rdAdd R (JobStream ns PriorityDeferred) (enc (j\<lparr>jbPriority := PriorityDeferred\<rparr>)) s)"

definition PublishResult :: "('s, 'v) Redis \<Rightarrow> (JobResult \<Rightarrow> 'v) \<Rightarrow> string \<Rightarrow> JobResult \<Rightarrow> 's \<Rightarrow> 's" where
  "PublishResult R encR ns r = rdAdd R (resultsStream ns) (encR r)"

definition Complete_job :: "('s, 'v) Redis \<Rightarrow> (JobResult \<Rightarrow> 'v) \<Rightarrow> string \<Rightarrow> 'v Delivery \<Rightarrow> JobResult \<Rightarrow> 's \<Rightarrow> 's" where
  "Complete_job R encR ns d r s = Ack R ns d (PublishResult R encR ns r s)"

record Pending =
  pePriority :: Priority
  peID :: nat
  peConsumer :: string
  peIdle :: duration

definition PendingJobs :: "('s, 'v) Redis \<Rightarrow> string \<Rightarrow> 's \<Rightarrow> Pending list" where
  "PendingJobs R ns s =
     concat (map (\<lambda>p. map (\<lambda>(i, c, v). \<lparr>pePriority = p, peID = i, peConsumer = c, peIdle = rdIdle R s (JobStream ns p) i\<rparr>)
       (take 10000 (rdPending R s (JobStream ns p)))) serviceOrder)"

text \<open>The state, the job queued again and the job that used up its attempts.\<close>

definition Requeue :: "('s, 'v) Redis \<Rightarrow> (Job \<Rightarrow> 'v) \<Rightarrow> ('v \<Rightarrow> Job option) \<Rightarrow> string \<Rightarrow> Pending \<Rightarrow> int \<Rightarrow> 's \<Rightarrow> 's \<times> Job option \<times> Job option" where
  "Requeue R enc dec ns pe maxAttempts s =
     (let st = JobStream ns (pePriority pe); (s1, v) = rdClaim R st ''monitor'' (go_div (peIdle pe) 2) (peID pe) s
      in case v of
           None \<Rightarrow> (s1, None, None)
         | Some raw \<Rightarrow>
             (case dec raw of
                None \<Rightarrow> (rdRemove R st (peID pe) s1, None, None)
              | Some j \<Rightarrow>
                  (let j' = j\<lparr>jbAttempt := jbAttempt j + 1\<rparr>
                   in if jbAttempt j' < maxAttempts then (rdRemove R st (peID pe) (rdAdd R st (enc j') s1), Some j', None)
                      else (rdRemove R st (peID pe) s1, None, Some j'))))"

definition RequeueByID :: "('s, 'v) Redis \<Rightarrow> (Job \<Rightarrow> 'v) \<Rightarrow> ('v \<Rightarrow> Job option) \<Rightarrow> string \<Rightarrow> Priority \<Rightarrow> nat \<Rightarrow> 's \<Rightarrow> 's \<times> bool" where
  "RequeueByID R enc dec ns p i s =
     (case find (\<lambda>m. fst m = i) (rdPending R s (JobStream ns p)) of
        None \<Rightarrow> (s, False)
      | Some (_, c, _) \<Rightarrow>
          (let (s', re, _) = Requeue R enc dec ns \<lparr>pePriority = p, peID = i, peConsumer = c, peIdle = rdIdle R s (JobStream ns p) i\<rparr> 2147483647 s
           in (s', re \<noteq> None)))"

section \<open>The monitor\<close>

definition WorkerOfConsumer :: "string \<Rightarrow> string" where
  "WorkerOfConsumer c =
     (let w = rev (drop 1 (dropWhile (\<lambda>x. x \<noteq> CHR ''/'') (rev c)))
      in if CHR ''/'' \<in> set c \<and> w \<noteq> [] then w else c)"

record MonitorOptions =
  moJobTimeout :: duration
  moDeadGrace :: duration
  moMaxAttempts :: int

definition Monitor_New :: "MonitorOptions \<Rightarrow> MonitorOptions" where
  "Monitor_New m = \<lparr>moJobTimeout = (if moJobTimeout m \<le> 0 then 600 * second else moJobTimeout m),
     moDeadGrace = (if moDeadGrace m \<le> 0 then second else moDeadGrace m),
     moMaxAttempts = (if moMaxAttempts m \<le> 0 then 3 else moMaxAttempts m)\<rparr>"

definition check_reason :: "MonitorOptions \<Rightarrow> (string \<Rightarrow> bool) \<Rightarrow> Pending \<Rightarrow> string option" where
  "check_reason m alive pe =
     (if peConsumer pe = ''monitor'' \<and> moDeadGrace m < peIdle pe then Some ''orphaned''
      else if \<not> alive (WorkerOfConsumer (peConsumer pe)) \<and> moDeadGrace m < peIdle pe then Some ''dead_worker''
      else if moJobTimeout m < peIdle pe then Some ''timeout''
      else None)"

definition lost_result :: "Job \<Rightarrow> string \<Rightarrow> JobResult" where
  "lost_result ex reason = (ForJob ex ''monitor'')\<lparr>reError := ''the job was lost '' @ Itoa (jbAttempt ex) @ '' times ('' @ reason @ '')''\<rparr>"

text \<open>One pending job of \<^verbatim>\<open>Monitor.Check\<close>, with the count of the jobs taken back, and the whole pass.\<close>

definition check_pending :: "('s, 'v) Redis \<Rightarrow> (Job \<Rightarrow> 'v) \<Rightarrow> ('v \<Rightarrow> Job option) \<Rightarrow> (JobResult \<Rightarrow> 'v) \<Rightarrow> string \<Rightarrow> MonitorOptions \<Rightarrow>
    (string \<Rightarrow> bool) \<Rightarrow> 's \<times> nat \<Rightarrow> Pending \<Rightarrow> 's \<times> nat" where
  "check_pending R enc dec encR ns m alive = (\<lambda>(s, n) pe.
     case check_reason m alive pe of
       None \<Rightarrow> (s, n)
     | Some reason \<Rightarrow>
         (case Requeue R enc dec ns pe (moMaxAttempts m) s of
            (s', None, None) \<Rightarrow> (s', n)
          | (s', re, None) \<Rightarrow> (s', n + 1)
          | (s', re, Some ex) \<Rightarrow> (PublishResult R encR ns (lost_result ex reason) s', n + 1)))"

definition Monitor_Check :: "('s, 'v) Redis \<Rightarrow> (Job \<Rightarrow> 'v) \<Rightarrow> ('v \<Rightarrow> Job option) \<Rightarrow> (JobResult \<Rightarrow> 'v) \<Rightarrow> string \<Rightarrow> MonitorOptions \<Rightarrow>
    (string \<Rightarrow> bool) \<Rightarrow> 's \<Rightarrow> 's \<times> nat" where
  "Monitor_Check R enc dec encR ns m alive s = foldl (check_pending R enc dec encR ns m alive) (s, 0) (PendingJobs R ns s)"

section \<open>Names of streams\<close>

lemma Priority_names:
  "Priority_String PriorityEvaluate = ''evaluate''" "Priority_String PriorityCompile = ''compile''"
  "Priority_String PriorityUserTest = ''usertest''" "Priority_String PriorityBackground = ''background''"
  "Priority_String PriorityDeferred = ''deferred''"
  by (simp_all add: Priority_String_def priority_defs priorityNames_def)

lemma serviceOrder_set: "set serviceOrder = {PriorityEvaluate, PriorityCompile, PriorityUserTest, PriorityBackground, PriorityDeferred}"
  by (auto simp: serviceOrder_def)

lemma JobStream_inj [simp]: "p \<in> set serviceOrder \<Longrightarrow> q \<in> set serviceOrder \<Longrightarrow> JobStream ns p = JobStream ns q \<longleftrightarrow> p = q"
  by (auto simp: serviceOrder_set JobStream_def queue_Key_def Priority_names)

lemma JobStream_distinct: "distinct ps \<Longrightarrow> set ps \<subseteq> set serviceOrder \<Longrightarrow> distinct (map (JobStream ns) ps)"
  unfolding distinct_map inj_on_def by (metis JobStream_inj subsetD)

lemma resultsStream_other [simp]: "p \<in> set serviceOrder \<Longrightarrow> JobStream ns p \<noteq> resultsStream ns"
  by (auto simp: serviceOrder_set JobStream_def resultsStream_def queue_Key_def Priority_names)

lemma stream_priority:
  assumes "p \<in> set serviceOrder"
  shows "ParsePriority (after_colon (JobStream ns p)) = Some p"
proof -
  have "CHR '':'' \<notin> set (Priority_String p)" using assms by (auto simp: serviceOrder_set Priority_names)
  then have "takeWhile (\<lambda>c. c \<noteq> CHR '':'') (rev (Priority_String p) @ CHR '':'' # rs) = rev (Priority_String p)" for rs
    by (subst takeWhile_append2) auto
  then have "after_colon (JobStream ns p) = Priority_String p" by (simp add: after_colon_def JobStream_def queue_Key_def)
  moreover have "list_all (\<lambda>p. ParsePriority (Priority_String p) = Some p) serviceOrder" by code_simp
  ultimately show ?thesis using assms by (simp add: list_all_iff)
qed

section \<open>Messages\<close>

definition msgs :: "('s, 'v) Redis \<Rightarrow> 's \<Rightarrow> string \<Rightarrow> (nat \<times> 'v) set" where
  "msgs R s st = set (rdWaiting R s st) \<union> (\<lambda>(i, c, v). (i, v)) ` set (rdPending R s st)"

context redis_streams
begin

lemma msgs_add: "msgs R (rdAdd R st v s) st' = msgs R s st' \<union> (if st' = st then {(Suc (rdLast R s st), v)} else {})"
  by (auto simp: msgs_def add)

lemma msgs_remove: "msgs R (rdRemove R st i s) st' = {m \<in> msgs R s st'. st' = st \<longrightarrow> fst m \<noteq> i}"
  by (force simp: msgs_def remove)

lemma msgs_read: "distinct sts \<Longrightarrow> msgs R (fst (rdRead R sts c s)) st = msgs R s st"
  by (cases "rdWaiting R s st") (auto simp: msgs_def read)

lemma msgs_claim: "msgs R (fst (rdClaim R st c idle i s)) st' = msgs R s st'"
  by (force simp: msgs_def claim claimed_def image_iff split: if_splits)

lemma msgs_id: "(i, v) \<in> msgs R s st \<Longrightarrow> i \<le> rdLast R s st"
  using ids(2) [of i s st] by (force simp: msgs_def)

lemma msgs_unique:
  assumes "(i, v) \<in> msgs R s st" "(i, v') \<in> msgs R s st"
  shows "v = v'"
proof -
  have w: "distinct (map fst (rdWaiting R s st))" "distinct (map fst (rdPending R s st))"
    "fst ` set (rdWaiting R s st) \<inter> fst ` set (rdPending R s st) = {}" using ids(1) [of s st] by (auto simp: distinct_append)
  consider "(i, v) \<in> set (rdWaiting R s st)" "(i, v') \<in> set (rdWaiting R s st)"
    | c c' where "(i, c, v) \<in> set (rdPending R s st)" "(i, c', v') \<in> set (rdPending R s st)"
    using assms w(3) by (force simp: msgs_def)
  then show ?thesis using w(1,2) by cases (auto dest: eq_key_imp_eq_value)
qed

lemma read_msgs: "distinct sts \<Longrightarrow> (st, i, v) \<in> set (snd (rdRead R sts c s)) \<Longrightarrow> st \<in> set sts \<and> (i, v) \<in> msgs R s st"
  by (auto simp: read msgs_def dest: in_set_takeD)

lemma claim_msgs: "snd (rdClaim R st c idle i s) = Some v \<Longrightarrow> (i, v) \<in> msgs R s st"
  using claim(1) by (force simp: msgs_def)

end

section \<open>No job is lost\<close>

text \<open>The same work, up to the attempt and the queue; a result for it.\<close>

definition same_work :: "Job \<Rightarrow> Job \<Rightarrow> bool" where
  "same_work j j' \<longleftrightarrow> j' = j\<lparr>jbAttempt := jbAttempt j', jbPriority := jbPriority j'\<rparr>"

definition answers :: "JobResult \<Rightarrow> Job \<Rightarrow> bool" where
  "answers r j \<longleftrightarrow> reJobID r = jbID j \<and> reKind r = jbKind j \<and> reSubmissionID r = jbSubmissionID j \<and> reUserTestID r = jbUserTestID j
     \<and> reDatasetID r = jbDatasetID j \<and> reGeneration r = jbGeneration j \<and> reTestcases r = map jtID (jbTestcases j)"

lemma same_work_refl [simp]: "same_work j j" by (simp add: same_work_def)

lemma same_work_update:
  "same_work j j' \<Longrightarrow> same_work j (j'\<lparr>jbPriority := p\<rparr>)" "same_work j j' \<Longrightarrow> same_work j (j'\<lparr>jbAttempt := a\<rparr>)"
  unfolding same_work_def by (cases j; cases j'; simp)+

lemma answers_same: "answers r j' \<Longrightarrow> same_work j j' \<Longrightarrow> answers r j"
  unfolding same_work_def answers_def by (cases j; cases j'; simp)

lemma answers_lost: "answers (lost_result (j\<lparr>jbAttempt := a\<rparr>) reason) j"
  by (simp add: answers_def lost_result_def ForJob_def)

text \<open>The streams with what was enqueued, handed to workers and published so far.\<close>

record ('s, 'v) qstate =
  qsStore :: 's
  qsEnqueued :: "Job set"
  qsHanded :: "'v Delivery set"
  qsPublished :: "JobResult set"

text \<open>
  Every command is a step of its own: the steps of \<open>Next\<close> are reads of one stream and of all of them,
  and a worker may answer long after the monitor took its job away. A worker that dies
  just takes no further step.
\<close>

inductive queue_run :: "('s, 'v) Redis \<Rightarrow> (Job \<Rightarrow> 'v) \<Rightarrow> ('v \<Rightarrow> Job option) \<Rightarrow> (JobResult \<Rightarrow> 'v) \<Rightarrow> string \<Rightarrow> ('s, 'v) qstate \<Rightarrow> bool"
  for R enc dec encR ns where
  start: "(\<And>p. p \<in> set serviceOrder \<Longrightarrow> msgs R s (JobStream ns p) = {}) \<Longrightarrow>
    queue_run R enc dec encR ns \<lparr>qsStore = s, qsEnqueued = {}, qsHanded = {}, qsPublished = {}\<rparr>"
| enqueued: "queue_run R enc dec encR ns q \<Longrightarrow> p \<in> set serviceOrder \<Longrightarrow>
    queue_run R enc dec encR ns (q\<lparr>qsStore := Enqueue R enc ns p j (qsStore q), qsEnqueued := insert j (qsEnqueued q)\<rparr>)"
| delivered: "queue_run R enc dec encR ns q \<Longrightarrow> distinct ps \<Longrightarrow> set ps \<subseteq> set serviceOrder \<Longrightarrow>
    rdRead R (map (JobStream ns) ps) c (qsStore q) = (s', ms) \<Longrightarrow>
    queue_run R enc dec encR ns (q\<lparr>qsStore := s', qsHanded := qsHanded q \<union> set_option (firstDelivery dec ms)\<rparr>)"
| dropped: "queue_run R enc dec encR ns q \<Longrightarrow> d \<in> qsHanded q \<Longrightarrow> dlJob d = None \<Longrightarrow>
    queue_run R enc dec encR ns (q\<lparr>qsStore := Ack R ns d (qsStore q)\<rparr>)"
| deferred: "queue_run R enc dec encR ns q \<Longrightarrow> d \<in> qsHanded q \<Longrightarrow> dlJob d = Some j \<Longrightarrow>
    queue_run R enc dec encR ns (q\<lparr>qsStore := Defer R enc ns d j (qsStore q)\<rparr>)"
| completed: "queue_run R enc dec encR ns q \<Longrightarrow> d \<in> qsHanded q \<Longrightarrow> dlJob d = Some j \<Longrightarrow> answers r j \<Longrightarrow>
    queue_run R enc dec encR ns (q\<lparr>qsStore := Complete_job R encR ns d r (qsStore q), qsPublished := insert r (qsPublished q)\<rparr>)"
| requeued: "queue_run R enc dec encR ns q \<Longrightarrow> pePriority pe \<in> set serviceOrder \<Longrightarrow>
    Requeue R enc dec ns pe maxAttempts (qsStore q) = (s', re, None) \<Longrightarrow> queue_run R enc dec encR ns (q\<lparr>qsStore := s'\<rparr>)"
| exhausted: "queue_run R enc dec encR ns q \<Longrightarrow> pePriority pe \<in> set serviceOrder \<Longrightarrow>
    Requeue R enc dec ns pe maxAttempts (qsStore q) = (s', re, Some ex) \<Longrightarrow>
    queue_run R enc dec encR ns (q\<lparr>qsStore := PublishResult R encR ns (lost_result ex reason) s',
      qsPublished := insert (lost_result ex reason) (qsPublished q)\<rparr>)"

definition kept :: "('s, 'v) Redis \<Rightarrow> (Job \<Rightarrow> 'v) \<Rightarrow> string \<Rightarrow> ('s, 'v) qstate \<Rightarrow> Job \<Rightarrow> bool" where
  "kept R enc ns q j \<longleftrightarrow>
     (\<exists>p \<in> set serviceOrder. \<exists>i j'. same_work j j' \<and> (i, enc j') \<in> msgs R (qsStore q) (JobStream ns p)) \<or> (\<exists>r \<in> qsPublished q. answers r j)"

definition queue_inv :: "('s, 'v) Redis \<Rightarrow> (Job \<Rightarrow> 'v) \<Rightarrow> ('v \<Rightarrow> Job option) \<Rightarrow> string \<Rightarrow> ('s, 'v) qstate \<Rightarrow> bool" where
  "queue_inv R enc dec ns q \<longleftrightarrow>
     (\<forall>p \<in> set serviceOrder. \<forall>(i, v) \<in> msgs R (qsStore q) (JobStream ns p). v \<in> range enc)
     \<and> (\<forall>d \<in> qsHanded q. dlPriority d \<in> set serviceOrder \<and> dlID d \<le> rdLast R (qsStore q) (JobStream ns (dlPriority d))
          \<and> (\<forall>v. (dlID d, v) \<in> msgs R (qsStore q) (JobStream ns (dlPriority d)) \<longrightarrow> dec v = dlJob d))
     \<and> (\<forall>j \<in> qsEnqueued q. kept R enc ns q j)"

locale job_queue = redis_streams R for R :: "('s, 'v) Redis" +
  fixes enc :: "Job \<Rightarrow> 'v" and dec :: "'v \<Rightarrow> Job option"
  assumes codec: "dec (enc j) = Some j"
begin

lemma store_step:
  assumes "queue_inv R enc dec ns q"
    and "\<And>p. p \<in> set serviceOrder \<Longrightarrow> rdLast R (qsStore q) (JobStream ns p) \<le> rdLast R s (JobStream ns p)"
    and "\<And>p i v. p \<in> set serviceOrder \<Longrightarrow> (i, v) \<in> msgs R s (JobStream ns p) \<Longrightarrow>
           (i, v) \<in> msgs R (qsStore q) (JobStream ns p) \<or> v \<in> range enc \<and> rdLast R (qsStore q) (JobStream ns p) < i"
    and "\<And>j. j \<in> E \<Longrightarrow> kept R enc ns (q\<lparr>qsStore := s, qsEnqueued := E, qsPublished := P\<rparr>) j"
  shows "queue_inv R enc dec ns (q\<lparr>qsStore := s, qsEnqueued := E, qsPublished := P\<rparr>)"
proof -
  have "\<forall>p \<in> set serviceOrder. \<forall>(i, v) \<in> msgs R s (JobStream ns p). v \<in> range enc"
    using assms(1,3) unfolding queue_inv_def by blast
  moreover have "dlPriority d \<in> set serviceOrder \<and> dlID d \<le> rdLast R s (JobStream ns (dlPriority d))
      \<and> (\<forall>v. (dlID d, v) \<in> msgs R s (JobStream ns (dlPriority d)) \<longrightarrow> dec v = dlJob d)" if "d \<in> qsHanded q" for d
  proof -
    have d: "dlPriority d \<in> set serviceOrder" "dlID d \<le> rdLast R (qsStore q) (JobStream ns (dlPriority d))"
      "\<And>v. (dlID d, v) \<in> msgs R (qsStore q) (JobStream ns (dlPriority d)) \<Longrightarrow> dec v = dlJob d"
      using assms(1) that by (auto simp: queue_inv_def)
    show ?thesis using d assms(2) [OF d(1)] assms(3) [OF d(1)] by fastforce
  qed
  ultimately show ?thesis using assms(4) by (auto simp: queue_inv_def)
qed

text \<open>Taking a message away keeps every job, if a copy or a result of its job has been added.\<close>

lemma kept_remove:
  assumes "queue_inv R enc dec ns q" "j \<in> qsEnqueued q" "p \<in> set serviceOrder"
    and sub: "\<And>p'. p' \<in> set serviceOrder \<Longrightarrow> {m \<in> msgs R (qsStore q) (JobStream ns p'). p' = p \<longrightarrow> fst m \<noteq> i} \<subseteq> msgs R s (JobStream ns p')"
    and pub: "qsPublished q \<subseteq> P"
    and held: "\<And>j j'. same_work j j' \<Longrightarrow> (i, enc j') \<in> msgs R (qsStore q) (JobStream ns p) \<Longrightarrow> kept R enc ns (q\<lparr>qsStore := s, qsPublished := P\<rparr>) j"
  shows "kept R enc ns (q\<lparr>qsStore := s, qsPublished := P\<rparr>) j"
proof -
  from assms(1,2) consider (msg) p' i' j' where "p' \<in> set serviceOrder" "same_work j j'" "(i', enc j') \<in> msgs R (qsStore q) (JobStream ns p')"
    | (result) r where "r \<in> qsPublished q" "answers r j"
    unfolding queue_inv_def kept_def by blast
  then show ?thesis
  proof cases
    case msg
    then have "p' = p \<and> i' = i \<or> (i', enc j') \<in> msgs R s (JobStream ns p')" using sub [OF msg(1)] by fastforce
    then show ?thesis using held [OF msg(2)] msg by (auto simp: kept_def)
  qed (use pub in \<open>auto simp: kept_def\<close>)
qed

lemma delivery_priority:
  assumes "distinct ps" "set ps \<subseteq> set serviceOrder" "rdRead R (map (JobStream ns) ps) c s = (s', ms)" "firstDelivery dec ms = Some d"
  shows "dlPriority d \<in> set serviceOrder \<and> (\<exists>v. (dlID d, v) \<in> msgs R s (JobStream ns (dlPriority d)) \<and> dec v = dlJob d)"
proof -
  have inj: "distinct (map (JobStream ns) ps)" using assms(1,2) by (rule JobStream_distinct)
  obtain st i v ms' where m: "ms = (st, i, v) # ms'" using assms(4) by (cases ms) auto
  then have "(st, i, v) \<in> set (snd (rdRead R (map (JobStream ns) ps) c s))" using assms(3) by simp
  then obtain p where p: "p \<in> set ps" "st = JobStream ns p" "(i, v) \<in> msgs R s st" using read_msgs [OF inj] by fastforce
  then have "ParsePriority (after_colon st) = Some p" using assms(2) stream_priority [of p ns] by blast
  then show ?thesis using p assms(2,4) m by auto
qed

lemma queue_inv_delivered:
  assumes inv: "queue_inv R enc dec ns q" and ps: "distinct ps" "set ps \<subseteq> set serviceOrder" and r: "rdRead R (map (JobStream ns) ps) c (qsStore q) = (s', ms)"
  shows "queue_inv R enc dec ns (q\<lparr>qsStore := s', qsHanded := qsHanded q \<union> set_option (firstDelivery dec ms)\<rparr>)"
proof -
  have inj: "distinct (map (JobStream ns) ps)" using ps by (rule JobStream_distinct)
  have m: "msgs R s' st = msgs R (qsStore q) st" "rdLast R s' st = rdLast R (qsStore q) st" for st
    using msgs_read [OF inj, of c "qsStore q" st] read(4) [OF inj, of c "qsStore q" st] r by simp_all
  have "dlPriority d \<in> set serviceOrder \<and> dlID d \<le> rdLast R s' (JobStream ns (dlPriority d))
      \<and> (\<forall>v. (dlID d, v) \<in> msgs R s' (JobStream ns (dlPriority d)) \<longrightarrow> dec v = dlJob d)" if "firstDelivery dec ms = Some d" for d
    using delivery_priority [OF ps r that] msgs_id msgs_unique m by metis
  then show ?thesis using inv by (auto simp: queue_inv_def kept_def m)
qed

lemma queue_inv_taken:
  assumes "queue_inv R enc dec ns q" "p \<in> set serviceOrder"
    and "\<And>p'. p' \<in> set serviceOrder \<Longrightarrow> msgs R s (JobStream ns p') = {m \<in> msgs R (qsStore q) (JobStream ns p'). p' = p \<longrightarrow> fst m \<noteq> i} \<union> N p'"
    and "\<And>p' i v. p' \<in> set serviceOrder \<Longrightarrow> (i, v) \<in> N p' \<Longrightarrow> v \<in> range enc \<and> rdLast R (qsStore q) (JobStream ns p') < i"
    and "\<And>p'. rdLast R (qsStore q) (JobStream ns p') \<le> rdLast R s (JobStream ns p')" "qsPublished q \<subseteq> P"
    and "\<And>j j'. same_work j j' \<Longrightarrow> (i, enc j') \<in> msgs R (qsStore q) (JobStream ns p) \<Longrightarrow> kept R enc ns (q\<lparr>qsStore := s, qsPublished := P\<rparr>) j"
  shows "queue_inv R enc dec ns (q\<lparr>qsStore := s, qsPublished := P\<rparr>)"
proof -
  have sub: "{m \<in> msgs R (qsStore q) (JobStream ns p'). p' = p \<longrightarrow> fst m \<noteq> i} \<subseteq> msgs R s (JobStream ns p')" if "p' \<in> set serviceOrder" for p'
    using assms(3) [OF that] by blast
  have "kept R enc ns (q\<lparr>qsStore := s, qsEnqueued := qsEnqueued q, qsPublished := P\<rparr>) j" if "j \<in> qsEnqueued q" for j
    using kept_remove [OF assms(1) that assms(2) sub assms(6) assms(7)] by (simp add: kept_def)
  moreover have "(i', v) \<in> msgs R (qsStore q) (JobStream ns p') \<or> v \<in> range enc \<and> rdLast R (qsStore q) (JobStream ns p') < i'"
    if "p' \<in> set serviceOrder" "(i', v) \<in> msgs R s (JobStream ns p')" for p' i' v
    using that assms(3,4) by blast
  ultimately have "queue_inv R enc dec ns (q\<lparr>qsStore := s, qsEnqueued := qsEnqueued q, qsPublished := P\<rparr>)"
    using store_step [OF assms(1), of s "qsEnqueued q" P] assms(5) by blast
  then show ?thesis by simp
qed

lemma handedD:
  assumes "queue_inv R enc dec ns q" "d \<in> qsHanded q"
  shows "dlPriority d \<in> set serviceOrder" "(dlID d, enc j') \<in> msgs R (qsStore q) (JobStream ns (dlPriority d)) \<Longrightarrow> dlJob d = Some j'"
  using assms codec by (fastforce simp: queue_inv_def)+

lemma queue_inv_enqueued:
  assumes "queue_inv R enc dec ns q" "p \<in> set serviceOrder"
  shows "queue_inv R enc dec ns (q\<lparr>qsStore := Enqueue R enc ns p j (qsStore q), qsEnqueued := insert j (qsEnqueued q)\<rparr>)"
proof -
  let ?s = "Enqueue R enc ns p j (qsStore q)"
  have "kept R enc ns (q\<lparr>qsStore := ?s, qsEnqueued := insert j (qsEnqueued q), qsPublished := qsPublished q\<rparr>) j'" if "j' \<in> insert j (qsEnqueued q)" for j'
    using that assms by (force simp: kept_def queue_inv_def Enqueue_def msgs_add intro: same_work_refl)
  then have "queue_inv R enc dec ns (q\<lparr>qsStore := ?s, qsEnqueued := insert j (qsEnqueued q), qsPublished := qsPublished q\<rparr>)"
    using assms by (intro store_step) (auto simp: Enqueue_def msgs_add add split: if_splits)
  then show ?thesis by simp
qed

lemma queue_inv_dropped:
  assumes "queue_inv R enc dec ns q" "d \<in> qsHanded q" "dlJob d = None"
  shows "queue_inv R enc dec ns (q\<lparr>qsStore := Ack R ns d (qsStore q)\<rparr>)"
proof -
  note h = handedD [OF assms(1,2)]
  have "queue_inv R enc dec ns (q\<lparr>qsStore := Ack R ns d (qsStore q), qsPublished := qsPublished q\<rparr>)"
    using assms(1,3) h by (intro queue_inv_taken [where N = "\<lambda>_. {}" and p = "dlPriority d" and i = "dlID d"]) (auto simp: Ack_def msgs_remove remove)
  then show ?thesis by simp
qed

lemma queue_inv_deferred:
  assumes "queue_inv R enc dec ns q" "d \<in> qsHanded q" "dlJob d = Some j"
  shows "queue_inv R enc dec ns (q\<lparr>qsStore := Defer R enc ns d j (qsStore q)\<rparr>)"
proof -
  note h = handedD [OF assms(1,2)]
  let ?n = "(Suc (rdLast R (qsStore q) (JobStream ns PriorityDeferred)), enc (j\<lparr>jbPriority := PriorityDeferred\<rparr>))"
  let ?s = "Defer R enc ns d j (qsStore q)"
  have new: "PriorityDeferred \<in> set serviceOrder" by (simp add: serviceOrder_def)
  have id: "dlID d \<le> rdLast R (qsStore q) (JobStream ns (dlPriority d))" using assms(1,2) by (simp add: queue_inv_def)
  have m: "msgs R ?s (JobStream ns p') = {m \<in> msgs R (qsStore q) (JobStream ns p'). p' = dlPriority d \<longrightarrow> fst m \<noteq> dlID d}
      \<union> (if p' = PriorityDeferred then {?n} else {})" if "p' \<in> set serviceOrder" for p'
    using that h(1) new id by (auto simp: Defer_def Ack_def msgs_remove msgs_add)
  have k: "kept R enc ns (q\<lparr>qsStore := ?s, qsPublished := qsPublished q\<rparr>) j0"
    if "same_work j0 j'" "(dlID d, enc j') \<in> msgs R (qsStore q) (JobStream ns (dlPriority d))" for j0 j'
  proof -
    have "same_work j0 (j\<lparr>jbPriority := PriorityDeferred\<rparr>)" using h(2) [OF that(2)] that(1) assms(3) by (simp add: same_work_update)
    moreover have "?n \<in> msgs R ?s (JobStream ns PriorityDeferred)" using m [OF new] by simp
    ultimately show ?thesis using new unfolding kept_def by auto
  qed
  have new: "v \<in> range enc \<and> rdLast R (qsStore q) (JobStream ns p') < i" if "(i, v) \<in> (if p' = PriorityDeferred then {?n} else {})" for p' i v
    using that by (simp split: if_splits)
  have l: "rdLast R (qsStore q) (JobStream ns p') \<le> rdLast R ?s (JobStream ns p')" for p' by (simp add: Defer_def Ack_def remove add)
  have "queue_inv R enc dec ns (q\<lparr>qsStore := ?s, qsPublished := qsPublished q\<rparr>)"
    by (rule queue_inv_taken [OF assms(1) h(1) m new l subset_refl k])
  then show ?thesis by simp
qed

lemma queue_inv_completed:
  assumes "queue_inv R enc dec ns q" "d \<in> qsHanded q" "dlJob d = Some j" "answers r j"
  shows "queue_inv R enc dec ns (q\<lparr>qsStore := Complete_job R encR ns d r (qsStore q), qsPublished := insert r (qsPublished q)\<rparr>)"
proof -
  note h = handedD [OF assms(1,2)]
  show ?thesis
    by (rule queue_inv_taken [OF assms(1) h(1), where N = "\<lambda>_. {}" and i = "dlID d"])
      (use h assms(3,4) in \<open>auto simp: Complete_job_def Ack_def PublishResult_def msgs_remove msgs_add remove add kept_def intro: answers_same\<close>)
qed

lemma Requeue_cases:
  assumes "Requeue R enc dec ns pe maxAttempts s = (s', re, ex)"
  defines "st \<equiv> JobStream ns (pePriority pe)"
  obtains (gone) s1 where "rdClaim R st ''monitor'' (go_div (peIdle pe) 2) (peID pe) s = (s1, None)" "s' = s1" "re = None" "ex = None"
    | (undecodable) s1 v where "rdClaim R st ''monitor'' (go_div (peIdle pe) 2) (peID pe) s = (s1, Some v)" "dec v = None"
        "s' = rdRemove R st (peID pe) s1" "re = None" "ex = None"
    | (again) s1 v j where "rdClaim R st ''monitor'' (go_div (peIdle pe) 2) (peID pe) s = (s1, Some v)" "dec v = Some j"
        "s' = rdRemove R st (peID pe) (rdAdd R st (enc (j\<lparr>jbAttempt := jbAttempt j + 1\<rparr>)) s1)" "re = Some (j\<lparr>jbAttempt := jbAttempt j + 1\<rparr>)" "ex = None"
        "jbAttempt j + 1 < maxAttempts"
    | (last) s1 v j where "rdClaim R st ''monitor'' (go_div (peIdle pe) 2) (peID pe) s = (s1, Some v)" "dec v = Some j"
        "s' = rdRemove R st (peID pe) s1" "re = None" "ex = Some (j\<lparr>jbAttempt := jbAttempt j + 1\<rparr>)" "maxAttempts \<le> jbAttempt j + 1"
  using assms(1) unfolding Requeue_def st_def Let_def
  by (auto split: prod.splits option.splits if_splits)

lemma queue_inv_published: "queue_inv R enc dec ns q \<Longrightarrow> qsPublished q \<subseteq> P \<Longrightarrow> queue_inv R enc dec ns (q\<lparr>qsPublished := P\<rparr>)"
  unfolding queue_inv_def kept_def by simp blast

lemma queue_inv_result:
  "queue_inv R enc dec ns (q\<lparr>qsStore := s, qsPublished := P\<rparr>) \<Longrightarrow> queue_inv R enc dec ns (q\<lparr>qsStore := PublishResult R encR ns r s, qsPublished := P\<rparr>)"
  by (simp add: queue_inv_def kept_def PublishResult_def msgs_add add)

lemma queue_inv_claimed:
  assumes inv: "queue_inv R enc dec ns q" and p: "p \<in> set serviceOrder"
    and cl: "rdClaim R (JobStream ns p) c idle i (qsStore q) = (s1, v)"
  shows "queue_inv R enc dec ns (q\<lparr>qsStore := s1\<rparr>)" "v = Some raw \<Longrightarrow> (i, raw) \<in> msgs R s1 (JobStream ns p)"
proof -
  have m: "msgs R s1 st = msgs R (qsStore q) st" "rdLast R s1 st = rdLast R (qsStore q) st" for st
    using msgs_claim [of "JobStream ns p" c idle i "qsStore q" st] claim(4) [of "JobStream ns p" c idle i "qsStore q" st] cl by simp_all
  then show "queue_inv R enc dec ns (q\<lparr>qsStore := s1\<rparr>)" using inv by (simp add: queue_inv_def kept_def)
  show "(i, raw) \<in> msgs R s1 (JobStream ns p)" if "v = Some raw" using claim_msgs [of "JobStream ns p" c idle i "qsStore q"] cl that m by simp
qed

lemma queue_inv_requeued:
  assumes inv: "queue_inv R enc dec ns q" and p: "pePriority pe \<in> set serviceOrder"
    and req: "Requeue R enc dec ns pe maxAttempts (qsStore q) = (s', re, ex)"
    and P: "qsPublished q \<subseteq> P" "\<And>j. ex = Some j \<Longrightarrow> \<exists>a r. r \<in> P \<and> answers r (j\<lparr>jbAttempt := a\<rparr>)"
  shows "queue_inv R enc dec ns (q\<lparr>qsStore := s', qsPublished := P\<rparr>)"
  using req
proof (cases rule: Requeue_cases)
  case (gone s1)
  then show ?thesis using queue_inv_published [OF queue_inv_claimed(1) [OF inv p gone(1)]] P(1) by simp
next
  case (undecodable s1 v)
  have "dec v \<noteq> None"
    using queue_inv_claimed [OF inv p undecodable(1)] p codec by (fastforce simp: queue_inv_def)
  then show ?thesis using undecodable(2) by simp
next
  case (again s1 v j)
  let ?q = "q\<lparr>qsStore := s1\<rparr>" and ?st = "JobStream ns (pePriority pe)" and ?j = "j\<lparr>jbAttempt := jbAttempt j + 1\<rparr>"
  note c = queue_inv_claimed [OF inv p again(1)]
  have id: "peID pe \<le> rdLast R s1 ?st" using msgs_id c(2) by blast
  have m: "msgs R s' (JobStream ns p') = {m \<in> msgs R (qsStore ?q) (JobStream ns p'). p' = pePriority pe \<longrightarrow> fst m \<noteq> peID pe}
      \<union> (if p' = pePriority pe then {(Suc (rdLast R s1 ?st), enc ?j)} else {})" if "p' \<in> set serviceOrder" for p'
    using that p id by (auto simp: again(3) msgs_remove msgs_add)
  have "same_work j0 ?j" if "same_work j0 j'" "(peID pe, enc j') \<in> msgs R s1 ?st" for j0 j'
  proof -
    have "v = enc j'" using msgs_unique c(2) that(2) by blast
    then show ?thesis using again(2) codec that(1) by (simp add: same_work_update)
  qed
  moreover have "(Suc (rdLast R s1 ?st), enc ?j) \<in> msgs R s' ?st" using m [OF p] by simp
  ultimately have "kept R enc ns (?q\<lparr>qsStore := s', qsPublished := P\<rparr>) j0"
    if "same_work j0 j'" "(peID pe, enc j') \<in> msgs R (qsStore ?q) ?st" for j0 j' using that p unfolding kept_def by fastforce
  then have "queue_inv R enc dec ns (?q\<lparr>qsStore := s', qsPublished := P\<rparr>)"
    using P(1) by (intro queue_inv_taken [OF c(1) p m]) (auto simp: again(3) remove add split: if_splits)
  then show ?thesis by simp
next
  case (last s1 v j)
  let ?q = "q\<lparr>qsStore := s1\<rparr>" and ?st = "JobStream ns (pePriority pe)"
  note c = queue_inv_claimed [OF inv p last(1)]
  obtain a r where r: "r \<in> P" "answers r (j\<lparr>jbAttempt := a\<rparr>)" using P(2) [OF last(5)] by auto
  have "answers r j0" if "same_work j0 j'" "(peID pe, enc j') \<in> msgs R s1 ?st" for j0 j'
  proof -
    have "v = enc j'" using msgs_unique c(2) that(2) by blast
    then have "same_work j0 (j\<lparr>jbAttempt := a\<rparr>)" using last(2) codec that(1) by (simp add: same_work_update)
    then show ?thesis using r(2) by (rule answers_same [rotated])
  qed
  then have k: "kept R enc ns (?q\<lparr>qsStore := s', qsPublished := P\<rparr>) j0"
    if "same_work j0 j'" "(peID pe, enc j') \<in> msgs R (qsStore ?q) ?st" for j0 j' using that r(1) unfolding kept_def by simp blast
  have m: "msgs R s' (JobStream ns p') = {m \<in> msgs R (qsStore ?q) (JobStream ns p'). p' = pePriority pe \<longrightarrow> fst m \<noteq> peID pe} \<union> {}"
    if "p' \<in> set serviceOrder" for p' using that p by (simp add: last(3) msgs_remove)
  have "queue_inv R enc dec ns (?q\<lparr>qsStore := s', qsPublished := P\<rparr>)"
    by (rule queue_inv_taken [where N = "\<lambda>_. {}", OF c(1) p m _ _ _ k]) (use P(1) in \<open>simp_all add: last(3) remove\<close>)
  then show ?thesis by simp
qed

theorem run_inv: "queue_run R enc dec encR ns q \<Longrightarrow> queue_inv R enc dec ns q"
proof (induction rule: queue_run.induct)
  case (start s)
  then show ?case by (simp add: queue_inv_def)
next
  case (enqueued q p j)
  then show ?case by (intro queue_inv_enqueued)
next
  case (delivered q ps c s' ms)
  then show ?case by (intro queue_inv_delivered)
next
  case (dropped q d)
  then show ?case by (intro queue_inv_dropped)
next
  case (deferred q d j)
  then show ?case by (intro queue_inv_deferred)
next
  case (completed q d j r)
  then show ?case by (intro queue_inv_completed)
next
  case (requeued q pe maxAttempts s' re)
  then show ?case using queue_inv_requeued [of ns q pe maxAttempts s' re None "qsPublished q"] by simp
next
  case (exhausted q pe maxAttempts s' re ex reason)
  obtain j a where "ex = j\<lparr>jbAttempt := a\<rparr>" by (metis Job.surjective Job.update_convs(3))
  then have "answers (lost_result ex reason) (ex\<lparr>jbAttempt := a\<rparr>)" by (simp add: answers_def lost_result_def ForJob_def)
  then show ?case
    using queue_inv_requeued [OF exhausted.IH exhausted.hyps(2,3), of "insert (lost_result ex reason) (qsPublished q)"]
    by (intro queue_inv_result) blast
qed

end


section \<open>A store of streams\<close>

text \<open>The documented behaviour is satisfiable: streams as lists in memory, where every pending message is idle long enough.\<close>

type_synonym 'v mem_stream = "(nat \<times> 'v) list \<times> (nat \<times> string \<times> 'v) list \<times> nat"

definition mem_ok :: "'v mem_stream \<Rightarrow> bool" where
  "mem_ok = (\<lambda>(w, p, n). distinct (map fst w @ map fst p) \<and> (\<forall>i \<in> fst ` set w \<union> fst ` set p. i \<le> n))"

typedef 'v mem_store = "{s :: string \<Rightarrow> 'v mem_stream. \<forall>st. mem_ok (s st)}"
  by (rule exI [of _ "\<lambda>_. ([], [], 0)"]) (simp add: mem_ok_def)

setup_lifting type_definition_mem_store

lift_definition mem_empty :: "'v mem_store" is "\<lambda>_. ([], [], 0)" by (simp add: mem_ok_def)
lift_definition mem_stream :: "'v mem_store \<Rightarrow> string \<Rightarrow> 'v mem_stream" is "\<lambda>s. s" .

definition mem_push :: "'v \<Rightarrow> 'v mem_stream \<Rightarrow> 'v mem_stream" where
  "mem_push v = (\<lambda>(w, p, n). (w @ [(Suc n, v)], p, Suc n))"

definition mem_take :: "string \<Rightarrow> 'v mem_stream \<Rightarrow> 'v mem_stream" where
  "mem_take c = (\<lambda>(w, p, n). (drop 1 w, p @ map (\<lambda>(i, v). (i, c, v)) (take 1 w), n))"

definition mem_drop :: "nat \<Rightarrow> 'v mem_stream \<Rightarrow> 'v mem_stream" where
  "mem_drop i = (\<lambda>(w, p, n). (filter (\<lambda>m. fst m \<noteq> i) w, filter (\<lambda>m. fst m \<noteq> i) p, n))"

definition mem_own :: "string \<Rightarrow> nat \<Rightarrow> 'v mem_stream \<Rightarrow> 'v mem_stream" where
  "mem_own c i = (\<lambda>(w, p, n). (w, map (claimed c i) p, n))"

lemma fst_claimed [simp]: "fst (claimed c i m) = fst m"
  by (cases m) (simp add: claimed_def)

lemma mem_ok_steps:
  "mem_ok m \<Longrightarrow> mem_ok (mem_push v m)" "mem_ok m \<Longrightarrow> mem_ok (mem_take c m)" "mem_ok m \<Longrightarrow> mem_ok (mem_drop i m)" "mem_ok m \<Longrightarrow> mem_ok (mem_own c i m)"
proof -
  obtain w p n where m: "m = (w, p, n)" by (cases m)
  show "mem_ok m \<Longrightarrow> mem_ok (mem_push v m)" by (force simp: m mem_ok_def mem_push_def)
  show "mem_ok m \<Longrightarrow> mem_ok (mem_take c m)" by (cases w) (force simp: m mem_ok_def mem_take_def)+
  show "mem_ok m \<Longrightarrow> mem_ok (mem_drop i m)" by (auto simp: m mem_ok_def mem_drop_def distinct_map_filter)
  show "mem_ok m \<Longrightarrow> mem_ok (mem_own c i m)" by (simp add: m mem_ok_def mem_own_def o_def image_image)
qed

lift_definition mem_add :: "string \<Rightarrow> 'v \<Rightarrow> 'v mem_store \<Rightarrow> 'v mem_store" is "\<lambda>st v s. s(st := mem_push v (s st))"
  by (simp add: mem_ok_steps)
lift_definition mem_read :: "string list \<Rightarrow> string \<Rightarrow> 'v mem_store \<Rightarrow> 'v mem_store" is "\<lambda>sts c s st. if st \<in> set sts then mem_take c (s st) else s st"
  by (simp add: mem_ok_steps)
lift_definition mem_remove :: "string \<Rightarrow> nat \<Rightarrow> 'v mem_store \<Rightarrow> 'v mem_store" is "\<lambda>st i s. s(st := mem_drop i (s st))"
  by (simp add: mem_ok_steps)
lift_definition mem_claim :: "string \<Rightarrow> string \<Rightarrow> nat \<Rightarrow> 'v mem_store \<Rightarrow> 'v mem_store" is "\<lambda>st c i s. s(st := mem_own c i (s st))"
  by (simp add: mem_ok_steps)

definition mem_redis :: "('v mem_store, 'v) Redis" where
  "mem_redis = \<lparr>rdWaiting = \<lambda>s st. fst (mem_stream s st), rdPending = \<lambda>s st. fst (snd (mem_stream s st)), rdLast = \<lambda>s st. snd (snd (mem_stream s st)),
     rdIdle = \<lambda>s st i. 2 ^ 60, rdAdd = mem_add,
     rdRead = \<lambda>sts c s. (mem_read sts c s, concat (map (\<lambda>st. map (\<lambda>(i, v). (st, i, v)) (take 1 (fst (mem_stream s st)))) sts)),
     rdRemove = mem_remove,
     rdClaim = \<lambda>st c idle i s. (case find (\<lambda>m. fst m = i) (fst (snd (mem_stream s st))) of
        None \<Rightarrow> (s, None) | Some (_, _, v) \<Rightarrow> (mem_claim st c i s, Some v))\<rparr>"

lemma mem_stream_steps:
  "mem_stream (mem_add st v s) st' = (if st' = st then mem_push v (mem_stream s st) else mem_stream s st')"
  "mem_stream (mem_read sts c s) st' = (if st' \<in> set sts then mem_take c (mem_stream s st') else mem_stream s st')"
  "mem_stream (mem_remove st i s) st' = (if st' = st then mem_drop i (mem_stream s st) else mem_stream s st')"
  "mem_stream (mem_claim st c i s) st' = (if st' = st then mem_own c i (mem_stream s st) else mem_stream s st')"
  "mem_stream mem_empty st' = ([], [], 0)"
  by (transfer; simp)+

lemma mem_stream_ok: "mem_ok (mem_stream s st)"
  by transfer simp

interpretation mem: redis_streams "mem_redis :: ('v mem_store, 'v) Redis"
proof
  fix st st' c :: string and v :: 'v and i idle s and sts :: "string list"
  note simps = mem_redis_def mem_stream_steps mem_push_def mem_take_def mem_drop_def mem_own_def
  show "rdWaiting mem_redis (rdAdd mem_redis st v s) st' = rdWaiting mem_redis s st' @ (if st' = st then [(Suc (rdLast mem_redis s st), v)] else [])"
    "rdPending mem_redis (rdAdd mem_redis st v s) st' = rdPending mem_redis s st'"
    "rdLast mem_redis (rdAdd mem_redis st v s) st' = (if st' = st then Suc (rdLast mem_redis s st) else rdLast mem_redis s st')"
    by (auto simp: simps split: prod.splits)
  show "rdWaiting mem_redis (rdRemove mem_redis st i s) st' = (if st' = st then filter (\<lambda>m. fst m \<noteq> i) (rdWaiting mem_redis s st') else rdWaiting mem_redis s st')"
    "rdPending mem_redis (rdRemove mem_redis st i s) st' = (if st' = st then filter (\<lambda>m. fst m \<noteq> i) (rdPending mem_redis s st') else rdPending mem_redis s st')"
    "rdLast mem_redis (rdRemove mem_redis st i s) st' = rdLast mem_redis s st'"
    by (auto simp: simps split: prod.splits)
  show "distinct (map fst (rdWaiting mem_redis s st) @ map fst (rdPending mem_redis s st))"
    "i \<in> fst ` set (rdWaiting mem_redis s st) \<union> fst ` set (rdPending mem_redis s st) \<Longrightarrow> i \<le> rdLast mem_redis s st"
    using mem_stream_ok [of s st] by (auto simp: mem_redis_def mem_ok_def split: prod.splits)
  show "snd (rdClaim mem_redis st c idle i s) = Some v \<Longrightarrow> \<exists>c'. (i, c', v) \<in> set (rdPending mem_redis s st)"
    by (auto simp: mem_redis_def dest!: find_SomeD split: option.splits)
  show "rdWaiting mem_redis (fst (rdClaim mem_redis st c idle i s)) st' = rdWaiting mem_redis s st'"
    "rdPending mem_redis (fst (rdClaim mem_redis st c idle i s)) st' =
         (if st' = st \<and> snd (rdClaim mem_redis st c idle i s) \<noteq> None then map (claimed c i) (rdPending mem_redis s st') else rdPending mem_redis s st')"
    "rdLast mem_redis (fst (rdClaim mem_redis st c idle i s)) st' = rdLast mem_redis s st'"
    by (auto simp: simps split: prod.splits option.splits)
  assume "distinct sts"
  show "snd (rdRead mem_redis sts c s) = concat (map (\<lambda>st. map (\<lambda>(i, v). (st, i, v)) (take 1 (rdWaiting mem_redis s st))) sts)"
    "rdWaiting mem_redis (fst (rdRead mem_redis sts c s)) st = (if st \<in> set sts then drop 1 (rdWaiting mem_redis s st) else rdWaiting mem_redis s st)"
    "rdPending mem_redis (fst (rdRead mem_redis sts c s)) st =
       rdPending mem_redis s st @ (if st \<in> set sts then map (\<lambda>(i, v). (i, c, v)) (take 1 (rdWaiting mem_redis s st)) else [])"
    "rdLast mem_redis (fst (rdRead mem_redis sts c s)) st = rdLast mem_redis s st"
    by (auto simp: simps split: prod.splits)
qed

section \<open>Reading and taking back\<close>

context redis_streams
begin

lemma read_nothing:
  assumes "rdWaiting R s st = []" "rdRead R [st] c s = (s', ms)"
  shows "ms = []" "rdWaiting R s' st' = rdWaiting R s st'"
  using read(1) [of "[st]" c s] read(2) [of "[st]" c s st'] assms by (simp_all split: if_splits)

lemma poll_empty:
  assumes "\<And>p. p \<in> set ps \<Longrightarrow> rdWaiting R s (JobStream ns p) = []"
  shows "snd (poll R dec ns c ps s) = None"
  using assms
proof (induction ps arbitrary: s)
  case (Cons q ps)
  obtain s' ms where r: "rdRead R [JobStream ns q] c s = (s', ms)" by fastforce
  then show ?case using Cons.IH [of s'] Cons.prems read_nothing [OF _ r] by simp
qed simp

lemma poll_first:
  assumes "\<And>p. p \<in> set ps \<Longrightarrow> rdWaiting R s (JobStream ns p) = []" "rdWaiting R s (JobStream ns p) = (i, v) # rest" "p \<in> set serviceOrder"
  shows "snd (poll R dec ns c (ps @ p # ps') s) = Some \<lparr>dlPriority = p, dlID = i, dlJob = dec v, dlRaw = v\<rparr>"
  using assms(1,2)
proof (induction ps arbitrary: s)
  case Nil
  then show ?case using assms(3) read(1) [of "[JobStream ns p]" c s] stream_priority [of p ns] by (auto split: prod.splits)
next
  case (Cons q ps)
  obtain s' ms where r: "rdRead R [JobStream ns q] c s = (s', ms)" by fastforce
  then show ?case using Cons.IH [of s'] Cons.prems read_nothing [OF _ r] by simp
qed

text \<open>The blocking read can deliver a message of every stream, of which \<open>Next\<close> returns the first.\<close>

lemma blocking_read:
  assumes "distinct ps" "set ps \<subseteq> set serviceOrder" "p \<in> set ps" "rdWaiting R s (JobStream ns p) = (i, v) # rest"
  shows "(i, c, v) \<in> set (rdPending R (fst (rdRead R (map (JobStream ns) ps) c s)) (JobStream ns p))"
  using assms(3,4) read(3) [OF JobStream_distinct [OF assms(1,2), of ns], of c s "JobStream ns p"] by simp

lemma Requeue_removes:
  assumes "Requeue R enc dec ns pe maxAttempts s = (s', re, Some ex)"
  shows "msgs R s' st = {m \<in> msgs R s st. st = JobStream ns (pePriority pe) \<longrightarrow> fst m \<noteq> peID pe}"
proof -
  obtain s1 where "s' = rdRemove R (JobStream ns (pePriority pe)) (peID pe) s1"
    "s1 = fst (rdClaim R (JobStream ns (pePriority pe)) ''monitor'' (go_div (peIdle pe) 2) (peID pe) s)"
    using assms unfolding Requeue_def Let_def by (auto split: prod.splits option.splits if_splits)
  then show ?thesis by (auto simp: msgs_remove msgs_claim)
qed

end

text \<open>
  Priorities are honoured: when a message waits in some queue that the worker reads,
  \<open>Next\<close> returns the oldest message of the first such queue in the order of service.
\<close>

theorem Next_priority:
  assumes "redis_streams R" "(if allowed = [] then serviceOrder else allowed) = ps @ p # ps'" "p \<in> set serviceOrder"
    and "\<And>q. q \<in> set ps \<Longrightarrow> rdWaiting R s (JobStream ns q) = []" "rdWaiting R s (JobStream ns p) = (i, v) # rest"
  shows "snd (Next R dec ns c allowed env s) = Some \<lparr>dlPriority = p, dlID = i, dlJob = dec v, dlRaw = v\<rparr>"
  using redis_streams.poll_first [OF assms(1) assms(4) assms(5,3), where ps = ps and ps' = ps' and dec = dec and c = c] assms(2)
  by (cases "poll R dec ns c (ps @ p # ps') s") (simp add: Next_def)

text \<open>
  Property C36. A race strands a job: when jobs arrive in two queues between the polls and the blocking
  read of an idle worker, both are delivered to it, since Redis counts the messages of
  each stream, and \<open>Next\<close> returns only one. The other stays pending with a worker that is alive
  and never runs it, until the monitor's timeout.
\<close>

theorem Next_strands:
  assumes "redis_streams R" "\<And>q. q \<in> set serviceOrder \<Longrightarrow> rdWaiting R s (JobStream ns q) = []"
    and "p \<in> set serviceOrder" "q \<in> set serviceOrder" "p \<noteq> q"
    and "rdWaiting R s2 (JobStream ns p) = (i, v) # rest" "rdWaiting R s2 (JobStream ns q) = (k, u) # rest'"
    and "Next R dec ns c [] (\<lambda>_. s2) s = (s', d)"
  shows "(i, c, v) \<in> set (rdPending R s' (JobStream ns p)) \<and> (k, c, u) \<in> set (rdPending R s' (JobStream ns q))
    \<and> (\<exists>lost \<in> {p, q}. \<forall>d'. d = Some d' \<longrightarrow> dlPriority d' \<noteq> lost)"
proof -
  have "snd (poll R dec ns c serviceOrder s) = None" using assms(2) by (rule redis_streams.poll_empty [OF assms(1)])
  then have s': "s' = fst (rdRead R (map (JobStream ns) serviceOrder) c s2)"
    using assms(8) by (cases "poll R dec ns c serviceOrder s") (auto simp: Next_def split: prod.splits)
  have "distinct serviceOrder" by (simp add: serviceOrder_def priority_defs)
  then show ?thesis
    using redis_streams.blocking_read [OF assms(1) _ subset_refl assms(3,6)] redis_streams.blocking_read [OF assms(1) _ subset_refl assms(4,7)]
      s' assms(5) by (cases d) auto
qed

text \<open>
  The monitor takes a job away that used up its attempts before it publishes the result for it:
  if it dies in between, nothing is left of the job.
\<close>

lemma exhausted_gap:
  assumes "redis_streams R" "Requeue R enc dec ns pe maxAttempts s = (s', re, Some ex)"
  shows "peID pe \<notin> fst ` msgs R s' (JobStream ns (pePriority pe))"
  using redis_streams.Requeue_removes [OF assms] by force

text \<open>A job is queued again with one more attempt, below the maximum.\<close>

lemma Requeue_bounded:
  "Requeue R enc dec ns pe maxAttempts s = (s', Some j, ex) \<Longrightarrow> jbAttempt j < maxAttempts \<and> ex = None"
  unfolding Requeue_def Let_def by (auto split: prod.splits option.splits if_splits)

section \<open>Examples\<close>

definition qx_job :: "Job" where
  "qx_job = \<lparr>jbID = ''j'', jbKind = KindCompile, jbAttempt = 0, jbPriority = PriorityCompile, jbSubmissionID = 1, jbUserTestID = 0,
     jbDatasetID = 2, jbGeneration = 0, jbTaskType = ''Batch'', jbTaskTypeParams = [], jbLanguage = None, jbFiles = [], jbManagers = [],
     jbExecutables = [], jbLimits = \<lparr>liTimeMs = 0, liWallTimeMs = 0, liMemoryBytes = 0, liOutputBytes = 0, liProcesses = 1\<rparr>,
     jbTestcases = [], jbInput = []\<rparr>"

abbreviation qx_dec :: "Job + JobResult \<Rightarrow> Job option" where
  "qx_dec \<equiv> \<lambda>v. case v of Inl j \<Rightarrow> Some j | Inr _ \<Rightarrow> None"

interpretation mem: job_queue "mem_redis :: ((Job + JobResult) mem_store, Job + JobResult) Redis" Inl qx_dec
  by unfold_locales simp

lemma mem_waiting: "rdWaiting mem_redis mem_empty st = []" "rdPending mem_redis mem_empty st = []"
  by (simp_all add: mem_redis_def mem_stream_steps)


theorem Next_strands_witness:
  "\<exists>s2 s' d. Next mem_redis qx_dec ''cms:'' ''w/0'' [] (\<lambda>_. s2) mem_empty = (s', d)
     \<and> (1, ''w/0'', Inl qx_job) \<in> set (rdPending mem_redis s' (JobStream ''cms:'' PriorityCompile))
     \<and> (1, ''w/0'', Inl qx_job) \<in> set (rdPending mem_redis s' (JobStream ''cms:'' PriorityEvaluate))"
proof -
  let ?s2 = "Enqueue mem_redis Inl ''cms:'' PriorityCompile qx_job (Enqueue mem_redis Inl ''cms:'' PriorityEvaluate qx_job mem_empty) :: (Job + JobResult) mem_store"
  have ne: "JobStream ''cms:'' PriorityEvaluate \<noteq> JobStream ''cms:'' PriorityCompile" by (simp add: JobStream_def queue_Key_def Priority_names)
  have l: "rdLast mem_redis mem_empty st = 0" for st by (simp add: mem_redis_def mem_stream_steps)
  have w: "rdWaiting mem_redis ?s2 (JobStream ''cms:'' PriorityCompile) = [(1, Inl qx_job)]"
    "rdWaiting mem_redis ?s2 (JobStream ''cms:'' PriorityEvaluate) = [(1, Inl qx_job)]"
    using ne ne [symmetric] by (simp_all add: Enqueue_def mem.add mem_waiting l)
  obtain s' d where n: "Next mem_redis qx_dec ''cms:'' ''w/0'' [] (\<lambda>_. ?s2) mem_empty = (s', d)" by fastforce
  have "PriorityCompile \<in> set serviceOrder" "PriorityEvaluate \<in> set serviceOrder" "PriorityCompile \<noteq> PriorityEvaluate"
    by (simp_all add: serviceOrder_def priority_defs)
  then show ?thesis using Next_strands [OF mem.redis_streams_axioms mem_waiting(1) _ _ _ w n] n by blast
qed

theorem Next_priority_witness:
  "snd (Next mem_redis qx_dec ''cms:'' ''w/0'' [] id (Enqueue mem_redis Inl ''cms:'' PriorityCompile qx_job mem_empty))
     = Some \<lparr>dlPriority = PriorityCompile, dlID = 1, dlJob = Some qx_job, dlRaw = Inl qx_job\<rparr>"
proof -
  let ?s = "Enqueue mem_redis Inl ''cms:'' PriorityCompile qx_job mem_empty :: (Job + JobResult) mem_store"
  have order: "serviceOrder = [PriorityEvaluate] @ PriorityCompile # [PriorityDeferred, PriorityUserTest, PriorityBackground]"
    by (simp add: serviceOrder_def)
  have "JobStream ''cms:'' PriorityEvaluate \<noteq> JobStream ''cms:'' PriorityCompile" by (simp add: JobStream_def queue_Key_def Priority_names)
  then have w: "rdWaiting mem_redis ?s (JobStream ''cms:'' PriorityEvaluate) = []"
    "rdWaiting mem_redis ?s (JobStream ''cms:'' PriorityCompile) = [(1, Inl qx_job)]"
    by (simp_all add: Enqueue_def mem.add mem_waiting) (simp add: mem_redis_def mem_stream_steps)
  show ?thesis
    using Next_priority [OF mem.redis_streams_axioms, of "[]" "[PriorityEvaluate]" PriorityCompile _ ?s "''cms:''" 1 "Inl qx_job" "[]" qx_dec] order w
    by (simp add: serviceOrder_def)
qed

end
