(* ===== verification/Leases.thy ===== *)
theory Leases
  imports Jobs
begin

text \<open>
  Leadership and bookkeeping of the queue (\<^verbatim>\<open>src/internal/queue/lease.go\<close>, \<^verbatim>\<open>warm.go\<close> and the toolchains of
  \<^verbatim>\<open>workers.go\<close>). The key of a lease is what Redis keeps of it: its value and the instant
  at which it expires; the scripts of the code read and write it atomically. The times to live are
  whole milliseconds (the code's are seconds), so that nothing is lost in the units of Redis.
\<close>

section \<open>The lease\<close>

type_synonym lease_key = "(string \<times> time) option"

definition lease_get :: "time \<Rightarrow> lease_key \<Rightarrow> string option" where
  "lease_get now k = (case k of Some (v, e) \<Rightarrow> if now < e then Some v else None | None \<Rightarrow> None)"

definition TryAcquire :: "string \<Rightarrow> duration \<Rightarrow> time \<Rightarrow> lease_key \<Rightarrow> bool \<times> lease_key" where
  "TryAcquire i ttl now k = (if lease_get now k = None then (True, Some (i, now + ttl)) else (False, k))"

definition Renew :: "string \<Rightarrow> duration \<Rightarrow> time \<Rightarrow> lease_key \<Rightarrow> bool \<times> lease_key" where
  "Renew i ttl now k = (if lease_get now k = Some i then (True, Some (i, now + ttl)) else (False, k))"

definition Release :: "string \<Rightarrow> time \<Rightarrow> lease_key \<Rightarrow> lease_key" where
  "Release i now k = (if lease_get now k = Some i then None else k)"

text \<open>
  The replicas of \<^verbatim>\<open>Lease.Run\<close>: waiting for the lease, holding it with the expiry of its last renewal,
  or stopping after a renewal told that it was lost.
\<close>

datatype role = WaitsLease | HoldsLease time | StopsLease

record lease_world =
  lwNow :: time
  lwKey :: lease_key
  lwRole :: "string \<Rightarrow> role"

definition try_run :: "duration \<Rightarrow> string \<Rightarrow> lease_world \<Rightarrow> lease_world" where
  "try_run ttl i w =
     (case TryAcquire i ttl (lwNow w) (lwKey w) of
        (True, k) \<Rightarrow> w\<lparr>lwKey := k, lwRole := (lwRole w)(i := HoldsLease (lwNow w + ttl))\<rparr>
      | (False, k) \<Rightarrow> w)"

text \<open>The tick of \<^verbatim>\<open>hold\<close>; \<open>reached\<close> tells whether Redis answered.\<close>

definition hold_tick :: "duration \<Rightarrow> bool \<Rightarrow> string \<Rightarrow> lease_world \<Rightarrow> lease_world" where
  "hold_tick ttl reached i w =
     (if \<not> reached then w
      else (case Renew i ttl (lwNow w) (lwKey w) of
              (True, k) \<Rightarrow> w\<lparr>lwKey := k, lwRole := (lwRole w)(i := HoldsLease (lwNow w + ttl))\<rparr>
            | (False, k) \<Rightarrow> w\<lparr>lwRole := (lwRole w)(i := StopsLease)\<rparr>))"

definition hold_end :: "string \<Rightarrow> lease_world \<Rightarrow> lease_world" where
  "hold_end i w = w\<lparr>lwKey := Release i (lwNow w) (lwKey w), lwRole := (lwRole w)(i := WaitsLease)\<rparr>"

inductive lease_run :: "duration \<Rightarrow> lease_world \<Rightarrow> bool" for ttl where
  start: "lease_run ttl \<lparr>lwNow = t, lwKey = None, lwRole = \<lambda>_. WaitsLease\<rparr>"
| time: "lease_run ttl w \<Longrightarrow> lwNow w \<le> t \<Longrightarrow> lease_run ttl (w\<lparr>lwNow := t\<rparr>)"
| acquire: "lease_run ttl w \<Longrightarrow> lwRole w i = WaitsLease \<Longrightarrow> lease_run ttl (try_run ttl i w)"
| tick: "lease_run ttl w \<Longrightarrow> lwRole w i = HoldsLease e \<Longrightarrow> lease_run ttl (hold_tick ttl reached i w)"
| finish: "lease_run ttl w \<Longrightarrow> lwRole w i \<noteq> WaitsLease \<Longrightarrow> lease_run ttl (hold_end i w)"

definition lease_inv :: "lease_world \<Rightarrow> bool" where
  "lease_inv w \<longleftrightarrow> (\<forall>i e. lwRole w i = HoldsLease e \<longrightarrow> lwNow w < e \<longrightarrow> lwKey w = Some (i, e))"

lemma lease_run_inv: "lease_run ttl w \<Longrightarrow> lease_inv w"
proof (induction rule: lease_run.induct)
  case (acquire w i)
  then show ?case by (auto simp: lease_inv_def try_run_def TryAcquire_def lease_get_def split: prod.splits if_splits option.splits)
next
  case (tick w i e reached)
  then show ?case by (auto simp: lease_inv_def hold_tick_def Renew_def lease_get_def split: prod.splits if_splits option.splits)
next
  case (finish w i)
  then show ?case by (auto simp: lease_inv_def hold_end_def Release_def lease_get_def split: if_splits option.splits)
qed (auto simp: lease_inv_def)

text \<open>
  Property C35. One leader at a time: two replicas never both hold the lease as long as the last
  successful renewal of each of them is younger than the time to live.
\<close>

theorem lease_exclusive:
  assumes "lease_run ttl w" "lwRole w i = HoldsLease e" "lwRole w j = HoldsLease e'" "lwNow w < e" "lwNow w < e'"
  shows "i = j \<and> lwKey w = Some (i, e)"
proof -
  have "lwKey w = Some (i, e)" "lwKey w = Some (j, e')" using lease_run_inv [OF assms(1)] assms(2-5) unfolding lease_inv_def by blast+
  then show ?thesis by simp
qed

text \<open>
  A replica that cannot reach Redis goes on: the tick gives the lease up only when Redis answers
  that it was lost, so after the time to live another replica is active beside it.
\<close>

theorem two_leaders: "\<exists>w. lease_run 10 w \<and> lwRole w ''a'' = HoldsLease 10 \<and> lwRole w ''b'' = HoldsLease 22"
proof -
  let ?s = "\<lparr>lwNow = 0, lwKey = None, lwRole = \<lambda>_. WaitsLease\<rparr>"
  have 1: "lease_run 10 (try_run 10 ''a'' ?s)" by (intro lease_run.acquire lease_run.start) simp
  have 2: "lease_run 10 (hold_tick 10 False ''a'' ((try_run 10 ''a'' ?s)\<lparr>lwNow := 12\<rparr>))"
    by (intro lease_run.tick [where e = 10] lease_run.time 1) (simp_all add: try_run_def TryAcquire_def lease_get_def)
  have "lease_run 10 (try_run 10 ''b'' (hold_tick 10 False ''a'' ((try_run 10 ''a'' ?s)\<lparr>lwNow := 12\<rparr>)))"
    by (intro lease_run.acquire 2) (simp add: try_run_def hold_tick_def TryAcquire_def lease_get_def)
  then show ?thesis by (rule_tac exI) (auto simp: try_run_def hold_tick_def TryAcquire_def lease_get_def)
qed

section \<open>Pre-warming\<close>

record warm_store =
  wmDigests :: "string set"
  wmVersion :: string

definition warm_version :: "(string \<Rightarrow> string) \<Rightarrow> string list \<Rightarrow> string" where
  "warm_version sha ds = (if ds = [] then [] else take 16 (sha (concat (map (\<lambda>d. d @ [CHR 0x0A]) ds))))"

text \<open>\<^verbatim>\<open>slices.Sort\<close> and \<^verbatim>\<open>slices.Compact\<close> leave the distinct digests in order. \<open>sha\<close> is the hexadecimal SHA-256.\<close>

definition SetWarm :: "(string \<Rightarrow> string) \<Rightarrow> string list \<Rightarrow> warm_store \<Rightarrow> bool \<times> warm_store" where
  "SetWarm sha digests st =
     (let ds = remdups_adj (stable_sort (<) digests); version = warm_version sha ds
      in if wmVersion st = version then (False, st) else (True, \<lparr>wmDigests = set ds, wmVersion = version\<rparr>))"

lemma distinct_compact: "sorted xs \<Longrightarrow> distinct (remdups_adj xs)"
  by (induction xs rule: remdups_adj.induct) auto

lemma sorted_compact: "remdups_adj (stable_sort (<) xs) = sorted_list_of_set (set (xs :: string list))"
proof -
  let ?ys = "remdups_adj (stable_sort (<) xs)"
  have "sorted (stable_sort (<) xs)" by (simp add: stable_sort_less)
  then have "sorted ?ys" "distinct ?ys" by (simp_all add: distinct_compact)
  moreover have "set ?ys = set xs" by simp
  ultimately show ?thesis by (metis sorted_list_of_set.idem_if_sorted_distinct)
qed

text \<open>Publishing the same digests again, in any order and with repetitions, does nothing.\<close>

lemma SetWarm_idempotent:
  assumes "set ds' = set ds"
  shows "SetWarm sha ds' (snd (SetWarm sha ds st)) = (False, snd (SetWarm sha ds st))"
    "wmVersion (snd (SetWarm sha ds st)) = warm_version sha (sorted_list_of_set (set ds))"
  using assms by (simp_all add: SetWarm_def sorted_compact Let_def)

section \<open>Toolchains\<close>

record WorkerStatus =
  wsName :: string
  wsAlive :: bool
  wsToolchains :: "string \<rightharpoonup> string"

record Toolchain =
  tlVersion :: string
  tlWorkers :: "string list"

fun add_toolchain :: "string \<Rightarrow> string \<Rightarrow> Toolchain list \<Rightarrow> Toolchain list" where
  "add_toolchain v name [] = [\<lparr>tlVersion = v, tlWorkers = [name]\<rparr>]"
| "add_toolchain v name (t # ts) =
     (if tlVersion t = v then t\<lparr>tlWorkers := tlWorkers t @ [name]\<rparr> # ts else t # add_toolchain v name ts)"

definition toolchain_less :: "Toolchain \<Rightarrow> Toolchain \<Rightarrow> bool" where
  "toolchain_less a b \<longleftrightarrow>
     (if length (tlWorkers a) \<noteq> length (tlWorkers b) then length (tlWorkers b) < length (tlWorkers a) else tlVersion a < tlVersion b)"

text \<open>The list of one language; the map of the code has an entry where it is not empty.\<close>

definition Toolchains :: "WorkerStatus list \<Rightarrow> string \<Rightarrow> Toolchain list" where
  "Toolchains ws lang =
     stable_sort toolchain_less
       (foldl (\<lambda>ts w. case wsToolchains w lang of None \<Rightarrow> ts | Some v \<Rightarrow> add_toolchain v (wsName w) ts) [] (filter wsAlive ws))"

definition reports :: "WorkerStatus list \<Rightarrow> string \<Rightarrow> string \<Rightarrow> string list" where
  "reports ws lang v = map wsName (filter (\<lambda>w. wsAlive w \<and> wsToolchains w lang = Some v) ws)"

lemma add_toolchain_versions:
  "distinct (map tlVersion ts) \<Longrightarrow> distinct (map tlVersion (add_toolchain v n ts))"
  "tlVersion ` set (add_toolchain v n ts) = insert v (tlVersion ` set ts)"
  by (induction ts) auto

lemma add_toolchain_workers:
  "distinct (map tlVersion ts) \<Longrightarrow> t \<in> set (add_toolchain v n ts) \<Longrightarrow>
   if tlVersion t = v then (\<exists>t' \<in> set ts. tlVersion t' = v \<and> tlWorkers t = tlWorkers t' @ [n]) \<or> v \<notin> tlVersion ` set ts \<and> tlWorkers t = [n]
   else t \<in> set ts"
  by (induction ts) (auto split: if_splits dest: image_eqI [where f = tlVersion, rotated])

lemma add_all_toolchains:
  assumes "ts = foldl (\<lambda>ts w. case wsToolchains w lang of None \<Rightarrow> ts | Some v \<Rightarrow> add_toolchain v (wsName w) ts) [] (filter wsAlive ws)"
  shows "distinct (map tlVersion ts) \<and> tlVersion ` set ts = {v. reports ws lang v \<noteq> []} \<and> (\<forall>t \<in> set ts. tlWorkers t = reports ws lang (tlVersion t))"
  using assms
proof (induction ws arbitrary: ts rule: rev_induct)
  case (snoc w ws)
  define ts0 where "ts0 = foldl (\<lambda>ts w. case wsToolchains w lang of None \<Rightarrow> ts | Some v \<Rightarrow> add_toolchain v (wsName w) ts) [] (filter wsAlive ws)"
  note IH = snoc.IH [OF ts0_def]
  show ?case
  proof (cases "wsAlive w \<and> wsToolchains w lang \<noteq> None")
    case True
    then obtain v where v: "wsToolchains w lang = Some v" "wsAlive w" by auto
    have ts: "ts = add_toolchain v (wsName w) ts0" using snoc.prems v by (simp add: ts0_def)
    have r: "reports (ws @ [w]) lang u = reports ws lang u @ (if u = v then [wsName w] else [])" for u using v by (auto simp: reports_def)
    have "tlWorkers t = reports (ws @ [w]) lang (tlVersion t)" if "t \<in> set ts" for t
      using add_toolchain_workers [of ts0 t v "wsName w"] IH that ts r by (auto split: if_splits)
    moreover have "tlVersion ` set ts = {u. reports (ws @ [w]) lang u \<noteq> []}" using IH add_toolchain_versions(2) ts r by auto
    ultimately show ?thesis using IH add_toolchain_versions(1) ts by blast
  next
    case False
    then have "ts = ts0" "\<And>u. reports (ws @ [w]) lang u = reports ws lang u" using snoc.prems by (auto simp: ts0_def reports_def)
    then show ?thesis using IH by simp
  qed
qed (simp add: reports_def)

text \<open>Every version of a language is listed once, with the live workers that report it.\<close>

lemma Toolchains_spec:
  "distinct (map tlVersion (Toolchains ws lang)) \<and> tlVersion ` set (Toolchains ws lang) = {v. reports ws lang v \<noteq> []}
   \<and> (\<forall>t \<in> set (Toolchains ws lang). tlWorkers t = reports ws lang (tlVersion t))"
proof -
  let ?ts = "foldl (\<lambda>ts w. case wsToolchains w lang of None \<Rightarrow> ts | Some v \<Rightarrow> add_toolchain v (wsName w) ts) [] (filter wsAlive ws)"
  have m: "mset (Toolchains ws lang) = mset ?ts" by (simp add: Toolchains_def)
  have s: "set (Toolchains ws lang) = set ?ts" by (rule mset_eq_setD [OF m])
  have "mset (map tlVersion (Toolchains ws lang)) = mset (map tlVersion ?ts)" using m by simp
  then have d: "distinct (map tlVersion (Toolchains ws lang)) \<longleftrightarrow> distinct (map tlVersion ?ts)" by (rule mset_eq_imp_distinct_iff)
  show ?thesis unfolding d s by (rule add_all_toolchains [OF refl])
qed

theorem lease_exclusive_witness:
  "\<exists>w. lease_run 10 w \<and> lwRole w ''a'' = HoldsLease 10 \<and> lwNow w < 10 \<and> lwKey w = Some (''a'', 10)"
proof -
  let ?w = "try_run 10 ''a'' \<lparr>lwNow = 0, lwKey = None, lwRole = \<lambda>_. WaitsLease\<rparr>"
  have run: "lease_run 10 ?w" by (intro lease_run.acquire lease_run.start) simp
  have r: "lwRole ?w ''a'' = HoldsLease 10" "lwNow ?w < 10" by (simp_all add: try_run_def TryAcquire_def lease_get_def)
  then show ?thesis using lease_exclusive [OF run r(1) r(1) r(2) r(2)] run by blast
qed

end
