(* ===== verification/Line_Diff.thy ===== *)
theory Line_Diff
  imports Go_Strings "HOL-Library.Sublist"
begin

text \<open>
  The comparison of two submissions in the administration interface (\<^verbatim>\<open>src/internal/adminweb/diff.go\<close>): the
  greedy algorithm of Myers with the common ends trimmed. The array \<^verbatim>\<open>v\<close> of the code, indexed by
  \<^verbatim>\<open>offset+k\<close>, is a function of the diagonal \<open>k\<close>; round \<open>d\<close> of the search touches only the diagonals
  from \<open>-d\<close> to \<open>d\<close> (and 1 in the first round), which are inside the array. \<open>far\<close> is the furthest point of a
  diagonal after each round, and \<open>path\<close> the edit graph that it is compared with.
\<close>

section \<open>The algorithm\<close>

record diffLine =
  dfOp :: char
  dfText :: string
  dfA :: int
  dfB :: int

definition same_line :: "string list \<Rightarrow> int \<Rightarrow> int \<Rightarrow> diffLine" where
  "same_line a x y = \<lparr>dfOp = CHR '' '', dfText = a ! nat x, dfA = x + 1, dfB = y + 1\<rparr>"

definition old_line :: "string list \<Rightarrow> int \<Rightarrow> diffLine" where
  "old_line a x = \<lparr>dfOp = CHR ''-'', dfText = a ! nat x, dfA = x + 1, dfB = 0\<rparr>"

definition new_line :: "string list \<Rightarrow> int \<Rightarrow> diffLine" where
  "new_line b y = \<lparr>dfOp = CHR ''+'', dfText = b ! nat y, dfA = 0, dfB = y + 1\<rparr>"

definition replace_all :: "string list \<Rightarrow> string list \<Rightarrow> diffLine list" where
  "replace_all a b = map (\<lambda>i. old_line a (int i)) [0..<length a] @ map (\<lambda>i. new_line b (int i)) [0..<length b]"

text \<open>The choice of the diagonal that a step comes from, and the first point of the step.\<close>

definition from_above :: "(int \<Rightarrow> int) \<Rightarrow> int \<Rightarrow> int \<Rightarrow> bool" where
  "from_above v d k \<longleftrightarrow> k = - d \<or> (k \<noteq> d \<and> v (k - 1) < v (k + 1))"

definition start_x :: "(int \<Rightarrow> int) \<Rightarrow> int \<Rightarrow> int \<Rightarrow> int" where
  "start_x v d k = (if from_above v d k then v (k + 1) else v (k - 1) + 1)"

function snake :: "string list \<Rightarrow> string list \<Rightarrow> int \<Rightarrow> int \<Rightarrow> int" where
  "snake a b x y =
     (if x < int (length a) \<and> y < int (length b) \<and> a ! nat x = b ! nat y then snake a b (x + 1) (y + 1) else x)"
  by pat_completeness auto
termination by (relation "measure (\<lambda>(a, b, x, y). nat (int (length a) - x))") auto

declare snake.simps [simp del]

fun search_round :: "string list \<Rightarrow> string list \<Rightarrow> int \<Rightarrow> int list \<Rightarrow> (int \<Rightarrow> int) \<Rightarrow> (int \<Rightarrow> int) \<times> bool" where
  "search_round a b d [] v = (v, False)"
| "search_round a b d (k # ks) v =
     (let x0 = start_x v d k; x = snake a b x0 (x0 - k); v' = v(k := x)
      in if int (length a) \<le> x \<and> int (length b) \<le> x - k then (v', True) else search_round a b d ks v')"

definition diagonals :: "nat \<Rightarrow> int list" where
  "diagonals d = map (\<lambda>i. - int d + 2 * int i) [0..<Suc d]"

text \<open>The rounds from \<open>d\<close> on, \<open>left\<close> of them allowed: the snapshots, newest first, of a search that found the end.\<close>

fun search :: "string list \<Rightarrow> string list \<Rightarrow> nat \<Rightarrow> nat \<Rightarrow> (int \<Rightarrow> int) \<Rightarrow> (int \<Rightarrow> int) list \<Rightarrow> (int \<Rightarrow> int) list option" where
  "search a b 0 d v trace = None"
| "search a b (Suc left) d v trace =
     (case search_round a b (int d) (diagonals d) v of
        (v', True) \<Rightarrow> Some (v # trace)
      | (v', False) \<Rightarrow> search a b left (Suc d) v' (v # trace))"

text \<open>The lines of a snake backwards, with the point it started from.\<close>

function unsnake :: "string list \<Rightarrow> int \<Rightarrow> int \<Rightarrow> int \<Rightarrow> int \<Rightarrow> diffLine list \<times> int \<times> int" where
  "unsnake a px py x y =
     (if px < x \<and> py < y then (let (ls, q) = unsnake a px py (x - 1) (y - 1) in (same_line a (x - 1) (y - 1) # ls, q)) else ([], x, y))"
  by pat_completeness auto
termination by (relation "measure (\<lambda>(a, px, py, x, y). nat (x - px))") auto

declare unsnake.simps [simp del]

text \<open>The snapshots are those of the rounds \<open>d\<close>, \<open>d - 1\<close>, ..., 0, where \<open>d\<close> is the number of the others.\<close>

fun backtrack :: "string list \<Rightarrow> string list \<Rightarrow> (int \<Rightarrow> int) list \<Rightarrow> int \<Rightarrow> int \<Rightarrow> diffLine list" where
  "backtrack a b [] x y = []"
| "backtrack a b (v # trace) x y =
     (if \<not> (0 < x \<or> 0 < y) then []
      else (let d = int (length trace); k = x - y; pk = (if from_above v d k then k + 1 else k - 1); px = v pk; py = px - pk;
                (ls, x', y') = unsnake a px py x y
            in if trace = [] then ls
               else if x' = px then ls @ new_line b (y' - 1) # backtrack a b trace x' (y' - 1)
               else ls @ old_line a (x' - 1) # backtrack a b trace (x' - 1) y'))"

definition myers :: "string list \<Rightarrow> string list \<Rightarrow> int \<Rightarrow> diffLine list" where
  "myers a b maxD =
     (if a = [] \<or> b = [] then replace_all a b
      else (case search a b (nat (min (int (length a + length b)) maxD + 1)) 0 (\<lambda>_. 0) [] of
              None \<Rightarrow> replace_all a b
            | Some trace \<Rightarrow> rev (backtrack a b trace (int (length a)) (int (length b)))))"

fun common_prefix :: "string list \<Rightarrow> string list \<Rightarrow> nat" where
  "common_prefix (x # a) (y # b) = (if x = y then Suc (common_prefix a b) else 0)"
| "common_prefix _ _ = 0"

definition shift_line :: "int \<Rightarrow> diffLine \<Rightarrow> diffLine" where
  "shift_line pre l = l\<lparr>dfA := (if 0 < dfA l then dfA l + pre else dfA l), dfB := (if 0 < dfB l then dfB l + pre else dfB l)\<rparr>"

definition lineDiff :: "string list \<Rightarrow> string list \<Rightarrow> int \<Rightarrow> diffLine list" where
  "lineDiff a b maxD =
     (let n = length a; m = length b; pre = common_prefix a b;
          suf = common_prefix (rev (drop pre a)) (rev (drop pre b));
          mid = myers (take (n - suf - pre) (drop pre a)) (take (m - suf - pre) (drop pre b)) maxD
      in map (\<lambda>i. same_line a (int i) (int i)) [0..<pre] @ map (shift_line (int pre)) mid
         @ map (\<lambda>i. same_line a (int (n - suf + i)) (int (m - suf + i))) [0..<suf])"

text \<open>\<^verbatim>\<open>strings.TrimSuffix\<close> and \<^verbatim>\<open>strings.Split\<close> for one character.\<close>

definition TrimSuffix :: "string \<Rightarrow> string \<Rightarrow> string" where
  "TrimSuffix s t = (if length t \<le> length s \<and> drop (length s - length t) s = t then take (length s - length t) s else s)"

fun Split_char :: "char \<Rightarrow> string \<Rightarrow> string list" where
  "Split_char c [] = [[]]"
| "Split_char c (x # s) = (if x = c then [] # Split_char c s else (x # hd (Split_char c s)) # tl (Split_char c s))"

definition splitLines :: "string \<Rightarrow> string list" where
  "splitLines s0 =
     (let s1 = ReplaceAll s0 [CHR 0x0D, CHR 0x0A] [CHR 0x0A]; s = TrimSuffix s1 [CHR 0x0A]
      in if s = [] then [] else Split_char (CHR 0x0A) s)"

section \<open>The furthest points\<close>

definition round_x :: "string list \<Rightarrow> string list \<Rightarrow> (int \<Rightarrow> int) \<Rightarrow> int \<Rightarrow> int \<Rightarrow> int" where
  "round_x a b v d k = (let x0 = start_x v d k in snake a b x0 (x0 - k))"

primrec far :: "string list \<Rightarrow> string list \<Rightarrow> nat \<Rightarrow> int \<Rightarrow> int" where
  "far a b 0 = round_x a b (\<lambda>_. 0) 0"
| "far a b (Suc d) = round_x a b (far a b d) (int (Suc d))"

declare far.simps(2) [simp del]

lemma far_Suc: "far a b (Suc d) k = round_x a b (far a b d) (int (Suc d)) k"
  by (simp only: far.simps)

definition on_diag :: "nat \<Rightarrow> int \<Rightarrow> bool" where
  "on_diag d k \<longleftrightarrow> \<bar>k\<bar> \<le> int d \<and> even (k - int d)"

lemma on_diag_0 [simp]: "on_diag 0 k \<longleftrightarrow> k = 0"
  by (auto simp: on_diag_def)

lemma on_diag_Suc:
  "on_diag (Suc d) k \<Longrightarrow> k \<noteq> - int (Suc d) \<Longrightarrow> on_diag d (k - 1)"
  "on_diag (Suc d) k \<Longrightarrow> k \<noteq> int (Suc d) \<Longrightarrow> on_diag d (k + 1)"
  "on_diag d k \<Longrightarrow> on_diag (Suc d) (k - 1)" "on_diag d k \<Longrightarrow> on_diag (Suc d) (k + 1)"
  unfolding on_diag_def by presburger+

lemma on_diag_2:
  "on_diag d k \<Longrightarrow> k + 2 \<le> int d \<Longrightarrow> on_diag d (k + 2)" "on_diag d k \<Longrightarrow> - int d \<le> k - 2 \<Longrightarrow> on_diag d (k - 2)"
  unfolding on_diag_def by presburger+

lemma set_diagonals: "set (diagonals d) = {k. on_diag d k}"
proof (intro set_eqI iffI)
  fix k assume "k \<in> {k. on_diag d k}"
  then have d: "- int d \<le> k" "k \<le> int d" "even (k - int d)" by (auto simp: on_diag_def)
  have "even (k + int d)" using d(3) by simp
  then have "2 * ((k + int d) div 2) = k + int d" by (rule dvd_mult_div_cancel)
  moreover have "0 \<le> (k + int d) div 2" using d(1) by simp
  ultimately have "k = - int d + 2 * int (nat ((k + int d) div 2))" by simp
  moreover have "nat ((k + int d) div 2) < Suc d" using d by linarith
  ultimately show "k \<in> set (diagonals d)" unfolding diagonals_def set_map set_upt by (intro image_eqI) auto
qed (auto simp: diagonals_def on_diag_def)

lemma snake_props:
  "x \<le> snake a b x y" "snake a b x y = x \<or> snake a b x y \<le> int (length a) \<and> snake a b x y + (y - x) \<le> int (length b)"
proof (induction a b x y rule: snake.induct)
  case (1 a b x y)
  { case 1 show ?case using "1.IH"(1) by (subst snake.simps) auto }
  { case 2 show ?case using "1.IH" snake.simps [of a b x y] by auto }
qed

lemma snake_end:
  "snake a b x y < int (length a) \<Longrightarrow> snake a b x y + (y - x) < int (length b) \<Longrightarrow>
   a ! nat (snake a b x y) \<noteq> b ! nat (snake a b x y + (y - x))"
proof (induction a b x y rule: snake.induct)
  case (1 a b x y)
  show ?case
  proof (cases "x < int (length a) \<and> y < int (length b) \<and> a ! nat x = b ! nat y")
    case True
    then have e: "snake a b x y = snake a b (x + 1) (y + 1)" by (subst snake.simps) simp
    show ?thesis using 1 True unfolding e by simp
  next
    case False
    then have e: "snake a b x y = x" by (subst snake.simps) auto
    show ?thesis using False 1(2,3) unfolding e by simp
  qed
qed

lemma snake_equal:
  "x \<le> z \<Longrightarrow> z < snake a b x y \<Longrightarrow> 0 \<le> x \<Longrightarrow> 0 \<le> y \<Longrightarrow> z < int (length a) \<and> z + (y - x) < int (length b) \<and> a ! nat z = b ! nat (z + (y - x))"
proof (induction a b x y rule: snake.induct)
  case (1 a b x y)
  then show ?case
  proof (cases "x < int (length a) \<and> y < int (length b) \<and> a ! nat x = b ! nat y")
    case True
    then have e: "snake a b x y = snake a b (x + 1) (y + 1)" by (subst snake.simps) simp
    show ?thesis using 1 True unfolding e by (cases "z = x") auto
  next
    case False
    then have e: "snake a b x y = x" by (subst snake.simps) auto
    show ?thesis using 1(2,3) unfolding e by simp
  qed
qed

text \<open>The first point of a step is the further one of the two that lead to it.\<close>

lemma start_x_ge:
  "k \<noteq> - d \<Longrightarrow> v (k - 1) + 1 \<le> start_x v d k" "k \<noteq> d \<Longrightarrow> v (k + 1) \<le> start_x v d k"
  by (auto simp: start_x_def from_above_def)

lemma start_x_cases:
  obtains (above) "from_above v d k" "start_x v d k = v (k + 1)" "k = d \<longrightarrow> k = - d"
  | (left) "\<not> from_above v d k" "start_x v d k = v (k - 1) + 1" "k \<noteq> - d"
proof (cases "from_above v d k")
  case True
  then show thesis using above by (auto simp: start_x_def from_above_def)
next
  case False
  then show thesis using left by (auto simp: start_x_def from_above_def)
qed

lemma round_x_ge: "start_x v d k \<le> round_x a b v d k"
  unfolding round_x_def Let_def by (rule snake_props(1))

lemma far_Suc_ge:
  assumes "on_diag d k"
  shows "far a b d k + 1 \<le> far a b (Suc d) (k + 1)" "far a b d k \<le> far a b (Suc d) (k - 1)"
proof -
  have "k + 1 \<noteq> - int (Suc d)" "k - 1 \<noteq> int (Suc d)" using assms unfolding on_diag_def by linarith+
  then show "far a b d k + 1 \<le> far a b (Suc d) (k + 1)" "far a b d k \<le> far a b (Suc d) (k - 1)"
    using start_x_ge(1) [of "k + 1" "int (Suc d)" "far a b d"] start_x_ge(2) [of "k - 1" "int (Suc d)" "far a b d"]
      round_x_ge [of "far a b d" "int (Suc d)" "k + 1" a b] round_x_ge [of "far a b d" "int (Suc d)" "k - 1" a b]
    unfolding far_Suc diff_add_cancel add_diff_cancel_right' by linarith+
qed

lemma far_Suc_cases:
  assumes "on_diag (Suc d) k"
  obtains (above) "from_above (far a b d) (int (Suc d)) k" "start_x (far a b d) (int (Suc d)) k = far a b d (k + 1)" "on_diag d (k + 1)"
  | (left) "\<not> from_above (far a b d) (int (Suc d)) k" "start_x (far a b d) (int (Suc d)) k = far a b d (k - 1) + 1" "on_diag d (k - 1)"
proof (cases rule: start_x_cases [of "far a b d" "int (Suc d)" k])
  case above
  then have "k \<noteq> int (Suc d)" by linarith
  then show thesis using that(1) above on_diag_Suc(2) [OF assms] by blast
next
  case left
  then show thesis using that(2) on_diag_Suc(1) [OF assms] by blast
qed

lemma start_x_0 [simp]: "start_x (\<lambda>_. 0) 0 0 = 0"
  by (simp add: start_x_def from_above_def)

lemma far_bounds:
  "on_diag d k \<Longrightarrow> 0 \<le> far a b d k \<and> 0 \<le> far a b d k - k \<and> int d \<le> far a b d k + (far a b d k - k)"
proof (induction d arbitrary: k)
  case 0
  then show ?case using round_x_ge [of "\<lambda>_. 0" 0 0 a b] by simp
next
  case (Suc d)
  have r: "start_x (far a b d) (int (Suc d)) k \<le> far a b (Suc d) k" unfolding far_Suc by (rule round_x_ge)
  from Suc.prems show ?case
  proof (cases rule: far_Suc_cases [where a = a and b = b])
    case above
    then show ?thesis using Suc.IH [of "k + 1"] r by linarith
  next
    case left
    then show ?thesis using Suc.IH [of "k - 1"] r by linarith
  qed
qed

text \<open>A point outside the grid did not move along a diagonal.\<close>

lemma round_x_outside:
  assumes "int (length a) < round_x a b v d k \<or> int (length b) < round_x a b v d k - k"
  shows "round_x a b v d k = start_x v d k"
proof -
  have "round_x a b v d k = start_x v d k \<or> round_x a b v d k \<le> int (length a) \<and> round_x a b v d k - k \<le> int (length b)"
    using snake_props(2) [of a b "start_x v d k" "start_x v d k - k"] unfolding round_x_def Let_def by simp
  then show ?thesis using assms by linarith
qed

lemma far_below:
  "on_diag d k \<Longrightarrow> int (length b) < far a b d k - k \<Longrightarrow> k + 2 \<le> int d \<and> far a b d k + 1 \<le> far a b d (k + 2)"
proof (induction d arbitrary: k)
  case 0
  then show ?case using round_x_outside [of a b "\<lambda>_. 0" 0 0] by simp
next
  case (Suc d)
  have e: "far a b (Suc d) k = start_x (far a b d) (int (Suc d)) k" using Suc.prems(2) unfolding far_Suc by (intro round_x_outside) simp
  from Suc.prems(1) show ?case
  proof (cases rule: far_Suc_cases [where a = a and b = b])
    case above
    then show ?thesis using far_Suc_ge(1) [of d "k + 1" a b] e by (auto simp: on_diag_def add.commute)
  next
    case left
    then have "k + 1 \<le> int d \<and> far a b d (k - 1) + 1 \<le> far a b d (k + 1)" using Suc.IH [of "k - 1"] Suc.prems(2) e by (simp add: add.commute)
    moreover have "on_diag d (k + 1)" using left(3) calculation on_diag_2(1) [of d "k - 1"] by (simp add: add.commute)
    ultimately show ?thesis using far_Suc_ge(1) [of d "k + 1" a b] e left(2) by (simp add: add.commute)
  qed
qed

lemma far_beside:
  "on_diag d k \<Longrightarrow> int (length a) < far a b d k \<Longrightarrow> - int d \<le> k - 2 \<and> far a b d k - 1 \<le> far a b d (k - 2)"
proof (induction d arbitrary: k)
  case 0
  then show ?case using round_x_outside [of a b "\<lambda>_. 0" 0 0] by simp
next
  case (Suc d)
  have e: "far a b (Suc d) k = start_x (far a b d) (int (Suc d)) k" using Suc.prems(2) unfolding far_Suc by (intro round_x_outside) simp
  from Suc.prems(1) show ?case
  proof (cases rule: far_Suc_cases [where a = a and b = b])
    case left
    then show ?thesis using far_Suc_ge(2) [of d "k - 1" a b] e by (auto simp: on_diag_def)
  next
    case above
    then have "- int d \<le> k - 1 \<and> far a b d (k + 1) - 1 \<le> far a b d (k - 1)" using Suc.IH [of "k + 1"] Suc.prems(2) e by simp
    moreover have "on_diag d (k - 1)" using above(3) calculation on_diag_2(2) [of d "k + 1"] by simp
    ultimately show ?thesis using far_Suc_ge(2) [of d "k - 1" a b] e above(2) by simp
  qed
qed

definition at_end :: "string list \<Rightarrow> string list \<Rightarrow> nat \<Rightarrow> int \<Rightarrow> bool" where
  "at_end a b d k \<longleftrightarrow> on_diag d k \<and> int (length a) \<le> far a b d k \<and> int (length b) \<le> far a b d k - k"

text \<open>The first point past both ends is the end of both texts.\<close>

lemma first_end:
  assumes "at_end a b d k" "\<And>d' k'. d' < d \<Longrightarrow> \<not> at_end a b d' k'"
  shows "far a b d k = int (length a)" "k = int (length a) - int (length b)"
proof -
  have "far a b d k \<le> int (length a) \<and> far a b d k - k \<le> int (length b)"
  proof (cases d)
    case 0
    then show ?thesis using far_below [of 0 k b a] far_beside [of 0 k a b] assms(1) by (force simp: at_end_def simp del: far.simps)
  next
    case (Suc d')
    have no: "on_diag d' k' \<Longrightarrow> far a b d' k' < int (length a) \<or> far a b d' k' - k' < int (length b)" for k'
      using assms(2) [of d' k'] Suc unfolding at_end_def by auto
    show ?thesis
    proof (rule ccontr)
      assume out: "\<not> ?thesis"
      have e: "far a b d k = start_x (far a b d') (int (Suc d')) k" using out unfolding Suc far_Suc by (intro round_x_outside) auto
      have k: "on_diag (Suc d') k" "int (length a) \<le> far a b d k" "int (length b) \<le> far a b d k - k" using assms(1) Suc by (auto simp: at_end_def)
      from k(1) show False
      proof (cases rule: far_Suc_cases [where a = a and b = b])
        case above
        then have "int (length a) < far a b d' (k + 1)" using no [of "k + 1"] k out e by linarith
        then show False using above no [of "k - 1"] far_beside [of d' "k + 1" a b] on_diag_2(2) [of d' "k + 1"] k e by auto
      next
        case left
        then have "int (length b) < far a b d' (k - 1) - (k - 1)" using no [of "k - 1"] k out e by linarith
        then show False using left no [of "k + 1"] far_below [of d' "k - 1" b a] on_diag_2(1) [of d' "k - 1"] k e by (auto simp: add.commute)
      qed
    qed
  qed
  then show "far a b d k = int (length a)" "k = int (length a) - int (length b)" using assms(1) unfolding at_end_def by linarith+
qed

section \<open>The search\<close>

text \<open>What the array holds before round \<open>d\<close>: the furthest points of the round before.\<close>

definition agrees :: "string list \<Rightarrow> string list \<Rightarrow> nat \<Rightarrow> (int \<Rightarrow> int) \<Rightarrow> bool" where
  "agrees a b d v \<longleftrightarrow> (case d of 0 \<Rightarrow> v = (\<lambda>_. 0) | Suc d' \<Rightarrow> \<forall>k. on_diag d' k \<longrightarrow> v k = far a b d' k)"

lemma from_above_agrees:
  assumes "agrees a b (Suc d) v" "on_diag (Suc d) k"
  shows "from_above v (int (Suc d)) k \<longleftrightarrow> from_above (far a b d) (int (Suc d)) k"
    "start_x v (int (Suc d)) k = start_x (far a b d) (int (Suc d)) k"
proof -
  have v: "k \<noteq> - int (Suc d) \<Longrightarrow> v (k - 1) = far a b d (k - 1)" "k \<noteq> int (Suc d) \<Longrightarrow> v (k + 1) = far a b d (k + 1)"
    using assms on_diag_Suc(1,2) [OF assms(2)] by (simp_all add: agrees_def)
  show f: "from_above v (int (Suc d)) k \<longleftrightarrow> from_above (far a b d) (int (Suc d)) k" unfolding from_above_def using v by auto
  have "- int (Suc d) \<noteq> int (Suc d)" by linarith
  then have "from_above (far a b d) (int (Suc d)) k \<Longrightarrow> k \<noteq> int (Suc d)" "\<not> from_above (far a b d) (int (Suc d)) k \<Longrightarrow> k \<noteq> - int (Suc d)"
    unfolding from_above_def by auto
  then show "start_x v (int (Suc d)) k = start_x (far a b d) (int (Suc d)) k" unfolding start_x_def f using v by auto
qed

lemma round_agrees: "agrees a b d v \<Longrightarrow> on_diag d k \<Longrightarrow> round_x a b v (int d) k = far a b d k"
proof (cases d)
  case (Suc d')
  then show "agrees a b d v \<Longrightarrow> on_diag d k \<Longrightarrow> round_x a b v (int d) k = far a b d k"
    using from_above_agrees(2) [of a b d' v k] by (simp add: far_Suc round_x_def)
qed (simp add: agrees_def)

lemma round_x_cong:
  assumes "v (k - 1) = w (k - 1)" "v (k + 1) = w (k + 1)"
  shows "round_x a b v d k = round_x a b w d k"
  using assms by (simp add: round_x_def start_x_def from_above_def)

text \<open>A round reads only diagonals that it does not write.\<close>

lemma search_round_spec:
  assumes "agrees a b d v" "search_round a b (int d) ks w = (w', f)" "\<And>k. k \<in> set ks \<Longrightarrow> on_diag d k" "\<And>k. \<not> on_diag d k \<Longrightarrow> w k = v k"
  shows "if f then \<exists>k \<in> set ks. at_end a b d k
    else (\<forall>k. w' k = (if k \<in> set ks then far a b d k else w k)) \<and> (\<forall>k \<in> set ks. \<not> at_end a b d k)"
  using assms(2-)
proof (induction ks arbitrary: w)
  case (Cons k ks)
  have k: "on_diag d k" using Cons.prems by simp
  have odd: "\<not> on_diag d (k - 1)" "\<not> on_diag d (k + 1)" using k unfolding on_diag_def by presburger+
  have "round_x a b w (int d) k = far a b d k"
    using round_agrees [OF assms(1) k] round_x_cong [of w k v a b "int d"] Cons.prems(3) odd by simp
  then have e: "search_round a b (int d) (k # ks) w =
      (if at_end a b d k then (w(k := far a b d k), True) else search_round a b (int d) ks (w(k := far a b d k)))"
    using k by (simp add: round_x_def Let_def at_end_def)
  show ?case
  proof (cases "at_end a b d k")
    case False
    define u where "u = w(k := far a b d k)"
    have u: "\<not> on_diag d k' \<Longrightarrow> u k' = v k'" for k' using Cons.prems(3) k by (auto simp: u_def)
    have "search_round a b (int d) ks u = (w', f)" using Cons.prems(1) e False unfolding u_def by metis
    then have "if f then \<exists>k \<in> set ks. at_end a b d k
      else (\<forall>k. w' k = (if k \<in> set ks then far a b d k else u k)) \<and> (\<forall>k \<in> set ks. \<not> at_end a b d k)"
      using u Cons.prems(2) by (intro Cons.IH) auto
    then show ?thesis using False by (simp add: u_def split: if_splits)
  qed (use Cons.prems(1) e in auto)
qed auto

fun snaps :: "string list \<Rightarrow> string list \<Rightarrow> (int \<Rightarrow> int) list \<Rightarrow> bool" where
  "snaps a b [] = True"
| "snaps a b (v # tr) \<longleftrightarrow> agrees a b (length tr) v \<and> snaps a b tr"

definition no_end :: "string list \<Rightarrow> string list \<Rightarrow> nat \<Rightarrow> bool" where
  "no_end a b d \<longleftrightarrow> (\<forall>d' < d. \<forall>k. \<not> at_end a b d' k)"

lemma search_spec:
  assumes "snaps a b (v # tr)" "length tr = d" "no_end a b d"
  shows "case search a b left d v tr of
      Some tr' \<Rightarrow> \<exists>D k. length tr' = Suc D \<and> D < d + left \<and> snaps a b tr' \<and> at_end a b D k \<and> no_end a b D
    | None \<Rightarrow> no_end a b (d + left)"
  using assms
proof (induction left arbitrary: d v tr)
  case (Suc left)
  obtain v' f where r: "search_round a b (int d) (diagonals d) v = (v', f)" by fastforce
  have spec: "if f then \<exists>k. at_end a b d k else (\<forall>k. v' k = (if on_diag d k then far a b d k else v k)) \<and> (\<forall>k. \<not> at_end a b d k)"
    using search_round_spec [OF _ r, of v] Suc.prems by (auto simp: set_diagonals at_end_def split: if_splits)
  show ?case
  proof (cases f)
    case True
    then show ?thesis using Suc.prems r spec by auto
  next
    case False
    then have "snaps a b (v' # v # tr)" "length (v # tr) = Suc d" "no_end a b (Suc d)"
      using Suc.prems spec by (auto simp: agrees_def no_end_def less_Suc_eq)
    then have "case search a b left (Suc d) v' (v # tr) of
        Some tr' \<Rightarrow> \<exists>D k. length tr' = Suc D \<and> D < Suc d + left \<and> snaps a b tr' \<and> at_end a b D k \<and> no_end a b D
      | None \<Rightarrow> no_end a b (Suc d + left)" by (rule Suc.IH)
    then show ?thesis using r False by (simp split: option.splits)
  qed
qed simp

section \<open>The edits\<close>

text \<open>
  A diff shows both texts: without its \<open>+\<close> lines it is the first text with the numbers of its lines, without
  its \<open>-\<close> lines the second.
\<close>

definition numbered :: "string list \<Rightarrow> (int \<times> string) list" where
  "numbered a = map (\<lambda>i. (int i + 1, a ! i)) [0..<length a]"

definition old_side :: "diffLine list \<Rightarrow> (int \<times> string) list" where
  "old_side ls = map (\<lambda>l. (dfA l, dfText l)) (filter (\<lambda>l. dfOp l \<noteq> CHR ''+'') ls)"

definition new_side :: "diffLine list \<Rightarrow> (int \<times> string) list" where
  "new_side ls = map (\<lambda>l. (dfB l, dfText l)) (filter (\<lambda>l. dfOp l \<noteq> CHR ''-'') ls)"

definition well_marked :: "diffLine \<Rightarrow> bool" where
  "well_marked l \<longleftrightarrow> dfOp l = CHR '' '' \<or> dfOp l = CHR ''-'' \<and> dfB l = 0 \<or> dfOp l = CHR ''+'' \<and> dfA l = 0"

definition is_diff :: "string list \<Rightarrow> string list \<Rightarrow> diffLine list \<Rightarrow> bool" where
  "is_diff a b ls \<longleftrightarrow> old_side ls = numbered a \<and> new_side ls = numbered b \<and> list_all well_marked ls"

definition edits :: "diffLine list \<Rightarrow> nat" where
  "edits ls = length (filter (\<lambda>l. dfOp l \<noteq> CHR '' '') ls)"

lemma side_append [simp]:
  "old_side (ls @ ls') = old_side ls @ old_side ls'" "new_side (ls @ ls') = new_side ls @ new_side ls'" "edits (ls @ ls') = edits ls + edits ls'"
  by (simp_all add: old_side_def new_side_def edits_def)

lemma side_Nil [simp]: "old_side [] = []" "new_side [] = []" "edits [] = 0"
  by (simp_all add: old_side_def new_side_def edits_def)

lemma side_line [simp]:
  "old_side [same_line a x y] = [(x + 1, a ! nat x)]" "new_side [same_line a x y] = [(y + 1, a ! nat x)]" "edits [same_line a x y] = 0"
  "old_side [old_line a x] = [(x + 1, a ! nat x)]" "new_side [old_line a x] = []" "edits [old_line a x] = 1"
  "old_side [new_line b y] = []" "new_side [new_line b y] = [(y + 1, b ! nat y)]" "edits [new_line b y] = 1"
  "well_marked (same_line a x y)" "well_marked (old_line a x)" "well_marked (new_line b y)"
  by (simp_all add: old_side_def new_side_def edits_def well_marked_def same_line_def old_line_def new_line_def)

lemma edits_Cons [simp]: "edits (old_line a x # ls) = Suc (edits ls)" "edits (new_line b y # ls) = Suc (edits ls)"
  by (simp_all add: edits_def old_line_def new_line_def)

lemma numbered_simps [simp]: "numbered [] = []" "numbered (a @ [t]) = numbered a @ [(int (length a) + 1, t)]" "length (numbered a) = length a"
  by (simp_all add: numbered_def nth_append)

lemma numbered_take: "x < length a \<Longrightarrow> numbered (take (Suc x) a) = numbered (take x a) @ [(int x + 1, a ! x)]"
  by (simp add: take_Suc_conv_app_nth)

lemma is_diff_snoc:
  assumes "is_diff (take x a) (take y b) ls"
  shows "x < length a \<Longrightarrow> y < length b \<Longrightarrow> a ! x = b ! y \<Longrightarrow> is_diff (take (Suc x) a) (take (Suc y) b) (ls @ [same_line a (int x) (int y)])"
    "x < length a \<Longrightarrow> is_diff (take (Suc x) a) (take y b) (ls @ [old_line a (int x)])"
    "y < length b \<Longrightarrow> is_diff (take x a) (take (Suc y) b) (ls @ [new_line b (int y)])"
  using assms by (auto simp: is_diff_def numbered_take)

text \<open>Backwards along a snake.\<close>

lemma unsnake_steps:
  "unsnake a px py (px + int j + i) (py + int j + k) =
     (let (ls, q) = unsnake a px py (px + i) (py + k) in (map (\<lambda>z. same_line a (px + i + int z) (py + k + int z)) (rev [0..<j]) @ ls, q))"
  if "0 \<le> i" "0 \<le> k" "i = 0 \<or> k = 0"
proof (induction j)
  case (Suc j)
  have "unsnake a px py (px + int (Suc j) + i) (py + int (Suc j) + k) =
      (let (ls, q) = unsnake a px py (px + int j + i) (py + int j + k) in (same_line a (px + int j + i) (py + int j + k) # ls, q))"
    using that by (subst unsnake.simps) (simp add: algebra_simps)
  then show ?case using Suc by (simp add: algebra_simps split: prod.splits)
qed simp

lemma unsnake_start: "i \<le> 0 \<or> k \<le> 0 \<Longrightarrow> unsnake a px py (px + i) (py + k) = ([], px + i, py + k)"
  by (subst unsnake.simps) auto

lemma is_diff_snake:
  assumes "is_diff (take x a) (take y b) ls"
    and "\<And>z. z < j \<Longrightarrow> x + z < length a \<and> y + z < length b \<and> a ! (x + z) = b ! (y + z)"
  shows "is_diff (take (x + j) a) (take (y + j) b) (ls @ map (\<lambda>z. same_line a (int x + int z) (int y + int z)) [0..<j])"
  using assms(2)
proof (induction j)
  case (Suc j)
  then have "is_diff (take (x + j) a) (take (y + j) b) (ls @ map (\<lambda>z. same_line a (int x + int z) (int y + int z)) [0..<j])" by simp
  from is_diff_snoc(1) [OF this] show ?case using Suc.prems [of j] by simp
qed (simp add: assms(1))

lemma edits_same [simp]: "edits (map (\<lambda>z. same_line a (f z) (g z)) zs) = 0"
  by (simp add: edits_def same_line_def o_def)

text \<open>The points of the snake that ends a step.\<close>

lemma round_snake:
  assumes "x0 = start_x v d k" "0 \<le> x0" "0 \<le> x0 - k" "x = round_x a b v d k" "z < nat (x - x0)"
  shows "nat x0 + z < length a \<and> nat (x0 - k) + z < length b \<and> a ! (nat x0 + z) = b ! (nat (x0 - k) + z)"
proof -
  have "x0 \<le> x0 + int z" "x0 + int z < snake a b x0 (x0 - k)" using assms by (auto simp: round_x_def Let_def)
  note z = snake_equal [OF this assms(2,3)]
  have "nat (x0 + int z) = nat x0 + z" "nat (x0 + int z + (x0 - k - x0)) = nat (x0 - k) + z" using assms(2,3) by linarith+
  then show ?thesis using z assms(2,3) by auto
qed

lemma is_diff_round:
  assumes "is_diff (take (nat x0) a) (take (nat (x0 - k)) b) ls" "x0 = start_x v d k" "0 \<le> x0" "0 \<le> x0 - k" "x = round_x a b v d k"
  shows "is_diff (take (nat x) a) (take (nat (x - k)) b) (ls @ map (\<lambda>z. same_line a (x0 + int z) (x0 - k + int z)) [0..<nat (x - x0)])"
proof -
  have "x0 \<le> x" using assms(2,5) round_x_ge by simp
  then have "nat x0 + nat (x - x0) = nat x" "nat (x0 - k) + nat (x - x0) = nat (x - k)" using assms(3,4) by linarith+
  then show ?thesis using is_diff_snake [OF assms(1), of "nat (x - x0)"] round_snake [OF assms(2-5)] assms(3,4) by simp
qed

lemma backtrack_correct:
  assumes "snaps a b tr" "length tr = Suc d" "on_diag d k" "x = far a b d k" "y = x - k" "x \<le> int (length a)" "y \<le> int (length b)"
  shows "is_diff (take (nat x) a) (take (nat y) b) (rev (backtrack a b tr x y)) \<and> edits (rev (backtrack a b tr x y)) = d"
  using assms
proof (induction d arbitrary: tr k x y)
  case 0
  then obtain v where tr: "tr = [v]" "v = (\<lambda>_. 0)" by (cases tr) (auto simp: agrees_def)
  have xy: "k = 0" "y = x" "x = round_x a b (\<lambda>_. 0) 0 0" "0 \<le> x" using 0 far_bounds [of 0 0 a b] by auto
  have us: "unsnake a 0 (-1) x x = (map (\<lambda>z. same_line a (int z) (int z)) (rev [0..<nat x]), 0, 0)"
    using unsnake_steps [of 0 1 a 0 "-1" "nat x"] unsnake_start [of 0 1 a 0 "-1"] xy(4) by simp
  have bt: "backtrack a b tr x y = map (\<lambda>z. same_line a (int z) (int z)) (rev [0..<nat x])"
    using us xy(1,2,4) by (simp add: tr from_above_def)
  have "is_diff (take (nat x) a) (take (nat (x - 0)) b) ([] @ map (\<lambda>z. same_line a (0 + int z) (0 - 0 + int z)) [0..<nat (x - 0)])"
    by (rule is_diff_round [where v = "\<lambda>_. 0" and d = 0]) (use xy(3) in \<open>auto simp: is_diff_def\<close>)
  then show ?case unfolding bt using xy(2) by (simp add: rev_map)
next
  case (Suc d)
  obtain v tr' where tr: "tr = v # tr'" "length tr' = Suc d" "agrees a b (Suc d) v" "snaps a b tr'" using Suc.prems(1,2) by (cases tr) auto
  define x0 where "x0 = start_x (far a b d) (int (Suc d)) k"
  have x: "x = round_x a b (far a b d) (int (Suc d)) k" "x0 \<le> x" using Suc.prems(4) round_x_ge by (auto simp: far_Suc x0_def)
  note fa = from_above_agrees [OF tr(3) Suc.prems(3)]
  have pos: "0 < x \<or> 0 < y" using far_bounds [OF Suc.prems(3), of a b] Suc.prems(4,5) by auto
  let ?snake = "\<lambda>i j. map (\<lambda>z. same_line a (i + int z) (j + int z)) (rev [0..<nat (x - x0)])"
  from Suc.prems(3) show ?case
  proof (cases rule: far_Suc_cases [where a = a and b = b])
    case above
    let ?px = "far a b d (k + 1)"
    have x0: "x0 = ?px" "v (k + 1) = ?px" using tr(3) above by (simp_all add: agrees_def x0_def)
    have p: "0 \<le> ?px" "0 \<le> ?px - (k + 1)" using far_bounds [OF above(3), of a b] by auto
    have us: "unsnake a ?px (?px - (k + 1)) x y = (?snake x0 (x0 - k), x0, x0 - k)"
      using unsnake_steps [of 0 1 a ?px "?px - (k + 1)" "nat (x - x0)"] unsnake_start [of 0 1 a ?px "?px - (k + 1)"] x(2) x0(1) Suc.prems(5) by simp
    have bt: "backtrack a b tr x y = ?snake x0 (x0 - k) @ new_line b (x0 - k - 1) # backtrack a b tr' x0 (x0 - k - 1)"
      using pos us tr(2) fa(1) above(1) x0 Suc.prems(5) by (auto simp: tr(1) Let_def)
    have ih: "is_diff (take (nat x0) a) (take (nat (x0 - k - 1)) b) (rev (backtrack a b tr' x0 (x0 - k - 1))) \<and> edits (rev (backtrack a b tr' x0 (x0 - k - 1))) = d"
      by (rule Suc.IH [OF tr(4,2) above(3)]) (use x0 x(2) Suc.prems(5-7) in auto)
    have "is_diff (take (nat x0) a) (take (nat (x0 - k)) b) (rev (backtrack a b tr' x0 (x0 - k - 1)) @ [new_line b (x0 - k - 1)])"
      using is_diff_snoc(3) [OF conjunct1 [OF ih]] p x0(1) x(2) Suc.prems(5,7) by (simp add: Suc_nat_eq_nat_zadd1 algebra_simps)
    from is_diff_round [OF this x0_def _ _ x(1)] show ?thesis
      using ih p x0(1) Suc.prems(5) unfolding bt by (simp add: rev_map)
  next
    case left
    let ?px = "far a b d (k - 1)"
    have x0: "x0 = ?px + 1" "v (k - 1) = ?px" using tr(3) left by (simp_all add: agrees_def x0_def)
    have p: "0 \<le> ?px" "0 \<le> ?px - (k - 1)" using far_bounds [OF left(3), of a b] by auto
    have py: "?px - (k - 1) = x0 - k" "x0 \<noteq> ?px" "?px + 1 = x0" using x0 by simp_all
    have "x = ?px + int (nat (x - x0)) + 1" "y = x0 - k + int (nat (x - x0)) + 0" using x(2) x0(1) Suc.prems(5) by simp_all
    then have us: "unsnake a ?px (x0 - k) x y = (?snake x0 (x0 - k), x0, x0 - k)"
      using unsnake_steps [of 1 0 a ?px "x0 - k" "nat (x - x0)"] unsnake_start [of 1 0 a ?px "x0 - k"] py(3) by simp
    have us': "unsnake a ?px (?px - (k - 1)) x y = (?snake x0 (x0 - k), x0, x0 - k)" unfolding py(1) by (rule us)
    have bt: "backtrack a b tr x y = ?snake x0 (x0 - k) @ old_line a (x0 - 1) # backtrack a b tr' (x0 - 1) (x0 - k)"
      using pos us' tr(2) fa(1) left(1) x0 Suc.prems(5) by (auto simp: tr(1) Let_def)
    have ih: "is_diff (take (nat (x0 - 1)) a) (take (nat (x0 - k)) b) (rev (backtrack a b tr' (x0 - 1) (x0 - k))) \<and> edits (rev (backtrack a b tr' (x0 - 1) (x0 - k))) = d"
      by (rule Suc.IH [OF tr(4,2) left(3)]) (use x0 x(2) Suc.prems(5-7) in auto)
    have "is_diff (take (nat x0) a) (take (nat (x0 - k)) b) (rev (backtrack a b tr' (x0 - 1) (x0 - k)) @ [old_line a (x0 - 1)])"
      using is_diff_snoc(2) [OF conjunct1 [OF ih]] p x0(1) x(2) Suc.prems(6) by (simp add: Suc_nat_eq_nat_zadd1 algebra_simps)
    from is_diff_round [OF this x0_def _ _ x(1)] show ?thesis
      using ih p x0(1) Suc.prems(5) unfolding bt by (simp add: rev_map)
  qed
qed

section \<open>Shortest edits\<close>

text \<open>The edit graph: diagonal steps are free, a deletion or an insertion costs one.\<close>

inductive path :: "string list \<Rightarrow> string list \<Rightarrow> nat \<Rightarrow> nat \<Rightarrow> nat \<Rightarrow> bool" for a b where
  origin: "path a b 0 0 0"
| same: "path a b d x y \<Longrightarrow> x < length a \<Longrightarrow> y < length b \<Longrightarrow> a ! x = b ! y \<Longrightarrow> path a b d (Suc x) (Suc y)"
| delete: "path a b d x y \<Longrightarrow> path a b (Suc d) (Suc x) y"
| insert: "path a b d x y \<Longrightarrow> path a b (Suc d) x (Suc y)"

lemma far_maximal:
  assumes "on_diag d k" "far a b d k < int (length a)" "far a b d k - k < int (length b)"
  shows "a ! nat (far a b d k) \<noteq> b ! nat (far a b d k - k)"
proof -
  obtain v where "far a b d k = round_x a b v (int d) k" by (cases d) (auto simp: far_Suc assms(1) intro: that)
  then obtain x0 where "far a b d k = snake a b x0 (x0 - k)" by (simp add: round_x_def Let_def)
  then show ?thesis using snake_end [of a b x0 "x0 - k"] assms(2,3) by simp
qed

lemma path_far: "path a b d x y \<Longrightarrow> on_diag d (int x - int y) \<and> int x \<le> far a b d (int x - int y)"
proof (induction rule: path.induct)
  case origin
  then show ?case using far_bounds [of 0 0 a b] by simp
next
  case (same d x y)
  moreover have "int x \<noteq> far a b d (int x - int y)"
    using far_maximal [of d "int x - int y" a b] same by auto
  ultimately show ?case by simp
next
  case (delete d x y)
  then show ?case using far_Suc_ge(1) [of d "int x - int y" a b] on_diag_Suc(4) [of d "int x - int y"] by (simp add: algebra_simps)
next
  case (insert d x y)
  then show ?case using far_Suc_ge(2) [of d "int x - int y" a b] on_diag_Suc(3) [of d "int x - int y"] by (simp add: algebra_simps)
qed

text \<open>Every diff is a path.\<close>

lemma numbered_snocD:
  assumes "xs @ [(i, t)] = numbered a"
  obtains a' where "a = a' @ [t]" "xs = numbered a'"
proof (cases a rule: rev_cases)
  case Nil
  then show thesis using assms by simp
next
  case (snoc a' t')
  then show thesis using that assms by simp
qed

lemma diff_path: "is_diff a' b' ls \<Longrightarrow> prefix a' a \<Longrightarrow> prefix b' b \<Longrightarrow> path a b (edits ls) (length a') (length b')"
proof (induction ls arbitrary: a' b' rule: rev_induct)
  case Nil
  then have "numbered a' = [] \<and> numbered b' = []" by (simp add: is_diff_def)
  then have "a' = []" "b' = []" by (metis numbered_simps(3) length_0_conv)+
  then show ?case by (simp add: path.origin)
next
  case (snoc l ls)
  have wm: "well_marked l" "list_all well_marked ls" using snoc.prems(1) by (simp_all add: is_diff_def)
  from wm(1) consider (same) "dfOp l = CHR '' ''" | (del) "dfOp l = CHR ''-''" | (ins) "dfOp l = CHR ''+''" unfolding well_marked_def by blast
  then show ?case
  proof cases
    case same
    then have "old_side ls @ [(dfA l, dfText l)] = numbered a'" "new_side ls @ [(dfB l, dfText l)] = numbered b'"
      using snoc.prems(1) by (simp_all add: is_diff_def) (simp_all add: old_side_def new_side_def)
    then obtain a2 b2 where ab: "a' = a2 @ [dfText l]" "old_side ls = numbered a2" "b' = b2 @ [dfText l]" "new_side ls = numbered b2"
      by (meson numbered_snocD)
    have "path a b (edits ls) (length a2) (length b2)" using snoc.IH [of a2 b2] snoc.prems(2,3) ab wm(2) by (auto simp: is_diff_def dest: append_prefixD)
    moreover have "edits [l] = 0" using same by (simp add: edits_def)
    ultimately show ?thesis using path.same snoc.prems(2,3) ab(1,3) by (auto simp: prefix_def nth_append)
  next
    case del
    then have "old_side ls @ [(dfA l, dfText l)] = numbered a'" "new_side ls = numbered b'"
      using snoc.prems(1) by (simp_all add: is_diff_def) (simp_all add: old_side_def new_side_def)
    then obtain a2 where ab: "a' = a2 @ [dfText l]" "old_side ls = numbered a2" by (meson numbered_snocD)
    have "path a b (edits ls) (length a2) (length b')"
      using snoc.IH [of a2 b'] snoc.prems(2,3) ab wm(2) \<open>new_side ls = _\<close> by (auto simp: is_diff_def dest: append_prefixD)
    moreover have "edits [l] = 1" using del by (simp add: edits_def)
    ultimately show ?thesis using path.delete ab(1) by simp
  next
    case ins
    then have "old_side ls = numbered a'" "new_side ls @ [(dfB l, dfText l)] = numbered b'"
      using snoc.prems(1) by (simp_all add: is_diff_def) (simp_all add: old_side_def new_side_def)
    then obtain b2 where ab: "b' = b2 @ [dfText l]" "new_side ls = numbered b2" by (meson numbered_snocD)
    have "path a b (edits ls) (length a') (length b2)"
      using snoc.IH [of a' b2] snoc.prems(2,3) ab wm(2) \<open>old_side ls = _\<close> by (auto simp: is_diff_def dest: append_prefixD)
    moreover have "edits [l] = 1" using ins by (simp add: edits_def)
    ultimately show ?thesis using path.insert ab(1) by simp
  qed
qed

lemma diff_at_end: "is_diff a b ls \<Longrightarrow> at_end a b (edits ls) (int (length a) - int (length b))"
  using path_far [OF diff_path [of a b ls a b]] by (simp add: at_end_def)

text \<open>The middle part: a diff, and a shortest one when the bound on the edits allows it.\<close>

lemma replace_diff: "is_diff a b (replace_all a b)"
  by (auto simp: is_diff_def replace_all_def old_side_def new_side_def old_line_def new_line_def numbered_def list_all_iff well_marked_def
      filter_map o_def)

lemma replace_edits: "edits (replace_all a b) = length a + length b"
  by (simp add: edits_def replace_all_def old_line_def new_line_def filter_map o_def)

lemma path_end: "path a b d (length a) (length b) \<Longrightarrow> at_end a b d (int (length a) - int (length b))"
  using path_far [of a b d "length a" "length b"] by (simp add: at_end_def)

lemma path_difference: "path a b d x y \<Longrightarrow> x \<le> y + d \<and> y \<le> x + d"
  by (induction rule: path.induct) auto

lemma myers_correct:
  shows "is_diff a b (myers a b maxD)"
    and "path a b d (length a) (length b) \<Longrightarrow> int d \<le> maxD \<Longrightarrow> edits (myers a b maxD) \<le> d"
proof -
  let ?left = "nat (min (int (length a + length b)) maxD + 1)"
  have "is_diff a b (myers a b maxD) \<and> (path a b d (length a) (length b) \<longrightarrow> int d \<le> maxD \<longrightarrow> edits (myers a b maxD) \<le> d)"
  proof (cases "a = [] \<or> b = []")
    case True
    then have "myers a b maxD = replace_all a b" by (auto simp: myers_def)
    then show ?thesis using True path_difference [of a b d "length a" "length b"] replace_diff [of a b] replace_edits [of a b] by auto
  next
    case False
    have spec: "case search a b ?left 0 (\<lambda>_. 0) [] of
        Some tr' \<Rightarrow> \<exists>D k. length tr' = Suc D \<and> D < 0 + ?left \<and> snaps a b tr' \<and> at_end a b D k \<and> no_end a b D
      | None \<Rightarrow> no_end a b (0 + ?left)"
      by (rule search_spec) (simp_all add: agrees_def no_end_def)
    show ?thesis
    proof (cases "search a b ?left 0 (\<lambda>_. 0) []")
      case None
      then have m: "myers a b maxD = replace_all a b" "no_end a b ?left" using False spec by (simp_all add: myers_def)
      have "length a + length b \<le> d" if "path a b d (length a) (length b)" "int d \<le> maxD"
      proof (rule ccontr)
        assume "\<not> length a + length b \<le> d"
        then have "d < ?left" using that(2) by linarith
        then show False using m(2) path_end [OF that(1)] unfolding no_end_def by blast
      qed
      then show ?thesis unfolding m(1) replace_edits using replace_diff by blast
    next
      case (Some tr)
      then obtain D k where D: "length tr = Suc D" "snaps a b tr" "at_end a b D k" "no_end a b D" using spec by auto
      have n: "\<And>d' k'. d' < D \<Longrightarrow> \<not> at_end a b d' k'" using D(4) unfolding no_end_def by blast
      note e = first_end [OF D(3) n]
      have m: "myers a b maxD = rev (backtrack a b tr (int (length a)) (int (length b)))" unfolding myers_def using Some False by simp
      have "is_diff (take (nat (int (length a))) a) (take (nat (int (length b))) b) (myers a b maxD) \<and> edits (myers a b maxD) = D"
        unfolding m by (rule backtrack_correct [OF D(2,1), of k]) (use D(3) e in \<open>auto simp: at_end_def\<close>)
      then have "is_diff a b (myers a b maxD) \<and> edits (myers a b maxD) = D" by simp
      moreover have "path a b d (length a) (length b) \<Longrightarrow> D \<le> d" using path_end [of a b d] n [of d] by (meson not_le)
      ultimately show ?thesis by blast
    qed
  qed
  then show "is_diff a b (myers a b maxD)" "path a b d (length a) (length b) \<Longrightarrow> int d \<le> maxD \<Longrightarrow> edits (myers a b maxD) \<le> d" by blast+
qed

text \<open>Common ends do not matter for the distance.\<close>

lemma path_inserts: "path a b y 0 y" "path a b x x 0"
  by (induction y) (auto intro: path.intros, induction x, auto intro: path.intros)

lemma path_head:
  "path (c # a) (c # b) d x y \<Longrightarrow>
    (x = 0 \<longrightarrow> d = y) \<and> (y = 0 \<longrightarrow> d = x) \<and> (0 < x \<longrightarrow> 0 < y \<longrightarrow> (\<exists>d' \<le> d. path a b d' (x - 1) (y - 1)))"
proof (induction rule: path.induct)
  case (same d x y)
  consider "x = 0" | "y = 0" | x' y' where "x = Suc x'" "y = Suc y'" by (metis not0_implies_Suc)
  then show ?case
  proof cases
    case 3
    then obtain d' where "d' \<le> d" "path a b d' x' y'" using same.IH by auto
    then show ?thesis using same.hyps 3 by (auto intro!: exI [of _ d'] path.same)
  qed (use same.IH path_inserts in auto)
next
  case (delete d x y)
  consider "y = 0" | y' where "x = 0" "y = Suc y'" | x' y' where "x = Suc x'" "y = Suc y'" by (metis not0_implies_Suc)
  then show ?case
  proof cases
    case 2
    then show ?thesis using delete.IH path_inserts(1) [of a b y'] by (auto intro!: exI [of _ y'])
  next
    case 3
    then show ?thesis using delete.IH by (auto intro: path.delete)
  qed (use delete.IH in auto)
next
  case (insert d x y)
  consider "x = 0" | x' where "y = 0" "x = Suc x'" | x' y' where "x = Suc x'" "y = Suc y'" by (metis not0_implies_Suc)
  then show ?case
  proof cases
    case 2
    then show ?thesis using insert.IH path_inserts(2) [of a b x'] by (auto intro!: exI [of _ x'])
  next
    case 3
    then show ?thesis using insert.IH by (auto intro: path.insert)
  qed (use insert.IH in auto)
qed simp

lemma path_drop:
  "path a b d x y \<Longrightarrow> (0 < y \<longrightarrow> (\<exists>d' \<le> Suc d. path a b d' x (y - 1))) \<and> (0 < x \<longrightarrow> (\<exists>d' \<le> Suc d. path a b d' (x - 1) y))"
proof (induction rule: path.induct)
  case (same d x y)
  then show ?case using path.delete [OF same.hyps(1)] path.insert [OF same.hyps(1)] by auto
next
  case (delete d x y)
  have "\<exists>d' \<le> Suc (Suc d). path a b d' (Suc x) (y - 1)" if "0 < y"
    using delete.IH that path.delete [of a b _ x "y - 1"] by (meson Suc_le_mono)
  then show ?case using delete.hyps by (auto intro: exI [of _ d])
next
  case (insert d x y)
  have "\<exists>d' \<le> Suc (Suc d). path a b d' (x - 1) (Suc y)" if "0 < x"
    using insert.IH that path.insert [of a b _ "x - 1" y] by (meson Suc_le_mono)
  then show ?case using insert.hyps by (auto intro: exI [of _ d])
qed simp

lemma path_restrict: "path (a @ s) (b @ t) d x y \<Longrightarrow> x \<le> length a \<Longrightarrow> y \<le> length b \<Longrightarrow> path a b d x y"
  by (induction rule: path.induct) (auto intro: path.intros simp: nth_append)

lemma path_last:
  assumes "path (a @ [c]) (b @ [c]) d (Suc (length a)) (Suc (length b))"
  shows "\<exists>d' \<le> d. path a b d' (length a) (length b)"
  using assms
proof (cases rule: path.cases)
  case same
  then show ?thesis using path_restrict [of a "[c]" b "[c]" d] by auto
next
  case (delete d')
  then obtain e where "e \<le> d" "path (a @ [c]) (b @ [c]) e (length a) (length b)" using path_drop [of "a @ [c]" "b @ [c]" d'] by fastforce
  then show ?thesis using path_restrict [of a "[c]" b "[c]" e] by auto
next
  case (insert d')
  then obtain e where "e \<le> d" "path (a @ [c]) (b @ [c]) e (length a) (length b)" using path_drop [of "a @ [c]" "b @ [c]" d'] by fastforce
  then show ?thesis using path_restrict [of a "[c]" b "[c]" e] by auto
qed

lemma path_trim:
  assumes "path (p @ a @ s) (p @ b @ s) d (length p + length a + length s) (length p + length b + length s)"
  shows "\<exists>d' \<le> d. path a b d' (length a) (length b)"
  using assms
proof (induction p arbitrary: d)
  case Nil
  then show ?case
  proof (induction s arbitrary: d rule: rev_induct)
    case (snoc c s)
    then obtain e where "e \<le> d" "path (a @ s) (b @ s) e (length a + length s) (length b + length s)"
      using path_last [of "a @ s" c "b @ s" d] by auto
    then show ?case using snoc.IH [of e] by (auto intro: le_trans)
  qed auto
next
  case (Cons c p)
  then show ?case using path_head [of c "p @ a @ s" "p @ b @ s" d "length (c # p) + length a + length s" "length (c # p) + length b + length s"]
    by (auto dest!: Cons.IH intro: le_trans)
qed

section \<open>The whole diff\<close>

definition shifted :: "nat \<Rightarrow> (int \<times> string) list \<Rightarrow> (int \<times> string) list" where
  "shifted p = map (\<lambda>(i, t). (i + int p, t))"

lemma numbered_append: "numbered (a @ b) = numbered a @ shifted (length a) (numbered b)"
  by (induction b rule: rev_induct) (simp_all add: shifted_def flip: append_assoc)

lemma shift_sides:
  assumes "is_diff a b ls"
  shows "old_side (map (shift_line (int p)) ls) = shifted p (numbered a)" "new_side (map (shift_line (int p)) ls) = shifted p (numbered b)"
    "list_all well_marked (map (shift_line (int p)) ls)" "edits (map (shift_line (int p)) ls) = edits ls"
proof -
  have pos: "i > 0" if "(i, t) \<in> set (numbered c)" for i t c using that by (auto simp: numbered_def)
  have "dfA l > 0" if "l \<in> set ls" "dfOp l \<noteq> CHR ''+''" for l
  proof (rule pos)
    have "(dfA l, dfText l) \<in> set (old_side ls)" using that by (auto simp: old_side_def)
    then show "(dfA l, dfText l) \<in> set (numbered a)" using assms by (simp add: is_diff_def)
  qed
  moreover have "dfB l > 0" if "l \<in> set ls" "dfOp l \<noteq> CHR ''-''" for l
  proof (rule pos)
    have "(dfB l, dfText l) \<in> set (new_side ls)" using that by (auto simp: new_side_def)
    then show "(dfB l, dfText l) \<in> set (numbered b)" using assms by (simp add: is_diff_def)
  qed
  ultimately have "old_side (map (shift_line (int p)) ls) = shifted p (old_side ls)" "new_side (map (shift_line (int p)) ls) = shifted p (new_side ls)"
    by (auto simp: old_side_def new_side_def shifted_def shift_line_def filter_map o_def)
  then show "old_side (map (shift_line (int p)) ls) = shifted p (numbered a)" "new_side (map (shift_line (int p)) ls) = shifted p (numbered b)"
    using assms by (simp_all add: is_diff_def)
  show "list_all well_marked (map (shift_line (int p)) ls)" "edits (map (shift_line (int p)) ls) = edits ls"
    using assms by (auto simp: is_diff_def list_all_iff well_marked_def shift_line_def edits_def filter_map o_def)
qed

lemma same_sides:
  assumes "\<And>i. i < n \<Longrightarrow> c ! (x + i) = s ! i" "length s = n"
  shows "old_side (map (\<lambda>i. same_line c (int (x + i)) (int (y + i))) [0..<n]) = shifted x (numbered s)"
    "new_side (map (\<lambda>i. same_line c (int (x + i)) (int (y + i))) [0..<n]) = shifted y (numbered s)"
  using assms by (auto simp: old_side_def new_side_def same_line_def shifted_def numbered_def filter_map o_def simp del: of_nat_add)

lemma common_prefix_split:
  "\<exists>p a' b'. a = p @ a' \<and> b = p @ b' \<and> length p = common_prefix a b"
proof (induction a b rule: common_prefix.induct)
  case (1 x a y b)
  show ?case
  proof (cases "x = y")
    case True
    then obtain p a' b' where "a = p @ a'" "b = p @ b'" "length p = common_prefix a b" using 1 by blast
    then show ?thesis using True by (intro exI [of _ "x # p"] exI [of _ a'] exI [of _ b']) simp
  qed auto
qed auto

lemma lineDiff_parts:
  obtains p a' b' s where "a = p @ a' @ s" "b = p @ b' @ s"
    "lineDiff a b maxD = map (\<lambda>i. same_line a (int (0 + i)) (int (0 + i))) [0..<length p] @ map (shift_line (int (length p))) (myers a' b' maxD)
       @ map (\<lambda>i. same_line a (int (length p + length a' + i)) (int (length p + length b' + i))) [0..<length s]"
proof -
  obtain p a1 b1 where p: "a = p @ a1" "b = p @ b1" "length p = common_prefix a b" using common_prefix_split by blast
  obtain s a2 b2 where s: "rev a1 = s @ a2" "rev b1 = s @ b2" "length s = common_prefix (rev a1) (rev b1)" using common_prefix_split by blast
  have r: "a1 = rev a2 @ rev s" "b1 = rev b2 @ rev s" using s(1,2) by (metis rev_append rev_rev_ident)+
  show thesis
    by (rule that [of p "rev a2" "rev s" "rev b2"]) (use p r s(3) in \<open>simp_all add: lineDiff_def Let_def flip: p(3) s(3)\<close>)
qed

text \<open>
  Property C9. The diff that administrators see of two submissions is a diff of them: without its inserted
  lines it is the first file with its line numbers, without its deleted lines the second; and it
  is a shortest one whenever some diff has at most \<open>maxD\<close> inserted and deleted lines.
\<close>

theorem lineDiff_correct:
  "is_diff a b (lineDiff a b maxD)
   \<and> (\<forall>ls. is_diff a b ls \<longrightarrow> int (edits ls) \<le> maxD \<longrightarrow> edits (lineDiff a b maxD) \<le> edits ls)"
proof -
  obtain p a' b' s where ab: "a = p @ a' @ s" "b = p @ b' @ s" and l:
    "lineDiff a b maxD = map (\<lambda>i. same_line a (int (0 + i)) (int (0 + i))) [0..<length p] @ map (shift_line (int (length p))) (myers a' b' maxD)
       @ map (\<lambda>i. same_line a (int (length p + length a' + i)) (int (length p + length b' + i))) [0..<length s]"
    by (rule lineDiff_parts)
  note m = shift_sides [OF myers_correct(1) [of a' b' maxD], of "length p"]
  have P: "old_side (map (\<lambda>i. same_line a (int (0 + i)) (int (0 + i))) [0..<length p]) = shifted 0 (numbered p)"
    "new_side (map (\<lambda>i. same_line a (int (0 + i)) (int (0 + i))) [0..<length p]) = shifted 0 (numbered p)"
    by (rule same_sides; simp add: ab(1) nth_append)+
  have S: "old_side (map (\<lambda>i. same_line a (int (length p + length a' + i)) (int (length p + length b' + i))) [0..<length s]) = shifted (length p + length a') (numbered s)"
    "new_side (map (\<lambda>i. same_line a (int (length p + length a' + i)) (int (length p + length b' + i))) [0..<length s]) = shifted (length p + length b') (numbered s)"
    by (rule same_sides; simp add: ab(1) nth_append)+
  have sh: "shifted 0 xs = xs" "shifted i (shifted j xs) = shifted (i + j) xs" "shifted i (xs @ ys) = shifted i xs @ shifted i ys" for i j xs ys
    by (auto simp: shifted_def)
  have d: "is_diff a b (lineDiff a b maxD)"
    unfolding is_diff_def l side_append P S m list_all_append using m(3) by (simp add: ab numbered_append sh list_all_iff)
  have e: "edits (lineDiff a b maxD) = edits (myers a' b' maxD)" unfolding l side_append m(4) by simp
  have "edits (lineDiff a b maxD) \<le> edits ls" if ls: "is_diff a b ls" "int (edits ls) \<le> maxD" for ls
  proof -
    have "path a b (edits ls) (length a) (length b)" using diff_path [OF ls(1)] by simp
    then obtain d' where "d' \<le> edits ls" "path a' b' d' (length a') (length b')" using path_trim [of p a' s b' "edits ls"] ab by (auto simp: add.assoc)
    then show ?thesis using myers_correct(2) [of a' b' d' maxD] ls(2) e by linarith
  qed
  then show ?thesis using d by blast
qed

theorem lineDiff_correct_witness:
  "is_diff [''a'', ''b'', ''c''] [''b'', ''d'', ''c''] (lineDiff [''a'', ''b'', ''c''] [''b'', ''d'', ''c''] 5)
   \<and> edits (lineDiff [''a'', ''b'', ''c''] [''b'', ''d'', ''c''] 5) \<le> 2"
proof -
  let ?ls = "[old_line [''a'', ''b'', ''c''] 0, same_line [''a'', ''b'', ''c''] 1 0, new_line [''b'', ''d'', ''c''] 1, same_line [''a'', ''b'', ''c''] 2 2]"
  have "is_diff [''a'', ''b'', ''c''] [''b'', ''d'', ''c''] ?ls" "edits ?ls = 2" by code_simp+
  then show ?thesis using lineDiff_correct [of "[''a'', ''b'', ''c'']" "[''b'', ''d'', ''c'']" 5] by fastforce
qed

lemma lineDiff_example:
  "map dfOp (lineDiff [''a'', ''b'', ''c''] [''b'', ''d'', ''c''] 5) = ''- + ''"
  "map dfOp (lineDiff [''a'', ''b'', ''c''] [''b'', ''d'', ''c''] 1) = ''--++ ''"
  by code_simp+

lemma splitLines_example: "splitLines (''x'' @ [CHR 0x0D, CHR 0x0A] @ ''y'' @ [CHR 0x0A]) = [''x'', ''y'']" "splitLines [] = []"
  by code_simp+

end
