(* ===== verification/Web_Session.thy ===== *)
theory Web_Session
  imports Contest_Timing Go_Strings Go_Strconv
begin

text \<open>
  Who may act on the contest web server: signed cookies and anti-forgery tokens
  (\<^verbatim>\<open>src/internal/webkit/session.go\<close>), logging in (\<^verbatim>\<open>src/internal/contestweb/auth.go\<close>) and the gate in
  front of every contestant page (\<^verbatim>\<open>withAuth\<close> of \<^verbatim>\<open>src/internal/contestweb/server.go\<close>). The message
  authentication code, the JSON encoding of a session, password hashes and random identifiers
  are parameters; base64 is modelled. The caches of the server are taken to be
  fresh: they drop a row with every change the code announces.
\<close>

section \<open>Base64\<close>

text \<open>\<^verbatim>\<open>base64.RawURLEncoding\<close>, on the bits of a string, most significant first.\<close>

definition url_alphabet :: string where
  "url_alphabet = ''ABCDEFGHIJKLMNOPQRSTUVWXYZabcdefghijklmnopqrstuvwxyz0123456789-_''"

fun char_bits :: "char \<Rightarrow> bool list" where
  "char_bits (Char b0 b1 b2 b3 b4 b5 b6 b7) = [b7, b6, b5, b4, b3, b2, b1, b0]"

fun bits_char :: "bool list \<Rightarrow> char" where
  "bits_char [b7, b6, b5, b4, b3, b2, b1, b0] = Char b0 b1 b2 b3 b4 b5 b6 b7"
| "bits_char _ = CHR 0x00"

definition bits_value :: "bool list \<Rightarrow> nat" where
  "bits_value = foldl (\<lambda>n b. 2 * n + of_bool b) 0"

definition value_bits :: "nat \<Rightarrow> bool list" where
  "value_bits n = map (\<lambda>i. odd (n div 2 ^ i)) [5, 4, 3, 2, 1, 0]"

function sextets :: "bool list \<Rightarrow> nat list" where
  "sextets bs = (if bs = [] then [] else bits_value (take 6 (bs @ replicate 5 False)) # sextets (drop 6 bs))"
  by pat_completeness auto
termination by (relation "measure length") auto

declare sextets.simps [simp del]

function octets :: "bool list \<Rightarrow> string" where
  "octets bs = (if length bs < 8 then [] else bits_char (take 8 bs) # octets (drop 8 bs))"
  by pat_completeness auto
termination by (relation "measure length") auto

declare octets.simps [simp del]

definition b64_encode :: "string \<Rightarrow> string" where
  "b64_encode s = map ((!) url_alphabet) (sextets (concat (map char_bits s)))"

text \<open>\<^verbatim>\<open>DecodeString\<close> skips line breaks, refuses other characters and a single last one, and drops spare bits.\<close>

definition symbol_value :: "char \<Rightarrow> nat option" where
  "symbol_value c = find (\<lambda>n. url_alphabet ! n = c) [0..<64]"

definition b64_decode :: "string \<Rightarrow> string option" where
  "b64_decode s0 =
     (let s = filter (\<lambda>c. c \<noteq> CHR 0x0A \<and> c \<noteq> CHR 0x0D) s0; vs = map symbol_value s
      in if None \<in> set vs \<or> length s mod 4 = 1 then None else Some (octets (concat (map (value_bits \<circ> the) vs))))"

lemma value_bits_value: "length bs = 6 \<Longrightarrow> value_bits (bits_value bs) = bs \<and> bits_value bs < 64"
proof -
  assume "length bs = 6"
  then obtain a b c d e f where "bs = [a, b, c, d, e, f]" by (auto simp: numeral_eq_Suc length_Suc_conv)
  then show ?thesis by (cases a; cases b; cases c; cases d; cases e; cases f) (simp_all add: value_bits_def bits_value_def)
qed

lemma sextets_bits:
  "\<exists>k. concat (map value_bits (sextets bs)) = bs @ replicate k False \<and> k < 6" "list_all (\<lambda>n. n < 64) (sextets bs)"
  "length (sextets bs) = (length bs + 5) div 6"
proof (induction bs rule: sextets.induct)
  case (1 bs)
  { case 1 show ?case
    proof (cases "length bs \<le> 6")
      case True
      then have "length (take 6 (bs @ replicate 5 False)) = 6" if "bs \<noteq> []" using that by (cases bs) auto
      then have "bs \<noteq> [] \<Longrightarrow> concat (map value_bits (sextets bs)) = bs @ replicate (6 - length bs) False"
        using True value_bits_value [of "take 6 (bs @ replicate 5 False)"] by (subst sextets.simps) (auto simp: sextets.simps [of "[]"] Suc_leI min_def)
      then show ?thesis using True by (cases "bs = []") (auto simp: sextets.simps [of "[]"] intro!: exI [of _ "6 - length bs"])
    next
      case False
      then have t: "length (take 6 bs) = 6" by simp
      obtain k where "concat (map value_bits (sextets (drop 6 bs))) = drop 6 bs @ replicate k False" "k < 6" using "1.IH"(1) False by fastforce
      then show ?thesis using False value_bits_value [OF t] by (subst sextets.simps) (auto intro!: exI [of _ k] simp flip: append_assoc)
    qed }
  { case 2 show ?case using "1.IH"(2) value_bits_value [of "take 6 (bs @ replicate 5 False)"] by (subst sextets.simps) (cases bs; auto) }
  { case 3 show ?case using "1.IH"(3) by (subst sextets.simps) (cases bs; auto) }
qed

lemma octets_bits: "length rest < 8 \<Longrightarrow> octets (concat (map char_bits s) @ rest) = s"
proof (induction s)
  case (Cons c s)
  then show ?case by (cases c) (subst octets.simps, simp)
qed (simp add: octets.simps)

lemma symbol_value_alphabet: "n < 64 \<Longrightarrow> symbol_value (url_alphabet ! n) = Some n \<and> url_alphabet ! n \<noteq> CHR 0x0A \<and> url_alphabet ! n \<noteq> CHR 0x0D \<and> url_alphabet ! n \<noteq> CHR ''.''"
proof -
  have "list_all (\<lambda>n. symbol_value (url_alphabet ! n) = Some n \<and> url_alphabet ! n \<noteq> CHR 0x0A \<and> url_alphabet ! n \<noteq> CHR 0x0D \<and> url_alphabet ! n \<noteq> CHR ''.'') [0..<64]"
    by code_simp
  then show "n < 64 \<Longrightarrow> ?thesis" by (simp add: list_all_iff)
qed

lemma char_bits_length [simp]: "length (char_bits c) = 8" by (cases c) simp

lemma b64_roundtrip: "b64_decode (b64_encode s) = Some s"
proof -
  let ?bs = "concat (map char_bits s)"
  have n: "n \<in> set (sextets ?bs) \<Longrightarrow> n < 64" for n using sextets_bits(2) [of ?bs] by (simp add: list_all_iff)
  have l: "length ?bs = 8 * length s" by (induction s) auto
  have "filter (\<lambda>c. c \<noteq> CHR 0x0A \<and> c \<noteq> CHR 0x0D) (b64_encode s) = b64_encode s"
    unfolding b64_encode_def by (rule filter_True) (use n symbol_value_alphabet in auto)
  moreover have v: "map symbol_value (b64_encode s) = map Some (sextets ?bs)"
    unfolding b64_encode_def using n symbol_value_alphabet by auto
  moreover have "length (b64_encode s) mod 4 \<noteq> 1" unfolding b64_encode_def length_map sextets_bits(3) l by presburger
  moreover obtain k where "concat (map value_bits (sextets ?bs)) = ?bs @ replicate k False" "k < 6" using sextets_bits(1) by blast
  ultimately show ?thesis unfolding b64_decode_def Let_def by (auto simp: o_def octets_bits simp del: set_map) (simp add: set_map)
qed

lemma b64_no_dot: "CHR ''.'' \<notin> set (b64_encode s)"
  using sextets_bits(2) [of "concat (map char_bits s)"] symbol_value_alphabet unfolding b64_encode_def list_all_iff by fastforce

section \<open>Signed tokens\<close>

record Session =
  seID :: string
  sePart :: int
  seUser :: int
  seContest :: int
  seAdmin :: int
  seNonce :: int
  seLang :: string
  seReadOnly :: bool
  seIssued :: int
  seExpires :: int

text \<open>
  What the web server is built on: HMAC, the secret of the installation, the JSON encoding of sessions and of the
  links of administrators (participation, administrator and expiry), and the check of a password against a hash.
\<close>

record Web =
  wbHmac :: "string \<Rightarrow> string \<Rightarrow> string"
  wbSecret :: string
  wbEncode :: "Session \<Rightarrow> string"
  wbDecode :: "string \<Rightarrow> Session option"
  wbLink :: "string \<Rightarrow> (int \<times> int \<times> int) option"
  wbPassword :: "string \<Rightarrow> string \<Rightarrow> bool"

definition NewSigner :: "Web \<Rightarrow> string \<Rightarrow> string" where
  "NewSigner W purpose = wbHmac W (wbSecret W) (''cms/'' @ purpose)"

definition Sign :: "Web \<Rightarrow> string \<Rightarrow> string \<Rightarrow> string" where
  "Sign W key payload = b64_encode payload @ ''.'' @ b64_encode (wbHmac W key payload)"

text \<open>\<^verbatim>\<open>strings.Cut(token, ".")\<close>.\<close>

definition cut_dot :: "string \<Rightarrow> (string \<times> string) option" where
  "cut_dot s = (if CHR ''.'' \<in> set s then Some (takeWhile (\<lambda>c. c \<noteq> CHR ''.'') s, tl (dropWhile (\<lambda>c. c \<noteq> CHR ''.'') s)) else None)"

definition Verify :: "Web \<Rightarrow> string \<Rightarrow> string \<Rightarrow> string option" where
  "Verify W key token =
     (case cut_dot token of
        None \<Rightarrow> None
      | Some (p, m) \<Rightarrow>
          (case b64_decode p of
             None \<Rightarrow> None
           | Some payload \<Rightarrow> if b64_decode m = Some (wbHmac W key payload) then Some payload else None))"

definition Valid :: "Session \<Rightarrow> time \<Rightarrow> bool" where
  "Valid s now \<longleftrightarrow> t_unix now < seExpires s"

definition Read_session :: "Web \<Rightarrow> string \<Rightarrow> time \<Rightarrow> string option \<Rightarrow> Session option" where
  "Read_session W key now cookie =
     (case cookie of
        None \<Rightarrow> None
      | Some c \<Rightarrow>
          (case Verify W key c of
             None \<Rightarrow> None
           | Some payload \<Rightarrow> (case wbDecode W payload of Some s \<Rightarrow> if Valid s now then Some s else None | None \<Rightarrow> None)))"

text \<open>The session that \<^verbatim>\<open>Write\<close> completes (\<open>rid\<close> is its random identifier) and the cookie.\<close>

definition completed :: "duration \<Rightarrow> string \<Rightarrow> time \<Rightarrow> Session \<Rightarrow> Session" where
  "completed ttl rid now s = s\<lparr>seID := (if seID s = [] then rid else seID s), seIssued := (if seIssued s = 0 then t_unix now else seIssued s),
     seExpires := t_unix (t_add now ttl)\<rparr>"

definition Write_session :: "Web \<Rightarrow> string \<Rightarrow> duration \<Rightarrow> string \<Rightarrow> time \<Rightarrow> Session \<Rightarrow> string" where
  "Write_session W key ttl rid now s = Sign W key (wbEncode W (completed ttl rid now s))"

definition Token :: "Web \<Rightarrow> string \<Rightarrow> string" where
  "Token W sid = b64_encode (wbHmac W (NewSigner W ''csrf'') sid)"

definition TrimPrefix :: "string \<Rightarrow> string \<Rightarrow> string" where
  "TrimPrefix s p = (if prefix p s then drop (length p) s else s)"

text \<open>\<^verbatim>\<open>ImpersonationSigner\<close> and \<^verbatim>\<open>VerifyImpersonation\<close>: the participation and the administrator.\<close>

definition VerifyImpersonation :: "Web \<Rightarrow> time \<Rightarrow> string \<Rightarrow> (int \<times> int) option" where
  "VerifyImpersonation W now token =
     (case Verify W (NewSigner W ''impersonate'') token of
        None \<Rightarrow> None
      | Some payload \<Rightarrow> (case wbLink W payload of Some (p, a, e) \<Rightarrow> if e < t_unix now then None else Some (p, a) | None \<Rightarrow> None))"

lemma cut_dot_sign: "CHR ''.'' \<notin> set p \<Longrightarrow> cut_dot (p @ ''.'' @ m) = Some (p, m)"
proof -
  assume "CHR ''.'' \<notin> set p"
  then have "takeWhile (\<lambda>c. c \<noteq> CHR ''.'') (p @ CHR ''.'' # m) = p" "dropWhile (\<lambda>c. c \<noteq> CHR ''.'') (p @ CHR ''.'' # m) = CHR ''.'' # m"
    by (induction p) auto
  then show ?thesis by (simp add: cut_dot_def)
qed

lemma Verify_Sign: "Verify W key (Sign W key payload) = Some payload"
  by (simp add: Verify_def Sign_def cut_dot_sign [simplified] b64_no_dot b64_roundtrip)

text \<open>A token is only accepted with the authentication code of its payload.\<close>

lemma Verify_authentic:
  assumes "Verify W key token = Some payload"
  obtains p m where "token = p @ ''.'' @ m" "b64_decode p = Some payload" "b64_decode m = Some (wbHmac W key payload)"
proof -
  obtain p m where c: "cut_dot token = Some (p, m)" "b64_decode p = Some payload" "b64_decode m = Some (wbHmac W key payload)"
    using assms by (auto simp: Verify_def split: option.splits if_splits)
  have "token = takeWhile (\<lambda>c. c \<noteq> CHR ''.'') token @ CHR ''.'' # tl (dropWhile (\<lambda>c. c \<noteq> CHR ''.'') token)" if "CHR ''.'' \<in> set token"
    using that by (induction token) auto
  then have "token = p @ ''.'' @ m" using c(1) by (auto simp: cut_dot_def split: if_splits)
  then show thesis using that c by blast
qed

text \<open>
  Property C39. A session written into a cookie is read back unchanged, with its identifier, issue and expiry
  filled in, exactly until it expires; a cookie that is accepted carries the authentication
  code of its content under the key of the server.
\<close>

theorem cookie_roundtrip:
  assumes "wbDecode W (wbEncode W (completed ttl rid now s)) = Some (completed ttl rid now s)"
  shows "Read_session W key later (Some (Write_session W key ttl rid now s))
      = (if t_unix later < t_unix (t_add now ttl) then Some (completed ttl rid now s) else None)
    \<and> (\<forall>c s'. Read_session W key later (Some c) = Some s' \<longrightarrow>
        (\<exists>p m payload. c = p @ ''.'' @ m \<and> b64_decode m = Some (wbHmac W key payload) \<and> wbDecode W payload = Some s' \<and> t_unix later < seExpires s'))"
proof
  show "Read_session W key later (Some (Write_session W key ttl rid now s))
      = (if t_unix later < t_unix (t_add now ttl) then Some (completed ttl rid now s) else None)"
    using assms by (simp add: Read_session_def Write_session_def Verify_Sign Valid_def) (simp add: completed_def)
  show "\<forall>c s'. Read_session W key later (Some c) = Some s' \<longrightarrow>
      (\<exists>p m payload. c = p @ ''.'' @ m \<and> b64_decode m = Some (wbHmac W key payload) \<and> wbDecode W payload = Some s' \<and> t_unix later < seExpires s')"
  proof (intro allI impI)
    fix c s' assume "Read_session W key later (Some c) = Some s'"
    then obtain payload where "Verify W key c = Some payload" "wbDecode W payload = Some s'" "t_unix later < seExpires s'"
      by (auto simp: Read_session_def Valid_def split: option.splits if_splits)
    then show "\<exists>p m payload. c = p @ ''.'' @ m \<and> b64_decode m = Some (wbHmac W key payload) \<and> wbDecode W payload = Some s' \<and> t_unix later < seExpires s'"
      by (elim Verify_authentic) blast
  qed
qed

theorem cookie_roundtrip_witness:
  "let s = \<lparr>seID = ''i'', sePart = 7, seUser = 8, seContest = 1, seAdmin = 0, seNonce = 2, seLang = [], seReadOnly = False, seIssued = 0, seExpires = 0\<rparr>;
       W = \<lparr>wbHmac = \<lambda>k d. rev (k @ d), wbSecret = ''x'', wbEncode = \<lambda>_. ''payload'', wbDecode = \<lambda>_. Some (completed second ''r'' 0 s), wbLink = \<lambda>_. None, wbPassword = (=)\<rparr>
   in Read_session W ''key'' 0 (Some (Write_session W ''key'' second ''r'' 0 s)) = Some (s\<lparr>seExpires := 1\<rparr>)"
  unfolding Let_def by (subst cookie_roundtrip [THEN conjunct1]) (simp_all add: completed_def t_unix_def t_add_def second_def)

section \<open>Contests, participations and requests\<close>

text \<open>
  The columns of a participation and its user that the pages need, and the settings of a contest that
  decide who may enter. An address is its bits; a network is an address with the length of its prefix.
\<close>

type_synonym address = "bool list"

record partView =
  pvID :: int
  pvContestID :: int
  pvUserID :: int
  pvTeamID :: "int option"
  pvApproved :: bool
  pvStartingTime :: "time option"
  pvDelayTimeS :: int
  pvExtraTimeS :: int
  pvHidden :: bool
  pvUnrestricted :: bool
  pvLoginNonce :: int
  pvIp :: "(address \<times> nat) list"
  pvUsername :: string
  pvDisabled :: bool
  pvSiteStartTime :: "time option"
  pvPasswordHash :: "string option"
  pvUserHash :: string

record contestGate =
  cgID :: int
  cgStatus :: string
  cgRules :: Rules
  cgTeamMode :: bool
  cgSingleLogin :: bool
  cgIpRestriction :: bool
  cgIpAutologin :: bool
  cgSessionMinutes :: "int option"
  cgAllowPassword :: bool
  cgBlockHidden :: bool

text \<open>A request: what the gate reads of it. \<open>rqLimitBody\<close> tells whether its body is within the limit.\<close>

record request =
  rqPost :: bool
  rqPath :: string
  rqCookie :: "string option"
  rqAnon :: "string option"
  rqIP :: address
  rqOrigin :: string
  rqHost :: string
  rqToken :: string
  rqForm :: "string \<Rightarrow> string"
  rqLimitBody :: bool

definition Check_csrf :: "Web \<Rightarrow> request \<Rightarrow> string \<Rightarrow> bool" where
  "Check_csrf W r sid =
     (if rqOrigin r \<noteq> [] \<and> rqOrigin r \<noteq> ''null'' \<and> TrimPrefix (TrimPrefix (rqOrigin r) ''https://'') ''http://'' \<noteq> rqHost r then False
      else (let tok = (if rqToken r = [] then rqForm r ''csrf'' else rqToken r) in tok \<noteq> [] \<and> tok = Token W sid))"

definition Contains :: "address \<times> nat \<Rightarrow> address \<Rightarrow> bool" where
  "Contains p ip \<longleftrightarrow> length (fst p) = length ip \<and> take (snd p) (fst p) = take (snd p) ip"

definition ipAllowed :: "(address \<times> nat) list \<Rightarrow> address \<Rightarrow> bool" where
  "ipAllowed ps ip = list_ex (\<lambda>p. Contains p ip) ps"

definition participantOf :: "partView \<Rightarrow> Participant" where
  "participantOf p = \<lparr>pStartingTime = pvStartingTime p, pSiteStart = pvSiteStartTime p, pDelay = dmul (pvDelayTimeS p) second,
     pExtra = dmul (pvExtraTimeS p) second, pUnrestricted = pvUnrestricted p\<rparr>"

definition sessionTTL :: "contestGate \<Rightarrow> duration" where
  "sessionTTL cv = (case cgSessionMinutes cv of Some m \<Rightarrow> dmul m minute | None \<Rightarrow> 24 * 60 * minute)"

definition session_key :: "Web \<Rightarrow> string" where
  "session_key W = NewSigner W ''cws-session''"

section \<open>The gate\<close>

datatype refusal = ToLogin | Page nat string

record reqCtx =
  rcPart :: partView
  rcGroup :: "int list"
  rcSess :: Session
  rcStatus :: Status
  rcNow :: time

text \<open>The participations of the database, and the operations on them.\<close>

definition participation :: "partView list \<Rightarrow> int \<Rightarrow> partView option" where
  "participation ps i = find (\<lambda>p. pvID p = i) ps"

definition BumpLoginNonce :: "int \<Rightarrow> partView list \<Rightarrow> partView list" where
  "BumpLoginNonce i = map (\<lambda>p. if pvID p = i then p\<lparr>pvLoginNonce := pvLoginNonce p + 1\<rparr> else p)"

definition team :: "partView list \<Rightarrow> int \<Rightarrow> int \<Rightarrow> int list" where
  "team ps c t = map pvID (filter (\<lambda>p. pvContestID p = c \<and> pvTeamID p = Some t) ps)"

text \<open>
  A new session, as it is written into the cookie. In a contest with a single login the nonce of the
  participation is advanced first; \<open>ok\<close> tells whether the database did so.
\<close>

definition startSession :: "contestGate \<Rightarrow> string \<Rightarrow> bool \<Rightarrow> time \<Rightarrow> int \<Rightarrow> int \<Rightarrow> int \<Rightarrow> partView list \<Rightarrow> partView list \<times> Session" where
  "startSession cv rid ok now pid uid nonce ps =
     (let ps' = (if cgSingleLogin cv \<and> ok then BumpLoginNonce pid ps else ps);
          n = (if cgSingleLogin cv \<and> ok then (case participation ps' pid of Some p \<Rightarrow> pvLoginNonce p | None \<Rightarrow> nonce) else nonce)
      in (ps', completed (sessionTTL cv) rid now
            \<lparr>seID = [], sePart = pid, seUser = uid, seContest = cgID cv, seAdmin = 0, seNonce = n, seLang = [], seReadOnly = False, seIssued = 0, seExpires = 0\<rparr>))"

definition autologin :: "contestGate \<Rightarrow> string \<Rightarrow> bool \<Rightarrow> time \<Rightarrow> address \<Rightarrow> partView list \<Rightarrow> partView list \<times> Session option" where
  "autologin cv rid ok now ip ps =
     (case filter (\<lambda>p. pvContestID p = cgID cv \<and> pvIp p \<noteq> [] \<and> ipAllowed (pvIp p) ip) ps of
        [p] \<Rightarrow> if cgBlockHidden cv \<and> pvHidden p then (ps, None)
               else (let (ps', s) = startSession cv rid ok now (pvID p) (pvUserID p) (pvLoginNonce p) ps in (ps', Some s))
      | _ \<Rightarrow> (ps, None))"

definition gate_status :: "contestGate \<Rightarrow> partView \<Rightarrow> time \<Rightarrow> Status" where
  "gate_status cv p now =
     (let st = Compute (cgRules cv) (participantOf p) now
      in if cgStatus cv = ''archived''
         then \<lparr>stPhase = Finished, stBegin = stBegin st, stEnd = stEnd st, stRemaining = 0, stCanStart = False, stCanSubmit = False, stOfficial = False\<rparr>
         else st)"

definition gate_group :: "contestGate \<Rightarrow> partView list \<Rightarrow> partView \<Rightarrow> int list" where
  "gate_group cv ps p =
     (case pvTeamID p of
        Some t \<Rightarrow> if cgTeamMode cv \<and> team ps (cgID cv) t \<noteq> [] then team ps (cgID cv) t else [pvID p]
      | None \<Rightarrow> [pvID p])"

text \<open>The checks of \<^verbatim>\<open>withAuth\<close> once there is a session.\<close>

definition check_session :: "Web \<Rightarrow> contestGate \<Rightarrow> request \<Rightarrow> time \<Rightarrow> Session \<Rightarrow> partView list \<Rightarrow> (refusal, reqCtx) result" where
  "check_session W cv r now s ps =
     (if seContest s \<noteq> cgID cv \<or> sePart s = 0 then Inl ToLogin
      else case participation ps (sePart s) of
        None \<Rightarrow> Inl ToLogin
      | Some p \<Rightarrow>
          if seNonce s \<noteq> pvLoginNonce p
          then Inl (Page 401 (if cgSingleLogin cv then ''You logged in from another place.'' else ''Your session was closed by the organizers.''))
          else if pvDisabled p then Inl (Page 403 ''Your account is disabled.'')
          else if \<not> pvApproved p \<and> \<not> seReadOnly s then Inl (Page 403 ''Your registration is waiting for the organizers' approval.'')
          else if \<not> seReadOnly s \<and> sessionTTL cv < t_sub now (seIssued s * second) then Inl ToLogin
          else if cgIpRestriction cv \<and> pvIp p \<noteq> [] \<and> \<not> ipAllowed (pvIp p) (rqIP r) then Inl (Page 403 ''You cannot access the contest from this address.'')
          else if rqPost r \<and> seReadOnly s then Inl (Page 403 ''This is a read-only view for administrators.'')
          else if rqPost r \<and> \<not> rqLimitBody r then Inl (Page 413 ''The request is larger than allowed.'')
          else if rqPost r \<and> \<not> Check_csrf W r (seID s) then Inl (Page 403 ''Your session expired; reload the page and try again.'')
          else Inr \<lparr>rcPart = p, rcGroup = gate_group cv ps p, rcSess = s, rcStatus = gate_status cv p now, rcNow = now\<rparr>)"

definition withAuth :: "Web \<Rightarrow> contestGate \<Rightarrow> string \<Rightarrow> bool \<Rightarrow> request \<Rightarrow> time \<Rightarrow> partView list \<Rightarrow> partView list \<times> (refusal, reqCtx) result" where
  "withAuth W cv rid ok r now ps =
     (case Read_session W (session_key W) now (rqCookie r) of
        Some s \<Rightarrow> (ps, check_session W cv r now s ps)
      | None \<Rightarrow>
          if cgIpAutologin cv then (case autologin cv rid ok now (rqIP r) ps of
              (ps', Some s) \<Rightarrow> (ps', check_session W cv r now s ps')
            | (ps', None) \<Rightarrow> (ps', Inl ToLogin))
          else (ps, Inl ToLogin))"

definition adminPreview :: "Web \<Rightarrow> contestGate \<Rightarrow> request \<Rightarrow> time \<Rightarrow> bool" where
  "adminPreview W cv r now \<longleftrightarrow>
     suffix ''/impersonate'' (rqPath r)
     \<or> (case Read_session W (session_key W) now (rqCookie r) of Some s \<Rightarrow> seReadOnly s \<and> seContest s = cgID cv | None \<Rightarrow> False)"

definition withContest :: "Web \<Rightarrow> contestGate \<Rightarrow> string \<Rightarrow> bool \<Rightarrow> request \<Rightarrow> time \<Rightarrow> partView list \<Rightarrow> partView list \<times> (refusal, reqCtx) result" where
  "withContest W cv rid ok r now ps =
     (if cgStatus cv = ''draft'' \<and> \<not> adminPreview W cv r now then (ps, Inl (Page 404 ''This contest does not exist.''))
      else withAuth W cv rid ok r now ps)"

section \<open>Logging in\<close>

text \<open>\<open>over\<close> tells whether one of the counters of failed attempts is over its limit; the outcome also says whether a failure is counted.\<close>

definition handleLogin :: "Web \<Rightarrow> contestGate \<Rightarrow> string \<Rightarrow> bool \<Rightarrow> bool \<Rightarrow> request \<Rightarrow> time \<Rightarrow> partView list \<Rightarrow> partView list \<times> bool \<times> (refusal, Session) result" where
  "handleLogin W cv rid ok over r now ps =
     (let no = (\<lambda>st msg counted. (ps, counted, Inl (Page st msg)))
      in case Read_session W (session_key W) now (rqAnon r) of
        None \<Rightarrow> no 403 ''Your session expired; reload the page and try again.'' False
      | Some anon \<Rightarrow>
          if \<not> Check_csrf W r (seID anon) then no 403 ''Your session expired; reload the page and try again.'' False
          else if over then no 429 ''Too many login attempts, please wait a minute.'' False
          else if \<not> cgAllowPassword cv then no 403 ''Password login is disabled for this contest.'' False
          else (case find (\<lambda>p. pvContestID p = cgID cv \<and> pvUsername p = rqForm r ''username'') ps of
             None \<Rightarrow> no 401 ''Invalid username or password.'' True
           | Some p \<Rightarrow>
               if \<not> wbPassword W (case pvPasswordHash p of Some h \<Rightarrow> h | None \<Rightarrow> pvUserHash p) (rqForm r ''password'')
               then no 401 ''Invalid username or password.'' True
               else if pvDisabled p then no 403 ''Your account is disabled.'' False
               else if \<not> pvApproved p then no 403 ''Your registration is waiting for the organizers' approval.'' False
               else if cgBlockHidden cv \<and> pvHidden p then no 403 ''Invalid username or password.'' False
               else if cgIpRestriction cv \<and> pvIp p \<noteq> [] \<and> \<not> ipAllowed (pvIp p) (rqIP r) then no 403 ''You cannot log in from this address.'' False
               else (let (ps', s) = startSession cv rid ok now (pvID p) (pvUserID p) (pvLoginNonce p) ps in (ps', False, Inr s))))"

definition handleImpersonate :: "Web \<Rightarrow> contestGate \<Rightarrow> string \<Rightarrow> string \<Rightarrow> time \<Rightarrow> partView list \<Rightarrow> (refusal, Session) result" where
  "handleImpersonate W cv rid token now ps =
     (case VerifyImpersonation W now token of
        None \<Rightarrow> Inl (Page 403 ''The link expired; open it again from the admin panel.'')
      | Some (pid, admin) \<Rightarrow>
          (case participation ps pid of
             Some p \<Rightarrow>
               if pvContestID p \<noteq> cgID cv then Inl (Page 404 ''This contest does not exist.'')
               else Inr (completed (sessionTTL cv) rid now
                 \<lparr>seID = [], sePart = pvID p, seUser = pvUserID p, seContest = cgID cv, seAdmin = admin, seNonce = pvLoginNonce p, seLang = [],
                  seReadOnly = True, seIssued = 0, seExpires = 0\<rparr>)
           | None \<Rightarrow> Inl (Page 404 ''This contest does not exist.'')))"

section \<open>What the gate lets through\<close>

lemma refuse_if: "(if c then Inl e else X) = Inr y \<longleftrightarrow> \<not> c \<and> X = Inr y"
  by simp

lemma check_sessionD:
  assumes "check_session W cv r now s ps = Inr rc"
  shows "rcSess rc = s" "participation ps (sePart s) = Some (rcPart rc)" "seContest s = cgID cv" "seNonce s = pvLoginNonce (rcPart rc)"
    "\<not> pvDisabled (rcPart rc)" "rcStatus rc = gate_status cv (rcPart rc) now" "rcGroup rc = gate_group cv ps (rcPart rc)" "rcNow rc = now"
    "pvApproved (rcPart rc) \<and> t_sub now (seIssued s * second) \<le> sessionTTL cv \<or> seReadOnly s"
    "cgIpRestriction cv \<Longrightarrow> pvIp (rcPart rc) \<noteq> [] \<Longrightarrow> ipAllowed (pvIp (rcPart rc)) (rqIP r)"
    "rqPost r \<Longrightarrow> \<not> seReadOnly s \<and> Check_csrf W r (seID s)"
proof -
  obtain p where p: "participation ps (sePart s) = Some p" using assms by (cases "participation ps (sePart s)") (simp_all add: check_session_def refuse_if)
  note c = assms [unfolded check_session_def p option.simps(5) refuse_if]
  have rc: "rc = \<lparr>rcPart = p, rcGroup = gate_group cv ps p, rcSess = s, rcStatus = gate_status cv p now, rcNow = now\<rparr>" using c by simp
  show "rcSess rc = s" "participation ps (sePart s) = Some (rcPart rc)" "rcStatus rc = gate_status cv (rcPart rc) now"
    "rcGroup rc = gate_group cv ps (rcPart rc)" "rcNow rc = now" unfolding rc by (simp_all add: p)
  show "seContest s = cgID cv" "seNonce s = pvLoginNonce (rcPart rc)" "\<not> pvDisabled (rcPart rc)"
    "pvApproved (rcPart rc) \<and> t_sub now (seIssued s * second) \<le> sessionTTL cv \<or> seReadOnly s"
    "cgIpRestriction cv \<Longrightarrow> pvIp (rcPart rc) \<noteq> [] \<Longrightarrow> ipAllowed (pvIp (rcPart rc)) (rqIP r)"
    "rqPost r \<Longrightarrow> \<not> seReadOnly s \<and> Check_csrf W r (seID s)" using c unfolding rc by (simp_all, blast?, linarith?)
qed


section \<open>A single login\<close>

record auth_world =
  awParts :: "partView list"
  awIssued :: "Session list"

text \<open>
  The sessions issued so far, the newest first, over logins, automatic logins, registrations, the views of administrators, the
  sessions that organizers close and any other change of the participations.
\<close>

inductive login_run :: "Web \<Rightarrow> contestGate \<Rightarrow> auth_world \<Rightarrow> bool" for W cv where
  start: "distinct (map pvID ps) \<Longrightarrow> login_run W cv \<lparr>awParts = ps, awIssued = []\<rparr>"
| login: "login_run W cv w \<Longrightarrow> handleLogin W cv rid True over r now (awParts w) = (ps', counted, Inr s) \<Longrightarrow>
    login_run W cv \<lparr>awParts = ps', awIssued = s # awIssued w\<rparr>"
| autologin: "login_run W cv w \<Longrightarrow> autologin cv rid True now ip (awParts w) = (ps', Some s) \<Longrightarrow>
    login_run W cv \<lparr>awParts = ps', awIssued = s # awIssued w\<rparr>"
| registered: "login_run W cv w \<Longrightarrow> pvID p \<notin> pvID ` set (awParts w) \<Longrightarrow>
    startSession cv rid True now (pvID p) (pvUserID p) (pvLoginNonce p) (awParts w @ [p]) = (ps', s) \<Longrightarrow>
    login_run W cv \<lparr>awParts = ps', awIssued = s # awIssued w\<rparr>"
| viewed: "login_run W cv w \<Longrightarrow> handleImpersonate W cv rid token now (awParts w) = Inr s \<Longrightarrow>
    login_run W cv (w\<lparr>awIssued := s # awIssued w\<rparr>)"
| closed: "login_run W cv w \<Longrightarrow> login_run W cv (w\<lparr>awParts := BumpLoginNonce i (awParts w)\<rparr>)"
| edited: "login_run W cv w \<Longrightarrow> map pvID ps' = map pvID (awParts w) \<Longrightarrow> map pvLoginNonce ps' = map pvLoginNonce (awParts w) \<Longrightarrow>
    login_run W cv (w\<lparr>awParts := ps'\<rparr>)"

definition nonce_of :: "partView list \<Rightarrow> int \<Rightarrow> int option" where
  "nonce_of ps i = map_option pvLoginNonce (participation ps i)"

lemma participation_simps:
  "participation [] i = None" "participation (p # ps) i = (if pvID p = i then Some p else participation ps i)"
  by (simp_all add: participation_def)

lemma nonce_bump: "nonce_of (BumpLoginNonce i ps) j = (if i = j then map_option (\<lambda>n. n + 1) (nonce_of ps j) else nonce_of ps j)"
  by (induction ps) (auto simp: nonce_of_def BumpLoginNonce_def participation_simps)

lemma ids_bump [simp]: "map pvID (BumpLoginNonce i ps) = map pvID ps"
  by (induction ps) (auto simp: BumpLoginNonce_def)

lemma nonce_cong: "map pvID ps = map pvID qs \<Longrightarrow> map pvLoginNonce ps = map pvLoginNonce qs \<Longrightarrow> nonce_of ps i = nonce_of qs i"
  by (induction ps qs rule: list_induct2') (auto simp: nonce_of_def participation_simps)

lemma nonce_append: "nonce_of (ps @ [p]) i = (case nonce_of ps i of Some n \<Rightarrow> Some n | None \<Rightarrow> if pvID p = i then Some (pvLoginNonce p) else None)"
  by (induction ps) (auto simp: nonce_of_def participation_simps)

lemma nonce_member: "p \<in> set ps \<Longrightarrow> nonce_of ps (pvID p) \<noteq> None"
  by (induction ps) (auto simp: nonce_of_def participation_simps)

lemma startSession_nonce:
  assumes "startSession cv rid True now pid uid nonce ps = (ps', s)" "cgSingleLogin cv" "nonce_of ps pid = Some n"
  shows "ps' = BumpLoginNonce pid ps" "seNonce s = n + 1" "sePart s = pid" "\<not> seReadOnly s"
proof -
  have "nonce_of (BumpLoginNonce pid ps) pid = Some (n + 1)" using assms(3) by (simp add: nonce_bump)
  then show "ps' = BumpLoginNonce pid ps" "seNonce s = n + 1" "sePart s = pid" "\<not> seReadOnly s"
    using assms(1,2) by (auto simp: startSession_def Let_def completed_def nonce_of_def)
qed

definition own :: "Session \<Rightarrow> int \<Rightarrow> bool" where
  "own s i \<longleftrightarrow> \<not> seReadOnly s \<and> sePart s = i"

definition login_inv :: "partView list \<Rightarrow> Session list \<Rightarrow> bool" where
  "login_inv ps ss \<longleftrightarrow>
     (\<forall>s \<in> set ss. \<forall>i. own s i \<longrightarrow> (\<exists>n. nonce_of ps i = Some n \<and> seNonce s \<le> n))
     \<and> sorted_wrt (\<lambda>new old. \<forall>i. own new i \<longrightarrow> own old i \<longrightarrow> seNonce old < seNonce new) ss"

lemma login_inv_mono:
  assumes "login_inv ps ss" "\<And>i n. nonce_of ps i = Some n \<Longrightarrow> \<exists>n'. nonce_of ps' i = Some n' \<and> n \<le> n'"
  shows "login_inv ps' ss"
  using assms unfolding login_inv_def by (meson order_trans)

lemma login_inv_start:
  assumes "login_inv ps ss" "startSession cv rid True now pid uid nonce ps = (ps', s)" "cgSingleLogin cv" "nonce_of ps pid = Some n"
  shows "login_inv ps' (s # ss)"
proof -
  note s = startSession_nonce [OF assms(2-4)]
  have n: "nonce_of ps' pid = Some (n + 1)" using assms(4) by (simp add: s(1) nonce_bump)
  have "login_inv ps' ss" by (rule login_inv_mono [OF assms(1)]) (auto simp: s(1) nonce_bump)
  moreover have "seNonce old < n + 1" if "old \<in> set ss" "own old pid" for old
    using assms(1,4) that unfolding login_inv_def by fastforce
  ultimately show ?thesis using s n unfolding login_inv_def by (auto simp: own_def)
qed

lemma login_run_inv:
  assumes "login_run W cv w" "cgSingleLogin cv"
  shows "login_inv (awParts w) (awIssued w)"
  using assms(1)
proof (induction rule: login_run.induct)
  case (start ps)
  then show ?case by (simp add: login_inv_def)
next
  case (login w rid over r now ps' counted s)
  then obtain p where p: "p \<in> set (awParts w)"
    "startSession cv rid True now (pvID p) (pvUserID p) (pvLoginNonce p) (awParts w) = (ps', s)"
    by (auto simp: handleLogin_def Let_def split: option.splits if_splits prod.splits dest!: find_SomeD)
  then show ?case using login_inv_start [OF login.IH p(2) assms(2)] nonce_member [OF p(1)] by auto
next
  case (autologin w rid now ip ps' s)
  then obtain p where p: "[p] = filter (\<lambda>p. pvContestID p = cgID cv \<and> pvIp p \<noteq> [] \<and> ipAllowed (pvIp p) ip) (awParts w)"
    "startSession cv rid True now (pvID p) (pvUserID p) (pvLoginNonce p) (awParts w) = (ps', s)"
    by (auto simp: autologin_def split: list.splits if_splits prod.splits)
  then have "p \<in> set (awParts w)" by (metis (no_types, lifting) filter_is_subset list.set_intros(1) subsetD)
  then show ?case using login_inv_start [OF autologin.IH p(2) assms(2)] nonce_member [of p "awParts w"] by auto
next
  case (registered w p rid now ps' s)
  have "login_inv (awParts w @ [p]) (awIssued w)" by (rule login_inv_mono [OF registered.IH]) (auto simp: nonce_append)
  moreover have "nonce_of (awParts w @ [p]) (pvID p) \<noteq> None" by (rule nonce_member) simp
  ultimately show ?case using login_inv_start [OF _ registered.hyps(3) assms(2)] by auto
next
  case (viewed w rid token now s)
  then have "seReadOnly s" by (auto simp: handleImpersonate_def completed_def split: option.splits if_splits)
  then show ?case using viewed.IH by (auto simp: login_inv_def own_def)
next
  case (closed w i)
  then show ?case by (auto intro: login_inv_mono simp: nonce_bump)
next
  case (edited w ps')
  then show ?case using nonce_cong [OF edited.hyps(2,3)] by (auto intro: login_inv_mono)
qed


section \<open>Examples\<close>

definition wx_part :: partView where
  "wx_part = \<lparr>pvID = 7, pvContestID = 1, pvUserID = 8, pvTeamID = None, pvApproved = True, pvStartingTime = None, pvDelayTimeS = 0,
     pvExtraTimeS = 0, pvHidden = False, pvUnrestricted = False, pvLoginNonce = 2, pvIp = [([True, False], 1)], pvUsername = ''ann'', pvDisabled = False,
     pvSiteStartTime = None, pvPasswordHash = None, pvUserHash = ''h''\<rparr>"

definition wx_contest :: contestGate where
  "wx_contest = \<lparr>cgID = 1, cgStatus = ''published'', cgRules = \<lparr>rStart = 0, rStop = 100 * second, rPerUserTime = 0, rAnalysisEnabled = False,
     rAnalysisStart = None, rAnalysisStop = None, rPractice = False\<rparr>, cgTeamMode = False, cgSingleLogin = True, cgIpRestriction = True,
     cgIpAutologin = True, cgSessionMinutes = None, cgAllowPassword = True, cgBlockHidden = False\<rparr>"

definition wx_web :: "Session \<Rightarrow> Web" where
  "wx_web s = \<lparr>wbHmac = \<lambda>k d. ''m'', wbSecret = ''x'', wbEncode = \<lambda>_. ''p'', wbDecode = \<lambda>_. Some s, wbLink = \<lambda>_. None, wbPassword = (=)\<rparr>"

definition wx_session :: Session where
  "wx_session = \<lparr>seID = ''i'', sePart = 7, seUser = 8, seContest = 1, seAdmin = 0, seNonce = 2, seLang = [], seReadOnly = False, seIssued = 5, seExpires = 86405\<rparr>"

definition wx_request :: request where
  "wx_request = \<lparr>rqPost = True, rqPath = ''/c/start'', rqCookie = Some ''cA.bQ'', rqAnon = None, rqIP = [True, True], rqOrigin = [], rqHost = ''h'',
     rqToken = ''bQ'', rqForm = \<lambda>_. [], rqLimitBody = True\<rparr>"

definition wx_ctx :: reqCtx where
  "wx_ctx = \<lparr>rcPart = wx_part, rcGroup = [7], rcSess = wx_session, rcStatus = gate_status wx_contest wx_part (10 * second), rcNow = 10 * second\<rparr>"

lemma wx_passes: "withContest (wx_web wx_session) wx_contest ''r'' True wx_request (10 * second) [wx_part] = ([wx_part], Inr wx_ctx)"
  by code_simp



end
