(* ===== verification/Submitting.thy ===== *)
theory Submitting
  imports Web_Session Contest_Limits Contest_Tokens Task_Types
begin

text \<open>
  What a contestant does on the contest web server (\<^verbatim>\<open>src/internal/contestweb\<close>, handlers.go, usertests.go, tokens.go and
  the tasks of cache.go): starting, submitting, testing and playing tokens, from the request to the rows
  of the database. A form is the function from its fields to their values and files that the
  multipart parser gives; the zip reader, the digests of blobs and the answer of the rate limiter are parameters. A handler
  that reads and then writes without a lock is two steps, since another request can come between them.
  The flags of suspicious sources and the receipt of a submission, which nothing here reads, are left out.
\<close>

section \<open>Tasks\<close>

record taskView =
  tvID :: int
  tvName :: string
  tvFormats :: "string list"
  tvNeedsLanguage :: bool
  tvTaskType :: string
  tvDataset :: "(int \<times> string) option"
  tvSourceLimit :: int
  tvLanguages :: "Language list"
  tvSubmissionsClosed :: bool
  tvSubmissions :: Limit
  tvUserTests :: Limit
  tvTokens :: TokenRules

text \<open>A row of the task with the columns of its live dataset: identifier, type, parameters, source limit and the codenames of its testcases.\<close>

record taskRow =
  trTask :: taskView
  trFormat :: "string list"
  trLanguages :: "string list"
  trLive :: "(int \<times> string \<times> string \<times> int option \<times> string list) option"

definition allowed_languages :: "string list \<Rightarrow> Language list \<Rightarrow> Language list" where
  "allowed_languages ids ls = filter (\<lambda>l. ids = [] \<or> lnID l \<in> set ids) ls"

definition needs_language :: "string list \<Rightarrow> bool" where
  "needs_language fs = list_ex (suffix (''.'' @ [CHR 0x25] @ ''l'')) fs"

definition load_task :: "Worker \<Rightarrow> Language list \<Rightarrow> taskRow \<Rightarrow> taskView" where
  "load_task w contestLangs r =
     (let tv = (trTask r)\<lparr>tvFormats := trFormat r, tvLanguages := allowed_languages (trLanguages r) contestLangs,
                 tvNeedsLanguage := needs_language (trFormat r), tvDataset := None, tvTaskType := [], tvSourceLimit := 0\<rparr>
      in case trLive r of
           None \<Rightarrow> tv
         | Some (did, ty, params, limit, codes) \<Rightarrow>
             tv\<lparr>tvDataset := Some (did, params), tvTaskType := ty, tvSourceLimit := (case limit of Some l \<Rightarrow> l | None \<Rightarrow> 0),
                tvFormats := (if ty = ''OutputOnly'' \<and> trFormat r = []
                  then stable_sort (<) (map (OutputFileName (case OutputOnlyConfig w params of Inr (pat, _) \<Rightarrow> pat | Inl _ \<Rightarrow> [])) codes)
                  else trFormat r)\<rparr>)"

definition Editor :: "taskView \<Rightarrow> bool" where
  "Editor t \<longleftrightarrow> tvNeedsLanguage t \<and> length (tvFormats t) = 1 \<and> suffix (''.'' @ [CHR 0x25] @ ''l'') (hd (tvFormats t))"

record contestView =
  cvGate :: contestGate
  cvTasks :: "taskView list"
  cvSubmissionsPaused :: bool
  cvSubmissions :: Limit
  cvMaxSubmissionBytes :: "int option"
  cvAllowUserTests :: bool
  cvUserTests :: Limit
  cvTokens :: TokenRules
  cvScoreVisibility :: string
  cvStopTime :: time

section \<open>Forms\<close>

record upload =
  upName :: string
  upData :: "string option"

record form =
  fmValue :: "string \<Rightarrow> string"
  fmFile :: "string \<Rightarrow> upload option"

datatype zip_data = OpenFails | ReadFails | ZipData string

record zipEntry =
  zeName :: string
  zeDir :: bool
  zeSize :: int
  zeData :: zip_data

text \<open>The configuration of the server with the blob store's digest, the zip reader and the JSON decoder of the task types.\<close>

record server =
  svMaxSubmissionBytes :: int
  svMaxUserTestBytes :: int
  svDigest :: "string \<Rightarrow> string"
  svZip :: "string \<Rightarrow> zipEntry list option"
  svWorker :: Worker

record submittedFile =
  sfName :: string
  sfData :: string
  sfDigest :: string

definition submissionLimit :: "server \<Rightarrow> int" where
  "submissionLimit s = (if svMaxSubmissionBytes s > 0 then svMaxSubmissionBytes s else 2 ^ 20)"

definition fileLimit :: "server \<Rightarrow> contestView \<Rightarrow> taskView \<Rightarrow> int" where
  "fileLimit s cv t =
     (let perFile = (if tvSourceLimit t \<le> 0 then submissionLimit s else tvSourceLimit t)
      in case cvMaxSubmissionBytes cv of Some m \<Rightarrow> if m < perFile then m else perFile | None \<Rightarrow> perFile)"

text \<open>The same computation in \<^verbatim>\<open>readSources\<close>, for requests of at most \<open>mx\<close> bytes.\<close>

definition per_file :: "int \<Rightarrow> contestView \<Rightarrow> taskView \<Rightarrow> int" where
  "per_file mx cv t =
     (let perFile = (if tvSourceLimit t \<le> 0 then mx else tvSourceLimit t)
      in case cvMaxSubmissionBytes cv of Some m \<Rightarrow> if m < perFile then m else perFile | None \<Rightarrow> perFile)"

definition choose_language :: "taskView \<Rightarrow> string \<Rightarrow> Language option" where
  "choose_language t i = (case filter (\<lambda>l. lnID l = i) (tvLanguages t) of [] \<Rightarrow> None | ls \<Rightarrow> Some (last ls))"

text \<open>One file of the format; \<open>None\<close> is a missing file of an output-only task. \<^verbatim>\<open>io.LimitReader\<close> stops one byte after the limit.\<close>

definition read_format :: "form \<Rightarrow> taskView \<Rightarrow> Language option \<Rightarrow> int \<Rightarrow> string \<Rightarrow> (string, submittedFile option) result" where
  "read_format f t lang perFile fmt =
     (case fmFile f fmt of
        None \<Rightarrow>
          if Editor t \<and> TrimSpace (fmValue f ''source'') \<noteq> [] then
            (let data = ReplaceAll (fmValue f ''source'') [CHR 0x0D, CHR 0x0A] [CHR 0x0A]
             in if int (length data) > perFile then Inl ''A file exceeds the size limit.'' else Inr (Some \<lparr>sfName = fmt, sfData = data, sfDigest = []\<rparr>))
          else if tvNeedsLanguage t then Inl ''Every file of the submission is required.'' else Inr None
      | Some u \<Rightarrow>
          (case upData u of
             None \<Rightarrow> Inl ''Could not read the file.''
           | Some raw \<Rightarrow>
               (let data = take (nat (perFile + 1)) raw
                in if int (length data) > perFile then Inl ''A file exceeds the size limit.''
                   else if (case lang of Some l \<Rightarrow> suffix (''.'' @ [CHR 0x25] @ ''l'') fmt \<and> upName u \<noteq> [] \<and> \<not> IsSource l (upName u) \<and> Ext (upName u) \<noteq> [] | None \<Rightarrow> False)
                   then Inl ''The file extension does not match the chosen language.''
                   else Inr (Some \<lparr>sfName = fmt, sfData = data, sfDigest = []\<rparr>))))"

fun read_formats :: "form \<Rightarrow> taskView \<Rightarrow> Language option \<Rightarrow> int \<Rightarrow> string list \<Rightarrow> (string, submittedFile list) result" where
  "read_formats f t lang perFile [] = Inr []"
| "read_formats f t lang perFile (fmt # fmts) =
     bind_result (read_format f t lang perFile fmt) (\<lambda>x.
       bind_result (read_formats f t lang perFile fmts) (\<lambda>xs. Inr (case x of Some y \<Rightarrow> y # xs | None \<Rightarrow> xs)))"

text \<open>\<^verbatim>\<open>path.Base\<close>.\<close>

definition path_Base :: "string \<Rightarrow> string" where
  "path_Base p =
     (if p = [] then ''.''
      else (let q = rev (dropWhile (\<lambda>c. c = CHR ''/'') (rev p)) in if q = [] then ''/'' else rev (takeWhile (\<lambda>c. c \<noteq> CHR ''/'') (rev q))))"

text \<open>The entries of an archive: the files so far and the unexpected names, at most five.\<close>

fun zip_loop :: "taskView \<Rightarrow> int \<Rightarrow> zipEntry list \<Rightarrow> submittedFile list \<Rightarrow> string list \<Rightarrow> (string, submittedFile list \<times> string list) result" where
  "zip_loop t perFile [] files bad = Inr (files, bad)"
| "zip_loop t perFile (z # zs) files bad =
     (let name = path_Base (zeName z)
      in if zeDir z then zip_loop t perFile zs files bad
         else if name \<notin> set (tvFormats t) then zip_loop t perFile zs files (if length bad < 5 then bad @ [name] else bad)
         else if name \<in> sfName ` set files then zip_loop t perFile zs files bad
         else if zeSize z > perFile then Inl ''A file exceeds the size limit.''
         else case zeData z of
             OpenFails \<Rightarrow> Inl ''The archive is not a valid zip file.''
           | ReadFails \<Rightarrow> Inl ''A file exceeds the size limit.''
           | ZipData raw \<Rightarrow>
               (let data = take (nat (perFile + 1)) raw
                in if int (length data) > perFile then Inl ''A file exceeds the size limit.''
                   else zip_loop t perFile zs (files @ [\<lparr>sfName = name, sfData = data, sfDigest = []\<rparr>]) bad))"

definition readOutputArchive :: "server \<Rightarrow> form \<Rightarrow> taskView \<Rightarrow> submittedFile list \<Rightarrow> int \<Rightarrow> (string, submittedFile list) result" where
  "readOutputArchive s f t files perFile =
     (case fmFile f ''zip'' of
        None \<Rightarrow> Inr files
      | Some u \<Rightarrow>
          (case Option.bind (upData u) (svZip s) of
             None \<Rightarrow> Inl ''The archive is not a valid zip file.''
           | Some zs \<Rightarrow>
               bind_result (zip_loop t perFile zs files []) (\<lambda>(files', bad).
                 if bad \<noteq> [] then Inl (''Unexpected files in the archive: '' @ Join '', '' bad) else Inr files')))"

text \<open>\<open>parse\<close> is \<^verbatim>\<open>ParseMultipartForm\<close>, which fails on a body over the limit.\<close>

definition readSources :: "server \<Rightarrow> (int \<Rightarrow> form option) \<Rightarrow> contestView \<Rightarrow> taskView \<Rightarrow> int \<Rightarrow> (string, submittedFile list \<times> Language option) result" where
  "readSources s parse cv t mx =
     (case parse mx of
        None \<Rightarrow> Inl ''The submission is too large.''
      | Some f \<Rightarrow>
          (let lang = (if tvNeedsLanguage t then choose_language t (fmValue f ''language'') else None); perFile = per_file mx cv t
           in if tvNeedsLanguage t \<and> lang = None then Inl ''Please choose an allowed language.''
              else bind_result (read_formats f t lang perFile (tvFormats t)) (\<lambda>files.
                bind_result (if tvTaskType t = ''OutputOnly'' then readOutputArchive s f t files perFile else Inr files) (\<lambda>files.
                  if files = [] then Inl ''Please attach at least one file.'' else Inr (files, lang)))))"

section \<open>The database\<close>

record subRow =
  suID :: int
  suPart :: int
  suTask :: int
  suAt :: time
  suLang :: "string option"
  suOfficial :: bool
  suInvalidated :: bool
  suFiles :: "(string \<times> string) list"

record testRow =
  teID :: int
  tePart :: int
  teTask :: int
  teAt :: time
  teLang :: "string option"
  teInput :: string
  teFiles :: "(string \<times> string) list"

record webDB =
  wdSubs :: "subRow list"
  wdTests :: "testRow list"
  wdTokens :: "(int \<times> time) list"
  wdParts :: "partView list"

text \<open>The statements. \<^verbatim>\<open>COALESCE(max(submitted_at), 'epoch')\<close> is 0 for no row.\<close>

definition latest :: "time list \<Rightarrow> time" where
  "latest ts = (case ts of [] \<Rightarrow> 0 | t # ts \<Rightarrow> foldr max ts t)"

definition official_of :: "int list \<Rightarrow> webDB \<Rightarrow> subRow list" where
  "official_of g db = filter (\<lambda>s. suPart s \<in> set g \<and> suOfficial s) (wdSubs db)"

definition SubmissionStats :: "int list \<Rightarrow> int \<Rightarrow> webDB \<Rightarrow> Usage" where
  "SubmissionStats g tid db =
     (let ss = official_of g db; ts = filter (\<lambda>s. suTask s = tid) ss
      in \<lparr>ContestCount = int (length ss), TaskCount = int (length ts), ContestLast = latest (map suAt ss), TaskLast = latest (map suAt ts)\<rparr>)"

definition UserTestStats :: "int \<Rightarrow> int \<Rightarrow> webDB \<Rightarrow> Usage" where
  "UserTestStats pid tid db =
     (let ss = filter (\<lambda>s. tePart s = pid) (wdTests db); ts = filter (\<lambda>s. teTask s = tid) ss
      in \<lparr>ContestCount = int (length ss), TaskCount = int (length ts), ContestLast = latest (map teAt ss), TaskLast = latest (map teAt ts)\<rparr>)"

definition StartParticipation :: "int \<Rightarrow> time \<Rightarrow> webDB \<Rightarrow> webDB" where
  "StartParticipation i now db = db\<lparr>wdParts := map (\<lambda>p. if pvID p = i
     then p\<lparr>pvStartingTime := (case pvStartingTime p of Some t \<Rightarrow> Some t | None \<Rightarrow> Some now)\<rparr> else p) (wdParts db)\<rparr>"

definition GetSubmission :: "webDB \<Rightarrow> int \<Rightarrow> subRow option" where
  "GetSubmission db i = find (\<lambda>s. suID s = i) (wdSubs db)"

definition next_id :: "int list \<Rightarrow> int" where
  "next_id is = foldr max is 0 + 1"

text \<open>
  The best earlier file for every output name: the outcome of the testcase it belongs to in the live dataset
  (\<open>outcome\<close>, of a submission and a file name), the later submission on ties.
\<close>

type_synonym prevRow = "string \<times> string \<times> f64 option \<times> time \<times> int"

definition prev_less :: "prevRow \<Rightarrow> prevRow \<Rightarrow> bool" where
  "prev_less a b =
     (case (a, b) of ((fa, _, oa, ta, ia), (fb, _, ob, tb, ib)) \<Rightarrow>
        if fa \<noteq> fb then fa < fb
        else if oa \<noteq> ob then (case (oa, ob) of (Some x, Some y) \<Rightarrow> y < x | (Some _, None) \<Rightarrow> True | _ \<Rightarrow> False)
        else if ta \<noteq> tb then tb < ta else ib < ia)"

fun distinct_on :: "prevRow list \<Rightarrow> (string \<times> string) list" where
  "distinct_on [] = []"
| "distinct_on ((f, d, x) # rs) = (f, d) # distinct_on (filter (\<lambda>r. fst r \<noteq> f) rs)"

definition BestPreviousOutputs :: "(int \<Rightarrow> string \<Rightarrow> f64 option) \<Rightarrow> int list \<Rightarrow> int \<Rightarrow> webDB \<Rightarrow> (string \<times> string) list" where
  "BestPreviousOutputs outcome g tid db =
     distinct_on (stable_sort prev_less
       (concat (map (\<lambda>s. map (\<lambda>(f, d). (f, d, outcome (suID s) f, suAt s, suID s)) (suFiles s))
         (filter (\<lambda>s. suPart s \<in> set g \<and> suTask s = tid \<and> \<not> suInvalidated s) (wdSubs db)))))"

section \<open>Handlers\<close>

definition handleStart :: "reqCtx \<Rightarrow> webDB \<Rightarrow> webDB" where
  "handleStart rc db = (if stCanStart (rcStatus rc) then StartParticipation (pvID (rcPart rc)) (rcNow rc) db else db)"

definition visibleTask :: "contestView \<Rightarrow> reqCtx \<Rightarrow> string \<Rightarrow> taskView option" where
  "visibleTask cv rc name =
     (case find (\<lambda>t. tvName t = name) (cvTasks cv) of
        Some t \<Rightarrow> if (stPhase (rcStatus rc) = NotStarted \<or> stPhase (rcStatus rc) = WaitingStart) \<and> \<not> pvUnrestricted (rcPart rc) then None else Some t
      | None \<Rightarrow> None)"

definition submitBlocked :: "contestView \<Rightarrow> reqCtx \<Rightarrow> taskView \<Rightarrow> string" where
  "submitBlocked cv rc t =
     (if \<not> stCanSubmit (rcStatus rc) then ''Submissions are closed.''
      else if cvSubmissionsPaused cv then ''Submissions are paused by the organizers.''
      else if tvSubmissionsClosed t then ''Submissions to this task are closed.''
      else [])"

definition mergePreviousOutputs :: "server \<Rightarrow> (int \<Rightarrow> string \<Rightarrow> f64 option) \<Rightarrow> reqCtx \<Rightarrow> taskView \<Rightarrow> submittedFile list \<Rightarrow> webDB \<Rightarrow> submittedFile list" where
  "mergePreviousOutputs s outcome rc t files db =
     (case tvDataset t of
        None \<Rightarrow> files
      | Some (did, params) \<Rightarrow>
          if tvTaskType t \<noteq> ''OutputOnly'' then files
          else (case OutputOnlyConfig (svWorker s) params of
             Inr (_, True) \<Rightarrow>
               files @ map (\<lambda>(f, d). \<lparr>sfName = f, sfData = [], sfDigest = d\<rparr>)
                 (filter (\<lambda>(f, d). f \<notin> sfName ` set files) (BestPreviousOutputs outcome (rcGroup rc) (tvID t) db))
           | _ \<Rightarrow> files))"

text \<open>What \<^verbatim>\<open>handleSubmit\<close> has decided when it comes to store the submission.\<close>

record prepared =
  ppRc :: reqCtx
  ppTask :: taskView
  ppFiles :: "submittedFile list"
  ppLang :: "Language option"

definition submit_check :: "server \<Rightarrow> contestView \<Rightarrow> (int \<Rightarrow> string \<Rightarrow> f64 option) \<Rightarrow> bool \<Rightarrow> reqCtx \<Rightarrow> string \<Rightarrow> (int \<Rightarrow> form option) \<Rightarrow> webDB \<Rightarrow> (refusal, prepared) result" where
  "submit_check s cv outcome allow rc name parse db =
     (case visibleTask cv rc name of
        None \<Rightarrow> Inl (Page 404 ''This task does not exist or is not available yet.'')
      | Some t \<Rightarrow>
          if submitBlocked cv rc t \<noteq> [] then Inl (Page 403 (submitBlocked cv rc t))
          else if \<not> allow then Inl (Page 429 ''Too many requests, please slow down.'')
          else (case readSources s parse cv t (submissionLimit s) of
             Inl msg \<Rightarrow> Inl (Page 400 msg)
           | Inr (files, lang) \<Rightarrow>
               (case (if stOfficial (rcStatus rc) \<and> \<not> pvUnrestricted (rcPart rc)
                      then Contest_Limits.Check (cvSubmissions cv) (tvSubmissions t) (SubmissionStats (rcGroup rc) (tvID t) db) (rcNow rc) else None) of
                  Some e \<Rightarrow> Inl (Page 429 (Key e))
                | None \<Rightarrow> Inr \<lparr>ppRc = rc, ppTask = t, ppFiles = mergePreviousOutputs s outcome rc t files db, ppLang = lang\<rparr>)))"

definition storeSubmission :: "server \<Rightarrow> prepared \<Rightarrow> webDB \<Rightarrow> webDB \<times> int" where
  "storeSubmission s pp db =
     (let i = next_id (map suID (wdSubs db))
      in (db\<lparr>wdSubs := \<lparr>suID = i, suPart = pvID (rcPart (ppRc pp)), suTask = tvID (ppTask pp), suAt = rcNow (ppRc pp),
            suLang = map_option lnID (ppLang pp), suOfficial = stOfficial (rcStatus (ppRc pp)), suInvalidated = False,
            suFiles = map (\<lambda>f. (sfName f, if sfDigest f \<noteq> [] then sfDigest f else svDigest s (sfData f))) (ppFiles pp)\<rparr> # wdSubs db\<rparr>, i))"

definition handleSubmit :: "server \<Rightarrow> contestView \<Rightarrow> (int \<Rightarrow> string \<Rightarrow> f64 option) \<Rightarrow> bool \<Rightarrow> reqCtx \<Rightarrow> string \<Rightarrow> (int \<Rightarrow> form option) \<Rightarrow> webDB \<Rightarrow> webDB \<times> (refusal, int) result" where
  "handleSubmit s cv outcome allow rc name parse db =
     (case submit_check s cv outcome allow rc name parse db of
        Inl e \<Rightarrow> (db, Inl e)
      | Inr pp \<Rightarrow> (let (db', i) = storeSubmission s pp db in (db', Inr i)))"

text \<open>User tests.\<close>

definition testsEnabled :: "contestView \<Rightarrow> taskView \<Rightarrow> bool" where
  "testsEnabled cv t \<longleftrightarrow> cvAllowUserTests cv \<and> tvDataset t \<noteq> None \<and> tvTaskType t \<noteq> ''OutputOnly''"

definition readTestInput :: "form \<Rightarrow> int \<Rightarrow> (string, string) result" where
  "readTestInput f mx =
     (let text = fmValue f ''input_text'';
          typed = (if int (length text) > mx then Inl ''The input is too large.''
                   else Inr (ReplaceAll (if text \<noteq> [] \<and> last text \<noteq> CHR 0x0A then text @ [CHR 0x0A] else text) [CHR 0x0D, CHR 0x0A] [CHR 0x0A]))
      in case fmFile f ''input'' of
           None \<Rightarrow> typed
         | Some u \<Rightarrow>
             (case upData u of
                None \<Rightarrow> Inl ''Could not read the file.''
              | Some raw \<Rightarrow>
                  (let data = take (nat (mx + 1)) raw
                   in if int (length data) > mx then Inl ''The input is too large.'' else if data \<noteq> [] then Inr data else typed)))"

definition testLimitMessage :: "LimitError \<Rightarrow> string" where
  "testLimitMessage e = (if Key e = MsgContestMax \<or> Key e = MsgTaskMax then ''You have reached the maximum number of tests.'' else ''Please wait before testing again.'')"

definition test_limit :: "server \<Rightarrow> int" where
  "test_limit s = (if svMaxUserTestBytes s \<le> 0 then 8 * 2 ^ 20 else svMaxUserTestBytes s)"

definition test_check :: "server \<Rightarrow> contestView \<Rightarrow> bool \<Rightarrow> reqCtx \<Rightarrow> string \<Rightarrow> (int \<Rightarrow> form option) \<Rightarrow> webDB \<Rightarrow> (refusal, prepared \<times> string) result" where
  "test_check s cv allow rc name parse db =
     (case visibleTask cv rc name of
        None \<Rightarrow> Inl (Page 404 ''This task does not exist or is not available yet.'')
      | Some t \<Rightarrow>
          if \<not> testsEnabled cv t \<or> submitBlocked cv rc t \<noteq> [] then Inl (Page 403 ''Tests are not available now.'')
          else if \<not> allow then Inl (Page 429 ''Too many requests, please slow down.'')
          else (case readSources s parse cv t (test_limit s) of
             Inl msg \<Rightarrow> Inl (Page 400 msg)
           | Inr (files, lang) \<Rightarrow>
               (case (case parse (test_limit s) of None \<Rightarrow> Inl [] | Some f \<Rightarrow> readTestInput f (test_limit s)) of
                  Inl msg \<Rightarrow> Inl (Page 400 msg)
                | Inr inp \<Rightarrow>
                    (case (if pvUnrestricted (rcPart rc) then None
                           else Contest_Limits.Check (cvUserTests cv) (tvUserTests t) (UserTestStats (pvID (rcPart rc)) (tvID t) db) (rcNow rc)) of
                       Some e \<Rightarrow> Inl (Page 429 (testLimitMessage e))
                     | None \<Rightarrow> Inr (\<lparr>ppRc = rc, ppTask = t, ppFiles = files, ppLang = lang\<rparr>, inp)))))"

definition storeUserTest :: "server \<Rightarrow> prepared \<Rightarrow> string \<Rightarrow> webDB \<Rightarrow> webDB \<times> int" where
  "storeUserTest s pp inp db =
     (let i = next_id (map teID (wdTests db))
      in (db\<lparr>wdTests := \<lparr>teID = i, tePart = pvID (rcPart (ppRc pp)), teTask = tvID (ppTask pp), teAt = rcNow (ppRc pp),
            teLang = map_option lnID (ppLang pp), teInput = svDigest s inp, teFiles = map (\<lambda>f. (sfName f, svDigest s (sfData f))) (ppFiles pp)\<rparr> # wdTests db\<rparr>, i))"

definition handleUserTest :: "server \<Rightarrow> contestView \<Rightarrow> bool \<Rightarrow> reqCtx \<Rightarrow> string \<Rightarrow> (int \<Rightarrow> form option) \<Rightarrow> webDB \<Rightarrow> webDB \<times> (refusal, int) result" where
  "handleUserTest s cv allow rc name parse db =
     (case test_check s cv allow rc name parse db of
        Inl e \<Rightarrow> (db, Inl e)
      | Inr (pp, inp) \<Rightarrow> (let (db', i) = storeUserTest s pp inp db in (db', Inr i)))"

text \<open>
  Tokens. Playing one is a transaction that locks the participation first, so it is one step; the
  unique index on the submission refuses a second token.
\<close>

definition scoresVisible :: "contestView \<Rightarrow> reqCtx \<Rightarrow> bool" where
  "scoresVisible cv rc =
     (if cvScoreVisibility cv = ''never'' then False
      else if cvScoreVisibility cv = ''after'' then \<not> before (rcNow rc) (cvStopTime cv) \<and> stPhase (rcStatus rc) \<noteq> Running
      else True)"

definition token_times :: "int \<Rightarrow> webDB \<Rightarrow> (int \<times> time) list" where
  "token_times pid db =
     stable_sort (\<lambda>a b. snd a < snd b)
       (concat (map (\<lambda>(i, tm). case GetSubmission db i of Some s \<Rightarrow> if suPart s = pid then [(suTask s, tm)] else [] | None \<Rightarrow> []) (wdTokens db)))"

text \<open>The two pools; \<open>None\<close> where tokens do not apply. The replays are partial functions, hence the second option.\<close>

definition token_pools :: "contestView \<Rightarrow> reqCtx \<Rightarrow> taskView \<Rightarrow> (int \<times> time) list \<Rightarrow> (TokenState \<times> TokenState) option option" where
  "token_pools cv rc t played =
     (if tMode (cvTokens cv) = ''disabled'' \<or> tMode (tvTokens t) = ''disabled'' \<or> stPhase (rcStatus rc) \<noteq> Running \<or> \<not> scoresVisible cv rc
      then Some None
      else Option.bind (Contest_Tokens.Tokens (cvTokens cv) (stBegin (rcStatus rc)) (map snd played) (rcNow rc)) (\<lambda>cs.
             Option.bind (Contest_Tokens.Tokens (tvTokens t) (stBegin (rcStatus rc)) (map snd (filter (\<lambda>p. fst p = tvID t) played)) (rcNow rc)) (\<lambda>ts.
               Some (Some (cs, ts)))))"

record tokenView =
  tkUnlimited :: bool
  tkAvailable :: int
  tkNext :: time
  tkWait :: duration
  tkCanPlay :: bool

definition token_view :: "TokenState \<Rightarrow> TokenState \<Rightarrow> tokenView" where
  "token_view cs ts =
     (let v = \<lparr>tkUnlimited = False, tkAvailable = 0, tkNext = zero_time, tkWait = max (tsWait cs) (tsWait ts), tkCanPlay = CanPlay cs \<and> CanPlay ts\<rparr>;
          v' = (if tsUnlimited cs \<and> tsUnlimited ts then v\<lparr>tkUnlimited := True\<rparr>
                else if tsUnlimited cs then v\<lparr>tkAvailable := tsAvailable ts, tkNext := tsNext ts\<rparr>
                else if tsUnlimited ts then v\<lparr>tkAvailable := tsAvailable cs, tkNext := tsNext cs\<rparr>
                else v\<lparr>tkAvailable := min (tsAvailable cs) (tsAvailable ts), tkNext := (if tsAvailable cs \<ge> tsAvailable ts then tsNext ts else tsNext cs)\<rparr>)
      in if tsExhausted cs \<or> tsExhausted ts then v'\<lparr>tkAvailable := 0, tkUnlimited := False, tkNext := zero_time\<rparr> else v')"

definition handleToken :: "contestView \<Rightarrow> reqCtx \<Rightarrow> int \<Rightarrow> webDB \<Rightarrow> (webDB \<times> (refusal, unit) result) option" where
  "handleToken cv rc i db =
     (let no = (\<lambda>st msg. Some (db, Inl (Page st msg)))
      in case GetSubmission db i of
        None \<Rightarrow> no 404 ''Not found''
      | Some s \<Rightarrow>
          if suPart s \<noteq> pvID (rcPart rc) then no 404 ''Not found''
          else (case find (\<lambda>t. tvID t = suTask s) (cvTasks cv) of
             None \<Rightarrow> no 404 ''Not found''
           | Some t \<Rightarrow>
               if \<not> suOfficial s \<or> suInvalidated s then no 409 ''Tokens can only be played on official submissions.''
               else (case token_pools cv rc t (token_times (pvID (rcPart rc)) db) of
                  None \<Rightarrow> None
                | Some None \<Rightarrow> no 409 ''No token is available now.''
                | Some (Some (cs, ts)) \<Rightarrow>
                    if \<not> tkCanPlay (token_view cs ts) then no 409 ''No token is available now.''
                    else if i \<in> fst ` set (wdTokens db) then no 409 ''A token was already played on this submission.''
                    else Some (db\<lparr>wdTokens := wdTokens db @ [(i, rcNow rc)]\<rparr>, Inr ()))))"

end
