(* ===== verification/Submitting_Props.thy ===== *)
theory Submitting_Props
  imports Submitting
begin

text \<open>
  What the contest web server guarantees of the rows it stores: accepted submissions fit the task and the rules, the
  limits hold when the requests of a contestant come one after the other and break when two of them
  overlap, and tokens stay within their budget.
\<close>

section \<open>Files\<close>

definition fits :: "taskView \<Rightarrow> int \<Rightarrow> submittedFile \<Rightarrow> bool" where
  "fits t perFile f \<longleftrightarrow> sfName f \<in> set (tvFormats t) \<and> int (length (sfData f)) \<le> perFile \<and> sfDigest f = []"

lemma read_format_ok:
  assumes "read_format f t lang perFile fmt = Inr x"
  shows "case x of Some y \<Rightarrow> sfName y = fmt \<and> int (length (sfData y)) \<le> perFile \<and> sfDigest y = [] | None \<Rightarrow> \<not> tvNeedsLanguage t"
  using assms by (auto simp: read_format_def Let_def split: option.splits if_splits)

lemma read_formats_ok:
  assumes "read_formats f t lang perFile fmts = Inr xs"
  shows "\<forall>y \<in> set xs. sfName y \<in> set fmts \<and> int (length (sfData y)) \<le> perFile \<and> sfDigest y = []"
    "tvNeedsLanguage t \<Longrightarrow> map sfName xs = fmts" "distinct fmts \<Longrightarrow> distinct (map sfName xs)"
proof -
  have "(\<forall>y \<in> set xs. sfName y \<in> set fmts \<and> int (length (sfData y)) \<le> perFile \<and> sfDigest y = [])
    \<and> (tvNeedsLanguage t \<longrightarrow> map sfName xs = fmts) \<and> (distinct fmts \<longrightarrow> distinct (map sfName xs))"
    using assms
  proof (induction fmts arbitrary: xs)
    case (Cons fmt fmts)
    then obtain x ys where x: "read_format f t lang perFile fmt = Inr x" "read_formats f t lang perFile fmts = Inr ys"
      "xs = (case x of Some y \<Rightarrow> y # ys | None \<Rightarrow> ys)" by (auto simp: bind_result_eq_Inr)
    show ?case using read_format_ok [OF x(1)] Cons.IH [OF x(2)] x(3) by (auto split: option.splits)
  qed simp
  then show "\<forall>y \<in> set xs. sfName y \<in> set fmts \<and> int (length (sfData y)) \<le> perFile \<and> sfDigest y = []"
    "tvNeedsLanguage t \<Longrightarrow> map sfName xs = fmts" "distinct fmts \<Longrightarrow> distinct (map sfName xs)" by blast+
qed

lemma zip_loop_ok:
  "zip_loop t perFile zs files bad = Inr (files', bad') \<Longrightarrow> \<forall>y \<in> set files. fits t perFile y \<Longrightarrow> distinct (map sfName files) \<Longrightarrow>
    (\<forall>y \<in> set files'. fits t perFile y) \<and> distinct (map sfName files') \<and> set files \<subseteq> set files'"
proof (induction t perFile zs files bad rule: zip_loop.induct)
  case (2 t perFile z zs files bad)
  show ?case
  proof (cases "zeDir z \<or> path_Base (zeName z) \<notin> set (tvFormats t) \<or> path_Base (zeName z) \<in> sfName ` set files")
    case True
    then show ?thesis using 2 by (auto simp: Let_def split: if_splits)
  next
    case False
    then obtain raw where z: "zeData z = ZipData raw" "\<not> int (length (take (nat (perFile + 1)) raw)) > perFile"
      "zip_loop t perFile zs (files @ [\<lparr>sfName = path_Base (zeName z), sfData = take (nat (perFile + 1)) raw, sfDigest = []\<rparr>]) bad = Inr (files', bad')"
      using 2(5) by (auto simp: Let_def split: if_splits zip_data.splits)
    have "\<forall>y \<in> set (files @ [\<lparr>sfName = path_Base (zeName z), sfData = take (nat (perFile + 1)) raw, sfDigest = []\<rparr>]). fits t perFile y"
      using 2(6) False z(2) by (auto simp: fits_def)
    then show ?thesis using 2(4) [OF refl _ _ _ _ z(1) refl z(2,3)] False 2(5,7) z by (auto simp: Let_def split: if_splits)
  qed
qed auto

lemma choose_language_ok:
  assumes "choose_language t i = Some l"
  shows "l \<in> set (tvLanguages t) \<and> lnID l = i"
proof -
  let ?ls = "filter (\<lambda>l. lnID l = i) (tvLanguages t)"
  have "?ls \<noteq> []" "l = last ?ls" using assms by (auto simp: choose_language_def split: list.splits)
  then have "l \<in> set ?ls" by (metis last_in_set)
  then show ?thesis by simp
qed

lemma readSources_ok:
  assumes "readSources s parse cv t mx = Inr (files, lang)"
  shows "files \<noteq> []" "distinct (tvFormats t) \<Longrightarrow> (\<forall>y \<in> set files. fits t (per_file mx cv t) y) \<and> distinct (map sfName files)"
    "tvNeedsLanguage t \<Longrightarrow> \<exists>l \<in> set (tvLanguages t). lang = Some l"
    "tvNeedsLanguage t \<Longrightarrow> tvTaskType t \<noteq> ''OutputOnly'' \<Longrightarrow> map sfName files = tvFormats t"
proof -
  obtain f fs where r: "parse mx = Some f" "read_formats f t lang (per_file mx cv t) (tvFormats t) = Inr fs"
    "(if tvTaskType t = ''OutputOnly'' then readOutputArchive s f t fs (per_file mx cv t) else Inr fs) = Inr files" "files \<noteq> []"
    and lang: "lang = (if tvNeedsLanguage t then choose_language t (fmValue f ''language'') else None)" "tvNeedsLanguage t \<Longrightarrow> lang \<noteq> None"
    using assms unfolding readSources_def Let_def by (auto simp: bind_result_eq_Inr split: option.splits if_splits)
  show "files \<noteq> []" by (rule r(4))
  show "\<exists>l \<in> set (tvLanguages t). lang = Some l" if "tvNeedsLanguage t"
    using lang that choose_language_ok by auto
  note fs = read_formats_ok [OF r(2)]
  show "map sfName files = tvFormats t" if "tvNeedsLanguage t" "tvTaskType t \<noteq> ''OutputOnly''" using fs(2) r(3) that by simp
  assume d: "distinct (tvFormats t)"
  have ok: "(\<forall>y \<in> set fs. fits t (per_file mx cv t) y) \<and> distinct (map sfName fs)" using fs(1,3) d by (auto simp: fits_def)
  show "(\<forall>y \<in> set files. fits t (per_file mx cv t) y) \<and> distinct (map sfName files)"
  proof (cases "tvTaskType t = ''OutputOnly''")
    case True
    then show ?thesis using r(3) ok zip_loop_ok [of t "per_file mx cv t" _ fs "[]"]
      by (auto simp: readOutputArchive_def bind_result_eq_Inr split: option.splits if_splits)
  next
    case False
    then show ?thesis using r(3) ok by simp
  qed
qed

section \<open>Accepted submissions\<close>

lemma submit_checkD:
  assumes "submit_check s cv outcome allow rc name parse db = Inr pp"
  shows "ppTask pp \<in> set (cvTasks cv)" "tvName (ppTask pp) = name" "ppRc pp = rc" "submitBlocked cv rc (ppTask pp) = []" "allow"
    "visibleTask cv rc name = Some (ppTask pp)"
    "stOfficial (rcStatus rc) \<Longrightarrow> \<not> pvUnrestricted (rcPart rc) \<Longrightarrow>
      Contest_Limits.Check (cvSubmissions cv) (tvSubmissions (ppTask pp)) (SubmissionStats (rcGroup rc) (tvID (ppTask pp)) db) (rcNow rc) = None"
    "\<exists>files. readSources s parse cv (ppTask pp) (submissionLimit s) = Inr (files, ppLang pp) \<and> ppFiles pp = mergePreviousOutputs s outcome rc (ppTask pp) files db"
proof -
  obtain t where t: "visibleTask cv rc name = Some t" using assms by (cases "visibleTask cv rc name") (simp_all add: submit_check_def)
  note c = assms [unfolded submit_check_def t option.simps(5) refuse_if]
  obtain files lang where f: "readSources s parse cv t (submissionLimit s) = Inr (files, lang)"
    using c by (cases "readSources s parse cv t (submissionLimit s)") auto
  have l: "(if stOfficial (rcStatus rc) \<and> \<not> pvUnrestricted (rcPart rc)
      then Contest_Limits.Check (cvSubmissions cv) (tvSubmissions t) (SubmissionStats (rcGroup rc) (tvID t) db) (rcNow rc) else None) = None"
    using c unfolding f by (auto split: option.splits if_splits)
  have pp: "pp = \<lparr>ppRc = rc, ppTask = t, ppFiles = mergePreviousOutputs s outcome rc t files db, ppLang = lang\<rparr>"
    using c unfolding f by (simp split: option.splits)
  show "ppTask pp \<in> set (cvTasks cv)" "tvName (ppTask pp) = name"
    using t by (auto simp: pp visibleTask_def split: option.splits if_splits dest!: find_SomeD)
  show "ppRc pp = rc" "visibleTask cv rc name = Some (ppTask pp)" by (simp_all add: pp t)
  show "submitBlocked cv rc (ppTask pp) = []" "allow" using c by (simp_all add: pp)
  show "Contest_Limits.Check (cvSubmissions cv) (tvSubmissions (ppTask pp)) (SubmissionStats (rcGroup rc) (tvID (ppTask pp)) db) (rcNow rc) = None"
    if "stOfficial (rcStatus rc)" "\<not> pvUnrestricted (rcPart rc)" using l that by (simp add: pp)
  show "\<exists>files. readSources s parse cv (ppTask pp) (submissionLimit s) = Inr (files, ppLang pp) \<and> ppFiles pp = mergePreviousOutputs s outcome rc (ppTask pp) files db"
    using f by (auto simp: pp)
qed

lemma submitBlocked_iff: "submitBlocked cv rc t = [] \<longleftrightarrow> stCanSubmit (rcStatus rc) \<and> \<not> cvSubmissionsPaused cv \<and> \<not> tvSubmissionsClosed t"
  by (simp add: submitBlocked_def)

lemma merge_parts:
  "\<exists>old. mergePreviousOutputs s outcome rc t files db = files @ old \<and> (tvTaskType t \<noteq> ''OutputOnly'' \<longrightarrow> old = [])
    \<and> (\<forall>f \<in> set old. \<exists>r \<in> set (wdSubs db). (sfName f, sfDigest f) \<in> set (suFiles r) \<and> suPart r \<in> set (rcGroup rc) \<and> suTask r = tvID t \<and> \<not> suInvalidated r)"
proof -
  have sub: "set (distinct_on rs) \<subseteq> (\<lambda>r. (fst r, fst (snd r))) ` set rs" for rs by (induction rs rule: distinct_on.induct) force+
  have best: "\<exists>r \<in> set (wdSubs db). (f, d) \<in> set (suFiles r) \<and> suPart r \<in> set (rcGroup rc) \<and> suTask r = tvID t \<and> \<not> suInvalidated r"
    if "(f, d) \<in> set (BestPreviousOutputs outcome (rcGroup rc) (tvID t) db)" for f d
    using that subsetD [OF sub] unfolding BestPreviousOutputs_def by fastforce
  let ?old = "map (\<lambda>(f, d). \<lparr>sfName = f, sfData = [], sfDigest = d\<rparr>) (filter (\<lambda>(f, d). f \<notin> sfName ` set files) (BestPreviousOutputs outcome (rcGroup rc) (tvID t) db))"
  have "mergePreviousOutputs s outcome rc t files db = files \<or> tvTaskType t = ''OutputOnly'' \<and> mergePreviousOutputs s outcome rc t files db = files @ ?old"
    by (auto simp: mergePreviousOutputs_def split: option.splits Sum_Type.sum.splits bool.splits)
  moreover have "\<forall>f \<in> set ?old. \<exists>r \<in> set (wdSubs db). (sfName f, sfDigest f) \<in> set (suFiles r) \<and> suPart r \<in> set (rcGroup rc) \<and> suTask r = tvID t \<and> \<not> suInvalidated r"
    using best by auto
  ultimately show ?thesis by (elim disjE) (auto intro: exI [of _ "[]"] exI [of _ ?old])
qed

lemma official_running:
  assumes "\<not> pUnrestricted p"
  shows "stCanSubmit (Compute r p now) \<and> stOfficial (Compute r p now) \<longleftrightarrow> stPhase (Compute r p now) = Running"
  using assms by (auto simp: Compute_def permissions_flags in_window_flags)


section \<open>Limits\<close>

lemma latest_ge: "t \<in> set ts \<Longrightarrow> t \<le> latest ts"
proof -
  have "t \<in> set (x # xs) \<Longrightarrow> t \<le> foldr max xs x" for x xs by (induction xs) auto
  then show "t \<in> set ts \<Longrightarrow> t \<le> latest ts" by (cases ts) (auto simp: latest_def)
qed

lemma Check_None:
  assumes "sane_interval c" "sane_interval t" "Contest_Limits.Check c t u now = None"
  shows "count_ok c (ContestCount u)" "count_ok t (TaskCount u)" "interval_ok c (ContestLast u) now" "interval_ok t (TaskLast u) now"
  using assms by (simp_all add: Contest_Limits.Check_def case_option_chain count_check_None interval_check_None)

text \<open>
  A list of submissions, the newest first, within a limit: at most the maximum, and each one at least the interval after every
  earlier one (submissions of the first second of 1970 do not count as such).
\<close>

definition inside :: "Limit \<Rightarrow> subRow list \<Rightarrow> bool" where
  "inside l ss \<longleftrightarrow>
     (case MaxNumber l of Some m \<Rightarrow> int (length ss) \<le> max 0 m | None \<Rightarrow> True)
     \<and> sorted_wrt (\<lambda>new old. case MinInterval l of Some iv \<Rightarrow> 0 < iv \<longrightarrow> second \<le> suAt old \<longrightarrow> suAt old + iv * second \<le> suAt new | None \<Rightarrow> True) ss"

lemma inside_Nil [simp]: "inside l []"
  by (auto simp: inside_def split: option.splits)

lemma inside_Cons:
  assumes "inside l ss" "count_ok l (int (length ss))" "interval_ok l (latest (map suAt ss)) (suAt s)"
  shows "inside l (s # ss)"
proof -
  have "suAt old + iv * second \<le> suAt s" if "MinInterval l = Some iv" "0 < iv" "second \<le> suAt old" "old \<in> set ss" for iv old
    using assms(3) that latest_ge [of "suAt old" "map suAt ss"] by (auto simp: interval_ok_def)
  then show ?thesis using assms(1,2) by (auto simp: inside_def count_ok_def split: option.splits)
qed

definition limits_hold :: "contestView \<Rightarrow> int list \<Rightarrow> webDB \<Rightarrow> bool" where
  "limits_hold cv g db \<longleftrightarrow>
     inside (cvSubmissions cv) (official_of g db)
     \<and> (\<forall>t \<in> set (cvTasks cv). inside (tvSubmissions t) (filter (\<lambda>s. suTask s = tvID t) (official_of g db)))"

text \<open>
  The submissions of a contestant or team \<open>g\<close> as long as its requests are handled one at a time; anything else that happens to the
  database leaves its official submissions alone.
\<close>

inductive serial_run :: "server \<Rightarrow> contestView \<Rightarrow> int list \<Rightarrow> webDB \<Rightarrow> bool" for s cv g where
  start: "official_of g db = [] \<Longrightarrow> serial_run s cv g db"
| submit: "serial_run s cv g db \<Longrightarrow> rcGroup rc = g \<Longrightarrow> \<not> pvUnrestricted (rcPart rc) \<Longrightarrow>
    serial_run s cv g (fst (handleSubmit s cv outcome allow rc name parse db))"
| other: "serial_run s cv g db \<Longrightarrow> official_of g db' = official_of g db \<Longrightarrow> serial_run s cv g db'"

definition sane_limits :: "contestView \<Rightarrow> bool" where
  "sane_limits cv \<longleftrightarrow> sane_interval (cvSubmissions cv) \<and> list_all (\<lambda>t. sane_interval (tvSubmissions t)) (cvTasks cv) \<and> distinct (map tvID (cvTasks cv))"

lemma official_store:
  "official_of g (fst (storeSubmission s pp db)) =
     (if pvID (rcPart (ppRc pp)) \<in> set g \<and> stOfficial (rcStatus (ppRc pp)) then hd (wdSubs (fst (storeSubmission s pp db))) # official_of g db else official_of g db)"
  "suAt (hd (wdSubs (fst (storeSubmission s pp db)))) = rcNow (ppRc pp)" "suTask (hd (wdSubs (fst (storeSubmission s pp db)))) = tvID (ppTask pp)"
  by (simp_all add: storeSubmission_def official_of_def Let_def)

lemma store_limits:
  assumes "limits_hold cv (rcGroup rc) db" "sane_limits cv" "submit_check s cv outcome allow rc name parse db = Inr pp" "\<not> pvUnrestricted (rcPart rc)"
  shows "limits_hold cv (rcGroup rc) (fst (storeSubmission s pp db))"
proof (cases "pvID (rcPart rc) \<in> set (rcGroup rc) \<and> stOfficial (rcStatus rc)")
  case True
  note d = submit_checkD [OF assms(3)]
  let ?new = "hd (wdSubs (fst (storeSubmission s pp db)))"
  have sane: "sane_interval (cvSubmissions cv)" "sane_interval (tvSubmissions (ppTask pp))" using assms(2) d(1) by (auto simp: sane_limits_def list_all_iff)
  have off: "official_of (rcGroup rc) (fst (storeSubmission s pp db)) = ?new # official_of (rcGroup rc) db" using True d(3) by (simp add: official_store)
  note c = Check_None [OF sane d(7), unfolded SubmissionStats_def Let_def, simplified, OF conjunct2 [OF True] assms(4)]
  have "inside (cvSubmissions cv) (?new # official_of (rcGroup rc) db)"
    by (rule inside_Cons) (use assms(1) c(1,3) d(3) in \<open>simp_all add: limits_hold_def official_store\<close>)
  moreover have "inside (tvSubmissions t) (filter (\<lambda>s. suTask s = tvID t) (?new # official_of (rcGroup rc) db))" if t: "t \<in> set (cvTasks cv)" for t
  proof (cases "tvID t = tvID (ppTask pp)")
    case True
    then have e: "t = ppTask pp" using t d(1) assms(2) by (auto simp: sane_limits_def distinct_map inj_on_def)
    have "inside (tvSubmissions t) (?new # filter (\<lambda>s. suTask s = tvID t) (official_of (rcGroup rc) db))"
      by (rule inside_Cons) (use assms(1) t c(2,4) d(3) e in \<open>simp_all add: limits_hold_def official_store\<close>)
    then show ?thesis by (simp add: official_store e)
  next
    case False
    then show ?thesis using assms(1) t by (simp add: limits_hold_def official_store)
  qed
  ultimately show ?thesis by (simp add: limits_hold_def off)
next
  case False
  then have "official_of (rcGroup rc) (fst (storeSubmission s pp db)) = official_of (rcGroup rc) db"
    using submit_checkD(3) [OF assms(3)] by (simp add: official_store)
  then show ?thesis using assms(1) by (simp add: limits_hold_def)
qed


text \<open>
  Property C38. Two requests at once break the limit: the count is read and the submission stored without a lock in between, so when two
  requests are checked with one submission left, both are stored.
\<close>

theorem submit_race:
  assumes "submit_check s cv outcome allow rc name parse db = Inr pp" "submit_check s cv outcome' allow' rc' name' parse' db = Inr pp'"
    and "MaxNumber (cvSubmissions cv) = Some m" "int (length (official_of (rcGroup rc) db)) = m - 1" "0 < m"
    and "stOfficial (rcStatus rc)" "stOfficial (rcStatus rc')" "pvID (rcPart rc) \<in> set (rcGroup rc)" "pvID (rcPart rc') \<in> set (rcGroup rc)"
  shows "int (length (official_of (rcGroup rc) (fst (storeSubmission s pp' (fst (storeSubmission s pp db)))))) = m + 1
    \<and> \<not> limits_hold cv (rcGroup rc) (fst (storeSubmission s pp' (fst (storeSubmission s pp db))))"
proof -
  have "int (length (official_of (rcGroup rc) (fst (storeSubmission s pp' (fst (storeSubmission s pp db)))))) = m + 1"
    using assms(4,6-9) submit_checkD(3) [OF assms(1)] submit_checkD(3) [OF assms(2)] by (simp add: official_store)
  then show ?thesis using assms(3,5) by (auto simp: limits_hold_def inside_def)
qed

section \<open>Tokens\<close>

definition plays :: "int \<Rightarrow> webDB \<Rightarrow> (int \<times> time) list" where
  "plays pid db = concat (map (\<lambda>(i, tm). case GetSubmission db i of Some s \<Rightarrow> if suPart s = pid then [(suTask s, tm)] else [] | None \<Rightarrow> []) (wdTokens db))"

lemma token_times_plays: "token_times pid db = stable_sort (\<lambda>a b. snd a < snd b) (plays pid db)"
  by (simp add: token_times_def plays_def)

lemma map_snd_sort: "map snd (stable_sort (\<lambda>a b. snd a < snd b) xs) = sort (map snd (xs :: (int \<times> int) list))"
  by (rule sym, rule properties_for_sort) (simp_all add: sorted_stable_sort_key)

inductive token_run :: "contestView \<Rightarrow> int \<Rightarrow> webDB \<Rightarrow> bool" for cv pid where
  start: "plays pid db = [] \<Longrightarrow> token_run cv pid db"
| play: "token_run cv pid db \<Longrightarrow> pvID (rcPart rc) = pid \<Longrightarrow> handleToken cv rc i db = Some (db', r) \<Longrightarrow> token_run cv pid db'"
| other: "token_run cv pid db \<Longrightarrow> plays pid db' = plays pid db \<Longrightarrow> token_run cv pid db'"

text \<open>A refused play changes nothing; an accepted one is on an own official submission, and both pools allow it.\<close>

lemma handleTokenD:
  assumes "handleToken cv rc i db = Some (db', r)"
  shows "db' = db \<or> (\<exists>s t cs ts. db' = db\<lparr>wdTokens := wdTokens db @ [(i, rcNow rc)]\<rparr> \<and> i \<notin> fst ` set (wdTokens db) \<and> GetSubmission db i = Some s
    \<and> suPart s = pvID (rcPart rc) \<and> suOfficial s \<and> \<not> suInvalidated s \<and> t \<in> set (cvTasks cv) \<and> tvID t = suTask s
    \<and> Contest_Tokens.Tokens (cvTokens cv) (stBegin (rcStatus rc)) (map snd (token_times (pvID (rcPart rc)) db)) (rcNow rc) = Some cs \<and> CanPlay cs
    \<and> Contest_Tokens.Tokens (tvTokens t) (stBegin (rcStatus rc)) (map snd (filter (\<lambda>p. fst p = tvID t) (token_times (pvID (rcPart rc)) db))) (rcNow rc) = Some ts \<and> CanPlay ts)"
proof (cases "db' = db")
  case False
  have "tkCanPlay (token_view cs ts) \<longleftrightarrow> CanPlay cs \<and> CanPlay ts" for cs ts by (simp add: token_view_def Let_def)
  note can = this
  obtain s where s: "GetSubmission db i = Some s" using assms False by (cases "GetSubmission db i") (simp_all add: handleToken_def Let_def)
  have p: "suPart s = pvID (rcPart rc)" using assms False s by (auto simp: handleToken_def Let_def split: if_splits)
  obtain t where t: "find (\<lambda>t. tvID t = suTask s) (cvTasks cv) = Some t"
    using assms False s p by (cases "find (\<lambda>t. tvID t = suTask s) (cvTasks cv)") (simp_all add: handleToken_def Let_def)
  have o: "suOfficial s" "\<not> suInvalidated s" using assms False s p t by (auto simp: handleToken_def Let_def split: if_splits)
  obtain cs ts where c: "token_pools cv rc t (token_times (pvID (rcPart rc)) db) = Some (Some (cs, ts))"
    using assms False s p t o by (auto simp: handleToken_def Let_def split: if_splits option.splits)
  have d: "CanPlay cs \<and> CanPlay ts" "i \<notin> fst ` set (wdTokens db)" "db' = db\<lparr>wdTokens := wdTokens db @ [(i, rcNow rc)]\<rparr>"
    using assms False s p t o c by (auto simp: handleToken_def Let_def can split: if_splits)
  have "Contest_Tokens.Tokens (cvTokens cv) (stBegin (rcStatus rc)) (map snd (token_times (pvID (rcPart rc)) db)) (rcNow rc) = Some cs"
    "Contest_Tokens.Tokens (tvTokens t) (stBegin (rcStatus rc)) (map snd (filter (\<lambda>p. fst p = tvID t) (token_times (pvID (rcPart rc)) db))) (rcNow rc) = Some ts"
    using c by (auto simp: token_pools_def split: if_splits Option.bind_splits)
  then show ?thesis using s p o d find_SomeD [OF t] by blast
qed simp

definition spaced :: "duration \<Rightarrow> time list \<Rightarrow> bool" where
  "spaced iv ts \<longleftrightarrow> (0 < iv \<longrightarrow> sorted_wrt (\<lambda>a b. a + iv \<le> b) (sort ts))"

definition in_budget :: "TokenRules \<Rightarrow> time list \<Rightarrow> bool" where
  "in_budget r ts \<longleftrightarrow> (case tMaxNumber r of Some m \<Rightarrow> int (length ts) \<le> max 0 m | None \<Rightarrow> True) \<and> spaced (tMinInterval r) ts"

lemma in_budget_play:
  assumes "in_budget r ts" "Contest_Tokens.Tokens r start ts' now = Some st" "CanPlay st" "mset ts' = mset ts"
  shows "in_budget r (ts @ [now])"
proof -
  note c = Tokens_Some_common [OF assms(2,3)]
  have st: "stable_sort before ts' = sort ts" "length ts' = length ts"
    using assms(4) by (auto simp: before_less stable_sort_less intro: properties_for_sort mset_eq_length)
  have "sort (ts @ [now]) = sort ts @ [now] \<and> sorted_wrt (\<lambda>a b. a + tMinInterval r \<le> b) (sort ts @ [now])" if iv: "0 < tMinInterval r"
  proof (cases "ts = []")
    case False
    have l: "a + tMinInterval r \<le> now" if "a \<in> set ts" for a
      using c iv st False last_sort_ge [OF that] by (auto simp: t_add_def)
    then have "sorted (sort ts @ [now])" using iv by (fastforce simp: sorted_append)
    then have "sort (ts @ [now]) = sort ts @ [now]" by (intro properties_for_sort) simp_all
    then show ?thesis using assms(1) iv l by (auto simp: in_budget_def spaced_def sorted_wrt_append)
  qed simp
  then show ?thesis using assms(1) c st(2) by (auto simp: in_budget_def spaced_def split: option.splits)
qed

text \<open>
  Property C21. The tokens that a contestant played are within the budget of the contest and of every task, whatever the order of the
  requests: no more than the maximum, and the minimum interval between any two.
\<close>

theorem tokens_in_budget:
  assumes "token_run cv pid db" "distinct (map tvID (cvTasks cv))"
  shows "in_budget (cvTokens cv) (map snd (plays pid db))
    \<and> (\<forall>t \<in> set (cvTasks cv). in_budget (tvTokens t) (map snd (filter (\<lambda>p. fst p = tvID t) (plays pid db))))"
  using assms(1)
proof (induction rule: token_run.induct)
  case (start db)
  then show ?case by (auto simp: in_budget_def spaced_def split: option.splits)
next
  case (play db rc i db' r)
  show ?case
  proof (cases "db' = db")
    case False
    then obtain s t cs ts where h: "db' = db\<lparr>wdTokens := wdTokens db @ [(i, rcNow rc)]\<rparr>" "GetSubmission db i = Some s" "suPart s = pvID (rcPart rc)"
      "t \<in> set (cvTasks cv)" "tvID t = suTask s"
      "Contest_Tokens.Tokens (cvTokens cv) (stBegin (rcStatus rc)) (map snd (token_times (pvID (rcPart rc)) db)) (rcNow rc) = Some cs" "CanPlay cs"
      "Contest_Tokens.Tokens (tvTokens t) (stBegin (rcStatus rc)) (map snd (filter (\<lambda>p. fst p = tvID t) (token_times (pvID (rcPart rc)) db))) (rcNow rc) = Some ts" "CanPlay ts"
      using handleTokenD [OF play.hyps(3)] by blast
    have pl: "plays pid db' = plays pid db @ [(suTask s, rcNow rc)]"
      using h(1-3) play.hyps(2) by (simp add: plays_def GetSubmission_def)
    have m: "mset (map snd (filter P (token_times pid db))) = mset (map snd (filter P (plays pid db)))" for P by (simp add: token_times_plays mset_filter)
    have "in_budget (cvTokens cv) (map snd (plays pid db) @ [rcNow rc])"
      using in_budget_play [OF _ h(6,7)] play.IH play.hyps(2) m [of "\<lambda>_. True"] by simp
    moreover have "in_budget (tvTokens t') (map snd (filter (\<lambda>p. fst p = tvID t') (plays pid db')))" if t': "t' \<in> set (cvTasks cv)" for t'
    proof (cases "t' = t")
      case True
      have "in_budget (tvTokens t) (map snd (filter (\<lambda>p. fst p = tvID t) (plays pid db)) @ [rcNow rc])"
        by (rule in_budget_play [OF _ h(8,9)]) (use play.IH h(4) play.hyps(2) m in auto)
      then show ?thesis using True h(5) by (simp add: pl)
    next
      case False
      then have "tvID t' \<noteq> suTask s" using t' h(4,5) assms(2) by (auto simp: distinct_map inj_on_def)
      then show ?thesis using play.IH t' by (simp add: pl)
    qed
    ultimately show ?thesis by (simp add: pl)
  qed (use play.IH in simp)
next
  case (other db db')
  then show ?case by simp
qed

section \<open>Examples\<close>

definition sx_task :: taskView where
  "sx_task = \<lparr>tvID = 4, tvName = ''sum'', tvFormats = [''sum.'' @ [CHR 0x25] @ ''l''], tvNeedsLanguage = True, tvTaskType = ''Batch'', tvDataset = Some (9, []),
     tvSourceLimit = 100, tvLanguages = [ex_language ''cpp'' (f64 1)], tvSubmissionsClosed = False, tvSubmissions = \<lparr>MaxNumber = None, MinInterval = None\<rparr>,
     tvUserTests = \<lparr>MaxNumber = None, MinInterval = None\<rparr>,
     tvTokens = \<lparr>tMode = ''infinite'', tMaxNumber = None, tMinInterval = 0, tGenInitial = 0, tGenNumber = 0, tGenInterval = 0, tGenMax = None\<rparr>\<rparr>"

definition sx_contest :: contestView where
  "sx_contest = \<lparr>cvGate = wx_contest, cvTasks = [sx_task], cvSubmissionsPaused = False, cvSubmissions = \<lparr>MaxNumber = Some 1, MinInterval = Some 60\<rparr>,
     cvMaxSubmissionBytes = None, cvAllowUserTests = False, cvUserTests = \<lparr>MaxNumber = None, MinInterval = None\<rparr>,
     cvTokens = \<lparr>tMode = ''infinite'', tMaxNumber = Some 1, tMinInterval = 0, tGenInitial = 0, tGenNumber = 0, tGenInterval = 0, tGenMax = None\<rparr>,
     cvScoreVisibility = ''always'', cvStopTime = 100 * second\<rparr>"

definition sx_form :: form where
  "sx_form = \<lparr>fmValue = \<lambda>k. if k = ''language'' then ''cpp'' else if k = ''source'' then ''main'' else [], fmFile = \<lambda>_. None\<rparr>"

definition sx_server :: "Worker \<Rightarrow> server" where
  "sx_server w = \<lparr>svMaxSubmissionBytes = 1000, svMaxUserTestBytes = 0, svDigest = rev, svZip = \<lambda>_. None, svWorker = w\<rparr>"

definition sx_db :: webDB where
  "sx_db = \<lparr>wdSubs = [], wdTests = [], wdTokens = [], wdParts = [wx_part]\<rparr>"

definition sx_prepared :: prepared where
  "sx_prepared = \<lparr>ppRc = wx_ctx, ppTask = sx_task, ppFiles = [\<lparr>sfName = ''sum.'' @ [CHR 0x25] @ ''l'', sfData = ''main'', sfDigest = []\<rparr>],
     ppLang = Some (ex_language ''cpp'' (f64 1))\<rparr>"

lemma sx_status: "rcStatus wx_ctx = \<lparr>stPhase = Running, stBegin = 0, stEnd = 100 * second, stRemaining = 90 * second, stCanStart = False, stCanSubmit = True, stOfficial = True\<rparr>"
  by code_simp

lemma sx_ctx: "rcGroup wx_ctx = [7]" "pvID (rcPart wx_ctx) = 7" "\<not> pvUnrestricted (rcPart wx_ctx)" "stOfficial (rcStatus wx_ctx)"
  by (simp_all add: sx_status) (simp_all add: wx_ctx_def wx_part_def)

lemma sx_official: "official_of [7] sx_db = []"
  by (simp add: official_of_def sx_db_def)

lemma sx_checked: "submit_check (sx_server w) sx_contest (\<lambda>_ _. None) True wx_ctx ''sum'' (\<lambda>_. Some sx_form) sx_db = Inr sx_prepared"
proof -
  have "TrimSpace ''main'' \<noteq> []" "ReplaceAll ''main'' [CHR 0x0D, CHR 0x0A] [CHR 0x0A] = ''main''"
    "suffix (''.'' @ [CHR 0x25] @ ''l'') (''sum.'' @ [CHR 0x25] @ ''l'')" by code_simp+
  then have "read_formats sx_form sx_task (Some (ex_language ''cpp'' (f64 1))) 100 (tvFormats sx_task) = Inr (ppFiles sx_prepared)"
    by (simp add: sx_task_def sx_form_def read_format_def Editor_def sx_prepared_def)
  moreover have "choose_language sx_task ''cpp'' = Some (ex_language ''cpp'' (f64 1))" by (simp add: choose_language_def sx_task_def ex_language_def)
  moreover have "per_file 1000 sx_contest sx_task = 100" "submissionLimit (sx_server w) = 1000" by (simp_all add: per_file_def sx_contest_def sx_task_def submissionLimit_def sx_server_def)
  moreover have "fmValue sx_form ''language'' = ''cpp''" "tvNeedsLanguage sx_task" "tvTaskType sx_task = ''Batch''" "ppFiles sx_prepared \<noteq> []"
    by (simp_all add: sx_form_def sx_task_def sx_prepared_def)
  ultimately have "readSources (sx_server w) (\<lambda>_. Some sx_form) sx_contest sx_task (submissionLimit (sx_server w)) = Inr (ppFiles sx_prepared, Some (ex_language ''cpp'' (f64 1)))"
    by (simp add: readSources_def Let_def)
  moreover have "visibleTask sx_contest wx_ctx ''sum'' = Some sx_task" "submitBlocked sx_contest wx_ctx sx_task = []"
    by (simp_all add: visibleTask_def submitBlocked_def sx_status sx_contest_def sx_task_def)
  moreover have "Contest_Limits.Check (cvSubmissions sx_contest) (tvSubmissions sx_task) (SubmissionStats (rcGroup wx_ctx) (tvID sx_task) sx_db) (rcNow wx_ctx) = None"
    by (simp add: Contest_Limits.Check_def count_check_def interval_check_def SubmissionStats_def official_of_def sx_db_def latest_def sx_contest_def sx_task_def unset_iff second_def)
  moreover have "mergePreviousOutputs (sx_server w) (\<lambda>_ _. None) wx_ctx sx_task (ppFiles sx_prepared) sx_db = ppFiles sx_prepared"
    by (simp add: mergePreviousOutputs_def sx_task_def)
  ultimately show ?thesis by (simp add: submit_check_def sx_prepared_def)
qed



theorem submit_race_witness:
  "\<forall>w. \<not> limits_hold sx_contest [7] (fst (storeSubmission (sx_server w) sx_prepared (fst (storeSubmission (sx_server w) sx_prepared sx_db))))"
proof
  fix w
  have "MaxNumber (cvSubmissions sx_contest) = Some 1" by (simp add: sx_contest_def)
  then show "\<not> limits_hold sx_contest [7] (fst (storeSubmission (sx_server w) sx_prepared (fst (storeSubmission (sx_server w) sx_prepared sx_db))))"
    using submit_race [OF sx_checked sx_checked, of 1 w] by (simp add: sx_ctx sx_official)
qed

definition sx_row :: subRow where
  "sx_row = \<lparr>suID = 3, suPart = 7, suTask = 4, suAt = 5 * second, suLang = None, suOfficial = True, suInvalidated = False, suFiles = []\<rparr>"

theorem tokens_in_budget_witness:
  "\<exists>db. handleToken sx_contest wx_ctx 3 (sx_db\<lparr>wdSubs := [sx_row]\<rparr>) = Some (db, Inr ()) \<and> plays 7 db = [(4, 10 * second)]
     \<and> in_budget (cvTokens sx_contest) (map snd (plays 7 db))"
proof -
  let ?before = "sx_db\<lparr>wdSubs := [sx_row]\<rparr>" and ?after = "sx_db\<lparr>wdSubs := [sx_row], wdTokens := [(3, 10 * second)]\<rparr>"
  have now: "rcNow wx_ctx = 10 * second" by (simp add: wx_ctx_def)
  have h: "handleToken sx_contest wx_ctx 3 ?before = Some (?after, Inr ())"
    by code_simp
  have "token_run sx_contest 7 ?before" by (rule token_run.start) (simp add: plays_def sx_db_def)
  then have "token_run sx_contest 7 ?after" by (rule token_run.play) (use h sx_ctx in auto)
  moreover have "distinct (map tvID (cvTasks sx_contest))" by (simp add: sx_contest_def)
  ultimately have "in_budget (cvTokens sx_contest) (map snd (plays 7 ?after))" using tokens_in_budget by blast
  moreover have "plays 7 ?after = [(4, 10 * second)]" by (simp add: plays_def GetSubmission_def sx_row_def)
  ultimately show ?thesis using h by blast
qed

end
