(* ===== verification/Suspicious.thy ===== *)
theory Suspicious
  imports Line_Diff Highlight Go_Strconv
begin

text \<open>
  The scan of submitted sources for code that attacks the judge (\<^verbatim>\<open>src/internal/suspicious/suspicious.go\<close>). The matcher
  of regular expressions is a parameter; the expressions are written with \<^verbatim>\<open>~\<close> for a backslash, \<^verbatim>\<open>@\<close> for a double quote and
  \<^verbatim>\<open>%\<close> for a single one. Language identifiers and extensions are ASCII.
\<close>

section \<open>Rules\<close>

definition Syscall :: string where "Syscall = ''raw system calls''"
definition Process :: string where "Process = ''starts other programs''"
definition Network :: string where "Network = ''uses the network''"
definition SystemFile :: string where "SystemFile = ''reads system files''"
definition Include :: string where "Include = ''includes a file from outside the submission''"
definition Debug :: string where "Debug = ''inspects other processes''"
definition Native :: string where "Native = ''loads or generates native code''"
definition Binary :: string where "Binary = ''binary data in a source file''"

definition rx :: "string \<Rightarrow> string" where
  "rx = map (\<lambda>c. if c = CHR ''~'' then CHR 0x5C else if c = CHR ''@'' then CHR 0x22 else if c = CHR 0x25 then CHR 0x27 else c)"

definition rules :: "string \<Rightarrow> string list \<Rightarrow> (string \<times> string) list" where
  "rules reason exprs = map (\<lambda>e. (reason, rx e)) exprs"

definition systemPaths :: "(string \<times> string) list" where
  "systemPaths = rules SystemFile [''[@%](/proc|/sys|/etc|/root|/home|/var|/boot|/run)/'']"

definition byFamily :: "(string \<times> (string \<times> string) list) list" where
  "byFamily =
   [(''c'',
      rules Syscall [''~bsyscall~s*~('',
        ''~b(asm|__asm__|__asm)~b[^~n]*~b(syscall|sysenter|int~s*~$?0x80|svc~s+#?0)~b''] @
      rules Process [''~b(fork|vfork|execl|execlp|execle|execv|execvp|execvpe|execve|fexecve|system|popen|posix_spawnp?|clone|clone3|unshare|setns)~s*~(''] @
      rules Network [''~bsocket~s*~('',
        ''#~s*include~s*<(sys/socket~.h|netinet/|arpa/inet~.h|netdb~.h|sys/un~.h)''] @
      rules Debug [''~bptrace~s*~('',
        ''#~s*include~s*<sys/ptrace~.h>'',
        ''~bprocess_vm_(readv|writev)~s*~(''] @
      rules Include [''#~s*include~s*[<@](/|[^>@]*~.~./)''] @
      rules Native [''~bdlopen~s*~('',
        ''~bPROT_EXEC~b''] @
      systemPaths),
    (''python'',
      rules Process [''~bos~.(system|popen|fork|forkpty|exec~w*|spawn~w*|posix_spawn~w*)~s*~('',
        ''~bimport~s+(subprocess|pty|multiprocessing)~b'',
        ''~bfrom~s+(subprocess|pty|multiprocessing)~s+import~b''] @
      rules Network [''~bimport~s+(socket|urllib|http|requests|ftplib|smtplib)~b'',
        ''~bfrom~s+(socket|urllib|http|requests)~b[~w.]*~s+import~b''] @
      rules Native [''~bimport~s+(ctypes|cffi|mmap)~b'',
        ''~bfrom~s+(ctypes|cffi)~b''] @
      systemPaths),
    (''java'',
      rules Process [''Runtime~s*~.~s*getRuntime~s*~(~s*~)~s*~.~s*exec'',
        ''~bProcessBuilder~b''] @
      rules Network [''~bjava~.net~.'',
        ''~b(Socket|ServerSocket|DatagramSocket|HttpURLConnection)~s*~(''] @
      rules Native [''~bSystem~s*~.~s*load(Library)?~s*~('',
        ''~bsun~.misc~.Unsafe~b'',
        ''~bjdk~.internal~.''] @
      systemPaths),
    (''rust'',
      rules Process [''~bprocess::Command~b'',
        ''~bCommand::new~s*~(''] @
      rules Network [''~bstd::net~b'',
        ''~b(TcpStream|TcpListener|UdpSocket)~b''] @
      rules Syscall [''~basm!~s*~('',
        ''~blibc::syscall~b''] @
      systemPaths),
    (''go'',
      rules Process [''@os/exec@'',
        ''~bsyscall~.(ForkExec|Exec|StartProcess)~b'',
        ''~bos~.StartProcess~b''] @
      rules Network [''@net@'',
        ''@net/http@'',
        ''@net/rpc@''] @
      rules Syscall [''~b(syscall|unix)~.(Syscall6?|RawSyscall6?)~b''] @
      systemPaths),
    (''csharp'',
      rules Process [''~bSystem~.Diagnostics~.Process~b'',
        ''~bProcess~.Start~s*~(''] @
      rules Network [''~bSystem~.Net~b''] @
      rules Native [''~bDllImport~b''] @
      systemPaths),
    (''haskell'',
      rules Process [''~bimport~s+(qualified~s+)?System~.(Process|Posix~.Process)~b''] @
      rules Network [''~bimport~s+(qualified~s+)?Network~.''] @
      rules Native [''~bforeign~s+import~b''] @
      systemPaths),
    (''pascal'',
      rules Process [''(?i)~b(fpfork|fpexecv~w*|fpsystem|executeprocess)~s*~('',
        ''(?i)~buses~b[^;]*~bprocess~b''] @
      rules Network [''(?i)~buses~b[^;]*~b(sockets|ssockets)~b''] @
      systemPaths)]"

definition families :: "(string \<times> string) list" where
  "families = [(''.c'', ''c''), (''.h'', ''c''), (''.cc'', ''c''), (''.cpp'', ''c''), (''.cxx'', ''c''), (''.hpp'', ''c''), (''.hh'', ''c''), (''.py'', ''python''), (''.java'', ''java''), (''.kt'', ''java''), (''.kts'', ''java''), (''.rs'', ''rust''), (''.go'', ''go''), (''.cs'', ''csharp''), (''.hs'', ''haskell''), (''.pas'', ''pascal''), (''.pp'', ''pascal''), (''.dpr'', ''pascal'')]"

definition langFamilies :: "(string \<times> string) list" where
  "langFamilies = [(''cpp'', ''c''), (''csharp'', ''csharp''), (''c'', ''c''), (''python'', ''python''), (''pypy'', ''python''), (''java'', ''java''), (''kotlin'', ''java''), (''rust'', ''rust''), (''go'', ''go''), (''haskell'', ''haskell''), (''pascal'', ''pascal'')]"

definition family :: "string \<Rightarrow> string \<Rightarrow> string" where
  "family lang name =
     (let i = map lower lang
      in case find (\<lambda>(p, f). i \<noteq> [] \<and> prefix p i) langFamilies of
           Some (p, f) \<Rightarrow> f
         | None \<Rightarrow> (case map_of families (map lower (Ext name)) of Some f \<Rightarrow> f | None \<Rightarrow> []))"

section \<open>The scan\<close>

text \<open>\<^verbatim>\<open>utf8.Valid\<close>: a byte over 127 starts a rune of several bytes.\<close>

function utf8_valid :: "string \<Rightarrow> bool" where
  "utf8_valid s = (if s = [] then True else (of_char (hd s) < (128 :: nat) \<or> 1 < rune_len s) \<and> utf8_valid (drop (rune_len s) s))"
  by pat_completeness auto
termination by (relation "measure length") (auto simp: rune_len_pos)

declare utf8_valid.simps [simp del]

primrec take_runes :: "nat \<Rightarrow> string \<Rightarrow> string" where
  "take_runes 0 s = []"
| "take_runes (Suc n) s = take (rune_len s) s @ take_runes n (drop (rune_len s) s)"

definition clip :: "string \<Rightarrow> string" where
  "clip s = (if RuneCount s \<le> 120 then s else take_runes 117 s @ ellipsis)"

type_synonym flag = "string \<times> string"

definition add_flag :: "flag list \<Rightarrow> flag \<Rightarrow> flag list" where
  "add_flag out f = (if fst f \<in> fst ` set out then out else out @ [f])"

definition scan_line :: "(string \<Rightarrow> string \<Rightarrow> bool) \<Rightarrow> (string \<times> string) list \<Rightarrow> string \<Rightarrow> flag list \<Rightarrow> nat \<times> string \<Rightarrow> flag list" where
  "scan_line re rs name out l =
     foldl (\<lambda>out (reason, e). if reason \<notin> fst ` set out \<and> re e (snd l)
       then add_flag out (reason, name @ '':'' @ Itoa (int (fst l) + 1) @ '': '' @ clip (TrimSpace (snd l))) else out) out rs"

definition scan_file :: "(string \<Rightarrow> string \<Rightarrow> bool) \<Rightarrow> string \<Rightarrow> flag list \<Rightarrow> string \<times> string \<Rightarrow> flag list" where
  "scan_file re lang out f =
     (if CHR 0x00 \<in> set (snd f) \<or> \<not> utf8_valid (snd f) then add_flag out (Binary, fst f)
      else (case map_of byFamily (family lang (fst f)) of
              None \<Rightarrow> out
            | Some rs \<Rightarrow> foldl (scan_line re rs (fst f)) out (enumerate 0 (Split_char (CHR 0x0A) (snd f)))))"

text \<open>The files are the entries of a Go map: names are distinct, and the code sorts them.\<close>

definition Scan :: "(string \<Rightarrow> string \<Rightarrow> bool) \<Rightarrow> string \<Rightarrow> (string \<times> string) list \<Rightarrow> flag list" where
  "Scan re lang files = foldl (scan_file re lang) [] (stable_sort (\<lambda>a b. fst a < fst b) files)"

section \<open>What is reported\<close>

text \<open>Every finding of a file, in the order of its lines and rules.\<close>

definition binary_file :: "string \<times> string \<Rightarrow> bool" where
  "binary_file f \<longleftrightarrow> CHR 0x00 \<in> set (snd f) \<or> \<not> utf8_valid (snd f)"

definition rules_of :: "string \<Rightarrow> string \<times> string \<Rightarrow> (string \<times> string) list" where
  "rules_of lang f = (case map_of byFamily (family lang (fst f)) of Some rs \<Rightarrow> rs | None \<Rightarrow> [])"

definition findings :: "(string \<Rightarrow> string \<Rightarrow> bool) \<Rightarrow> string \<Rightarrow> string \<times> string \<Rightarrow> flag list" where
  "findings re lang f =
     (if binary_file f then [(Binary, fst f)]
      else [(reason, fst f @ '':'' @ Itoa (int i + 1) @ '': '' @ clip (TrimSpace line)).
              (i, line) \<leftarrow> enumerate 0 (Split_char (CHR 0x0A) (snd f)), (reason, e) \<leftarrow> rules_of lang f, re e line])"

lemma scan_line_findings:
  "scan_line re rs name out l = foldl add_flag out [(reason, name @ '':'' @ Itoa (int (fst l) + 1) @ '': '' @ clip (TrimSpace (snd l))). (reason, e) \<leftarrow> rs, re e (snd l)]"
proof (induction rs arbitrary: out)
  case (Cons r rs)
  then show ?case by (cases r) (auto simp: scan_line_def add_flag_def)
qed (simp add: scan_line_def)

lemma scan_lines_findings:
  "foldl (scan_line re rs name) out ls =
     foldl add_flag out [(reason, name @ '':'' @ Itoa (int i + 1) @ '': '' @ clip (TrimSpace line)). (i, line) \<leftarrow> ls, (reason, e) \<leftarrow> rs, re e line]"
  by (induction ls arbitrary: out) (auto simp: scan_line_findings split_beta)

lemma concat_map_Nil: "concat (map (\<lambda>(i, l). []) xs) = []"
  by (induction xs) auto

lemma scan_file_findings: "scan_file re lang out f = foldl add_flag out (findings re lang f)"
  by (auto simp: scan_file_def findings_def binary_file_def rules_of_def scan_lines_findings concat_map_Nil split: option.splits)

lemma scan_files_findings: "foldl (scan_file re lang) out fs = foldl add_flag out (concat (map (findings re lang) fs))"
  by (induction fs arbitrary: out) (simp_all add: scan_file_findings)

lemma add_flags:
  assumes "distinct (map fst out)"
  shows "distinct (map fst (foldl add_flag out fs)) \<and> fst ` set (foldl add_flag out fs) = fst ` set out \<union> fst ` set fs
    \<and> (\<forall>f \<in> set (foldl add_flag out fs). f \<in> set out \<or> fst f \<notin> fst ` set out \<and> find (\<lambda>g. fst g = fst f) fs = Some f)"
  using assms
proof (induction fs arbitrary: out)
  case (Cons g fs)
  show ?case
  proof (cases "fst g \<in> fst ` set out")
    case True
    then have same: "add_flag out g = out" by (simp add: add_flag_def)
    have "f \<in> set out \<or> fst f \<notin> fst ` set out \<and> find (\<lambda>g. fst g = fst f) (g # fs) = Some f"
      if "f \<in> set (foldl add_flag out fs)" for f
      using Cons.IH [OF Cons.prems] True that by (cases "fst g = fst f") auto
    then show ?thesis using Cons.IH [OF Cons.prems] True unfolding foldl_Cons same by auto
  next
    case False
    then have new: "add_flag out g = out @ [g]" by (simp add: add_flag_def)
    have "distinct (map fst (out @ [g]))" using Cons.prems False by auto
    from Cons.IH [OF this] show ?thesis using False unfolding foldl_Cons new by auto
  qed
qed simp

lemma line_reasons: "fst ` set [(r, d). (r, e) \<leftarrow> rs, P e] = {r. \<exists>e. (r, e) \<in> set rs \<and> P e}"
  by (induction rs) (auto simp: image_Un)

lemma lines_reasons:
  "fst ` set [(r, d i l). (i, l) \<leftarrow> ls, (r, e) \<leftarrow> rs, P e l] = {r. \<exists>i l e. (i, l) \<in> set ls \<and> (r, e) \<in> set rs \<and> P e l}"
proof (induction ls)
  case (Cons x ls)
  obtain i l where x: "x = (i, l)" by (cases x)
  have "fst ` set [(r, d i l). (i, l) \<leftarrow> x # ls, (r, e) \<leftarrow> rs, P e l]
      = fst ` set [(r, d i l). (r, e) \<leftarrow> rs, P e l] \<union> fst ` set [(r, d i l). (i, l) \<leftarrow> ls, (r, e) \<leftarrow> rs, P e l]"
    unfolding x by (simp only: list.map concat.simps prod.case set_append image_Un)
  also have "\<dots> = {r. \<exists>e. (r, e) \<in> set rs \<and> P e l} \<union> {r. \<exists>i l e. (i, l) \<in> set ls \<and> (r, e) \<in> set rs \<and> P e l}"
    unfolding Cons.IH line_reasons ..
  finally show ?case unfolding x by auto
qed simp

lemma findings_reasons:
  "reason \<in> fst ` set (findings re lang f) \<longleftrightarrow> (if binary_file f then reason = Binary
     else \<exists>line \<in> set (Split_char (CHR 0x0A) (snd f)). \<exists>e. (reason, e) \<in> set (rules_of lang f) \<and> re e line)"
proof (cases "binary_file f")
  case False
  let ?ls = "Split_char (CHR 0x0A) (snd f)"
  have "reason \<in> fst ` set (findings re lang f) \<longleftrightarrow>
      (\<exists>i line e. (i, line) \<in> set (enumerate 0 ?ls) \<and> (reason, e) \<in> set (rules_of lang f) \<and> re e line)"
    unfolding findings_def if_not_P [OF False] lines_reasons by blast
  also have "\<dots> \<longleftrightarrow> (\<exists>line \<in> snd ` set (enumerate 0 ?ls). \<exists>e. (reason, e) \<in> set (rules_of lang f) \<and> re e line)" by force
  also have "snd ` set (enumerate 0 ?ls) = set ?ls" by (metis list.set_map map_snd_enumerate)
  finally show ?thesis using False by simp
qed (simp add: findings_def)

text \<open>A scan of two files, with the matching of a plain text for the matcher.\<close>

lemma Scan_example:
  "Scan (\<lambda>e l. e = rx ''~bptrace~s*~('' \<and> Index l ''ptrace('' \<noteq> None) ''cpp17''
     [(''b.cpp'', ''int x;'' @ [CHR 0x0A] @ '' ptrace(0);''), (''a.cpp'', [CHR 0xFF])] = [(Binary, ''a.cpp''), (Debug, ''b.cpp:2: ptrace(0);'')]"
  by code_simp

text \<open>
  Property C40. The scan reports every reason for which some file is binary or some line of it matches a rule of its language, each reason once,
  with the first place in the order of the names, lines and rules.
\<close>

theorem Scan_reports:
  "distinct (map fst (Scan re lang files))
   \<and> (\<forall>reason. reason \<in> fst ` set (Scan re lang files) \<longleftrightarrow>
        (\<exists>f \<in> set files. if binary_file f then reason = Binary
          else \<exists>line \<in> set (Split_char (CHR 0x0A) (snd f)). \<exists>e. (reason, e) \<in> set (rules_of lang f) \<and> re e line))
   \<and> (\<forall>f \<in> set (Scan re lang files).
        find (\<lambda>g. fst g = fst f) (concat (map (findings re lang) (stable_sort (\<lambda>a b. fst a < fst b) files))) = Some f)"
proof -
  let ?fs = "concat (map (findings re lang) (stable_sort (\<lambda>a b. fst a < fst b) files))"
  have s: "Scan re lang files = foldl add_flag [] ?fs" by (simp add: Scan_def scan_files_findings)
  have "fst ` set ?fs = (\<Union>f \<in> set files. fst ` set (findings re lang f))" by (auto simp: image_UN)
  then have "reason \<in> fst ` set ?fs \<longleftrightarrow> (\<exists>f \<in> set files. reason \<in> fst ` set (findings re lang f))" for reason by auto
  then show ?thesis unfolding s findings_reasons [symmetric] using add_flags [of "[]" ?fs] by simp
qed

theorem Scan_reports_witness:
  "let re = (\<lambda>e l. e = rx ''~bptrace~s*~('' \<and> Index l ''ptrace('' \<noteq> None);
       files = [(''b.cpp'', ''int x;'' @ [CHR 0x0A] @ '' ptrace(0);''), (''a.cpp'', [CHR 0xFF])]
   in Scan re ''cpp17'' files = [(Binary, ''a.cpp''), (Debug, ''b.cpp:2: ptrace(0);'')]
      \<and> (\<forall>f \<in> set (Scan re ''cpp17'' files).
           find (\<lambda>g. fst g = fst f) (concat (map (findings re ''cpp17'') (stable_sort (\<lambda>a b. fst a < fst b) files))) = Some f)"
  unfolding Let_def using Scan_example
    Scan_reports [of "\<lambda>e l. e = rx ''~bptrace~s*~('' \<and> Index l ''ptrace('' \<noteq> None" "''cpp17''"
      "[(''b.cpp'', ''int x;'' @ [CHR 0x0A] @ '' ptrace(0);''), (''a.cpp'', [CHR 0xFF])]"] by blast

end
