(* ===== verification/Spec2Isabelle.thy ===== *)
theory Spec2Isabelle
  imports Contest_Timing Contest_Limits Contest_Tokens Verdicts Score_Editor Ranking_Sync Checkers Judging_Props
    Highlight Plagiarism_Compare User_Test_Props Dispatching_Props Slots Task_Type_Props Job_Queue Leases
    Line_Diff Submitting_Props Suspicious
begin

text \<open>
  A verification of the core of the contest management system (Go, under
  \<^verbatim>\<open>src/internal\<close>).

  \<^bold>\<open>The program.\<close> Contestants submit programs through a web server, which
  asks the contest rules whether they may (package \<^verbatim>\<open>contest\<close>: timing, limits,
  tokens). The dispatcher (\<^verbatim>\<open>dispatcher\<close>) makes jobs of a submission, workers
  compile and run it and judge each output with a checker (\<^verbatim>\<open>checkers\<close>), and the
  dispatcher turns their results into evaluations, a score (\<^verbatim>\<open>scoring\<close>), the score
  of the contestant on the task, and ranking updates. The ranking (\<^verbatim>\<open>ranking\<close>)
  orders the contestants, a pusher (\<^verbatim>\<open>rankingpush\<close>) sends the public board and its
  changes to ranking servers (\<^verbatim>\<open>rankingweb\<close>), and these announce them to spectators.
  Administrators read the sources (\<^verbatim>\<open>highlight\<close>), compare them (\<^verbatim>\<open>plagiarism\<close>, \<^verbatim>\<open>adminweb/diff.go\<close>)
  and see which ones attack the judge (\<^verbatim>\<open>suspicious\<close>).

  \<^bold>\<open>Foundations.\<close> \<open>Prelude\<close>: results with errors as sums (\<^term>\<open>Inl e\<close> the
  error), early returns, the stable sort, and the locale \<open>strict_weak_order\<close> of its
  comparison functions with the laws of sorting. \<open>Go_Float\<close>: \<^verbatim>\<open>float64\<close> as
  rationals with rounding to 53 bits, the locale \<open>rounded_arith\<close> of the laws the scoring
  relies on, interpreted on that type. \<open>Go_Time\<close>: instants and durations with the
  wrap-around and saturation of package \<^verbatim>\<open>time\<close>. \<open>Go_Json\<close>, \<open>Go_Strconv\<close>, \<open>Go_Strings\<close>: what
  the code uses of the encodings, of maps and of package \<^verbatim>\<open>strings\<close> on byte strings.

  \<^bold>\<open>Contest rules.\<close>
  \<^item> \<open>Contest_Timing\<close> (contest/timing.go): the phase of a contest and what a participant may do
    at an instant. Official submissions are accepted exactly in the participant's window;
    phases only advance.
  \<^item> \<open>Contest_Limits\<close> (contest/limits.go): the checks of counts and intervals; what is allowed
    and which violation is reported.
  \<^item> \<open>Contest_Tokens\<close> (contest/tokens.go): the pool of tokens is the replay of generations and
    plays; the loop over the generations is a \<^theory_text>\<open>partial_function\<close> and is proved to return
    for every play.

  \<^bold>\<open>The contest web server.\<close>
  \<^item> \<open>Web_Session\<close> (webkit/session.go, contestweb/auth.go, contestweb/server.go): base64, signed cookies,
    anti-forgery tokens, logins and every check between a request and its handler. A cookie is read back as
    it was written; what a request that changes something went through; one accepted session per
    contestant over the inductive relation \<open>login_run\<close> of logins, edits and resets.
  \<^item> \<open>Submitting\<close> (contestweb/handlers.go, usertests.go, tokens.go, cache.go): starting, submitting, user tests
    and tokens over the rows of the database (\<open>webDB\<close>). \<open>Submitting_Props\<close>: what an accepted submission
    fulfils, the limits over serial runs (\<open>serial_run\<close>) and the race that breaks them, the budget of tokens
    over runs of plays (\<open>token_run\<close>). It composes with \<open>Contest_Timing\<close>, \<open>Contest_Limits\<close> and \<open>Contest_Tokens\<close>.

  \<^bold>\<open>Scores.\<close>
  \<^item> \<open>Score_Types\<close> (scoring/scoretypes.go): construction of Sum and group score types from
    their parameters, scores, the testcases that may be skipped. Scores are bounded and
    monotone, skipping is sound; two examples show where a perfect score and the maximum differ.
  \<^item> \<open>Score_Modes\<close> (scoring/modes.go): aggregation over submissions in the four modes and the
    ICPC view, each against a specification over the set of submissions.
  \<^item> \<open>Verdicts\<close> (scoring/verdict.go), \<open>Score_Editor\<close> (scoring/editor.go): verdicts; the round
    trip of the subtask editor and its agreement with the score types.
  \<^item> \<open>Checkers\<close> (checkers/checkers.go): the comparators on buffered streams equal comparisons of
    whole files, for every size of the buffer and every outcome of reading. The loops over lines
    and tokens carry fuel, the sum of the lengths of both streams, and are proved never to
    run out of it. The two protocols of checkers.

  \<^bold>\<open>Judging.\<close>
  \<^item> \<open>Langs\<close> (langs/langs.go): the registry of languages; a loaded registry is valid.
  \<^item> \<open>Jobs\<close> (jobs/jobs.go, and the messages of queue/queue.go and events/events.go): job
    messages; the compile key determines the inputs of a compilation, given an injective hash
    and encoding.
  \<^item> \<open>Judging_Db\<close> (db/sqlc): the tables and the statements of the judging. A table is a list or a
    map, a statement a function on the record \<open>DB\<close>.
  \<^item> \<open>Judging\<close> (dispatcher/judging.go, shortcircuit.go, datasets.go, compilecache.go, reeval.go):
    the handlers as transactions. Each returns the new tables and the collected effects, or
    rolls back, or panics (\<open>tx_result\<close>).
  \<^item> \<open>Judging_Correct\<close>: the invariant of a result row and that every handler keeps it, runs as
    the inductive relation \<open>judging\<close> over arbitrary interleavings, honest workers as the
    only assumption on results. \<open>Judging_Props\<close>: the judged score, that enough results
    finish, exact recovery of lost work, bounded retries, stale generations, and the crash on
    invalid score type parameters.
  \<^item> \<open>User_Tests\<close> (dispatcher/usertests.go, testcasejobs.go): the runs of contestants and
    administrators and the jobs that make a testcase of two runs, as transactions over further
    tables. \<open>User_Test_Props\<close>: a run ends once, a testcase is made of the outputs of its runs, and
    the run that cannot be built and strands its job.
  \<^item> \<open>Dispatching\<close> (dispatcher/dispatcher.go, sweep.go, the rest of judging.go and reeval.go): the
    events, the processing of results, the effects after a commit and the sweeper, over the
    database, the dataset cache and what was sent (\<open>World\<close>). The sweeper's 1000 pages are the
    code's own bound. \<open>Dispatching_Props\<close>: a sweep creates every missing result, a new
    submission gets its results, a change of the live dataset updates every score.

  \<^bold>\<open>Queues.\<close>
  \<^item> \<open>Job_Queue\<close> (queue/queue.go, monitor/monitor.go): the streams of jobs over Redis, which is the
    record \<open>Redis\<close> with the documented laws of streams as the locale \<open>redis_streams\<close>, interpreted on
    streams in memory. Runs are the inductive relation \<open>queue_run\<close> over the commands of the
    dispatcher, the workers and the monitor. No job is lost, priorities are honoured; the read that strands a
    job and the gap in which the monitor loses one.
  \<^item> \<open>Leases\<close> (queue/lease.go, warm.go, workers.go): the lease of the replicas as the inductive relation
    \<open>lease_run\<close>; one leader while renewals are recent, and two when Redis is not reached. The set of blobs to
    fetch early and the toolchains of the workers.

  \<^bold>\<open>Workers.\<close>
  \<^item> \<open>Sandbox\<close> (sandbox/sandbox.go, stage.go): the isolate command line, its report and the status
    it is classified to, the files of a box. \<open>Slots\<close> (sandbox/slot.go): the two boxes behind a
    logical one, as the inductive relation \<open>slot_run\<close> over calls and background initialisations;
    a box that is handed out is fresh.
  \<^item> \<open>Task_Types\<close> (tasktypes, worker/executor.go, the loop of worker/service.go): the five task types
    from their parameters to evaluations, compilation, checkers, interaction, user tests,
    validation, and the execution of a job. What lies outside is in the record \<open>Worker\<close>:
    isolate, the blob store, globbing, compile seeds, the build of managers, error texts.
    \<open>Task_Type_Props\<close>: points only for programs that ended well and within their limits, the
    classes of errors as the locales \<open>error_class\<close> and \<open>plain_errors\<close>, safe compilations, and that
    the results of a job are the honest ones that \<open>Judging_Correct\<close> asks for.

  \<^bold>\<open>Ranking.\<close>
  \<^item> \<open>Rank_Order\<close>: comparison, ranks and places for any kind of row, as the locale \<open>rank_order\<close>;
    \<open>Ranking_Core\<close> (ranking/ranking.go, medals.go) and \<open>Ranking_Board\<close> (ranking/board.go)
    interpret it on the rows of the ranking and of the board. Ranks, medals, anonymity, teams.
  \<^item> \<open>Ranking_Replay\<close> (ranking/replay.go): the ranking as of an instant; the frozen ranking
    depends on nothing after the freeze.
  \<^item> \<open>Ranking_Server\<close> (rankingweb/server.go, board.go): pushes, deltas, persistence and the
    messages to spectators; a spectator in step stays in step. \<open>Ranking_Push\<close>
    (rankingpush/pusher.go, photos.go): what is sent when, and what a failure requeues.
  \<^item> \<open>Ranking_Sync\<close>: pusher, network and servers together as the inductive relation \<open>run\<close>;
    a server shows the board that was sent under its sequence number. A closed example shows
    how sequence numbers of two pusher processes collide.

  \<^bold>\<open>Sources.\<close>
  \<^item> \<open>Highlight\<close> (highlight/highlight.go): the syntaxes, the tokenizer and the HTML of a source. The
    tokenizer's loop is a \<^theory_text>\<open>partial_function\<close>, proved to end for every registered syntax; what a
    browser reads from the page is the source and nothing else.
  \<^item> \<open>Plagiarism\<close> (plagiarism/plagiarism.go): normalised tokens, rolling hashes at 64 bits, winnowing
    with base code, comparison and matched lines. The rolling hash is the hash of its window, the
    incremental winnowing keeps the rightmost minimum of every window, and a common run of the
    guaranteed length is found. \<open>Plagiarism_Compare\<close>: the comparison over the inverted index equals
    the comparison of all pairs; the lines of the side-by-side view.
  \<^item> \<open>Line_Diff\<close> (adminweb/diff.go): the line diff of Myers. Its result is a diff with the right line
    numbers and a shortest one when there is one within the bound, by the furthest reaching points
    of paths in the edit graph (the inductive relation \<open>path\<close>).
  \<^item> \<open>Suspicious\<close> (suspicious/suspicious.go): the rules per language and the scan; every reason that
    occurs is reported once, with its first place.

  \<^bold>\<open>Parameters.\<close> Regular expressions, \<^verbatim>\<open>strconv.ParseFloat\<close>, the hash and the
  JSON encodings of languages and jobs, the commands of Redis, the decoding of YAML files, the rendering of errors and of
  HTML rows, HMAC, the JSON of sessions, the password check, the rate limiter, the multipart and zip readers, and the clock are arguments of the definitions. Numbers that the code keeps in
  \<^verbatim>\<open>int64\<close> are integers, with the wrap-around written out where the code computes with
  unchecked values (durations, counts of the score parameters); identifiers and counters of the
  tables are unbounded. Infinite floats and NaN are outside \<^verbatim>\<open>f64\<close>; where the code
  tells them apart (the checkers' protocols) they are explicit values.

  \<^bold>\<open>Not modelled.\<close> The inside of isolate and of the seccomp launcher, compile seeds, warm-up and
  toolchains of the workers; the streams of events and results of
  Redis; the pages of the web interfaces, registration, questions, printing and administration with their statements;
  the caches of the web server, whose entries live for seconds; statements of problems, packages, certificates and backup: they are I/O or rendering. Database errors
  appear only as the transaction that did not happen, and a failed publication after a commit as
  one that was not read.
\<close>

end
